(* ===== verification/Prelude.thy ===== *)
theory Prelude
  imports Main "HOL-Library.Word"
begin

unbundle bit_operations_syntax

text \<open>
  Shared vocabulary of the development: the machine types of the client, results that
  may carry an exception, and generic lemmas on lists and words that the component
  theories use.
  \<^item> \<open>byte\<close>, \<open>bytes\<close>: \<open>dev::byte\<close> and \<open>dev::bytes\<close> of libdevcore/Common.h; a
    \<open>bytesConstRef\<close> is modelled by the list of the bytes it refers to;
  \<^item> \<open>u256\<close>, \<open>u160\<close>: the fixed width integers of boost::multiprecision, arithmetic
    modulo the width; \<open>bigint\<close> is \<open>int\<close>, or \<open>nat\<close> where the code only feeds it
    unsigned values;
  \<^item> a C++ function that may throw returns \<open>'e + 'a\<close>: \<open>Inl\<close> is the exception, \<open>Inr\<close> the
    normal result. \<open>bindE\<close> is sequential composition with exceptions.
\<close>

section \<open>Machine types\<close>

type_synonym byte = "8 word"
type_synonym bytes = "byte list"
type_synonym u64 = "64 word"
type_synonym u160 = "160 word"
type_synonym u256 = "256 word"

section \<open>Named collections\<close>

named_theorems exn_simps \<open>evaluation of computations with exceptions\<close>
named_theorems enc_simps \<open>lengths and inverses of the byte encodings\<close>

section \<open>Computations that may throw\<close>

fun bindE :: "'e + 'a \<Rightarrow> ('a \<Rightarrow> 'e + 'b) \<Rightarrow> 'e + 'b" where
  "bindE (Inl e) f = Inl e"
| "bindE (Inr x) f = f x"

definition throw_if :: "bool \<Rightarrow> 'e \<Rightarrow> 'e + unit" where
  "throw_if c e = (if c then Inl e else Inr ())"

lemma bindE_Inr_iff [exn_simps]: "bindE m f = Inr y \<longleftrightarrow> (\<exists>x. m = Inr x \<and> f x = Inr y)"
  by (cases m) auto

lemma bindE_Inl_iff [exn_simps]:
  "bindE m f = Inl e \<longleftrightarrow> m = Inl e \<or> (\<exists>x. m = Inr x \<and> f x = Inl e)"
  by (cases m) auto

lemma throw_if_Inr_iff [exn_simps]: "throw_if c e = Inr u \<longleftrightarrow> \<not> c"
  by (simp add: throw_if_def)

lemma throw_if_Inl_iff [exn_simps]: "throw_if c e = Inl e' \<longleftrightarrow> c \<and> e' = e"
  by (auto simp add: throw_if_def)

lemma throw_if_False [simp]: "throw_if False e = Inr ()"
  by (simp add: throw_if_def)

lemma throw_if_True [simp]: "throw_if True e = Inl e"
  by (simp add: throw_if_def)

lemma bindE_Inr [simp]: "bindE m Inr = m"
  by (cases m) auto

lemma bindE_assoc: "bindE (bindE m f) g = bindE m (\<lambda>x. bindE (f x) g)"
  by (cases m) auto

lemma bindE_cong [fundef_cong]:
  "m = m' \<Longrightarrow> (\<And>x. m' = Inr x \<Longrightarrow> f x = f' x) \<Longrightarrow> bindE m f = bindE m' f'"
  by (cases m') auto

fun mapE :: "('a \<Rightarrow> 'e + 'b) \<Rightarrow> 'a list \<Rightarrow> 'e + 'b list" where
  "mapE f [] = Inr []"
| "mapE f (x # xs) = bindE (f x) (\<lambda>y. bindE (mapE f xs) (\<lambda>ys. Inr (y # ys)))"

lemma mapE_Inr_length: "mapE f xs = Inr ys \<Longrightarrow> length ys = length xs"
  by (induction xs arbitrary: ys) (auto simp: exn_simps)

lemma mapE_Inr_all: "(\<And>x. x \<in> set xs \<Longrightarrow> f x = Inr (g x)) \<Longrightarrow> mapE f xs = Inr (map g xs)"
  by (induction xs) auto

section \<open>Bytes\<close>

lemma unat_byte_lt [simp]: "unat (b :: byte) < 256"
  using unsigned_less [of b, where ?'a = nat] by simp

lemma unat_of_nat_byte [simp]: "unat (of_nat n :: byte) = n mod 256"
  by (simp add: unat_of_nat)

lemma of_nat_unat_byte [simp]: "(of_nat (unat b) :: byte) = b"
  by simp

lemma of_nat_byte_mod: "(of_nat (n mod 256) :: byte) = of_nat n"
  by (metis of_nat_unat_byte unat_of_nat_byte)

lemma of_nat_byte_less_iff: "n < 256 \<Longrightarrow> m < 256 \<Longrightarrow> (of_nat n :: byte) < of_nat m \<longleftrightarrow> n < m"
  by (simp add: word_less_nat_alt)

lemma of_nat_byte_eq_iff: "n < 256 \<Longrightarrow> m < 256 \<Longrightarrow> (of_nat n :: byte) = of_nat m \<longleftrightarrow> n = m"
  by (metis mod_less unat_of_nat_byte)

section \<open>Numbers and lists\<close>

lemma mod_mult_add_left: "(a mod m * k + u) mod m = (a * k + u) mod (m :: nat)"
  by (metis mod_add_left_eq mod_mult_left_eq)

lemma take_drop_mid: "p \<le> length xs \<Longrightarrow> take p xs @ drop p xs = xs"
  by simp

lemma dropWhile_length_le: "length (dropWhile P xs) \<le> length xs"
  by (rule length_dropWhile_le)

section \<open>Interface: encodings that can be read back\<close>

text \<open>
  The contract that a pair of an encoder and a decoder keeps: on the values the encoder is
  meant for, decoding gives the value back. Its consequences are used for every such pair
  of the development (hexadecimal text, fixed width integers, RLP integers, hex-prefix paths).
\<close>

locale codec =
  fixes enc :: "'a \<Rightarrow> 'b"
    and dec :: "'b \<Rightarrow> 'c + 'a"
    and good :: "'a \<Rightarrow> bool"
  assumes dec_enc: "good x \<Longrightarrow> dec (enc x) = Inr x"
begin

lemma enc_inject: "good x \<Longrightarrow> good y \<Longrightarrow> enc x = enc y \<longleftrightarrow> x = y"
  using dec_enc by (metis Inr_inject)

lemma enc_inj_on: "inj_on enc {x. good x}"
  by (rule inj_onI) (simp add: enc_inject)

lemma mapE_dec_enc: "list_all good xs \<Longrightarrow> mapE dec (map enc xs) = Inr xs"
  by (induction xs) (simp_all add: dec_enc)

lemma map_enc_inject:
  "list_all good xs \<Longrightarrow> list_all good ys \<Longrightarrow> map enc xs = map enc ys \<longleftrightarrow> xs = ys"
  by (metis mapE_dec_enc Inr_inject)

end

end
