(* ===== verification/CommonData.thy ===== *)
theory CommonData
  imports Prelude
begin

text \<open>
  Conversions between integers, byte strings, nibbles and hexadecimal text, from
  libdevcore/CommonData.h and libdevcore/CommonData.cpp: \<open>toBigEndian\<close>, \<open>fromBigEndian\<close>,
  \<open>bytesRequired\<close>, \<open>toCompactBigEndian\<close>, \<open>toHex\<close>, \<open>fromHex\<close>, \<open>isHex\<close>, \<open>asNibbles\<close>,
  \<open>commonPrefix\<close> and \<open>escaped\<close>, with their round trips. The integer type \<open>T\<close> of the
  templates is a \<open>nat\<close>; where the code truncates to a fixed width the width is an
  argument (\<open>None\<close> for \<open>bigint\<close>).
\<close>

section \<open>Big endian integers\<close>

text \<open>\<open>toBigEndian(_val, o_out)\<close> with \<open>o_out.size() = n\<close>: bytes are written from the back,
  the value shifted right by eight each time.\<close>

fun toBigEndian :: "nat \<Rightarrow> nat \<Rightarrow> bytes" where
  "toBigEndian v 0 = []"
| "toBigEndian v (Suc n) = toBigEndian (v div 256) n @ [of_nat (v mod 256)]"

text \<open>\<open>fromBigEndian<T>\<close>: each step truncates to the width of \<open>T\<close>.\<close>

definition trunc_to :: "nat option \<Rightarrow> nat \<Rightarrow> nat" where
  "trunc_to w v = (case w of None \<Rightarrow> v | Some k \<Rightarrow> v mod 2 ^ k)"

definition fromBigEndian :: "nat option \<Rightarrow> bytes \<Rightarrow> nat" where
  "fromBigEndian w bs = foldl (\<lambda>ret b. trunc_to w (ret * 256 + unat b)) 0 bs"

fun bytesRequired :: "nat \<Rightarrow> nat" where
  "bytesRequired i = (if i = 0 then 0 else Suc (bytesRequired (i div 256)))"

declare bytesRequired.simps [simp del]

definition toCompactBigEndian :: "nat \<Rightarrow> nat \<Rightarrow> bytes" where
  "toCompactBigEndian v mn = toBigEndian v (max mn (bytesRequired v))"

abbreviation be_value :: "bytes \<Rightarrow> nat" where
  "be_value \<equiv> fromBigEndian None"

lemma length_toBigEndian [simp, enc_simps]: "length (toBigEndian v n) = n"
  by (induction n arbitrary: v) auto

lemma bytesRequired_0 [simp]: "bytesRequired 0 = 0"
  by (simp add: bytesRequired.simps)

lemma bytesRequired_pos: "0 < v \<Longrightarrow> 0 < bytesRequired v"
  by (subst bytesRequired.simps) simp

lemma bytesRequired_eq_0 [simp]: "bytesRequired v = 0 \<longleftrightarrow> v = 0"
  by (subst bytesRequired.simps) simp

lemma bytesRequired_bound: "v < 256 ^ bytesRequired v"
proof (induction v rule: bytesRequired.induct)
  case (1 v)
  show ?case
  proof (cases "v = 0")
    case False
    with "1" have "v div 256 < 256 ^ bytesRequired (v div 256)" by simp
    then have "v < 256 * 256 ^ bytesRequired (v div 256)" by simp
    with False show ?thesis by (subst bytesRequired.simps) simp
  qed simp
qed

lemma bytesRequired_least: "v < 256 ^ n \<Longrightarrow> bytesRequired v \<le> n"
proof (induction v arbitrary: n rule: bytesRequired.induct)
  case (1 v)
  show ?case
  proof (cases "v = 0")
    case False
    with "1.prems" obtain m where m: "n = Suc m" by (cases n) auto
    with "1.prems" have "v div 256 < 256 ^ m"
      by (simp add: less_mult_imp_div_less mult.commute)
    with False "1.IH" have "bytesRequired (v div 256) \<le> m" by simp
    with False m show ?thesis by (subst bytesRequired.simps) simp
  qed simp
qed

lemma bytesRequired_lower: "0 < v \<Longrightarrow> 256 ^ (bytesRequired v - 1) \<le> v"
proof -
  assume v: "0 < v"
  show ?thesis
  proof (rule ccontr)
    assume "\<not> ?thesis"
    then have "v < 256 ^ (bytesRequired v - 1)" by simp
    then have "bytesRequired v \<le> bytesRequired v - 1" by (rule bytesRequired_least)
    with bytesRequired_pos [OF v] show False by simp
  qed
qed

lemma be_value_Nil [simp]: "be_value [] = 0"
  by (simp add: fromBigEndian_def)

lemma be_value_snoc [simp]: "be_value (bs @ [b]) = be_value bs * 256 + unat b"
  by (simp add: fromBigEndian_def trunc_to_def)

lemma be_value_toBigEndian: "be_value (toBigEndian v n) = v mod 256 ^ n"
proof (induction n arbitrary: v)
  case (Suc n)
  have "v mod (256 * 256 ^ n) = 256 * (v div 256 mod 256 ^ n) + v mod 256"
    by (rule mod_mult2_eq)
  then show ?case by (simp add: Suc)
qed simp

lemma toBigEndian_be_value: "toBigEndian (be_value bs) (length bs) = bs"
  by (induction bs rule: rev_induct) auto

lemma be_value_bound: "be_value bs < 256 ^ length bs"
  by (metis be_value_toBigEndian toBigEndian_be_value mod_less_divisor zero_less_numeral
      zero_less_power)

lemma fromBigEndian_eq: "fromBigEndian w bs = trunc_to w (be_value bs)"
proof (induction bs rule: rev_induct)
  case (snoc b bs)
  then show ?case
    by (cases w) (simp_all add: fromBigEndian_def trunc_to_def mod_mult_add_left)
qed (simp add: fromBigEndian_def trunc_to_def split: option.split)

lemma fromBigEndian_Some: "fromBigEndian (Some k) bs = be_value bs mod 2 ^ k"
  using fromBigEndian_eq [of "Some k" bs] by (simp add: trunc_to_def)

lemma be_value_Cons: "be_value (b # bs) = unat b * 256 ^ length bs + be_value bs"
proof (induction bs rule: rev_induct)
  case (snoc c bs)
  have "be_value (b # bs @ [c]) = be_value (b # bs) * 256 + unat c"
    using be_value_snoc [of "b # bs" c] by simp
  with snoc show ?case by (simp add: algebra_simps)
qed (simp add: fromBigEndian_def trunc_to_def)

lemma toBigEndian_hd_nonzero:
  assumes "0 < v"
  shows "hd (toBigEndian v (bytesRequired v)) \<noteq> 0"
proof
  let ?n = "bytesRequired v" and ?bs = "toBigEndian v (bytesRequired v)"
  assume z: "hd ?bs = 0"
  from assms have "?bs \<noteq> []"
    by (metis bytesRequired_pos length_toBigEndian length_greater_0_conv)
  then have "?bs = 0 # tl ?bs" using z by (metis list.collapse)
  then have "be_value ?bs = be_value (tl ?bs)"
    by (metis (no_types, lifting) be_value_Cons add_0 mult_0 unsigned_0)
  also have "\<dots> < 256 ^ length (tl ?bs)" by (rule be_value_bound)
  finally have "v < 256 ^ (?n - 1)"
    using bytesRequired_bound [of v] by (simp add: be_value_toBigEndian)
  with bytesRequired_lower [OF assms] show False by simp
qed

lemma toBigEndian_inj:
  "v < 256 ^ n \<Longrightarrow> v' < 256 ^ n \<Longrightarrow> toBigEndian v n = toBigEndian v' n \<Longrightarrow> v = v'"
  by (metis be_value_toBigEndian mod_less)

lemma be_value_compact: "be_value (toCompactBigEndian v mn) = v"
proof -
  have "v < 256 ^ max mn (bytesRequired v)"
    by (rule less_le_trans [OF bytesRequired_bound]) simp
  then show ?thesis by (simp add: toCompactBigEndian_def be_value_toBigEndian)
qed

section \<open>Hexadecimal text\<close>

text \<open>\<open>fromHexChar\<close> returns \<open>-1\<close> for a character that is no digit.\<close>

definition fromHexChar :: "char \<Rightarrow> int" where
  "fromHexChar c =
     (let n = (of_char c :: nat) in
      if 48 \<le> n \<and> n \<le> 57 then int n - 48
      else if 97 \<le> n \<and> n \<le> 102 then int n - 97 + 10
      else if 65 \<le> n \<and> n \<le> 70 then int n - 65 + 10
      else -1)"

definition hexdigit :: "nat \<Rightarrow> char" where
  "hexdigit k = ''0123456789abcdef'' ! k"

fun toHex :: "bytes \<Rightarrow> string \<Rightarrow> string" where
  "toHex bs prefix =
     prefix @ concat (map (\<lambda>b. [hexdigit (unat (drop_bit 4 b AND 0x0f)), hexdigit (unat (b AND 0x0f))]) bs)"

definition isHex :: "string \<Rightarrow> bool" where
  "isHex s = list_all (\<lambda>c. fromHexChar c \<noteq> -1) (if take 2 s = ''0x'' then drop 2 s else s)"

datatype hex_exn = BadHexCharacter

datatype when_error = DontThrow | Throw

text \<open>The pairs of digits left after the prefix and an odd first digit; a bad digit throws, or
  makes the whole result empty.\<close>

fun fromHex_pairs :: "string \<Rightarrow> when_error \<Rightarrow> bytes \<Rightarrow> hex_exn + bytes" where
  "fromHex_pairs (a # b # r) th ret =
     (let h = fromHexChar a; l = fromHexChar b in
      if h \<noteq> -1 \<and> l \<noteq> -1 then fromHex_pairs r th (ret @ [of_int (h * 16 + l)])
      else if th = Throw then Inl BadHexCharacter
      else Inr [])"
| "fromHex_pairs _ th ret = Inr ret"

definition fromHex :: "string \<Rightarrow> when_error \<Rightarrow> hex_exn + bytes" where
  "fromHex s th =
     (let start = (if length s \<ge> 2 \<and> s ! 0 = CHR ''0'' \<and> s ! 1 = CHR ''x'' then 2 else 0) in
      if length s mod 2 \<noteq> 0
      then let h = fromHexChar (s ! start) in
        if h \<noteq> -1 then fromHex_pairs (drop (start + 1) s) th [of_int h]
        else if th = Throw then Inl BadHexCharacter
        else Inr []
      else fromHex_pairs (drop start s) th [])"

definition asNibbles :: "bytes \<Rightarrow> bytes" where
  "asNibbles s = concat (map (\<lambda>i. [i div 16, i mod 16]) s)"

fun commonPrefix :: "'a list \<Rightarrow> 'a list \<Rightarrow> nat" where
  "commonPrefix (a # t) (b # u) = (if a \<noteq> b then 0 else Suc (commonPrefix t u))"
| "commonPrefix _ _ = 0"

lemma commonPrefix_take: "take (commonPrefix t u) t = take (commonPrefix t u) u"
  by (induction t u rule: commonPrefix.induct) auto

lemma commonPrefix_le: "commonPrefix t u \<le> length t" "commonPrefix t u \<le> length u"
  by (induction t u rule: commonPrefix.induct) auto

lemma commonPrefix_maximal:
  "take n t = take n u \<Longrightarrow> n \<le> length t \<Longrightarrow> n \<le> length u \<Longrightarrow> n \<le> commonPrefix t u"
proof (induction t u arbitrary: n rule: commonPrefix.induct)
  case (1 a t b u)
  then show ?case by (cases n) auto
qed auto

lemma fromHexChar_hexdigit: "k < 16 \<Longrightarrow> fromHexChar (hexdigit k) = int k"
proof -
  have "\<forall>k \<in> {..<16}. fromHexChar (hexdigit k) = int k" by code_simp
  then show "k < 16 \<Longrightarrow> fromHexChar (hexdigit k) = int k" by blast
qed

lemma and_0x0f: "(b :: byte) AND 0x0f = take_bit 4 b"
  by (simp add: take_bit_eq_mask mask_eq_exp_minus_1)

lemma unat_nibbles:
  "unat (b AND 0x0f :: byte) = unat b mod 16"
  "unat (drop_bit 4 b :: byte) mod 16 = unat b div 16"
proof -
  show "unat (b AND 0x0f) = unat b mod 16"
    unfolding and_0x0f by (simp add: unsigned_take_bit_eq) (simp add: take_bit_eq_mod)
  have "unat b div 16 < 16" using unat_byte_lt [of b] by linarith
  then show "unat (drop_bit 4 b) mod 16 = unat b div 16"
    by (simp add: unsigned_drop_bit_eq) (simp add: take_bit_eq_mod drop_bit_eq_div)
qed

lemma fromHex_pairs_toHex: "fromHex_pairs (toHex bs []) th ret = Inr (ret @ bs)"
proof (induction bs arbitrary: ret)
  case (Cons b bs)
  have "unat b div 16 < 16" "unat b mod 16 < 16" using unat_byte_lt [of b] by linarith+
  then have d: "fromHexChar (hexdigit (unat b div 16)) = int (unat b div 16)"
    "fromHexChar (hexdigit (unat b mod 16)) = int (unat b mod 16)"
    by (simp_all only: fromHexChar_hexdigit)
  have "unat b div 16 * 16 + unat b mod 16 = unat b" by simp
  then have "int (unat b div 16) * 16 + int (unat b mod 16) = int (unat b)"
    by (metis of_nat_add of_nat_mult of_nat_numeral)
  then have v: "(of_int (int (unat b div 16) * 16 + int (unat b mod 16)) :: byte) = b"
    by (simp only: of_int_of_nat_eq of_nat_unat_byte)
  show ?case
    using Cons [of "ret @ [b]"] by (simp add: unat_nibbles d v Let_def del: of_int_add of_int_mult)
qed simp

lemma length_toHex: "length (toHex bs pre) = length pre + 2 * length bs"
  by (induction bs) auto

lemma hexdigit_not_x: "k < 16 \<Longrightarrow> hexdigit k \<noteq> CHR ''x''"
proof -
  have "\<forall>k \<in> {..<16}. hexdigit k \<noteq> CHR ''x''" by code_simp
  then show "k < 16 \<Longrightarrow> hexdigit k \<noteq> CHR ''x''" by blast
qed

lemma fromHex_toHex_plain: "fromHex (toHex bs []) th = Inr bs"
proof -
  have "\<not> (length (toHex bs []) \<ge> 2 \<and> toHex bs [] ! 0 = CHR ''0'' \<and> toHex bs [] ! 1 = CHR ''x'')"
    by (cases bs) (auto simp: hexdigit_not_x unat_nibbles)
  moreover have "length (toHex bs []) mod 2 = 0" by (simp only: length_toHex) simp
  ultimately show ?thesis
    using fromHex_pairs_toHex [of bs th "[]"] unfolding fromHex_def
    by (simp only: Let_def if_False drop_0 not_False_eq_True) simp
qed

lemma fromHex_toHex_prefixed: "fromHex (toHex bs ''0x'') th = Inr bs"
proof -
  have eq: "toHex bs ''0x'' = ''0x'' @ toHex bs []" by simp
  have "length (toHex bs ''0x'') mod 2 = 0" by (simp only: length_toHex) simp
  then show ?thesis
    using fromHex_pairs_toHex [of bs th "[]"] unfolding fromHex_def eq
    by (simp del: toHex.simps)
qed

interpretation hex: codec "\<lambda>bs. toHex bs ''0x''" "\<lambda>s. fromHex s Throw" "\<lambda>_. True"
  by unfold_locales (rule fromHex_toHex_prefixed)

interpretation be: codec "\<lambda>v. toBigEndian v n" "\<lambda>bs. (Inr (be_value bs) :: unit + nat)" "\<lambda>v. v < 256 ^ n" for n
  by unfold_locales (simp add: be_value_toBigEndian)

lemma bytesRequired_mono: "n \<le> m \<Longrightarrow> bytesRequired n \<le> bytesRequired m"
  by (rule bytesRequired_least) (meson bytesRequired_bound le_less_trans)

end
