(* ===== verification/RlpStream.thy ===== *)
theory RlpStream
  imports CommonData
begin

text \<open>
  The RLP writer, class \<open>RLPStream\<close> of libdevcore/RLP.h and libdevcore/RLP.cpp. The state
  is the output buffer \<open>m_out\<close> and the stack \<open>m_listStack\<close> of open lists, each with the
  number of items still missing and the offset where its payload starts (the head of the
  model's list is \<open>back()\<close>). Finishing a list shifts its payload to make room for the
  header, and completes one item of the enclosing list. The specification is the recursive
  encoding \<open>rlp_enc\<close> of an item tree; the refinement theorem says that writing a tree
  with the stream operations appends exactly its encoding.
\<close>

section \<open>Constants and errors\<close>

definition c_rlpMaxLengthBytes :: nat where "c_rlpMaxLengthBytes = 8"
definition c_rlpDataImmLenStart :: nat where "c_rlpDataImmLenStart = 0x80"
definition c_rlpListStart :: nat where "c_rlpListStart = 0xc0"
definition c_rlpDataImmLenCount :: nat where
  "c_rlpDataImmLenCount = c_rlpListStart - c_rlpDataImmLenStart - c_rlpMaxLengthBytes"
definition c_rlpDataIndLenZero :: nat where
  "c_rlpDataIndLenZero = c_rlpDataImmLenStart + c_rlpDataImmLenCount - 1"
definition c_rlpListImmLenCount :: nat where
  "c_rlpListImmLenCount = 256 - c_rlpListStart - c_rlpMaxLengthBytes"
definition c_rlpListIndLenZero :: nat where
  "c_rlpListIndLenZero = c_rlpListStart + c_rlpListImmLenCount - 1"

lemmas rlp_consts [simp] =
  c_rlpMaxLengthBytes_def c_rlpDataImmLenStart_def c_rlpListStart_def
  c_rlpDataImmLenCount_def c_rlpDataIndLenZero_def c_rlpListImmLenCount_def
  c_rlpListIndLenZero_def

datatype rlp_exn = RLPException | BadRLP | OversizeRLP | UndersizeRLP | BadCast

section \<open>The stream\<close>

record rlp_stream =
  m_out :: bytes
  m_listStack :: "(nat \<times> nat) list"

definition rlp_stream_new :: rlp_stream where
  "rlp_stream_new = \<lparr>m_out = [], m_listStack = []\<rparr>"

text \<open>The header that \<open>noteAppended\<close> writes in front of a list payload of \<open>s\<close> bytes.\<close>

definition list_header :: "nat \<Rightarrow> rlp_exn + bytes" where
  "list_header s =
     (if s < c_rlpListImmLenCount then Inr [of_nat (c_rlpListStart + s)]
      else if c_rlpListIndLenZero + bytesRequired s \<le> 0xff
      then Inr (of_nat (c_rlpListIndLenZero + bytesRequired s) # toBigEndian s (bytesRequired s))
      else Inl RLPException)"

text \<open>The \<open>while\<close> loop of \<open>noteAppended\<close> over the open lists.\<close>

fun note_loop :: "(nat \<times> nat) list \<Rightarrow> bytes \<Rightarrow> nat \<Rightarrow> rlp_exn + rlp_stream" where
  "note_loop [] out itemCount = Inr \<lparr>m_out = out, m_listStack = []\<rparr>"
| "note_loop ((left, p) # st) out itemCount =
     (if left < itemCount then Inl RLPException
      else if left - itemCount \<noteq> 0
      then Inr \<lparr>m_out = out, m_listStack = (left - itemCount, p) # st\<rparr>
      else bindE (list_header (length out - p)) (\<lambda>h.
             note_loop st (take p out @ h @ drop p out) 1))"

definition noteAppended :: "rlp_stream \<Rightarrow> nat \<Rightarrow> rlp_exn + rlp_stream" where
  "noteAppended s itemCount =
     (if itemCount = 0 then Inr s else note_loop (m_listStack s) (m_out s) itemCount)"

definition push_bytes :: "rlp_stream \<Rightarrow> bytes \<Rightarrow> rlp_stream" where
  "push_bytes s bs = s\<lparr>m_out := m_out s @ bs\<rparr>"

definition appendRaw :: "rlp_stream \<Rightarrow> bytes \<Rightarrow> nat \<Rightarrow> rlp_exn + rlp_stream" where
  "appendRaw s bs itemCount = noteAppended (push_bytes s bs) itemCount"

text \<open>\<open>pushInt(i, br)\<close>: grow by \<open>br\<close> bytes, then write \<open>i\<close> from the back.\<close>

definition pushInt :: "rlp_stream \<Rightarrow> nat \<Rightarrow> nat \<Rightarrow> rlp_stream" where
  "pushInt s i br = push_bytes s (toBigEndian i br)"

definition pushCount :: "rlp_stream \<Rightarrow> nat \<Rightarrow> nat \<Rightarrow> rlp_exn + rlp_stream" where
  "pushCount s count base =
     (let br = bytesRequired count in
      if br + base > 0xff then Inl RLPException
      else Inr (pushInt (push_bytes s [of_nat (br + base)]) count br))"

definition appendListBytes :: "rlp_stream \<Rightarrow> bytes \<Rightarrow> rlp_exn + rlp_stream" where
  "appendListBytes s rlp =
     bindE (if length rlp < c_rlpListImmLenCount
            then Inr (push_bytes s [of_nat (length rlp + c_rlpListStart)])
            else pushCount s (length rlp) c_rlpListIndLenZero)
       (\<lambda>s'. appendRaw s' rlp 1)"

definition appendList :: "rlp_stream \<Rightarrow> nat \<Rightarrow> rlp_exn + rlp_stream" where
  "appendList s items =
     (if items \<noteq> 0 then Inr (s\<lparr>m_listStack := (items, length (m_out s)) # m_listStack s\<rparr>)
      else appendListBytes s [])"

text \<open>\<open>append(bytesConstRef, _compact)\<close>: \<open>_compact\<close> drops leading zero bytes.\<close>

definition appendBytes :: "rlp_stream \<Rightarrow> bytes \<Rightarrow> bool \<Rightarrow> rlp_exn + rlp_stream" where
  "appendBytes s bs compact =
     (let d = (if compact then dropWhile (\<lambda>b. b = 0) bs else bs); n = length d in
      bindE
        (if n = 1 \<and> unat (hd d) < c_rlpDataImmLenStart then Inr (push_bytes s [hd d])
         else bindE (if n < c_rlpDataImmLenCount
                     then Inr (push_bytes s [of_nat (n + c_rlpDataImmLenStart)])
                     else pushCount s n c_rlpDataIndLenZero)
                (\<lambda>s'. appendRaw s' d 0))
        (\<lambda>s'. noteAppended s' 1))"

text \<open>\<open>append(bigint)\<close>: the writer is only given non-negative integers.\<close>

definition appendInt :: "rlp_stream \<Rightarrow> nat \<Rightarrow> rlp_exn + rlp_stream" where
  "appendInt s i =
     bindE
       (if i = 0 then Inr (push_bytes s [of_nat c_rlpDataImmLenStart])
        else if i < c_rlpDataImmLenStart then Inr (push_bytes s [of_nat i])
        else
          let br = bytesRequired i in
          bindE (if br < c_rlpDataImmLenCount
                 then Inr (push_bytes s [of_nat (br + c_rlpDataImmLenStart)])
                 else let brbr = bytesRequired br in
                   if c_rlpDataIndLenZero + brbr > 0xff then Inl RLPException
                   else Inr (pushInt (push_bytes s [of_nat (c_rlpDataIndLenZero + brbr)])
                               br brbr))
            (\<lambda>s'. Inr (pushInt s' i br)))
       (\<lambda>s'. noteAppended s' 1)"

text \<open>\<open>out()\<close> refuses to hand out the buffer while a list is open.\<close>

definition stream_out :: "rlp_stream \<Rightarrow> rlp_exn + bytes" where
  "stream_out s = (if m_listStack s \<noteq> [] then Inl RLPException else Inr (m_out s))"

section \<open>Specification: the encoding of an item tree\<close>

datatype rlp_item = Str bytes | Lst "rlp_item list"

definition enc_header :: "nat \<Rightarrow> nat \<Rightarrow> bytes" where
  "enc_header base n =
     (if n < 56 then [of_nat (base + n)]
      else of_nat (base + 55 + bytesRequired n) # toBigEndian n (bytesRequired n))"

definition enc_str :: "bytes \<Rightarrow> bytes" where
  "enc_str bs = (if length bs = 1 \<and> unat (hd bs) < 0x80 then bs
                 else enc_header 0x80 (length bs) @ bs)"

fun rlp_enc :: "rlp_item \<Rightarrow> bytes" where
  "rlp_enc (Str bs) = enc_str bs"
| "rlp_enc (Lst xs) =
     (let p = concat (map rlp_enc xs) in enc_header 0xc0 (length p) @ p)"

text \<open>Writing a tree: a string with \<open>append\<close>, a list as \<open>append(std::vector<T>)\<close> does it,
  \<open>appendList(size)\<close> and then each element.\<close>

fun write_item :: "rlp_item \<Rightarrow> rlp_stream \<Rightarrow> rlp_exn + rlp_stream"
  and write_items :: "rlp_item list \<Rightarrow> rlp_stream \<Rightarrow> rlp_exn + rlp_stream" where
  "write_item (Str bs) s = appendBytes s bs False"
| "write_item (Lst xs) s = bindE (appendList s (length xs)) (write_items xs)"
| "write_items [] s = Inr s"
| "write_items (x # xs) s = bindE (write_item x s) (write_items xs)"

text \<open>The length field has at most eight bytes.\<close>

fun rlp_fits :: "rlp_item \<Rightarrow> bool" where
  "rlp_fits (Str bs) \<longleftrightarrow> bytesRequired (length bs) \<le> 8"
| "rlp_fits (Lst xs) \<longleftrightarrow>
     (\<forall>x \<in> set xs. rlp_fits x) \<and> bytesRequired (length (concat (map rlp_enc xs))) \<le> 8"

subsection \<open>Refinement\<close>

lemma list_header_eq:
  "bytesRequired n \<le> 8 \<Longrightarrow> list_header n = Inr (enc_header 0xc0 n)"
  by (simp add: list_header_def enc_header_def)

lemma pushCount_eq:
  "bytesRequired n \<le> 8 \<Longrightarrow> \<not> n < 56 \<Longrightarrow> base \<le> 0xf7 \<Longrightarrow>
     pushCount s n base = Inr (push_bytes s (of_nat (bytesRequired n + base) # toBigEndian n (bytesRequired n)))"
  by (simp add: pushCount_def Let_def pushInt_def push_bytes_def)

lemma push_bytes_push [simp]: "push_bytes (push_bytes s a) b = push_bytes s (a @ b)"
  by (simp add: push_bytes_def)

lemma push_bytes_Nil [simp]: "push_bytes s [] = s"
  by (simp add: push_bytes_def)

lemma push_bytes_sel [simp]:
  "m_out (push_bytes s a) = m_out s @ a" "m_listStack (push_bytes s a) = m_listStack s"
  by (simp_all add: push_bytes_def)

lemma noteAppended_0 [simp]: "noteAppended s 0 = Inr s"
  by (simp add: noteAppended_def)

lemma noteAppended_1:
  "noteAppended (push_bytes s a) (Suc 0) = note_loop (m_listStack s) (m_out s @ a) (Suc 0)"
  by (simp add: noteAppended_def)

lemma bindE_write_Nil [simp]: "bindE m (write_items []) = m"
  by (cases m) auto

lemma appendBytes_eq:
  assumes "bytesRequired (length bs) \<le> 8"
  shows "appendBytes s bs False = noteAppended (push_bytes s (enc_str bs)) 1"
proof (cases "length bs = 1 \<and> unat (hd bs) < 0x80")
  case True
  then have "bs = [hd bs]" by (cases bs) auto
  with True show ?thesis by (simp add: appendBytes_def enc_str_def)
next
  case False
  with assms show ?thesis
    by (auto simp add: appendBytes_def enc_str_def enc_header_def appendRaw_def
        pushCount_eq noteAppended_1 Let_def ac_simps)
qed

lemma write_items_open:
  assumes "xs \<noteq> []" "p \<le> length out"
    and "\<And>x s. x \<in> set xs \<Longrightarrow> write_item x s = noteAppended (push_bytes s (rlp_enc x)) 1"
  shows "write_items xs \<lparr>m_out = out, m_listStack = (length xs, p) # st\<rparr> =
     bindE (list_header (length out + length (concat (map rlp_enc xs)) - p))
       (\<lambda>h. note_loop st (take p out @ h @ drop p out @ concat (map rlp_enc xs)) 1)"
  using assms
proof (induction xs arbitrary: out)
  case (Cons x xs)
  show ?case
  proof (cases xs)
    case Nil
    then show ?thesis using Cons.prems Nil
      by (simp add: noteAppended_1 bindE_assoc)
  next
    case (Cons y ys)
    then show ?thesis using Cons.prems Cons.IH [of "out @ rlp_enc x"]
      by (simp add: noteAppended_1 add.assoc)
  qed
qed simp

lemma write_item_eq:
  "rlp_fits x \<Longrightarrow> write_item x s = noteAppended (push_bytes s (rlp_enc x)) 1"
proof (induction x arbitrary: s)
  case (Str bs)
  then show ?case by (simp add: appendBytes_eq)
next
  case (Lst xs)
  show ?case
  proof (cases "xs = []")
    case True
    then show ?thesis
      by (simp add: appendList_def appendListBytes_def appendRaw_def Let_def enc_header_def)
  next
    case False
    have "write_items xs (s\<lparr>m_listStack := (length xs, length (m_out s)) # m_listStack s\<rparr>) =
        note_loop (m_listStack s) (m_out s @ rlp_enc (Lst xs)) 1"
      using Lst write_items_open [OF False le_refl, of "m_out s" "m_listStack s"]
      by (simp add: list_header_eq Let_def) (cases s; simp)
    with False show ?thesis by (simp add: appendList_def noteAppended_1)
  qed
qed

lemma write_items_fun:
  "write_items (x # xs) = (\<lambda>s. bindE (write_item x s) (write_items xs))"
  "write_items [] = Inr"
  by (simp_all add: fun_eq_iff)

lemma write_items_append:
  "write_items (xs @ ys) = (\<lambda>s. bindE (write_items xs s) (write_items ys))"
proof (induction xs)
  case Nil
  then show ?case by (simp add: write_items_fun(2))
next
  case (Cons x xs)
  then show ?case by (simp add: write_items_fun(1) bindE_assoc)
qed

lemma stream_out_write:
  "rlp_fits x \<Longrightarrow> bindE (write_item x rlp_stream_new) stream_out = Inr (rlp_enc x)"
  by (simp add: write_item_eq noteAppended_def rlp_stream_new_def push_bytes_def stream_out_def)

lemma length_enc_header_mono: "n \<le> m \<Longrightarrow> length (enc_header b n) \<le> length (enc_header b m)"
  using bytesRequired_mono [of n m] by (simp add: enc_header_def)

end
