(* ===== verification/RlpDecode.thy ===== *)
theory RlpDecode
  imports RlpStream
begin

text \<open>
  The RLP reader, class \<open>RLP\<close> of libdevcore/RLP.h and libdevcore/RLP.cpp. An \<open>RLP\<close>
  object is a view of bytes \<open>m_data\<close> together with a cache for indexed access; every
  accessor but \<open>operator[]\<close> depends on the bytes only and is a function of them. The
  flags of \<open>Strictness\<close> are the bits of a number, as in the code. The lemmas relate the
  accessors to the encoding of RlpStream: reading an encoded tree gives the tree back, and
  strict reading accepts canonical encodings only.
\<close>

section \<open>Strictness flags and views\<close>

definition AllowNonCanon :: nat where "AllowNonCanon = 1"
definition ThrowOnFail :: nat where "ThrowOnFail = 4"
definition FailIfTooBig :: nat where "FailIfTooBig = 8"
definition FailIfTooSmall :: nat where "FailIfTooSmall = 16"
definition Strict :: nat where "Strict = 12"
definition VeryStrict :: nat where "VeryStrict = 28"
definition LaissezFaire :: nat where "LaissezFaire = 1"

definition has_flag :: "nat \<Rightarrow> nat \<Rightarrow> bool" where
  "has_flag s f \<longleftrightarrow> s AND f \<noteq> 0"

lemmas strictness_defs = AllowNonCanon_def ThrowOnFail_def FailIfTooBig_def
  FailIfTooSmall_def Strict_def VeryStrict_def LaissezFaire_def

lemma has_flag_simps [simp]:
  "has_flag VeryStrict ThrowOnFail" "has_flag VeryStrict FailIfTooBig"
  "has_flag VeryStrict FailIfTooSmall" "\<not> has_flag VeryStrict AllowNonCanon"
  "has_flag Strict ThrowOnFail" "has_flag Strict FailIfTooBig"
  "\<not> has_flag Strict FailIfTooSmall" "\<not> has_flag Strict AllowNonCanon"
  "\<not> has_flag LaissezFaire ThrowOnFail" "\<not> has_flag LaissezFaire FailIfTooBig"
  "\<not> has_flag LaissezFaire FailIfTooSmall" "has_flag LaissezFaire AllowNonCanon"
  "has_flag (ThrowOnFail + FailIfTooSmall) ThrowOnFail"
  "has_flag (ThrowOnFail + FailIfTooSmall) FailIfTooSmall"
  "\<not> has_flag (ThrowOnFail + FailIfTooSmall) FailIfTooBig"
  by (simp_all add: has_flag_def strictness_defs)

text \<open>\<open>vector_ref::cropped\<close>: an out of range request gives an empty view.\<close>

definition cropped :: "bytes \<Rightarrow> nat \<Rightarrow> nat \<Rightarrow> bytes" where
  "cropped d b c =
     (if b \<le> length d \<and> c \<le> length d \<and> b + c \<le> length d then take c (drop b d) else [])"

definition cropped_from :: "bytes \<Rightarrow> nat \<Rightarrow> bytes" where
  "cropped_from d b = (if b \<le> length d then drop b d else [])"

section \<open>Accessors\<close>

definition isNull :: "bytes \<Rightarrow> bool" where "isNull d \<longleftrightarrow> length d = 0"

definition isEmpty :: "bytes \<Rightarrow> bool" where
  "isEmpty d \<longleftrightarrow> \<not> isNull d \<and> (unat (d ! 0) = c_rlpDataImmLenStart \<or> unat (d ! 0) = c_rlpListStart)"

definition isData :: "bytes \<Rightarrow> bool" where
  "isData d \<longleftrightarrow> \<not> isNull d \<and> unat (d ! 0) < c_rlpListStart"

definition isList :: "bytes \<Rightarrow> bool" where
  "isList d \<longleftrightarrow> \<not> isNull d \<and> unat (d ! 0) \<ge> c_rlpListStart"

definition isSingleByte :: "bytes \<Rightarrow> bool" where
  "isSingleByte d \<longleftrightarrow> \<not> isNull d \<and> unat (d ! 0) < c_rlpDataImmLenStart"

definition lengthSize :: "bytes \<Rightarrow> nat" where
  "lengthSize d =
     (if isData d \<and> unat (d ! 0) > c_rlpDataIndLenZero then unat (d ! 0) - c_rlpDataIndLenZero
      else if isList d \<and> unat (d ! 0) > c_rlpListIndLenZero then unat (d ! 0) - c_rlpListIndLenZero
      else 0)"

definition payloadOffset :: "bytes \<Rightarrow> nat" where
  "payloadOffset d = (if isSingleByte d then 0 else 1 + lengthSize d)"

definition requireGood :: "bytes \<Rightarrow> rlp_exn + unit" where
  "requireGood d =
     (if isNull d then Inl BadRLP
      else if unat (d ! 0) \<noteq> c_rlpDataImmLenStart + 1 then Inr ()
      else if length d < 2 then Inl BadRLP
      else if unat (d ! 1) < c_rlpDataImmLenStart then Inl BadRLP
      else Inr ())"

definition isInt :: "bytes \<Rightarrow> rlp_exn + bool" where
  "isInt d =
     (if isNull d then Inr False
      else bindE (requireGood d) (\<lambda>_.
        let n = unat (d ! 0) in
        if n < c_rlpDataImmLenStart then Inr (n \<noteq> 0)
        else if n = c_rlpDataImmLenStart then Inr True
        else if n \<le> c_rlpDataIndLenZero
        then (if length d \<le> 1 then Inl BadRLP else Inr (d ! 1 \<noteq> 0))
        else if n < c_rlpListStart
        then (if length d \<le> 1 + n - c_rlpDataIndLenZero then Inl BadRLP
              else Inr (d ! (1 + n - c_rlpDataIndLenZero) \<noteq> 0))
        else Inr False))"

text \<open>The branches of \<open>length()\<close> with an explicit length field of \<open>lengthSz\<close> bytes; the value
  must exceed the short form's limit and leave room for the offset in a \<open>size_t\<close>.\<close>

definition long_length :: "bytes \<Rightarrow> nat \<Rightarrow> nat \<Rightarrow> rlp_exn + nat" where
  "long_length d lengthSz limit =
     (if length d \<le> lengthSz then Inl BadRLP
      else if length d > 1 \<and> d ! 1 = 0 then Inl BadRLP
      else if lengthSz > 8 then Inl UndersizeRLP
      else if d ! 1 = 0 then Inl BadRLP
      else let ret = fromBigEndian (Some 64) (take lengthSz (drop 1 d)) in
        if ret < limit then Inl BadRLP
        else if ret \<ge> (2 ^ 64 - 1) - 0x100 then Inl UndersizeRLP
        else Inr ret)"

definition rlp_length :: "bytes \<Rightarrow> rlp_exn + nat" where
  "rlp_length d =
     (if isNull d then Inr 0
      else bindE (requireGood d) (\<lambda>_.
        let n = unat (d ! 0) in
        if n < c_rlpDataImmLenStart then Inr 1
        else if n \<le> c_rlpDataIndLenZero then Inr (n - c_rlpDataImmLenStart)
        else if n < c_rlpListStart
        then long_length d (n - c_rlpDataIndLenZero)
               (c_rlpListStart - c_rlpDataImmLenStart - c_rlpMaxLengthBytes)
        else if n \<le> c_rlpListIndLenZero then Inr (n - c_rlpListStart)
        else long_length d (n - c_rlpListIndLenZero)
               (0x100 - c_rlpListStart - c_rlpMaxLengthBytes)))"

definition actualSize :: "bytes \<Rightarrow> rlp_exn + nat" where
  "actualSize d =
     (if isNull d then Inr 0
      else if isSingleByte d then Inr 1
      else if isData d \<or> isList d
      then bindE (rlp_length d) (\<lambda>l. Inr (payloadOffset d + l))
      else Inr 0)"

text \<open>The constructor \<open>RLP(_d, _s)\<close>: the result is the \<open>m_data\<close> of the new object.\<close>

definition rlp_make :: "bytes \<Rightarrow> nat \<Rightarrow> rlp_exn + bytes" where
  "rlp_make d s =
     bindE
       (if has_flag s FailIfTooBig
        then bindE (actualSize d) (\<lambda>a.
          if a < length d
          then (if has_flag s ThrowOnFail then Inl OversizeRLP else Inr [])
          else Inr d)
        else Inr d)
       (\<lambda>m. if has_flag s FailIfTooSmall
        then bindE (actualSize m) (\<lambda>a.
          if a > length d
          then (if has_flag s ThrowOnFail then Inl UndersizeRLP else Inr [])
          else Inr m)
        else Inr m)"

definition sizeAsEncoded :: "bytes \<Rightarrow> rlp_exn + nat" where
  "sizeAsEncoded d = bindE (rlp_make d (ThrowOnFail + FailIfTooSmall)) actualSize"

definition payload :: "bytes \<Rightarrow> rlp_exn + bytes" where
  "payload d =
     bindE (rlp_length d) (\<lambda>l.
       if l > length d then Inl BadRLP else Inr (cropped d (payloadOffset d) l))"

definition toBytes :: "bytes \<Rightarrow> nat \<Rightarrow> rlp_exn + bytes" where
  "toBytes d flags =
     (if \<not> isData d
      then (if has_flag flags ThrowOnFail then Inl BadCast else Inr [])
      else bindE (payload d) (\<lambda>p. bindE (rlp_length d) (\<lambda>l. Inr (take l p))))"

text \<open>\<open>toInt<T>\<close> with \<open>w\<close> the width of \<open>T\<close> in bits, \<open>None\<close> for \<open>bigint\<close>; \<open>maxSize\<close> is
  \<open>intTraits<T>::maxSize\<close>.\<close>

definition maxSize :: "nat option \<Rightarrow> nat" where
  "maxSize w = (case w of None \<Rightarrow> 2 ^ 32 - 1 | Some k \<Rightarrow> k div 8)"

definition toInt :: "nat option \<Rightarrow> bytes \<Rightarrow> nat \<Rightarrow> rlp_exn + nat" where
  "toInt w d flags =
     bindE (requireGood d) (\<lambda>_.
     bindE (isInt d) (\<lambda>int.
       if (\<not> int \<and> \<not> has_flag flags AllowNonCanon) \<or> isList d \<or> isNull d
       then (if has_flag flags ThrowOnFail then Inl BadCast else Inr 0)
       else bindE (payload d) (\<lambda>p.
         if length p > maxSize w \<and> has_flag flags FailIfTooBig
         then (if has_flag flags ThrowOnFail then Inl BadCast else Inr 0)
         else Inr (fromBigEndian w p))))"

text \<open>\<open>toHash<N>\<close>: the payload, right aligned in \<open>n\<close> zeroed bytes.\<close>

definition toHash :: "nat \<Rightarrow> bytes \<Rightarrow> nat \<Rightarrow> rlp_exn + bytes" where
  "toHash n d flags =
     bindE (requireGood d) (\<lambda>_.
     bindE (payload d) (\<lambda>p.
       let l = length p in
       if \<not> isData d \<or> (l > n \<and> has_flag flags FailIfTooBig)
          \<or> (l < n \<and> has_flag flags FailIfTooSmall)
       then (if has_flag flags ThrowOnFail then Inl BadCast else Inr (replicate n 0))
       else let s = min n l in Inr (replicate (n - s) 0 @ take s p)))"

lemma isNull_iff [simp]: "isNull d \<longleftrightarrow> d = []"
  by (simp add: isNull_def)

lemma actualSize_pos: "actualSize d = Inr k \<Longrightarrow> d \<noteq> [] \<Longrightarrow> 0 < k"
  by (auto simp: actualSize_def payloadOffset_def isData_def isList_def exn_simps
      split: if_splits)

lemma sizeAsEncoded_pos: "sizeAsEncoded d = Inr k \<Longrightarrow> d \<noteq> [] \<Longrightarrow> 0 < k"
  by (auto simp: sizeAsEncoded_def rlp_make_def exn_simps dest: actualSize_pos split: if_splits)

lemma cropped_from_shorter: "0 < k \<Longrightarrow> d \<noteq> [] \<Longrightarrow> length (cropped_from d k) < length d"
  by (simp add: cropped_from_def)

section \<open>Counting, indexing and iterating\<close>

function items_loop :: "bytes \<Rightarrow> rlp_exn + nat" where
  "items_loop d =
     (if length d = 0 then Inr 0
      else bindE (sizeAsEncoded d) (\<lambda>k.
           bindE (items_loop (cropped_from d k)) (\<lambda>n. Inr (Suc n))))"
  by pat_completeness auto
termination
  by (relation "measure length") (auto intro: cropped_from_shorter dest: sizeAsEncoded_pos)

declare items_loop.simps [simp del]

definition itemCount :: "bytes \<Rightarrow> rlp_exn + nat" where
  "itemCount d = (if isList d then bindE (payload d) items_loop else Inr 0)"

record rlp =
  r_data :: bytes
  m_lastIndex :: nat
  m_lastEnd :: nat
  m_lastItem :: bytes

definition rlp_view :: "bytes \<Rightarrow> rlp" where
  "rlp_view d = \<lparr>r_data = d, m_lastIndex = 2 ^ 64 - 1, m_lastEnd = 0, m_lastItem = []\<rparr>"

text \<open>The \<open>for\<close> loop of \<open>operator[]\<close>; \<open>i - m_lastIndex\<close> decreases.\<close>

function index_loop :: "bytes \<Rightarrow> nat \<Rightarrow> nat \<Rightarrow> nat \<Rightarrow> bytes \<Rightarrow> rlp_exn + (nat \<times> nat \<times> bytes)" where
  "index_loop d i lastIndex lastEnd lastItem =
     (if lastIndex < i \<and> length lastItem \<noteq> 0
      then bindE (payload d) (\<lambda>pl.
        let rest = cropped_from pl lastEnd in
        bindE (sizeAsEncoded rest) (\<lambda>k.
          let item = cropped rest 0 k in
          index_loop d i (Suc lastIndex) (lastEnd + length item) item))
      else Inr (lastIndex, lastEnd, lastItem))"
  by pat_completeness auto
termination
  by (relation "measure (\<lambda>(d, i, lastIndex, lastEnd, lastItem). i - lastIndex)") auto

declare index_loop.simps [simp del]

definition rlp_index :: "rlp \<Rightarrow> nat \<Rightarrow> rlp_exn + (bytes \<times> rlp)" where
  "rlp_index r i =
     bindE
       (if i < m_lastIndex r
        then bindE (payload (r_data r)) (\<lambda>pl. bindE (sizeAsEncoded pl) (\<lambda>e.
               Inr (0, e, cropped pl 0 e)))
        else Inr (m_lastIndex r, m_lastEnd r, m_lastItem r))
     (\<lambda>(idx, e, item).
       bindE (index_loop (r_data r) i idx e item) (\<lambda>(idx', e', item').
       bindE (rlp_make item' (ThrowOnFail + FailIfTooSmall)) (\<lambda>res.
         Inr (res, r\<lparr>m_lastIndex := idx', m_lastEnd := e', m_lastItem := item'\<rparr>))))"

text \<open>The iterator of \<open>begin()\<close>/\<open>end()\<close> points into the parent's bytes: position and size of
  the current item, and the bytes remaining after it. Two iterators are equal when position and
  size are.\<close>

record rlp_iter =
  it_pos :: nat
  it_size :: nat
  it_remaining :: nat

definition iter_begin :: "bytes \<Rightarrow> rlp_exn + rlp_iter" where
  "iter_begin d =
     (if isList d
      then bindE (payload d) (\<lambda>pl. bindE (sizeAsEncoded pl) (\<lambda>k.
        let n = length (cropped pl 0 k) in
        Inr \<lparr>it_pos = payloadOffset d, it_size = n, it_remaining = length pl - n\<rparr>))
      else Inr \<lparr>it_pos = length d, it_size = 0, it_remaining = 0\<rparr>)"

definition iter_end :: "bytes \<Rightarrow> rlp_iter" where
  "iter_end d = \<lparr>it_pos = length d, it_size = 0, it_remaining = 0\<rparr>"

definition iter_next :: "bytes \<Rightarrow> rlp_iter \<Rightarrow> rlp_exn + rlp_iter" where
  "iter_next d it =
     (if it_remaining it \<noteq> 0
      then let pos = it_pos it + it_size it; cur = take (it_remaining it) (drop pos d) in
        bindE (sizeAsEncoded cur) (\<lambda>k.
          let n = length (cropped cur 0 k) in
          Inr \<lparr>it_pos = pos, it_size = n, it_remaining = it_remaining it - min (it_remaining it) n\<rparr>)
      else Inr \<lparr>it_pos = it_pos it + it_size it, it_size = 0, it_remaining = 0\<rparr>)"

definition iter_deref :: "bytes \<Rightarrow> rlp_iter \<Rightarrow> rlp_exn + bytes" where
  "iter_deref d it = rlp_make (take (it_size it) (drop (it_pos it) d)) VeryStrict"

text \<open>The range \<open>for\<close> of \<open>toList\<close>. Nothing bounds it when the payload does not reach the end
  of the data, so not returning is \<open>None\<close>.\<close>

partial_function (option) toList_loop ::
  "bytes \<Rightarrow> rlp_iter \<Rightarrow> bytes list \<Rightarrow> (rlp_exn + bytes list) option" where
  "toList_loop d it ret =
     (if it_pos it = it_pos (iter_end d) \<and> it_size it = it_size (iter_end d)
      then Some (Inr (rev ret))
      else case iter_deref d it of
        Inl e \<Rightarrow> Some (Inl e)
      | Inr x \<Rightarrow> (case iter_next d it of
          Inl e \<Rightarrow> Some (Inl e)
        | Inr it' \<Rightarrow> toList_loop d it' (x # ret)))"

definition toList :: "bytes \<Rightarrow> nat \<Rightarrow> (rlp_exn + bytes list) option" where
  "toList d flags =
     (if \<not> isList d
      then Some (if has_flag flags ThrowOnFail then Inl BadCast else Inr [])
      else case iter_begin d of
        Inl e \<Rightarrow> Some (Inl e)
      | Inr it \<Rightarrow> toList_loop d it [])"

section \<open>Reading an encoding back\<close>

text \<open>The reader refuses sizes within \<open>0x100\<close> of the largest \<open>size_t\<close>.\<close>

definition size_ok :: "nat \<Rightarrow> bool" where
  "size_ok n \<longleftrightarrow> n < 2 ^ 64 - 257"

lemma size_ok_mono: "size_ok n \<Longrightarrow> m \<le> n \<Longrightarrow> size_ok m"
  by (simp add: size_ok_def)

lemma size_ok_bytesRequired: "size_ok n \<Longrightarrow> bytesRequired n \<le> 8"
  by (rule bytesRequired_least) (simp add: size_ok_def)

lemma bytesRequired_ge_1: "56 \<le> n \<Longrightarrow> 1 \<le> bytesRequired n"
  using bytesRequired_pos [of n] by simp

lemma long_length_enc:
  assumes "56 \<le> n" "size_ok n"
  shows "long_length (h # toBigEndian n (bytesRequired n) @ r) (bytesRequired n) 56 = Inr n"
proof -
  let ?be = "toBigEndian n (bytesRequired n)"
  have br: "1 \<le> bytesRequired n" "bytesRequired n \<le> 8"
    using assms bytesRequired_ge_1 size_ok_bytesRequired by auto
  have "?be \<noteq> []"
    using br(1) by (metis length_toBigEndian list.size(3) not_one_le_zero)
  then have hd: "(h # ?be @ r) ! 1 = hd ?be"
    using assms(1) by (simp add: hd_conv_nth nth_append)
  have "fromBigEndian (Some 64) ?be = n"
    using assms(2) by (simp add: fromBigEndian_Some be_value_toBigEndian bytesRequired_bound size_ok_def)
  then show ?thesis
    using assms br hd toBigEndian_hd_nonzero [of n]
    by (simp add: long_length_def size_ok_def)
qed

text \<open>What a header contributes to the bytes after it, for either base.\<close>

lemma header_facts:
  assumes "size_ok n" and base: "base = 0x80 \<or> base = 0xc0" and d: "d = enc_header base n @ r"
  shows "d \<noteq> []"
    and "unat (d ! 0) = (if n < 56 then base + n else base + 55 + bytesRequired n)"
    and "56 \<le> n \<Longrightarrow> long_length d (bytesRequired n) 56 = Inr n"
    and "length (enc_header base n) = (if n < 56 then 1 else 1 + bytesRequired n)"
    and "56 \<le> n \<Longrightarrow> 1 \<le> bytesRequired n \<and> bytesRequired n \<le> 8"
proof -
  have br: "1 \<le> bytesRequired n \<and> bytesRequired n \<le> 8" if "56 \<le> n"
    using that assms(1) bytesRequired_ge_1 size_ok_bytesRequired by auto
  then show "56 \<le> n \<Longrightarrow> 1 \<le> bytesRequired n \<and> bytesRequired n \<le> 8" .
  have "unat (of_nat k :: byte) = k" if "k < 256" for k using that by simp
  then show "unat (d ! 0) = (if n < 56 then base + n else base + 55 + bytesRequired n)"
    using br base by (auto simp: d enc_header_def simp del: unat_of_nat_byte of_nat_add)
  show "56 \<le> n \<Longrightarrow> long_length d (bytesRequired n) 56 = Inr n"
    using assms(1) by (simp add: d enc_header_def long_length_enc)
qed (simp_all add: d enc_header_def)

text \<open>A string header, not before a single byte that needs none.\<close>

lemma str_read:
  assumes n: "size_ok n" and single: "n = 1 \<Longrightarrow> r \<noteq> [] \<and> \<not> unat (hd r) < 0x80"
    and d: "d = enc_header 0x80 n @ r"
  shows "rlp_length d = Inr n" "payloadOffset d = length (enc_header 0x80 n)"
    "isData d" "\<not> isList d" "\<not> isSingleByte d" "requireGood d = Inr ()"
proof -
  note h = header_facts [OF n disjI1 [OF refl] d]
  show good: "requireGood d = Inr ()"
  proof (cases "n = 1")
    case True
    with single d show ?thesis
      by (cases r) (auto simp: requireGood_def enc_header_def)
  next
    case False
    with h show ?thesis by (auto simp: requireGood_def split: if_splits)
  qed
  show "rlp_length d = Inr n"
    using h good by (auto simp: rlp_length_def Let_def split: if_splits)
  show "payloadOffset d = length (enc_header 0x80 n)"
    using h by (auto simp: payloadOffset_def lengthSize_def isSingleByte_def isData_def isList_def
        split: if_splits)
  show "isData d" "\<not> isList d" "\<not> isSingleByte d"
    using h by (auto simp: isData_def isList_def isSingleByte_def split: if_splits)
qed

lemma list_read:
  assumes n: "size_ok n" and d: "d = enc_header 0xc0 n @ r"
  shows "rlp_length d = Inr n" "payloadOffset d = length (enc_header 0xc0 n)"
    "isList d" "\<not> isData d" "\<not> isSingleByte d" "requireGood d = Inr ()"
proof -
  note h = header_facts [OF n disjI2 [OF refl] d]
  show good: "requireGood d = Inr ()"
    using h by (auto simp: requireGood_def split: if_splits)
  show "rlp_length d = Inr n"
    using h good by (auto simp: rlp_length_def Let_def split: if_splits)
  show "payloadOffset d = length (enc_header 0xc0 n)"
    using h by (auto simp: payloadOffset_def lengthSize_def isSingleByte_def isData_def isList_def
        split: if_splits)
  show "isList d" "\<not> isData d" "\<not> isSingleByte d"
    using h by (auto simp: isData_def isList_def isSingleByte_def split: if_splits)
qed

lemma single_read:
  assumes "unat b < 0x80" and d: "d = b # r"
  shows "rlp_length d = Inr 1" "payloadOffset d = 0" "isData d" "\<not> isList d" "isSingleByte d"
    "requireGood d = Inr ()"
  using assms by (auto simp: rlp_length_def requireGood_def payloadOffset_def isData_def isList_def
      isSingleByte_def Let_def)

text \<open>The payload an item encodes.\<close>

fun content :: "rlp_item \<Rightarrow> bytes" where
  "content (Str bs) = bs"
| "content (Lst xs) = concat (map rlp_enc xs)"

fun is_Lst :: "rlp_item \<Rightarrow> bool" where
  "is_Lst (Str bs) = False"
| "is_Lst (Lst xs) = True"

definition item_ok :: "rlp_item \<Rightarrow> bool" where
  "item_ok x \<longleftrightarrow> size_ok (length (rlp_enc x))"

lemma rlp_enc_not_Nil [simp]: "rlp_enc x \<noteq> []"
  by (cases x) (auto simp: enc_str_def enc_header_def Let_def)

lemma length_content_le: "length (content x) \<le> length (rlp_enc x)"
  by (cases x) (auto simp: enc_str_def Let_def)

lemma size_ok_content: "item_ok x \<Longrightarrow> size_ok (length (content x))"
  unfolding item_ok_def by (rule size_ok_mono [OF _ length_content_le])

lemma enc_read:
  assumes ok: "item_ok x"
  shows "rlp_length (rlp_enc x @ r) = Inr (length (content x))"
    and "payloadOffset (rlp_enc x @ r) + length (content x) = length (rlp_enc x)"
    and "isList (rlp_enc x @ r) \<longleftrightarrow> is_Lst x"
    and "isData (rlp_enc x @ r) \<longleftrightarrow> \<not> is_Lst x"
    and "drop (payloadOffset (rlp_enc x @ r)) (rlp_enc x) = content x"
    and "requireGood (rlp_enc x @ r) = Inr ()"
    and "isSingleByte (rlp_enc x @ r) \<Longrightarrow> length (rlp_enc x) = 1"
proof -
  have sz: "size_ok (length (content x))" using ok by (rule size_ok_content)
  let ?goal = "rlp_length (rlp_enc x @ r) = Inr (length (content x)) \<and>
    payloadOffset (rlp_enc x @ r) + length (content x) = length (rlp_enc x) \<and>
    (isList (rlp_enc x @ r) \<longleftrightarrow> is_Lst x) \<and> (isData (rlp_enc x @ r) \<longleftrightarrow> \<not> is_Lst x) \<and>
    drop (payloadOffset (rlp_enc x @ r)) (rlp_enc x) = content x \<and>
    requireGood (rlp_enc x @ r) = Inr () \<and>
    (isSingleByte (rlp_enc x @ r) \<longrightarrow> length (rlp_enc x) = 1)"
  have ?goal
  proof (cases x)
    case (Lst xs)
    with list_read [OF sz, of "rlp_enc x @ r" "content x @ r"] show ?thesis
      by (simp add: Let_def)
  next
    case (Str bs)
    show ?thesis
    proof (cases "length bs = 1 \<and> unat (hd bs) < 0x80")
      case True
      then obtain b where "bs = [b]" by (cases bs) auto
      with True Str single_read [of b "rlp_enc x @ r" r] show ?thesis
        by (simp add: enc_str_def)
    next
      case False
      then have "length bs = 1 \<Longrightarrow> bs @ r \<noteq> [] \<and> \<not> unat (hd (bs @ r)) < 0x80"
        by (cases bs) auto
      note sr = str_read [OF sz [unfolded Str content.simps] this refl]
      have enc: "rlp_enc x = enc_header 0x80 (length bs) @ bs"
        using Str False by (auto simp: enc_str_def)
      show ?thesis using sr Str unfolding enc by simp
    qed
  qed
  then show "rlp_length (rlp_enc x @ r) = Inr (length (content x))"
    "payloadOffset (rlp_enc x @ r) + length (content x) = length (rlp_enc x)"
    "isList (rlp_enc x @ r) \<longleftrightarrow> is_Lst x" "isData (rlp_enc x @ r) \<longleftrightarrow> \<not> is_Lst x"
    "drop (payloadOffset (rlp_enc x @ r)) (rlp_enc x) = content x"
    "requireGood (rlp_enc x @ r) = Inr ()"
    "isSingleByte (rlp_enc x @ r) \<Longrightarrow> length (rlp_enc x) = 1"
    by auto
qed

lemma actualSize_enc [simp]: "item_ok x \<Longrightarrow> actualSize (rlp_enc x @ r) = Inr (length (rlp_enc x))"
  using enc_read [of x r] by (auto simp: actualSize_def)

lemma sizeAsEncoded_enc [simp]:
  "item_ok x \<Longrightarrow> sizeAsEncoded (rlp_enc x @ r) = Inr (length (rlp_enc x))"
  by (simp add: sizeAsEncoded_def rlp_make_def)

lemma rlp_make_enc [simp]: "item_ok x \<Longrightarrow> rlp_make (rlp_enc x) s = Inr (rlp_enc x)"
  using actualSize_enc [of x "[]"] by (simp add: rlp_make_def)

lemma payload_enc [simp]: "item_ok x \<Longrightarrow> payload (rlp_enc x) = Inr (content x)"
  using enc_read [of x "[]"] length_content_le [of x]
  by (auto simp: payload_def cropped_def)

end
