(* ===== verification/RlpRoundtrip.thy ===== *)
theory RlpRoundtrip
  imports RlpDecode
begin

text \<open>
  What the RLP reader computes on the output of the RLP writer: item counts, indexed access
  through the cache, the list iterator, byte strings and integers; termination of the
  iterator on every strictly constructed view; and canonicity of strict reading.
\<close>

section \<open>Strings, integers and hashes\<close>

lemma toBytes_enc [simp]: "item_ok (Str bs) \<Longrightarrow> toBytes (rlp_enc (Str bs)) flags = Inr bs"
  using enc_read [of "Str bs" "[]"] payload_enc [of "Str bs"]
  by (simp add: toBytes_def del: payload_enc)

text \<open>\<open>append(bigint)\<close> writes the compact big endian bytes as a string.\<close>

lemma appendInt_eq: "appendInt s i = appendBytes s (toCompactBigEndian i 0) False"
proof -
  let ?bs = "toBigEndian i (bytesRequired i)"
  consider "i = 0" | "0 < i" "i < 128" | "128 \<le> i" by linarith
  then show ?thesis
  proof cases
    case 1
    then show ?thesis
      by (simp add: appendInt_def appendBytes_def toCompactBigEndian_def appendRaw_def)
  next
    case 2
    then have "bytesRequired i = 1" by (simp add: bytesRequired.simps)
    with 2 show ?thesis
      by (simp add: appendInt_def appendBytes_def toCompactBigEndian_def)
  next
    case 3
    have "bytesRequired i \<noteq> 1 \<or> 128 \<le> unat (hd ?bs)"
    proof (cases "bytesRequired i = 1")
      case True
      with bytesRequired_bound [of i] 3 show ?thesis by simp
    qed simp
    with 3 show ?thesis
      by (auto simp add: appendInt_def appendBytes_def toCompactBigEndian_def appendRaw_def
          pushCount_def pushInt_def Let_def ac_simps)
  qed
qed

definition int_item :: "nat \<Rightarrow> rlp_item" where
  "int_item i = Str (toCompactBigEndian i 0)"

lemma isInt_enc:
  assumes "item_ok (Str bs)" and "bs \<noteq> [] \<Longrightarrow> hd bs \<noteq> 0"
  shows "isInt (rlp_enc (Str bs)) = Inr True"
proof (cases "length bs = 1 \<and> unat (hd bs) < 0x80")
  case True
  then obtain b where "bs = [b]" by (cases bs) auto
  with True assms(2) show ?thesis
    by (simp add: enc_str_def isInt_def requireGood_def unat_eq_zero)
next
  case False
  then have enc: "rlp_enc (Str bs) = enc_header 0x80 (length bs) @ bs" by (auto simp: enc_str_def)
  have ok: "size_ok (length bs)" using size_ok_content [OF assms(1)] by simp
  note h = header_facts [OF ok disjI1 [OF refl] refl [of "enc_header 0x80 (length bs) @ bs"]]
  have at: "(enc_header 0x80 (length bs) @ bs) ! length (enc_header 0x80 (length bs)) = hd bs"
    if "bs \<noteq> []" using that by (simp add: nth_append hd_conv_nth)
  have good: "requireGood (rlp_enc (Str bs)) = Inr ()"
    using enc_read(6) [OF assms(1), of "[]"] by simp
  show ?thesis
    using h good at assms(2) unfolding enc isInt_def
    by (cases "bs = []") (auto simp: Let_def split: if_splits)
qed

lemma toInt_enc:
  assumes ok: "item_ok (Str bs)" and nz: "bs \<noteq> [] \<Longrightarrow> hd bs \<noteq> 0" and fits: "length bs \<le> maxSize w"
  shows "toInt w (rlp_enc (Str bs)) flags = Inr (fromBigEndian w bs)"
  using enc_read [OF ok, of "[]"] isInt_enc [OF ok nz] payload_enc [OF ok] fits
    rlp_enc_not_Nil [of "Str bs"]
  by (simp add: toInt_def del: rlp_enc_not_Nil)

text \<open>A value of the width's range survives \<open>append\<close> and \<open>toInt<T>\<close>.\<close>

lemma length_compact:
  assumes "i < 2 ^ k" "8 dvd k"
  shows "length (toCompactBigEndian i 0) \<le> k div 8"
proof -
  from assms(2) obtain m where k: "k = 8 * m" by auto
  with assms(1) have "i < 256 ^ m" by (simp add: power_mult)
  then have "bytesRequired i \<le> m" by (rule bytesRequired_least)
  then show ?thesis using k by (simp add: toCompactBigEndian_def)
qed

lemma item_ok_int:
  assumes "i < 2 ^ k" "8 dvd k" "k \<le> 2 ^ 32"
  shows "item_ok (int_item i)"
proof -
  have len: "length (toCompactBigEndian i 0) \<le> 2 ^ 29"
    using length_compact [OF assms(1,2)] assms(3) by simp
  then have "bytesRequired (length (toCompactBigEndian i 0)) \<le> 8"
    by (intro bytesRequired_least) simp
  then have "length (rlp_enc (int_item i)) \<le> 9 + 2 ^ 29"
    using len by (auto simp: int_item_def enc_str_def enc_header_def)
  then show ?thesis by (simp add: item_ok_def size_ok_def)
qed

lemma toInt_int_item:
  assumes "i < 2 ^ k" "8 dvd k" "k \<le> 2 ^ 32"
  shows "toInt (Some k) (rlp_enc (int_item i)) flags = Inr i"
proof -
  note ok = item_ok_int [OF assms]
  have nz: "toCompactBigEndian i 0 \<noteq> [] \<Longrightarrow> hd (toCompactBigEndian i 0) \<noteq> 0"
    using toBigEndian_hd_nonzero [of i] by (cases "i = 0") (auto simp: toCompactBigEndian_def)
  have "toInt (Some k) (rlp_enc (int_item i)) flags =
      Inr (fromBigEndian (Some k) (toCompactBigEndian i 0))"
    unfolding int_item_def
    by (rule toInt_enc [OF ok [unfolded int_item_def] nz])
      (use length_compact [OF assms(1,2)] in \<open>auto simp: maxSize_def\<close>)
  also have "fromBigEndian (Some k) (toCompactBigEndian i 0) = i"
    using assms(1) by (simp add: fromBigEndian_Some be_value_compact)
  finally show ?thesis .
qed

lemma toHash_enc:
  assumes "item_ok (Str bs)" "length bs = n"
  shows "toHash n (rlp_enc (Str bs)) flags = Inr bs"
  using enc_read [OF assms(1), of "[]"] payload_enc [OF assms(1)] assms(2)
  by (simp add: toHash_def)

section \<open>Counting and indexing\<close>

lemma item_ok_Lst: "item_ok (Lst xs) \<Longrightarrow> x \<in> set xs \<Longrightarrow> item_ok x"
proof -
  assume ok: "item_ok (Lst xs)" and x: "x \<in> set xs"
  have "length (rlp_enc x) \<le> length (concat (map rlp_enc xs))"
    using x by (auto simp: length_concat intro!: member_le_sum_list)
  also have "\<dots> \<le> length (rlp_enc (Lst xs))" by (simp add: Let_def)
  finally show ?thesis using ok size_ok_mono unfolding item_ok_def by blast
qed

lemma items_loop_enc:
  "(\<And>x. x \<in> set xs \<Longrightarrow> item_ok x) \<Longrightarrow> items_loop (concat (map rlp_enc xs)) = Inr (length xs)"
proof (induction xs)
  case (Cons x xs)
  then show ?case
    by (subst items_loop.simps) (simp add: cropped_from_def)
qed (simp add: items_loop.simps)

lemma itemCount_enc: "item_ok (Lst xs) \<Longrightarrow> itemCount (rlp_enc (Lst xs)) = Inr (length xs)"
  using enc_read(3) [of "Lst xs" "[]"] payload_enc [of "Lst xs"]
    items_loop_enc [of xs] item_ok_Lst [of xs]
  by (simp add: itemCount_def)

text \<open>The offset of item \<open>i\<close> in the payload, and what the cache holds between calls.\<close>

definition item_at :: "rlp_item list \<Rightarrow> nat \<Rightarrow> bytes" where
  "item_at xs i = (if i < length xs then rlp_enc (xs ! i) else [])"

definition offset_after :: "rlp_item list \<Rightarrow> nat \<Rightarrow> nat" where
  "offset_after xs i = length (concat (map rlp_enc (take (Suc i) xs)))"

definition cache_ok :: "rlp_item list \<Rightarrow> rlp \<Rightarrow> bool" where
  "cache_ok xs r \<longleftrightarrow> r_data r = rlp_enc (Lst xs) \<and>
     (m_lastIndex r = 2 ^ 64 - 1 \<or>
      m_lastIndex r \<le> length xs \<and> m_lastItem r = item_at xs (m_lastIndex r) \<and>
      m_lastEnd r = offset_after xs (m_lastIndex r))"

lemma cropped_prefix [simp]: "cropped (a @ b) 0 (length a) = a"
  by (simp add: cropped_def)

lemma sizeAsEncoded_Nil [simp]: "sizeAsEncoded [] = Inr 0"
  by (simp add: sizeAsEncoded_def rlp_make_def actualSize_def)

lemma rlp_make_Nil [simp]: "rlp_make [] s = Inr []"
  by (simp add: rlp_make_def actualSize_def)

lemma payload_drop:
  assumes "i < length xs"
  shows "drop (offset_after xs i) (concat (map rlp_enc xs)) = concat (map rlp_enc (drop (Suc i) xs))"
proof -
  have "concat (map rlp_enc xs) =
      concat (map rlp_enc (take (Suc i) xs)) @ concat (map rlp_enc (drop (Suc i) xs))"
    by (metis append_take_drop_id concat_append map_append)
  then show ?thesis by (simp add: offset_after_def)
qed

lemma offset_after_le: "offset_after xs i \<le> length (concat (map rlp_enc xs))"
proof -
  have "length (concat (map rlp_enc xs)) =
      offset_after xs i + length (concat (map rlp_enc (drop (Suc i) xs)))"
    by (metis append_take_drop_id concat_append length_append map_append offset_after_def)
  then show ?thesis by simp
qed

lemma index_loop_enc:
  assumes ok: "item_ok (Lst xs)" and "idx \<le> length xs" "idx \<le> i"
  shows "index_loop (rlp_enc (Lst xs)) i idx (offset_after xs idx) (item_at xs idx) =
     Inr (min i (length xs), offset_after xs (min i (length xs)), item_at xs (min i (length xs)))"
  using assms(2,3)
proof (induction "length xs - idx" arbitrary: idx)
  case 0
  then show ?case by (subst index_loop.simps) (simp add: item_at_def)
next
  case (Suc n)
  then have lt: "idx < length xs" by simp
  show ?case
  proof (cases "idx < i")
    case False
    with Suc.prems lt show ?thesis by (subst index_loop.simps) (simp add: min_absorb1)
  next
    case True
    let ?pl = "concat (map rlp_enc xs)"
    have pl: "payload (rlp_enc (Lst xs)) = Inr ?pl" using payload_enc [OF ok] by simp
    have rest: "cropped_from ?pl (offset_after xs idx) = concat (map rlp_enc (drop (Suc idx) xs))"
      using payload_drop [OF lt] offset_after_le by (simp add: cropped_from_def)
    have nxt: "sizeAsEncoded (concat (map rlp_enc (drop (Suc idx) xs))) = Inr (length (item_at xs (Suc idx)))"
      and it: "cropped (concat (map rlp_enc (drop (Suc idx) xs))) 0 (length (item_at xs (Suc idx)))
        = item_at xs (Suc idx)"
      and off: "offset_after xs idx + length (item_at xs (Suc idx)) = offset_after xs (Suc idx)"
      using item_ok_Lst [OF ok, of "xs ! Suc idx"]
      by (auto simp: item_at_def Cons_nth_drop_Suc [symmetric] cropped_def offset_after_def
          take_Suc_conv_app_nth not_less)
    have "index_loop (rlp_enc (Lst xs)) i idx (offset_after xs idx) (item_at xs idx) =
        index_loop (rlp_enc (Lst xs)) i (Suc idx) (offset_after xs (Suc idx)) (item_at xs (Suc idx))"
      using True lt nxt it off rest pl
      by (subst index_loop.simps) (simp add: Let_def item_at_def del: rlp_enc.simps)
    with Suc True lt show ?thesis by simp
  qed
qed

lemma rlp_index_enc:
  assumes ok: "item_ok (Lst xs)" and c: "cache_ok xs r" and i: "i < 2 ^ 64 - 1"
  shows "\<exists>r'. rlp_index r i = Inr (item_at xs i, r') \<and> cache_ok xs r'"
proof -
  let ?m = "min i (length xs)"
  let ?r' = "r\<lparr>m_lastIndex := ?m, m_lastEnd := offset_after xs ?m, m_lastItem := item_at xs ?m\<rparr>"
  have data: "r_data r = rlp_enc (Lst xs)" using c by (simp add: cache_ok_def)
  have mk: "rlp_make (item_at xs ?m) s = Inr (item_at xs i)" for s
    using item_ok_Lst [OF ok] by (auto simp: item_at_def min_def)
  have start: "payload (rlp_enc (Lst xs)) = Inr (concat (map rlp_enc xs))"
    "sizeAsEncoded (concat (map rlp_enc xs)) = Inr (offset_after xs 0)"
    "cropped (concat (map rlp_enc xs)) 0 (offset_after xs 0) = item_at xs 0"
    using payload_enc [OF ok] item_ok_Lst [OF ok]
    by (cases xs; auto simp: offset_after_def item_at_def cropped_def)+
  have loop: "index_loop (rlp_enc (Lst xs)) i idx (offset_after xs idx) (item_at xs idx) =
      Inr (?m, offset_after xs ?m, item_at xs ?m)" if "idx \<le> length xs" "idx \<le> i" for idx
    using index_loop_enc [OF ok that] .
  have "rlp_index r i = Inr (item_at xs i, ?r')"
  proof (cases "i < m_lastIndex r")
    case True
    with start loop [of 0] mk show ?thesis
      by (simp add: rlp_index_def data del: rlp_enc.simps)
  next
    case False
    with c i have "m_lastIndex r \<le> length xs" "m_lastItem r = item_at xs (m_lastIndex r)"
      "m_lastEnd r = offset_after xs (m_lastIndex r)" by (auto simp: cache_ok_def)
    with False loop mk show ?thesis
      by (simp add: rlp_index_def data del: rlp_enc.simps)
  qed
  moreover have "cache_ok xs ?r'" using data by (simp add: cache_ok_def)
  ultimately show ?thesis by blast
qed

lemma cache_ok_view: "cache_ok xs (rlp_view (rlp_enc (Lst xs)))"
  by (simp add: cache_ok_def rlp_view_def)

text \<open>A client that asks one view for a sequence of items.\<close>

fun index_all :: "rlp \<Rightarrow> nat list \<Rightarrow> rlp_exn + bytes list" where
  "index_all r [] = Inr []"
| "index_all r (i # is) =
     bindE (rlp_index r i) (\<lambda>(x, r'). bindE (index_all r' is) (\<lambda>xs. Inr (x # xs)))"

lemma index_all_enc:
  "item_ok (Lst xs) \<Longrightarrow> cache_ok xs r \<Longrightarrow> list_all (\<lambda>i. i < 2 ^ 64 - 1) is \<Longrightarrow>
     index_all r is = Inr (map (item_at xs) is)"
proof (induction "is" arbitrary: r)
  case (Cons i "is")
  from rlp_index_enc [OF Cons.prems(1,2), of i] Cons.prems(3)
  obtain r' where "rlp_index r i = Inr (item_at xs i, r')" "cache_ok xs r'" by auto
  with Cons show ?case by simp
qed simp

section \<open>Iterating\<close>

lemma sizeAsEncoded_le: "sizeAsEncoded d = Inr k \<Longrightarrow> k \<le> length d"
  by (auto simp: sizeAsEncoded_def rlp_make_def exn_simps split: if_splits)

text \<open>While the iterator is inside data that its payload ends with, each step consumes part of
  what remains.\<close>

definition iter_inside :: "bytes \<Rightarrow> rlp_iter \<Rightarrow> bool" where
  "iter_inside d it \<longleftrightarrow> it_pos it + it_size it + it_remaining it = length d \<and>
     (it_size it = 0 \<longrightarrow> it_remaining it = 0)"

lemma iter_next_inside:
  assumes "iter_inside d it" "iter_next d it = Inr it'"
  shows "iter_inside d it'"
    and "it_size it \<noteq> 0 \<Longrightarrow>
      it_remaining it' + it_size it' < it_remaining it + it_size it"
proof -
  have "iter_inside d it' \<and> (it_size it \<noteq> 0 \<longrightarrow>
      it_remaining it' + it_size it' < it_remaining it + it_size it)"
  proof (cases "it_remaining it = 0")
    case True
    with assms show ?thesis by (auto simp: iter_next_def iter_inside_def)
  next
    case False
    let ?cur = "take (it_remaining it) (drop (it_pos it + it_size it) d)"
    from False assms(2) obtain k where k: "sizeAsEncoded ?cur = Inr k"
      and it': "it' = \<lparr>it_pos = it_pos it + it_size it, it_size = length (cropped ?cur 0 k),
        it_remaining = it_remaining it - min (it_remaining it) (length (cropped ?cur 0 k))\<rparr>"
      by (auto simp: iter_next_def Let_def exn_simps)
    have len: "length ?cur = it_remaining it"
      using assms(1) by (auto simp: iter_inside_def)
    then have ne: "?cur \<noteq> []" using False by (metis list.size(3))
    have "0 < k" "k \<le> it_remaining it"
      using sizeAsEncoded_pos [OF k ne] sizeAsEncoded_le [OF k] unfolding len by auto
    moreover from this have "length (cropped ?cur 0 k) = k"
      using len by (simp add: cropped_def)
    ultimately show ?thesis
      using assms(1) by (auto simp: it' iter_inside_def)
  qed
  then show "iter_inside d it'" "it_size it \<noteq> 0 \<Longrightarrow>
      it_remaining it' + it_size it' < it_remaining it + it_size it" by auto
qed

lemma toList_loop_returns: "iter_inside d it \<Longrightarrow> \<exists>r. toList_loop d it ret = Some r"
proof (induction "it_remaining it + it_size it" arbitrary: it ret rule: less_induct)
  case less
  show ?case
  proof (cases "it_pos it = length d \<and> it_size it = 0")
    case True
    then show ?thesis by (subst toList_loop.simps) (simp add: iter_end_def)
  next
    case False
    then have sz: "it_size it \<noteq> 0" using less.prems by (auto simp: iter_inside_def)
    show ?thesis
    proof (cases "iter_deref d it")
      case (Inr x)
      show ?thesis
      proof (cases "iter_next d it")
        case (Inr it')
        with iter_next_inside [OF less.prems this] sz less.hyps [of it' "x # ret"]
        obtain r where "toList_loop d it' (x # ret) = Some r" by auto
        with False Inr \<open>iter_deref d it = Inr x\<close> show ?thesis
          by (subst toList_loop.simps) (auto simp: iter_end_def)
      qed (use False Inr in \<open>subst toList_loop.simps, auto simp: iter_end_def\<close>)
    qed (use False in \<open>subst toList_loop.simps, auto simp: iter_end_def\<close>)
  qed
qed

lemma iter_begin_inside:
  assumes "rlp_make d VeryStrict = Inr d" "isList d" "iter_begin d = Inr it"
  shows "iter_inside d it"
proof -
  from assms(3,2) obtain pl k where pl: "payload d = Inr pl" and k: "sizeAsEncoded pl = Inr k"
    and it: "it = \<lparr>it_pos = payloadOffset d, it_size = length (cropped pl 0 k),
      it_remaining = length pl - length (cropped pl 0 k)\<rparr>"
    by (auto simp: iter_begin_def Let_def exn_simps)
  have "\<not> isSingleByte d" using assms(2) by (auto simp: isList_def isSingleByte_def)
  moreover have "d \<noteq> []" using assms(2) by (auto simp: isList_def)
  ultimately have len: "payloadOffset d + length pl = length d" using assms(1,2) pl
    by (auto simp: rlp_make_def actualSize_def payload_def exn_simps cropped_def
        split: if_splits)
  have kl: "k \<le> length pl" using sizeAsEncoded_le [OF k] .
  then have "length (cropped pl 0 k) = k" by (simp add: cropped_def)
  then show ?thesis using kl len sizeAsEncoded_pos [OF k] it
    by (cases "pl = []") (auto simp: iter_inside_def)
qed

lemma toList_returns:
  assumes "rlp_make d VeryStrict = Inr d"
  shows "\<exists>r. toList d flags = Some r"
proof (cases "isList d")
  case True
  show ?thesis
  proof (cases "iter_begin d")
    case (Inr it)
    then show ?thesis
      using True toList_loop_returns [OF iter_begin_inside [OF assms True Inr]]
      by (simp add: toList_def)
  qed (use True in \<open>simp add: toList_def\<close>)
qed (simp add: toList_def)

text \<open>On an encoding the iterator yields the encodings of the elements.\<close>

lemma toList_loop_enc:
  assumes "\<And>x. x \<in> set xs \<Longrightarrow> item_ok x"
    and "drop (it_pos it) d = concat (map rlp_enc xs)" "it_pos it \<le> length d"
    and "it_size it = length (item_at xs 0)"
    and "it_remaining it = length (concat (map rlp_enc xs)) - it_size it"
  shows "toList_loop d it ret = Some (Inr (rev ret @ map rlp_enc xs))"
  using assms
proof (induction xs arbitrary: it ret)
  case Nil
  then show ?case by (subst toList_loop.simps) (auto simp: iter_end_def item_at_def)
next
  case (Cons x xs)
  have ok: "item_ok x" using Cons.prems(1) by simp
  have sz: "it_size it = length (rlp_enc x)"
    and rem: "it_remaining it = length (concat (map rlp_enc xs))"
    using Cons.prems(4,5) by (auto simp: item_at_def)
  have "drop (it_pos it + it_size it) d = drop (it_size it) (drop (it_pos it) d)"
    by (simp add: add.commute)
  then have dr: "drop (it_pos it + it_size it) d = concat (map rlp_enc xs)"
    by (simp add: Cons.prems(2) sz)
  have deref: "iter_deref d it = Inr (rlp_enc x)"
    using ok Cons.prems(2) sz by (simp add: iter_deref_def)
  have le: "it_pos it + it_size it \<le> length d"
    using arg_cong [OF Cons.prems(2), of length] sz Cons.prems(3) by simp
  define it' where "it' = \<lparr>it_pos = it_pos it + it_size it, it_size = length (item_at xs 0),
      it_remaining = length (concat (map rlp_enc xs)) - length (item_at xs 0)\<rparr>"
  have nxt: "iter_next d it = Inr it'"
    using rem dr Cons.prems(1)
    by (cases xs) (auto simp: iter_next_def it'_def item_at_def Let_def)
  have "toList_loop d it' (rlp_enc x # ret) = Some (Inr (rev (rlp_enc x # ret) @ map rlp_enc xs))"
    using Cons.prems(1) dr le by (intro Cons.IH) (auto simp: it'_def)
  then show ?case
    using deref nxt sz by (subst toList_loop.simps) (simp add: iter_end_def)
qed

lemma toList_enc:
  assumes ok: "item_ok (Lst xs)"
  shows "toList (rlp_enc (Lst xs)) flags = Some (Inr (map rlp_enc xs))"
proof -
  let ?d = "rlp_enc (Lst xs)" and ?pl = "concat (map rlp_enc xs)"
  note rd = enc_read [OF ok, of "[]", simplified append_Nil2 content.simps is_Lst.simps]
  have pl: "payload ?d = Inr ?pl" using payload_enc [OF ok] by simp
  have k: "sizeAsEncoded ?pl = Inr (length (item_at xs 0))"
    and cr: "length (cropped ?pl 0 (length (item_at xs 0))) = length (item_at xs 0)"
    using item_ok_Lst [OF ok] by (cases xs; auto simp: item_at_def cropped_def)+
  have "toList ?d flags = toList_loop ?d \<lparr>it_pos = payloadOffset ?d, it_size = length (item_at xs 0),
      it_remaining = length ?pl - length (item_at xs 0)\<rparr> []"
    using rd(3) pl k cr by (simp add: toList_def iter_begin_def Let_def del: rlp_enc.simps)
  also have "\<dots> = Some (Inr (rev [] @ map rlp_enc xs))"
    using item_ok_Lst [OF ok] rd(2,5) by (intro toList_loop_enc) auto
  finally show ?thesis by simp
qed

section \<open>Canonicity\<close>

lemma bytesRequired_be_value: "bs \<noteq> [] \<Longrightarrow> hd bs \<noteq> 0 \<Longrightarrow> bytesRequired (be_value bs) = length bs"
proof -
  assume ne: "bs \<noteq> []" and nz: "hd bs \<noteq> 0"
  then obtain b r where bs: "bs = b # r" and b: "0 < unat b"
    by (cases bs) (auto simp: unat_gt_0)
  have "256 ^ length r \<le> be_value bs"
    using b by (simp add: bs be_value_Cons trans_le_add1)
  then have "\<not> bytesRequired (be_value bs) \<le> length r"
    using bytesRequired_bound [of "be_value bs"]
    by (meson leD le_less_trans not_le power_increasing_iff one_less_numeral_iff semiring_norm(76))
  moreover have "bytesRequired (be_value bs) \<le> length bs"
    by (rule bytesRequired_least [OF be_value_bound])
  ultimately show ?thesis by (simp add: bs)
qed

lemma long_length_inv:
  assumes "long_length d lsz 56 = Inr ret" "1 \<le> lsz"
  shows "bytesRequired ret = lsz" "take lsz (drop 1 d) = toBigEndian ret lsz" "56 \<le> ret"
    "size_ok ret" "lsz < length d"
proof -
  let ?be = "take lsz (drop 1 d)"
  from assms have l: "lsz < length d" "lsz \<le> 8" "d ! 1 \<noteq> 0"
    and ret: "ret = fromBigEndian (Some 64) ?be" and b: "56 \<le> ret" "size_ok ret"
    by (auto simp: long_length_def Let_def size_ok_def split: if_splits)
  have len: "length ?be = lsz" using l by simp
  have ne: "?be \<noteq> []" using len assms(2) by (metis list.size(3) not_one_le_zero)
  have "hd ?be = d ! 1" using ne l by (simp add: hd_conv_nth)
  then have br: "bytesRequired (be_value ?be) = lsz"
    using bytesRequired_be_value [OF ne] l len by simp
  have "be_value ?be < 256 ^ 8"
    using be_value_bound [of ?be] power_increasing [OF l(2), of "256 :: nat"]
    unfolding len by simp
  then have ret': "ret = be_value ?be" by (simp add: ret fromBigEndian_Some)
  show "bytesRequired ret = lsz" using br ret' by simp
  show "?be = toBigEndian ret lsz" using toBigEndian_be_value [of ?be] len ret' by simp
  show "56 \<le> ret" "size_ok ret" "lsz < length d" using b l by auto
qed

lemma strict_size:
  "rlp_make d VeryStrict = Inr d \<Longrightarrow> d \<noteq> [] \<Longrightarrow> actualSize d = Inr (length d)"
  by (auto simp: rlp_make_def exn_simps split: if_splits)

lemma enc_header_short: "n < 56 \<Longrightarrow> enc_header base n = [of_nat (base + n)]"
  by (simp add: enc_header_def)

text \<open>A view that is neither too big nor too small is the canonical header and the payload.\<close>

lemma strict_header:
  assumes mk: "rlp_make d VeryStrict = Inr d" and ne: "d \<noteq> []" and nosingle: "128 \<le> unat (d ! 0)"
    and pl: "payload d = Inr p"
  shows "d = enc_header (if isList d then 0xc0 else 0x80) (length p) @ p"
proof -
  define n where "n = unat (d ! 0)"
  have n: "128 \<le> n" "n < 256" using nosingle by (auto simp: n_def)
  have d0: "d ! 0 = of_nat n" by (simp add: n_def)
  have dcons: "d = d ! 0 # drop 1 d" using ne by (cases d) auto
  from pl obtain l where l: "rlp_length d = Inr l" "l \<le> length d"
    and p: "p = cropped d (payloadOffset d) l" by (auto simp: payload_def exn_simps split: if_splits)
  have total: "length d = payloadOffset d + l"
    using strict_size [OF mk ne] l n ne
    by (auto simp: actualSize_def isSingleByte_def isData_def isList_def n_def split: if_splits)
  have p': "p = drop (payloadOffset d) d" and lp: "length p = l"
    using p total l(2) by (auto simp: cropped_def)
  let ?base = "if isList d then 0xc0 else 0x80 :: nat"
  have list: "isList d \<longleftrightarrow> 192 \<le> n" "isData d \<longleftrightarrow> n < 192" using ne by (auto simp: isList_def isData_def n_def)
  show ?thesis
  proof (cases "n \<le> ?base + 55")
    case True
    then have off: "payloadOffset d = 1" "l = n - ?base"
      using l(1) n ne list
      by (auto simp: payloadOffset_def lengthSize_def isSingleByte_def rlp_length_def Let_def
          exn_simps simp flip: n_def split: if_splits)
    have l56: "l < 56" and ln: "?base + l = n" using True n list off by (auto split: if_splits)
    have "enc_header ?base l = [d ! 0]"
      unfolding enc_header_short [OF l56] ln d0 ..
    then show ?thesis using dcons p' off lp by simp
  next
    case False
    let ?lsz = "n - (?base + 55)"
    have off: "payloadOffset d = 1 + ?lsz" and ll: "long_length d ?lsz 56 = Inr l"
      using l(1) n ne list False
      by (auto simp: payloadOffset_def lengthSize_def isSingleByte_def rlp_length_def Let_def
          exn_simps simp flip: n_def split: if_splits)
    have one: "1 \<le> ?lsz" using False by simp
    note inv = long_length_inv [OF ll one]
    have "enc_header ?base l = of_nat (?base + 55 + ?lsz) # toBigEndian l ?lsz"
      using inv(1,3) by (simp add: enc_header_def)
    also have "?base + 55 + ?lsz = n" using False by simp
    finally have eh: "enc_header ?base l = d ! 0 # take ?lsz (drop 1 d)"
      using inv(2) d0 by simp
    have "p = drop ?lsz (drop 1 d)" using p' off by (simp add: add.commute)
    then have "enc_header ?base l @ p = d ! 0 # drop 1 d"
      unfolding eh by (simp only: append_Cons append_take_drop_id)
    then show ?thesis using dcons unfolding lp by simp
  qed
qed

lemma strict_data_canonical:
  assumes mk: "rlp_make d VeryStrict = Inr d" and data: "isData d" and tb: "toBytes d flags = Inr bs"
  shows "d = rlp_enc (Str bs)"
proof -
  have ne: "d \<noteq> []" using data by (auto simp: isData_def)
  from tb data obtain p l where pl: "payload d = Inr p" and l: "rlp_length d = Inr l" "bs = take l p"
    by (auto simp: toBytes_def exn_simps)
  have "length p \<le> l" using pl l by (auto simp: payload_def exn_simps cropped_def split: if_splits)
  then have bs: "bs = p" using l(2) by simp
  show ?thesis
  proof (cases "128 \<le> unat (d ! 0)")
    case True
    have nl: "\<not> isList d" using data by (auto simp: isList_def isData_def)
    have d: "d = enc_header 0x80 (length p) @ p"
      using strict_header [OF mk ne True pl] nl by simp
    have "\<not> (length p = 1 \<and> unat (hd p) < 128)"
    proof
      assume c: "length p = 1 \<and> unat (hd p) < 128"
      then have "d = [129, hd p]" using d by (cases p) (auto simp: enc_header_def)
      with c l(1) show False by (simp add: rlp_length_def requireGood_def)
    qed
    then show ?thesis using d bs by (auto simp: enc_str_def)
  next
    case False
    then have "actualSize d = Inr 1" using ne by (simp add: actualSize_def isSingleByte_def)
    then have "length d = 1" using strict_size [OF mk ne] by simp
    then obtain b where b: "d = [b]" by (cases d) auto
    with False pl have "p = [b]"
      by (auto simp: payload_def rlp_length_def requireGood_def payloadOffset_def isSingleByte_def
          cropped_def exn_simps split: if_splits)
    with False b bs show ?thesis by (simp add: enc_str_def)
  qed
qed

lemma strict_list_canonical:
  assumes mk: "rlp_make d VeryStrict = Inr d" and lst: "isList d" and pl: "payload d = Inr p"
  shows "d = enc_header 0xc0 (length p) @ p"
  using strict_header [OF mk _ _ pl] lst by (auto simp: isList_def)

lemma rlp_enc_inject:
  "item_ok x \<Longrightarrow> item_ok y \<Longrightarrow> rlp_enc x = rlp_enc y \<Longrightarrow> x = y"
proof (induction x arbitrary: y)
  case (Str bs)
  then have "\<not> is_Lst y" "content y = bs"
    using enc_read(3) [of _ "[]"] payload_enc [of "Str bs"] payload_enc [of y]
    by (metis append_Nil2 is_Lst.simps(1), metis Inr_inject content.simps(1))
  then show ?case by (cases y) auto
next
  case (Lst xs)
  have "is_Lst y"
    using enc_read(3) [of _ "[]"] Lst.prems by (metis append_Nil2 is_Lst.simps(2))
  then obtain ys where y: "y = Lst ys" by (cases y) auto
  have "toList (rlp_enc (Lst ys)) 0 = Some (Inr (map rlp_enc xs))"
    using toList_enc [OF Lst.prems(1), of 0] unfolding Lst.prems(3) y .
  then have "map rlp_enc xs = map rlp_enc ys"
    unfolding toList_enc [OF Lst.prems(2) [unfolded y]] by simp
  moreover have "x = x'" if "x \<in> set xs" "x' \<in> set ys" "rlp_enc x = rlp_enc x'" for x x'
    using Lst.IH [OF that(1) _ _ that(3)] item_ok_Lst Lst.prems y that by blast
  ultimately have "xs = ys"
    by (auto simp: list_eq_iff_nth_eq intro!: nth_equalityI dest: map_eq_imp_length_eq)
  then show ?case by (simp add: y)
qed

lemma item_ok_fits: "item_ok x \<Longrightarrow> rlp_fits x"
proof (induction x)
  case (Str bs)
  then show ?case using size_ok_content [of "Str bs"] by (simp add: size_ok_bytesRequired)
next
  case (Lst xs)
  then show ?case
    using size_ok_content [of "Lst xs"] item_ok_Lst [of xs] by (auto simp: size_ok_bytesRequired)
qed

lemma item_ok_append: "item_ok (Lst (xs @ ys)) \<Longrightarrow> item_ok (Lst xs)"
proof -
  let ?c = "\<lambda>xs. concat (map rlp_enc xs)"
  have "length (enc_header 0xc0 (length (?c xs))) \<le> length (enc_header 0xc0 (length (?c (xs @ ys))))"
    by (rule length_enc_header_mono) simp
  then have "length (rlp_enc (Lst xs)) \<le> length (rlp_enc (Lst (xs @ ys)))" by (simp add: Let_def)
  then show "item_ok (Lst (xs @ ys)) \<Longrightarrow> item_ok (Lst xs)"
    unfolding item_ok_def by (meson size_ok_mono)
qed

lemma item_ok_length: "item_ok (Lst xs) \<Longrightarrow> length xs < 2 ^ 64 - 1"
proof -
  assume ok: "item_ok (Lst xs)"
  have "length xs \<le> length (concat (map rlp_enc xs))"
  proof (induction xs)
    case (Cons x xs)
    have "0 < length (rlp_enc x)" by simp
    with Cons show ?case by (simp del: length_greater_0_conv)
  qed simp
  also have "\<dots> < 2 ^ 64 - 257" using size_ok_content [OF ok] by (simp add: size_ok_def)
  finally show ?thesis by simp
qed

section \<open>Sizes of encodings\<close>

lemma length_enc_Str: "length bs < 2 ^ 60 \<Longrightarrow> length (rlp_enc (Str bs)) \<le> 9 + length bs"
proof -
  assume "length bs < 2 ^ 60"
  then have "bytesRequired (length bs) \<le> 8" by (intro bytesRequired_least) simp
  then show ?thesis by (simp add: enc_str_def enc_header_def)
qed

lemma length_enc_int: "i < 2 ^ 256 \<Longrightarrow> length (rlp_enc (int_item i)) \<le> 265"
  using length_enc_Str [of "toCompactBigEndian i 0"] length_compact [of i 256]
  by (simp add: int_item_def del: rlp_enc.simps)

end
