(* ===== verification/RlpProperties.thy ===== *)
theory RlpProperties
  imports RlpRoundtrip
begin

text \<open>
  The properties of the RLP component (libdevcore/RLP.h, libdevcore/RLP.cpp), each with a
  concrete instance where it has hypotheses: the writer against the encoding of item trees, the
  reader against the writer, canonicity of strict views and termination of iteration.
\<close>

text \<open>C29: The writer refines the encoding of item trees: starting from an empty stream, writing any
  tree of strings and lists whose payloads have sizes of at most eight bytes, item by item with
  nested \<open>appendList\<close> calls, gives exactly its canonical encoding.\<close>

theorem rlp_writer_refines_encoding:
  assumes "rlp_fits x"
  shows "bindE (write_item x rlp_stream_new) stream_out = Inr (rlp_enc x)"
  using assms by (rule stream_out_write)

theorem rlp_writer_refines_encoding_witness:
  "bindE (write_item (Lst [Str [0x63, 0x61], Lst []]) rlp_stream_new) stream_out
     = Inr [0xc4, 0x82, 0x63, 0x61, 0xc0]"
proof -
  let ?x = "Lst [Str [0x63, 0x61], Lst []]"
  have "rlp_fits ?x" by (simp add: bytesRequired.simps enc_str_def enc_header_def)
  from rlp_writer_refines_encoding [OF this] show ?thesis
    by (simp add: enc_str_def enc_header_def)
qed

text \<open>C30: What the writer wrote is read back: a view on the bytes of a tree is accepted under the
  strictest flags, a string gives its bytes, and a list gives the number of its items and the
  encodings of its items in order.\<close>

theorem rlp_read_back:
  assumes "item_ok x" "bindE (write_item x rlp_stream_new) stream_out = Inr d"
  shows "rlp_make d VeryStrict = Inr d \<and>
    (case x of Str bs \<Rightarrow> toBytes d VeryStrict = Inr bs
     | Lst xs \<Rightarrow> itemCount d = Inr (length xs) \<and> toList d VeryStrict = Some (Inr (map rlp_enc xs)))"
proof -
  have "d = rlp_enc x"
    using assms stream_out_write [OF item_ok_fits [OF assms(1)]] by simp
  then show ?thesis
    using assms(1) by (cases x) (simp_all add: itemCount_enc toList_enc del: rlp_enc.simps)
qed

theorem rlp_read_back_witness:
  "itemCount [0xc4, 0x82, 0x63, 0x61, 0xc0] = Inr 2 \<and>
   toList [0xc4, 0x82, 0x63, 0x61, 0xc0] VeryStrict = Some (Inr [[0x82, 0x63, 0x61], [0xc0]]) \<and>
   toBytes [0x82, 0x63, 0x61] VeryStrict = Inr [0x63, 0x61]"
proof -
  let ?s = "Str [0x63, 0x61]"
  let ?x = "Lst [?s, Lst []]"
  have ok: "item_ok ?s" "item_ok ?x"
    by (simp_all add: item_ok_def size_ok_def enc_str_def enc_header_def)
  have enc: "rlp_enc ?s = [0x82, 0x63, 0x61]" "rlp_enc ?x = [0xc4, 0x82, 0x63, 0x61, 0xc0]"
    by (simp_all add: enc_str_def enc_header_def)
  have w: "bindE (write_item y rlp_stream_new) stream_out = Inr (rlp_enc y)" if "item_ok y" for y
    using that by (rule stream_out_write [OF item_ok_fits])
  from rlp_read_back [OF ok(2) w [OF ok(2)]] rlp_read_back [OF ok(1) w [OF ok(1)]] enc
  show ?thesis by (simp add: enc_header_def)
qed

text \<open>C31: Indexing with the position cache of \<open>operator[]\<close>: for any sequence of indices, in any
  order, one view answers each with the encoding of that item, and with the null view past the end.\<close>

theorem rlp_index_any_order:
  assumes "item_ok (Lst xs)" "list_all (\<lambda>i. i < 2 ^ 64 - 1) is"
  shows "index_all (rlp_view (rlp_enc (Lst xs))) is =
     Inr (map (\<lambda>i. if i < length xs then rlp_enc (xs ! i) else []) is)"
  using index_all_enc [OF assms(1) cache_ok_view assms(2)] by (simp add: item_at_def)

theorem rlp_index_any_order_witness:
  "index_all (rlp_view [0xc4, 0x82, 0x63, 0x61, 0xc0]) [1, 0, 5, 1]
     = Inr [[0xc0], [0x82, 0x63, 0x61], [], [0xc0]]"
proof -
  let ?xs = "[Str [0x63, 0x61], Lst []]"
  have "item_ok (Lst ?xs)" by (simp add: item_ok_def size_ok_def enc_str_def enc_header_def)
  from rlp_index_any_order [OF this, of "[1, 0, 5, 1]"] show ?thesis
    by (simp add: enc_str_def enc_header_def)
qed

text \<open>C32: A strict view is canonical: if a data item passes the strictest checks and its string can
  be taken out, the bytes are exactly the canonical encoding of that string; a list that passes
  them starts with the canonical header of its payload.\<close>

theorem rlp_strict_canonical:
  assumes "rlp_make d VeryStrict = Inr d"
  shows "(isData d \<and> toBytes d flags = Inr bs \<longrightarrow> d = rlp_enc (Str bs)) \<and>
    (isList d \<and> payload d = Inr p \<longrightarrow> d = enc_header 0xc0 (length p) @ p)"
  using strict_data_canonical [OF assms] strict_list_canonical [OF assms] by blast

theorem rlp_strict_canonical_witness:
  "[0x82, 0x63, 0x61] = rlp_enc (Str [0x63, 0x61]) \<and> [0xc1, 0x05] = enc_header 0xc0 1 @ [0x05]"
proof -
  have "rlp_make [0x82, 0x63, 0x61] VeryStrict = Inr [0x82, 0x63, 0x61]"
    "isData [0x82, 0x63, 0x61]" "toBytes [0x82, 0x63, 0x61] VeryStrict = Inr [0x63, 0x61]"
    by code_simp+
  moreover have "rlp_make [0xc1, 0x05] VeryStrict = Inr [0xc1, 0x05]"
    "isList [0xc1, 0x05]" "payload [0xc1, 0x05] = Inr [0x05]"
    by code_simp+
  ultimately show ?thesis
    using rlp_strict_canonical [of "[0x82, 0x63, 0x61]"] rlp_strict_canonical [of "[0xc1, 0x05]"] by simp
qed

text \<open>\<open>toList\<close> terminates on every view that passed the strictest checks.\<close>

theorem rlp_toList_terminates:
  assumes "rlp_make d VeryStrict = Inr d"
  shows "\<exists>r. toList d flags = Some r"
  using assms by (rule toList_returns)

theorem rlp_toList_terminates_witness: "\<exists>r. toList [0xc2, 0x81, 0x05] Strict = Some r"
proof -
  have "rlp_make [0xc2, 0x81, 0x05] VeryStrict = Inr [0xc2, 0x81, 0x05]" by code_simp
  from rlp_toList_terminates [OF this] show ?thesis .
qed

text \<open>C39: Integers survive the stream at every width: an integer of \<open>k\<close> bits written by \<open>append\<close> is
  read back by \<open>toInt\<close> for the type of that width.\<close>

theorem rlp_int_roundtrip:
  assumes "i < 2 ^ k" "8 dvd k" "k \<le> 2 ^ 32"
  shows "bindE (bindE (appendInt rlp_stream_new i) stream_out) (\<lambda>d. toInt (Some k) d flags) = Inr i"
proof -
  have "rlp_fits (int_item i)" by (rule item_ok_fits [OF item_ok_int [OF assms]])
  from stream_out_write [OF this] toInt_int_item [OF assms] show ?thesis
    by (simp add: int_item_def appendInt_eq)
qed

theorem rlp_int_roundtrip_witness:
  "bindE (bindE (appendInt rlp_stream_new 1024) stream_out) (\<lambda>d. toInt (Some 64) d VeryStrict) = Inr 1024"
  by (rule rlp_int_roundtrip) simp_all

text \<open>The encoding identifies the tree: two trees written to the same bytes are equal.\<close>

theorem rlp_writer_injective:
  assumes "item_ok x" "item_ok y"
  shows "bindE (write_item x rlp_stream_new) stream_out = bindE (write_item y rlp_stream_new) stream_out
    \<longleftrightarrow> x = y"
  using rlp_enc_inject [OF assms] assms by (auto simp: stream_out_write item_ok_fits)

theorem rlp_writer_injective_witness:
  "bindE (write_item (Str []) rlp_stream_new) stream_out \<noteq> bindE (write_item (Lst []) rlp_stream_new) stream_out"
  using rlp_writer_injective [of "Str []" "Lst []"]
  by (simp add: item_ok_def size_ok_def enc_str_def enc_header_def)

end
