(* ===== verification/HexPrefix.thy ===== *)
theory HexPrefix
  imports RlpRoundtrip
begin

text \<open>
  Nibble paths of the Merkle Patricia trie, libdevcore/TrieCommon.h and TrieCommon.cpp:
  access to the nibbles of a byte string, the view \<open>NibbleSlice\<close> and its comparisons, and
  the three overloads of \<open>hexPrefixEncode\<close>, which pack a path with a flag nibble for its
  parity and for leaf nodes. The specification of a slice is the list of its nibbles; the
  overloads are related to one packing function and \<open>keyOf\<close> to its inverse. Positions and counts of
  nibbles are \<open>unsigned\<close> in the code; \<open>uns\<close> is the conversion to it. A nibble past the end of the data
  is an invalid read, about which nothing is said.
\<close>

section \<open>Nibbles and slices\<close>

definition uns :: "int \<Rightarrow> nat" where
  "uns x = nat (x mod 2 ^ 32)"

lemma uns_int: "0 \<le> x \<Longrightarrow> x < 2 ^ 32 \<Longrightarrow> uns x = nat x"
  by (simp add: uns_def)

definition nibble :: "bytes \<Rightarrow> nat \<Rightarrow> byte" where
  "nibble d i = (if odd i then (d ! (i div 2)) AND 15 else drop_bit 4 (d ! (i div 2)))"

function sharedNibbles ::
  "bytes \<Rightarrow> nat \<Rightarrow> nat \<Rightarrow> bytes \<Rightarrow> nat \<Rightarrow> nat \<Rightarrow> nat \<Rightarrow> nat" where
  "sharedNibbles f bf ef s bs es ret =
     (if bf < ef \<and> bs < es \<and> nibble f bf = nibble s bs
      then sharedNibbles f (Suc bf) ef s (Suc bs) es (Suc ret)
      else ret)"
  by pat_completeness auto
termination
  by (relation "measure (\<lambda>(f, bf, ef, s, bs, es, ret). ef - bf)") auto

declare sharedNibbles.simps [simp del]

record nibble_slice =
  ns_data :: bytes
  ns_offset :: nat

definition ns_size :: "nibble_slice \<Rightarrow> nat" where
  "ns_size s = uns (int (length (ns_data s) * 2) - int (ns_offset s))"

definition ns_at :: "nibble_slice \<Rightarrow> nat \<Rightarrow> byte" where
  "ns_at s i = nibble (ns_data s) (uns (int (ns_offset s + i)))"

definition ns_empty :: "nibble_slice \<Rightarrow> bool" where
  "ns_empty s \<longleftrightarrow> ns_size s = 0"

definition ns_mid :: "nibble_slice \<Rightarrow> nat \<Rightarrow> nibble_slice" where
  "ns_mid s i = \<lparr>ns_data = ns_data s, ns_offset = uns (int (ns_offset s + i))\<rparr>"

definition ns_shared :: "nibble_slice \<Rightarrow> nibble_slice \<Rightarrow> nat" where
  "ns_shared s k = sharedNibbles (ns_data s) (ns_offset s) (uns (int (ns_offset s + ns_size s)))
     (ns_data k) (ns_offset k) (uns (int (ns_offset k + ns_size k))) 0"

definition ns_contains :: "nibble_slice \<Rightarrow> nibble_slice \<Rightarrow> bool" where
  "ns_contains s k \<longleftrightarrow> ns_shared s k = ns_size k"

definition ns_equal :: "nibble_slice \<Rightarrow> nibble_slice \<Rightarrow> bool" where
  "ns_equal s k \<longleftrightarrow> ns_size k = ns_size s \<and> ns_shared s k = ns_size k"

function earlier_loop :: "nibble_slice \<Rightarrow> nibble_slice \<Rightarrow> nat \<Rightarrow> bool" where
  "earlier_loop s k i =
     (if i < ns_size k \<and> i < ns_size s
      then (if ns_at s i < ns_at k i then True
            else if ns_at s i > ns_at k i then False
            else earlier_loop s k (Suc i))
      else if i \<ge> ns_size k then False
      else True)"
  by pat_completeness auto
termination
  by (relation "measure (\<lambda>(s, k, i). ns_size k - i)") auto

declare earlier_loop.simps [simp del]

definition ns_isEarlierThan :: "nibble_slice \<Rightarrow> nibble_slice \<Rightarrow> bool" where
  "ns_isEarlierThan s k = earlier_loop s k 0"

definition keyOf :: "bytes \<Rightarrow> nibble_slice" where
  "keyOf hpe =
     (if length hpe = 0 then \<lparr>ns_data = hpe, ns_offset = 0\<rparr>
      else if (hpe ! 0) AND 0x10 \<noteq> 0 then \<lparr>ns_data = hpe, ns_offset = 1\<rparr>
      else \<lparr>ns_data = hpe, ns_offset = 2\<rparr>)"

definition hpe_isLeaf :: "bytes \<Rightarrow> bool" where
  "hpe_isLeaf pl \<longleftrightarrow> (pl ! 0) AND 0x20 \<noteq> 0"

section \<open>Encoding\<close>

definition hp_flags :: "bool \<Rightarrow> bool \<Rightarrow> byte" where
  "hp_flags leaf od = ((if leaf then 2 else 0) OR (if od then 1 else 0)) * 16"

text \<open>The overload on a vector of nibbles; \<open>e < 0\<close> counts from the end.\<close>

function hpe_pairs :: "bytes \<Rightarrow> nat \<Rightarrow> nat \<Rightarrow> bytes" where
  "hpe_pairs hv i e = (if i < e then (hv ! i * 16 + hv ! (i + 1)) # hpe_pairs hv (i + 2) e else [])"
  by pat_completeness auto
termination
  by (relation "measure (\<lambda>(hv, i, e). e - i)") auto

declare hpe_pairs.simps [simp del]

definition hexPrefixEncode_vector :: "bytes \<Rightarrow> bool \<Rightarrow> int \<Rightarrow> int \<Rightarrow> bytes" where
  "hexPrefixEncode_vector hv leaf b e =
     (let begin = uns b;
          en = uns (if e < 0 then int (length hv) + 1 + e else e);
          od = (uns (int en - int begin) mod 2 \<noteq> 0)
      in if od then (hp_flags leaf True OR hv ! begin) # hpe_pairs hv (uns (int begin + 1)) en
         else hp_flags leaf False # hpe_pairs hv begin en)"

text \<open>The overloads on nibbles in place write one nibble at a time, into the high half of a new
  byte or into the low half of the last one, by the parity of the counter \<open>d\<close>.\<close>

definition put_nibble :: "nat \<Rightarrow> bytes \<Rightarrow> byte \<Rightarrow> bytes" where
  "put_nibble d ret n =
     (if odd d then butlast ret @ [last ret OR n] else ret @ [push_bit 4 n])"

function hpe_loop :: "bytes \<Rightarrow> nat \<Rightarrow> nat \<Rightarrow> nat \<Rightarrow> bytes \<Rightarrow> bytes" where
  "hpe_loop data i e d ret =
     (if i < e then hpe_loop data (Suc i) e (Suc d) (put_nibble d ret (nibble data i)) else ret)"
  by pat_completeness auto
termination
  by (relation "measure (\<lambda>(data, i, e, d, ret). e - i)") auto

declare hpe_loop.simps [simp del]

definition hexPrefixEncode_slice :: "bytes \<Rightarrow> bool \<Rightarrow> int \<Rightarrow> int \<Rightarrow> nat \<Rightarrow> bytes" where
  "hexPrefixEncode_slice data leaf b e off =
     (let begin = uns (b + int off);
          en = uns ((if e < 0 then int (length data * 2) - int off + 1 + e else e) + int off);
          od = odd (uns (int en - int begin))
      in hpe_loop data begin en (if od then 1 else 2) [hp_flags leaf od])"

definition hexPrefixEncode_concat :: "bytes \<Rightarrow> nat \<Rightarrow> bytes \<Rightarrow> nat \<Rightarrow> bool \<Rightarrow> bytes" where
  "hexPrefixEncode_concat d1 o1 d2 o2 leaf =
     (let end1 = uns (int (length d1 * 2)); end2 = uns (int (length d2 * 2));
          od = odd (uns (int end1 - int o1 + int end2 - int o2));
          d = (if od then 1 else 2);
          ret = hpe_loop d1 o1 end1 d [hp_flags leaf od]
      in hpe_loop d2 o2 end2 (d + (end1 - o1)) ret)"

section \<open>Specification\<close>

text \<open>The nibbles of a byte string between two positions, and of a slice.\<close>

definition nibbles :: "bytes \<Rightarrow> nat \<Rightarrow> nat \<Rightarrow> bytes" where
  "nibbles d b e = map (nibble d) [b..<e]"

definition ns_nibbles :: "nibble_slice \<Rightarrow> bytes" where
  "ns_nibbles s = nibbles (ns_data s) (ns_offset s) (length (ns_data s) * 2)"

fun pack :: "bytes \<Rightarrow> bytes" where
  "pack (a # b # r) = (push_bit 4 a OR b) # pack r"
| "pack [a] = [push_bit 4 a]"
| "pack [] = []"

definition hp_spec :: "bool \<Rightarrow> bytes \<Rightarrow> bytes" where
  "hp_spec leaf ns =
     (if odd (length ns) then (hp_flags leaf True OR hd ns) # pack (tl ns)
      else hp_flags leaf False # pack ns)"

definition is_nibble :: "byte \<Rightarrow> bool" where
  "is_nibble n \<longleftrightarrow> n < 16"

lemma is_nibble_mem: "is_nibble n \<Longrightarrow> n \<in> set (map of_nat [0..<16])"
proof -
  assume "is_nibble n"
  then have "unat n < 16" by (simp add: is_nibble_def word_less_nat_alt)
  then have "unat n \<in> {0..<16}" by simp
  moreover have "n = of_nat (unat n)" by simp
  ultimately have "n \<in> of_nat ` {0..<16 :: nat}" by (rule rev_image_eqI)
  then show ?thesis by simp
qed

lemma nibble_pair_facts:
  "\<forall>a \<in> set (map of_nat [0..<16]). \<forall>b \<in> set (map of_nat [0..<16]).
     a * 16 + b = push_bit 4 a OR (b :: byte) \<and>
     drop_bit 4 (push_bit 4 a OR b) = a \<and> (push_bit 4 a OR b) AND 15 = b"
  by code_simp

lemma nibble_flag_facts:
  "\<forall>n \<in> set (map of_nat [0..<16]). \<forall>leaf \<in> {True, False}.
     (hp_flags leaf True OR n) AND 15 = n \<and> (hp_flags leaf True OR n) AND 0x10 \<noteq> 0 \<and>
     ((hp_flags leaf True OR n) AND 0x20 \<noteq> 0 \<longleftrightarrow> leaf) \<and>
     hp_flags leaf False AND 0x10 = 0 \<and> (hp_flags leaf False AND 0x20 \<noteq> 0 \<longleftrightarrow> leaf)"
  by code_simp

lemmas nibble_pair = nibble_pair_facts [rule_format, OF is_nibble_mem is_nibble_mem]
lemmas nibble_flag = nibble_flag_facts [rule_format, OF is_nibble_mem]

lemma hp_flags_simps:
  "hp_flags leaf False AND 0x10 = 0" "hp_flags leaf False AND 0x20 \<noteq> 0 \<longleftrightarrow> leaf"
  using nibble_flag [of 0 leaf] by (auto simp: is_nibble_def)

lemma nibble_lt: "is_nibble (nibble d i)"
proof -
  have "unat (b AND 0x0f :: byte) < 16" "unat (drop_bit 4 b) < 16" for b :: byte
    using unat_nibbles [of b] unat_byte_lt [of b]
    by (simp_all add: drop_bit_eq_div unat_div less_mult_imp_div_less)
  then show ?thesis by (simp add: nibble_def is_nibble_def word_less_nat_alt)
qed

subsection \<open>The writers produce the packed path\<close>

fun put_all :: "nat \<Rightarrow> bytes \<Rightarrow> bytes \<Rightarrow> bytes" where
  "put_all d ret [] = ret"
| "put_all d ret (n # ns) = put_all (Suc d) (put_nibble d ret n) ns"

lemma nibbles_Cons: "b < e \<Longrightarrow> nibbles d b e = nibble d b # nibbles d (Suc b) e"
  by (simp add: nibbles_def upt_conv_Cons)

lemma nibbles_empty [simp]: "e \<le> b \<Longrightarrow> nibbles d b e = []"
  by (simp add: nibbles_def)

lemma length_nibbles [simp]: "length (nibbles d b e) = e - b"
  by (simp add: nibbles_def)

lemma nibbles_all: "list_all is_nibble (nibbles d b e)"
  by (simp add: nibbles_def list_all_iff nibble_lt)

lemma hpe_loop_eq: "hpe_loop data i e d ret = put_all d ret (nibbles data i e)"
proof (induction data i e d ret rule: hpe_loop.induct)
  case (1 data i e d ret)
  then show ?case
    by (cases "i < e") (simp_all add: hpe_loop.simps [of data i e] nibbles_Cons)
qed

lemma put_all_append: "put_all d ret (xs @ ys) = put_all (d + length xs) (put_all d ret xs) ys"
  by (induction xs arbitrary: d ret) auto

lemma put_all_even: "even d \<Longrightarrow> put_all d ret ns = ret @ pack ns"
proof (induction ns arbitrary: d ret rule: pack.induct)
  case (1 a b r)
  then show ?case by (simp add: put_nibble_def)
qed (simp_all add: put_nibble_def)

lemma put_all_odd: "odd d \<Longrightarrow> ns \<noteq> [] \<Longrightarrow> put_all d [f] ns = (f OR hd ns) # pack (tl ns)"
  by (cases ns) (simp_all add: put_nibble_def put_all_even)

lemma put_all_spec:
  "put_all (if odd (length ns) then 1 else 2) [hp_flags leaf (odd (length ns))] ns = hp_spec leaf ns"
proof (cases "odd (length ns)")
  case True
  then have "ns \<noteq> []" by auto
  with True show ?thesis by (simp add: put_all_odd hp_spec_def)
qed (simp add: put_all_even hp_spec_def)

lemma uns_diff: "b \<le> e \<Longrightarrow> e < 2 ^ 32 \<Longrightarrow> uns (int e - int b) = e - b"
  by (simp add: uns_def nat_diff_distrib)

lemma uns_sum: "a + b < 2 ^ 32 \<Longrightarrow> uns (int a + int b) = a + b"
  by (simp add: uns_def nat_add_distrib)

lemma hpe_loop_spec:
  "bg \<le> en \<Longrightarrow> en < 2 ^ 32 \<Longrightarrow>
   hpe_loop data bg en (if odd (uns (int en - int bg)) then 1 else 2) [hp_flags leaf (odd (uns (int en - int bg)))] =
     hp_spec leaf (nibbles data bg en)"
  using put_all_spec [of "nibbles data bg en" leaf] by (simp only: hpe_loop_eq length_nibbles uns_diff)

lemma hexPrefixEncode_slice_eq:
  assumes "b \<le> e" "e + off < 2 ^ 32"
  shows "hexPrefixEncode_slice data leaf (int b) (int e) off = hp_spec leaf (nibbles data (b + off) (e + off))"
proof -
  have "uns (int b + int off) = b + off" "uns (int e + int off) = e + off" using assms by (simp_all add: uns_sum)
  moreover have "\<not> int e < 0" by simp
  ultimately show ?thesis using hpe_loop_spec [of "b + off" "e + off" data leaf] assms
    by (simp only: hexPrefixEncode_slice_def Let_def if_False)
qed

lemma hexPrefixEncode_slice_end:
  assumes "b + off \<le> length data * 2" "length data * 2 < 2 ^ 32"
  shows "hexPrefixEncode_slice data leaf (int b) (-1) off = hp_spec leaf (nibbles data (b + off) (length data * 2))"
proof -
  have "uns (int b + int off) = b + off" using assms by (simp add: uns_sum)
  moreover have "(if (-1 :: int) < 0 then int (length data * 2) - int off + 1 + -1 else -1) + int off = int (length data * 2)" by simp
  moreover have "uns (int (length data * 2)) = length data * 2" using assms(2) by (simp add: uns_int)
  ultimately show ?thesis using hpe_loop_spec [OF assms, of data leaf]
    by (simp only: hexPrefixEncode_slice_def Let_def)
qed

lemma hexPrefixEncode_concat_eq:
  assumes "o1 \<le> length d1 * 2" "o2 \<le> length d2 * 2" "length d1 * 2 + length d2 * 2 < 2 ^ 32"
  shows "hexPrefixEncode_concat d1 o1 d2 o2 leaf =
     hp_spec leaf (nibbles d1 o1 (length d1 * 2) @ nibbles d2 o2 (length d2 * 2))"
proof -
  let ?ns = "nibbles d1 o1 (length d1 * 2) @ nibbles d2 o2 (length d2 * 2)"
  have u: "uns (int (length d1 * 2)) = length d1 * 2" "uns (int (length d2 * 2)) = length d2 * 2"
    using assms(3) by (simp_all add: uns_int)
  have "int (length d1 * 2) - int o1 + int (length d2 * 2) - int o2 = int (length d1 * 2 + length d2 * 2) - int (o1 + o2)"
    by simp
  moreover have "uns (int (length d1 * 2 + length d2 * 2) - int (o1 + o2)) = length d1 * 2 + length d2 * 2 - (o1 + o2)"
    by (rule uns_diff) (use assms in auto)
  ultimately have l: "uns (int (length d1 * 2) - int o1 + int (length d2 * 2) - int o2) = length ?ns"
    using assms by (simp only: length_append length_nibbles)
  show ?thesis
    using put_all_spec [of ?ns leaf]
    unfolding hexPrefixEncode_concat_def Let_def u l by (simp add: hpe_loop_eq put_all_append)
qed

lemma hpe_pairs_eq:
  assumes "even (e - i)" "e \<le> length hv" "list_all is_nibble hv"
  shows "hpe_pairs hv i e = pack (take (e - i) (drop i hv))"
  using assms
proof (induction hv i e rule: hpe_pairs.induct)
  case (1 hv i e)
  show ?case
  proof (cases "i < e")
    case True
    with "1.prems"(1) have i2: "Suc i < e" by (cases "e = Suc i") auto
    have nib: "is_nibble (hv ! i)" "is_nibble (hv ! Suc i)"
      using "1.prems" i2 by (simp_all add: list_all_length)
    have "drop i hv = hv ! i # hv ! Suc i # drop (i + 2) hv"
      using "1.prems" i2 by (simp add: Cons_nth_drop_Suc)
    moreover have "e - i = Suc (Suc (e - (i + 2)))" using i2 by simp
    ultimately have "take (e - i) (drop i hv) = hv ! i # hv ! Suc i # take (e - (i + 2)) (drop (i + 2) hv)"
      by simp
    moreover have "hpe_pairs hv (i + 2) e = pack (take (e - (i + 2)) (drop (i + 2) hv))"
      using "1.prems" True by (intro "1.IH") simp_all
    ultimately show ?thesis
      using True nibble_pair [OF nib] by (subst hpe_pairs.simps) simp
  qed (simp add: hpe_pairs.simps)
qed

lemma hexPrefixEncode_vector_eq:
  assumes "list_all is_nibble hv" "int en = (if e < 0 then int (length hv) + 1 + e else e)"
    and "b \<le> en" "en \<le> length hv" "length hv < 2 ^ 32"
  shows "hexPrefixEncode_vector hv leaf (int b) e = hp_spec leaf (take (en - b) (drop b hv))"
proof -
  have u: "uns (int b) = b" "uns (int en) = en" "uns (int en - int b) = en - b"
    using assms(3-5) by (simp_all add: uns_int uns_diff)
  note eq = hexPrefixEncode_vector_def [of hv leaf "int b" e, folded assms(2), unfolded u Let_def]
  show ?thesis
  proof (cases "odd (en - b)")
    case True
    then have lt: "b < en" by (cases "en = b") auto
    then have "drop b hv = hv ! b # drop (Suc b) hv" using assms by (simp add: Cons_nth_drop_Suc)
    moreover have "en - b = Suc (en - Suc b)" using lt by simp
    ultimately have tk: "take (en - b) (drop b hv) = hv ! b # take (en - Suc b) (drop (Suc b) hv)"
      by simp
    have "hpe_pairs hv (Suc b) en = pack (take (en - Suc b) (drop (Suc b) hv))"
      using True assms lt by (intro hpe_pairs_eq) auto
    moreover have "length (hv ! b # take (en - Suc b) (drop (Suc b) hv)) = en - b"
      unfolding tk [symmetric] using assms by simp
    moreover have "(en - b) mod 2 \<noteq> 0" using True by presburger
    moreover have "uns (int b + 1) = Suc b" using uns_sum [of b 1] lt assms by simp
    ultimately show ?thesis
      using True unfolding eq hp_spec_def tk by (simp only: simp_thms if_True if_False list.sel)
  next
    case False
    then have "hpe_pairs hv b en = pack (take (en - b) (drop b hv))"
      using assms by (intro hpe_pairs_eq) auto
    moreover have "length (take (en - b) (drop b hv)) = en - b" using assms by simp
    ultimately show ?thesis
      using False unfolding eq hp_spec_def by (simp add: even_iff_mod_2_eq_zero)
  qed
qed

subsection \<open>Reading a path back\<close>

lemma nibbles_pack: "list_all is_nibble ns \<Longrightarrow> even (length ns) \<Longrightarrow>
    nibbles (pre @ pack ns) (2 * length pre) (2 * length (pre @ pack ns)) = ns"
proof (induction ns arbitrary: pre rule: pack.induct)
  case (1 a b r)
  let ?x = "push_bit 4 a OR b"
  have nib: "is_nibble a" "is_nibble b" using "1.prems" by auto
  have "nibbles ((pre @ [?x]) @ pack r) (2 * length (pre @ [?x])) (2 * length ((pre @ [?x]) @ pack r)) = r"
    using "1.prems" by (intro "1.IH") auto
  then show ?case
    using nibble_pair [OF nib] by (simp add: nibbles_Cons nibble_def nth_append)
qed auto

lemma length_pack: "even (length ns) \<Longrightarrow> length (pack ns) = length ns div 2"
  by (induction ns rule: pack.induct) auto

lemma keyOf_hp_spec:
  assumes "list_all is_nibble ns"
  shows "ns_nibbles (keyOf (hp_spec leaf ns)) = ns" "hpe_isLeaf (hp_spec leaf ns) = leaf"
proof -
  have "ns_nibbles (keyOf (hp_spec leaf ns)) = ns \<and> hpe_isLeaf (hp_spec leaf ns) = leaf"
  proof (cases "odd (length ns)")
    case True
    then obtain n r where ns: "ns = n # r" by (cases ns) auto
    with assms have n: "is_nibble n" and r: "list_all is_nibble r" by auto
    let ?f = "hp_flags leaf True OR n"
    have "nibbles ([?f] @ pack r) (2 * length [?f]) (2 * length ([?f] @ pack r)) = r"
      using True ns r by (intro nibbles_pack) auto
    then have "nibbles (?f # pack r) 1 (Suc (length (pack r)) * 2) = n # r"
      using nibble_flag [OF n, of leaf]
      by (simp add: nibbles_Cons nibble_def mult.commute numeral_2_eq_2)
    with True ns nibble_flag [OF n, of leaf] show ?thesis
      by (simp add: hp_spec_def ns_nibbles_def keyOf_def hpe_isLeaf_def)
  next
    case False
    let ?f = "hp_flags leaf False"
    have "nibbles ([?f] @ pack ns) (2 * length [?f]) (2 * length ([?f] @ pack ns)) = ns"
      using False assms by (intro nibbles_pack) auto
    then have "nibbles (?f # pack ns) 2 (Suc (length (pack ns)) * 2) = ns"
      by (simp add: mult.commute)
    with False show ?thesis
      by (simp add: hp_spec_def ns_nibbles_def keyOf_def hpe_isLeaf_def hp_flags_simps)
  qed
  then show "ns_nibbles (keyOf (hp_spec leaf ns)) = ns" "hpe_isLeaf (hp_spec leaf ns) = leaf"
    by auto
qed

text \<open>A path with its leaf flag is a codec, decoded by \<open>keyOf\<close> and \<open>isLeaf\<close>.\<close>

interpretation hp: codec "\<lambda>(leaf, ns). hp_spec leaf ns"
    "\<lambda>h. (Inr (hpe_isLeaf h, ns_nibbles (keyOf h)) :: unit + bool \<times> bytes)"
    "\<lambda>(leaf, ns). list_all is_nibble ns"
  by unfold_locales (auto simp: keyOf_hp_spec)

subsection \<open>Comparing slices\<close>

text \<open>Slices that begin within their data.\<close>

definition ns_ok :: "nibble_slice \<Rightarrow> bool" where
  "ns_ok s \<longleftrightarrow> ns_offset s \<le> length (ns_data s) * 2 \<and> length (ns_data s) * 2 < 2 ^ 32"

lemma ns_size_eq: "ns_ok s \<Longrightarrow> ns_size s = length (ns_data s) * 2 - ns_offset s"
  using uns_diff [of "ns_offset s" "length (ns_data s) * 2"] by (simp add: ns_size_def ns_ok_def)

lemma ns_nibbles_length [simp]: "ns_ok s \<Longrightarrow> length (ns_nibbles s) = ns_size s"
  by (simp add: ns_nibbles_def ns_size_eq)

lemma ns_nibbles_nth: "ns_ok s \<Longrightarrow> i < ns_size s \<Longrightarrow> ns_nibbles s ! i = ns_at s i"
proof -
  assume s: "ns_ok s" "i < ns_size s"
  hence "ns_offset s + i < 2 ^ 32" using ns_size_eq [of s] unfolding ns_ok_def by linarith
  from uns_sum [OF this] s ns_size_eq [of s] show ?thesis by (simp add: ns_nibbles_def nibbles_def ns_at_def)
qed

lemma sharedNibbles_eq:
  "sharedNibbles f bf ef s bs es ret = ret + commonPrefix (nibbles f bf ef) (nibbles s bs es)"
proof (induction f bf ef s bs es ret rule: sharedNibbles.induct)
  case (1 f bf ef s bs es ret)
  show ?case
  proof (cases "bf < ef \<and> bs < es")
    case True
    with "1" show ?thesis
      by (subst sharedNibbles.simps) (auto simp: nibbles_Cons)
  next
    case False
    then have "commonPrefix (nibbles f bf ef) (nibbles s bs es) = 0"
      by (cases "bf < ef"; cases "nibbles f bf ef") auto
    with False show ?thesis by (subst sharedNibbles.simps) auto
  qed
qed

lemma ns_end: "ns_ok s \<Longrightarrow> uns (int (ns_offset s + ns_size s)) = length (ns_data s) * 2"
  using ns_size_eq [of s] by (simp add: ns_ok_def uns_int)

lemma ns_shared_eq: "ns_ok s \<Longrightarrow> ns_ok k \<Longrightarrow> ns_shared s k = commonPrefix (ns_nibbles s) (ns_nibbles k)"
  by (simp only: ns_shared_def sharedNibbles_eq ns_nibbles_def ns_end)

lemma ns_contains_iff:
  assumes "ns_ok s" "ns_ok k"
  shows "ns_contains s k \<longleftrightarrow> take (ns_size k) (ns_nibbles s) = ns_nibbles k \<and> ns_size k \<le> ns_size s"
proof
  assume c: "ns_contains s k"
  then have n: "commonPrefix (ns_nibbles s) (ns_nibbles k) = ns_size k"
    using assms by (simp add: ns_contains_def ns_shared_eq)
  then show "take (ns_size k) (ns_nibbles s) = ns_nibbles k \<and> ns_size k \<le> ns_size s"
    using commonPrefix_take [of "ns_nibbles s" "ns_nibbles k"] commonPrefix_le [of "ns_nibbles s" "ns_nibbles k"] assms
    by simp
next
  assume t: "take (ns_size k) (ns_nibbles s) = ns_nibbles k \<and> ns_size k \<le> ns_size s"
  then have "ns_size k \<le> commonPrefix (ns_nibbles s) (ns_nibbles k)"
    using assms by (intro commonPrefix_maximal) auto
  with commonPrefix_le(2) [of "ns_nibbles s" "ns_nibbles k"] show "ns_contains s k"
    using assms by (simp add: ns_contains_def ns_shared_eq)
qed

lemma ns_equal_iff:
  assumes "ns_ok s" "ns_ok k"
  shows "ns_equal s k \<longleftrightarrow> ns_nibbles s = ns_nibbles k"
  using ns_contains_iff [OF assms] assms by (auto simp: ns_equal_def ns_contains_def)
    (metis ns_nibbles_length order_refl take_all)+

lemma earlier_loop_eq:
  assumes "ns_ok s" "ns_ok k"
  shows "earlier_loop s k i =
     ord_class.lexordp (drop i (ns_nibbles s)) (drop i (ns_nibbles k))"
  using assms
proof (induction s k i rule: earlier_loop.induct)
  case (1 s k i)
  have d: "drop i (ns_nibbles x) = ns_at x i # drop (Suc i) (ns_nibbles x)" if "ns_ok x" "i < ns_size x" for x
    using that by (simp add: Cons_nth_drop_Suc [symmetric] ns_nibbles_nth)
  show ?case
  proof (cases "i < ns_size k \<and> i < ns_size s")
    case True
    then show ?thesis
      using "1" d [of s] d [of k] by (subst earlier_loop.simps) auto
  next
    case False
    then show ?thesis
      using "1.prems" d [of s] d [of k] by (subst earlier_loop.simps) (auto simp: not_less neq_Nil_conv lexordp_simps)
  qed
qed

lemma ns_isEarlierThan_iff:
  "ns_ok s \<Longrightarrow> ns_ok k \<Longrightarrow> ns_isEarlierThan s k \<longleftrightarrow> ord_class.lexordp (ns_nibbles s) (ns_nibbles k)"
  by (simp add: ns_isEarlierThan_def earlier_loop_eq)

end
