(* ===== verification/FixedHash.thy ===== *)
theory FixedHash
  imports RlpRoundtrip
begin

text \<open>
  Fixed size byte arrays, \<open>FixedHash<N>\<close> of libdevcore/FixedHash.h, as words of \<open>8 * N\<close>
  bits: \<open>hash_bytes\<close> is \<open>asBytes()\<close> and \<open>hash_of_bytes\<close> the constructor from a byte
  vector, which yields the zero hash when the size differs. \<open>hash_less\<close> is the byte by
  byte \<open>operator<\<close>; it is the order of the big endian numbers, so the word order stands for
  it in the other theories.
\<close>

definition hash_bytes :: "'a::len word \<Rightarrow> bytes" where
  "hash_bytes w = toBigEndian (unat w) (LENGTH('a) div 8)"

definition hash_of_bytes :: "bytes \<Rightarrow> 'a::len word" where
  "hash_of_bytes bs = (if length bs = LENGTH('a) div 8 then of_nat (be_value bs) else 0)"

text \<open>\<open>operator<\<close> and \<open>operator<=\<close> on the arrays.\<close>

fun bytes_less :: "bytes \<Rightarrow> bytes \<Rightarrow> bool" where
  "bytes_less (a # as) (b # bs) = (if a < b then True else if a > b then False else bytes_less as bs)"
| "bytes_less _ _ = False"

definition hash_less :: "'a::len word \<Rightarrow> 'a word \<Rightarrow> bool" where
  "hash_less x y = bytes_less (hash_bytes x) (hash_bytes y)"

definition hash_less_eq :: "'a::len word \<Rightarrow> 'a word \<Rightarrow> bool" where
  "hash_less_eq x y \<longleftrightarrow> hash_bytes x = hash_bytes y \<or> hash_less x y"

text \<open>\<open>right160\<close> keeps the last 20 bytes.\<close>

definition right160 :: "u256 \<Rightarrow> u160" where
  "right160 h = hash_of_bytes (drop 12 (hash_bytes h))"

lemma length_hash_bytes [simp]: "length (hash_bytes (w :: 'a::len word)) = LENGTH('a) div 8"
  by (simp add: hash_bytes_def)

lemma word_nat_bound:
  assumes "8 dvd LENGTH('a::len)"
  shows "unat (w :: 'a word) < 256 ^ (LENGTH('a) div 8)"
proof -
  from assms obtain m where m: "LENGTH('a) = 8 * m" by auto
  have "unat w < 2 ^ LENGTH('a)" by (rule unsigned_less)
  then show ?thesis by (simp add: m power_mult)
qed

lemma hash_of_hash_bytes [simp]:
  "8 dvd LENGTH('a::len) \<Longrightarrow> hash_of_bytes (hash_bytes (w :: 'a word)) = w"
  using word_nat_bound [of w] by (simp add: hash_of_bytes_def hash_bytes_def be_value_toBigEndian)

lemma hash_bytes_inject:
  "8 dvd LENGTH('a::len) \<Longrightarrow> hash_bytes (v :: 'a word) = hash_bytes w \<longleftrightarrow> v = w"
  by (metis hash_of_hash_bytes)

lemma bytes_less_iff: "length as = length bs \<Longrightarrow> bytes_less as bs \<longleftrightarrow> be_value as < be_value bs"
proof (induction as bs rule: bytes_less.induct)
  case (1 a as b bs)
  have len: "length as = length bs" using "1.prems" by simp
  have va: "be_value as < 256 ^ length bs" using be_value_bound [of as] len by simp
  have vb: "be_value bs < 256 ^ length bs" by (rule be_value_bound)
  have step: "x * 256 ^ length bs + u < y * 256 ^ length bs + v"
    if "x < y" "u < 256 ^ length bs" for x y u v :: nat
  proof -
    have "x * 256 ^ length bs + u < Suc x * 256 ^ length bs" using that(2) by simp
    also have "\<dots> \<le> y * 256 ^ length bs" using that(1) by (intro mult_le_mono1) simp
    finally show ?thesis by simp
  qed
  consider "unat a < unat b" | "unat b < unat a" | "unat a = unat b" by linarith
  then show ?case
  proof cases
    case 1
    then show ?thesis using step [OF 1 va, of "be_value bs"] len
      by (simp add: be_value_Cons word_less_nat_alt)
  next
    case 2
    then show ?thesis using step [OF 2 vb, of "be_value as"] len
      by (simp add: be_value_Cons word_less_nat_alt)
  next
    case 3
    then have "\<not> a < b" "\<not> b < a" by (simp_all add: word_less_nat_alt)
    then show ?thesis using "1.IH" len 3 by (simp add: be_value_Cons)
  qed
qed auto

lemma hash_less_iff:
  "8 dvd LENGTH('a::len) \<Longrightarrow> hash_less v w \<longleftrightarrow> v < (w :: 'a word)"
  using word_nat_bound [of v] word_nat_bound [of w]
  by (simp add: hash_less_def bytes_less_iff) (simp add: hash_bytes_def be_value_toBigEndian word_less_nat_alt)

lemma hash_less_eq_iff:
  "8 dvd LENGTH('a::len) \<Longrightarrow> hash_less_eq v w \<longleftrightarrow> v \<le> (w :: 'a word)"
  by (auto simp: hash_less_eq_def hash_less_iff hash_bytes_inject)

section \<open>Hashes in RLP\<close>

text \<open>\<open>append(FixedHash<N>)\<close>, and the \<open>Converter\<close>s of hashes (\<open>toHash\<close>) and of the curve
  points (\<open>toBytes\<close> and the constructor).\<close>

definition appendHash :: "rlp_stream \<Rightarrow> 'a::len word \<Rightarrow> rlp_exn + rlp_stream" where
  "appendHash s w = appendBytes s (hash_bytes w) False"

definition readHash :: "bytes \<Rightarrow> nat \<Rightarrow> rlp_exn + 'a::len word" where
  "readHash d flags = bindE (toHash (LENGTH('a) div 8) d flags) (\<lambda>bs. Inr (hash_of_bytes bs))"

definition readPoint :: "bytes \<Rightarrow> nat \<Rightarrow> rlp_exn + 'a::len word" where
  "readPoint d flags = bindE (toBytes d flags) (\<lambda>bs. Inr (hash_of_bytes bs))"

definition hash_item :: "'a::len word \<Rightarrow> rlp_item" where
  "hash_item w = Str (hash_bytes w)"

lemma item_ok_hash: "LENGTH('a::len) \<le> 2 ^ 32 \<Longrightarrow> item_ok (hash_item (w :: 'a word))"
proof -
  assume l: "LENGTH('a) \<le> 2 ^ 32"
  have b: "LENGTH('a) div 8 \<le> 2 ^ 29" using l by simp
  then have "bytesRequired (LENGTH('a) div 8) \<le> 8"
    by (intro bytesRequired_least) simp
  then have "length (rlp_enc (hash_item w)) \<le> 9 + LENGTH('a) div 8"
    by (auto simp: hash_item_def enc_str_def enc_header_def)
  then show ?thesis using b by (simp add: item_ok_def size_ok_def)
qed

lemma readHash_enc [simp]:
  assumes "8 dvd LENGTH('a::len)" "LENGTH('a) \<le> 2 ^ 32"
  shows "readHash (rlp_enc (hash_item w)) flags = Inr (w :: 'a word)"
  using toHash_enc [OF item_ok_hash [OF assms(2), of w, unfolded hash_item_def], of "LENGTH('a) div 8" flags]
    assms(1)
  by (simp add: readHash_def hash_item_def del: rlp_enc.simps)

lemma readPoint_enc [simp]:
  assumes "8 dvd LENGTH('a::len)" "LENGTH('a) \<le> 2 ^ 32"
  shows "readPoint (rlp_enc (hash_item w)) flags = Inr (w :: 'a word)"
  using toBytes_enc [OF item_ok_hash [OF assms(2), of w, unfolded hash_item_def], of flags] assms(1)
  by (simp add: readPoint_def hash_item_def del: rlp_enc.simps)

interpretation h256: codec "\<lambda>w :: u256. rlp_enc (hash_item w)" "\<lambda>d. readHash d VeryStrict" "\<lambda>_. True"
  by unfold_locales simp

interpretation h160: codec "\<lambda>w :: u160. rlp_enc (hash_item w)" "\<lambda>d. readHash d VeryStrict" "\<lambda>_. True"
  by unfold_locales simp

lemma length_enc_hash: "LENGTH('a::len) \<le> 2048 \<Longrightarrow> length (rlp_enc (hash_item (v :: 'a word))) \<le> 265"
proof -
  assume "LENGTH('a) \<le> 2048"
  then have "LENGTH('a) div 8 \<le> 2048 div 8" by (rule div_le_mono)
  then show ?thesis
    using length_enc_Str [of "hash_bytes v"] by (simp add: hash_item_def del: rlp_enc.simps)
qed

end
