(* ===== verification/CodecProperties.thy ===== *)
theory CodecProperties
  imports HexPrefix FixedHash
begin

text \<open>
  The properties of the text and path encodings (libdevcore/CommonData, TrieCommon,
  libdevcrypto's FixedHash): hexadecimal round trip, hex-prefix round trip and agreement of
  its overloads, and the orders on nibble slices and hashes.
\<close>

text \<open>Hexadecimal text is read back, with and without the prefix, in both error modes.\<close>

theorem hex_roundtrip: "fromHex (toHex bs ''0x'') th = Inr bs \<and> fromHex (toHex bs []) th = Inr bs"
  by (simp only: fromHex_toHex_plain fromHex_toHex_prefixed)

text \<open>C40: The hex-prefix form of the nibbles between two positions of a byte string is read back:
  \<open>keyOf\<close> gives the same path and \<open>isLeaf\<close> the flag, whatever the parity.\<close>

theorem hex_prefix_roundtrip:
  assumes "b \<le> e" "e + off \<le> length data * 2" "length data * 2 < 2 ^ 32"
  shows "let h = hexPrefixEncode_slice data leaf (int b) (int e) off
   in ns_nibbles (keyOf h) = nibbles data (b + off) (e + off) \<and> hpe_isLeaf h = leaf"
  using keyOf_hp_spec [OF nibbles_all] hexPrefixEncode_slice_eq [OF assms(1), of off data leaf] assms(2,3)
  by (simp add: Let_def)

theorem hex_prefix_roundtrip_witness:
  "ns_nibbles (keyOf (hexPrefixEncode_slice [0x12, 0x34] True 0 3 1)) = nibbles [0x12, 0x34] 1 4"
  using hex_prefix_roundtrip [of 0 3 1 "[0x12, 0x34]" True] by (simp add: Let_def)

text \<open>The overloads of \<open>hexPrefixEncode\<close> agree: on a vector of nibbles, on a byte string in
  place and on two byte strings one after the other they give the same bytes for the same path.\<close>

theorem hex_prefix_overloads_agree:
  assumes "o1 \<le> length d1 * 2" "o2 \<le> length d2 * 2" "length d1 * 2 + length d2 * 2 < 2 ^ 32"
  shows "hexPrefixEncode_concat d1 o1 d2 o2 leaf =
      hexPrefixEncode_vector (nibbles d1 o1 (length d1 * 2) @ nibbles d2 o2 (length d2 * 2)) leaf 0 (-1) \<and>
    hexPrefixEncode_slice d1 leaf 0 (-1) o1 =
      hexPrefixEncode_vector (nibbles d1 o1 (length d1 * 2)) leaf 0 (-1)"
proof -
  have v: "hexPrefixEncode_vector ns leaf 0 (-1) = hp_spec leaf ns" if "list_all is_nibble ns" "length ns < 2 ^ 32" for ns
    using hexPrefixEncode_vector_eq [OF that(1), of "length ns" "-1" 0 leaf] that(2) by simp
  show ?thesis
    using hexPrefixEncode_concat_eq [OF assms] hexPrefixEncode_slice_end [of 0 o1 d1 leaf] assms
    by (simp add: v nibbles_all)
qed

theorem hex_prefix_overloads_agree_witness:
  "hexPrefixEncode_concat [0x12, 0x34] 1 [0x56] 0 True =
     hexPrefixEncode_vector [2, 3, 4, 5, 6] True 0 (-1)"
proof -
  have ns: "nibbles [0x12, 0x34] 1 (length [0x12, 0x34 :: byte] * 2) @ nibbles [0x56] 0 (length [0x56 :: byte] * 2) = [2, 3, 4, 5, 6]"
    by code_simp
  show ?thesis
    by (rule hex_prefix_overloads_agree [of 1 "[0x12, 0x34]" 0 "[0x56]" True, THEN conjunct1, unfolded ns]) simp_all
qed

text \<open>The order and the tests of nibble slices are those of their nibble sequences: earlier is
  the lexicographic order, \<open>contains\<close> is the prefix relation, equality and the shared length are
  those of the sequences.\<close>

theorem nibble_slice_order:
  assumes "ns_ok s" "ns_ok k"
  shows "(ns_isEarlierThan s k \<longleftrightarrow> ord_class.lexordp (ns_nibbles s) (ns_nibbles k)) \<and>
    (ns_equal s k \<longleftrightarrow> ns_nibbles s = ns_nibbles k) \<and>
    (ns_contains s k \<longleftrightarrow> (\<exists>r. ns_nibbles s = ns_nibbles k @ r)) \<and>
    ns_shared s k = commonPrefix (ns_nibbles s) (ns_nibbles k)"
proof -
  have "(take (ns_size k) (ns_nibbles s) = ns_nibbles k \<and> ns_size k \<le> ns_size s) \<longleftrightarrow>
      (\<exists>r. ns_nibbles s = ns_nibbles k @ r)"
    using ns_nibbles_length [OF assms(1)] ns_nibbles_length [OF assms(2)]
    by (metis append_eq_conv_conj append_take_drop_id length_append le_add1)
  then show ?thesis
    using assms by (simp add: ns_isEarlierThan_iff ns_equal_iff ns_contains_iff ns_shared_eq)
qed

theorem nibble_slice_order_witness:
  "ns_isEarlierThan \<lparr>ns_data = [0x12], ns_offset = 1\<rparr> \<lparr>ns_data = [0x23], ns_offset = 0\<rparr>
     \<and> \<not> ns_contains \<lparr>ns_data = [0x12], ns_offset = 1\<rparr> \<lparr>ns_data = [0x23], ns_offset = 0\<rparr>"
  (is "ns_isEarlierThan ?s ?k \<and> _")
proof -
  have "ns_ok ?s" "ns_ok ?k" by (simp_all add: ns_ok_def)
  from nibble_slice_order [OF this] show ?thesis
    by (simp add: ns_nibbles_def nibbles_def upt_rec nibble_def)
qed

text \<open>The byte-wise comparison of hashes is the numeric order of the words they hold.\<close>

theorem hash_order_numeric:
  "(hash_less v w \<longleftrightarrow> v < (w :: u256)) \<and> (hash_less_eq v w \<longleftrightarrow> v \<le> w) \<and>
   (hash_bytes v = hash_bytes w \<longleftrightarrow> v = w)"
  by (simp add: hash_less_iff hash_less_eq_iff hash_bytes_inject)

end
