(* ===== verification/Crypto.thy ===== *)
theory Crypto
  imports FixedHash RlpRoundtrip
begin

text \<open>
  The BLS signature scheme of libdevcrypto/Common.cpp, Common.h and BLS12_381.cpp, as wrappers
  around the curve library. The library's functions are linked from outside the repository;
  they are the fields of the argument \<open>lib\<close>: group elements are the fixed size byte arrays
  the wrappers pass (48 bytes for G1, 96 for G2, 576 for GT), scalars are 32 byte words.
  \<open>bilinear lib\<close> states the documented law of the pairing, and only for the scalars below
  the group order. Keccak is \<open>lib_sha3\<close>, and \<open>lib_domain\<close> the default data directory name
  that separates chains.
\<close>

type_synonym g1 = "384 word"
type_synonym g2 = "768 word"
type_synonym gt = "4608 word"

record crypto_lib =
  lib_sha3 :: "bytes \<Rightarrow> u256"
  lib_domain :: bytes
  g2_get_one :: g2
  g1_mul :: "g1 \<Rightarrow> u256 \<Rightarrow> g1"
  g2_mul :: "g2 \<Rightarrow> u256 \<Rightarrow> g2"
  lib_pairing :: "g1 \<Rightarrow> g2 \<Rightarrow> gt"
  hash_to_g1 :: "bytes \<Rightarrow> g1"

definition bls12381Modulus :: u256 where
  "bls12381Modulus = 0x73EDA753299D7D483339D80809A1D80553BDA402FFFE5BFEFFFFFFFF00000001"

definition publicFromPrivateKey :: "crypto_lib \<Rightarrow> u256 \<Rightarrow> g2" where
  "publicFromPrivateKey lib privateKey =
     (if hash_less privateKey bls12381Modulus then g2_mul lib (g2_get_one lib) privateKey
      else 0)"

definition toPublic :: "crypto_lib \<Rightarrow> u256 \<Rightarrow> g2" where
  "toPublic lib secret = publicFromPrivateKey lib secret"

definition hashToElement :: "crypto_lib \<Rightarrow> g2 \<Rightarrow> u256 \<Rightarrow> g1" where
  "hashToElement lib publicKey hash =
     (let h = hash_bytes (lib_sha3 lib (lib_domain lib @ hash_bytes publicKey @ hash_bytes hash))
      in hash_to_g1 lib h)"

definition bls_sign :: "crypto_lib \<Rightarrow> u256 \<Rightarrow> u256 \<Rightarrow> g1" where
  "bls_sign lib secret hash = g1_mul lib (hashToElement lib (toPublic lib secret) hash) secret"

definition bls_verify :: "crypto_lib \<Rightarrow> g2 \<Rightarrow> g1 \<Rightarrow> u256 \<Rightarrow> bool" where
  "bls_verify lib publicKey signature hash =
     (lib_pairing lib signature (g2_get_one lib) =
      lib_pairing lib (hashToElement lib publicKey hash) publicKey)"

definition publicToAddress :: "crypto_lib \<Rightarrow> g2 \<Rightarrow> u160" where
  "publicToAddress lib p = right160 (lib_sha3 lib (hash_bytes p))"

text \<open>\<open>KeyPair\<close>: the address of a null public key stays null.\<close>

record key_pair =
  kp_secret :: u256
  kp_public :: g2
  kp_address :: u160

definition key_pair_make :: "crypto_lib \<Rightarrow> u256 \<Rightarrow> key_pair" where
  "key_pair_make lib sec =
     \<lparr>kp_secret = sec, kp_public = toPublic lib sec,
      kp_address = if toPublic lib sec \<noteq> 0 then publicToAddress lib (toPublic lib sec) else 0\<rparr>"

text \<open>The pairing is bilinear: moving the scalar from one side to the other does not change it.\<close>

definition bilinear :: "crypto_lib \<Rightarrow> bool" where
  "bilinear lib \<longleftrightarrow> (\<forall>p s. s < bls12381Modulus \<longrightarrow>
     lib_pairing lib (g1_mul lib p s) (g2_get_one lib) =
     lib_pairing lib p (g2_mul lib (g2_get_one lib) s))"

lemma toPublic_valid: "s < bls12381Modulus \<Longrightarrow> toPublic lib s = g2_mul lib (g2_get_one lib) s"
  by (simp add: toPublic_def publicFromPrivateKey_def hash_less_iff)

lemma toPublic_invalid: "bls12381Modulus \<le> s \<Longrightarrow> toPublic lib s = 0"
  by (auto simp: toPublic_def publicFromPrivateKey_def hash_less_iff)

lemma bls_sign_verify:
  assumes "bilinear lib" "s < bls12381Modulus"
  shows "bls_verify lib (toPublic lib s) (bls_sign lib s h) h"
  using assms by (simp add: bls_verify_def bls_sign_def bilinear_def toPublic_valid)

text \<open>A library that meets the law, with a pairing that depends on both arguments.\<close>

definition toy_lib :: crypto_lib where
  "toy_lib = \<lparr>lib_sha3 = (\<lambda>b. of_nat (be_value b) * 7 + 1), lib_domain = [1],
     g2_get_one = 1, g1_mul = (\<lambda>p s. p * ucast s), g2_mul = (\<lambda>q s. q * ucast s),
     lib_pairing = (\<lambda>p q. ucast (p * (ucast q :: g1))), hash_to_g1 = (\<lambda>b. of_nat (be_value b) + 1)\<rparr>"

lemma ucast_g2_g1: "(ucast (ucast (s :: u256) :: g2) :: g1) = ucast s"
  by transfer (simp add: take_bit_take_bit)

lemma bilinear_toy: "bilinear toy_lib"
  by (simp add: bilinear_def toy_lib_def ucast_g2_g1)

end
