(* ===== verification/Schedule.thy ===== *)
theory Schedule
  imports Prelude
begin

text \<open>
  The gas schedules of libethcore/EVMSchedule.h. The fields are \<open>unsigned\<close> constants, kept as
  natural numbers; each schedule is an earlier one with some fields changed.
\<close>

record evm_schedule =
  accountVersion :: nat
  exceptionalFailedCodeDeposit :: bool
  haveDelegateCall :: bool
  eip150Mode :: bool
  eip158Mode :: bool
  haveRevert :: bool
  haveReturnData :: bool
  haveStaticCall :: bool
  haveCreate2 :: bool
  tierStepGas :: "nat list"
  expGas :: nat
  expByteGas :: nat
  sha3Gas :: nat
  sha3WordGas :: nat
  sloadGas :: nat
  sstoreSetGas :: nat
  sstoreResetGas :: nat
  sstoreRefundGas :: nat
  jumpdestGas :: nat
  logGas :: nat
  logDataGas :: nat
  logTopicGas :: nat
  createGas :: nat
  callGas :: nat
  callStipend :: nat
  callValueTransferGas :: nat
  callNewAccountGas :: nat
  suicideRefundGas :: nat
  memoryGas :: nat
  quadCoeffDiv :: nat
  createDataGas :: nat
  txGas :: nat
  txCreateGas :: nat
  txDataZeroGas :: nat
  txDataNonZeroGas :: nat
  copyGas :: nat
  haveChainID :: bool
  extcodesizeGas :: nat
  extcodecopyGas :: nat
  balanceGas :: nat
  suicideGas :: nat
  blockhashGas :: nat
  maxCodeSize :: nat
  eip1283Mode :: bool
  eip2200Mode :: bool
  sstoreUnchangedGas :: nat
  selfdestructGas :: nat
  haveBitwiseShifting :: bool
  haveSelfbalance :: bool
  extcodehashGas :: nat
  haveExtcodehash :: bool
  precompileStaticCallGas :: nat
  callSelfGas :: nat
  selfdestructRefundGas :: nat
  blockRewardOverwrite :: "u256 option"

definition DefaultSchedule :: evm_schedule where
  "DefaultSchedule = \<lparr>accountVersion = 0,
     exceptionalFailedCodeDeposit = True,
     haveDelegateCall = True,
     eip150Mode = False,
     eip158Mode = False,
     haveRevert = False,
     haveReturnData = False,
     haveStaticCall = False,
     haveCreate2 = False,
     tierStepGas = [0, 2, 3, 5, 8, 10, 20, 0],
     expGas = 10,
     expByteGas = 10,
     sha3Gas = 30,
     sha3WordGas = 6,
     sloadGas = 50,
     sstoreSetGas = 20000,
     sstoreResetGas = 5000,
     sstoreRefundGas = 15000,
     jumpdestGas = 1,
     logGas = 375,
     logDataGas = 8,
     logTopicGas = 375,
     createGas = 32000,
     callGas = 40,
     callStipend = 2300,
     callValueTransferGas = 9000,
     callNewAccountGas = 25000,
     suicideRefundGas = 24000,
     memoryGas = 3,
     quadCoeffDiv = 512,
     createDataGas = 200,
     txGas = 21000,
     txCreateGas = 53000,
     txDataZeroGas = 4,
     txDataNonZeroGas = 68,
     copyGas = 3,
     haveChainID = False,
     extcodesizeGas = 20,
     extcodecopyGas = 20,
     balanceGas = 20,
     suicideGas = 0,
     blockhashGas = 20,
     maxCodeSize = 2 ^ 32 - 1,
     eip1283Mode = False,
     eip2200Mode = False,
     sstoreUnchangedGas = 200,
     selfdestructGas = 0,
     haveBitwiseShifting = False,
     haveSelfbalance = False,
     extcodehashGas = 400,
     haveExtcodehash = False,
     precompileStaticCallGas = 700,
     callSelfGas = 40,
     selfdestructRefundGas = 24000,
     blockRewardOverwrite = None\<rparr>"

definition HomesteadSchedule :: evm_schedule where
  "HomesteadSchedule = DefaultSchedule\<lparr>exceptionalFailedCodeDeposit := True,
     haveDelegateCall := True, txCreateGas := 53000\<rparr>"

definition EIP150Schedule :: evm_schedule where
  "EIP150Schedule = HomesteadSchedule\<lparr>eip150Mode := True, extcodesizeGas := 700,
     extcodecopyGas := 700, balanceGas := 400, sloadGas := 200, callGas := 700,
     suicideGas := 5000\<rparr>"

definition EIP158Schedule :: evm_schedule where
  "EIP158Schedule = EIP150Schedule\<lparr>expByteGas := 50, eip158Mode := True, maxCodeSize := 0x6000\<rparr>"

definition ByzantiumSchedule :: evm_schedule where
  "ByzantiumSchedule = EIP158Schedule\<lparr>haveRevert := True, haveReturnData := True,
     haveStaticCall := True, blockRewardOverwrite := Some 1\<rparr>"

definition ConstantinopleSchedule :: evm_schedule where
  "ConstantinopleSchedule = ByzantiumSchedule\<lparr>haveCreate2 := True, haveBitwiseShifting := True,
     haveExtcodehash := True, eip1283Mode := True, blockRewardOverwrite := Some (2 * 10 ^ 18)\<rparr>"

definition ConstantinopleFixSchedule :: evm_schedule where
  "ConstantinopleFixSchedule = ConstantinopleSchedule\<lparr>eip1283Mode := False\<rparr>"

definition IstanbulSchedule :: evm_schedule where
  "IstanbulSchedule = ConstantinopleFixSchedule\<lparr>txDataNonZeroGas := 16, sloadGas := 800,
     balanceGas := 700, extcodehashGas := 700, haveChainID := True, haveSelfbalance := True,
     eip2200Mode := True, sstoreUnchangedGas := 800\<rparr>"

definition staticCallDepthLimit :: "evm_schedule \<Rightarrow> bool" where
  "staticCallDepthLimit s \<longleftrightarrow> \<not> eip150Mode s"

definition suicideChargesNewAccountGas :: "evm_schedule \<Rightarrow> bool" where
  "suicideChargesNewAccountGas s \<longleftrightarrow> eip150Mode s"

definition emptinessIsNonexistence :: "evm_schedule \<Rightarrow> bool" where
  "emptinessIsNonexistence s \<longleftrightarrow> eip158Mode s"

definition zeroValueTransferChargesNewAccountGas :: "evm_schedule \<Rightarrow> bool" where
  "zeroValueTransferChargesNewAccountGas s \<longleftrightarrow> \<not> eip158Mode s"

definition sstoreNetGasMetering :: "evm_schedule \<Rightarrow> bool" where
  "sstoreNetGasMetering s \<longleftrightarrow> eip1283Mode s \<or> eip2200Mode s"

definition sstoreThrowsIfGasBelowCallStipend :: "evm_schedule \<Rightarrow> bool" where
  "sstoreThrowsIfGasBelowCallStipend s \<longleftrightarrow> eip2200Mode s"

lemmas schedule_defs = DefaultSchedule_def HomesteadSchedule_def EIP150Schedule_def
  EIP158Schedule_def ByzantiumSchedule_def ConstantinopleSchedule_def
  ConstantinopleFixSchedule_def IstanbulSchedule_def

end
