(* ===== verification/Transaction.thy ===== *)
theory Transaction
  imports Crypto Schedule
begin

text \<open>
  Transactions, class \<open>TransactionBase\<close> of libethcore/Transaction.h and Transaction.cpp, with
  the signature structure of libdevcrypto/Common.cpp and the \<open>RLPList\<close> reader of
  libdevcore/RLP.cpp. The address type \<open>m_forcedSender\<close> and the memo \<open>m_hashWith\<close> use zero for
  "not set", as the code does.
\<close>

section \<open>Reading a list item by item\<close>

datatype tx_exn = TxRlp rlp_exn | RLPIsNotList | RLPListUnexpectedItemCount | RLPIsNotData
  | InvalidSignature | TransactionIsUnsigned

fun liftTx :: "rlp_exn + 'a \<Rightarrow> tx_exn + 'a" where
  "liftTx (Inl e) = Inl (TxRlp e)"
| "liftTx (Inr x) = Inr x"

record rlp_list =
  rl_rlp :: rlp
  rl_ix :: nat

definition RLPList_make :: "bytes \<Rightarrow> nat \<Rightarrow> tx_exn + rlp_list" where
  "RLPList_make d expectedItemCount =
     bindE (throw_if (\<not> isList d) RLPIsNotList) (\<lambda>_.
     bindE (liftTx (itemCount d)) (\<lambda>n.
     bindE (throw_if (n \<noteq> expectedItemCount) RLPListUnexpectedItemCount) (\<lambda>_.
       Inr \<lparr>rl_rlp = rlp_view d, rl_ix = 0\<rparr>)))"

definition RLPList_pop :: "rlp_list \<Rightarrow> tx_exn + (bytes \<times> rlp_list)" where
  "RLPList_pop l =
     bindE (liftTx (rlp_index (rl_rlp l) (rl_ix l))) (\<lambda>(d, r).
       Inr (d, \<lparr>rl_rlp = r, rl_ix = rl_ix l + 1\<rparr>))"

text \<open>\<open>operator>>\<close> with the converter of the target's type; for \<open>bytes\<close> the specialisation.\<close>

definition RLPList_get :: "(bytes \<Rightarrow> tx_exn + 'a) \<Rightarrow> rlp_list \<Rightarrow> tx_exn + ('a \<times> rlp_list)" where
  "RLPList_get conv l =
     bindE (RLPList_pop l) (\<lambda>(d, l'). bindE (conv d) (\<lambda>v. Inr (v, l')))"

definition conv_u256 :: "bytes \<Rightarrow> tx_exn + u256" where
  "conv_u256 d = liftTx (bindE (toInt (Some 256) d VeryStrict) (\<lambda>n. Inr (of_nat n)))"

definition conv_bytes :: "bytes \<Rightarrow> tx_exn + bytes" where
  "conv_bytes d = bindE (throw_if (\<not> isData d) RLPIsNotData) (\<lambda>_. liftTx (toBytes d LaissezFaire))"

section \<open>Signatures\<close>

record sig_struct =
  sig_signature :: g1
  sig_publicKey :: g2

definition sig_isValid :: "sig_struct \<Rightarrow> bool" where "sig_isValid s = True"
definition sig_isZero :: "sig_struct \<Rightarrow> bool" where "sig_isZero s \<longleftrightarrow> sig_signature s = 0"
definition sig_lowS :: "sig_struct \<Rightarrow> bool" where "sig_lowS s = False"

definition sig_default :: sig_struct where
  "sig_default = \<lparr>sig_signature = 0, sig_publicKey = 0\<rparr>"

definition sig_read :: "bytes \<Rightarrow> tx_exn + sig_struct" where
  "sig_read d =
     bindE (RLPList_make d 2) (\<lambda>l.
     bindE (RLPList_get (\<lambda>x. liftTx (readPoint x VeryStrict)) l) (\<lambda>(s, l).
     bindE (RLPList_get (\<lambda>x. liftTx (readPoint x VeryStrict)) l) (\<lambda>(p, l).
       Inr \<lparr>sig_signature = s, sig_publicKey = p\<rparr>)))"

definition sig_streamRLP :: "sig_struct \<Rightarrow> rlp_stream \<Rightarrow> rlp_exn + rlp_stream" where
  "sig_streamRLP v s =
     bindE (appendList s 2) (\<lambda>s.
     bindE (appendHash s (sig_signature v)) (\<lambda>s. appendHash s (sig_publicKey v)))"

section \<open>The transaction\<close>

datatype tx_type = NullTransaction | ContractCreation | MessageCall

datatype CheckTransaction = CheckNone | CheckCheap | CheckTxEverything

datatype IncludeSignature = WithoutSignature | WithSignature

record tx_base =
  m_type :: tx_type
  m_nonce :: u256
  m_value :: u256
  m_receiveAddress :: u160
  m_gasPrice :: u256
  m_gas :: u256
  m_data :: bytes
  m_vrs :: "sig_struct option"
  m_hashWith :: u256
  m_forcedSender :: u160

definition tx_null :: tx_base where
  "tx_null = \<lparr>m_type = NullTransaction, m_nonce = 0, m_value = 0, m_receiveAddress = 0,
     m_gasPrice = 0, m_gas = 0, m_data = [], m_vrs = None, m_hashWith = 0, m_forcedSender = 0\<rparr>"

definition appendU256t :: "rlp_stream \<Rightarrow> u256 \<Rightarrow> rlp_exn + rlp_stream" where
  "appendU256t s v = appendInt s (unat v)"

definition tx_streamRLP :: "tx_base \<Rightarrow> rlp_stream \<Rightarrow> IncludeSignature \<Rightarrow> tx_exn + rlp_stream" where
  "tx_streamRLP t s sig =
     (if m_type t = NullTransaction then Inr s
      else bindE (liftTx (
        bindE (appendList s ((if sig = WithSignature then 1 else 0) + 6)) (\<lambda>s.
        bindE (appendU256t s (m_nonce t)) (\<lambda>s.
        bindE (appendU256t s (m_gasPrice t)) (\<lambda>s.
        bindE (appendU256t s (m_gas t)) (\<lambda>s.
        bindE (if m_type t = MessageCall then appendHash s (m_receiveAddress t)
               else appendBytes s [] False) (\<lambda>s.
        bindE (appendU256t s (m_value t)) (\<lambda>s.
          appendBytes s (m_data t) False)))))))) (\<lambda>s.
        if sig = WithSignature
        then (case m_vrs t of None \<Rightarrow> Inl TransactionIsUnsigned
              | Some v \<Rightarrow> liftTx (sig_streamRLP v s))
        else Inr s))"

definition tx_rlp :: "tx_base \<Rightarrow> IncludeSignature \<Rightarrow> tx_exn + bytes" where
  "tx_rlp t sig = bindE (tx_streamRLP t rlp_stream_new sig) (\<lambda>s. liftTx (stream_out s))"

text \<open>The constructor from RLP.\<close>

definition tx_from_rlp :: "bytes \<Rightarrow> CheckTransaction \<Rightarrow> tx_exn + tx_base" where
  "tx_from_rlp rlpData checkSig =
     bindE (liftTx (rlp_make rlpData VeryStrict)) (\<lambda>d.
     bindE (RLPList_make d 7) (\<lambda>l.
     bindE (RLPList_get conv_u256 l) (\<lambda>(nonce, l).
     bindE (RLPList_get conv_u256 l) (\<lambda>(gasPrice, l).
     bindE (RLPList_get conv_u256 l) (\<lambda>(gas, l).
     bindE (RLPList_pop l) (\<lambda>(recvAField, l).
     bindE (if isEmpty recvAField then Inr 0 else liftTx (readHash recvAField VeryStrict)) (\<lambda>to.
     bindE (RLPList_get conv_u256 l) (\<lambda>(value, l).
     bindE (RLPList_get conv_bytes l) (\<lambda>(data, l).
     bindE (RLPList_get sig_read l) (\<lambda>(vrs, l).
     bindE (throw_if (checkSig \<noteq> CheckNone \<and> \<not> sig_isValid vrs) InvalidSignature) (\<lambda>_.
       Inr (tx_null\<lparr>m_type := if isEmpty recvAField then ContractCreation else MessageCall,
              m_nonce := nonce, m_gasPrice := gasPrice, m_gas := gas, m_receiveAddress := to,
              m_value := value, m_data := data, m_vrs := Some vrs\<rparr>))))))))))))"

text \<open>\<open>sha3\<close> keeps the hash of the signed form.\<close>

definition tx_sha3 ::
    "(bytes \<Rightarrow> u256) \<Rightarrow> IncludeSignature \<Rightarrow> tx_base \<Rightarrow> tx_exn + (u256 \<times> tx_base)" where
  "tx_sha3 sha3 sig t =
     (if sig = WithSignature \<and> m_hashWith t \<noteq> 0 then Inr (m_hashWith t, t)
      else bindE (tx_rlp t sig) (\<lambda>out.
        let ret = sha3 out in
        Inr (ret, if sig = WithSignature then t\<lparr>m_hashWith := ret\<rparr> else t)))"

definition tx_sign :: "crypto_lib \<Rightarrow> u256 \<Rightarrow> tx_base \<Rightarrow> tx_exn + tx_base" where
  "tx_sign lib priv t =
     bindE (tx_sha3 (lib_sha3 lib) WithoutSignature t) (\<lambda>(h, t).
       let sigStruct = \<lparr>sig_signature = bls_sign lib priv h, sig_publicKey = toPublic lib priv\<rparr> in
       Inr (if sig_isValid sigStruct then t\<lparr>m_vrs := Some sigStruct\<rparr> else t))"

text \<open>\<open>clearSignature\<close> assigns a default signature to the optional.\<close>

definition clearSignature :: "tx_base \<Rightarrow> tx_base" where
  "clearSignature t = t\<lparr>m_vrs := Some sig_default\<rparr>"

definition setNonce :: "u256 \<Rightarrow> tx_base \<Rightarrow> tx_base" where
  "setNonce n t = (clearSignature t)\<lparr>m_nonce := n\<rparr>"

definition hasSignature :: "tx_base \<Rightarrow> bool" where
  "hasSignature t \<longleftrightarrow> m_vrs t \<noteq> None"

definition hasZeroSignature :: "tx_base \<Rightarrow> bool" where
  "hasZeroSignature t \<longleftrightarrow> (case m_vrs t of None \<Rightarrow> False | Some v \<Rightarrow> sig_isZero v)"

definition tx_signature :: "tx_base \<Rightarrow> tx_exn + sig_struct" where
  "tx_signature t = (case m_vrs t of None \<Rightarrow> Inl TransactionIsUnsigned | Some v \<Rightarrow> Inr v)"

definition checkLowS :: "tx_base \<Rightarrow> tx_exn + unit" where
  "checkLowS t = (case m_vrs t of None \<Rightarrow> Inl TransactionIsUnsigned
                  | Some v \<Rightarrow> throw_if (sig_lowS v) InvalidSignature)"

definition forceSender :: "u160 \<Rightarrow> tx_base \<Rightarrow> tx_base" where
  "forceSender a t = t\<lparr>m_forcedSender := a\<rparr>"

definition senderPublic :: "tx_base \<Rightarrow> g2" where
  "senderPublic t = (case m_vrs t of None \<Rightarrow> 0 | Some v \<Rightarrow> sig_publicKey v)"

definition tx_from :: "crypto_lib \<Rightarrow> tx_base \<Rightarrow> u160" where
  "tx_from lib t = (if m_forcedSender t \<noteq> 0 then m_forcedSender t
                    else publicToAddress lib (senderPublic t))"

definition isCreation :: "tx_base \<Rightarrow> bool" where
  "isCreation t \<longleftrightarrow> m_type t = ContractCreation"

definition tx_eq :: "tx_base \<Rightarrow> tx_base \<Rightarrow> bool" where
  "tx_eq t c \<longleftrightarrow> m_type t = m_type c \<and>
     (m_type t = ContractCreation \<or> m_receiveAddress t = m_receiveAddress c) \<and>
     m_value t = m_value c \<and> m_data t = m_data c"

text \<open>\<open>baseGasRequired\<close>; the \<open>int64_t\<close> accumulator is the integer \<open>g\<close>.\<close>

fun data_gas :: "evm_schedule \<Rightarrow> bytes \<Rightarrow> int \<Rightarrow> int" where
  "data_gas es [] g = g"
| "data_gas es (i # is) g =
     data_gas es is (g + int (if i \<noteq> 0 then txDataNonZeroGas es else txDataZeroGas es))"

definition baseGasRequired :: "bool \<Rightarrow> bytes \<Rightarrow> evm_schedule \<Rightarrow> int" where
  "baseGasRequired contractCreation data es =
     data_gas es data (int (if contractCreation then txCreateGas es else txGas es))"

text \<open>The constructor from a skeleton, whose fields are the arguments.\<close>

definition tx_make ::
    "crypto_lib \<Rightarrow> bool \<Rightarrow> u256 \<Rightarrow> u256 \<Rightarrow> u256 \<Rightarrow> u160 \<Rightarrow> bytes \<Rightarrow> u256 \<Rightarrow> u256 \<Rightarrow> tx_exn + tx_base" where
  "tx_make lib creation value gasPrice gas to data nonce secret =
     (let t = tx_null\<lparr>m_type := if creation then ContractCreation else MessageCall,
                m_nonce := nonce, m_value := value, m_receiveAddress := to,
                m_gasPrice := gasPrice, m_gas := gas, m_data := data\<rparr>
      in if secret \<noteq> 0 then tx_sign lib secret t else Inr t)"

section \<open>Reading back what was written\<close>

text \<open>The reader has consumed \<open>i\<close> items of the list \<open>xs\<close>.\<close>

definition list_at :: "rlp_item list \<Rightarrow> nat \<Rightarrow> rlp_list \<Rightarrow> bool" where
  "list_at xs i l \<longleftrightarrow> cache_ok xs (rl_rlp l) \<and> rl_ix l = i"

lemma list_at_make:
  assumes "item_ok (Lst xs)"
  shows "\<exists>l. RLPList_make (rlp_enc (Lst xs)) (length xs) = Inr l \<and> list_at xs 0 l"
proof -
  have "isList (rlp_enc (Lst xs))" using enc_read(3) [OF assms, of "[]"] by simp
  then show ?thesis
    using itemCount_enc [OF assms] cache_ok_view [of xs]
    by (simp add: RLPList_make_def list_at_def del: rlp_enc.simps)
qed

lemma RLPList_pop_enc:
  assumes "item_ok (Lst xs)" "list_at xs i l" "i < length xs"
  shows "\<exists>l'. RLPList_pop l = Inr (rlp_enc (xs ! i), l') \<and> list_at xs (Suc i) l'"
proof -
  have "i < 2 ^ 64 - 1" using assms(3) item_ok_length [OF assms(1)] by simp
  then obtain r' where "rlp_index (rl_rlp l) i = Inr (rlp_enc (xs ! i), r')" "cache_ok xs r'"
    using rlp_index_enc [OF assms(1), of "rl_rlp l" i] assms(2,3) by (auto simp: item_at_def list_at_def)
  then show ?thesis using assms(2) by (simp add: RLPList_pop_def list_at_def)
qed

lemma bind_pop:
  assumes "item_ok (Lst xs)" "list_at xs i l" "i < length xs" "xs ! i = x"
    and "\<And>l'. list_at xs (Suc i) l' \<Longrightarrow> k (rlp_enc x) l' = m"
  shows "bindE (RLPList_pop l) (\<lambda>(d, l'). k d l') = m"
  using RLPList_pop_enc [OF assms(1-3)] assms(4,5) by auto

lemma bind_get:
  assumes "item_ok (Lst xs)" "list_at xs i l" "i < length xs" "xs ! i = x" "conv (rlp_enc x) = Inr v"
    and "\<And>l'. list_at xs (Suc i) l' \<Longrightarrow> k v l' = m"
  shows "bindE (RLPList_get conv l) (\<lambda>(v, l'). k v l') = m"
  using RLPList_pop_enc [OF assms(1-3)] assms(4-6) by (auto simp: RLPList_get_def)

definition sig_item :: "sig_struct \<Rightarrow> rlp_item" where
  "sig_item v = Lst [hash_item (sig_signature v), hash_item (sig_publicKey v)]"

definition to_item :: "tx_base \<Rightarrow> rlp_item" where
  "to_item t = (if m_type t = MessageCall then hash_item (m_receiveAddress t) else Str [])"

definition tx_items :: "tx_base \<Rightarrow> rlp_item list" where
  "tx_items t = [int_item (unat (m_nonce t)), int_item (unat (m_gasPrice t)), int_item (unat (m_gas t)),
     to_item t, int_item (unat (m_value t)), Str (m_data t)]"

lemma sig_streamRLP_eq: "sig_streamRLP v = write_item (sig_item v)"
  by (simp only: fun_eq_iff sig_item_def write_item.simps write_items_fun)
    (simp add: sig_streamRLP_def appendHash_def hash_item_def eval_nat_numeral)

lemma liftTx_bind: "liftTx (bindE m f) = bindE (liftTx m) (\<lambda>x. liftTx (f x))"
  by (cases m) auto

lemma tx_streamRLP_eq:
  assumes "m_type t \<noteq> NullTransaction"
  shows "tx_streamRLP t s WithoutSignature = liftTx (write_item (Lst (tx_items t)) s)"
    and "m_vrs t = Some v \<Longrightarrow>
      tx_streamRLP t s WithSignature = liftTx (write_item (Lst (tx_items t @ [sig_item v])) s)"
  using assms
  by (simp_all only: write_item.simps write_items_fun write_items_append tx_items_def append.simps)
    (auto simp add: tx_streamRLP_def appendU256t_def appendInt_eq int_item_def appendHash_def hash_item_def
      to_item_def liftTx_bind bindE_assoc sig_streamRLP_eq eval_nat_numeral)

lemma tx_rlp_eq:
  assumes "m_type t \<noteq> NullTransaction"
  shows "item_ok (Lst (tx_items t)) \<Longrightarrow>
      tx_rlp t WithoutSignature = Inr (rlp_enc (Lst (tx_items t)))"
    and "m_vrs t = Some v \<Longrightarrow> item_ok (Lst (tx_items t @ [sig_item v])) \<Longrightarrow>
      tx_rlp t WithSignature = Inr (rlp_enc (Lst (tx_items t @ [sig_item v])))"
proof -
  have out: "bindE (liftTx (write_item x rlp_stream_new)) (\<lambda>s. liftTx (stream_out s)) = Inr (rlp_enc x)"
    if "item_ok x" for x
    using stream_out_write [OF item_ok_fits [OF that]] liftTx_bind [of "write_item x rlp_stream_new" stream_out]
    by simp
  show "item_ok (Lst (tx_items t)) \<Longrightarrow>
      tx_rlp t WithoutSignature = Inr (rlp_enc (Lst (tx_items t)))"
    unfolding tx_rlp_def tx_streamRLP_eq(1) [OF assms] by (rule out)
  show "m_vrs t = Some v \<Longrightarrow> item_ok (Lst (tx_items t @ [sig_item v])) \<Longrightarrow>
      tx_rlp t WithSignature = Inr (rlp_enc (Lst (tx_items t @ [sig_item v])))"
    unfolding tx_rlp_def by (subst tx_streamRLP_eq(2) [OF assms], assumption, rule out)
qed

lemma conv_u256_item [simp]: "conv_u256 (rlp_enc (int_item (unat v))) = Inr v"
  using toInt_int_item [of "unat v" 256 VeryStrict] unsigned_less [of v, where ?'a = nat]
  by (simp add: conv_u256_def)

lemma conv_bytes_item [simp]: "item_ok (Str bs) \<Longrightarrow> conv_bytes (rlp_enc (Str bs)) = Inr bs"
  using enc_read(4) [of "Str bs" "[]"] toBytes_enc [of bs LaissezFaire]
  by (simp add: conv_bytes_def del: toBytes_enc)

lemma sig_read_item:
  assumes ok: "item_ok (sig_item v)"
  shows "sig_read (rlp_enc (sig_item v)) = Inr v"
proof -
  let ?xs = "[hash_item (sig_signature v), hash_item (sig_publicKey v)]"
  note ok' = ok [unfolded sig_item_def]
  obtain l where l: "RLPList_make (rlp_enc (Lst ?xs)) 2 = Inr l" "list_at ?xs 0 l"
    using list_at_make [OF ok'] by (auto simp del: rlp_enc.simps simp: eval_nat_numeral)
  show ?thesis
    unfolding sig_read_def sig_item_def l(1) bindE.simps
    apply (rule bind_get [OF ok' l(2)], simp, simp, simp del: rlp_enc.simps)
    apply (rule bind_get [OF ok'], assumption, simp, simp, simp del: rlp_enc.simps)
    apply simp
    done
qed

lemma to_item_read:
  assumes "m_type t \<noteq> NullTransaction"
  shows "isEmpty (rlp_enc (to_item t)) \<longleftrightarrow> m_type t = ContractCreation"
proof (cases "m_type t")
  case MessageCall
  have "length (hash_bytes (m_receiveAddress t)) = 20" by simp
  then have "rlp_enc (to_item t) = 0x94 # hash_bytes (m_receiveAddress t)"
    using MessageCall by (simp add: to_item_def hash_item_def enc_str_def enc_header_def)
  then show ?thesis using MessageCall by (simp add: isEmpty_def)
next
  case ContractCreation
  then show ?thesis by (simp add: to_item_def isEmpty_def enc_str_def enc_header_def)
qed (use assms in simp)

lemma tx_from_rlp_enc:
  assumes type: "m_type t \<noteq> NullTransaction" and ok: "item_ok (Lst (tx_items t @ [sig_item v]))"
    and to: "m_type t = ContractCreation \<Longrightarrow> m_receiveAddress t = 0"
  shows "tx_from_rlp (rlp_enc (Lst (tx_items t @ [sig_item v]))) check =
     Inr (t\<lparr>m_vrs := Some v, m_hashWith := 0, m_forcedSender := 0\<rparr>)"
proof -
  let ?xs = "tx_items t @ [sig_item v]"
  have at: "?xs ! 0 = int_item (unat (m_nonce t))" "?xs ! 1 = int_item (unat (m_gasPrice t))"
    "?xs ! 2 = int_item (unat (m_gas t))" "?xs ! 3 = to_item t" "?xs ! 4 = int_item (unat (m_value t))"
    "?xs ! 5 = Str (m_data t)" "?xs ! 6 = sig_item v" and len: "length ?xs = 7"
    by (simp_all add: tx_items_def)
  have ok_data: "item_ok (Str (m_data t))" and ok_sig: "item_ok (sig_item v)"
    using item_ok_Lst [OF ok] by (auto simp: tx_items_def)
  obtain l where l: "RLPList_make (rlp_enc (Lst ?xs)) 7 = Inr l" "list_at ?xs 0 l"
    using list_at_make [OF ok] unfolding len by auto
  have "m_type t = MessageCall \<Longrightarrow> readHash (rlp_enc (to_item t)) VeryStrict = Inr (m_receiveAddress t)"
    by (simp add: to_item_def)
  then have recv: "(if isEmpty (rlp_enc (to_item t)) then Inr 0
      else liftTx (readHash (rlp_enc (to_item t)) VeryStrict)) = Inr (m_receiveAddress t)"
    using type to by (cases "m_type t") (simp_all add: to_item_read)
  have final: "t\<lparr>m_vrs := Some v, m_hashWith := 0, m_forcedSender := 0\<rparr> =
      tx_null\<lparr>m_type := if isEmpty (rlp_enc (to_item t)) then ContractCreation else MessageCall,
              m_nonce := m_nonce t, m_gasPrice := m_gasPrice t, m_gas := m_gas t,
              m_receiveAddress := m_receiveAddress t,
              m_value := m_value t, m_data := m_data t, m_vrs := Some v\<rparr>"
    using type by (cases "m_type t") (simp_all add: to_item_read tx_null_def)
  have sucs: "Suc 0 = 1" "Suc 1 = 2" "Suc 2 = 3" "Suc 3 = 4" "Suc 4 = 5" "Suc 5 = 6" by simp_all
  have lt: "0 < length ?xs" "1 < length ?xs" "2 < length ?xs" "3 < length ?xs" "4 < length ?xs"
    "5 < length ?xs" "6 < length ?xs" unfolding len by simp_all
  show ?thesis
    unfolding tx_from_rlp_def rlp_make_enc [OF ok] liftTx.simps bindE.simps l(1) final
    apply (rule bind_get [where conv = conv_u256, OF ok l(2) lt(1) at(1)], rule conv_u256_item, unfold sucs)
    apply (rule bind_get [where conv = conv_u256, OF ok _ lt(2) at(2)], assumption, rule conv_u256_item, unfold sucs)
    apply (rule bind_get [where conv = conv_u256, OF ok _ lt(3) at(3)], assumption, rule conv_u256_item, unfold sucs)
    apply (rule bind_pop [OF ok _ lt(4) at(4)], assumption, unfold recv bindE.simps sucs)
    apply (rule bind_get [where conv = conv_u256, OF ok _ lt(5) at(5)], assumption, rule conv_u256_item, unfold sucs)
    apply (rule bind_get [where conv = conv_bytes, OF ok _ lt(6) at(6)], assumption, rule conv_bytes_item [OF ok_data], unfold sucs)
    apply (rule bind_get [where conv = sig_read, OF ok _ lt(7) at(7)], assumption, rule sig_read_item [OF ok_sig])
    apply (simp add: sig_isValid_def)
    done
qed

lemma data_gas_eq:
  "data_gas es bs g = g + int (txDataNonZeroGas es) * int (length (filter (\<lambda>b. b \<noteq> 0) bs))
     + int (txDataZeroGas es) * int (length (filter (\<lambda>b. b = 0) bs))"
  by (induction es bs g rule: data_gas.induct) (simp_all add: algebra_simps)

lemma tx_sign_verifies:
  assumes "bilinear lib" "priv < bls12381Modulus" "tx_sign lib priv t = Inr t'"
  shows "\<exists>v h. m_vrs t' = Some v \<and> tx_sha3 (lib_sha3 lib) WithoutSignature t' = Inr (h, t') \<and>
     bls_verify lib (sig_publicKey v) (sig_signature v) h"
proof -
  obtain h where h: "tx_sha3 (lib_sha3 lib) WithoutSignature t = Inr (h, t)"
      and t': "t' = t\<lparr>m_vrs := Some \<lparr>sig_signature = bls_sign lib priv h, sig_publicKey = toPublic lib priv\<rparr>\<rparr>"
    using assms(3) by (auto simp: tx_sign_def tx_sha3_def exn_simps sig_isValid_def Let_def)
  have "tx_streamRLP t' s WithoutSignature = tx_streamRLP t s WithoutSignature" for s
    by (simp add: t' tx_streamRLP_def cong: if_cong)
  then have "tx_sha3 (lib_sha3 lib) WithoutSignature t' = Inr (h, t')"
    using h by (auto simp: tx_sha3_def tx_rlp_def exn_simps Let_def)
  moreover have "bls_verify lib (toPublic lib priv) (bls_sign lib priv h) h"
    by (rule bls_sign_verify [OF assms(1,2)])
  ultimately show ?thesis by (simp add: t')
qed

end
