(* ===== verification/TrieHash.thy ===== *)
theory TrieHash
  imports HexPrefix FixedHash "HOL-Library.List_Lexorder"
begin

text \<open>
  The root of a Merkle Patricia trie computed from a sorted map without building the trie,
  libdevcore/TrieHash.cpp and \<open>trieRootOver\<close> of TrieHash.h. A \<open>std::map\<close> is the list of its
  entries in key order; byte strings are ordered lexicographically, as
  \<open>std::vector<unsigned char>\<close> is. The Keccak hash is the argument \<open>sha3\<close>. A nibble of a key
  that is too short is never read by the code; the model's reader gives \<open>None\<close> there.
\<close>

type_synonym bytes_map = "(bytes \<times> bytes) list"

text \<open>\<open>m[k] = v\<close> on an ordered map.\<close>

fun map_put :: "bytes \<Rightarrow> bytes \<Rightarrow> bytes_map \<Rightarrow> bytes_map" where
  "map_put k v [] = [(k, v)]"
| "map_put k v ((k', v') # m) =
     (if k < k' then (k, v) # (k', v') # m
      else if k = k' then (k, v) # m
      else (k', v') # map_put k v m)"

definition nib_at :: "bytes \<Rightarrow> nat \<Rightarrow> byte option" where
  "nib_at k i = (if i < length k then Some (k ! i) else None)"

text \<open>The search for the number of nibbles that all keys share with the first.\<close>

function shared_scan :: "bytes \<Rightarrow> bytes \<Rightarrow> nat \<Rightarrow> nat \<Rightarrow> nat" where
  "shared_scan k0 k x shared =
     (if shared < x \<and> nib_at k0 shared = nib_at k shared
      then shared_scan k0 k x (Suc shared) else shared)"
  by pat_completeness auto
termination
  by (relation "measure (\<lambda>(k0, k, x, shared). x - shared)") auto

declare shared_scan.simps [simp del]

fun shared_pre :: "bytes \<Rightarrow> nat \<Rightarrow> bytes_map \<Rightarrow> nat \<Rightarrow> nat" where
  "shared_pre k0 preLen [] sharedPre = sharedPre"
| "shared_pre k0 preLen ((k, v) # m) sharedPre =
     (if sharedPre = 0 then 0
      else let x = min sharedPre (min (length k0) (length k));
               shared = shared_scan k0 k x preLen
           in shared_pre k0 preLen m (min shared sharedPre))"

definition max_key :: "bytes_map \<Rightarrow> nat" where
  "max_key xs = foldr (\<lambda>(k, v) n. max (length k) n) xs 0"

lemma max_key_ge: "(k, v) \<in> set xs \<Longrightarrow> length k \<le> max_key xs"
  by (induction xs) (auto simp: max_key_def)

lemma max_key_le: "(\<And>k v. (k, v) \<in> set xs \<Longrightarrow> length k \<le> n) \<Longrightarrow> max_key xs \<le> n"
  by (induction xs) (force simp: max_key_def)+

lemma max_key_subset: "set ys \<subseteq> set xs \<Longrightarrow> max_key ys \<le> max_key xs"
  by (rule max_key_le) (meson max_key_ge subset_iff)

lemma shared_pre_le: "shared_pre k0 preLen m n \<le> n"
proof (induction k0 preLen m n rule: shared_pre.induct)
  case (2 k0 preLen k v m n)
  then show ?case by (auto simp: Let_def intro: order_trans min.cobounded2)
qed simp

lemma shared_scan_le: "shared \<le> x \<Longrightarrow> shared_scan k0 k x shared \<le> x"
proof (induction k0 k x shared rule: shared_scan.induct)
  case (1 k0 k x shared)
  then show ?case by (subst shared_scan.simps) simp
qed

lemma shared_scan_max: "shared_scan k0 k x shared \<le> max x shared"
proof (induction k0 k x shared rule: shared_scan.induct)
  case (1 k0 k x shared)
  then show ?case by (subst shared_scan.simps) (auto simp: max_def split: if_splits)
qed

lemma shared_pre_bound:
  assumes "m \<noteq> []" and "preLen < shared_pre k0 preLen m n"
  shows "shared_pre k0 preLen m n \<le> length k0"
proof -
  obtain k v r where m: "m = (k, v) # r" using assms(1) by (cases m) auto
  let ?x = "min n (min (length k0) (length k))"
  let ?s = "shared_scan k0 k ?x preLen"
  have "n \<noteq> 0" using assms(2) m by (cases "n = 0") auto
  then have eq: "shared_pre k0 preLen m n = shared_pre k0 preLen r (min ?s n)"
    by (simp add: m Let_def)
  then have le: "shared_pre k0 preLen m n \<le> ?s"
    using shared_pre_le [of k0 preLen r "min ?s n"] by simp
  have "?s \<le> max ?x preLen" by (rule shared_scan_max)
  with le assms(2) have "shared_pre k0 preLen m n \<le> ?x" by linarith
  then show ?thesis by simp
qed

text \<open>The entries whose next nibble is \<open>i\<close>, which the iterator \<open>n\<close> runs over, and the rest.\<close>

definition seg :: "nat \<Rightarrow> byte \<Rightarrow> bytes_map \<Rightarrow> bytes_map" where
  "seg preLen i b = takeWhile (\<lambda>(k, v). nib_at k preLen = Some i) b"

definition after_seg :: "nat \<Rightarrow> byte \<Rightarrow> bytes_map \<Rightarrow> bytes_map" where
  "after_seg preLen i b = dropWhile (\<lambda>(k, v). nib_at k preLen = Some i) b"

lemma seg_key:
  assumes "seg preLen i b \<noteq> []"
  shows "preLen < max_key (seg preLen i b)"
proof -
  obtain k v r where s: "seg preLen i b = (k, v) # r" using assms by (metis neq_Nil_conv surj_pair)
  then have mem: "(k, v) \<in> set (seg preLen i b)" by simp
  then have "nib_at k preLen = Some i"
    by (auto simp: seg_def dest: set_takeWhileD)
  then have "preLen < length k" by (simp add: nib_at_def split: if_splits)
  also have "\<dots> \<le> max_key (seg preLen i b)" by (rule max_key_ge [OF mem])
  finally show ?thesis .
qed

lemma max_key_seg: "max_key (seg preLen i b) \<le> max_key b"
  by (rule max_key_subset) (auto simp: seg_def dest: set_takeWhileD)

lemma max_key_after_seg: "max_key (after_seg preLen i b) \<le> max_key b"
  by (rule max_key_subset) (auto simp: after_seg_def dest: set_dropWhileD)

lemma max_key_Cons: "max_key (x # r) = max (length (fst x)) (max_key r)"
  by (cases x) (simp add: max_key_def)

lemma seg_smaller:
  assumes "seg preLen i b \<noteq> []"
  shows "Suc (max_key (seg preLen i b)) - Suc preLen < Suc (max_key b) - preLen"
  using seg_key [OF assms] max_key_seg [of preLen i b] by linarith

lemma after_seg_smaller: "Suc (max_key (after_seg preLen i b)) - n \<le> Suc (max_key b) - n"
  using max_key_after_seg [of preLen i b] by linarith

lemma shared_pre_smaller:
  assumes "preLen < shared_pre k0 preLen (y # m) n"
  shows "Suc (max_key ((k0, v0) # y # m)) - shared_pre k0 preLen (y # m) n
           < Suc (max_key ((k0, v0) # y # m)) - preLen"
proof -
  have "shared_pre k0 preLen (y # m) n \<le> length k0"
    using shared_pre_bound [of "y # m"] assms by simp
  moreover have "length k0 \<le> max_key ((k0, v0) # y # m)" by (simp add: max_key_Cons)
  ultimately show ?thesis using assms by linarith
qed

lemma rest_smaller: "Suc (max_key r) - n \<le> Suc (max_key (x # r)) - n"
  by (simp add: max_key_Cons)

text \<open>\<open>hash256rlp\<close>, its inner loop over the sixteen branches (from branch \<open>i\<close> on), and
  \<open>hash256aux\<close>, which embeds a short node and refers to a longer one by its hash.\<close>

function (sequential) hash256rlp ::
    "(bytes \<Rightarrow> u256) \<Rightarrow> bytes_map \<Rightarrow> nat \<Rightarrow> rlp_stream \<Rightarrow> rlp_exn + rlp_stream"
  and hash256branches ::
    "(bytes \<Rightarrow> u256) \<Rightarrow> bytes_map \<Rightarrow> nat \<Rightarrow> nat \<Rightarrow> rlp_stream \<Rightarrow> rlp_exn + rlp_stream"
  and hash256aux ::
    "(bytes \<Rightarrow> u256) \<Rightarrow> bytes_map \<Rightarrow> nat \<Rightarrow> rlp_stream \<Rightarrow> rlp_exn + rlp_stream" where
  "hash256rlp sha3 [] preLen s = appendBytes s [] False"
| "hash256rlp sha3 [(k, v)] preLen s =
     bindE (appendList s 2) (\<lambda>s.
     bindE (appendBytes s (hexPrefixEncode_vector k True (int preLen) (-1)) False) (\<lambda>s.
       appendBytes s v False))"
| "hash256rlp sha3 ((k0, v0) # rest) preLen s =
     (let sharedPre = shared_pre k0 preLen rest (2 ^ 32 - 1) in
      if sharedPre > preLen
      then bindE (appendList s 2) (\<lambda>s.
           bindE (appendBytes s (hexPrefixEncode_vector k0 False (int preLen) (int sharedPre)) False) (\<lambda>s.
             hash256aux sha3 ((k0, v0) # rest) sharedPre s))
      else bindE (appendList s 17) (\<lambda>s.
           bindE (hash256branches sha3
                    (if preLen = length k0 then rest else (k0, v0) # rest) preLen 0 s) (\<lambda>s.
             appendBytes s (if preLen = length k0 then v0 else []) False)))"
| "hash256branches sha3 b preLen i s =
     (if 16 \<le> i then Inr s
      else let n = seg preLen (of_nat i) b in
        bindE (if n = [] then appendBytes s [] False
               else hash256aux sha3 n (Suc preLen) s) (\<lambda>s.
          hash256branches sha3 (after_seg preLen (of_nat i) b) preLen (Suc i) s))"
| "hash256aux sha3 xs preLen s =
     bindE (hash256rlp sha3 xs preLen rlp_stream_new) (\<lambda>r.
     bindE (stream_out r) (\<lambda>out.
       if length out < 32 then appendRaw s out 1 else appendHash s (sha3 out)))"
  by pat_completeness auto

termination
proof (relation "measures
       [\<lambda>a. case a of Inl (_, xs, p, _) \<Rightarrow> Suc (max_key xs) - p
              | Inr (Inl (_, xs, p, _)) \<Rightarrow> Suc (max_key xs) - p
              | Inr (Inr (_, xs, p, _)) \<Rightarrow> Suc (max_key xs) - p,
        \<lambda>a. case a of Inl _ \<Rightarrow> 18 | Inr (Inl (_, _, _, i, _)) \<Rightarrow> 17 - i | Inr (Inr _) \<Rightarrow> 19]",
   goal_cases)
  case 1
  then show ?case by simp
next
  case (2 sha3 k0 v0 y m preLen s sharedPre)
  then show ?case using shared_pre_smaller by (simp del: shared_pre.simps)
next
  case (3 sha3 k0 v0 y m preLen s sharedPre)
  then show ?case
    using rest_smaller [of "y # m" preLen "(k0, v0)"] by (auto simp del: shared_pre.simps)
next
  case (4 sha3 b preLen i s)
  then show ?case using seg_smaller [of preLen "of_nat i" b] by simp
next
  case (5 sha3 b preLen i s)
  then show ?case using after_seg_smaller [of preLen "of_nat i" b preLen] by (auto simp: le_less)
next
  case 6
  then show ?case by simp
qed

declare hash256branches.simps [simp del]

text \<open>The hash-prefixed map of nibble strings is filled from the last entry to the first, so a
  duplicate nibble string keeps the value of its first entry.\<close>

definition hex_map :: "bytes_map \<Rightarrow> bytes_map" where
  "hex_map s = foldl (\<lambda>m (k, v). map_put (asNibbles k) v m) [] (rev s)"

definition rlp256 :: "(bytes \<Rightarrow> u256) \<Rightarrow> bytes_map \<Rightarrow> rlp_exn + bytes" where
  "rlp256 sha3 s =
     (if s = [] then bindE (appendBytes rlp_stream_new [] False) stream_out
      else bindE (hash256rlp sha3 (hex_map s) 0 rlp_stream_new) stream_out)"

definition hash256 :: "(bytes \<Rightarrow> u256) \<Rightarrow> bytes_map \<Rightarrow> rlp_exn + u256" where
  "hash256 sha3 s = bindE (rlp256 sha3 s) (\<lambda>out. Inr (sha3 out))"

text \<open>\<open>rlp(j)\<close> is the encoding of one integer; the loop over the data is \<open>ordered_loop\<close>.\<close>

definition rlp_int :: "nat \<Rightarrow> rlp_exn + bytes" where
  "rlp_int j = bindE (appendInt rlp_stream_new j) stream_out"

fun ordered_loop :: "nat \<Rightarrow> bytes list \<Rightarrow> bytes_map \<Rightarrow> rlp_exn + bytes_map" where
  "ordered_loop j [] m = Inr m"
| "ordered_loop j (d # ds) m =
     bindE (rlp_int j) (\<lambda>k. ordered_loop (Suc j mod 2 ^ 32) ds (map_put k d m))"

definition orderedTrieRoot :: "(bytes \<Rightarrow> u256) \<Rightarrow> bytes list \<Rightarrow> rlp_exn + u256" where
  "orderedTrieRoot sha3 data = bindE (ordered_loop 0 data []) (hash256 sha3)"

text \<open>\<open>trieRootOver\<close>: keys and values come from functions that may throw; the value function
  is a closure over a state \<open>st\<close> (the RLP view it indexes).\<close>

fun over_loop ::
    "(nat \<Rightarrow> 'e + bytes) \<Rightarrow> (nat \<Rightarrow> 's \<Rightarrow> 'e + (bytes \<times> 's)) \<Rightarrow> nat list \<Rightarrow> 's \<Rightarrow> bytes_map
      \<Rightarrow> 'e + bytes_map" where
  "over_loop getKey getValue [] st m = Inr m"
| "over_loop getKey getValue (i # is) st m =
     bindE (getValue i st) (\<lambda>(v, st').
     bindE (getKey i) (\<lambda>k. over_loop getKey getValue is st' (map_put k v m)))"

definition trieRootOver ::
    "(bytes \<Rightarrow> u256) \<Rightarrow> nat \<Rightarrow> (nat \<Rightarrow> rlp_exn + bytes) \<Rightarrow> (nat \<Rightarrow> 's \<Rightarrow> rlp_exn + (bytes \<times> 's))
      \<Rightarrow> 's \<Rightarrow> rlp_exn + u256" where
  "trieRootOver sha3 n getKey getValue st =
     bindE (over_loop getKey getValue [0..<n] st []) (hash256 sha3)"

end
