(* ===== verification/BlockHeader.thy ===== *)
theory BlockHeader
  imports TrieHash RlpRoundtrip
begin

text \<open>
  The block header, class \<open>BlockHeader\<close> of libethcore/BlockHeader.h and BlockHeader.cpp: its
  fields, the two memoised hashes and their invalidation, the RLP writer and reader, and the
  checks of \<open>verify\<close>. Hash fields are words of the hash's width, \<open>int64_t\<close> fields are 64 bit
  words read with \<open>sint\<close>. The Keccak hash is the argument \<open>sha3\<close>. The locks around the seal
  and the memos have no counterpart.
\<close>

section \<open>Data\<close>

type_synonym log_bloom = "2048 word"

datatype IncludeSeal = WithoutSeal | WithSeal | OnlySeal

datatype Strictness = CheckEverything | CheckEverythingStateLess | JustSeal | QuickNonce
  | IgnoreSeal | CheckNothingNew

datatype BlockDataType = HeaderData | BlockData

text \<open>\<open>BadHeader n\<close> is an exception out of \<open>populate\<close>, with the field number it reports.\<close>

datatype block_exn = HeaderRlp rlp_exn | InvalidBlockFormat nat | BadHeader nat | InvalidNumber
  | TooMuchGasUsed | InvalidParentHash | InvalidTimestamp | InvalidTransactionsRoot
  | InvalidUnclesHash

record block_header =
  m_parentHash :: u256
  m_sha3Uncles :: u256
  m_stateRoot :: u256
  m_transactionsRoot :: u256
  m_receiptsRoot :: u256
  m_logBloom :: log_bloom
  m_number :: u64
  m_gasLimit :: u256
  m_gasUsed :: u256
  m_extraData :: bytes
  m_timestamp :: u64
  m_author :: u160
  m_difficulty :: u256
  m_seal :: "bytes list"
  m_hash :: u256
  m_hashWithout :: u256

definition EmptyTrie :: "(bytes \<Rightarrow> u256) \<Rightarrow> u256" where "EmptyTrie sha3 = sha3 [0x80]"
definition EmptyListSHA3 :: "(bytes \<Rightarrow> u256) \<Rightarrow> u256" where "EmptyListSHA3 sha3 = sha3 [0xc0]"

text \<open>The default constructor; the timestamp \<open>-1\<close> marks an empty object.\<close>

definition header_new :: block_header where
  "header_new = \<lparr>m_parentHash = 0, m_sha3Uncles = 0, m_stateRoot = 0, m_transactionsRoot = 0,
     m_receiptsRoot = 0, m_logBloom = 0, m_number = 0, m_gasLimit = 0, m_gasUsed = 0,
     m_extraData = [], m_timestamp = -1, m_author = 0, m_difficulty = 0, m_seal = [],
     m_hash = 0, m_hashWithout = 0\<rparr>"

definition header_valid :: "block_header \<Rightarrow> bool" where
  "header_valid h \<longleftrightarrow> m_timestamp h \<noteq> -1"

definition noteDirty :: "block_header \<Rightarrow> block_header" where
  "noteDirty h = h\<lparr>m_hashWithout := 0, m_hash := 0\<rparr>"

definition header_clear :: "(bytes \<Rightarrow> u256) \<Rightarrow> block_header \<Rightarrow> block_header" where
  "header_clear sha3 h = noteDirty (h\<lparr>m_parentHash := 0, m_sha3Uncles := EmptyListSHA3 sha3,
     m_author := 0, m_stateRoot := EmptyTrie sha3, m_transactionsRoot := EmptyTrie sha3,
     m_receiptsRoot := EmptyTrie sha3, m_logBloom := 0, m_difficulty := 0, m_number := 0,
     m_gasLimit := 0, m_gasUsed := 0, m_timestamp := -1, m_extraData := [], m_seal := []\<rparr>)"

section \<open>Setters\<close>

definition setParentHash :: "u256 \<Rightarrow> block_header \<Rightarrow> block_header" where
  "setParentHash v h = noteDirty (h\<lparr>m_parentHash := v\<rparr>)"
definition setSha3Uncles :: "u256 \<Rightarrow> block_header \<Rightarrow> block_header" where
  "setSha3Uncles v h = noteDirty (h\<lparr>m_sha3Uncles := v\<rparr>)"
definition setTimestamp :: "u64 \<Rightarrow> block_header \<Rightarrow> block_header" where
  "setTimestamp v h = noteDirty (h\<lparr>m_timestamp := v\<rparr>)"
definition setAuthor :: "u160 \<Rightarrow> block_header \<Rightarrow> block_header" where
  "setAuthor v h = noteDirty (h\<lparr>m_author := v\<rparr>)"
definition setRoots :: "u256 \<Rightarrow> u256 \<Rightarrow> u256 \<Rightarrow> u256 \<Rightarrow> block_header \<Rightarrow> block_header" where
  "setRoots t r u s h = noteDirty (h\<lparr>m_transactionsRoot := t, m_receiptsRoot := r,
     m_stateRoot := s, m_sha3Uncles := u\<rparr>)"
definition setGasUsed :: "u256 \<Rightarrow> block_header \<Rightarrow> block_header" where
  "setGasUsed v h = noteDirty (h\<lparr>m_gasUsed := v\<rparr>)"
definition setNumber :: "u64 \<Rightarrow> block_header \<Rightarrow> block_header" where
  "setNumber v h = noteDirty (h\<lparr>m_number := v\<rparr>)"
definition setGasLimit :: "u256 \<Rightarrow> block_header \<Rightarrow> block_header" where
  "setGasLimit v h = noteDirty (h\<lparr>m_gasLimit := v\<rparr>)"
definition setExtraData :: "bytes \<Rightarrow> block_header \<Rightarrow> block_header" where
  "setExtraData v h = noteDirty (h\<lparr>m_extraData := v\<rparr>)"
definition setLogBloom :: "log_bloom \<Rightarrow> block_header \<Rightarrow> block_header" where
  "setLogBloom v h = noteDirty (h\<lparr>m_logBloom := v\<rparr>)"
definition setDifficulty :: "u256 \<Rightarrow> block_header \<Rightarrow> block_header" where
  "setDifficulty v h = noteDirty (h\<lparr>m_difficulty := v\<rparr>)"

text \<open>\<open>setSeal(offset, value)\<close>, with \<open>v\<close> the bytes of \<open>rlp(value)\<close>, and \<open>seal<T>(offset)\<close>,
  with the converter of \<open>T\<close> and its default value.\<close>

definition setSeal :: "nat \<Rightarrow> bytes \<Rightarrow> block_header \<Rightarrow> block_header" where
  "setSeal offset v h =
     (let seal = (if length (m_seal h) \<le> offset
                  then m_seal h @ replicate (offset + 1 - length (m_seal h)) [] else m_seal h)
      in noteDirty (h\<lparr>m_seal := seal[offset := v]\<rparr>))"

definition get_seal :: "(bytes \<Rightarrow> rlp_exn + 'a) \<Rightarrow> 'a \<Rightarrow> nat \<Rightarrow> block_header \<Rightarrow> rlp_exn + 'a" where
  "get_seal conv dflt offset h =
     (if offset < length (m_seal h)
      then bindE (rlp_make (m_seal h ! offset) VeryStrict) conv else Inr dflt)"

text \<open>\<open>operator==\<close> compares the basic fields only.\<close>

definition header_eq :: "block_header \<Rightarrow> block_header \<Rightarrow> bool" where
  "header_eq h c \<longleftrightarrow> m_parentHash h = m_parentHash c \<and> m_sha3Uncles h = m_sha3Uncles c \<and>
     m_author h = m_author c \<and> m_stateRoot h = m_stateRoot c \<and>
     m_transactionsRoot h = m_transactionsRoot c \<and> m_receiptsRoot h = m_receiptsRoot c \<and>
     m_logBloom h = m_logBloom c \<and> m_difficulty h = m_difficulty c \<and> m_number h = m_number c \<and>
     m_gasLimit h = m_gasLimit c \<and> m_gasUsed h = m_gasUsed c \<and> m_timestamp h = m_timestamp c \<and>
     m_extraData h = m_extraData c"

section \<open>Writing\<close>

definition BasicFields :: nat where "BasicFields = 13"

text \<open>\<open>append\<close> has no overload for \<open>int64_t\<close>; the call goes to \<open>append(unsigned)\<close>, whose
  argument has 32 bits.\<close>

definition appendInt64 :: "rlp_stream \<Rightarrow> u64 \<Rightarrow> rlp_exn + rlp_stream" where
  "appendInt64 s v = appendInt s (unat (ucast v :: 32 word))"

definition appendU256 :: "rlp_stream \<Rightarrow> u256 \<Rightarrow> rlp_exn + rlp_stream" where
  "appendU256 s v = appendInt s (unat v)"

definition streamRLPFields :: "block_header \<Rightarrow> rlp_stream \<Rightarrow> rlp_exn + rlp_stream" where
  "streamRLPFields h s =
     bindE (appendHash s (m_parentHash h)) (\<lambda>s.
     bindE (appendHash s (m_sha3Uncles h)) (\<lambda>s.
     bindE (appendHash s (m_author h)) (\<lambda>s.
     bindE (appendHash s (m_stateRoot h)) (\<lambda>s.
     bindE (appendHash s (m_transactionsRoot h)) (\<lambda>s.
     bindE (appendHash s (m_receiptsRoot h)) (\<lambda>s.
     bindE (appendHash s (m_logBloom h)) (\<lambda>s.
     bindE (appendU256 s (m_difficulty h)) (\<lambda>s.
     bindE (appendInt64 s (m_number h)) (\<lambda>s.
     bindE (appendU256 s (m_gasLimit h)) (\<lambda>s.
     bindE (appendU256 s (m_gasUsed h)) (\<lambda>s.
     bindE (appendInt64 s (m_timestamp h)) (\<lambda>s.
       appendBytes s (m_extraData h) False))))))))))))"

fun stream_seal :: "bytes list \<Rightarrow> rlp_stream \<Rightarrow> rlp_exn + rlp_stream" where
  "stream_seal [] s = Inr s"
| "stream_seal (b # bs) s = bindE (appendRaw s b 1) (stream_seal bs)"

definition streamRLP :: "block_header \<Rightarrow> rlp_stream \<Rightarrow> IncludeSeal \<Rightarrow> rlp_exn + rlp_stream" where
  "streamRLP h s i =
     bindE (if i \<noteq> OnlySeal
            then bindE (appendList s (BasicFields + (if i = WithoutSeal then 0 else length (m_seal h))))
                   (streamRLPFields h)
            else Inr s)
       (\<lambda>s. if i \<noteq> WithoutSeal then stream_seal (m_seal h) s else Inr s)"

text \<open>\<open>hash\<close> computes a memo that is zero, \<open>dummy\<close> for \<open>OnlySeal\<close>.\<close>

definition header_encode :: "block_header \<Rightarrow> IncludeSeal \<Rightarrow> rlp_exn + bytes" where
  "header_encode h i = bindE (streamRLP h rlp_stream_new i) stream_out"

definition header_hash ::
    "(bytes \<Rightarrow> u256) \<Rightarrow> IncludeSeal \<Rightarrow> block_header \<Rightarrow> rlp_exn + (u256 \<times> block_header)" where
  "header_hash sha3 i h =
     (let memo = (case i of WithSeal \<Rightarrow> m_hash h | WithoutSeal \<Rightarrow> m_hashWithout h | OnlySeal \<Rightarrow> 0) in
      if memo = 0
      then bindE (header_encode h i) (\<lambda>out.
        let v = sha3 out in
        Inr (v, case i of WithSeal \<Rightarrow> h\<lparr>m_hash := v\<rparr> | WithoutSeal \<Rightarrow> h\<lparr>m_hashWithout := v\<rparr> | OnlySeal \<Rightarrow> h))
      else Inr (memo, h))"

section \<open>Reading\<close>

definition headerHashFromBlock :: "(bytes \<Rightarrow> u256) \<Rightarrow> bytes \<Rightarrow> rlp_exn + u256" where
  "headerHashFromBlock sha3 block =
     bindE (rlp_make block VeryStrict) (\<lambda>d.
     bindE (rlp_index (rlp_view d) 0) (\<lambda>(item, _). Inr (sha3 item)))"

fun liftRlp :: "rlp_exn + 'a \<Rightarrow> block_exn + 'a" where
  "liftRlp (Inl e) = Inl (HeaderRlp e)"
| "liftRlp (Inr x) = Inr x"

definition extractHeader :: "bytes \<Rightarrow> block_exn + bytes" where
  "extractHeader block =
     bindE (liftRlp (rlp_make block VeryStrict)) (\<lambda>root.
     bindE (throw_if (\<not> isList root) (InvalidBlockFormat 0)) (\<lambda>_.
     bindE (liftRlp (rlp_index (rlp_view root) 0)) (\<lambda>(header, r).
     bindE (throw_if (\<not> isList header) (InvalidBlockFormat 0)) (\<lambda>_.
     bindE (liftRlp (rlp_index r 1)) (\<lambda>(txs, r).
     bindE (throw_if (\<not> isList txs) (InvalidBlockFormat 1)) (\<lambda>_.
     bindE (liftRlp (rlp_index r 2)) (\<lambda>(uncles, r).
     bindE (throw_if (\<not> isList uncles) (InvalidBlockFormat 2)) (\<lambda>_. Inr header))))))))"

text \<open>The handler of \<open>populate\<close> reads the item it reports, which may throw in turn. One line of \<open>populate\<close>:
  \<open>field\<close> is incremented before the item is converted, so the handler reports the number after it.\<close>

definition bad_header :: "nat \<Rightarrow> rlp \<Rightarrow> block_exn" where
  "bad_header field r = (case rlp_index r field of Inl e \<Rightarrow> HeaderRlp e | Inr _ \<Rightarrow> BadHeader field)"

definition read_field :: "(bytes \<Rightarrow> rlp_exn + 'a) \<Rightarrow> nat \<Rightarrow> rlp \<Rightarrow> block_exn + ('a \<times> rlp)" where
  "read_field conv field r =
     (case rlp_index r field of
        Inl _ \<Rightarrow> Inl (bad_header (field + 1) r)
      | Inr (d, r') \<Rightarrow> (case conv d of Inl _ \<Rightarrow> Inl (bad_header (field + 1) r') | Inr v \<Rightarrow> Inr (v, r')))"

definition readU256 :: "bytes \<Rightarrow> rlp_exn + u256" where
  "readU256 d = bindE (toInt (Some 256) d Strict) (\<lambda>n. Inr (of_nat n))"

definition readInt64 :: "bytes \<Rightarrow> rlp_exn + u64" where
  "readInt64 d = bindE (toInt (Some 64) d Strict) (\<lambda>n. Inr (of_nat n))"

fun read_seal :: "nat list \<Rightarrow> rlp \<Rightarrow> block_exn + bytes list" where
  "read_seal [] r = Inr []"
| "read_seal (i # is) r =
     (case rlp_index r i of
        Inl _ \<Rightarrow> Inl (bad_header BasicFields r)
      | Inr (d, r') \<Rightarrow> bindE (read_seal is r') (\<lambda>ds. Inr (d # ds)))"

definition populate :: "bytes \<Rightarrow> block_header \<Rightarrow> block_exn + block_header" where
  "populate header h =
     bindE (read_field (\<lambda>d. readHash d VeryStrict) 0 (rlp_view header)) (\<lambda>(parentHash, r).
     bindE (read_field (\<lambda>d. readHash d VeryStrict) 1 r) (\<lambda>(sha3Uncles, r).
     bindE (read_field (\<lambda>d. readHash d VeryStrict) 2 r) (\<lambda>(author, r).
     bindE (read_field (\<lambda>d. readHash d VeryStrict) 3 r) (\<lambda>(stateRoot, r).
     bindE (read_field (\<lambda>d. readHash d VeryStrict) 4 r) (\<lambda>(transactionsRoot, r).
     bindE (read_field (\<lambda>d. readHash d VeryStrict) 5 r) (\<lambda>(receiptsRoot, r).
     bindE (read_field (\<lambda>d. readHash d VeryStrict) 6 r) (\<lambda>(logBloom, r).
     bindE (read_field readU256 7 r) (\<lambda>(difficulty, r).
     bindE (read_field readInt64 8 r) (\<lambda>(number, r).
     bindE (read_field readU256 9 r) (\<lambda>(gasLimit, r).
     bindE (read_field readU256 10 r) (\<lambda>(gasUsed, r).
     bindE (read_field readInt64 11 r) (\<lambda>(timestamp, r).
     bindE (read_field (\<lambda>d. toBytes d LaissezFaire) 12 r) (\<lambda>(extraData, r).
     bindE (case itemCount header of Inl _ \<Rightarrow> Inl (bad_header BasicFields r) | Inr n \<Rightarrow> Inr n) (\<lambda>n.
     bindE (read_seal [BasicFields..<n] r) (\<lambda>seal.
       Inr (h\<lparr>m_parentHash := parentHash, m_sha3Uncles := sha3Uncles, m_author := author,
              m_stateRoot := stateRoot, m_transactionsRoot := transactionsRoot,
              m_receiptsRoot := receiptsRoot, m_logBloom := logBloom,
              m_difficulty := difficulty, m_number := number, m_gasLimit := gasLimit,
              m_gasUsed := gasUsed, m_timestamp := timestamp, m_extraData := extraData,
              m_seal := seal\<rparr>))))))))))))))))"

text \<open>The constructor from bytes, \<open>hashWith\<close> being zero when the hash has to be computed.\<close>

definition header_make ::
    "(bytes \<Rightarrow> u256) \<Rightarrow> bytes \<Rightarrow> BlockDataType \<Rightarrow> u256 \<Rightarrow> block_exn + block_header" where
  "header_make sha3 block bdt hashWith =
     bindE (if bdt = BlockData then extractHeader block else liftRlp (rlp_make block VeryStrict))
       (\<lambda>header. populate header
          (header_new\<lparr>m_hash := if hashWith \<noteq> 0 then hashWith else sha3 header\<rparr>))"

section \<open>Parent and verification\<close>

definition header_populateFromParent :: "block_header \<Rightarrow> block_header \<Rightarrow> block_header" where
  "header_populateFromParent parent h =
     h\<lparr>m_stateRoot := m_stateRoot parent, m_number := m_number parent + 1,
       m_parentHash := m_hash parent, m_gasLimit := m_gasLimit parent, m_difficulty := 1,
       m_gasUsed := 0\<rparr>"

text \<open>The part of \<open>verify\<close> that looks at the block's body.\<close>

definition verify_body :: "(bytes \<Rightarrow> u256) \<Rightarrow> block_header \<Rightarrow> bytes \<Rightarrow> block_exn + unit" where
  "verify_body sha3 h block =
     bindE (liftRlp (rlp_make block VeryStrict)) (\<lambda>root.
     bindE (liftRlp (rlp_index (rlp_view root) 1)) (\<lambda>(txList, r).
     bindE (liftRlp (itemCount txList)) (\<lambda>n.
     bindE (liftRlp (trieRootOver sha3 (n mod 2 ^ 32) rlp_int (\<lambda>i l. rlp_index l i) (rlp_view txList))) (\<lambda>expectedRoot.
     bindE (throw_if (m_transactionsRoot h \<noteq> expectedRoot) InvalidTransactionsRoot) (\<lambda>_.
     bindE (liftRlp (rlp_index r 2)) (\<lambda>(uncles, r).
       throw_if (m_sha3Uncles h \<noteq> sha3 uncles) InvalidUnclesHash))))))"

definition verify_parent ::
    "(bytes \<Rightarrow> u256) \<Rightarrow> block_header \<Rightarrow> block_header \<Rightarrow> block_exn + block_header" where
  "verify_parent sha3 h parent =
     bindE (if m_parentHash h \<noteq> 0
            then bindE (liftRlp (header_hash sha3 WithSeal parent)) (\<lambda>(v, parent').
                 bindE (throw_if (v \<noteq> m_parentHash h) InvalidParentHash) (\<lambda>_. Inr parent'))
            else Inr parent) (\<lambda>parent'.
     bindE (throw_if (sint (m_timestamp h) \<le> sint (m_timestamp parent)) InvalidTimestamp) (\<lambda>_.
     bindE (throw_if (m_number h \<noteq> m_number parent + 1) InvalidNumber) (\<lambda>_. Inr parent')))"

text \<open>\<open>verify\<close>; an empty \<open>block\<close> is the null reference. The result is the parent, whose
  memo the check may have filled.\<close>

definition header_verify ::
    "(bytes \<Rightarrow> u256) \<Rightarrow> Strictness \<Rightarrow> block_header \<Rightarrow> bytes \<Rightarrow> block_header
      \<Rightarrow> block_exn + block_header" where
  "header_verify sha3 s parent block h =
     bindE (throw_if (sint (m_number h) > 2 ^ 32 - 1) InvalidNumber) (\<lambda>_.
     bindE (throw_if (s \<noteq> CheckNothingNew \<and> m_gasUsed h > m_gasLimit h) TooMuchGasUsed) (\<lambda>_.
     bindE (if header_valid parent then verify_parent sha3 h parent else Inr parent) (\<lambda>parent'.
     bindE (if block \<noteq> [] then verify_body sha3 h block else Inr ()) (\<lambda>_. Inr parent'))))"

section \<open>What is written and read back\<close>

lemma stream_seal_eq:
  "(\<And>x. x \<in> set xs \<Longrightarrow> rlp_fits x) \<Longrightarrow> stream_seal (map rlp_enc xs) s = write_items xs s"
proof (induction xs arbitrary: s)
  case (Cons x xs)
  then have "stream_seal (map rlp_enc xs) = write_items xs" by auto
  then show ?case using Cons.prems by (simp add: appendRaw_def write_item_eq)
qed simp

definition int64_item :: "u64 \<Rightarrow> rlp_item" where
  "int64_item v = int_item (unat (ucast v :: 32 word))"

definition header_items :: "block_header \<Rightarrow> rlp_item list" where
  "header_items h =
     [hash_item (m_parentHash h), hash_item (m_sha3Uncles h), hash_item (m_author h),
      hash_item (m_stateRoot h), hash_item (m_transactionsRoot h), hash_item (m_receiptsRoot h),
      hash_item (m_logBloom h), int_item (unat (m_difficulty h)), int64_item (m_number h),
      int_item (unat (m_gasLimit h)), int_item (unat (m_gasUsed h)), int64_item (m_timestamp h),
      Str (m_extraData h)]"

lemma length_header_items [simp]: "length (header_items h) = 13"
  by (simp add: header_items_def)

lemma streamRLPFields_eq: "streamRLPFields h = write_items (header_items h)"
  by (simp only: write_items_fun header_items_def)
    (simp add: fun_eq_iff streamRLPFields_def appendHash_def appendU256_def appendInt64_def
      appendInt_eq hash_item_def int_item_def int64_item_def)

definition seal_items :: "IncludeSeal \<Rightarrow> rlp_item list \<Rightarrow> rlp_item list" where
  "seal_items i xs = (if i = WithoutSeal then [] else xs)"

lemma streamRLP_eq:
  assumes seal: "m_seal h = map rlp_enc xs" and ok: "\<And>x. x \<in> set xs \<Longrightarrow> rlp_fits x" and i: "i \<noteq> OnlySeal"
  shows "streamRLP h s i = write_item (Lst (header_items h @ seal_items i xs)) s"
  using assms(1,3) stream_seal_eq [OF ok]
  by (cases i) (simp_all add: streamRLP_def streamRLPFields_eq write_items_append bindE_assoc BasicFields_def seal_items_def
     split: IncludeSeal.splits)

lemma header_encode_eq:
  assumes "m_seal h = map rlp_enc xs" and ok: "item_ok (Lst (header_items h @ xs))"
  shows "header_encode h WithSeal = Inr (rlp_enc (Lst (header_items h @ xs)))"
    and "header_encode h WithoutSeal = Inr (rlp_enc (Lst (header_items h)))"
proof -
  have fits: "rlp_fits x" if "x \<in> set xs" for x
    using item_ok_Lst [OF ok] that by (auto intro: item_ok_fits)
  show "header_encode h WithSeal = Inr (rlp_enc (Lst (header_items h @ xs)))"
    using item_ok_fits [OF ok] streamRLP_eq [OF assms(1) fits, of WithSeal]
    by (simp add: header_encode_def stream_out_write seal_items_def del: rlp_enc.simps write_item.simps rlp_fits.simps)
  show "header_encode h WithoutSeal = Inr (rlp_enc (Lst (header_items h)))"
    using item_ok_fits [OF item_ok_append [OF ok]] streamRLP_eq [OF assms(1) fits, of WithoutSeal]
    by (simp add: header_encode_def stream_out_write seal_items_def del: rlp_enc.simps write_item.simps rlp_fits.simps)
qed

lemma bind_read_field:
  assumes "item_ok (Lst xs)" "cache_ok xs r" "i < length xs" "i < 2 ^ 64 - 1" "conv (rlp_enc (xs ! i)) = Inr v"
    and "\<And>r'. cache_ok xs r' \<Longrightarrow> k (v, r') = m"
  shows "bindE (read_field conv i r) k = m"
proof -
  obtain r' where r: "rlp_index r i = Inr (rlp_enc (xs ! i), r')" "cache_ok xs r'"
    using rlp_index_enc [OF assms(1,2,4)] assms(3) by (auto simp: item_at_def)
  then show ?thesis using assms(5,6) by (simp add: read_field_def)
qed

lemma bind_field:
  assumes "item_ok (Lst xs)" "xs ! i = x" "cache_ok xs r" "i < length xs" "i < 100"
    and "conv (rlp_enc x) = Inr v" "\<And>r'. cache_ok xs r' \<Longrightarrow> k v r' = m"
  shows "bindE (read_field conv i r) (\<lambda>(v, r'). k v r') = m"
  by (rule bind_read_field [OF assms(1,3,4)]) (use assms in auto)

lemma read_seal_enc:
  assumes "item_ok (Lst xs)"
  shows "cache_ok xs r \<Longrightarrow> list_all (\<lambda>i. i < length xs \<and> i < 2 ^ 64 - 1) is \<Longrightarrow>
     read_seal is r = Inr (map (\<lambda>i. rlp_enc (xs ! i)) is)"
proof (induction "is" arbitrary: r)
  case (Cons i "is")
  then obtain r' where r: "rlp_index r i = Inr (rlp_enc (xs ! i), r')" "cache_ok xs r'"
    using rlp_index_enc [OF assms, of r i] by (auto simp: item_at_def)
  then show ?case using Cons by simp
qed simp

lemma readU256_item [simp]: "readU256 (rlp_enc (int_item (unat v))) = Inr v"
  using toInt_int_item [of "unat v" 256 Strict] unsigned_less [of v, where ?'a = nat]
  by (simp add: readU256_def)

lemma readInt64_item:
  assumes "v < 2 ^ 32"
  shows "readInt64 (rlp_enc (int64_item v)) = Inr v"
proof -
  have v: "unat v < 2 ^ 32" using assms by (simp add: word_less_nat_alt)
  then have "unat (ucast v :: 32 word) = unat v" by (simp add: unsigned_ucast_eq take_bit_eq_mod)
  then show ?thesis
    using toInt_int_item [of "unat v" 64 Strict] v by (simp add: readInt64_def int64_item_def)
qed

lemma populate_enc:
  assumes ok: "item_ok (Lst (header_items h @ xs))"
    and "m_number h < 2 ^ 32" "m_timestamp h < 2 ^ 32"
  shows "populate (rlp_enc (Lst (header_items h @ xs))) h0 =
     Inr (h\<lparr>m_seal := map rlp_enc xs, m_hash := m_hash h0, m_hashWithout := m_hashWithout h0\<rparr>)"
proof -
  let ?ys = "header_items h @ xs"
  have at: "?ys ! 0 = hash_item (m_parentHash h)" "?ys ! 1 = hash_item (m_sha3Uncles h)"
    "?ys ! 2 = hash_item (m_author h)" "?ys ! 3 = hash_item (m_stateRoot h)"
    "?ys ! 4 = hash_item (m_transactionsRoot h)" "?ys ! 5 = hash_item (m_receiptsRoot h)"
    "?ys ! 6 = hash_item (m_logBloom h)" "?ys ! 7 = int_item (unat (m_difficulty h))"
    "?ys ! 8 = int64_item (m_number h)" "?ys ! 9 = int_item (unat (m_gasLimit h))"
    "?ys ! 10 = int_item (unat (m_gasUsed h))" "?ys ! 11 = int64_item (m_timestamp h)"
    "?ys ! 12 = Str (m_extraData h)"
    by (simp_all add: header_items_def)
  have ex: "item_ok (Str (m_extraData h))"
    using item_ok_Lst [OF ok] by (simp add: header_items_def)
  note bind = bind_read_field [OF ok]
  have seal: "map (\<lambda>i. rlp_enc (?ys ! i)) [13..<length ?ys] = map rlp_enc xs"
    by (rule nth_equalityI) (auto simp: nth_append)
  have len: "length xs + 13 < 2 ^ 64 - 1" using item_ok_length [OF ok] by simp
  have count: "itemCount (rlp_enc (Lst ?ys)) = Inr (13 + length xs)"
    using itemCount_enc [OF ok] by simp
  show ?thesis
    unfolding populate_def
    apply (rule bind_field [OF ok], rule at, rule cache_ok_view, simp, simp, rule readHash_enc, simp, simp)
    apply ((rule bind_field [OF ok], rule at, assumption, simp, simp,
      (rule readHash_enc, simp, simp | rule readU256_item | rule readInt64_item, rule assms | rule toBytes_enc [OF ex]))+)
    apply (use seal len in \<open>simp add: count read_seal_enc [OF ok] BasicFields_def list_all_iff
      del: rlp_enc.simps\<close>)
    done
qed

section \<open>The memoised hashes\<close>

text \<open>A memo is either unset or the hash of the current encoding.\<close>

definition memo_ok :: "(bytes \<Rightarrow> u256) \<Rightarrow> block_header \<Rightarrow> bool" where
  "memo_ok sha3 h \<longleftrightarrow>
     (m_hash h = 0 \<or> (\<exists>out. header_encode h WithSeal = Inr out \<and> m_hash h = sha3 out)) \<and>
     (m_hashWithout h = 0 \<or> (\<exists>out. header_encode h WithoutSeal = Inr out \<and> m_hashWithout h = sha3 out))"

lemma memo_ok_dirty [simp]: "memo_ok sha3 (noteDirty h)"
  by (simp add: memo_ok_def noteDirty_def)

lemma streamRLPFields_memo [simp]:
  "streamRLPFields (h\<lparr>m_hash := x\<rparr>) = streamRLPFields h"
  "streamRLPFields (h\<lparr>m_hashWithout := x\<rparr>) = streamRLPFields h"
  by (simp_all add: fun_eq_iff streamRLPFields_def)

lemma header_encode_memo [simp]:
  "header_encode (h\<lparr>m_hash := x\<rparr>) i = header_encode h i"
  "header_encode (h\<lparr>m_hashWithout := x\<rparr>) i = header_encode h i"
  by (simp_all add: header_encode_def streamRLP_def)

lemma header_hash_memo:
  assumes "memo_ok sha3 h" "header_hash sha3 i h = Inr (v, h')"
  shows "memo_ok sha3 h'" "header_encode h i = Inr out \<Longrightarrow> v = sha3 out" "header_encode h' j = header_encode h j"
  using assms by (cases i; auto simp: header_hash_def memo_ok_def Let_def exn_simps split: if_splits)+

lemma liftRlp_Inr [exn_simps]: "liftRlp m = Inr x \<longleftrightarrow> m = Inr x"
  by (cases m) auto

lemma liftRlp_Inl [exn_simps]: "liftRlp m = Inl e \<longleftrightarrow> (\<exists>x. e = HeaderRlp x \<and> m = Inl x)"
  by (cases m) auto

lemma verify_parent_iff:
  "verify_parent sha3 h parent = Inr parent' \<longleftrightarrow>
     (if m_parentHash h = 0 then parent' = parent
      else header_hash sha3 WithSeal parent = Inr (m_parentHash h, parent')) \<and>
     sint (m_timestamp parent) < sint (m_timestamp h) \<and> m_number h = m_number parent + 1"
  by (auto simp: verify_parent_def exn_simps)

lemma header_verify_iff:
  "header_verify sha3 s parent [] h = Inr parent' \<longleftrightarrow>
     sint (m_number h) < 2 ^ 32 \<and> (s = CheckNothingNew \<or> m_gasUsed h \<le> m_gasLimit h) \<and>
     (if header_valid parent
      then (if m_parentHash h = 0 then parent' = parent
            else header_hash sha3 WithSeal parent = Inr (m_parentHash h, parent')) \<and>
           sint (m_timestamp parent) < sint (m_timestamp h) \<and> m_number h = m_number parent + 1
      else parent' = parent)"
  by (auto simp: header_verify_def verify_parent_iff exn_simps)

lemma get_setSeal:
  assumes "item_ok x"
  shows "get_seal conv dflt i (setSeal i (rlp_enc x) h) = conv (rlp_enc x)"
  using assms by (simp add: get_seal_def setSeal_def noteDirty_def Let_def)

lemma get_setSeal_other:
  assumes "i \<noteq> j" "j < length (m_seal h)"
  shows "get_seal conv dflt j (setSeal i v h) = get_seal conv dflt j h"
  using assms by (simp add: get_seal_def setSeal_def noteDirty_def Let_def nth_append)

lemma setSeal_basic [simp]:
  "m_number (setSeal i v h) = m_number h" "m_timestamp (setSeal i v h) = m_timestamp h"
  "m_difficulty (setSeal i v h) = m_difficulty h" "m_parentHash (setSeal i v h) = m_parentHash h"
  "m_hash (setSeal i v h) = 0" "m_hashWithout (setSeal i v h) = 0"
  by (simp_all add: setSeal_def noteDirty_def Let_def)

lemma header_encode_setSeal [simp]:
  "header_encode (setSeal i v h) WithoutSeal = header_encode h WithoutSeal"
proof -
  have "streamRLPFields (setSeal i v h) = streamRLPFields h"
    by (simp add: fun_eq_iff streamRLPFields_def setSeal_def noteDirty_def Let_def)
  then show ?thesis by (simp add: header_encode_def streamRLP_def)
qed

section \<open>Headers of a normal size\<close>

text \<open>Extra data and seal below four gigabytes are enough for every encoding to be read back.\<close>

lemma item_ok_header:
  assumes "length (m_extraData h) < 2 ^ 32" "length (concat (map rlp_enc xs)) < 2 ^ 32"
  shows "item_ok (Lst (header_items h @ xs))"
proof -
  let ?body = "concat (map rlp_enc (header_items h @ xs))"
  have int: "length (rlp_enc (int_item (unat v))) \<le> 265" for v :: u256
    by (rule length_enc_int) (use unsigned_less [of v, where ?'a = nat] in simp)
  have int64: "length (rlp_enc (int64_item v)) \<le> 265" for v
    unfolding int64_item_def
    by (rule length_enc_int)
      (use unsigned_less [of "ucast v :: 32 word", where ?'a = nat] in \<open>simp add: less_le_trans\<close>)
  have "length (concat (map rlp_enc (header_items h))) \<le> 12 * 265 + (9 + length (m_extraData h))"
    using length_enc_Str [of "m_extraData h"] assms(1) int64 [of "m_number h"] int64 [of "m_timestamp h"]
      int [of "m_difficulty h"] int [of "m_gasLimit h"] int [of "m_gasUsed h"]
      length_enc_hash [of "m_parentHash h"] length_enc_hash [of "m_sha3Uncles h"]
      length_enc_hash [of "m_author h"] length_enc_hash [of "m_stateRoot h"]
      length_enc_hash [of "m_transactionsRoot h"] length_enc_hash [of "m_receiptsRoot h"]
      length_enc_hash [of "m_logBloom h"]
    by (simp add: header_items_def del: rlp_enc.simps)
  then have len: "length ?body < 2 ^ 40" using assms by simp
  then have "bytesRequired (length ?body) \<le> 8" by (intro bytesRequired_least) simp
  then have "length (rlp_enc (Lst (header_items h @ xs))) \<le> 9 + length ?body"
    by (simp add: enc_header_def Let_def)
  then show ?thesis using len by (simp add: item_ok_def size_ok_def)
qed

end
