(* ===== verification/LedgerProperties.thy ===== *)
theory LedgerProperties
  imports Transaction BlockHeader
begin

text \<open>
  The properties of block headers, BLS signatures and transactions (libethcore/BlockHeader,
  libethcore/Transaction, libdevcrypto): round trips through RLP, memoised hashes, verification,
  signing, intrinsic gas and the seal fields. The sample header and transaction are the concrete
  inputs of the witnesses.
\<close>

text \<open>C9: A sealed header is read back: \<open>streamRLP\<close> followed by \<open>populate\<close> restores every field
  and every seal item, as long as the block number and the timestamp fit in 32 bits.\<close>

theorem header_roundtrip:
  assumes "m_seal h = map rlp_enc xs" "length (m_extraData h) < 2 ^ 32" "length (concat (m_seal h)) < 2 ^ 32"
    and "m_number h < 2 ^ 32" "m_timestamp h < 2 ^ 32"
  shows "bindE (liftRlp (header_encode h WithSeal)) (\<lambda>d. populate d header_new) =
    Inr (h\<lparr>m_hash := 0, m_hashWithout := 0\<rparr>)"
proof -
  have ok: "item_ok (Lst (header_items h @ xs))" by (rule item_ok_header) (use assms in simp_all)
  have "header_encode h WithSeal = Inr (rlp_enc (Lst (header_items h @ xs)))"
    by (rule header_encode_eq(1) [OF assms(1) ok])
  moreover have "populate (rlp_enc (Lst (header_items h @ xs))) header_new =
      Inr (h\<lparr>m_hash := 0, m_hashWithout := 0\<rparr>)"
    using populate_enc [OF ok assms(4,5), of header_new] assms(1) by (cases h) (simp add: header_new_def)
  ultimately show ?thesis by simp
qed

definition sample_header :: block_header where
  "sample_header = header_new\<lparr>m_number := 7, m_timestamp := 99, m_difficulty := 0x20000,
     m_gasLimit := 3141592, m_extraData := [1, 2]\<rparr>"

lemma item_ok_sample: "item_ok (Lst (header_items sample_header))"
  using item_ok_header [of sample_header "[]"] by (simp add: sample_header_def)

theorem header_roundtrip_witness:
  "bindE (liftRlp (header_encode sample_header WithSeal)) (\<lambda>d. populate d header_new) = Inr sample_header"
proof -
  have "m_seal sample_header = map rlp_enc []" "m_number sample_header < 2 ^ 32"
    "m_timestamp sample_header < 2 ^ 32"
    by (simp_all add: sample_header_def header_new_def)
  from header_roundtrip [OF this(1) _ _ this(2,3)] show ?thesis
    by (simp add: sample_header_def header_new_def)
qed

text \<open>The number is written as a 32 bit integer: two headers whose numbers differ by
  \<open>2 ^ 32\<close> have the same encoding, so the same hash.\<close>

theorem header_number_truncated:
  "header_encode (h\<lparr>m_number := n\<rparr>) i = header_encode (h\<lparr>m_number := n + 2 ^ 32\<rparr>) i"
proof -
  have "(ucast (n + 2 ^ 32) :: 32 word) = ucast n"
    by (rule word_unat_eq_iff [THEN iffD2])
      (simp add: unsigned_ucast_eq take_bit_eq_mod unat_word_ariths mod_mod_cancel)
  then have "header_items (h\<lparr>m_number := n\<rparr>) = header_items (h\<lparr>m_number := n + 2 ^ 32\<rparr>)"
    by (simp add: header_items_def int64_item_def)
  then have "streamRLPFields (h\<lparr>m_number := n\<rparr>) = streamRLPFields (h\<lparr>m_number := n + 2 ^ 32\<rparr>)"
    by (simp only: streamRLPFields_eq)
  then show ?thesis by (simp add: header_encode_def streamRLP_def)
qed

text \<open>What users of a header do with it: the setters, \<open>clear\<close> and asking for a hash.
  \<open>populateFromParent\<close> is not among them: it does not clear the memo.\<close>

inductive header_step :: "(bytes \<Rightarrow> u256) \<Rightarrow> block_header \<Rightarrow> block_header \<Rightarrow> bool" for sha3 where
  "header_step sha3 h (setParentHash v h)"
| "header_step sha3 h (setSha3Uncles v h)"
| "header_step sha3 h (setTimestamp n h)"
| "header_step sha3 h (setAuthor a h)"
| "header_step sha3 h (setRoots t r u s h)"
| "header_step sha3 h (setGasUsed v h)"
| "header_step sha3 h (setNumber n h)"
| "header_step sha3 h (setGasLimit v h)"
| "header_step sha3 h (setExtraData d h)"
| "header_step sha3 h (setLogBloom b h)"
| "header_step sha3 h (setDifficulty v h)"
| "header_step sha3 h (setSeal i d h)"
| "header_step sha3 h (header_clear sha3 h)"
| "header_hash sha3 i h = Inr (v, h') \<Longrightarrow> header_step sha3 h h'"

lemma header_step_memo: "header_step sha3 h h' \<Longrightarrow> memo_ok sha3 h \<Longrightarrow> memo_ok sha3 h'"
  by (induction rule: header_step.induct)
    (simp_all add: setParentHash_def setSha3Uncles_def setTimestamp_def setAuthor_def setRoots_def setGasUsed_def
      setNumber_def setGasLimit_def setExtraData_def setLogBloom_def setDifficulty_def setSeal_def header_clear_def
      Let_def header_hash_memo(1))

lemma header_steps_memo: "(header_step sha3)\<^sup>*\<^sup>* header_new h \<Longrightarrow> memo_ok sha3 h"
proof (induction rule: rtranclp_induct)
  case base
  show ?case by (simp add: memo_ok_def header_new_def)
qed (rule header_step_memo)

text \<open>C37: The memoised hashes stay coherent: after any sequence of setters, \<open>clear\<close> and hash queries on a
  new header, \<open>hash\<close> gives the hash of the encoding the header then has, in all three forms, and
  throws what writing that encoding throws.\<close>

theorem header_hash_coherent:
  assumes "(header_step sha3)\<^sup>*\<^sup>* header_new h"
  shows "case header_hash sha3 i h of
      Inr (v, h') \<Rightarrow> (\<exists>out. header_encode h i = Inr out \<and> v = sha3 out) \<and> header_encode h' i = header_encode h i
    | Inl e \<Rightarrow> header_encode h i = Inl e"
proof -
  have m: "memo_ok sha3 h" by (rule header_steps_memo [OF assms])
  show ?thesis
  proof (cases "header_hash sha3 i h")
    case (Inl e)
    thus ?thesis by (cases i) (auto simp: header_hash_def Let_def exn_simps split: if_splits)
  next
    case (Inr x)
    obtain v h' where x: "x = (v, h')" by (cases x)
    have "header_encode h' i = header_encode h i" using header_hash_memo(3) [OF m] Inr x by simp
    moreover have "\<exists>out. header_encode h i = Inr out \<and> v = sha3 out"
      using Inr x m by (cases i) (auto simp: header_hash_def memo_ok_def Let_def exn_simps split: if_splits)
    ultimately show ?thesis using Inr x by simp
  qed
qed

theorem header_hash_coherent_witness:
  "\<exists>h1 v. header_hash (\<lambda>d. of_nat (length d)) WithSeal (setNumber 7 header_new) = Inr (v, h1) \<and>
     (case header_hash (\<lambda>d. of_nat (length d)) WithSeal (setGasUsed (2 ^ 200) h1) of
        Inr (v', h') \<Rightarrow> (\<exists>out. header_encode (setGasUsed (2 ^ 200) h1) WithSeal = Inr out \<and> v' = of_nat (length out)) \<and>
          header_encode h' WithSeal = header_encode (setGasUsed (2 ^ 200) h1) WithSeal
      | Inl e \<Rightarrow> header_encode (setGasUsed (2 ^ 200) h1) WithSeal = Inl e)"
proof -
  let ?sha3 = "\<lambda>d :: bytes. of_nat (length d) :: u256" and ?h = "setNumber 7 header_new"
  have "m_seal ?h = map rlp_enc []" by (simp add: setNumber_def noteDirty_def header_new_def)
  moreover have "item_ok (Lst (header_items ?h @ []))"
    using item_ok_header [of ?h "[]"] by (simp add: setNumber_def noteDirty_def header_new_def)
  ultimately have "header_encode ?h WithSeal = Inr (rlp_enc (Lst (header_items ?h @ [])))"
    by (rule header_encode_eq(1))
  then obtain v h1 where r: "header_hash ?sha3 WithSeal ?h = Inr (v, h1)"
    by (simp add: header_hash_def Let_def setNumber_def noteDirty_def del: rlp_enc.simps)
  have s: "header_step ?sha3 header_new ?h" "header_step ?sha3 ?h h1" "header_step ?sha3 h1 (setGasUsed (2 ^ 200) h1)"
    by (rule header_step.intros header_step.intros(14) [OF r])+
  hence "(header_step ?sha3)\<^sup>*\<^sup>* header_new (setGasUsed (2 ^ 200) h1)"
    by (rule rtranclp.rtrancl_into_rtrancl
        [OF rtranclp.rtrancl_into_rtrancl [OF rtranclp.rtrancl_into_rtrancl [OF rtranclp.rtrancl_refl]]])
  note c = header_hash_coherent [OF this, of WithSeal]
  show ?thesis by (rule exI [of _ h1], rule exI [of _ v], rule conjI [OF r c])
qed

text \<open>BLS signatures verify: for a secret below the group order, the signature of a hash
  verifies under the public key of the secret, whatever the hash.\<close>

theorem bls_signature_verifies:
  assumes "bilinear lib" "s < bls12381Modulus"
  shows "bls_verify lib (toPublic lib s) (bls_sign lib s h) h"
  using assms by (rule bls_sign_verify)

theorem bls_signature_verifies_witness: "bls_verify toy_lib (toPublic toy_lib 5) (bls_sign toy_lib 5 17) 17"
  by (rule bls_signature_verifies) (simp_all add: bilinear_toy bls12381Modulus_def)

text \<open>C10: A signed transaction is read back: its encoding with the signature gives back every
  field, with the signature present and the memoised hash and sender reset.\<close>

theorem transaction_roundtrip:
  assumes "m_type t \<noteq> NullTransaction" "m_vrs t = Some v" "item_ok (Lst (tx_items t @ [sig_item v]))"
    and "m_type t = ContractCreation \<longrightarrow> m_receiveAddress t = 0"
  shows "bindE (tx_rlp t WithSignature) (\<lambda>d. tx_from_rlp d c) =
     Inr (t\<lparr>m_hashWith := 0, m_forcedSender := 0\<rparr>)"
  using tx_rlp_eq(2) [OF assms(1-3)] tx_from_rlp_enc [OF assms(1,3), of c] assms(2,4)
  by (cases t) simp

definition sample_tx :: tx_base where
  "sample_tx = tx_null\<lparr>m_type := MessageCall, m_nonce := 3, m_gas := 21000, m_value := 5,
     m_receiveAddress := 77, m_data := [1], m_vrs := Some \<lparr>sig_signature = 9, sig_publicKey = 4\<rparr>\<rparr>"

lemma item_ok_sample_tx: "item_ok (Lst (tx_items sample_tx @ [sig_item \<lparr>sig_signature = 9, sig_publicKey = 4\<rparr>]))"
  by (simp add: item_ok_def size_ok_def sample_tx_def tx_null_def tx_items_def sig_item_def to_item_def hash_item_def
      enc_str_def int_item_def toCompactBigEndian_def enc_header_def bytesRequired.simps)

theorem transaction_roundtrip_witness:
  "bindE (tx_rlp sample_tx WithSignature) (\<lambda>d. tx_from_rlp d CheckTxEverything) = Inr sample_tx"
proof -
  have "m_type sample_tx \<noteq> NullTransaction" "m_type sample_tx = ContractCreation \<longrightarrow> m_receiveAddress sample_tx = 0"
    "m_vrs sample_tx = Some \<lparr>sig_signature = 9, sig_publicKey = 4\<rparr>"
    by (simp_all add: sample_tx_def)
  from transaction_roundtrip [OF this(1,3) item_ok_sample_tx this(2), of CheckTxEverything] show ?thesis
    by (simp add: sample_tx_def tx_null_def)
qed

text \<open>The signature of an imported transaction is never checked: on every input, well formed or
  not, the constructor gives the same result at every level of checking.\<close>

theorem transaction_check_ignored: "tx_from_rlp d c = tx_from_rlp d CheckNone"
  by (simp add: tx_from_rlp_def sig_isValid_def cong: prod.case_cong)

text \<open>C38: A transaction that \<open>sign\<close> has signed carries a signature that verifies, under the public
  key it carries, for the hash of its unsigned form.\<close>

theorem transaction_sign_verifies:
  assumes "bilinear lib" "priv < bls12381Modulus" "tx_sign lib priv t = Inr t'"
  shows "\<exists>v h. m_vrs t' = Some v \<and> tx_sha3 (lib_sha3 lib) WithoutSignature t' = Inr (h, t') \<and>
     bls_verify lib (sig_publicKey v) (sig_signature v) h"
  using assms by (rule tx_sign_verifies)

theorem transaction_sign_verifies_witness:
  "\<exists>t' v h. tx_sign toy_lib 5 sample_tx = Inr t' \<and> m_vrs t' = Some v \<and>
     tx_sha3 (lib_sha3 toy_lib) WithoutSignature t' = Inr (h, t') \<and>
     bls_verify toy_lib (sig_publicKey v) (sig_signature v) h"
proof -
  have "tx_rlp sample_tx WithoutSignature = Inr (rlp_enc (Lst (tx_items sample_tx)))"
    by (rule tx_rlp_eq(1)) (simp_all add: item_ok_append [OF item_ok_sample_tx], simp add: sample_tx_def)
  then obtain t' where "tx_sign toy_lib 5 sample_tx = Inr t'"
    by (auto simp: tx_sign_def tx_sha3_def Let_def)
  from this transaction_sign_verifies [OF bilinear_toy _ this] show ?thesis
    by (auto simp: bls12381Modulus_def)
qed

text \<open>The intrinsic gas is the base cost of the kind of transaction plus the price of each zero
  and each non-zero byte of its data.\<close>

theorem base_gas_formula:
  "baseGasRequired creation data es =
     int (if creation then txCreateGas es else txGas es)
     + int (txDataNonZeroGas es) * int (length (filter (\<lambda>b. b \<noteq> 0) data))
     + int (txDataZeroGas es) * int (length (filter (\<lambda>b. b = 0) data))"
  by (simp add: baseGasRequired_def data_gas_eq)

text \<open>Seal items are independent: a stored item is what the accessor reads, and storing it leaves
  the other items, the basic fields and the hash without the seal as they were.\<close>

theorem seal_item_frame:
  assumes "item_ok x"
  shows "get_seal conv d i (setSeal i (rlp_enc x) h) = conv (rlp_enc x) \<and>
    (i \<noteq> j \<and> j < length (m_seal h) \<longrightarrow> get_seal conv d j (setSeal i (rlp_enc x) h) = get_seal conv d j h) \<and>
    header_encode (setSeal i (rlp_enc x) h) WithoutSeal = header_encode h WithoutSeal"
  using assms get_setSeal_other [of i j h conv d] by (simp add: get_setSeal)

theorem seal_item_frame_witness:
  "get_seal (\<lambda>d. readHash d VeryStrict) 0 2 (setSeal 2 (rlp_enc (hash_item (5 :: u256))) header_new)
     = Inr (5 :: u256)"
proof -
  have "item_ok (hash_item (5 :: u256))" by (rule item_ok_hash) simp
  from seal_item_frame [OF this, of "\<lambda>d. readHash d VeryStrict :: rlp_exn + u256" 0 2 header_new 0]
  show ?thesis by (simp del: rlp_enc.simps)
qed

end
