(* ===== verification/StakeSeal.thy ===== *)
theory StakeSeal
  imports BlockHeader Transaction "HOL-Library.Signed_Division"
begin

text \<open>
  The proof-of-stake seal engine, class \<open>Ethash\<close> of libethashseal/Ethash.h and Ethash.cpp,
  and the parts of \<open>SealEngineFace\<close> (libethcore/SealEngine.cpp) it calls: the four seal
  fields, the stake messages and signatures, the difficulty and gas limit rules, the boundary
  that a stake signature's hash must not exceed, block and seal verification, and the search
  for a seal. Arguments of the model: the cryptographic library \<open>lib\<close>, the balance retriever
  and the current time. The seal thread runs to its end inside \<open>generateSeal\<close>; the callback
  \<open>m_onSealGenerated\<close> is the block handed out in the result.
\<close>

section \<open>Chain parameters and errors\<close>

record chain_params =
  minGasLimit :: u256
  maxGasLimit :: u256
  gasLimitBoundDivisor :: u256
  minimumDifficulty :: u256
  difficultyBoundDivisor :: u256
  targetBlockInterval :: u256
  maximumExtraDataSize :: u256
  homesteadForkBlock :: u256
  EIP158ForkBlock :: u256
  constantinopleForkBlock :: u256
  istanbulForkBlock :: u256

definition ChainOperationParams_default :: chain_params where
  "ChainOperationParams_default =
     \<lparr>minGasLimit = 0x1388, maxGasLimit = 0x7fffffffffffffff, gasLimitBoundDivisor = 0x400,
      minimumDifficulty = 0x20000, difficultyBoundDivisor = 0x800, targetBlockInterval = 9,
      maximumExtraDataSize = 1024, homesteadForkBlock = 0, EIP158ForkBlock = 0,
      constantinopleForkBlock = 0, istanbulForkBlock = 2 ^ 63 - 1\<rparr>"

definition scheduleForBlockNumber :: "chain_params \<Rightarrow> u256 \<Rightarrow> evm_schedule" where
  "scheduleForBlockNumber p n =
     (if n \<ge> istanbulForkBlock p then IstanbulSchedule
      else if n \<ge> constantinopleForkBlock p then ConstantinopleSchedule
      else ByzantiumSchedule)"

datatype seal_exn = HeaderExn block_exn | SealRlp rlp_exn | TxExn tx_exn
  | GenesisBlockCannotBeCalculated | DivideByZero | InvalidDifficulty | InvalidGasLimit
  | ExtraDataTooBig | InvalidBlockNonce | OutOfGasIntrinsic | BlockGasLimitReached
  | SealInvalidSignature | InvalidZeroSignatureTransaction

fun liftSeal :: "rlp_exn + 'a \<Rightarrow> seal_exn + 'a" where
  "liftSeal (Inl e) = Inl (SealRlp e)"
| "liftSeal (Inr x) = Inr x"

fun liftHeader :: "block_exn + 'a \<Rightarrow> seal_exn + 'a" where
  "liftHeader (Inl e) = Inl (HeaderExn e)"
| "liftHeader (Inr x) = Inr x"

text \<open>Unsigned division of boost::multiprecision throws on a zero divisor.\<close>

definition divU256 :: "u256 \<Rightarrow> u256 \<Rightarrow> seal_exn + u256" where
  "divU256 a b = (if b = 0 then Inl DivideByZero else Inr (a div b))"

section \<open>Seal fields\<close>

definition PublicKeyField :: nat where "PublicKeyField = 0"
definition StakeModifierField :: nat where "StakeModifierField = 1"
definition StakeSignatureField :: nat where "StakeSignatureField = 2"
definition BlockSignatureField :: nat where "BlockSignatureField = 3"

lemmas seal_field_defs = PublicKeyField_def StakeModifierField_def StakeSignatureField_def
  BlockSignatureField_def

definition publicKey :: "block_header \<Rightarrow> rlp_exn + g2" where
  "publicKey bi = get_seal (\<lambda>d. readPoint d VeryStrict) 0 PublicKeyField bi"
definition stakeSignature :: "block_header \<Rightarrow> rlp_exn + g1" where
  "stakeSignature bi = get_seal (\<lambda>d. readPoint d VeryStrict) 0 StakeSignatureField bi"
definition blockSignature :: "block_header \<Rightarrow> rlp_exn + g1" where
  "blockSignature bi = get_seal (\<lambda>d. readPoint d VeryStrict) 0 BlockSignatureField bi"
definition stakeModifier :: "block_header \<Rightarrow> rlp_exn + u256" where
  "stakeModifier bi = get_seal (\<lambda>d. readHash d VeryStrict) 0 StakeModifierField bi"

text \<open>\<open>rlp(value)\<close> for a hash or a group element.\<close>

definition rlp_hash :: "'a::len word \<Rightarrow> rlp_exn + bytes" where
  "rlp_hash v = bindE (appendHash rlp_stream_new v) stream_out"

definition set_seal_hash :: "nat \<Rightarrow> 'a::len word \<Rightarrow> block_header \<Rightarrow> rlp_exn + block_header" where
  "set_seal_hash field v bi = bindE (rlp_hash v) (\<lambda>b. Inr (setSeal field b bi))"

definition setPublicKey :: "block_header \<Rightarrow> g2 \<Rightarrow> rlp_exn + block_header" where
  "setPublicKey bi v = set_seal_hash PublicKeyField v bi"
definition setStakeModifier :: "block_header \<Rightarrow> u256 \<Rightarrow> rlp_exn + block_header" where
  "setStakeModifier bi v = set_seal_hash StakeModifierField v bi"
definition setStakeSignature :: "block_header \<Rightarrow> g1 \<Rightarrow> rlp_exn + block_header" where
  "setStakeSignature bi v = set_seal_hash StakeSignatureField v bi"
definition setBlockSignature :: "block_header \<Rightarrow> g1 \<Rightarrow> rlp_exn + block_header" where
  "setBlockSignature bi v = set_seal_hash BlockSignatureField v bi"

text \<open>\<open>sealRLP\<close>: the second field is the encoding of an 8 byte nonce.\<close>

definition sealRLP :: "rlp_exn + bytes" where
  "sealRLP =
     bindE (rlp_hash (0 :: g2)) (\<lambda>a. bindE (rlp_hash (0 :: u64)) (\<lambda>b.
     bindE (rlp_hash (0 :: g1)) (\<lambda>c. bindE (rlp_hash (0 :: g1)) (\<lambda>d. Inr (a @ b @ c @ d)))))"

section \<open>Stake messages and signatures\<close>

definition computeChildStakeModifier :: "crypto_lib \<Rightarrow> u256 \<Rightarrow> g2 \<Rightarrow> g1 \<Rightarrow> u256" where
  "computeChildStakeModifier lib parentStakeModifier minterPubKey minterStakeSig =
     lib_sha3 lib (hash_bytes parentStakeModifier @ hash_bytes minterPubKey @ hash_bytes minterStakeSig)"

definition computeStakeMessage :: "crypto_lib \<Rightarrow> u256 \<Rightarrow> u256 \<Rightarrow> u256" where
  "computeStakeMessage lib modifier timestamp =
     lib_sha3 lib (hash_bytes modifier @ hash_bytes timestamp)"

definition computeStakeSignature :: "crypto_lib \<Rightarrow> u256 \<Rightarrow> u256 \<Rightarrow> g1" where
  "computeStakeSignature lib message secret = bls_sign lib secret message"

definition verifyStakeSignature :: "crypto_lib \<Rightarrow> g2 \<Rightarrow> g1 \<Rightarrow> u256 \<Rightarrow> bool" where
  "verifyStakeSignature lib pk signature message = bls_verify lib pk signature message"

definition computeStakeSignatureHash :: "crypto_lib \<Rightarrow> g1 \<Rightarrow> u256" where
  "computeStakeSignatureHash lib s = lib_sha3 lib (hash_bytes s)"

text \<open>The conversion of an \<open>int64_t\<close> to \<open>u256\<close>.\<close>

definition ts256 :: "u64 \<Rightarrow> u256" where "ts256 t = of_int (sint t)"

section \<open>Difficulty, gas limit and boundary\<close>

definition calculateDifficulty_ts ::
    "chain_params \<Rightarrow> block_header \<Rightarrow> int \<Rightarrow> int \<Rightarrow> seal_exn + u256" where
  "calculateDifficulty_ts p bi parentTimeStamp parentDifficulty =
     (if m_number bi = 0 then Inl GenesisBlockCannotBeCalculated
      else if difficultyBoundDivisor p = 0 then Inl DivideByZero
      else
        let timestampDiff = sint (m_timestamp bi) - parentTimeStamp;
            adjFactor = max (uint (targetBlockInterval p) - timestampDiff) (- 99 * 128);
            target = parentDifficulty
              + (parentDifficulty * adjFactor) sdiv uint (difficultyBoundDivisor p)
        in Inr (of_int (min (max (uint (minimumDifficulty p)) target) (2 ^ 256 - 1))))"

definition calculateDifficulty ::
    "chain_params \<Rightarrow> block_header \<Rightarrow> block_header \<Rightarrow> seal_exn + u256" where
  "calculateDifficulty p bi parent =
     calculateDifficulty_ts p bi (sint (m_timestamp parent)) (uint (m_difficulty parent))"

definition Invalid256 :: u256 where "Invalid256 = - 1"

definition childGasLimit :: "chain_params \<Rightarrow> block_header \<Rightarrow> u256 \<Rightarrow> seal_exn + u256" where
  "childGasLimit p bi floorTarget =
     (let gasFloorTarget = (if floorTarget = Invalid256 then 3141562 else floorTarget);
          gasLimit = m_gasLimit bi; boundDivisor = gasLimitBoundDivisor p
      in bindE (divU256 gasLimit boundDivisor) (\<lambda>step.
         if gasLimit < gasFloorTarget then Inr (min gasFloorTarget (gasLimit + step - 1))
         else bindE (divU256 (m_gasUsed bi * 6 div 5) boundDivisor) (\<lambda>used.
           Inr (max gasFloorTarget (gasLimit - step + 1 + used)))))"

definition ethash_populateFromParent ::
    "chain_params \<Rightarrow> block_header \<Rightarrow> block_header \<Rightarrow> seal_exn + block_header" where
  "ethash_populateFromParent p bi parent =
     bindE (childGasLimit p parent Invalid256) (\<lambda>g.
       Inr (setGasLimit g (header_populateFromParent parent bi)))"

definition boundary :: "block_header \<Rightarrow> u256 \<Rightarrow> u256" where
  "boundary bi balance =
     (let d = m_difficulty bi in
      if d \<noteq> 0 then of_nat ((2 ^ 256 div unat d) * unat balance) else 0)"

type_synonym block_no = "32 word"
type_synonym balance_retriever = "u160 \<Rightarrow> block_no \<Rightarrow> u256"

definition getAgedBalance :: "u160 \<Rightarrow> block_no \<Rightarrow> balance_retriever \<Rightarrow> u256" where
  "getAgedBalance a bn balanceRetriever =
     balanceRetriever a (if bn > 255 then bn - 255 else 0)"

section \<open>Verification\<close>

text \<open>The result carries the block header, whose memo the hash may have filled.\<close>

definition verifySeal ::
    "crypto_lib \<Rightarrow> block_header \<Rightarrow> block_header \<Rightarrow> balance_retriever
      \<Rightarrow> rlp_exn + (bool \<times> block_header)" where
  "verifySeal lib bi parent balanceRetriever =
     bindE (stakeSignature bi) (\<lambda>stakeSig.
     bindE (publicKey bi) (\<lambda>pk.
     bindE (blockSignature bi) (\<lambda>blockSig.
     bindE (header_hash (lib_sha3 lib) WithoutSeal bi) (\<lambda>(h, bi').
       let blockSignatureVerified = bls_verify lib pk blockSig h in
       if header_valid parent
       then if m_number bi \<noteq> m_number parent + 1 then Inr (False, bi')
         else let minterBalance = getAgedBalance (publicToAddress lib pk)
                                    (ucast (m_number parent)) balanceRetriever;
                  meetsBounds = hash_less_eq (computeStakeSignatureHash lib stakeSig)
                                  (boundary bi minterBalance) in
         bindE (stakeModifier bi) (\<lambda>modifier.
         bindE (stakeModifier parent) (\<lambda>parentModifier.
           let modifierCorrect = (modifier = computeChildStakeModifier lib parentModifier pk stakeSig);
               stakeSignatureVerified = verifyStakeSignature lib pk stakeSig
                 (computeStakeMessage lib parentModifier (ts256 (m_timestamp bi)))
           in Inr (meetsBounds \<and> modifierCorrect \<and> blockSignatureVerified \<and> stakeSignatureVerified,
                   bi')))
       else Inr (blockSignatureVerified, bi')))))"

definition ethash_verify ::
    "crypto_lib \<Rightarrow> chain_params \<Rightarrow> Strictness \<Rightarrow> block_header \<Rightarrow> balance_retriever
      \<Rightarrow> block_header \<Rightarrow> bytes \<Rightarrow> seal_exn + (block_header \<times> block_header)" where
  "ethash_verify lib p s bi balanceRetriever parent block =
     bindE (liftHeader (header_verify (lib_sha3 lib) s parent block bi)) (\<lambda>parent'.
     bindE (if s \<noteq> CheckNothingNew
            then bindE (throw_if (m_difficulty bi < minimumDifficulty p) InvalidDifficulty) (\<lambda>_.
                 bindE (throw_if (m_gasLimit bi < minGasLimit p) InvalidGasLimit) (\<lambda>_.
                 bindE (throw_if (m_gasLimit bi > maxGasLimit p) InvalidGasLimit) (\<lambda>_.
                   throw_if (m_number bi \<noteq> 0 \<and> length (m_extraData bi) > unat (maximumExtraDataSize p))
                     ExtraDataTooBig)))
            else Inr ()) (\<lambda>_.
     bindE (if header_valid parent
            then bindE (calculateDifficulty p bi parent) (\<lambda>expected.
                 bindE (throw_if (m_difficulty bi \<noteq> expected) InvalidDifficulty) (\<lambda>_.
                 bindE (divU256 (m_gasLimit parent) (gasLimitBoundDivisor p)) (\<lambda>step.
                   throw_if (m_gasLimit bi < minGasLimit p \<or> m_gasLimit bi > maxGasLimit p
                      \<or> m_gasLimit bi \<le> m_gasLimit parent - step
                      \<or> m_gasLimit bi \<ge> m_gasLimit parent + step) InvalidGasLimit)))
            else Inr ()) (\<lambda>_.
     if (s = CheckEverything \<or> s = QuickNonce) \<and> m_parentHash bi \<noteq> 0
     then bindE (liftSeal (verifySeal lib bi parent' balanceRetriever)) (\<lambda>(ok, bi').
          bindE (throw_if (\<not> ok) InvalidBlockNonce) (\<lambda>_. Inr (bi', parent')))
     else Inr (bi, parent'))))"

text \<open>Transaction checks: \<open>SealEngineFace::verifyTransaction\<close>, then Ethash's. The requirement
  bits are \<open>TransactionBasic\<close> and \<open>TransactionSignatures\<close>.\<close>

definition TransactionBasic :: nat where "TransactionBasic = 8"
definition TransactionSignatures :: nat where "TransactionSignatures = 32"

definition face_verifyTransaction ::
    "chain_params \<Rightarrow> nat \<Rightarrow> tx_base \<Rightarrow> block_header \<Rightarrow> seal_exn + unit" where
  "face_verifyTransaction p ir t header =
     bindE (throw_if (has_flag ir TransactionSignatures \<and> ts256 (m_number header) < EIP158ForkBlock p)
              SealInvalidSignature) (\<lambda>_.
     bindE (throw_if (has_flag ir TransactionSignatures
              \<and> ts256 (m_number header) < constantinopleForkBlock p \<and> hasZeroSignature t)
              SealInvalidSignature) (\<lambda>_.
     bindE (throw_if (has_flag ir TransactionBasic
              \<and> ts256 (m_number header) \<ge> constantinopleForkBlock p \<and> hasZeroSignature t
              \<and> (m_value t \<noteq> 0 \<or> m_gasPrice t \<noteq> 0 \<or> m_nonce t \<noteq> 0))
              InvalidZeroSignatureTransaction) (\<lambda>_.
       if ts256 (m_number header) \<ge> homesteadForkBlock p \<and> has_flag ir TransactionSignatures
          \<and> hasSignature t
       then (case checkLowS t of Inl e \<Rightarrow> Inl (TxExn e) | Inr u \<Rightarrow> Inr u)
       else Inr ())))"

definition ethash_verifyTransaction ::
    "chain_params \<Rightarrow> nat \<Rightarrow> tx_base \<Rightarrow> block_header \<Rightarrow> u256 \<Rightarrow> seal_exn + unit" where
  "ethash_verifyTransaction p ir t header startGasUsed =
     bindE (face_verifyTransaction p ir t header) (\<lambda>_.
     bindE (throw_if (has_flag ir TransactionBasic \<and>
              baseGasRequired (isCreation t) (m_data t)
                (scheduleForBlockNumber p (ts256 (m_number header))) > uint (m_gas t))
              OutOfGasIntrinsic) (\<lambda>_.
       throw_if (uint startGasUsed + uint (m_gas t) > uint (m_gasLimit header)) BlockGasLimitReached))"

section \<open>Generating a seal\<close>

record ethash =
  m_keyPairs :: "key_pair list"
  m_sealing :: block_header
  m_generating :: bool

text \<open>\<open>balanceMap.insert\<close> keeps an entry that is already there.\<close>

fun balance_map :: "(u160 \<Rightarrow> u256) \<Rightarrow> key_pair list \<Rightarrow> (u160 \<rightharpoonup> u256) \<Rightarrow> (u160 \<rightharpoonup> u256)" where
  "balance_map bal [] m = m"
| "balance_map bal (kp # kps) m =
     balance_map bal kps
       (if kp_address kp \<in> dom m then m else m(kp_address kp \<mapsto> bal (kp_address kp)))"

text \<open>The seal for one key pair: set the fields, sign, and check the bound before all that.\<close>

definition seal_with ::
    "crypto_lib \<Rightarrow> u256 \<Rightarrow> key_pair \<Rightarrow> g1 \<Rightarrow> block_header \<Rightarrow> rlp_exn + block_header" where
  "seal_with lib parentModifier kp r sealing =
     bindE (setStakeModifier sealing
              (computeChildStakeModifier lib parentModifier (kp_public kp) r)) (\<lambda>b.
     bindE (setPublicKey b (kp_public kp)) (\<lambda>b.
     bindE (setStakeSignature b r) (\<lambda>b.
     bindE (header_hash (lib_sha3 lib) WithoutSeal b) (\<lambda>(h, b).
       setBlockSignature b (bls_sign lib (kp_secret kp) h)))))"

text \<open>The inner loop over the key pairs; \<open>None\<close> if no key pair meets the bound.\<close>

fun try_keys ::
    "crypto_lib \<Rightarrow> (u160 \<rightharpoonup> u256) \<Rightarrow> block_header \<Rightarrow> u64 \<Rightarrow> key_pair list \<Rightarrow> block_header
      \<Rightarrow> seal_exn + block_header option" where
  "try_keys lib balanceMap parent ts [] sealing = Inr None"
| "try_keys lib balanceMap parent ts (kp # kps) sealing =
     (let balance = (case balanceMap (kp_address kp) of Some b \<Rightarrow> b | None \<Rightarrow> 0) in
      if balance \<noteq> 0
      then bindE (liftSeal (stakeModifier parent)) (\<lambda>modifier.
        let r = computeStakeSignature lib (computeStakeMessage lib modifier (ts256 ts)) (kp_secret kp) in
        if hash_less_eq (computeStakeSignatureHash lib r) (boundary sealing balance)
        then bindE (liftSeal (seal_with lib modifier kp r sealing)) (\<lambda>b. Inr (Some b))
        else try_keys lib balanceMap parent ts kps sealing)
      else try_keys lib balanceMap parent ts kps sealing)"

text \<open>The outer loop over the timestamps \<open>currentTime\<close> and \<open>currentTime - 1\<close>.\<close>

fun try_times ::
    "crypto_lib \<Rightarrow> chain_params \<Rightarrow> (u160 \<rightharpoonup> u256) \<Rightarrow> block_header \<Rightarrow> key_pair list \<Rightarrow> u64 list
      \<Rightarrow> block_header \<Rightarrow> seal_exn + (block_header \<times> bool)" where
  "try_times lib p balanceMap parent kps [] sealing = Inr (sealing, False)"
| "try_times lib p balanceMap parent kps (ts # tss) sealing =
     (let s1 = setTimestamp ts sealing in
      bindE (calculateDifficulty p s1 parent) (\<lambda>d.
        let s2 = setDifficulty d s1 in
        bindE (try_keys lib balanceMap parent ts kps s2) (\<lambda>r.
          case r of Some b \<Rightarrow> Inr (b, True)
          | None \<Rightarrow> try_times lib p balanceMap parent kps tss s2)))"

definition generateSeal ::
    "crypto_lib \<Rightarrow> chain_params \<Rightarrow> ethash \<Rightarrow> block_header \<Rightarrow> block_header \<Rightarrow> balance_retriever
      \<Rightarrow> u64 \<Rightarrow> seal_exn + (ethash \<times> bytes option)" where
  "generateSeal lib p e bi parent balanceRetriever currentTime =
     bindE (liftSeal (if m_generating e
              then bindE (header_hash (lib_sha3 lib) WithoutSeal (m_sealing e)) (\<lambda>(h1, s').
                   bindE (header_hash (lib_sha3 lib) WithoutSeal bi) (\<lambda>(h2, bi').
                     Inr (h1 \<noteq> h2, s', bi')))
              else Inr (True, m_sealing e, bi))) (\<lambda>(go, s', bi').
     if \<not> go then Inr (e\<lparr>m_sealing := s'\<rparr>, None)
     else
       let balanceMap = balance_map (\<lambda>a. getAgedBalance a (ucast (m_number parent)) balanceRetriever)
                          (m_keyPairs e) Map.empty in
       bindE (try_times lib p balanceMap parent (m_keyPairs e) [currentTime, currentTime - 1] bi')
         (\<lambda>(b, found).
           if found
           then bindE (liftSeal (header_encode b WithSeal)) (\<lambda>out.
             Inr (e\<lparr>m_sealing := b, m_generating := False\<rparr>, Some out))
           else Inr (e\<lparr>m_sealing := b, m_generating := True\<rparr>, None)))"

end
