(* ===== verification/StakeProofs.thy ===== *)
theory StakeProofs
  imports StakeSeal
begin

text \<open>
  Lemmas on the seal engine of StakeSeal: the seal fields read back what was set, a generated
  seal passes \<open>verifySeal\<close>, the difficulty rule (lower bound, monotonicity in the timestamp),
  the boundary (exact and monotone below the difficulty, wrapping above it), the child gas
  limit lies in the range that \<open>verify\<close> accepts, and what an accepted block satisfies.
\<close>

section \<open>Reading the seal fields back\<close>

lemma liftSeal_Inr [exn_simps]: "liftSeal m = Inr x \<longleftrightarrow> m = Inr x"
  by (cases m) auto

lemma liftHeader_Inr [exn_simps]: "liftHeader m = Inr x \<longleftrightarrow> m = Inr x"
  by (cases m) auto

lemma rlp_hash_eq:
  "LENGTH('a::len) \<le> 2 ^ 32 \<Longrightarrow> rlp_hash (v :: 'a word) = Inr (rlp_enc (hash_item v))"
  using stream_out_write [OF item_ok_fits [OF item_ok_hash, of v]]
  by (simp add: rlp_hash_def appendHash_def hash_item_def)

lemma set_seal_hash_eq:
  "LENGTH('a::len) \<le> 2 ^ 32 \<Longrightarrow>
     set_seal_hash field (v :: 'a word) bi = Inr (setSeal field (rlp_enc (hash_item v)) bi)"
  by (simp add: set_seal_hash_def rlp_hash_eq)

lemma m_seal_setSeal_length: "length (m_seal (setSeal i v h)) = max (Suc i) (length (m_seal h))"
  by (simp add: setSeal_def noteDirty_def Let_def max_def)

lemma get_seal_set:
  "LENGTH('a::len) \<le> 2 ^ 32 \<Longrightarrow> get_seal conv dflt i (setSeal i (rlp_enc (hash_item (v :: 'a word))) h) =
     conv (rlp_enc (hash_item v))"
  by (rule get_setSeal [OF item_ok_hash])

lemma header_hash_dirty:
  "m_hashWithout h = 0 \<Longrightarrow> header_hash sha3 WithoutSeal h =
     bindE (header_encode h WithoutSeal) (\<lambda>out. Inr (sha3 out, h\<lparr>m_hashWithout := sha3 out\<rparr>))"
  by (simp add: header_hash_def Let_def)

lemma setSeal_memo: "setSeal i v (h\<lparr>m_hashWithout := x\<rparr>) = setSeal i v h"
  by (simp add: setSeal_def noteDirty_def Let_def)

lemma seal_with_eq:
  assumes "seal_with lib modifier kp r sealing = Inr b"
  shows "\<exists>out. header_encode sealing WithoutSeal = Inr out \<and>
     b = setSeal 3 (rlp_enc (hash_item (bls_sign lib (kp_secret kp) (lib_sha3 lib out))))
       (setSeal 2 (rlp_enc (hash_item r)) (setSeal 0 (rlp_enc (hash_item (kp_public kp)))
         (setSeal 1 (rlp_enc (hash_item (computeChildStakeModifier lib modifier (kp_public kp) r))) sealing)))"
  using assms
  by (auto simp add: seal_with_def setStakeModifier_def setPublicKey_def setStakeSignature_def
      setBlockSignature_def set_seal_hash_eq header_hash_dirty seal_field_defs bindE_assoc exn_simps setSeal_memo
      simp del: rlp_enc.simps)

lemma seal_with_fields:
  assumes "seal_with lib modifier kp r sealing = Inr b"
  shows "publicKey b = Inr (kp_public kp)" "stakeSignature b = Inr r"
    "stakeModifier b = Inr (computeChildStakeModifier lib modifier (kp_public kp) r)"
    "\<exists>out. header_encode b WithoutSeal = Inr out \<and>
       blockSignature b = Inr (bls_sign lib (kp_secret kp) (lib_sha3 lib out))"
    "m_hashWithout b = 0" "m_timestamp b = m_timestamp sealing" "m_number b = m_number sealing"
    "m_difficulty b = m_difficulty sealing" "m_hash b = 0" "m_parentHash b = m_parentHash sealing"
proof -
  obtain out where out: "header_encode sealing WithoutSeal = Inr out"
    and b: "b = setSeal 3 (rlp_enc (hash_item (bls_sign lib (kp_secret kp) (lib_sha3 lib out))))
       (setSeal 2 (rlp_enc (hash_item r)) (setSeal 0 (rlp_enc (hash_item (kp_public kp)))
         (setSeal 1 (rlp_enc (hash_item (computeChildStakeModifier lib modifier (kp_public kp) r))) sealing)))"
    using seal_with_eq [OF assms] by blast
  note set = get_seal_set get_setSeal_other m_seal_setSeal_length seal_field_defs
  show "publicKey b = Inr (kp_public kp)" by (simp add: publicKey_def b set del: rlp_enc.simps)
  show "stakeSignature b = Inr r" by (simp add: stakeSignature_def b set del: rlp_enc.simps)
  show "stakeModifier b = Inr (computeChildStakeModifier lib modifier (kp_public kp) r)"
    by (simp add: stakeModifier_def b set del: rlp_enc.simps)
  have "blockSignature b = Inr (bls_sign lib (kp_secret kp) (lib_sha3 lib out))"
    by (simp add: blockSignature_def b set del: rlp_enc.simps)
  moreover have "header_encode b WithoutSeal = Inr out" by (simp add: b out)
  ultimately show "\<exists>out. header_encode b WithoutSeal = Inr out \<and>
       blockSignature b = Inr (bls_sign lib (kp_secret kp) (lib_sha3 lib out))" by blast
qed (use seal_with_eq [OF assms] in \<open>auto simp del: rlp_enc.simps\<close>)

text \<open>A key pair the client derived from a usable secret.\<close>

definition good_pair :: "crypto_lib \<Rightarrow> key_pair \<Rightarrow> bool" where
  "good_pair lib kp \<longleftrightarrow> kp = key_pair_make lib (kp_secret kp) \<and> kp_secret kp < bls12381Modulus
     \<and> kp_public kp \<noteq> 0"

lemma good_pair_facts:
  "good_pair lib kp \<Longrightarrow> kp_public kp = toPublic lib (kp_secret kp)"
  "good_pair lib kp \<Longrightarrow> kp_address kp = publicToAddress lib (kp_public kp)"
  by (cases kp; simp add: good_pair_def key_pair_make_def)+

lemma boundary_cong: "m_difficulty a = m_difficulty b \<Longrightarrow> boundary a x = boundary b x"
  by (simp add: boundary_def)

lemma seal_with_verifies:
  assumes lib: "bilinear lib" and kp: "good_pair lib kp"
    and r: "r = computeStakeSignature lib (computeStakeMessage lib modifier
              (ts256 (m_timestamp sealing))) (kp_secret kp)"
    and s: "seal_with lib modifier kp r sealing = Inr b"
    and parent: "stakeModifier parent = Inr modifier" "header_valid parent"
    and number: "m_number sealing = m_number parent + 1"
    and bound: "hash_less_eq (computeStakeSignatureHash lib r)
       (boundary sealing (getAgedBalance (kp_address kp) (ucast (m_number parent)) balance))"
  shows "\<exists>b'. verifySeal lib b parent balance = Inr (True, b')"
proof -
  note f = seal_with_fields [OF s]
  from f(4) obtain out where out: "header_encode b WithoutSeal = Inr out"
    "blockSignature b = Inr (bls_sign lib (kp_secret kp) (lib_sha3 lib out))" by blast
  have sec: "kp_secret kp < bls12381Modulus" using kp by (simp add: good_pair_def)
  have bs: "bls_verify lib (kp_public kp) (bls_sign lib (kp_secret kp) h) h" for h
    using bls_sign_verify [OF lib sec] by (simp add: good_pair_facts(1) [OF kp])
  show ?thesis
    using f out bs bound [unfolded r] parent number good_pair_facts(2) [OF kp] boundary_cong [OF f(8)]
    by (simp add: r verifySeal_def header_hash_dirty Let_def verifyStakeSignature_def computeStakeSignature_def)
qed

text \<open>The balance that the search uses is the aged balance of the key pair's address.\<close>

lemma balance_map_eq:
  "(\<forall>a v. m a = Some v \<longrightarrow> v = bal a) \<Longrightarrow> a \<in> dom m \<union> kp_address ` set kps \<Longrightarrow>
     balance_map bal kps m a = Some (bal a)"
proof (induction bal kps m rule: balance_map.induct)
  case (2 bal kp kps m)
  let ?m = "if kp_address kp \<in> dom m then m else m(kp_address kp \<mapsto> bal (kp_address kp))"
  have "\<forall>a v. ?m a = Some v \<longrightarrow> v = bal a" using "2.prems"(1) by simp
  moreover have "a \<in> dom ?m \<union> kp_address ` set kps" using "2.prems"(2) by auto
  ultimately have "balance_map bal kps ?m a = Some (bal a)" by (rule "2.IH")
  then show ?case by simp
qed auto

lemma try_keys_Some:
  assumes "try_keys lib bm parent ts kps sealing = Inr (Some b)"
  shows "\<exists>kp modifier balance. kp \<in> set kps \<and> stakeModifier parent = Inr modifier \<and>
     balance = (case bm (kp_address kp) of Some b \<Rightarrow> b | None \<Rightarrow> 0) \<and> balance \<noteq> 0 \<and>
     (let r = computeStakeSignature lib (computeStakeMessage lib modifier (ts256 ts)) (kp_secret kp) in
      hash_less_eq (computeStakeSignatureHash lib r) (boundary sealing balance) \<and>
      seal_with lib modifier kp r sealing = Inr b)"
  using assms
proof (induction lib bm parent ts kps sealing rule: try_keys.induct)
  case (2 lib bm parent ts kp kps sealing)
  let ?bal = "case bm (kp_address kp) of Some b \<Rightarrow> b | None \<Rightarrow> 0"
  show ?case
  proof (cases "?bal = 0")
    case True
    then show ?thesis using 2 by (simp add: Let_def) blast
  next
    case False
    then obtain modifier where m: "stakeModifier parent = Inr modifier"
      using "2.prems" by (auto simp: Let_def exn_simps)
    let ?r = "computeStakeSignature lib (computeStakeMessage lib modifier (ts256 ts)) (kp_secret kp)"
    show ?thesis
    proof (cases "hash_less_eq (computeStakeSignatureHash lib ?r) (boundary sealing ?bal)")
      case True
      then have "seal_with lib modifier kp ?r sealing = Inr b"
        using "2.prems" m False by (auto simp: Let_def exn_simps)
      then show ?thesis using m False True by (auto simp: Let_def)
    next
      case False
      then show ?thesis using 2 m by (simp add: Let_def split: if_splits) blast+
    qed
  qed
qed simp

lemma try_times_found:
  assumes "try_times lib p bm parent kps tss sealing = Inr (b, True)"
  shows "\<exists>ts s2 d. ts \<in> set tss \<and> try_keys lib bm parent ts kps s2 = Inr (Some b) \<and>
     m_timestamp s2 = ts \<and> m_number s2 = m_number sealing \<and> m_difficulty s2 = d \<and>
     m_parentHash s2 = m_parentHash sealing \<and> calculateDifficulty p s2 parent = Inr d"
  using assms
proof (induction lib p bm parent kps tss sealing rule: try_times.induct)
  case (2 lib p bm parent kps ts tss sealing)
  let ?s1 = "setTimestamp ts sealing"
  obtain d r where d: "calculateDifficulty p ?s1 parent = Inr d"
    and r: "try_keys lib bm parent ts kps (setDifficulty d ?s1) = Inr r"
    and rest: "(case r of Some b \<Rightarrow> Inr (b, True)
          | None \<Rightarrow> try_times lib p bm parent kps tss (setDifficulty d ?s1)) = Inr (b, True)"
    using "2.prems" by (auto simp: Let_def exn_simps)
  have same: "calculateDifficulty p (setDifficulty d ?s1) parent = calculateDifficulty p ?s1 parent"
    by (simp add: calculateDifficulty_def calculateDifficulty_ts_def setDifficulty_def noteDirty_def)
  have basic: "m_number (setDifficulty d ?s1) = m_number sealing"
    "m_parentHash (setDifficulty d ?s1) = m_parentHash sealing"
    "m_timestamp (setDifficulty d ?s1) = ts" "m_difficulty (setDifficulty d ?s1) = d"
    by (simp_all add: setDifficulty_def setTimestamp_def noteDirty_def)
  show ?case
  proof (cases r)
    case None
    then have "\<exists>ts' s2 d'. ts' \<in> set tss \<and> try_keys lib bm parent ts' kps s2 = Inr (Some b) \<and>
        m_timestamp s2 = ts' \<and> m_number s2 = m_number (setDifficulty d ?s1) \<and> m_difficulty s2 = d' \<and>
        m_parentHash s2 = m_parentHash (setDifficulty d ?s1) \<and> calculateDifficulty p s2 parent = Inr d'"
      using "2.IH" [OF refl d refl r] rest by simp
    then show ?thesis using basic by (metis list.set_intros(2))
  next
    case (Some b')
    then show ?thesis using rest r d same basic
      by (intro exI [of _ ts] exI [of _ "setDifficulty d ?s1"] exI [of _ d]) simp
  qed
qed simp

definition gen_balances :: "balance_retriever \<Rightarrow> block_header \<Rightarrow> key_pair list \<Rightarrow> (u160 \<rightharpoonup> u256)" where
  "gen_balances balance parent kps =
     balance_map (\<lambda>a. getAgedBalance a (ucast (m_number parent)) balance) kps Map.empty"

lemma generateSeal_found:
  assumes "generateSeal lib p e bi parent balance now = Inr (e', Some out)"
  shows "\<exists>s. m_number s = m_number bi \<and> m_parentHash s = m_parentHash bi \<and>
     try_times lib p (gen_balances balance parent (m_keyPairs e)) parent (m_keyPairs e) [now, now - 1] s
       = Inr (m_sealing e', True) \<and> header_encode (m_sealing e') WithSeal = Inr out"
proof -
  obtain go s' bi' where g: "(if m_generating e
              then bindE (header_hash (lib_sha3 lib) WithoutSeal (m_sealing e)) (\<lambda>(h1, s').
                   bindE (header_hash (lib_sha3 lib) WithoutSeal bi) (\<lambda>(h2, bi').
                     Inr (h1 \<noteq> h2, s', bi')))
              else Inr (True, m_sealing e, bi)) = Inr (go, s', bi')"
    using assms by (auto simp: generateSeal_def exn_simps)
  have basic: "m_number bi' = m_number bi" "m_parentHash bi' = m_parentHash bi"
    using g by (auto simp: exn_simps header_hash_def Let_def split: if_splits)
  have run: "liftSeal (if m_generating e
              then bindE (header_hash (lib_sha3 lib) WithoutSeal (m_sealing e)) (\<lambda>(h1, s').
                   bindE (header_hash (lib_sha3 lib) WithoutSeal bi) (\<lambda>(h2, bi').
                     Inr (h1 \<noteq> h2, s', bi')))
              else Inr (True, m_sealing e, bi)) = Inr (go, s', bi')"
    by (simp only: g liftSeal.simps)
  have "go" using assms unfolding generateSeal_def run by (auto split: if_splits)
  then obtain b where "try_times lib p (gen_balances balance parent (m_keyPairs e)) parent (m_keyPairs e)
        [now, now - 1] bi' = Inr (b, True)"
      "header_encode b WithSeal = Inr out" "m_sealing e' = b"
    using assms unfolding generateSeal_def run by (auto simp: Let_def gen_balances_def exn_simps split: if_splits)
  then show ?thesis using basic by blast
qed

lemma gen_balances_eq:
  "kp \<in> set kps \<Longrightarrow> gen_balances balance parent kps (kp_address kp) =
     Some (getAgedBalance (kp_address kp) (ucast (m_number parent)) balance)"
  unfolding gen_balances_def by (rule balance_map_eq) auto

lemma generateSeal_sealed:
  assumes "generateSeal lib p e bi parent balance now = Inr (e', Some out)"
  shows "\<exists>ts s kp modifier r d. ts \<in> {now, now - 1} \<and> kp \<in> set (m_keyPairs e) \<and>
     m_timestamp s = ts \<and> m_number s = m_number bi \<and> m_difficulty s = d \<and>
     m_parentHash s = m_parentHash bi \<and>
     calculateDifficulty p s parent = Inr d \<and> stakeModifier parent = Inr modifier \<and>
     r = computeStakeSignature lib (computeStakeMessage lib modifier (ts256 ts)) (kp_secret kp) \<and>
     hash_less_eq (computeStakeSignatureHash lib r)
       (boundary s (getAgedBalance (kp_address kp) (ucast (m_number parent)) balance)) \<and>
     seal_with lib modifier kp r s = Inr (m_sealing e')"
proof -
  obtain s0 where s0: "m_number s0 = m_number bi" "m_parentHash s0 = m_parentHash bi"
    and run: "try_times lib p (gen_balances balance parent (m_keyPairs e)) parent (m_keyPairs e)
        [now, now - 1] s0 = Inr (m_sealing e', True)"
    using generateSeal_found [OF assms] by blast
  obtain ts s where ts: "ts \<in> {now, now - 1}"
    and k: "try_keys lib (gen_balances balance parent (m_keyPairs e)) parent ts (m_keyPairs e) s
        = Inr (Some (m_sealing e'))"
    and s: "m_timestamp s = ts" "m_number s = m_number bi" "m_parentHash s = m_parentHash bi"
      "calculateDifficulty p s parent = Inr (m_difficulty s)"
    using try_times_found [OF run] s0 by auto
  obtain kp modifier where kp: "kp \<in> set (m_keyPairs e)" "stakeModifier parent = Inr modifier"
    and r: "let r = computeStakeSignature lib (computeStakeMessage lib modifier (ts256 ts)) (kp_secret kp) in
      hash_less_eq (computeStakeSignatureHash lib r) (boundary s (case gen_balances balance parent (m_keyPairs e) (kp_address kp) of Some b \<Rightarrow> b | None \<Rightarrow> 0)) \<and>
      seal_with lib modifier kp r s = Inr (m_sealing e')"
    using try_keys_Some [OF k] by auto
  show ?thesis
    using ts s kp r [unfolded gen_balances_eq [OF kp(1)]]
    by (intro exI [of _ ts] exI [of _ s] exI [of _ kp] exI [of _ modifier] exI [of _ "m_difficulty s"])
      (simp add: Let_def)
qed

lemma generateSeal_verifySeal:
  assumes lib: "bilinear lib" and kps: "\<forall>kp \<in> set (m_keyPairs e). good_pair lib kp"
    and parent: "header_valid parent" "m_number bi = m_number parent + 1"
    and gen: "generateSeal lib p e bi parent balance now = Inr (e', Some out)"
  shows "\<exists>b'. verifySeal lib (m_sealing e') parent balance = Inr (True, b')"
proof -
  obtain ts s kp modifier r where f: "kp \<in> set (m_keyPairs e)" "m_timestamp s = ts" "m_number s = m_number bi"
     "stakeModifier parent = Inr modifier"
     "r = computeStakeSignature lib (computeStakeMessage lib modifier (ts256 ts)) (kp_secret kp)"
     "hash_less_eq (computeStakeSignatureHash lib r)
       (boundary s (getAgedBalance (kp_address kp) (ucast (m_number parent)) balance))"
     "seal_with lib modifier kp r s = Inr (m_sealing e')"
    using generateSeal_sealed [OF gen] by blast
  show ?thesis
    by (rule seal_with_verifies [OF lib _ f(5) [folded f(2)] f(7) f(4) parent(1) _ f(6)])
      (use kps f parent in auto)
qed

lemma generateSeal_timestamp:
  assumes "generateSeal lib p e bi parent balance now = Inr (e', Some out)"
  shows "m_timestamp (m_sealing e') \<in> {now, now - 1}"
    "calculateDifficulty p (m_sealing e') parent = Inr (m_difficulty (m_sealing e'))"
proof -
  obtain ts s kp modifier r where f: "ts \<in> {now, now - 1}" "m_timestamp s = ts" "m_number s = m_number bi"
    "calculateDifficulty p s parent = Inr (m_difficulty s)" "seal_with lib modifier kp r s = Inr (m_sealing e')"
    using generateSeal_sealed [OF assms] by blast
  note g = seal_with_fields [OF f(5)]
  show "m_timestamp (m_sealing e') \<in> {now, now - 1}" using f g by simp
  show "calculateDifficulty p (m_sealing e') parent = Inr (m_difficulty (m_sealing e'))"
  proof -
    have "calculateDifficulty p (m_sealing e') parent = calculateDifficulty p s parent"
      by (simp add: calculateDifficulty_def calculateDifficulty_ts_def g(6,7))
    then show ?thesis using f(4) g(8) by simp
  qed
qed

section \<open>Difficulty\<close>

lemma uint_clip:
  assumes "0 \<le> (x :: int)"
  shows "uint (of_int (min x (2 ^ 256 - 1)) :: u256) = min x (2 ^ 256 - 1)"
  using assms by (simp add: uint_word_of_int min_def)

lemma calculateDifficulty_uint:
  assumes "calculateDifficulty p bi parent = Inr d"
  shows "uint d = min (max (uint (minimumDifficulty p)) (uint (m_difficulty parent) +
     (uint (m_difficulty parent) *
       max (uint (targetBlockInterval p) - (sint (m_timestamp bi) - sint (m_timestamp parent))) (- 99 * 128))
      sdiv uint (difficultyBoundDivisor p))) (2 ^ 256 - 1)"
proof -
  have "0 \<le> max (uint (minimumDifficulty p)) x" for x by (simp add: le_max_iff_disj)
  from uint_clip [OF this] show ?thesis
    using assms by (auto simp: calculateDifficulty_def calculateDifficulty_ts_def Let_def split: if_splits)
qed

lemma calculateDifficulty_minimum:
  assumes "calculateDifficulty p bi parent = Inr d"
  shows "minimumDifficulty p \<le> d"
proof -
  have "uint (minimumDifficulty p) \<le> 2 ^ 256 - 1" using uint_bounded [of "minimumDifficulty p"] by simp
  then have "uint (minimumDifficulty p) \<le> uint d"
    unfolding calculateDifficulty_uint [OF assms] by simp
  then show ?thesis by (simp add: word_le_def)
qed

lemma sdiv_mono:
  assumes "(a :: int) \<le> b" "0 < c"
  shows "a sdiv c \<le> b sdiv c"
proof -
  have eq: "x sdiv c = (if 0 \<le> x then x div c else - ((- x) div c))" for x
    using assms(2) by (cases "x = 0") (auto simp: signed_divide_int_def sgn_if)
  show ?thesis
  proof (cases "0 \<le> a \<or> b < 0")
    case True
    then show ?thesis using assms unfolding eq by (auto intro!: zdiv_mono1)
  next
    case False
    then have "0 \<le> (- a) div c" "0 \<le> b div c" using assms by (auto intro: div_int_pos_iff [THEN iffD2])
    then show ?thesis using False unfolding eq by auto
  qed
qed

lemma calculateDifficulty_later:
  assumes "calculateDifficulty p a parent = Inr d" "calculateDifficulty p b parent = Inr d'"
    and "sint (m_timestamp a) \<le> sint (m_timestamp b)"
  shows "d' \<le> d"
proof -
  let ?D = "uint (m_difficulty parent)" let ?c = "uint (difficultyBoundDivisor p)"
  let ?adj = "\<lambda>x. max (uint (targetBlockInterval p) - (sint (m_timestamp x) - sint (m_timestamp parent))) (- 99 * 128)"
  have "difficultyBoundDivisor p \<noteq> 0"
    using assms(1) by (auto simp: calculateDifficulty_def calculateDifficulty_ts_def split: if_splits)
  then have c: "0 < ?c" using uint_0_iff [of "difficultyBoundDivisor p"] uint_ge_0 [of "difficultyBoundDivisor p"] by linarith
  have "?adj b \<le> ?adj a" using assms(3) by auto
  then have "?D * ?adj b \<le> ?D * ?adj a" by (rule mult_left_mono) simp
  from sdiv_mono [OF this c]
  have "uint d' \<le> uint d"
    unfolding calculateDifficulty_uint [OF assms(1)] calculateDifficulty_uint [OF assms(2)] by linarith
  then show ?thesis by (simp add: word_le_def)
qed

section \<open>Boundary\<close>

lemma div_mult_less: "b < d \<Longrightarrow> 0 < n \<Longrightarrow> n div d * b < (n :: nat)"
proof (cases "n div d = 0")
  case False
  moreover assume "b < d"
  ultimately have "n div d * b < n div d * d" by simp
  also have "\<dots> \<le> n" by simp
  finally show ?thesis .
qed simp

lemma unat_of_nat_u256: "n < 2 ^ 256 \<Longrightarrow> unat (of_nat n :: u256) = n"
  by (simp add: unat_of_nat)

lemma boundary_exact:
  assumes "balance < m_difficulty bi"
  shows "uint (boundary bi balance) = (2 ^ 256 div uint (m_difficulty bi)) * uint balance"
proof -
  let ?d = "unat (m_difficulty bi)" let ?b = "unat balance"
  have lt: "?b < ?d" using assms by (simp add: word_less_nat_alt)
  then have "(2 ^ 256 div ?d) * ?b < 2 ^ 256" by (rule div_mult_less) simp
  then have "unat (of_nat ((2 ^ 256 div ?d) * ?b) :: u256) = (2 ^ 256 div ?d) * ?b"
    by (rule unat_of_nat_u256)
  then have "unat (boundary bi balance) = (2 ^ 256 div ?d) * ?b"
    using lt by (auto simp: boundary_def Let_def)
  then have "int (unat (boundary bi balance)) = 2 ^ 256 div int ?d * int ?b"
    by (simp add: zdiv_int)
  then show ?thesis by simp
qed

lemma boundary_mono:
  assumes "balance \<le> balance'" "balance' < m_difficulty bi"
  shows "boundary bi balance \<le> boundary bi balance'"
proof -
  have lt: "balance < m_difficulty bi" using assms by simp
  have "0 < uint (m_difficulty bi)"
    using assms(2) uint_ge_0 [of balance'] unfolding word_less_def by linarith
  then have "0 \<le> 2 ^ 256 div uint (m_difficulty bi)" by (simp add: pos_imp_zdiv_nonneg_iff)
  then have "2 ^ 256 div uint (m_difficulty bi) * uint balance
      \<le> 2 ^ 256 div uint (m_difficulty bi) * uint balance'"
    using assms(1) by (intro mult_left_mono) (simp_all add: word_le_def)
  then show ?thesis
    using boundary_exact [OF lt] boundary_exact [OF assms(2)] by (simp add: word_le_def)
qed

lemma boundary_wraps: "m_difficulty bi = 0x20000 \<Longrightarrow> boundary bi 0x20000 = 0"
  by (simp add: boundary_def)

section \<open>Gas limit\<close>

lemma unat_sub_le: "(b :: u256) \<le> a \<Longrightarrow> unat (a - b) = unat a - unat b"
  by (rule unat_sub)

lemma unat_add_bound: "unat a + unat b < 2 ^ 256 \<Longrightarrow> unat (a + b :: u256) = unat a + unat b"
  by (simp add: unat_word_ariths)

lemma unat_mult_bound: "unat a * unat b < 2 ^ 256 \<Longrightarrow> unat (a * b :: u256) = unat a * unat b"
  by (simp add: unat_word_ariths)

lemma gas_used_step:
  fixes l d u :: nat
  assumes "0 < d" "u \<le> l"
  shows "5 * (u * 6 div 5 div d) \<le> 6 * (l div d) + 5"
proof -
  let ?x = "u * 6 div 5 div d"
  have "?x = u * 6 div (5 * d)" by (simp add: div_mult2_eq)
  then have "?x * (5 * d) \<le> u * 6" by simp
  also have "\<dots> \<le> l * 6" using assms(2) by simp
  also have "\<dots> < d * (l div d + 1) * 6" using dividend_less_times_div [OF assms(1), of l] by simp
  finally have "d * (5 * ?x) < d * (6 * (l div d + 1))" by (simp add: algebra_simps)
  then show ?thesis using assms(1) by simp
qed

lemma childGasLimit_accepted_nat:
  fixes l d u f :: nat
  assumes "0 < d" "3 * d \<le> l" "u \<le> l"
  defines "step \<equiv> l div d"
  defines "g \<equiv> if l < f then min f (l + step - 1) else max f (l - step + 1 + u * 6 div 5 div d)"
  shows "l - step < g" "g < l + step"
proof -
  have step: "3 \<le> step" using assms(1,2) by (simp add: step_def less_eq_div_iff_mult_less_eq)
  have "step \<le> l" by (simp add: step_def)
  then show "l - step < g" "g < l + step"
    using gas_used_step [OF assms(1,3)] step by (auto simp: g_def step_def [symmetric])
qed

lemma unat_step:
  assumes L: "unat (l :: u256) < 2 ^ 250"
  shows "unat (l + l div d) = unat l + unat l div unat d"
proof -
  have le: "unat l div unat d \<le> unat l" by simp
  have "unat l + unat (l div d) \<le> 2 ^ 250 + 2 ^ 250"
    unfolding unat_div using L le by (intro add_mono less_imp_le [OF L] order_trans [OF le])
  also have "\<dots> < (2 ^ 256 :: nat)" by simp
  finally have "unat l + unat (l div d) < 2 ^ 256" .
  then show ?thesis by (simp only: unat_add_bound unat_div)
qed

text \<open>In naturals: what the child's limit is, when nothing wraps.\<close>

lemma childGasLimit_nat:
  assumes g: "childGasLimit p parent Invalid256 = Inr g"
    and L: "unat (m_gasLimit parent) < 2 ^ 250" and used: "m_gasUsed parent \<le> m_gasLimit parent"
    and d: "3 * unat (gasLimitBoundDivisor p) \<le> unat (m_gasLimit parent)"
  shows "unat g = (let l = unat (m_gasLimit parent); d = unat (gasLimitBoundDivisor p); step = l div d in
     if l < 3141562 then min 3141562 (l + step - 1)
     else max 3141562 (l - step + 1 + unat (m_gasUsed parent) * 6 div 5 div d))"
proof -
  let ?l = "m_gasLimit parent" let ?d = "gasLimitBoundDivisor p" let ?u = "m_gasUsed parent"
  have d0: "?d \<noteq> 0" using g by (auto simp: childGasLimit_def divU256_def)
  then have d1: "0 < unat ?d" by (simp add: unat_gt_0)
  have step: "3 \<le> unat ?l div unat ?d" using d d1 by (simp add: less_eq_div_iff_mult_less_eq)
  have le: "unat ?l div unat ?d \<le> unat ?l" by simp
  have u: "unat ?u \<le> unat ?l" using used by (simp add: word_le_nat_alt)
  have u6: "unat (?u * 6 div 5) = unat ?u * 6 div 5"
    using unat_mult_bound [of ?u 6] u L by (simp add: unat_div)
  have b: "unat ?u * 6 div 5 div unat ?d < 2 ^ 253"
  proof -
    have "unat ?u * 6 div 5 div unat ?d \<le> unat ?u * 6 div 5" by simp
    also have "\<dots> \<le> unat ?u * 6" by simp
    also have "\<dots> < 2 ^ 253" using u L by simp
    finally show ?thesis .
  qed
  have g': "g = (if ?l < 3141562 then min 3141562 (?l + ?l div ?d - 1)
      else max 3141562 (?l - ?l div ?d + 1 + (?u * 6 div 5) div ?d))"
    using g d0 by (simp add: childGasLimit_def divU256_def Let_def split: if_splits)
  have sum: "unat (?l + ?l div ?d) = unat ?l + unat ?l div unat ?d" by (rule unat_step [OF L])
  have "1 \<le> ?l + ?l div ?d" using sum step by (simp add: word_le_nat_alt)
  then have e1: "unat (?l + ?l div ?d - 1) = unat ?l + unat ?l div unat ?d - 1"
    using unat_sub_le [of 1 "?l + ?l div ?d"] sum by simp
  have e2: "unat (?l - ?l div ?d + 1 + (?u * 6 div 5) div ?d) =
      unat ?l - unat ?l div unat ?d + 1 + unat ?u * 6 div 5 div unat ?d"
  proof -
    have "?l div ?d \<le> ?l" using le by (simp add: word_le_nat_alt unat_div)
    then have "unat (?l - ?l div ?d) = unat ?l - unat ?l div unat ?d"
      using unat_sub_le [of "?l div ?d" ?l] by (simp add: unat_div)
    moreover have "unat (?l - ?l div ?d + 1) = unat (?l - ?l div ?d) + 1"
      using calculation L by (subst unat_add_bound) auto
    moreover have "unat (?u * 6 div 5 div ?d) = unat ?u * 6 div 5 div unat ?d"
      using u6 by (simp add: unat_div)
    ultimately show ?thesis using L b by (subst unat_add_bound) auto
  qed
  have mm: "unat (min a b) = min (unat a) (unat b)" "unat (max a b) = max (unat a) (unat b)" for a b :: u256
    by (simp_all add: min_def max_def word_le_nat_alt)
  show ?thesis unfolding g' Let_def using e1 e2 by (simp add: mm word_less_nat_alt)
qed

text \<open>The four comparisons that \<open>verify\<close> makes with the parent's gas limit.\<close>

definition gasLimit_in_range :: "chain_params \<Rightarrow> u256 \<Rightarrow> u256 \<Rightarrow> bool" where
  "gasLimit_in_range p parentGasLimit gasLimit \<longleftrightarrow>
     (let step = parentGasLimit div gasLimitBoundDivisor p in
      minGasLimit p \<le> gasLimit \<and> gasLimit \<le> maxGasLimit p \<and>
      parentGasLimit - step < gasLimit \<and> gasLimit < parentGasLimit + step)"

lemma childGasLimit_in_range:
  assumes g: "childGasLimit p parent Invalid256 = Inr g"
    and used: "m_gasUsed parent \<le> m_gasLimit parent"
    and d: "3 * unat (gasLimitBoundDivisor p) \<le> unat (m_gasLimit parent)"
    and lo: "minGasLimit p \<le> m_gasLimit parent" "minGasLimit p \<le> 3141562"
    and hi: "2 * unat (m_gasLimit parent) \<le> unat (maxGasLimit p)" "3141562 \<le> maxGasLimit p"
      "maxGasLimit p < 2 ^ 250"
  shows "gasLimit_in_range p (m_gasLimit parent) g"
proof -
  let ?l = "unat (m_gasLimit parent)" let ?d = "unat (gasLimitBoundDivisor p)"
  have d0: "gasLimitBoundDivisor p \<noteq> 0" using g by (auto simp: childGasLimit_def divU256_def)
  then have d1: "0 < ?d" by (simp add: unat_gt_0)
  have max: "unat (maxGasLimit p) < 2 ^ 250" using hi(3) by (simp add: word_less_nat_alt)
  then have L: "?l < 2 ^ 250" using hi(1) by linarith
  have u: "unat (m_gasUsed parent) \<le> ?l" using used by (simp add: word_le_nat_alt)
  note g' = childGasLimit_nat [OF g L used d]
  note acc = childGasLimit_accepted_nat [OF d1 d u, of 3141562]
  have range: "?l - ?l div ?d < unat g" "unat g < ?l + ?l div ?d"
    using acc unfolding g' Let_def by simp_all
  have step: "?l div ?d \<le> ?l" by simp
  have w: "unat (m_gasLimit parent - m_gasLimit parent div gasLimitBoundDivisor p) = ?l - ?l div ?d"
    using step by (subst unat_sub_le) (simp_all add: word_le_nat_alt unat_div)
  have w': "unat (m_gasLimit parent + m_gasLimit parent div gasLimitBoundDivisor p) = ?l + ?l div ?d"
    by (rule unat_step [OF L])
  have step1: "3 \<le> ?l div ?d" using d d1 by (simp add: less_eq_div_iff_mult_less_eq)
  have low: "unat (minGasLimit p) \<le> unat g"
    using lo step1 unfolding g' Let_def by (auto simp: word_le_nat_alt)
  have high: "unat g \<le> unat (maxGasLimit p)" using range(2) step hi(1) by linarith
  show ?thesis
    using range low high unfolding gasLimit_in_range_def Let_def word_le_nat_alt word_less_nat_alt w w'
    by simp
qed

section \<open>What an accepted block satisfies\<close>

lemma ethash_verify_accepts:
  assumes "ethash_verify lib p CheckEverything bi balance parent block = Inr (bi', parent')"
    and "header_valid parent" "m_parentHash bi \<noteq> 0"
  shows "header_hash (lib_sha3 lib) WithSeal parent = Inr (m_parentHash bi, parent')"
    and "m_number bi = m_number parent + 1" and "sint (m_timestamp parent) < sint (m_timestamp bi)"
    and "m_gasUsed bi \<le> m_gasLimit bi"
    and "calculateDifficulty p bi parent = Inr (m_difficulty bi)"
    and "gasLimit_in_range p (m_gasLimit parent) (m_gasLimit bi)"
    and "verifySeal lib bi parent' balance = Inr (True, bi')"
proof -
  have h: "header_verify (lib_sha3 lib) CheckEverything parent block bi = Inr parent'"
    using assms by (auto simp: ethash_verify_def exn_simps split: if_splits)
  then have "header_verify (lib_sha3 lib) CheckEverything parent [] bi = Inr parent'"
    by (auto simp: header_verify_def exn_simps)
  then show "header_hash (lib_sha3 lib) WithSeal parent = Inr (m_parentHash bi, parent')"
    "m_number bi = m_number parent + 1" "sint (m_timestamp parent) < sint (m_timestamp bi)"
    "m_gasUsed bi \<le> m_gasLimit bi"
    using assms(2,3) by (auto simp: header_verify_iff)
  show "calculateDifficulty p bi parent = Inr (m_difficulty bi)"
    "gasLimit_in_range p (m_gasLimit parent) (m_gasLimit bi)"
    "verifySeal lib bi parent' balance = Inr (True, bi')"
    using assms by (auto simp: ethash_verify_def exn_simps divU256_def gasLimit_in_range_def Let_def
        split: if_splits)
qed

lemma stakeModifier_sealRLP:
  assumes "m_seal bi = [rlp_enc (hash_item (0 :: g2)), rlp_enc (hash_item (0 :: u64)),
     rlp_enc (hash_item (0 :: g1)), rlp_enc (hash_item (0 :: g1))]"
  shows "stakeModifier bi = Inl BadCast"
proof -
  let ?x = "hash_item (0 :: u64)"
  have ok: "item_ok ?x" by (rule item_ok_hash) simp
  have "toHash 32 (rlp_enc ?x) VeryStrict = Inl BadCast"
    using enc_read [OF ok, of "[]"] payload_enc [OF ok]
    by (simp add: toHash_def hash_item_def Let_def del: rlp_enc.simps payload_enc)
  then show ?thesis
    using ok by (simp add: stakeModifier_def get_seal_def assms StakeModifierField_def readHash_def
        del: rlp_enc.simps)
qed

section \<open>Sealing succeeds\<close>

text \<open>Sealing a header with short extra data never fails, and the sealed block can be written.\<close>

lemma seal_with_succeeds:
  assumes "length (m_extraData h) < 2 ^ 32" "m_seal h = []" "m_hashWithout h = 0"
  shows "\<exists>b out. seal_with lib modifier kp r h = Inr b \<and> header_encode b WithSeal = Inr out"
proof -
  have nil: "m_seal h = map rlp_enc []" using assms by simp
  have enc: "header_encode h WithoutSeal = Inr (rlp_enc (Lst (header_items h)))"
    by (rule header_encode_eq(2) [OF nil item_ok_header]) (use assms in simp_all)
  let ?b = "setSeal 3 (rlp_enc (hash_item (bls_sign lib (kp_secret kp) (lib_sha3 lib (rlp_enc (Lst (header_items h)))))))
       (setSeal 2 (rlp_enc (hash_item r)) (setSeal 0 (rlp_enc (hash_item (kp_public kp)))
         (setSeal 1 (rlp_enc (hash_item (computeChildStakeModifier lib modifier (kp_public kp) r))) h)))"
  have b: "seal_with lib modifier kp r h = Inr ?b"
    using enc by (simp add: seal_with_def setStakeModifier_def setPublicKey_def setStakeSignature_def
      setBlockSignature_def set_seal_hash_eq header_hash_dirty seal_field_defs bindE_assoc setSeal_memo
      del: rlp_enc.simps)
  let ?xs = "[hash_item (kp_public kp), hash_item (computeChildStakeModifier lib modifier (kp_public kp) r),
    hash_item r, hash_item (bls_sign lib (kp_secret kp) (lib_sha3 lib (rlp_enc (Lst (header_items h)))))]"
  have seal: "m_seal ?b = map rlp_enc ?xs"
    using assms(2) by (simp add: setSeal_def noteDirty_def Let_def numeral_2_eq_2 numeral_3_eq_3 del: rlp_enc.simps)
  have short: "length (concat (map rlp_enc ?xs)) < 2 ^ 32"
    using length_enc_hash [of "kp_public kp"] length_enc_hash [of r]
      length_enc_hash [of "computeChildStakeModifier lib modifier (kp_public kp) r"]
      length_enc_hash [of "bls_sign lib (kp_secret kp) (lib_sha3 lib (rlp_enc (Lst (header_items h))))"]
    by (simp del: rlp_enc.simps)
  have "m_extraData ?b = m_extraData h" by (simp add: setSeal_def noteDirty_def Let_def)
  then have "header_encode ?b WithSeal = Inr (rlp_enc (Lst (header_items ?b @ ?xs)))"
    using header_encode_eq(1) [OF seal item_ok_header [OF _ short]] assms(1) by simp
  with b show ?thesis by blast
qed

text \<open>A key pair that meets the bound is found.\<close>

lemma try_keys_finds:
  assumes "length (m_extraData h) < 2 ^ 32" "m_seal h = []" "m_hashWithout h = 0"
    and "stakeModifier parent = Inr modifier"
  shows "(\<exists>kp \<in> set kps. \<exists>bal. bm (kp_address kp) = Some bal \<and> bal \<noteq> 0 \<and>
      hash_less_eq (computeStakeSignatureHash lib (computeStakeSignature lib
        (computeStakeMessage lib modifier (ts256 ts)) (kp_secret kp))) (boundary h bal)) \<Longrightarrow>
    \<exists>b out. try_keys lib bm parent ts kps h = Inr (Some b) \<and> header_encode b WithSeal = Inr out"
proof (induction kps)
  case (Cons k kps)
  let ?r = "computeStakeSignature lib (computeStakeMessage lib modifier (ts256 ts)) (kp_secret k)"
  obtain b out where s: "seal_with lib modifier k ?r h = Inr b" "header_encode b WithSeal = Inr out"
    using seal_with_succeeds [OF assms(1-3)] by blast
  show ?case
  proof (cases "\<exists>bal. bm (kp_address k) = Some bal \<and> bal \<noteq> 0 \<and>
      hash_less_eq (computeStakeSignatureHash lib ?r) (boundary h bal)")
    case True
    then show ?thesis using s assms(4) by (auto simp: Let_def)
  next
    case False
    with Cons.prems have "\<exists>b out. try_keys lib bm parent ts kps h = Inr (Some b) \<and> header_encode b WithSeal = Inr out"
      by (intro Cons.IH) auto
    then show ?thesis using False assms(4) by (auto simp: Let_def split: option.splits)
  qed
qed simp

lemma generateSeal_finds:
  assumes bi: "length (m_extraData bi) < 2 ^ 32" "m_seal bi = []" "\<not> m_generating e"
    and parent: "stakeModifier parent = Inr modifier"
    and diff: "calculateDifficulty p (setTimestamp now bi) parent = Inr d"
    and kp: "kp \<in> set (m_keyPairs e)"
      "bal = getAgedBalance (kp_address kp) (ucast (m_number parent)) balance" "bal \<noteq> 0"
      "computeStakeSignatureHash lib (computeStakeSignature lib
         (computeStakeMessage lib modifier (ts256 now)) (kp_secret kp))
       \<le> boundary (setDifficulty d (setTimestamp now bi)) bal"
  shows "\<exists>e' out. generateSeal lib p e bi parent balance now = Inr (e', Some out)"
proof -
  let ?h = "setDifficulty d (setTimestamp now bi)"
  let ?bm = "gen_balances balance parent (m_keyPairs e)"
  have "\<exists>b out. try_keys lib ?bm parent now (m_keyPairs e) ?h = Inr (Some b) \<and> header_encode b WithSeal = Inr out"
    by (rule try_keys_finds [OF _ _ _ parent])
      (use bi kp gen_balances_eq [OF kp(1), of balance parent] in
        \<open>auto simp: setDifficulty_def setTimestamp_def noteDirty_def hash_less_eq_iff\<close>)
  then obtain b out where b: "try_keys lib ?bm parent now (m_keyPairs e) ?h = Inr (Some b)"
    "header_encode b WithSeal = Inr out" by blast
  have "try_times lib p ?bm parent (m_keyPairs e) [now, now - 1] bi = Inr (b, True)"
    using b(1) diff by (simp add: Let_def)
  then show ?thesis
    using b(2) bi(3) by (simp add: generateSeal_def gen_balances_def Let_def)
qed

end
