(* ===== verification/StakeProperties.thy ===== *)
theory StakeProperties
  imports StakeProofs LedgerProperties
begin

text \<open>
  The properties of the proof-of-stake seal engine (libethashseal/Ethash): what it mints is
  accepted, minting is live, the difficulty and gas limit rules, the boundary and where it wraps,
  and what a verified block satisfies. The sample library \<open>unit_lib\<close> has a constant hash and
  a bilinear pairing; the sample key, engine and headers are the inputs of the witnesses.
\<close>

text \<open>C1: What is minted is accepted: if every key pair of the engine is well formed and
  \<open>generateSeal\<close> hands out a block on top of \<open>parent\<close>, then \<open>verifySeal\<close> accepts the seal
  of that block under the same balances.\<close>

theorem minted_seal_verifies:
  assumes "bilinear lib" "\<forall>kp \<in> set (m_keyPairs e). good_pair lib kp"
    and "header_valid parent" "m_number bi = m_number parent + 1"
    and "generateSeal lib p e bi parent balance now = Inr (e', Some out)"
  shows "\<exists>b'. verifySeal lib (m_sealing e') parent balance = Inr (True, b')"
  using assms by (rule generateSeal_verifySeal)

definition unit_lib :: crypto_lib where "unit_lib = toy_lib\<lparr>lib_sha3 := \<lambda>_. 1\<rparr>"

definition sample_key :: key_pair where "sample_key = key_pair_make unit_lib 5"

definition sample_engine :: ethash where
  "sample_engine = \<lparr>m_keyPairs = [sample_key], m_sealing = header_new, m_generating = False\<rparr>"

definition sample_parent :: block_header where
  "sample_parent = header_new\<lparr>m_number := 7, m_timestamp := 90, m_difficulty := 0x20000,
     m_seal := [rlp_enc (hash_item (0 :: g2)), rlp_enc (hash_item (3 :: u256)),
       rlp_enc (hash_item (0 :: g1)), rlp_enc (hash_item (0 :: g1))]\<rparr>"

definition sample_block :: block_header where
  "sample_block = header_new\<lparr>m_number := 8, m_timestamp := 99\<rparr>"

lemma sample_facts:
  "bilinear unit_lib" "good_pair unit_lib sample_key" "header_valid sample_parent"
  "m_number sample_block = m_number sample_parent + 1" "stakeModifier sample_parent = Inr 3"
proof -
  show "bilinear unit_lib" using bilinear_toy by (simp add: bilinear_def unit_lib_def)
  show "good_pair unit_lib sample_key"
    by (simp add: good_pair_def sample_key_def key_pair_make_def toPublic_valid bls12381Modulus_def
        unit_lib_def toy_lib_def)
  show "header_valid sample_parent" "m_number sample_block = m_number sample_parent + 1"
    by (simp_all add: header_valid_def sample_parent_def sample_block_def)
  show "stakeModifier sample_parent = Inr 3"
    by (simp add: stakeModifier_def get_seal_def sample_parent_def seal_field_defs rlp_make_enc item_ok_hash
        del: rlp_enc.simps)
qed

text \<open>C3: Minting is live: an idle engine that has a key pair whose stake signature for the current
  time meets the boundary of its aged balance hands out a block.\<close>

theorem staker_mints:
  assumes "length (m_extraData bi) < 2 ^ 32" "m_seal bi = []" "\<not> m_generating e"
    and "stakeModifier parent = Inr modifier"
    and "calculateDifficulty p (setTimestamp now bi) parent = Inr d"
    and "kp \<in> set (m_keyPairs e)"
      "bal = getAgedBalance (kp_address kp) (ucast (m_number parent)) balance" "bal \<noteq> 0"
      "computeStakeSignatureHash lib (computeStakeSignature lib
         (computeStakeMessage lib modifier (ts256 now)) (kp_secret kp))
       \<le> boundary (setDifficulty d (setTimestamp now bi)) bal"
  shows "\<exists>e' out. generateSeal lib p e bi parent balance now = Inr (e', Some out)"
  using assms by (rule generateSeal_finds)

lemma sample_mint_conditions:
  "length (m_extraData sample_block) < 2 ^ 32" "m_seal sample_block = []" "\<not> m_generating sample_engine"
  "calculateDifficulty ChainOperationParams_default (setTimestamp 99 sample_block) sample_parent = Inr 0x20000"
  "sample_key \<in> set (m_keyPairs sample_engine)"
  "1 = getAgedBalance (kp_address sample_key) (ucast (m_number sample_parent)) (\<lambda>a n. 1)" "(1 :: u256) \<noteq> 0"
  "computeStakeSignatureHash unit_lib s \<le> boundary (setDifficulty 0x20000 (setTimestamp 99 sample_block)) 1"
  by (simp_all add: sample_block_def sample_engine_def header_new_def getAgedBalance_def sample_parent_def
      calculateDifficulty_def calculateDifficulty_ts_def setTimestamp_def noteDirty_def
      ChainOperationParams_default_def computeStakeSignatureHash_def unit_lib_def
      boundary_def setDifficulty_def)

theorem staker_mints_witness:
  "\<exists>e' out. generateSeal unit_lib ChainOperationParams_default sample_engine sample_block sample_parent
     (\<lambda>a n. 1) 99 = Inr (e', Some out)"
  using sample_mint_conditions(8)
  by (rule staker_mints [OF sample_mint_conditions(1-3) sample_facts(5) sample_mint_conditions(4-7)])

theorem minted_seal_verifies_witness:
  "\<exists>e' out b'. generateSeal unit_lib ChainOperationParams_default sample_engine sample_block sample_parent
     (\<lambda>a n. 1) 99 = Inr (e', Some out) \<and>
     verifySeal unit_lib (m_sealing e') sample_parent (\<lambda>a n. 1) = Inr (True, b')"
proof -
  have kps: "\<forall>kp \<in> set (m_keyPairs sample_engine). good_pair unit_lib kp"
    using sample_facts(2) by (simp add: sample_engine_def)
  obtain e' out where "generateSeal unit_lib ChainOperationParams_default sample_engine sample_block
      sample_parent (\<lambda>a n. 1) 99 = Inr (e', Some out)"
    using generateSeal_finds [OF sample_mint_conditions(1-3) sample_facts(5) sample_mint_conditions(4-8)]
    by blast
  with minted_seal_verifies [OF sample_facts(1) kps sample_facts(3,4) this] show ?thesis by blast
qed

definition late_parent :: block_header where
  "late_parent = sample_parent\<lparr>m_timestamp := 99\<rparr>"

lemma late_parent_facts:
  "stakeModifier late_parent = Inr 3"
  "calculateDifficulty ChainOperationParams_default (setTimestamp 99 sample_block) late_parent = Inr 131648"
  "1 = getAgedBalance (kp_address sample_key) (ucast (m_number late_parent)) (\<lambda>a n. 1)"
  "header_valid late_parent" "sint (99 :: u64) \<le> sint (m_timestamp late_parent)"
  "computeStakeSignatureHash unit_lib s \<le> boundary (setDifficulty 131648 (setTimestamp 99 sample_block)) 1"
proof -
  show "stakeModifier late_parent = Inr 3"
    by (simp add: stakeModifier_def get_seal_def late_parent_def sample_parent_def seal_field_defs
        rlp_make_enc item_ok_hash del: rlp_enc.simps)
qed (simp_all add: late_parent_def sample_block_def header_new_def getAgedBalance_def sample_parent_def
      calculateDifficulty_def calculateDifficulty_ts_def setTimestamp_def noteDirty_def header_valid_def
      ChainOperationParams_default_def computeStakeSignatureHash_def unit_lib_def
      boundary_def setDifficulty_def)

text \<open>C35: Blocks minted too early: when the clock is not ahead of the parent's timestamp,
  \<open>generateSeal\<close> can still hand out a block, and \<open>BlockHeader::verify\<close> rejects every such block.\<close>

theorem minted_early_rejected:
  assumes "generateSeal lib p e bi parent balance now = Inr (e', Some out)"
    and "header_valid parent" "sint now \<le> sint (m_timestamp parent)" "- (2 ^ 63) < sint now"
  shows "header_verify sha3 s parent [] (m_sealing e') \<noteq> Inr parent'"
proof -
  have "sint (of_int (sint now - 1) :: u64) = sint now - 1"
    using assms(4) sint_less [of now]
    by (simp add: signed_of_int signed_take_bit_int_eq_self del: of_int_diff)
  then have "sint (now - 1) = sint now - 1" by simp
  then have "sint (m_timestamp (m_sealing e')) \<le> sint (m_timestamp parent)"
    using generateSeal_timestamp(1) [OF assms(1)] assms(3) by auto
  then show ?thesis using assms(2) by (auto simp: header_verify_iff)
qed

theorem minted_early_rejected_witness:
  "\<exists>e' out. generateSeal unit_lib ChainOperationParams_default sample_engine sample_block late_parent
     (\<lambda>a n. 1) 99 = Inr (e', Some out) \<and>
     header_verify (lib_sha3 unit_lib) CheckEverything late_parent [] (m_sealing e') \<noteq> Inr late_parent"
proof -
  obtain e' out where g: "generateSeal unit_lib ChainOperationParams_default sample_engine sample_block
      late_parent (\<lambda>a n. 1) 99 = Inr (e', Some out)"
    using generateSeal_finds [OF sample_mint_conditions(1-3) late_parent_facts(1) late_parent_facts(2)
      sample_mint_conditions(5) late_parent_facts(3) sample_mint_conditions(7) late_parent_facts(6)]
    by blast
  have "- (2 ^ 63) < sint (99 :: u64)" by simp
  from minted_early_rejected [OF g late_parent_facts(4,5) this, of "lib_sha3 unit_lib" CheckEverything late_parent] g
  show ?thesis by blast
qed

text \<open>C33: A later block never has a higher difficulty than an earlier one on the same parent.\<close>

theorem difficulty_antitone:
  assumes "calculateDifficulty p a parent = Inr d" "calculateDifficulty p b parent = Inr d'"
    and "sint (m_timestamp a) \<le> sint (m_timestamp b)"
  shows "d' \<le> d"
  using assms by (rule calculateDifficulty_later)

theorem difficulty_antitone_witness:
  "\<exists>d d'. calculateDifficulty ChainOperationParams_default (setTimestamp 91 sample_block) sample_parent = Inr d \<and>
     calculateDifficulty ChainOperationParams_default (setTimestamp 99 sample_block) sample_parent = Inr d' \<and>
     d' \<le> d"
proof -
  obtain d where d: "calculateDifficulty ChainOperationParams_default (setTimestamp 91 sample_block) sample_parent = Inr d"
    by (simp add: sample_block_def header_new_def sample_parent_def calculateDifficulty_def
        calculateDifficulty_ts_def setTimestamp_def noteDirty_def ChainOperationParams_default_def)
  have "sint (m_timestamp (setTimestamp 91 sample_block)) \<le> sint (m_timestamp (setTimestamp 99 sample_block))"
    by (simp add: setTimestamp_def noteDirty_def)
  from difficulty_antitone [OF d sample_mint_conditions(4) this] d sample_mint_conditions(4)
  show ?thesis by blast
qed

text \<open>The boundary below the difficulty: for balances smaller than the difficulty it is exactly
  the balance times the quotient of \<open>2 ^ 256\<close> by the difficulty, so a larger balance has a larger
  boundary.\<close>

theorem boundary_proportional:
  assumes "balance \<le> balance'" "balance' < m_difficulty bi"
  shows "uint (boundary bi balance) = (2 ^ 256 div uint (m_difficulty bi)) * uint balance \<and>
    boundary bi balance \<le> boundary bi balance'"
  using boundary_exact [of balance bi] boundary_mono [OF assms] assms by (meson order_le_less_trans)

theorem boundary_proportional_witness:
  "uint (boundary sample_parent 3) = (2 ^ 256 div 0x20000) * 3 \<and>
   boundary sample_parent 3 \<le> boundary sample_parent 4"
  using boundary_proportional [of 3 4 sample_parent] by (simp add: sample_parent_def)

text \<open>At the difficulty the boundary wraps: with a difficulty of \<open>0x20000\<close>, the minimum of the
  default parameters, a minter whose balance equals the difficulty has boundary zero.\<close>

theorem boundary_wraps_at_difficulty:
  assumes "m_difficulty bi = minimumDifficulty ChainOperationParams_default"
  shows "boundary bi (m_difficulty bi) = 0 \<and> 0 < boundary bi (m_difficulty bi - 1)"
proof -
  have d: "m_difficulty bi = 0x20000" using assms by (simp add: ChainOperationParams_default_def)
  have "uint (boundary bi 0x1ffff) = (2 ^ 256 div 0x20000) * 0x1ffff"
    using boundary_exact [of "0x1ffff" bi] d by simp
  then have "0 < boundary bi 0x1ffff" by (simp add: word_less_def)
  then show ?thesis using boundary_wraps [OF d] d by simp
qed

theorem boundary_wraps_at_difficulty_witness:
  "boundary sample_parent 0x20000 = 0 \<and> 0 < boundary sample_parent 0x1ffff"
  using boundary_wraps_at_difficulty [of sample_parent]
  by (simp add: sample_parent_def ChainOperationParams_default_def)



definition full_parent :: block_header where
  "full_parent = sample_parent\<lparr>m_gasLimit := 4000000\<rparr>"

definition sample_sig :: g1 where "sample_sig = bls_sign unit_lib 5 1"

definition full_block :: block_header where
  "full_block = header_new\<lparr>m_number := 8, m_timestamp := 99, m_difficulty := 0x20000, m_gasLimit := 4000000,
     m_parentHash := 1, m_seal := map rlp_enc [hash_item (toPublic unit_lib 5), hash_item (1 :: u256),
       hash_item sample_sig, hash_item sample_sig]\<rparr>"

lemma full_block_seal:
  "stakeSignature full_block = Inr sample_sig" "publicKey full_block = Inr (toPublic unit_lib 5)"
  "blockSignature full_block = Inr sample_sig" "stakeModifier full_block = Inr 1"
  "stakeModifier full_parent = Inr 3"
  by (simp_all add: stakeSignature_def publicKey_def blockSignature_def stakeModifier_def get_seal_def
      full_block_def full_parent_def sample_parent_def seal_field_defs rlp_make_enc item_ok_hash del: rlp_enc.simps)

lemma small_seal:
  fixes a :: g2 and b :: u256 and c d :: g1
  shows "length (concat (map rlp_enc [hash_item a, hash_item b, hash_item c, hash_item d])) < 2 ^ 32"
  using length_enc_hash [of a] length_enc_hash [of b] length_enc_hash [of c] length_enc_hash [of d]
  by (simp del: rlp_enc.simps)

lemma full_headers_encode:
  "\<exists>out. header_encode full_block WithoutSeal = Inr out"
  "\<exists>out. header_encode full_parent WithSeal = Inr out"
proof -
  let ?xs = "[hash_item (toPublic unit_lib 5), hash_item (1 :: u256), hash_item sample_sig, hash_item sample_sig]"
  let ?ys = "[hash_item (0 :: g2), hash_item (3 :: u256), hash_item (0 :: g1), hash_item (0 :: g1)]"
  have seal: "m_seal full_block = map rlp_enc ?xs" "m_seal full_parent = map rlp_enc ?ys"
    by (simp_all add: full_block_def full_parent_def sample_parent_def)
  show "\<exists>out. header_encode full_block WithoutSeal = Inr out"
    using header_encode_eq(2) [OF seal(1) item_ok_header [OF _ small_seal]]
    by (simp add: full_block_def header_new_def)
  show "\<exists>out. header_encode full_parent WithSeal = Inr out"
    using header_encode_eq(1) [OF seal(2) item_ok_header [OF _ small_seal]]
    by (simp add: full_parent_def sample_parent_def header_new_def)
qed

lemma full_block_hashes:
  "\<exists>bi'. header_hash (lib_sha3 unit_lib) WithoutSeal full_block = Inr (1, bi')"
  "\<exists>parent'. header_hash (lib_sha3 unit_lib) WithSeal full_parent = Inr (1, parent') \<and>
     m_hash parent' = 1 \<and> parent' = full_parent\<lparr>m_hash := 1\<rparr>"
  using full_headers_encode
  by (auto simp: header_hash_def unit_lib_def full_block_def full_parent_def sample_parent_def header_new_def)

lemma sample_sig_verifies: "bls_verify unit_lib (toPublic unit_lib 5) sample_sig 1"
  unfolding sample_sig_def
  by (rule bls_sign_verify [OF sample_facts(1)]) (simp add: bls12381Modulus_def)

lemma full_block_accepted:
  "\<exists>bi' parent'. ethash_verify unit_lib ChainOperationParams_default CheckEverything full_block (\<lambda>a n. 1)
     full_parent [] = Inr (bi', parent')"
proof -
  have verify: "\<exists>bi'. verifySeal unit_lib full_block (full_parent\<lparr>m_hash := 1\<rparr>) (\<lambda>a n. 1) = Inr (True, bi')"
  proof -
    have "m_seal (full_parent\<lparr>m_hash := 1\<rparr>) = m_seal full_parent" by simp
    then have "stakeModifier (full_parent\<lparr>m_hash := 1\<rparr>) = Inr 3"
      using full_block_seal(5) by (simp only: stakeModifier_def get_seal_def)
    moreover have "hash_less_eq (computeStakeSignatureHash unit_lib sample_sig) (boundary full_block 1)"
      by (simp add: hash_less_eq_iff computeStakeSignatureHash_def unit_lib_def boundary_def full_block_def)
    moreover have "computeChildStakeModifier unit_lib 3 (toPublic unit_lib 5) sample_sig = 1"
      "computeStakeMessage unit_lib 3 (ts256 (m_timestamp full_block)) = 1"
      by (simp_all add: computeChildStakeModifier_def computeStakeMessage_def unit_lib_def)
    moreover have "m_number full_block = m_number full_parent + 1" "m_timestamp full_parent \<noteq> -1"
      by (simp_all add: full_block_def full_parent_def sample_parent_def)
    ultimately show ?thesis
      using full_block_hashes(1) full_block_seal sample_sig_verifies
      by (auto simp: verifySeal_def verifyStakeSignature_def getAgedBalance_def header_valid_def)
  qed
  have header: "header_verify (lib_sha3 unit_lib) CheckEverything full_parent [] full_block
      = Inr (full_parent\<lparr>m_hash := 1\<rparr>)"
    using full_block_hashes(2)
    by (simp add: header_verify_iff header_valid_def) (simp add: full_block_def full_parent_def sample_parent_def header_new_def)
  have diff: "calculateDifficulty ChainOperationParams_default full_block full_parent = Inr 0x20000"
    by (simp add: calculateDifficulty_def calculateDifficulty_ts_def full_block_def full_parent_def
        sample_parent_def header_new_def ChainOperationParams_default_def)
  show ?thesis
    using verify header diff
    by (auto simp: ethash_verify_def divU256_def header_valid_def)
      (simp_all add: full_block_def full_parent_def sample_parent_def header_new_def
        ChainOperationParams_default_def)
qed

text \<open>C2: What a fully verified block satisfies: its parent hash, number, timestamp, gas use,
  difficulty, gas limit and seal are all as the protocol demands.\<close>

theorem verified_block_facts:
  assumes "ethash_verify lib p CheckEverything bi balance parent block = Inr (bi', parent')"
    and "header_valid parent" "m_parentHash bi \<noteq> 0"
  shows "header_hash (lib_sha3 lib) WithSeal parent = Inr (m_parentHash bi, parent') \<and>
    m_number bi = m_number parent + 1 \<and> sint (m_timestamp parent) < sint (m_timestamp bi) \<and>
    m_gasUsed bi \<le> m_gasLimit bi \<and>
    calculateDifficulty p bi parent = Inr (m_difficulty bi) \<and>
    gasLimit_in_range p (m_gasLimit parent) (m_gasLimit bi) \<and>
    verifySeal lib bi parent' balance = Inr (True, bi')"
  using ethash_verify_accepts [OF assms] by blast

theorem verified_block_facts_witness:
  "\<exists>bi' parent'. ethash_verify unit_lib ChainOperationParams_default CheckEverything full_block (\<lambda>a n. 1)
     full_parent [] = Inr (bi', parent') \<and>
   gasLimit_in_range ChainOperationParams_default (m_gasLimit full_parent) (m_gasLimit full_block)"
proof -
  obtain bi' parent' where v: "ethash_verify unit_lib ChainOperationParams_default CheckEverything
      full_block (\<lambda>a n. 1) full_parent [] = Inr (bi', parent')"
    using full_block_accepted by blast
  have "header_valid full_parent" "m_parentHash full_block \<noteq> 0"
    by (simp_all add: header_valid_def full_parent_def sample_parent_def full_block_def)
  from verified_block_facts [OF v this] v show ?thesis by blast
qed

text \<open>The genesis seal of \<open>sealRLP\<close> cannot be used as a parent's: its second item is an
  8 byte nonce, so reading the stake modifier of a header that holds those items throws.\<close>

lemma genesis_seal_unreadable:
  "sealRLP = Inr (concat (map rlp_enc
      [hash_item (0 :: g2), hash_item (0 :: u64), hash_item (0 :: g1), hash_item (0 :: g1)])) \<and>
   stakeModifier (bi\<lparr>m_seal := map rlp_enc
      [hash_item (0 :: g2), hash_item (0 :: u64), hash_item (0 :: g1), hash_item (0 :: g1)]\<rparr>) = Inl BadCast"
proof -
  have "stakeModifier (bi\<lparr>m_seal := map rlp_enc
      [hash_item (0 :: g2), hash_item (0 :: u64), hash_item (0 :: g1), hash_item (0 :: g1)]\<rparr>) = Inl BadCast"
    by (rule stakeModifier_sealRLP) simp
  then show ?thesis by (simp add: sealRLP_def rlp_hash_eq del: rlp_enc.simps)
qed

end
