(* ===== verification/EvmMetrics.thy ===== *)
theory EvmMetrics
  imports Prelude
begin

text \<open>
  The instruction metrics of the EVM, evmc/lib/instructions/instruction_metrics.c: for each
  revision the gas cost, the stack height that an instruction requires and the change of the
  stack height. An undefined instruction has the entry \<open>(0, 0, 0)\<close>. Each table is given in two
  halves of 128 entries. Then \<open>VM::initMetrics\<close> of libaleth-interpreter/VMOpt.cpp, which adds
  the interpreter's own opcodes.
\<close>

type_synonym metrics = "nat \<times> int \<times> int"

definition istanbul_metrics_lo :: "metrics list" where
  "istanbul_metrics_lo =
    [(0, 0, 0), (3, 2, -1), (5, 2, -1), (3, 2, -1), (5, 2, -1), (5, 2, -1), (5, 2, -1), (5, 2, -1),
     (8, 3, -2), (8, 3, -2), (10, 2, -1), (5, 2, -1), (0, 0, 0), (0, 0, 0), (0, 0, 0), (0, 0, 0),
     (3, 2, -1), (3, 2, -1), (3, 2, -1), (3, 2, -1), (3, 2, -1), (3, 1, 0), (3, 2, -1), (3, 2, -1),
     (3, 2, -1), (3, 1, 0), (3, 2, -1), (3, 2, -1), (3, 2, -1), (3, 2, -1), (0, 0, 0), (0, 0, 0),
     (30, 2, -1), (0, 0, 0), (0, 0, 0), (0, 0, 0), (0, 0, 0), (0, 0, 0), (0, 0, 0), (0, 0, 0),
     (0, 0, 0), (0, 0, 0), (0, 0, 0), (0, 0, 0), (0, 0, 0), (0, 0, 0), (0, 0, 0), (0, 0, 0),
     (2, 0, 1), (700, 1, 0), (2, 0, 1), (2, 0, 1), (2, 0, 1), (3, 1, 0), (2, 0, 1), (3, 3, -3),
     (2, 0, 1), (3, 3, -3), (2, 0, 1), (700, 1, 0), (700, 4, -4), (2, 0, 1), (3, 3, -3), (700, 1, 0),
     (20, 1, 0), (2, 0, 1), (2, 0, 1), (2, 0, 1), (2, 0, 1), (2, 0, 1), (2, 0, 1), (5, 0, 1),
     (0, 0, 0), (0, 0, 0), (0, 0, 0), (0, 0, 0), (0, 0, 0), (0, 0, 0), (0, 0, 0), (0, 0, 0),
     (2, 1, -1), (3, 1, 0), (3, 2, -2), (3, 2, -2), (800, 1, 0), (0, 2, -2), (8, 1, -1), (10, 2, -2),
     (2, 0, 1), (2, 0, 1), (2, 0, 1), (1, 0, 0), (0, 0, 0), (0, 0, 0), (0, 0, 0), (0, 0, 0),
     (3, 0, 1), (3, 0, 1), (3, 0, 1), (3, 0, 1), (3, 0, 1), (3, 0, 1), (3, 0, 1), (3, 0, 1),
     (3, 0, 1), (3, 0, 1), (3, 0, 1), (3, 0, 1), (3, 0, 1), (3, 0, 1), (3, 0, 1), (3, 0, 1),
     (3, 0, 1), (3, 0, 1), (3, 0, 1), (3, 0, 1), (3, 0, 1), (3, 0, 1), (3, 0, 1), (3, 0, 1),
     (3, 0, 1), (3, 0, 1), (3, 0, 1), (3, 0, 1), (3, 0, 1), (3, 0, 1), (3, 0, 1), (3, 0, 1)]"

definition istanbul_metrics_hi :: "metrics list" where
  "istanbul_metrics_hi =
    [(3, 1, 1), (3, 2, 1), (3, 3, 1), (3, 4, 1), (3, 5, 1), (3, 6, 1), (3, 7, 1), (3, 8, 1),
     (3, 9, 1), (3, 10, 1), (3, 11, 1), (3, 12, 1), (3, 13, 1), (3, 14, 1), (3, 15, 1), (3, 16, 1),
     (3, 2, 0), (3, 3, 0), (3, 4, 0), (3, 5, 0), (3, 6, 0), (3, 7, 0), (3, 8, 0), (3, 9, 0),
     (3, 10, 0), (3, 11, 0), (3, 12, 0), (3, 13, 0), (3, 14, 0), (3, 15, 0), (3, 16, 0), (3, 17, 0),
     (375, 2, -2), (750, 3, -3), (1125, 4, -4), (1500, 5, -5), (1875, 6, -6), (0, 0, 0), (0, 0, 0), (0, 0, 0),
     (0, 0, 0), (0, 0, 0), (0, 0, 0), (0, 0, 0), (0, 0, 0), (0, 0, 0), (0, 0, 0), (0, 0, 0),
     (0, 0, 0), (0, 0, 0), (0, 0, 0), (0, 0, 0), (0, 0, 0), (0, 0, 0), (0, 0, 0), (0, 0, 0),
     (0, 0, 0), (0, 0, 0), (0, 0, 0), (0, 0, 0), (0, 0, 0), (0, 0, 0), (0, 0, 0), (0, 0, 0),
     (0, 0, 0), (0, 0, 0), (0, 0, 0), (0, 0, 0), (0, 0, 0), (0, 0, 0), (0, 0, 0), (0, 0, 0),
     (0, 0, 0), (0, 0, 0), (0, 0, 0), (0, 0, 0), (0, 0, 0), (0, 0, 0), (0, 0, 0), (0, 0, 0),
     (0, 0, 0), (0, 0, 0), (0, 0, 0), (0, 0, 0), (0, 0, 0), (0, 0, 0), (0, 0, 0), (0, 0, 0),
     (0, 0, 0), (0, 0, 0), (0, 0, 0), (0, 0, 0), (0, 0, 0), (0, 0, 0), (0, 0, 0), (0, 0, 0),
     (0, 0, 0), (0, 0, 0), (0, 0, 0), (0, 0, 0), (0, 0, 0), (0, 0, 0), (0, 0, 0), (0, 0, 0),
     (0, 0, 0), (0, 0, 0), (0, 0, 0), (0, 0, 0), (0, 0, 0), (0, 0, 0), (0, 0, 0), (0, 0, 0),
     (32000, 3, -2), (700, 7, -6), (700, 7, -6), (0, 2, -2), (700, 6, -5), (32000, 4, -3), (0, 0, 0), (0, 0, 0),
     (0, 0, 0), (0, 0, 0), (700, 6, -5), (0, 0, 0), (0, 0, 0), (0, 2, -2), (0, 0, 0), (5000, 1, -1)]"

definition istanbul_metrics :: "metrics list" where
  "istanbul_metrics = istanbul_metrics_lo @ istanbul_metrics_hi"

definition constantinople_metrics_lo :: "metrics list" where
  "constantinople_metrics_lo =
    [(0, 0, 0), (3, 2, -1), (5, 2, -1), (3, 2, -1), (5, 2, -1), (5, 2, -1), (5, 2, -1), (5, 2, -1),
     (8, 3, -2), (8, 3, -2), (10, 2, -1), (5, 2, -1), (0, 0, 0), (0, 0, 0), (0, 0, 0), (0, 0, 0),
     (3, 2, -1), (3, 2, -1), (3, 2, -1), (3, 2, -1), (3, 2, -1), (3, 1, 0), (3, 2, -1), (3, 2, -1),
     (3, 2, -1), (3, 1, 0), (3, 2, -1), (3, 2, -1), (3, 2, -1), (3, 2, -1), (0, 0, 0), (0, 0, 0),
     (30, 2, -1), (0, 0, 0), (0, 0, 0), (0, 0, 0), (0, 0, 0), (0, 0, 0), (0, 0, 0), (0, 0, 0),
     (0, 0, 0), (0, 0, 0), (0, 0, 0), (0, 0, 0), (0, 0, 0), (0, 0, 0), (0, 0, 0), (0, 0, 0),
     (2, 0, 1), (400, 1, 0), (2, 0, 1), (2, 0, 1), (2, 0, 1), (3, 1, 0), (2, 0, 1), (3, 3, -3),
     (2, 0, 1), (3, 3, -3), (2, 0, 1), (700, 1, 0), (700, 4, -4), (2, 0, 1), (3, 3, -3), (400, 1, 0),
     (20, 1, 0), (2, 0, 1), (2, 0, 1), (2, 0, 1), (2, 0, 1), (2, 0, 1), (0, 0, 0), (0, 0, 0),
     (0, 0, 0), (0, 0, 0), (0, 0, 0), (0, 0, 0), (0, 0, 0), (0, 0, 0), (0, 0, 0), (0, 0, 0),
     (2, 1, -1), (3, 1, 0), (3, 2, -2), (3, 2, -2), (200, 1, 0), (0, 2, -2), (8, 1, -1), (10, 2, -2),
     (2, 0, 1), (2, 0, 1), (2, 0, 1), (1, 0, 0), (0, 0, 0), (0, 0, 0), (0, 0, 0), (0, 0, 0),
     (3, 0, 1), (3, 0, 1), (3, 0, 1), (3, 0, 1), (3, 0, 1), (3, 0, 1), (3, 0, 1), (3, 0, 1),
     (3, 0, 1), (3, 0, 1), (3, 0, 1), (3, 0, 1), (3, 0, 1), (3, 0, 1), (3, 0, 1), (3, 0, 1),
     (3, 0, 1), (3, 0, 1), (3, 0, 1), (3, 0, 1), (3, 0, 1), (3, 0, 1), (3, 0, 1), (3, 0, 1),
     (3, 0, 1), (3, 0, 1), (3, 0, 1), (3, 0, 1), (3, 0, 1), (3, 0, 1), (3, 0, 1), (3, 0, 1)]"

definition constantinople_metrics_hi :: "metrics list" where
  "constantinople_metrics_hi =
    [(3, 1, 1), (3, 2, 1), (3, 3, 1), (3, 4, 1), (3, 5, 1), (3, 6, 1), (3, 7, 1), (3, 8, 1),
     (3, 9, 1), (3, 10, 1), (3, 11, 1), (3, 12, 1), (3, 13, 1), (3, 14, 1), (3, 15, 1), (3, 16, 1),
     (3, 2, 0), (3, 3, 0), (3, 4, 0), (3, 5, 0), (3, 6, 0), (3, 7, 0), (3, 8, 0), (3, 9, 0),
     (3, 10, 0), (3, 11, 0), (3, 12, 0), (3, 13, 0), (3, 14, 0), (3, 15, 0), (3, 16, 0), (3, 17, 0),
     (375, 2, -2), (750, 3, -3), (1125, 4, -4), (1500, 5, -5), (1875, 6, -6), (0, 0, 0), (0, 0, 0), (0, 0, 0),
     (0, 0, 0), (0, 0, 0), (0, 0, 0), (0, 0, 0), (0, 0, 0), (0, 0, 0), (0, 0, 0), (0, 0, 0),
     (0, 0, 0), (0, 0, 0), (0, 0, 0), (0, 0, 0), (0, 0, 0), (0, 0, 0), (0, 0, 0), (0, 0, 0),
     (0, 0, 0), (0, 0, 0), (0, 0, 0), (0, 0, 0), (0, 0, 0), (0, 0, 0), (0, 0, 0), (0, 0, 0),
     (0, 0, 0), (0, 0, 0), (0, 0, 0), (0, 0, 0), (0, 0, 0), (0, 0, 0), (0, 0, 0), (0, 0, 0),
     (0, 0, 0), (0, 0, 0), (0, 0, 0), (0, 0, 0), (0, 0, 0), (0, 0, 0), (0, 0, 0), (0, 0, 0),
     (0, 0, 0), (0, 0, 0), (0, 0, 0), (0, 0, 0), (0, 0, 0), (0, 0, 0), (0, 0, 0), (0, 0, 0),
     (0, 0, 0), (0, 0, 0), (0, 0, 0), (0, 0, 0), (0, 0, 0), (0, 0, 0), (0, 0, 0), (0, 0, 0),
     (0, 0, 0), (0, 0, 0), (0, 0, 0), (0, 0, 0), (0, 0, 0), (0, 0, 0), (0, 0, 0), (0, 0, 0),
     (0, 0, 0), (0, 0, 0), (0, 0, 0), (0, 0, 0), (0, 0, 0), (0, 0, 0), (0, 0, 0), (0, 0, 0),
     (32000, 3, -2), (700, 7, -6), (700, 7, -6), (0, 2, -2), (700, 6, -5), (32000, 4, -3), (0, 0, 0), (0, 0, 0),
     (0, 0, 0), (0, 0, 0), (700, 6, -5), (0, 0, 0), (0, 0, 0), (0, 2, -2), (0, 0, 0), (5000, 1, -1)]"

definition constantinople_metrics :: "metrics list" where
  "constantinople_metrics = constantinople_metrics_lo @ constantinople_metrics_hi"

definition byzantium_metrics_lo :: "metrics list" where
  "byzantium_metrics_lo =
    [(0, 0, 0), (3, 2, -1), (5, 2, -1), (3, 2, -1), (5, 2, -1), (5, 2, -1), (5, 2, -1), (5, 2, -1),
     (8, 3, -2), (8, 3, -2), (10, 2, -1), (5, 2, -1), (0, 0, 0), (0, 0, 0), (0, 0, 0), (0, 0, 0),
     (3, 2, -1), (3, 2, -1), (3, 2, -1), (3, 2, -1), (3, 2, -1), (3, 1, 0), (3, 2, -1), (3, 2, -1),
     (3, 2, -1), (3, 1, 0), (3, 2, -1), (0, 0, 0), (0, 0, 0), (0, 0, 0), (0, 0, 0), (0, 0, 0),
     (30, 2, -1), (0, 0, 0), (0, 0, 0), (0, 0, 0), (0, 0, 0), (0, 0, 0), (0, 0, 0), (0, 0, 0),
     (0, 0, 0), (0, 0, 0), (0, 0, 0), (0, 0, 0), (0, 0, 0), (0, 0, 0), (0, 0, 0), (0, 0, 0),
     (2, 0, 1), (400, 1, 0), (2, 0, 1), (2, 0, 1), (2, 0, 1), (3, 1, 0), (2, 0, 1), (3, 3, -3),
     (2, 0, 1), (3, 3, -3), (2, 0, 1), (700, 1, 0), (700, 4, -4), (2, 0, 1), (3, 3, -3), (0, 0, 0),
     (20, 1, 0), (2, 0, 1), (2, 0, 1), (2, 0, 1), (2, 0, 1), (2, 0, 1), (0, 0, 0), (0, 0, 0),
     (0, 0, 0), (0, 0, 0), (0, 0, 0), (0, 0, 0), (0, 0, 0), (0, 0, 0), (0, 0, 0), (0, 0, 0),
     (2, 1, -1), (3, 1, 0), (3, 2, -2), (3, 2, -2), (200, 1, 0), (0, 2, -2), (8, 1, -1), (10, 2, -2),
     (2, 0, 1), (2, 0, 1), (2, 0, 1), (1, 0, 0), (0, 0, 0), (0, 0, 0), (0, 0, 0), (0, 0, 0),
     (3, 0, 1), (3, 0, 1), (3, 0, 1), (3, 0, 1), (3, 0, 1), (3, 0, 1), (3, 0, 1), (3, 0, 1),
     (3, 0, 1), (3, 0, 1), (3, 0, 1), (3, 0, 1), (3, 0, 1), (3, 0, 1), (3, 0, 1), (3, 0, 1),
     (3, 0, 1), (3, 0, 1), (3, 0, 1), (3, 0, 1), (3, 0, 1), (3, 0, 1), (3, 0, 1), (3, 0, 1),
     (3, 0, 1), (3, 0, 1), (3, 0, 1), (3, 0, 1), (3, 0, 1), (3, 0, 1), (3, 0, 1), (3, 0, 1)]"

definition byzantium_metrics_hi :: "metrics list" where
  "byzantium_metrics_hi =
    [(3, 1, 1), (3, 2, 1), (3, 3, 1), (3, 4, 1), (3, 5, 1), (3, 6, 1), (3, 7, 1), (3, 8, 1),
     (3, 9, 1), (3, 10, 1), (3, 11, 1), (3, 12, 1), (3, 13, 1), (3, 14, 1), (3, 15, 1), (3, 16, 1),
     (3, 2, 0), (3, 3, 0), (3, 4, 0), (3, 5, 0), (3, 6, 0), (3, 7, 0), (3, 8, 0), (3, 9, 0),
     (3, 10, 0), (3, 11, 0), (3, 12, 0), (3, 13, 0), (3, 14, 0), (3, 15, 0), (3, 16, 0), (3, 17, 0),
     (375, 2, -2), (750, 3, -3), (1125, 4, -4), (1500, 5, -5), (1875, 6, -6), (0, 0, 0), (0, 0, 0), (0, 0, 0),
     (0, 0, 0), (0, 0, 0), (0, 0, 0), (0, 0, 0), (0, 0, 0), (0, 0, 0), (0, 0, 0), (0, 0, 0),
     (0, 0, 0), (0, 0, 0), (0, 0, 0), (0, 0, 0), (0, 0, 0), (0, 0, 0), (0, 0, 0), (0, 0, 0),
     (0, 0, 0), (0, 0, 0), (0, 0, 0), (0, 0, 0), (0, 0, 0), (0, 0, 0), (0, 0, 0), (0, 0, 0),
     (0, 0, 0), (0, 0, 0), (0, 0, 0), (0, 0, 0), (0, 0, 0), (0, 0, 0), (0, 0, 0), (0, 0, 0),
     (0, 0, 0), (0, 0, 0), (0, 0, 0), (0, 0, 0), (0, 0, 0), (0, 0, 0), (0, 0, 0), (0, 0, 0),
     (0, 0, 0), (0, 0, 0), (0, 0, 0), (0, 0, 0), (0, 0, 0), (0, 0, 0), (0, 0, 0), (0, 0, 0),
     (0, 0, 0), (0, 0, 0), (0, 0, 0), (0, 0, 0), (0, 0, 0), (0, 0, 0), (0, 0, 0), (0, 0, 0),
     (0, 0, 0), (0, 0, 0), (0, 0, 0), (0, 0, 0), (0, 0, 0), (0, 0, 0), (0, 0, 0), (0, 0, 0),
     (0, 0, 0), (0, 0, 0), (0, 0, 0), (0, 0, 0), (0, 0, 0), (0, 0, 0), (0, 0, 0), (0, 0, 0),
     (32000, 3, -2), (700, 7, -6), (700, 7, -6), (0, 2, -2), (700, 6, -5), (0, 0, 0), (0, 0, 0), (0, 0, 0),
     (0, 0, 0), (0, 0, 0), (700, 6, -5), (0, 0, 0), (0, 0, 0), (0, 2, -2), (0, 0, 0), (5000, 1, -1)]"

definition byzantium_metrics :: "metrics list" where
  "byzantium_metrics = byzantium_metrics_lo @ byzantium_metrics_hi"

definition tangerine_whistle_metrics_lo :: "metrics list" where
  "tangerine_whistle_metrics_lo =
    [(0, 0, 0), (3, 2, -1), (5, 2, -1), (3, 2, -1), (5, 2, -1), (5, 2, -1), (5, 2, -1), (5, 2, -1),
     (8, 3, -2), (8, 3, -2), (10, 2, -1), (5, 2, -1), (0, 0, 0), (0, 0, 0), (0, 0, 0), (0, 0, 0),
     (3, 2, -1), (3, 2, -1), (3, 2, -1), (3, 2, -1), (3, 2, -1), (3, 1, 0), (3, 2, -1), (3, 2, -1),
     (3, 2, -1), (3, 1, 0), (3, 2, -1), (0, 0, 0), (0, 0, 0), (0, 0, 0), (0, 0, 0), (0, 0, 0),
     (30, 2, -1), (0, 0, 0), (0, 0, 0), (0, 0, 0), (0, 0, 0), (0, 0, 0), (0, 0, 0), (0, 0, 0),
     (0, 0, 0), (0, 0, 0), (0, 0, 0), (0, 0, 0), (0, 0, 0), (0, 0, 0), (0, 0, 0), (0, 0, 0),
     (2, 0, 1), (400, 1, 0), (2, 0, 1), (2, 0, 1), (2, 0, 1), (3, 1, 0), (2, 0, 1), (3, 3, -3),
     (2, 0, 1), (3, 3, -3), (2, 0, 1), (700, 1, 0), (700, 4, -4), (0, 0, 0), (0, 0, 0), (0, 0, 0),
     (20, 1, 0), (2, 0, 1), (2, 0, 1), (2, 0, 1), (2, 0, 1), (2, 0, 1), (0, 0, 0), (0, 0, 0),
     (0, 0, 0), (0, 0, 0), (0, 0, 0), (0, 0, 0), (0, 0, 0), (0, 0, 0), (0, 0, 0), (0, 0, 0),
     (2, 1, -1), (3, 1, 0), (3, 2, -2), (3, 2, -2), (200, 1, 0), (0, 2, -2), (8, 1, -1), (10, 2, -2),
     (2, 0, 1), (2, 0, 1), (2, 0, 1), (1, 0, 0), (0, 0, 0), (0, 0, 0), (0, 0, 0), (0, 0, 0),
     (3, 0, 1), (3, 0, 1), (3, 0, 1), (3, 0, 1), (3, 0, 1), (3, 0, 1), (3, 0, 1), (3, 0, 1),
     (3, 0, 1), (3, 0, 1), (3, 0, 1), (3, 0, 1), (3, 0, 1), (3, 0, 1), (3, 0, 1), (3, 0, 1),
     (3, 0, 1), (3, 0, 1), (3, 0, 1), (3, 0, 1), (3, 0, 1), (3, 0, 1), (3, 0, 1), (3, 0, 1),
     (3, 0, 1), (3, 0, 1), (3, 0, 1), (3, 0, 1), (3, 0, 1), (3, 0, 1), (3, 0, 1), (3, 0, 1)]"

definition tangerine_whistle_metrics_hi :: "metrics list" where
  "tangerine_whistle_metrics_hi =
    [(3, 1, 1), (3, 2, 1), (3, 3, 1), (3, 4, 1), (3, 5, 1), (3, 6, 1), (3, 7, 1), (3, 8, 1),
     (3, 9, 1), (3, 10, 1), (3, 11, 1), (3, 12, 1), (3, 13, 1), (3, 14, 1), (3, 15, 1), (3, 16, 1),
     (3, 2, 0), (3, 3, 0), (3, 4, 0), (3, 5, 0), (3, 6, 0), (3, 7, 0), (3, 8, 0), (3, 9, 0),
     (3, 10, 0), (3, 11, 0), (3, 12, 0), (3, 13, 0), (3, 14, 0), (3, 15, 0), (3, 16, 0), (3, 17, 0),
     (375, 2, -2), (750, 3, -3), (1125, 4, -4), (1500, 5, -5), (1875, 6, -6), (0, 0, 0), (0, 0, 0), (0, 0, 0),
     (0, 0, 0), (0, 0, 0), (0, 0, 0), (0, 0, 0), (0, 0, 0), (0, 0, 0), (0, 0, 0), (0, 0, 0),
     (0, 0, 0), (0, 0, 0), (0, 0, 0), (0, 0, 0), (0, 0, 0), (0, 0, 0), (0, 0, 0), (0, 0, 0),
     (0, 0, 0), (0, 0, 0), (0, 0, 0), (0, 0, 0), (0, 0, 0), (0, 0, 0), (0, 0, 0), (0, 0, 0),
     (0, 0, 0), (0, 0, 0), (0, 0, 0), (0, 0, 0), (0, 0, 0), (0, 0, 0), (0, 0, 0), (0, 0, 0),
     (0, 0, 0), (0, 0, 0), (0, 0, 0), (0, 0, 0), (0, 0, 0), (0, 0, 0), (0, 0, 0), (0, 0, 0),
     (0, 0, 0), (0, 0, 0), (0, 0, 0), (0, 0, 0), (0, 0, 0), (0, 0, 0), (0, 0, 0), (0, 0, 0),
     (0, 0, 0), (0, 0, 0), (0, 0, 0), (0, 0, 0), (0, 0, 0), (0, 0, 0), (0, 0, 0), (0, 0, 0),
     (0, 0, 0), (0, 0, 0), (0, 0, 0), (0, 0, 0), (0, 0, 0), (0, 0, 0), (0, 0, 0), (0, 0, 0),
     (0, 0, 0), (0, 0, 0), (0, 0, 0), (0, 0, 0), (0, 0, 0), (0, 0, 0), (0, 0, 0), (0, 0, 0),
     (32000, 3, -2), (700, 7, -6), (700, 7, -6), (0, 2, -2), (700, 6, -5), (0, 0, 0), (0, 0, 0), (0, 0, 0),
     (0, 0, 0), (0, 0, 0), (0, 0, 0), (0, 0, 0), (0, 0, 0), (0, 0, 0), (0, 0, 0), (5000, 1, -1)]"

definition tangerine_whistle_metrics :: "metrics list" where
  "tangerine_whistle_metrics = tangerine_whistle_metrics_lo @ tangerine_whistle_metrics_hi"

definition homestead_metrics_lo :: "metrics list" where
  "homestead_metrics_lo =
    [(0, 0, 0), (3, 2, -1), (5, 2, -1), (3, 2, -1), (5, 2, -1), (5, 2, -1), (5, 2, -1), (5, 2, -1),
     (8, 3, -2), (8, 3, -2), (10, 2, -1), (5, 2, -1), (0, 0, 0), (0, 0, 0), (0, 0, 0), (0, 0, 0),
     (3, 2, -1), (3, 2, -1), (3, 2, -1), (3, 2, -1), (3, 2, -1), (3, 1, 0), (3, 2, -1), (3, 2, -1),
     (3, 2, -1), (3, 1, 0), (3, 2, -1), (0, 0, 0), (0, 0, 0), (0, 0, 0), (0, 0, 0), (0, 0, 0),
     (30, 2, -1), (0, 0, 0), (0, 0, 0), (0, 0, 0), (0, 0, 0), (0, 0, 0), (0, 0, 0), (0, 0, 0),
     (0, 0, 0), (0, 0, 0), (0, 0, 0), (0, 0, 0), (0, 0, 0), (0, 0, 0), (0, 0, 0), (0, 0, 0),
     (2, 0, 1), (20, 1, 0), (2, 0, 1), (2, 0, 1), (2, 0, 1), (3, 1, 0), (2, 0, 1), (3, 3, -3),
     (2, 0, 1), (3, 3, -3), (2, 0, 1), (20, 1, 0), (20, 4, -4), (0, 0, 0), (0, 0, 0), (0, 0, 0),
     (20, 1, 0), (2, 0, 1), (2, 0, 1), (2, 0, 1), (2, 0, 1), (2, 0, 1), (0, 0, 0), (0, 0, 0),
     (0, 0, 0), (0, 0, 0), (0, 0, 0), (0, 0, 0), (0, 0, 0), (0, 0, 0), (0, 0, 0), (0, 0, 0),
     (2, 1, -1), (3, 1, 0), (3, 2, -2), (3, 2, -2), (50, 1, 0), (0, 2, -2), (8, 1, -1), (10, 2, -2),
     (2, 0, 1), (2, 0, 1), (2, 0, 1), (1, 0, 0), (0, 0, 0), (0, 0, 0), (0, 0, 0), (0, 0, 0),
     (3, 0, 1), (3, 0, 1), (3, 0, 1), (3, 0, 1), (3, 0, 1), (3, 0, 1), (3, 0, 1), (3, 0, 1),
     (3, 0, 1), (3, 0, 1), (3, 0, 1), (3, 0, 1), (3, 0, 1), (3, 0, 1), (3, 0, 1), (3, 0, 1),
     (3, 0, 1), (3, 0, 1), (3, 0, 1), (3, 0, 1), (3, 0, 1), (3, 0, 1), (3, 0, 1), (3, 0, 1),
     (3, 0, 1), (3, 0, 1), (3, 0, 1), (3, 0, 1), (3, 0, 1), (3, 0, 1), (3, 0, 1), (3, 0, 1)]"

definition homestead_metrics_hi :: "metrics list" where
  "homestead_metrics_hi =
    [(3, 1, 1), (3, 2, 1), (3, 3, 1), (3, 4, 1), (3, 5, 1), (3, 6, 1), (3, 7, 1), (3, 8, 1),
     (3, 9, 1), (3, 10, 1), (3, 11, 1), (3, 12, 1), (3, 13, 1), (3, 14, 1), (3, 15, 1), (3, 16, 1),
     (3, 2, 0), (3, 3, 0), (3, 4, 0), (3, 5, 0), (3, 6, 0), (3, 7, 0), (3, 8, 0), (3, 9, 0),
     (3, 10, 0), (3, 11, 0), (3, 12, 0), (3, 13, 0), (3, 14, 0), (3, 15, 0), (3, 16, 0), (3, 17, 0),
     (375, 2, -2), (750, 3, -3), (1125, 4, -4), (1500, 5, -5), (1875, 6, -6), (0, 0, 0), (0, 0, 0), (0, 0, 0),
     (0, 0, 0), (0, 0, 0), (0, 0, 0), (0, 0, 0), (0, 0, 0), (0, 0, 0), (0, 0, 0), (0, 0, 0),
     (0, 0, 0), (0, 0, 0), (0, 0, 0), (0, 0, 0), (0, 0, 0), (0, 0, 0), (0, 0, 0), (0, 0, 0),
     (0, 0, 0), (0, 0, 0), (0, 0, 0), (0, 0, 0), (0, 0, 0), (0, 0, 0), (0, 0, 0), (0, 0, 0),
     (0, 0, 0), (0, 0, 0), (0, 0, 0), (0, 0, 0), (0, 0, 0), (0, 0, 0), (0, 0, 0), (0, 0, 0),
     (0, 0, 0), (0, 0, 0), (0, 0, 0), (0, 0, 0), (0, 0, 0), (0, 0, 0), (0, 0, 0), (0, 0, 0),
     (0, 0, 0), (0, 0, 0), (0, 0, 0), (0, 0, 0), (0, 0, 0), (0, 0, 0), (0, 0, 0), (0, 0, 0),
     (0, 0, 0), (0, 0, 0), (0, 0, 0), (0, 0, 0), (0, 0, 0), (0, 0, 0), (0, 0, 0), (0, 0, 0),
     (0, 0, 0), (0, 0, 0), (0, 0, 0), (0, 0, 0), (0, 0, 0), (0, 0, 0), (0, 0, 0), (0, 0, 0),
     (0, 0, 0), (0, 0, 0), (0, 0, 0), (0, 0, 0), (0, 0, 0), (0, 0, 0), (0, 0, 0), (0, 0, 0),
     (32000, 3, -2), (40, 7, -6), (40, 7, -6), (0, 2, -2), (40, 6, -5), (0, 0, 0), (0, 0, 0), (0, 0, 0),
     (0, 0, 0), (0, 0, 0), (0, 0, 0), (0, 0, 0), (0, 0, 0), (0, 0, 0), (0, 0, 0), (0, 1, -1)]"

definition homestead_metrics :: "metrics list" where
  "homestead_metrics = homestead_metrics_lo @ homestead_metrics_hi"

definition frontier_metrics_lo :: "metrics list" where
  "frontier_metrics_lo =
    [(0, 0, 0), (3, 2, -1), (5, 2, -1), (3, 2, -1), (5, 2, -1), (5, 2, -1), (5, 2, -1), (5, 2, -1),
     (8, 3, -2), (8, 3, -2), (10, 2, -1), (5, 2, -1), (0, 0, 0), (0, 0, 0), (0, 0, 0), (0, 0, 0),
     (3, 2, -1), (3, 2, -1), (3, 2, -1), (3, 2, -1), (3, 2, -1), (3, 1, 0), (3, 2, -1), (3, 2, -1),
     (3, 2, -1), (3, 1, 0), (3, 2, -1), (0, 0, 0), (0, 0, 0), (0, 0, 0), (0, 0, 0), (0, 0, 0),
     (30, 2, -1), (0, 0, 0), (0, 0, 0), (0, 0, 0), (0, 0, 0), (0, 0, 0), (0, 0, 0), (0, 0, 0),
     (0, 0, 0), (0, 0, 0), (0, 0, 0), (0, 0, 0), (0, 0, 0), (0, 0, 0), (0, 0, 0), (0, 0, 0),
     (2, 0, 1), (20, 1, 0), (2, 0, 1), (2, 0, 1), (2, 0, 1), (3, 1, 0), (2, 0, 1), (3, 3, -3),
     (2, 0, 1), (3, 3, -3), (2, 0, 1), (20, 1, 0), (20, 4, -4), (0, 0, 0), (0, 0, 0), (0, 0, 0),
     (20, 1, 0), (2, 0, 1), (2, 0, 1), (2, 0, 1), (2, 0, 1), (2, 0, 1), (0, 0, 0), (0, 0, 0),
     (0, 0, 0), (0, 0, 0), (0, 0, 0), (0, 0, 0), (0, 0, 0), (0, 0, 0), (0, 0, 0), (0, 0, 0),
     (2, 1, -1), (3, 1, 0), (3, 2, -2), (3, 2, -2), (50, 1, 0), (0, 2, -2), (8, 1, -1), (10, 2, -2),
     (2, 0, 1), (2, 0, 1), (2, 0, 1), (1, 0, 0), (0, 0, 0), (0, 0, 0), (0, 0, 0), (0, 0, 0),
     (3, 0, 1), (3, 0, 1), (3, 0, 1), (3, 0, 1), (3, 0, 1), (3, 0, 1), (3, 0, 1), (3, 0, 1),
     (3, 0, 1), (3, 0, 1), (3, 0, 1), (3, 0, 1), (3, 0, 1), (3, 0, 1), (3, 0, 1), (3, 0, 1),
     (3, 0, 1), (3, 0, 1), (3, 0, 1), (3, 0, 1), (3, 0, 1), (3, 0, 1), (3, 0, 1), (3, 0, 1),
     (3, 0, 1), (3, 0, 1), (3, 0, 1), (3, 0, 1), (3, 0, 1), (3, 0, 1), (3, 0, 1), (3, 0, 1)]"

definition frontier_metrics_hi :: "metrics list" where
  "frontier_metrics_hi =
    [(3, 1, 1), (3, 2, 1), (3, 3, 1), (3, 4, 1), (3, 5, 1), (3, 6, 1), (3, 7, 1), (3, 8, 1),
     (3, 9, 1), (3, 10, 1), (3, 11, 1), (3, 12, 1), (3, 13, 1), (3, 14, 1), (3, 15, 1), (3, 16, 1),
     (3, 2, 0), (3, 3, 0), (3, 4, 0), (3, 5, 0), (3, 6, 0), (3, 7, 0), (3, 8, 0), (3, 9, 0),
     (3, 10, 0), (3, 11, 0), (3, 12, 0), (3, 13, 0), (3, 14, 0), (3, 15, 0), (3, 16, 0), (3, 17, 0),
     (375, 2, -2), (750, 3, -3), (1125, 4, -4), (1500, 5, -5), (1875, 6, -6), (0, 0, 0), (0, 0, 0), (0, 0, 0),
     (0, 0, 0), (0, 0, 0), (0, 0, 0), (0, 0, 0), (0, 0, 0), (0, 0, 0), (0, 0, 0), (0, 0, 0),
     (0, 0, 0), (0, 0, 0), (0, 0, 0), (0, 0, 0), (0, 0, 0), (0, 0, 0), (0, 0, 0), (0, 0, 0),
     (0, 0, 0), (0, 0, 0), (0, 0, 0), (0, 0, 0), (0, 0, 0), (0, 0, 0), (0, 0, 0), (0, 0, 0),
     (0, 0, 0), (0, 0, 0), (0, 0, 0), (0, 0, 0), (0, 0, 0), (0, 0, 0), (0, 0, 0), (0, 0, 0),
     (0, 0, 0), (0, 0, 0), (0, 0, 0), (0, 0, 0), (0, 0, 0), (0, 0, 0), (0, 0, 0), (0, 0, 0),
     (0, 0, 0), (0, 0, 0), (0, 0, 0), (0, 0, 0), (0, 0, 0), (0, 0, 0), (0, 0, 0), (0, 0, 0),
     (0, 0, 0), (0, 0, 0), (0, 0, 0), (0, 0, 0), (0, 0, 0), (0, 0, 0), (0, 0, 0), (0, 0, 0),
     (0, 0, 0), (0, 0, 0), (0, 0, 0), (0, 0, 0), (0, 0, 0), (0, 0, 0), (0, 0, 0), (0, 0, 0),
     (0, 0, 0), (0, 0, 0), (0, 0, 0), (0, 0, 0), (0, 0, 0), (0, 0, 0), (0, 0, 0), (0, 0, 0),
     (32000, 3, -2), (40, 7, -6), (40, 7, -6), (0, 2, -2), (0, 0, 0), (0, 0, 0), (0, 0, 0), (0, 0, 0),
     (0, 0, 0), (0, 0, 0), (0, 0, 0), (0, 0, 0), (0, 0, 0), (0, 0, 0), (0, 0, 0), (0, 1, -1)]"

definition frontier_metrics :: "metrics list" where
  "frontier_metrics = frontier_metrics_lo @ frontier_metrics_hi"

text \<open>The revisions, in the order of the enumeration.\<close>

definition EVMC_FRONTIER :: nat where "EVMC_FRONTIER = 0"
definition EVMC_HOMESTEAD :: nat where "EVMC_HOMESTEAD = 1"
definition EVMC_TANGERINE_WHISTLE :: nat where "EVMC_TANGERINE_WHISTLE = 2"
definition EVMC_SPURIOUS_DRAGON :: nat where "EVMC_SPURIOUS_DRAGON = 3"
definition EVMC_BYZANTIUM :: nat where "EVMC_BYZANTIUM = 4"
definition EVMC_CONSTANTINOPLE :: nat where "EVMC_CONSTANTINOPLE = 5"
definition EVMC_PETERSBURG :: nat where "EVMC_PETERSBURG = 6"
definition EVMC_ISTANBUL :: nat where "EVMC_ISTANBUL = 7"
definition EVMC_BERLIN :: nat where "EVMC_BERLIN = 8"

lemmas revision_defs = EVMC_FRONTIER_def EVMC_HOMESTEAD_def EVMC_TANGERINE_WHISTLE_def EVMC_SPURIOUS_DRAGON_def EVMC_BYZANTIUM_def EVMC_CONSTANTINOPLE_def EVMC_PETERSBURG_def EVMC_ISTANBUL_def EVMC_BERLIN_def

definition evmc_get_instruction_metrics_table :: "nat \<Rightarrow> metrics list" where
  "evmc_get_instruction_metrics_table revision =
     (if revision = EVMC_ISTANBUL \<or> revision = EVMC_BERLIN then istanbul_metrics
      else if revision = EVMC_PETERSBURG \<or> revision = EVMC_CONSTANTINOPLE then constantinople_metrics
      else if revision = EVMC_BYZANTIUM then byzantium_metrics
      else if revision = EVMC_SPURIOUS_DRAGON \<or> revision = EVMC_TANGERINE_WHISTLE
      then tangerine_whistle_metrics
      else if revision = EVMC_HOMESTEAD then homestead_metrics
      else if revision = EVMC_FRONTIER then frontier_metrics
      else [])"

text \<open>\<open>initMetrics\<close>: \<open>PUSHC\<close>, \<open>JUMPC\<close> and \<open>JUMPCI\<close> take the metrics of \<open>PUSH1\<close>, \<open>JUMP\<close> and
  \<open>JUMPI\<close>.\<close>

definition s_metrics :: "nat \<Rightarrow> metrics list" where
  "s_metrics revision =
     (let t = evmc_get_instruction_metrics_table revision
      in t[0xac := t ! 0x60, 0xad := t ! 0x56, 0xae := t ! 0x57])"

end
