(* ===== verification/EvmState.thy ===== *)
theory EvmState
  imports EvmMetrics FixedHash
begin

text \<open>
  The state of the EVM interpreter, class \<open>VM\<close> of libaleth-interpreter/VM.h, and the parts of
  VM.cpp, VMOpt.cpp and VMCalls.cpp below the instruction cases: metering, memory growth,
  stack adjustment, instruction fetch, jump destinations and the copied code. The stack is the
  array of 1024 words that grows towards smaller indices; \<open>m_SP\<close> and \<open>m_SPP\<close> are indices into
  it. Every read or write of the stack, the memory or the code goes through an accessor that
  fails with \<open>OutOfBounds\<close> where the program would leave the array; that error stands for
  undefined behaviour and is shown never to occur. A computation that throws keeps the state
  at that point, since the caller reads the gas of a reverted frame and the host keeps its
  changes. 512 bit integers only hold values far below \<open>2 ^ 512\<close> and are natural numbers.

  The EVMC host is the argument \<open>host\<close>, a record of its callbacks over a state of its own; the
  multi-word arithmetic of the intx library beyond the operators, and Keccak, are the
  functions of \<open>intx\<close>.
\<close>

section \<open>Messages, host and environment\<close>

datatype call_kind = EVMC_CALL | EVMC_DELEGATECALL | EVMC_CALLCODE | EVMC_CREATE | EVMC_CREATE2

record evmc_message =
  msg_kind :: call_kind
  msg_static :: bool
  msg_depth :: int
  msg_gas :: u64
  msg_destination :: u160
  msg_sender :: u160
  msg_input :: bytes
  msg_value :: u256
  msg_create2_salt :: u256

datatype evmc_status = EVMC_SUCCESS | EVMC_FAILURE | EVMC_REVERT | EVMC_OUT_OF_GAS
  | EVMC_INVALID_INSTRUCTION | EVMC_UNDEFINED_INSTRUCTION | EVMC_STACK_OVERFLOW
  | EVMC_STACK_UNDERFLOW | EVMC_BAD_JUMP_DESTINATION | EVMC_INVALID_MEMORY_ACCESS
  | EVMC_STATIC_MODE_VIOLATION | EVMC_INTERNAL_ERROR

record call_result =
  res_status :: evmc_status
  res_gas_left :: u64
  res_output :: bytes
  res_create_address :: u160

record tx_context =
  tx_gas_price :: u256
  tx_origin :: u160
  block_coinbase :: u160
  block_number :: u64
  block_timestamp :: u64
  block_gas_limit :: u64
  block_difficulty :: u256
  tx_chain_id :: u256

datatype storage_status = STORAGE_UNCHANGED | STORAGE_MODIFIED | STORAGE_MODIFIED_AGAIN
  | STORAGE_ADDED | STORAGE_DELETED

record 'h host =
  account_exists :: "'h \<Rightarrow> u160 \<Rightarrow> bool \<times> 'h"
  get_storage :: "'h \<Rightarrow> u160 \<Rightarrow> u256 \<Rightarrow> u256 \<times> 'h"
  set_storage :: "'h \<Rightarrow> u160 \<Rightarrow> u256 \<Rightarrow> u256 \<Rightarrow> storage_status \<times> 'h"
  get_balance :: "'h \<Rightarrow> u160 \<Rightarrow> u256 \<times> 'h"
  get_code_size :: "'h \<Rightarrow> u160 \<Rightarrow> u64 \<times> 'h"
  get_code_hash :: "'h \<Rightarrow> u160 \<Rightarrow> u256 \<times> 'h"
  copy_code :: "'h \<Rightarrow> u160 \<Rightarrow> u64 \<Rightarrow> u64 \<Rightarrow> bytes \<times> 'h"
  host_selfdestruct :: "'h \<Rightarrow> u160 \<Rightarrow> u160 \<Rightarrow> 'h"
  host_call :: "'h \<Rightarrow> evmc_message \<Rightarrow> call_result \<times> 'h"
  get_tx_context :: "'h \<Rightarrow> tx_context"
  get_block_hash :: "'h \<Rightarrow> u64 \<Rightarrow> u256 \<times> 'h"
  emit_log :: "'h \<Rightarrow> u160 \<Rightarrow> bytes \<Rightarrow> u256 list \<Rightarrow> 'h"

record intx =
  ix_sdivrem :: "u256 \<Rightarrow> u256 \<Rightarrow> u256 \<times> u256"
  ix_addmod :: "u256 \<Rightarrow> u256 \<Rightarrow> u256 \<Rightarrow> u256"
  ix_mulmod :: "u256 \<Rightarrow> u256 \<Rightarrow> u256 \<Rightarrow> u256"
  ix_exp :: "u256 \<Rightarrow> u256 \<Rightarrow> u256"
  ix_significant_bytes :: "u256 \<Rightarrow> nat"
  ix_keccak256 :: "bytes \<Rightarrow> u256"

record 'h env =
  m_host :: "'h host"
  m_intx :: intx
  m_rev :: nat
  m_message :: evmc_message
  m_pCode :: bytes

section \<open>The machine\<close>

datatype vm_exn = OutOfGas | BadInstruction | InvalidInstruction | BadJumpDestination | OutOfStack
  | StackUnderflow | BufferOverrun | DisallowedStateChange | RevertInstruction bytes | OutOfBounds

text \<open>The trampoline's next function.\<close>

datatype bounce = BounceInit | BounceInterpret | BounceCreate | BounceCall | BounceNull

record 'h vm =
  m_context :: 'h
  m_io_gas :: u64
  m_tx_context :: "tx_context option"
  m_bounce :: bounce
  m_output :: bytes
  m_mem :: bytes
  m_code :: bytes
  m_returnData :: bytes
  m_stack :: "u256 list"
  m_OP :: byte
  m_PC :: nat
  m_SP :: int
  m_SPP :: int
  m_runGas :: u64
  m_newMemSize :: u64
  m_copyMemSize :: u64
  m_jumpDests :: "nat list"

type_synonym ('h, 'a) vm_result = "(vm_exn \<times> 'h vm) + 'a"

definition throwE :: "vm_exn \<Rightarrow> 'h vm \<Rightarrow> ('h, 'a) vm_result" where
  "throwE e s = Inl (e, s)"

text \<open>A question to the host, which may change the host's state, such as its caches.\<close>

definition ask :: "('h \<Rightarrow> 'a \<times> 'h) \<Rightarrow> 'h vm \<Rightarrow> ('h, 'a \<times> 'h vm) vm_result" where
  "ask f s = (case f (m_context s) of (x, h) \<Rightarrow> Inr (x, s\<lparr>m_context := h\<rparr>))"

definition check :: "bool \<Rightarrow> vm_exn \<Rightarrow> 'h vm \<Rightarrow> ('h, unit) vm_result" where
  "check b e s = (if b then throwE e s else Inr ())"

definition stackLimit :: nat where "stackLimit = 1024"
definition sha3Gas :: nat where "sha3Gas = 30"
definition sha3WordGas :: nat where "sha3WordGas = 6"
definition sstoreSetGas :: nat where "sstoreSetGas = 20000"
definition sstoreResetGas :: nat where "sstoreResetGas = 5000"
definition jumpdestGas :: nat where "jumpdestGas = 1"
definition logGas :: nat where "logGas = 375"
definition logDataGas :: nat where "logDataGas = 8"
definition logTopicGas :: nat where "logTopicGas = 375"
definition createGas :: nat where "createGas = 32000"
definition memoryGas :: nat where "memoryGas = 3"
definition quadCoeffDiv :: nat where "quadCoeffDiv = 512"
definition copyGas :: nat where "copyGas = 3"
definition valueTransferGas :: nat where "valueTransferGas = 9000"
definition callStipend :: nat where "callStipend = 2300"
definition callNewAccount :: nat where "callNewAccount = 25000"
definition callSelfGas :: nat where "callSelfGas = 40"
definition stepGas5 :: nat where "stepGas5 = 10"
definition stepGas6 :: nat where "stepGas6 = 20"

lemmas vm_consts = stackLimit_def sha3Gas_def sha3WordGas_def sstoreSetGas_def sstoreResetGas_def
  jumpdestGas_def logGas_def logDataGas_def logTopicGas_def createGas_def memoryGas_def
  quadCoeffDiv_def copyGas_def valueTransferGas_def callStipend_def callNewAccount_def
  callSelfGas_def stepGas5_def stepGas6_def

section \<open>Access to the arrays\<close>

text \<open>\<open>m_SP[k]\<close>, \<open>m_SPP[0] = v\<close> and \<open>m_SP[k] = v\<close>.\<close>

definition rd_SP :: "'h vm \<Rightarrow> nat \<Rightarrow> ('h, u256) vm_result" where
  "rd_SP s k =
     (let i = m_SP s + int k in
      if 0 \<le> i \<and> i < int (length (m_stack s)) then Inr (m_stack s ! nat i) else throwE OutOfBounds s)"

definition wr_stack :: "int \<Rightarrow> u256 \<Rightarrow> 'h vm \<Rightarrow> ('h, 'h vm) vm_result" where
  "wr_stack i v s =
     (if 0 \<le> i \<and> i < int (length (m_stack s))
      then Inr (s\<lparr>m_stack := (m_stack s)[nat i := v]\<rparr>) else throwE OutOfBounds s)"

definition wr_SPP0 :: "u256 \<Rightarrow> 'h vm \<Rightarrow> ('h, 'h vm) vm_result" where
  "wr_SPP0 v s = wr_stack (m_SPP s) v s"

definition wr_SP :: "nat \<Rightarrow> u256 \<Rightarrow> 'h vm \<Rightarrow> ('h, 'h vm) vm_result" where
  "wr_SP k v s = wr_stack (m_SP s + int k) v s"

definition rd_code :: "'h vm \<Rightarrow> nat \<Rightarrow> ('h, byte) vm_result" where
  "rd_code s i = (if i < length (m_code s) then Inr (m_code s ! i) else throwE OutOfBounds s)"

text \<open>A range of \<open>n\<close> bytes at an offset of the memory; an empty range is not accessed.\<close>

definition rd_mem :: "'h vm \<Rightarrow> nat \<Rightarrow> nat \<Rightarrow> ('h, bytes) vm_result" where
  "rd_mem s off n =
     (if n = 0 then Inr [] else if off + n \<le> length (m_mem s) then Inr (take n (drop off (m_mem s)))
      else throwE OutOfBounds s)"

definition wr_mem :: "nat \<Rightarrow> bytes \<Rightarrow> 'h vm \<Rightarrow> ('h, 'h vm) vm_result" where
  "wr_mem off bs s =
     (if bs = [] then Inr s
      else if off + length bs \<le> length (m_mem s)
      then Inr (s\<lparr>m_mem := take off (m_mem s) @ bs @ drop (off + length bs) (m_mem s)\<rparr>)
      else throwE OutOfBounds s)"

section \<open>Metering\<close>

definition toInt63 :: "'h vm \<Rightarrow> nat \<Rightarrow> ('h, u64) vm_result" where
  "toInt63 s v = (if v > 0x7FFFFFFFFFFFFFFF then throwE OutOfGas s else Inr (of_nat v))"

definition memNeed :: "'h vm \<Rightarrow> u256 \<Rightarrow> u256 \<Rightarrow> ('h, u64) vm_result" where
  "memNeed s offset sz = toInt63 s (if sz \<noteq> 0 then unat offset + unat sz else 0)"

definition gasForMem :: "'h vm \<Rightarrow> nat \<Rightarrow> ('h, u64) vm_result" where
  "gasForMem s sz = (let n = sz div 32 in toInt63 s (memoryGas * n + n * n div quadCoeffDiv))"

definition updateIOGas :: "'h vm \<Rightarrow> ('h, 'h vm) vm_result" where
  "updateIOGas s =
     (if m_io_gas s < m_runGas s then throwE OutOfGas s
      else Inr (s\<lparr>m_io_gas := m_io_gas s - m_runGas s\<rparr>))"

definition updateGas :: "'h vm \<Rightarrow> ('h, 'h vm) vm_result" where
  "updateGas s =
     bindE (if unat (m_newMemSize s) > length (m_mem s)
            then bindE (gasForMem s (unat (m_newMemSize s))) (\<lambda>a.
                 bindE (gasForMem s (length (m_mem s))) (\<lambda>b.
                 bindE (toInt63 s (unat (a - b))) (\<lambda>d.
                   Inr (s\<lparr>m_runGas := m_runGas s + d\<rparr>))))
            else Inr s) (\<lambda>s.
       let s = s\<lparr>m_runGas := m_runGas s + of_nat copyGas * ((m_copyMemSize s + 31) div 32)\<rparr> in
       if m_io_gas s < m_runGas s then throwE OutOfGas s else Inr s)"

definition updateMem :: "u64 \<Rightarrow> 'h vm \<Rightarrow> ('h, 'h vm) vm_result" where
  "updateMem newMem s =
     bindE (updateGas (s\<lparr>m_newMemSize := (newMem + 31) div 32 * 32\<rparr>)) (\<lambda>s.
       Inr (if unat (m_newMemSize s) > length (m_mem s)
            then s\<lparr>m_mem := m_mem s @ replicate (unat (m_newMemSize s) - length (m_mem s)) 0\<rparr>
            else s))"

definition logGasMem :: "nat \<Rightarrow> 'h vm \<Rightarrow> ('h, 'h vm) vm_result" where
  "logGasMem n s =
     bindE (rd_SP s 1) (\<lambda>sz.
     bindE (toInt63 s (logGas + logTopicGas * n + logDataGas * unat sz)) (\<lambda>g.
     let s = s\<lparr>m_runGas := g\<rparr> in
     bindE (rd_SP s 0) (\<lambda>off.
     bindE (memNeed s off sz) (\<lambda>need. updateMem need s))))"

section \<open>Stack adjustment and fetch\<close>

definition throwBadStack :: "int \<Rightarrow> 'h vm \<Rightarrow> ('h, 'a) vm_result" where
  "throwBadStack required s =
     (if int stackLimit - m_SPP s < required then throwE StackUnderflow s else throwE OutOfStack s)"

definition adjustStack :: "int \<Rightarrow> int \<Rightarrow> 'h vm \<Rightarrow> ('h, 'h vm) vm_result" where
  "adjustStack required change s =
     (let s = s\<lparr>m_SP := m_SPP s\<rparr> in
      if int stackLimit < m_SP s + required then throwBadStack required s
      else let s = s\<lparr>m_SPP := m_SPP s - change\<rparr> in
        if m_SPP s < 0 then throwBadStack required s else Inr s)"

definition fetchInstruction :: "'h env \<Rightarrow> 'h vm \<Rightarrow> ('h, 'h vm) vm_result" where
  "fetchInstruction env s =
     bindE (rd_code s (m_PC s)) (\<lambda>op.
       case s_metrics (m_rev env) ! unat op of (gas_cost, required, change) \<Rightarrow>
         bindE (adjustStack required change (s\<lparr>m_OP := op\<rparr>)) (\<lambda>s.
           Inr (s\<lparr>m_runGas := of_nat gas_cost, m_newMemSize := of_nat (length (m_mem s)),
                  m_copyMemSize := 0\<rparr>)))"

definition getTxContext :: "'h env \<Rightarrow> 'h vm \<Rightarrow> tx_context \<times> 'h vm" where
  "getTxContext env s =
     (case m_tx_context s of
        Some c \<Rightarrow> (c, s)
      | None \<Rightarrow> let c = get_tx_context (m_host env) (m_context s) in (c, s\<lparr>m_tx_context := Some c\<rparr>))"

text \<open>\<open>std::binary_search\<close> on the sorted table of destinations.\<close>

definition verifyJumpDest :: "u256 \<Rightarrow> 'h vm \<Rightarrow> ('h, nat) vm_result" where
  "verifyJumpDest dest s =
     (if dest \<le> 0x7FFFFFFFFFFFFFFF \<and> unat dest \<in> set (m_jumpDests s) then Inr (unat dest)
      else throwE BadJumpDestination s)"

text \<open>\<open>size()\<close> of a byte reference, at the width of \<open>size_t\<close>.\<close>

definition size_t :: "bytes \<Rightarrow> nat" where "size_t data = unat (of_nat (length data) :: u64)"

definition copyDataToMemory :: "bytes \<Rightarrow> 'h vm \<Rightarrow> ('h, 'h vm) vm_result" where
  "copyDataToMemory data s =
     bindE (rd_SP s 0) (\<lambda>sp0. bindE (rd_SP s 1) (\<lambda>sp1. bindE (rd_SP s 2) (\<lambda>sp2.
       let offset = unat (ucast sp0 :: u64); bigIndex = unat sp1;
           index = unat (ucast sp1 :: u64); size = unat (ucast sp2 :: u64);
           n = size_t data;
           sizeToBeCopied = (if bigIndex + size > n
                             then (if n < bigIndex then 0 else n - index) else size)
       in bindE (if sizeToBeCopied > 0
                 then if index + sizeToBeCopied \<le> length data
                      then wr_mem offset (take sizeToBeCopied (drop index data)) s
                      else throwE OutOfBounds s
                 else Inr s) (\<lambda>s.
          if size > sizeToBeCopied
          then wr_mem (offset + sizeToBeCopied) (replicate (size - sizeToBeCopied) 0) s
          else Inr s))))"

section \<open>Preparing the code\<close>

definition copyCode :: "bytes \<Rightarrow> nat \<Rightarrow> bytes" where
  "copyCode pCode extraBytes = pCode @ replicate extraBytes 0"

function optimize_loop :: "nat \<Rightarrow> nat \<Rightarrow> bytes \<Rightarrow> nat list \<Rightarrow> bytes \<times> nat list" where
  "optimize_loop nBytes pc code dests =
     (if pc < nBytes
      then let op = unat (code ! pc);
               code' = (if op = 0xac \<or> op = 0xad \<or> op = 0xae then code[pc := 0xaf] else code)
           in if op = 0x5b then optimize_loop nBytes (Suc pc) code' (dests @ [pc])
              else if 0x60 \<le> op \<and> op \<le> 0x7f
              then optimize_loop nBytes (Suc (pc + (op - 0x60 + 1))) code' dests
              else optimize_loop nBytes (Suc pc) code' dests
      else (code, dests))"
  by pat_completeness auto
termination
  by (relation "measure (\<lambda>(nBytes, pc, code, dests). nBytes - pc)") auto

declare optimize_loop.simps [simp del]

definition vm_optimize :: "'h env \<Rightarrow> 'h vm \<Rightarrow> 'h vm" where
  "vm_optimize env s =
     (case optimize_loop (length (m_pCode env)) 0 (copyCode (m_pCode env) 33) [] of
        (code, dests) \<Rightarrow> s\<lparr>m_code := code, m_jumpDests := dests\<rparr>)"

definition initEntry :: "'h env \<Rightarrow> 'h vm \<Rightarrow> 'h vm" where
  "initEntry env s = vm_optimize env (s\<lparr>m_bounce := BounceInterpret\<rparr>)"

definition vm_new :: "'h env \<Rightarrow> 'h \<Rightarrow> 'h vm" where
  "vm_new env context =
     \<lparr>m_context = context, m_io_gas = msg_gas (m_message env), m_tx_context = None,
      m_bounce = BounceInit, m_output = [], m_mem = [], m_code = [], m_returnData = [],
      m_stack = replicate stackLimit 0, m_OP = 0, m_PC = 0, m_SP = int stackLimit,
      m_SPP = int stackLimit, m_runGas = 0, m_newMemSize = 0, m_copyMemSize = 0, m_jumpDests = []\<rparr>"

end
