(* ===== verification/EvmInterp.thy ===== *)
theory EvmInterp
  imports EvmState
begin

text \<open>
  The instruction cases of the interpreter, \<open>VM::interpretCases\<close> and the functions it bounces
  to, libaleth-interpreter/VM.cpp and VMCalls.cpp. One definition per case (or per group of
  cases with one body); \<open>interp_op\<close> dispatches on the decoded opcode, \<open>vm_step\<close> is one turn:
  one instruction of the loop, or one call of the trampoline's other functions. \<open>vm_exec\<close> is the
  trampoline and \<open>execute\<close> the EVMC entry point that turns exceptions into status codes. The
  build's dispatch options are off (\<open>EVM_OPTIMIZE\<close> is false).
\<close>

section \<open>Opcodes\<close>

datatype binop = ADD | MUL | SUB | DIV | SDIV | MOD | SMOD | LT | GT | SLT | SGT | EQ
  | BITAND | BITOR | BITXOR | BYTE

datatype unop = BITNOT | ISZERO

datatype triop = ADDMOD | MULMOD

datatype shiftop = SHL | SHR | SAR

datatype envop = ADDRESS | ORIGIN | CALLER | CALLVALUE | CALLDATASIZE | RETURNDATASIZE | CODESIZE
  | GASPRICE | COINBASE | TIMESTAMP | NUMBER | DIFFICULTY | GASLIMIT | CHAINID | SELFBALANCE
  | PC | MSIZE | GAS

datatype callop = CALL | CALLCODE | DELEGATECALL | STATICCALL

datatype instr = STOP | Bin binop | Una unop | Tri triop | Shift shiftop | EXP | SIGNEXTEND | SHA3
  | Env envop | BALANCE | CALLDATALOAD | EXTCODESIZE | EXTCODEHASH | BLOCKHASH | CALLDATACOPY
  | CODECOPY | EXTCODECOPY | RETURNDATACOPY | POP | MLOAD | MSTORE | MSTORE8 | SLOAD | SSTORE
  | JUMP | JUMPI | JUMPDEST | PUSH nat | DUP nat | SWAP nat | LOG nat | PUSHC | JUMPC | JUMPCI
  | EXTENDED | CREATE | CREATE2 | Call callop | RETURN | REVERT | INVALID | UNDEFINED
  | SELFDESTRUCT

text \<open>The bytes of the enumeration \<open>Instruction\<close> (libevm/Instruction.h) that are not in a
  range; \<open>EXTENDED\<close> are the subroutine and vector opcodes, which are never executed.\<close>

definition opcode_table :: "(nat \<times> instr) list" where
  "opcode_table =
    [(0x00, STOP), (0x01, Bin ADD), (0x02, Bin MUL), (0x03, Bin SUB), (0x04, Bin DIV),
     (0x05, Bin SDIV), (0x06, Bin MOD), (0x07, Bin SMOD), (0x08, Tri ADDMOD), (0x09, Tri MULMOD),
     (0x0a, EXP), (0x0b, SIGNEXTEND), (0x10, Bin LT), (0x11, Bin GT), (0x12, Bin SLT),
     (0x13, Bin SGT), (0x14, Bin EQ), (0x15, Una ISZERO), (0x16, Bin BITAND), (0x17, Bin BITOR),
     (0x18, Bin BITXOR), (0x19, Una BITNOT), (0x1a, Bin BYTE), (0x1b, Shift SHL),
     (0x1c, Shift SHR), (0x1d, Shift SAR), (0x20, SHA3), (0x30, Env ADDRESS), (0x31, BALANCE),
     (0x32, Env ORIGIN), (0x33, Env CALLER), (0x34, Env CALLVALUE), (0x35, CALLDATALOAD),
     (0x36, Env CALLDATASIZE), (0x37, CALLDATACOPY), (0x38, Env CODESIZE), (0x39, CODECOPY),
     (0x3a, Env GASPRICE), (0x3b, EXTCODESIZE), (0x3c, EXTCODECOPY), (0x3d, Env RETURNDATASIZE),
     (0x3e, RETURNDATACOPY), (0x3f, EXTCODEHASH), (0x40, BLOCKHASH), (0x41, Env COINBASE),
     (0x42, Env TIMESTAMP), (0x43, Env NUMBER), (0x44, Env DIFFICULTY), (0x45, Env GASLIMIT),
     (0x46, Env CHAINID), (0x47, Env SELFBALANCE), (0x50, POP), (0x51, MLOAD), (0x52, MSTORE),
     (0x53, MSTORE8), (0x54, SLOAD), (0x55, SSTORE), (0x56, JUMP), (0x57, JUMPI), (0x58, Env PC),
     (0x59, Env MSIZE), (0x5a, Env GAS), (0x5b, JUMPDEST), (0xac, PUSHC), (0xad, JUMPC),
     (0xae, JUMPCI), (0xf0, CREATE), (0xf1, Call CALL), (0xf2, Call CALLCODE), (0xf3, RETURN),
     (0xf4, Call DELEGATECALL), (0xf5, CREATE2), (0xfa, Call STATICCALL), (0xfd, REVERT),
     (0xfe, INVALID), (0xff, SELFDESTRUCT)]"

definition extended_opcodes :: "nat list" where
  "extended_opcodes =
    [0xb0, 0xb1, 0xb2, 0xb3, 0xb4, 0xb5, 0xb6, 0xb7, 0xb8, 0xb9,
     0xc1, 0xc2, 0xc3, 0xc4, 0xc5, 0xc6, 0xc7, 0xd0, 0xd1, 0xd2, 0xd3, 0xd4, 0xd5, 0xd6, 0xd7,
     0xd8, 0xd9, 0xdb, 0xdc, 0xdd, 0xde, 0xdf, 0xe0, 0xe1, 0xe2, 0xe4, 0xe5, 0xe6, 0xe7, 0xe8,
     0xe9, 0xea, 0xeb]"

definition decode_nat :: "nat \<Rightarrow> instr" where
  "decode_nat o' =
     (if 0x60 \<le> o' \<and> o' \<le> 0x7f then PUSH (o' - 0x60 + 1)
      else if 0x80 \<le> o' \<and> o' \<le> 0x8f then DUP (o' - 0x80)
      else if 0x90 \<le> o' \<and> o' \<le> 0x9f then SWAP (o' - 0x90 + 1)
      else if 0xa0 \<le> o' \<and> o' \<le> 0xa4 then LOG (o' - 0xa0)
      else case map_of opcode_table o' of Some i \<Rightarrow> i
           | None \<Rightarrow> if o' \<in> set extended_opcodes then EXTENDED else UNDEFINED)"

definition decode :: "byte \<Rightarrow> instr" where
  "decode b = decode_nat (unat b)"

section \<open>Ordinary instructions\<close>

definition next_instr :: "'h vm \<Rightarrow> ('h, 'h vm) vm_result" where
  "next_instr s = Inr (s\<lparr>m_PC := m_PC s + 1\<rparr>)"

definition of_bool256 :: "bool \<Rightarrow> u256" where "of_bool256 b = (if b then 1 else 0)"

fun bin_result :: "intx \<Rightarrow> binop \<Rightarrow> u256 \<Rightarrow> u256 \<Rightarrow> u256" where
  "bin_result ix ADD a b = a + b"
| "bin_result ix MUL a b = a * b"
| "bin_result ix SUB a b = a - b"
| "bin_result ix DIV a b = (if b \<noteq> 0 then a div b else 0)"
| "bin_result ix SDIV a b = (if b \<noteq> 0 then fst (ix_sdivrem ix a b) else 0)"
| "bin_result ix MOD a b = (if b \<noteq> 0 then a mod b else 0)"
| "bin_result ix SMOD a b = (if b \<noteq> 0 then snd (ix_sdivrem ix a b) else 0)"
| "bin_result ix LT a b = of_bool256 (a < b)"
| "bin_result ix GT a b = of_bool256 (a > b)"
| "bin_result ix SLT a b =
     (let lhsNeg = drop_bit 255 a \<noteq> 0; rhsNeg = drop_bit 255 b \<noteq> 0
      in of_bool256 (if lhsNeg \<noteq> rhsNeg then lhsNeg else a < b))"
| "bin_result ix SGT a b =
     (let lhsNeg = drop_bit 255 a \<noteq> 0; rhsNeg = drop_bit 255 b \<noteq> 0
      in of_bool256 (if lhsNeg \<noteq> rhsNeg then rhsNeg else a > b))"
| "bin_result ix EQ a b = of_bool256 (a = b)"
| "bin_result ix BITAND a b = a AND b"
| "bin_result ix BITOR a b = a OR b"
| "bin_result ix BITXOR a b = a XOR b"
| "bin_result ix BYTE a b =
     (if a < 32 then drop_bit (unat (ucast (8 * (31 - a)) :: 32 word)) b AND 0xff else 0)"

text \<open>\<open>SDIV\<close> also decrements \<open>m_SP\<close>, which the next fetch sets again.\<close>

definition case_bin :: "'h env \<Rightarrow> binop \<Rightarrow> 'h vm \<Rightarrow> ('h, 'h vm) vm_result" where
  "case_bin env op s =
     bindE (updateIOGas s) (\<lambda>s.
     bindE (rd_SP s 0) (\<lambda>a. bindE (rd_SP s 1) (\<lambda>b.
     bindE (wr_SPP0 (bin_result (m_intx env) op a b) s) (\<lambda>s.
       next_instr (if op = SDIV then s\<lparr>m_SP := m_SP s - 1\<rparr> else s)))))"

fun un_result :: "unop \<Rightarrow> u256 \<Rightarrow> u256" where
  "un_result BITNOT a = NOT a"
| "un_result ISZERO a = (if a \<noteq> 0 then 0 else 1)"

definition case_un :: "unop \<Rightarrow> 'h vm \<Rightarrow> ('h, 'h vm) vm_result" where
  "case_un op s =
     bindE (updateIOGas s) (\<lambda>s. bindE (rd_SP s 0) (\<lambda>a.
     bindE (wr_SPP0 (un_result op a) s) next_instr))"

fun tri_result :: "intx \<Rightarrow> triop \<Rightarrow> u256 \<Rightarrow> u256 \<Rightarrow> u256 \<Rightarrow> u256" where
  "tri_result ix ADDMOD a b m = (if m \<noteq> 0 then ix_addmod ix a b m else 0)"
| "tri_result ix MULMOD a b m = (if m \<noteq> 0 then ix_mulmod ix a b m else 0)"

definition case_tri :: "'h env \<Rightarrow> triop \<Rightarrow> 'h vm \<Rightarrow> ('h, 'h vm) vm_result" where
  "case_tri env op s =
     bindE (updateIOGas s) (\<lambda>s. bindE (rd_SP s 0) (\<lambda>a. bindE (rd_SP s 1) (\<lambda>b.
     bindE (rd_SP s 2) (\<lambda>m. bindE (wr_SPP0 (tri_result (m_intx env) op a b m) s) next_instr))))"

fun shift_result :: "shiftop \<Rightarrow> u256 \<Rightarrow> u256 \<Rightarrow> u256" where
  "shift_result SHL a b = (if a \<ge> 256 then 0 else push_bit (unat (ucast a :: 32 word)) b)"
| "shift_result SHR a b = (if a \<ge> 256 then 0 else drop_bit (unat (ucast a :: 32 word)) b)"
| "shift_result SAR a b =
     (let hibit = push_bit 255 1; allbits = NOT 0 in
      if a \<ge> 256 then (if b AND hibit \<noteq> 0 then allbits else 0)
      else let amount = unat (ucast a :: 32 word); r = drop_bit amount b in
        if b AND hibit \<noteq> 0 then r OR push_bit (256 - amount) allbits else r)"

definition case_shift :: "'h env \<Rightarrow> shiftop \<Rightarrow> 'h vm \<Rightarrow> ('h, 'h vm) vm_result" where
  "case_shift env op s =
     bindE (check (m_rev env < EVMC_CONSTANTINOPLE) BadInstruction s) (\<lambda>_.
     bindE (updateIOGas s) (\<lambda>s. bindE (rd_SP s 0) (\<lambda>a. bindE (rd_SP s 1) (\<lambda>b.
     bindE (wr_SPP0 (shift_result op a b) s) next_instr))))"

definition case_EXP :: "'h env \<Rightarrow> 'h vm \<Rightarrow> ('h, 'h vm) vm_result" where
  "case_EXP env s =
     bindE (rd_SP s 1) (\<lambda>expon.
       let byteCost = (if m_rev env \<ge> EVMC_SPURIOUS_DRAGON then 50 else 10) in
     bindE (toInt63 s (stepGas5 + byteCost * ix_significant_bytes (m_intx env) expon)) (\<lambda>g.
     bindE (updateIOGas (s\<lparr>m_runGas := g\<rparr>)) (\<lambda>s.
     bindE (rd_SP s 0) (\<lambda>base.
     bindE (wr_SPP0 (ix_exp (m_intx env) base expon) s) next_instr))))"

definition signextend :: "u256 \<Rightarrow> u256 \<Rightarrow> u256" where
  "signextend k number =
     (if k < 31
      then let testBit = unat (ucast k :: 32 word) * 8 + 7; mask = push_bit testBit 1 - 1 in
        if number AND push_bit testBit 1 \<noteq> 0 then number OR NOT mask else number AND mask
      else number)"

definition case_SIGNEXTEND :: "'h vm \<Rightarrow> ('h, 'h vm) vm_result" where
  "case_SIGNEXTEND s =
     bindE (updateIOGas s) (\<lambda>s. bindE (rd_SP s 0) (\<lambda>k.
     bindE (if k < 31 then bindE (rd_SP s 1) (\<lambda>number. wr_SP 1 (signextend k number) s) else Inr s)
       next_instr))"

section \<open>Environment\<close>

text \<open>The value an environment instruction pushes; \<open>c\<close> is the transaction context, \<open>b\<close> the
  balance of the account.\<close>

fun env_result :: "'h env \<Rightarrow> tx_context \<Rightarrow> u256 \<Rightarrow> 'h vm \<Rightarrow> envop \<Rightarrow> u256" where
  "env_result env c b s ADDRESS = ucast (msg_destination (m_message env))"
| "env_result env c b s ORIGIN = ucast (tx_origin c)"
| "env_result env c b s CALLER = ucast (msg_sender (m_message env))"
| "env_result env c b s CALLVALUE = msg_value (m_message env)"
| "env_result env c b s CALLDATASIZE = of_nat (length (msg_input (m_message env)))"
| "env_result env c b s RETURNDATASIZE = of_nat (length (m_returnData s))"
| "env_result env c b s CODESIZE = of_nat (length (m_pCode env))"
| "env_result env c b s GASPRICE = tx_gas_price c"
| "env_result env c b s COINBASE = ucast (block_coinbase c)"
| "env_result env c b s TIMESTAMP = ucast (block_timestamp c)"
| "env_result env c b s NUMBER = ucast (block_number c)"
| "env_result env c b s DIFFICULTY = block_difficulty c"
| "env_result env c b s GASLIMIT = ucast (block_gas_limit c)"
| "env_result env c b s CHAINID = tx_chain_id c"
| "env_result env c b s SELFBALANCE = b"
| "env_result env c b s PC = of_nat (m_PC s)"
| "env_result env c b s MSIZE = of_nat (length (m_mem s))"
| "env_result env c b s GAS = ucast (m_io_gas s)"

definition uses_tx_context :: "envop \<Rightarrow> bool" where
  "uses_tx_context op \<longleftrightarrow> op \<in> {ORIGIN, GASPRICE, COINBASE, TIMESTAMP, NUMBER, DIFFICULTY, GASLIMIT, CHAINID}"

definition case_env :: "'h env \<Rightarrow> envop \<Rightarrow> 'h vm \<Rightarrow> ('h, 'h vm) vm_result" where
  "case_env env op s =
     bindE (check (op = RETURNDATASIZE \<and> m_rev env < EVMC_BYZANTIUM
                   \<or> op \<in> {CHAINID, SELFBALANCE} \<and> m_rev env < EVMC_ISTANBUL) BadInstruction s) (\<lambda>_.
     bindE (updateIOGas s) (\<lambda>s.
       case (if uses_tx_context op then getTxContext env s
             else (get_tx_context (m_host env) (m_context s), s)) of
         (c, s) \<Rightarrow>
           bindE (if op = SELFBALANCE
                  then ask (\<lambda>h. get_balance (m_host env) h (msg_destination (m_message env))) s
                  else Inr (0, s)) (\<lambda>(b, s).
           bindE (wr_SPP0 (env_result env c b s op) s) next_instr)))"

definition to_address :: "u256 \<Rightarrow> u160" where "to_address w = ucast w"

definition case_BALANCE :: "'h env \<Rightarrow> 'h vm \<Rightarrow> ('h, 'h vm) vm_result" where
  "case_BALANCE env s =
     bindE (updateIOGas s) (\<lambda>s. bindE (rd_SP s 0) (\<lambda>a.
     bindE (ask (\<lambda>h. get_balance (m_host env) h (to_address a)) s) (\<lambda>(b, s).
     bindE (wr_SPP0 b s) next_instr)))"

definition case_EXTCODESIZE :: "'h env \<Rightarrow> 'h vm \<Rightarrow> ('h, 'h vm) vm_result" where
  "case_EXTCODESIZE env s =
     bindE (updateIOGas s) (\<lambda>s. bindE (rd_SP s 0) (\<lambda>a.
     bindE (ask (\<lambda>h. get_code_size (m_host env) h (to_address a)) s) (\<lambda>(n, s).
     bindE (wr_SPP0 (ucast n) s) next_instr)))"

definition case_EXTCODEHASH :: "'h env \<Rightarrow> 'h vm \<Rightarrow> ('h, 'h vm) vm_result" where
  "case_EXTCODEHASH env s =
     bindE (check (m_rev env < EVMC_CONSTANTINOPLE) BadInstruction s) (\<lambda>_.
     bindE (updateIOGas s) (\<lambda>s. bindE (rd_SP s 0) (\<lambda>a.
     bindE (ask (\<lambda>h. get_code_hash (m_host env) h (to_address a)) s) (\<lambda>(hash, s).
     bindE (wr_SPP0 hash s) next_instr))))"

definition be32 :: "bytes \<Rightarrow> u256" where "be32 bs = of_nat (be_value bs)"

definition calldata_word :: "bytes \<Rightarrow> u256 \<Rightarrow> u256" where
  "calldata_word data i =
     (if unat i + 31 < length data then be32 (take 32 (drop (unat (ucast i :: u64)) data))
      else if unat i \<ge> length data then 0
      else be32 (map (\<lambda>k. if k < length data then data ! k else 0)
                   [unat (ucast i :: u64)..<unat (ucast i :: u64) + 32]))"

definition case_CALLDATALOAD :: "'h env \<Rightarrow> 'h vm \<Rightarrow> ('h, 'h vm) vm_result" where
  "case_CALLDATALOAD env s =
     bindE (updateIOGas s) (\<lambda>s. bindE (rd_SP s 0) (\<lambda>i.
     bindE (wr_SP 0 (calldata_word (msg_input (m_message env)) i) s) next_instr))"

definition case_BLOCKHASH :: "'h env \<Rightarrow> 'h vm \<Rightarrow> ('h, 'h vm) vm_result" where
  "case_BLOCKHASH env s =
     bindE (updateIOGas (s\<lparr>m_runGas := of_nat stepGas6\<rparr>)) (\<lambda>s.
       case getTxContext env s of (c, s) \<Rightarrow>
         let blockNumber = sint (block_number c) in
         bindE (rd_SP s 0) (\<lambda>number.
         bindE (if number < of_int blockNumber \<and> number \<ge> of_int (max 256 blockNumber - 256)
                then ask (\<lambda>h. get_block_hash (m_host env) h (ucast number)) s else Inr (0, s)) (\<lambda>(hash, s).
         bindE (wr_SPP0 hash s) next_instr)))"

section \<open>Memory\<close>

definition case_MLOAD :: "'h vm \<Rightarrow> ('h, 'h vm) vm_result" where
  "case_MLOAD s =
     bindE (rd_SP s 0) (\<lambda>a. bindE (toInt63 s (unat a)) (\<lambda>off.
     bindE (updateMem (off + 32) s) (\<lambda>s. bindE (updateIOGas s) (\<lambda>s.
     bindE (rd_mem s (unat (ucast a :: 32 word)) 32) (\<lambda>bs.
     bindE (wr_SPP0 (be32 bs) s) next_instr)))))"

definition case_MSTORE :: "'h vm \<Rightarrow> ('h, 'h vm) vm_result" where
  "case_MSTORE s =
     bindE (rd_SP s 0) (\<lambda>a. bindE (toInt63 s (unat a)) (\<lambda>off.
     bindE (updateMem (off + 32) s) (\<lambda>s. bindE (updateIOGas s) (\<lambda>s.
     bindE (rd_SP s 1) (\<lambda>v.
     bindE (wr_mem (unat (ucast a :: 32 word)) (hash_bytes v) s) next_instr)))))"

definition case_MSTORE8 :: "'h vm \<Rightarrow> ('h, 'h vm) vm_result" where
  "case_MSTORE8 s =
     bindE (rd_SP s 0) (\<lambda>a. bindE (toInt63 s (unat a)) (\<lambda>off.
     bindE (updateMem (off + 1) s) (\<lambda>s. bindE (updateIOGas s) (\<lambda>s.
     bindE (rd_SP s 1) (\<lambda>v.
     bindE (wr_mem (unat (ucast a :: 32 word)) [ucast (v AND 0xff)] s) next_instr)))))"

definition case_SHA3 :: "'h env \<Rightarrow> 'h vm \<Rightarrow> ('h, 'h vm) vm_result" where
  "case_SHA3 env s =
     bindE (rd_SP s 1) (\<lambda>sz.
     bindE (toInt63 s (sha3Gas + (unat sz + 31) div 32 * sha3WordGas)) (\<lambda>g.
     let s = s\<lparr>m_runGas := g\<rparr> in
     bindE (rd_SP s 0) (\<lambda>off. bindE (memNeed s off sz) (\<lambda>need.
     bindE (updateMem need s) (\<lambda>s. bindE (updateIOGas s) (\<lambda>s.
     bindE (rd_mem s (unat (ucast off :: u64)) (unat (ucast sz :: u64))) (\<lambda>bs.
     bindE (wr_SPP0 (ix_keccak256 (m_intx env) bs) s) next_instr)))))))"

fun rd_topics :: "'h vm \<Rightarrow> nat \<Rightarrow> nat \<Rightarrow> ('h, u256 list) vm_result" where
  "rd_topics s k 0 = Inr []"
| "rd_topics s k (Suc n) = bindE (rd_SP s k) (\<lambda>t. bindE (rd_topics s (Suc k) n) (\<lambda>ts. Inr (t # ts)))"

definition case_LOG :: "'h env \<Rightarrow> nat \<Rightarrow> 'h vm \<Rightarrow> ('h, 'h vm) vm_result" where
  "case_LOG env n s =
     bindE (check (msg_static (m_message env)) DisallowedStateChange s) (\<lambda>_.
     bindE (logGasMem n s) (\<lambda>s. bindE (updateIOGas s) (\<lambda>s.
     bindE (rd_SP s 0) (\<lambda>off. bindE (rd_SP s 1) (\<lambda>sz.
     bindE (rd_mem s (unat (ucast off :: u64)) (unat (ucast sz :: u64))) (\<lambda>data.
     bindE (rd_topics s 2 n) (\<lambda>topics.
       next_instr (s\<lparr>m_context := emit_log (m_host env) (m_context s)
                       (msg_destination (m_message env)) data topics\<rparr>))))))))"

definition copy_charge :: "nat \<Rightarrow> nat \<Rightarrow> 'h vm \<Rightarrow> ('h, 'h vm) vm_result" where
  "copy_charge k0 k2 s =
     bindE (rd_SP s k2) (\<lambda>sz. bindE (toInt63 s (unat sz)) (\<lambda>c.
     let s = s\<lparr>m_copyMemSize := c\<rparr> in
     bindE (rd_SP s k0) (\<lambda>off. bindE (memNeed s off sz) (\<lambda>need.
     bindE (updateMem need s) updateIOGas))))"

definition case_CALLDATACOPY :: "'h env \<Rightarrow> 'h vm \<Rightarrow> ('h, 'h vm) vm_result" where
  "case_CALLDATACOPY env s =
     bindE (copy_charge 0 2 s) (\<lambda>s.
     bindE (copyDataToMemory (msg_input (m_message env)) s) next_instr)"

definition case_CODECOPY :: "'h env \<Rightarrow> 'h vm \<Rightarrow> ('h, 'h vm) vm_result" where
  "case_CODECOPY env s =
     bindE (copy_charge 0 2 s) (\<lambda>s. bindE (copyDataToMemory (m_pCode env) s) next_instr)"

definition case_RETURNDATACOPY :: "'h env \<Rightarrow> 'h vm \<Rightarrow> ('h, 'h vm) vm_result" where
  "case_RETURNDATACOPY env s =
     bindE (check (m_rev env < EVMC_BYZANTIUM) BadInstruction s) (\<lambda>_.
     bindE (rd_SP s 1) (\<lambda>a. bindE (rd_SP s 2) (\<lambda>b.
     bindE (check (length (m_returnData s) < unat a + unat b) BufferOverrun s) (\<lambda>_.
     bindE (copy_charge 0 2 s) (\<lambda>s.
     bindE (copyDataToMemory (m_returnData s) s) next_instr)))))"

text \<open>\<open>EXTCODECOPY\<close>: the host fills at most \<open>size\<close> bytes, the rest is zeroed.\<close>

definition case_EXTCODECOPY :: "'h env \<Rightarrow> 'h vm \<Rightarrow> ('h, 'h vm) vm_result" where
  "case_EXTCODECOPY env s =
     bindE (copy_charge 1 3 s) (\<lambda>s.
     bindE (rd_SP s 0) (\<lambda>a. bindE (rd_SP s 1) (\<lambda>m. bindE (rd_SP s 2) (\<lambda>c. bindE (rd_SP s 3) (\<lambda>n.
       let memoryOffset = unat (ucast m :: u64);
           codeOffset = (if unat c > 2 ^ 64 - 1 then 2 ^ 64 - 1 else ucast c);
           sz = (ucast n :: u64)
       in bindE (ask (\<lambda>h. copy_code (m_host env) h (to_address a) codeOffset sz) s) (\<lambda>(code, s).
            let copied = take (unat sz) code
            in bindE (wr_mem memoryOffset (copied @ replicate (unat sz - length copied) 0) s)
                 next_instr))))))"

section \<open>Stack, storage and jumps\<close>

definition case_POP :: "'h vm \<Rightarrow> ('h, 'h vm) vm_result" where
  "case_POP s = bindE (updateIOGas s) (\<lambda>s. next_instr (s\<lparr>m_SP := m_SP s - 1\<rparr>))"

fun push_loop :: "nat \<Rightarrow> 'h vm \<Rightarrow> u256 \<Rightarrow> ('h, 'h vm \<times> u256) vm_result" where
  "push_loop 0 s v = Inr (s, v)"
| "push_loop (Suc n) s v =
     bindE (rd_code s (m_PC s)) (\<lambda>b.
       push_loop n (s\<lparr>m_PC := m_PC s + 1\<rparr>) (push_bit 8 v OR ucast b))"

definition case_PUSH :: "nat \<Rightarrow> 'h vm \<Rightarrow> ('h, 'h vm) vm_result" where
  "case_PUSH n s =
     bindE (updateIOGas s) (\<lambda>s.
       if n = 1
       then bindE (rd_code s (m_PC s + 1)) (\<lambda>b.
            bindE (wr_SPP0 (ucast b) s) (\<lambda>s. Inr (s\<lparr>m_PC := m_PC s + 2\<rparr>)))
       else bindE (push_loop n (s\<lparr>m_PC := m_PC s + 1\<rparr>) 0) (\<lambda>(s, v). wr_SPP0 v s))"

definition case_DUP :: "nat \<Rightarrow> 'h vm \<Rightarrow> ('h, 'h vm) vm_result" where
  "case_DUP n s =
     bindE (updateIOGas s) (\<lambda>s. bindE (rd_SP s n) (\<lambda>v. bindE (wr_SPP0 v s) next_instr))"

definition case_SWAP :: "nat \<Rightarrow> 'h vm \<Rightarrow> ('h, 'h vm) vm_result" where
  "case_SWAP n s =
     bindE (updateIOGas s) (\<lambda>s. bindE (rd_SP s 0) (\<lambda>a. bindE (rd_SP s n) (\<lambda>b.
     bindE (wr_SP 0 b s) (\<lambda>s. bindE (wr_SP n a s) next_instr))))"

definition case_SLOAD :: "'h env \<Rightarrow> 'h vm \<Rightarrow> ('h, 'h vm) vm_result" where
  "case_SLOAD env s =
     bindE (updateIOGas s) (\<lambda>s. bindE (rd_SP s 0) (\<lambda>key.
     bindE (ask (\<lambda>h. get_storage (m_host env) h (msg_destination (m_message env)) key) s) (\<lambda>(v, s).
     bindE (wr_SPP0 v s) next_instr)))"

definition sstore_gas :: "'h env \<Rightarrow> storage_status \<Rightarrow> nat" where
  "sstore_gas env status =
     (case status of
        STORAGE_ADDED \<Rightarrow> sstoreSetGas
      | STORAGE_MODIFIED \<Rightarrow> sstoreResetGas
      | STORAGE_DELETED \<Rightarrow> sstoreResetGas
      | STORAGE_UNCHANGED \<Rightarrow>
          if m_rev env = EVMC_CONSTANTINOPLE \<or> m_rev env \<ge> EVMC_ISTANBUL
          then fst (s_metrics (m_rev env) ! 0x54) else sstoreResetGas
      | STORAGE_MODIFIED_AGAIN \<Rightarrow>
          if m_rev env = EVMC_CONSTANTINOPLE \<or> m_rev env \<ge> EVMC_ISTANBUL
          then fst (s_metrics (m_rev env) ! 0x54) else sstoreResetGas)"

definition case_SSTORE :: "'h env \<Rightarrow> 'h vm \<Rightarrow> ('h, 'h vm) vm_result" where
  "case_SSTORE env s =
     bindE (check (msg_static (m_message env)) DisallowedStateChange s) (\<lambda>_.
     bindE (check (m_rev env \<ge> EVMC_ISTANBUL \<and> m_io_gas s \<le> of_nat callStipend) OutOfGas s) (\<lambda>_.
     bindE (rd_SP s 0) (\<lambda>key. bindE (rd_SP s 1) (\<lambda>v.
       case set_storage (m_host env) (m_context s) (msg_destination (m_message env)) key v of
         (status, h) \<Rightarrow>
           bindE (updateIOGas (s\<lparr>m_context := h, m_runGas := of_nat (sstore_gas env status)\<rparr>))
             next_instr))))"

definition case_JUMP :: "'h vm \<Rightarrow> ('h, 'h vm) vm_result" where
  "case_JUMP s =
     bindE (updateIOGas s) (\<lambda>s. bindE (rd_SP s 0) (\<lambda>d.
     bindE (verifyJumpDest d s) (\<lambda>pc. Inr (s\<lparr>m_PC := pc\<rparr>))))"

definition case_JUMPI :: "'h vm \<Rightarrow> ('h, 'h vm) vm_result" where
  "case_JUMPI s =
     bindE (updateIOGas s) (\<lambda>s. bindE (rd_SP s 1) (\<lambda>c.
       if c \<noteq> 0
       then bindE (rd_SP s 0) (\<lambda>d. bindE (verifyJumpDest d s) (\<lambda>pc. Inr (s\<lparr>m_PC := pc\<rparr>)))
       else next_instr s))"

definition case_JUMPDEST :: "'h vm \<Rightarrow> ('h, 'h vm) vm_result" where
  "case_JUMPDEST s = bindE (updateIOGas (s\<lparr>m_runGas := of_nat jumpdestGas\<rparr>)) next_instr"

section \<open>Halting and bouncing\<close>

definition case_STOP :: "'h vm \<Rightarrow> ('h, 'h vm) vm_result" where
  "case_STOP s = bindE (updateIOGas s) (\<lambda>s. Inr (s\<lparr>m_bounce := BounceNull\<rparr>))"

definition return_slice :: "'h vm \<Rightarrow> ('h, bytes \<times> 'h vm) vm_result" where
  "return_slice s =
     (let s = s\<lparr>m_copyMemSize := 0\<rparr> in
      bindE (rd_SP s 0) (\<lambda>off. bindE (rd_SP s 1) (\<lambda>sz. bindE (memNeed s off sz) (\<lambda>need.
      bindE (updateMem need s) (\<lambda>s. bindE (updateIOGas s) (\<lambda>s.
      bindE (rd_mem s (unat (ucast off :: u64)) (unat (ucast sz :: u64))) (\<lambda>out.
        Inr (out, s))))))))"

definition case_RETURN :: "'h vm \<Rightarrow> ('h, 'h vm) vm_result" where
  "case_RETURN s =
     bindE (return_slice s) (\<lambda>(out, s). Inr (s\<lparr>m_output := out, m_bounce := BounceNull\<rparr>))"

definition case_REVERT :: "'h env \<Rightarrow> 'h vm \<Rightarrow> ('h, 'h vm) vm_result" where
  "case_REVERT env s =
     bindE (check (m_rev env < EVMC_BYZANTIUM) BadInstruction s) (\<lambda>_.
     bindE (return_slice s) (\<lambda>(out, s). throwE (RevertInstruction out) s))"

text \<open>Before the account is handed over: is there a charge for a new account? The balance is asked for
  only after Tangerine Whistle, the existence only where the answer matters.\<close>

definition selfdestruct_charge :: "'h env \<Rightarrow> u160 \<Rightarrow> 'h vm \<Rightarrow> ('h, 'h vm) vm_result" where
  "selfdestruct_charge env destination s =
     (if m_rev env \<ge> EVMC_TANGERINE_WHISTLE
      then bindE (if m_rev env = EVMC_TANGERINE_WHISTLE then Inr (True, s)
                  else bindE (ask (\<lambda>h. get_balance (m_host env) h (msg_destination (m_message env))) s)
                         (\<lambda>(b, s). Inr (b > 0, s))) (\<lambda>(c, s).
           if c then bindE (ask (\<lambda>h. account_exists (m_host env) h destination) s) (\<lambda>(ex, s).
             if \<not> ex then updateIOGas (s\<lparr>m_runGas := of_nat callNewAccount\<rparr>) else Inr s)
           else Inr s)
      else Inr s)"

definition case_SELFDESTRUCT :: "'h env \<Rightarrow> 'h vm \<Rightarrow> ('h, 'h vm) vm_result" where
  "case_SELFDESTRUCT env s =
     bindE (check (msg_static (m_message env)) DisallowedStateChange s) (\<lambda>_.
     bindE (updateIOGas s) (\<lambda>s. bindE (rd_SP s 0) (\<lambda>d.
       let destination = to_address d; self = msg_destination (m_message env) in
     bindE (selfdestruct_charge env destination s) (\<lambda>s.
       Inr (s\<lparr>m_context := host_selfdestruct (m_host env) (m_context s) self destination,
              m_bounce := BounceNull\<rparr>)))))"

definition case_CREATE :: "'h env \<Rightarrow> bool \<Rightarrow> 'h vm \<Rightarrow> ('h, 'h vm) vm_result" where
  "case_CREATE env create2 s =
     bindE (check (create2 \<and> m_rev env < EVMC_CONSTANTINOPLE) BadInstruction s) (\<lambda>_.
     bindE (check (msg_static (m_message env)) DisallowedStateChange s) (\<lambda>_.
       Inr (s\<lparr>m_bounce := BounceCreate\<rparr>)))"

definition case_CALL :: "'h env \<Rightarrow> callop \<Rightarrow> 'h vm \<Rightarrow> ('h, 'h vm) vm_result" where
  "case_CALL env op s =
     bindE (check (op = DELEGATECALL \<and> m_rev env < EVMC_HOMESTEAD) BadInstruction s) (\<lambda>_.
     bindE (check (op = STATICCALL \<and> m_rev env < EVMC_BYZANTIUM) BadInstruction s) (\<lambda>_.
     bindE (if op = CALL \<and> msg_static (m_message env)
            then bindE (rd_SP s 2) (\<lambda>v. check (v \<noteq> 0) DisallowedStateChange s) else Inr ()) (\<lambda>_.
       Inr (s\<lparr>m_bounce := BounceCall\<rparr>))))"

section \<open>Dispatch\<close>

fun interp_op :: "'h env \<Rightarrow> instr \<Rightarrow> 'h vm \<Rightarrow> ('h, 'h vm) vm_result" where
  "interp_op env STOP s = case_STOP s"
| "interp_op env (Bin op) s = case_bin env op s"
| "interp_op env (Una op) s = case_un op s"
| "interp_op env (Tri op) s = case_tri env op s"
| "interp_op env (Shift op) s = case_shift env op s"
| "interp_op env EXP s = case_EXP env s"
| "interp_op env SIGNEXTEND s = case_SIGNEXTEND s"
| "interp_op env SHA3 s = case_SHA3 env s"
| "interp_op env (Env op) s = case_env env op s"
| "interp_op env BALANCE s = case_BALANCE env s"
| "interp_op env CALLDATALOAD s = case_CALLDATALOAD env s"
| "interp_op env EXTCODESIZE s = case_EXTCODESIZE env s"
| "interp_op env EXTCODEHASH s = case_EXTCODEHASH env s"
| "interp_op env BLOCKHASH s = case_BLOCKHASH env s"
| "interp_op env CALLDATACOPY s = case_CALLDATACOPY env s"
| "interp_op env CODECOPY s = case_CODECOPY env s"
| "interp_op env EXTCODECOPY s = case_EXTCODECOPY env s"
| "interp_op env RETURNDATACOPY s = case_RETURNDATACOPY env s"
| "interp_op env POP s = case_POP s"
| "interp_op env MLOAD s = case_MLOAD s"
| "interp_op env MSTORE s = case_MSTORE s"
| "interp_op env MSTORE8 s = case_MSTORE8 s"
| "interp_op env SLOAD s = case_SLOAD env s"
| "interp_op env SSTORE s = case_SSTORE env s"
| "interp_op env JUMP s = case_JUMP s"
| "interp_op env JUMPI s = case_JUMPI s"
| "interp_op env JUMPDEST s = case_JUMPDEST s"
| "interp_op env (PUSH n) s = case_PUSH n s"
| "interp_op env (DUP n) s = case_DUP n s"
| "interp_op env (SWAP n) s = case_SWAP n s"
| "interp_op env (LOG n) s = case_LOG env n s"
| "interp_op env PUSHC s = throwE BadInstruction s"
| "interp_op env JUMPC s = throwE BadInstruction s"
| "interp_op env JUMPCI s = throwE BadInstruction s"
| "interp_op env EXTENDED s = throwE BadInstruction s"
| "interp_op env CREATE s = case_CREATE env False s"
| "interp_op env CREATE2 s = case_CREATE env True s"
| "interp_op env (Call op) s = case_CALL env op s"
| "interp_op env RETURN s = case_RETURN s"
| "interp_op env REVERT s = case_REVERT env s"
| "interp_op env INVALID s = throwE InvalidInstruction s"
| "interp_op env UNDEFINED s = throwE BadInstruction s"
| "interp_op env SELFDESTRUCT s = case_SELFDESTRUCT env s"

definition interp_step :: "'h env \<Rightarrow> 'h vm \<Rightarrow> ('h, 'h vm) vm_result" where
  "interp_step env s = bindE (fetchInstruction env s) (\<lambda>s. interp_op env (decode (m_OP s)) s)"

section \<open>Calls and creation\<close>

definition depth_ok :: "'h env \<Rightarrow> bool" where
  "depth_ok env \<longleftrightarrow> msg_depth (m_message env) < 1024"

text \<open>\<open>caseCreate\<close> charges for the creation; \<open>create_run\<close> is its part after \<open>updateIOGas\<close>.\<close>

definition create_run ::
    "'h env \<Rightarrow> bool \<Rightarrow> u256 \<Rightarrow> u256 \<Rightarrow> u256 \<Rightarrow> u256 \<Rightarrow> 'h vm \<Rightarrow> ('h, 'h vm) vm_result" where
  "create_run env create2 endowment initOff initSize salt s =
     (let s = s\<lparr>m_returnData := []\<rparr>;
          self = msg_destination (m_message env) in
      bindE (ask (\<lambda>h. get_balance (m_host env) h self) s) (\<lambda>(balance, s).
      bindE (if balance \<ge> endowment \<and> depth_ok env
             then bindE (rd_mem s (unat (ucast initOff :: u64)) (unat (ucast initSize :: u64))) (\<lambda>input.
               let gas = (if m_rev env \<ge> EVMC_TANGERINE_WHISTLE
                          then m_io_gas s - m_io_gas s div 64 else m_io_gas s);
                   msg = \<lparr>msg_kind = (if create2 then EVMC_CREATE2 else EVMC_CREATE),
                     msg_static = False, msg_depth = msg_depth (m_message env) + 1, msg_gas = gas,
                     msg_destination = 0, msg_sender = self, msg_input = input,
                     msg_value = endowment, msg_create2_salt = salt\<rparr>
               in case host_call (m_host env) (m_context s) msg of
                 (result, h) \<Rightarrow>
                   bindE (wr_SPP0 (if res_status result = EVMC_SUCCESS
                                   then ucast (res_create_address result) else 0)
                            (s\<lparr>m_context := h\<rparr>)) (\<lambda>s.
                     Inr (s\<lparr>m_returnData := res_output result,
                            m_io_gas := m_io_gas s - (gas - res_gas_left result)\<rparr>)))
             else wr_SPP0 0 s) next_instr))"

definition caseCreate :: "'h env \<Rightarrow> 'h vm \<Rightarrow> ('h, 'h vm) vm_result" where
  "caseCreate env s =
     (let s = s\<lparr>m_bounce := BounceInterpret, m_runGas := of_nat createGas\<rparr>;
          create2 = (decode (m_OP s) = CREATE2) in
      bindE (rd_SP s 0) (\<lambda>endowment. bindE (rd_SP s 1) (\<lambda>initOff. bindE (rd_SP s 2) (\<lambda>initSize.
      bindE (if create2 then rd_SP s 3 else Inr 0) (\<lambda>salt.
      bindE (if create2
             then bindE (toInt63 s ((unat initSize + 31) div 32 * sha3WordGas)) (\<lambda>g.
                  Inr (s\<lparr>m_runGas := m_runGas s + g\<rparr>))
             else Inr s) (\<lambda>s.
      bindE (memNeed s initOff initSize) (\<lambda>need.
      bindE (updateMem need s) (\<lambda>s. bindE (updateIOGas s)
        (create_run env create2 endowment initOff initSize salt)))))))))"

definition call_kind_of :: "callop \<Rightarrow> call_kind" where
  "call_kind_of op = (case op of CALLCODE \<Rightarrow> EVMC_CALLCODE | DELEGATECALL \<Rightarrow> EVMC_DELEGATECALL
                      | CALL \<Rightarrow> EVMC_CALL | STATICCALL \<Rightarrow> EVMC_CALL)"

definition haveValueArg :: "callop \<Rightarrow> bool" where
  "haveValueArg op \<longleftrightarrow> op = CALL \<or> op = CALLCODE"

text \<open>The static costs that \<open>caseCallSetup\<close> adds to the charge of the fetch; \<open>value\<close> is only
  read for the operations that have it.\<close>

definition call_surcharge ::
    "'h env \<Rightarrow> callop \<Rightarrow> u160 \<Rightarrow> u256 \<Rightarrow> 'h vm \<Rightarrow> ('h, 'h vm) vm_result" where
  "call_surcharge env op destination v s =
     (let s = (if m_rev env \<ge> EVMC_BERLIN \<and> msg_destination (m_message env) = destination
               then s\<lparr>m_runGas := of_nat callSelfGas\<rparr> else s) in
      bindE (if op = CALL \<and> (v > 0 \<or> m_rev env < EVMC_SPURIOUS_DRAGON)
             then bindE (ask (\<lambda>h. account_exists (m_host env) h destination) s) (\<lambda>(ex, s).
               Inr (if \<not> ex then s\<lparr>m_runGas := m_runGas s + of_nat callNewAccount\<rparr> else s))
             else Inr s) (\<lambda>s.
      Inr (if haveValueArg op \<and> v > 0
           then s\<lparr>m_runGas := m_runGas s + of_nat valueTransferGas\<rparr> else s)))"

text \<open>\<open>caseCallSetup\<close>: whether to call, the message, and the output range.\<close>

definition caseCallSetup ::
    "'h env \<Rightarrow> callop \<Rightarrow> 'h vm \<Rightarrow> ('h, bool \<times> evmc_message \<times> nat \<times> nat \<times> 'h vm) vm_result" where
  "caseCallSetup env op s =
     bindE (rd_SP s 1) (\<lambda>dst.
     bindE (if haveValueArg op then rd_SP s 2 else Inr 0) (\<lambda>v.
       let destination = to_address dst; k = (if haveValueArg op then 3 else 2) in
     bindE (call_surcharge env op destination v s) (\<lambda>s.
     bindE (rd_SP s k) (\<lambda>inputOffset. bindE (rd_SP s (k + 1)) (\<lambda>inputSize.
     bindE (rd_SP s (k + 2)) (\<lambda>outputOffset. bindE (rd_SP s (k + 3)) (\<lambda>outputSize.
     bindE (memNeed s inputOffset inputSize) (\<lambda>inputMemNeed.
     bindE (memNeed s outputOffset outputSize) (\<lambda>outputMemNeed.
     bindE (updateMem (max inputMemNeed outputMemNeed) s) (\<lambda>s. bindE (updateIOGas s) (\<lambda>s.
     bindE (rd_SP s 0) (\<lambda>requested.
       let callGas = (if m_rev env \<ge> EVMC_TANGERINE_WHISTLE
                      then min requested (ucast (m_io_gas s - m_io_gas s div 64)) else requested) in
     bindE (toInt63 s (unat callGas)) (\<lambda>gas.
     bindE (updateIOGas (s\<lparr>m_runGas := gas\<rparr>)) (\<lambda>s.
     bindE (rd_mem s (unat (ucast inputOffset :: u64)) (unat (ucast inputSize :: u64))) (\<lambda>input.
       let self = msg_destination (m_message env);
           withValue = (haveValueArg op \<and> v > 0);
           msg = \<lparr>msg_kind = call_kind_of op,
                  msg_static = (op = STATICCALL \<or> msg_static (m_message env)),
                  msg_depth = msg_depth (m_message env) + 1,
                  msg_gas = (if withValue then gas + of_nat callStipend else gas),
                  msg_destination = destination,
                  msg_sender = (if op = DELEGATECALL then msg_sender (m_message env) else self),
                  msg_input = input,
                  msg_value = (if withValue then v
                               else if op = DELEGATECALL then msg_value (m_message env) else 0),
                  msg_create2_salt = 0\<rparr>
       in bindE (if withValue
                 then bindE (ask (\<lambda>h. get_balance (m_host env) h self) s) (\<lambda>(b, s). Inr (b \<ge> v, s))
                 else Inr (True, s)) (\<lambda>(balanceOk, s).
          Inr (balanceOk \<and> depth_ok env, msg,
               unat (ucast outputOffset :: u64), unat (ucast outputSize :: u64), s)))))))))))))))))"

definition caseCall :: "'h env \<Rightarrow> callop \<Rightarrow> 'h vm \<Rightarrow> ('h, 'h vm) vm_result" where
  "caseCall env op s =
     bindE (caseCallSetup env op (s\<lparr>m_bounce := BounceInterpret, m_returnData := []\<rparr>))
       (\<lambda>(ok, msg, outOff, outSize, s).
     bindE (if ok
            then case host_call (m_host env) (m_context s) msg of
              (result, h) \<Rightarrow>
                bindE (wr_mem outOff (take outSize (res_output result))
                         (s\<lparr>m_context := h, m_returnData := res_output result\<rparr>)) (\<lambda>s.
                bindE (wr_SPP0 (of_bool256 (res_status result = EVMC_SUCCESS)) s) (\<lambda>s.
                  Inr (s\<lparr>m_io_gas := m_io_gas s + res_gas_left result\<rparr>)))
            else bindE (wr_SPP0 0 s) (\<lambda>s. Inr (s\<lparr>m_io_gas := m_io_gas s + msg_gas msg\<rparr>)))
       next_instr)"

section \<open>The trampoline and the entry point\<close>

definition vm_step :: "'h env \<Rightarrow> 'h vm \<Rightarrow> ('h, 'h vm) vm_result" where
  "vm_step env s =
     (case m_bounce s of
        BounceInit \<Rightarrow> Inr (initEntry env s)
      | BounceInterpret \<Rightarrow> interp_step env s
      | BounceCreate \<Rightarrow> caseCreate env s
      | BounceCall \<Rightarrow>
          (case decode (m_OP s) of Call op \<Rightarrow> caseCall env op s | _ \<Rightarrow> caseCall env CALL s)
      | BounceNull \<Rightarrow> Inr s)"

text \<open>At most \<open>fuel\<close> turns; \<open>None\<close> if the frame has not ended by then.\<close>

fun vm_exec :: "nat \<Rightarrow> 'h env \<Rightarrow> 'h vm \<Rightarrow> ('h, 'h vm) vm_result option" where
  "vm_exec fuel env s =
     (if m_bounce s = BounceNull then Some (Inr s)
      else case fuel of
        0 \<Rightarrow> None
      | Suc n \<Rightarrow> (case vm_step env s of Inl e \<Rightarrow> Some (Inl e) | Inr s' \<Rightarrow> vm_exec n env s'))"

declare vm_exec.simps [simp del]

definition status_of :: "vm_exn \<Rightarrow> evmc_status" where
  "status_of e =
     (case e of
        RevertInstruction out \<Rightarrow> EVMC_REVERT
      | InvalidInstruction \<Rightarrow> EVMC_INVALID_INSTRUCTION
      | BadInstruction \<Rightarrow> EVMC_UNDEFINED_INSTRUCTION
      | OutOfStack \<Rightarrow> EVMC_STACK_OVERFLOW
      | StackUnderflow \<Rightarrow> EVMC_STACK_UNDERFLOW
      | BufferOverrun \<Rightarrow> EVMC_INVALID_MEMORY_ACCESS
      | OutOfGas \<Rightarrow> EVMC_OUT_OF_GAS
      | BadJumpDestination \<Rightarrow> EVMC_BAD_JUMP_DESTINATION
      | DisallowedStateChange \<Rightarrow> EVMC_STATIC_MODE_VIOLATION
      | OutOfBounds \<Rightarrow> EVMC_INTERNAL_ERROR)"

text \<open>\<open>execute\<close>: the result for the host, with the host state that the frame left.\<close>

definition execute :: "nat \<Rightarrow> 'h env \<Rightarrow> 'h \<Rightarrow> (call_result \<times> 'h) option" where
  "execute fuel env context =
     (case vm_exec fuel env (vm_new env context) of
        None \<Rightarrow> None
      | Some (Inr s) \<Rightarrow>
          Some (\<lparr>res_status = EVMC_SUCCESS, res_gas_left = m_io_gas s, res_output = m_output s,
                 res_create_address = 0\<rparr>, m_context s)
      | Some (Inl (e, s)) \<Rightarrow>
          Some (\<lparr>res_status = status_of e,
                 res_gas_left = (case e of RevertInstruction out \<Rightarrow> m_io_gas s | _ \<Rightarrow> 0),
                 res_output = (case e of RevertInstruction out \<Rightarrow> out | _ \<Rightarrow> []),
                 res_create_address = 0\<rparr>, m_context s))"

end
