(* ===== verification/EvmShape.thy ===== *)
theory EvmShape
  imports EvmInterp
begin

text \<open>
  What each instruction needs of the stack (\<open>shape\<close>), which instructions a revision never
  executes (\<open>never_runs\<close>), and the check of all six metrics tables against both: for every
  revision and every byte, the table entry has the shape of the decoded instruction and, unless
  the instruction ends the frame or charges by itself, a positive cost.
\<close>

fun shape :: "instr \<Rightarrow> int \<times> int" where
  "shape STOP = (0, 0)"
| "shape (Bin op) = (2, -1)"
| "shape (Una op) = (1, 0)"
| "shape (Tri op) = (3, -2)"
| "shape (Shift op) = (2, -1)"
| "shape EXP = (2, -1)"
| "shape SIGNEXTEND = (2, -1)"
| "shape SHA3 = (2, -1)"
| "shape (Env op) = (0, 1)"
| "shape BALANCE = (1, 0)"
| "shape CALLDATALOAD = (1, 0)"
| "shape EXTCODESIZE = (1, 0)"
| "shape EXTCODEHASH = (1, 0)"
| "shape BLOCKHASH = (1, 0)"
| "shape CALLDATACOPY = (3, -3)"
| "shape CODECOPY = (3, -3)"
| "shape EXTCODECOPY = (4, -4)"
| "shape RETURNDATACOPY = (3, -3)"
| "shape POP = (1, -1)"
| "shape MLOAD = (1, 0)"
| "shape MSTORE = (2, -2)"
| "shape MSTORE8 = (2, -2)"
| "shape SLOAD = (1, 0)"
| "shape SSTORE = (2, -2)"
| "shape JUMP = (1, -1)"
| "shape JUMPI = (2, -2)"
| "shape JUMPDEST = (0, 0)"
| "shape (PUSH n) = (0, 1)"
| "shape (DUP n) = (int n + 1, 1)"
| "shape (SWAP n) = (int n + 1, 0)"
| "shape (LOG n) = (int n + 2, - int n - 2)"
| "shape CREATE = (3, -2)"
| "shape CREATE2 = (4, -3)"
| "shape (Call op) = (if op = CALL \<or> op = CALLCODE then (7, -6) else (6, -5))"
| "shape RETURN = (2, -2)"
| "shape REVERT = (2, -2)"
| "shape SELFDESTRUCT = (1, -1)"
| "shape i = (0, 0)"

definition never_runs :: "nat \<Rightarrow> instr \<Rightarrow> bool" where
  "never_runs rv i \<longleftrightarrow>
     i \<in> {PUSHC, JUMPC, JUMPCI, EXTENDED, INVALID, UNDEFINED}
     \<or> i = Call DELEGATECALL \<and> rv < EVMC_HOMESTEAD
     \<or> i \<in> {Call STATICCALL, Env RETURNDATASIZE, RETURNDATACOPY, REVERT} \<and> rv < EVMC_BYZANTIUM
     \<or> i \<in> {Shift SHL, Shift SHR, Shift SAR, EXTCODEHASH, CREATE2} \<and> rv < EVMC_CONSTANTINOPLE
     \<or> i \<in> {Env CHAINID, Env SELFBALANCE} \<and> rv < EVMC_ISTANBUL"

definition is_free :: "instr \<Rightarrow> bool" where
  "is_free i \<longleftrightarrow> i \<in> {STOP, RETURN, REVERT, SELFDESTRUCT, SSTORE}"

definition entry_ok :: "nat \<Rightarrow> instr \<Rightarrow> metrics \<Rightarrow> bool" where
  "entry_ok rv i m \<longleftrightarrow> fst m \<le> 100000 \<and>
     (never_runs rv i \<or> snd m = shape i \<and> (0 < fst m \<or> is_free i))"

definition opcodes :: "instr list" where "opcodes = map decode_nat [0..<256]"

lemma opcodes_eq:
  "opcodes =
    [STOP, Bin ADD, Bin MUL, Bin SUB, Bin DIV, Bin SDIV, Bin MOD, Bin SMOD,
     Tri ADDMOD, Tri MULMOD, EXP, SIGNEXTEND, UNDEFINED, UNDEFINED, UNDEFINED, UNDEFINED,
     Bin LT, Bin GT, Bin SLT, Bin SGT, Bin EQ, Una ISZERO, Bin BITAND, Bin BITOR,
     Bin BITXOR, Una BITNOT, Bin BYTE, Shift SHL, Shift SHR, Shift SAR, UNDEFINED, UNDEFINED,
     SHA3, UNDEFINED, UNDEFINED, UNDEFINED, UNDEFINED, UNDEFINED, UNDEFINED, UNDEFINED,
     UNDEFINED, UNDEFINED, UNDEFINED, UNDEFINED, UNDEFINED, UNDEFINED, UNDEFINED, UNDEFINED,
     Env ADDRESS, BALANCE, Env ORIGIN, Env CALLER, Env CALLVALUE, CALLDATALOAD, Env CALLDATASIZE, CALLDATACOPY,
     Env CODESIZE, CODECOPY, Env GASPRICE, EXTCODESIZE, EXTCODECOPY, Env RETURNDATASIZE, RETURNDATACOPY, EXTCODEHASH,
     BLOCKHASH, Env COINBASE, Env TIMESTAMP, Env NUMBER, Env DIFFICULTY, Env GASLIMIT, Env CHAINID, Env SELFBALANCE,
     UNDEFINED, UNDEFINED, UNDEFINED, UNDEFINED, UNDEFINED, UNDEFINED, UNDEFINED, UNDEFINED,
     POP, MLOAD, MSTORE, MSTORE8, SLOAD, SSTORE, JUMP, JUMPI,
     Env PC, Env MSIZE, Env GAS, JUMPDEST, UNDEFINED, UNDEFINED, UNDEFINED, UNDEFINED,
     PUSH 1, PUSH 2, PUSH 3, PUSH 4, PUSH 5, PUSH 6, PUSH 7, PUSH 8,
     PUSH 9, PUSH 10, PUSH 11, PUSH 12, PUSH 13, PUSH 14, PUSH 15, PUSH 16,
     PUSH 17, PUSH 18, PUSH 19, PUSH 20, PUSH 21, PUSH 22, PUSH 23, PUSH 24,
     PUSH 25, PUSH 26, PUSH 27, PUSH 28, PUSH 29, PUSH 30, PUSH 31, PUSH 32,
     DUP 0, DUP 1, DUP 2, DUP 3, DUP 4, DUP 5, DUP 6, DUP 7,
     DUP 8, DUP 9, DUP 10, DUP 11, DUP 12, DUP 13, DUP 14, DUP 15,
     SWAP 1, SWAP 2, SWAP 3, SWAP 4, SWAP 5, SWAP 6, SWAP 7, SWAP 8,
     SWAP 9, SWAP 10, SWAP 11, SWAP 12, SWAP 13, SWAP 14, SWAP 15, SWAP 16,
     LOG 0, LOG 1, LOG 2, LOG 3, LOG 4, UNDEFINED, UNDEFINED, UNDEFINED,
     UNDEFINED, UNDEFINED, UNDEFINED, UNDEFINED, PUSHC, JUMPC, JUMPCI, UNDEFINED,
     EXTENDED, EXTENDED, EXTENDED, EXTENDED, EXTENDED, EXTENDED, EXTENDED, EXTENDED,
     EXTENDED, EXTENDED, UNDEFINED, UNDEFINED, UNDEFINED, UNDEFINED, UNDEFINED, UNDEFINED,
     UNDEFINED, EXTENDED, EXTENDED, EXTENDED, EXTENDED, EXTENDED, EXTENDED, EXTENDED,
     UNDEFINED, UNDEFINED, UNDEFINED, UNDEFINED, UNDEFINED, UNDEFINED, UNDEFINED, UNDEFINED,
     EXTENDED, EXTENDED, EXTENDED, EXTENDED, EXTENDED, EXTENDED, EXTENDED, EXTENDED,
     EXTENDED, EXTENDED, UNDEFINED, EXTENDED, EXTENDED, EXTENDED, EXTENDED, EXTENDED,
     EXTENDED, EXTENDED, EXTENDED, UNDEFINED, EXTENDED, EXTENDED, EXTENDED, EXTENDED,
     EXTENDED, EXTENDED, EXTENDED, EXTENDED, UNDEFINED, UNDEFINED, UNDEFINED, UNDEFINED,
     CREATE, Call CALL, Call CALLCODE, RETURN, Call DELEGATECALL, CREATE2, UNDEFINED, UNDEFINED,
     UNDEFINED, UNDEFINED, Call STATICCALL, UNDEFINED, UNDEFINED, REVERT, INVALID, SELFDESTRUCT]"
  unfolding opcodes_def
  by (simp add: upt_rec [of 0] upt_rec [of "Suc 0"] upt_rec_numeral numeral_2_eq_2 [symmetric] decode_nat_def opcode_table_def
      extended_opcodes_def)

lemmas table_defs = evmc_get_instruction_metrics_table_def revision_defs
  entry_ok_def never_runs_def is_free_def

lemmas metrics_tables = frontier_metrics_def frontier_metrics_lo_def frontier_metrics_hi_def
  homestead_metrics_def homestead_metrics_lo_def homestead_metrics_hi_def
  tangerine_whistle_metrics_def tangerine_whistle_metrics_lo_def tangerine_whistle_metrics_hi_def
  byzantium_metrics_def byzantium_metrics_lo_def byzantium_metrics_hi_def
  constantinople_metrics_def constantinople_metrics_lo_def constantinople_metrics_hi_def
  istanbul_metrics_def istanbul_metrics_lo_def istanbul_metrics_hi_def

lemma metrics_ok_0: "list_all2 (entry_ok 0) opcodes (evmc_get_instruction_metrics_table 0)"
  unfolding opcodes_eq by (simp add: table_defs metrics_tables)

lemma metrics_ok_1: "list_all2 (entry_ok (Suc 0)) opcodes (evmc_get_instruction_metrics_table (Suc 0))"
  unfolding opcodes_eq by (simp add: table_defs metrics_tables)

lemma metrics_ok_2: "list_all2 (entry_ok 2) opcodes (evmc_get_instruction_metrics_table 2)"
  unfolding opcodes_eq by (simp add: table_defs metrics_tables)

lemma metrics_ok_3: "list_all2 (entry_ok 3) opcodes (evmc_get_instruction_metrics_table 3)"
  unfolding opcodes_eq by (simp add: table_defs metrics_tables)

lemma metrics_ok_4: "list_all2 (entry_ok 4) opcodes (evmc_get_instruction_metrics_table 4)"
  unfolding opcodes_eq by (simp add: table_defs metrics_tables)

lemma metrics_ok_5: "list_all2 (entry_ok 5) opcodes (evmc_get_instruction_metrics_table 5)"
  unfolding opcodes_eq by (simp add: table_defs metrics_tables)

lemma metrics_ok_6: "list_all2 (entry_ok 6) opcodes (evmc_get_instruction_metrics_table 6)"
  unfolding opcodes_eq by (simp add: table_defs metrics_tables)

lemma metrics_ok_7: "list_all2 (entry_ok 7) opcodes (evmc_get_instruction_metrics_table 7)"
  unfolding opcodes_eq by (simp add: table_defs metrics_tables)

lemma metrics_ok_8: "list_all2 (entry_ok 8) opcodes (evmc_get_instruction_metrics_table 8)"
  unfolding opcodes_eq by (simp add: table_defs metrics_tables)

lemma metrics_ok: "rv \<le> 8 \<Longrightarrow> list_all2 (entry_ok rv) opcodes (evmc_get_instruction_metrics_table rv)"
proof -
  assume "rv \<le> 8"
  then consider "rv = 0" | "rv = Suc 0" | "rv = 2" | "rv = 3" | "rv = 4" | "rv = 5" | "rv = 6" | "rv = 7" | "rv = 8"
    by linarith
  then show ?thesis
    by cases (simp_all only: metrics_ok_0 metrics_ok_1 metrics_ok_2 metrics_ok_3 metrics_ok_4
        metrics_ok_5 metrics_ok_6 metrics_ok_7 metrics_ok_8)
qed

lemma decode_metrics:
  assumes "rv \<le> 8"
  shows "entry_ok rv (decode b) (s_metrics rv ! unat b)"
proof -
  let ?t = "evmc_get_instruction_metrics_table rv"
  have len: "length opcodes = 256" by (simp add: opcodes_def)
  have lt: "unat b < 256" by simp
  have ok: "entry_ok rv (opcodes ! k) (?t ! k)" if "k < 256" for k
    using list_all2_nthD [OF metrics_ok [OF assms]] that len by simp
  have lent: "length ?t = 256" using list_all2_lengthD [OF metrics_ok [OF assms]] len by simp
  have dec: "decode b = opcodes ! unat b" using lt by (simp add: decode_def opcodes_def)
  have cost: "fst (?t ! k) \<le> 100000" if "k < 256" for k using ok [OF that] by (simp add: entry_ok_def)
  consider "unat b = 0xac \<or> unat b = 0xad \<or> unat b = 0xae"
    | "unat b \<noteq> 0xac" "unat b \<noteq> 0xad" "unat b \<noteq> 0xae" by blast
  then show ?thesis
  proof cases
    case 1
    have "decode_nat 0xac = PUSHC" "decode_nat 0xad = JUMPC" "decode_nat 0xae = JUMPCI"
      by (simp_all add: decode_nat_def opcode_table_def)
    then have "decode b \<in> {PUSHC, JUMPC, JUMPCI}" using 1 by (auto simp: decode_def)
    moreover have "fst (s_metrics rv ! unat b) \<le> 100000"
      using 1 lent cost [of "0x60"] cost [of "0x56"] cost [of "0x57"]
      by (auto simp: s_metrics_def Let_def nth_list_update)
    ultimately show ?thesis by (auto simp: entry_ok_def never_runs_def)
  next
    case 2
    then have "s_metrics rv ! unat b = ?t ! unat b" by (simp add: s_metrics_def Let_def)
    then show ?thesis using ok [OF lt] dec by simp
  qed
qed
end
