(* ===== verification/EvmWp.thy ===== *)
theory EvmWp
  imports EvmShape
begin

text \<open>
  A weakest precondition for the interpreter's computations, which may throw, and the invariant
  of the machine between two turns: what the metering and the memory functions guarantee, and
  how each case closes its proof.
\<close>

section \<open>Reasoning about computations that may throw\<close>

text \<open>\<open>wp g C r P\<close>: if \<open>r\<close> throws, the error is not an access outside the arrays, the gas left
  is at most \<open>g\<close> and the host state satisfies \<open>C\<close>; if it returns \<open>x\<close>, then \<open>P x\<close>.\<close>

definition wp :: "u64 \<Rightarrow> ('h \<Rightarrow> bool) \<Rightarrow> ('h, 'a) vm_result \<Rightarrow> ('a \<Rightarrow> bool) \<Rightarrow> bool" where
  "wp g C r P =
     (case r of Inl (e, s) \<Rightarrow> e \<noteq> OutOfBounds \<and> m_io_gas s \<le> g \<and> C (m_context s) | Inr x \<Rightarrow> P x)"

lemma wp_Inr [simp]: "wp g C (Inr x) P \<longleftrightarrow> P x"
  by (simp add: wp_def)

lemma wp_throw [simp]:
  "wp g C (throwE e s) P \<longleftrightarrow> e \<noteq> OutOfBounds \<and> m_io_gas s \<le> g \<and> C (m_context s)"
  by (simp add: wp_def throwE_def)

lemma wp_bind [simp]: "wp g C (bindE m f) P \<longleftrightarrow> wp g C m (\<lambda>x. wp g C (f x) P)"
  by (cases m) (auto simp: wp_def split: prod.splits)

lemma wp_mono: "wp g C r P \<Longrightarrow> (\<And>x. P x \<Longrightarrow> Q x) \<Longrightarrow> wp g C r Q"
  by (auto simp: wp_def split: sum.splits prod.splits)

lemma wp_check:
  assumes "m_io_gas s \<le> g" "C (m_context s)" "e \<noteq> OutOfBounds" "\<not> b \<Longrightarrow> P ()"
  shows "wp g C (check b e s) P"
  using assms by (simp add: check_def)

lemma wp_ask:
  assumes "C (snd (f (m_context s)))" "\<And>x h. C h \<Longrightarrow> P (x, s\<lparr>m_context := h\<rparr>)"
  shows "wp g C (ask f s) P"
  using assms by (auto simp: ask_def split: prod.split)

lemma wp_rd_SP [simp]:
  "length (m_stack s) = 1024 \<Longrightarrow> 0 \<le> m_SP s \<Longrightarrow> m_SP s + int k < 1024 \<Longrightarrow>
     wp g C (rd_SP s k) P \<longleftrightarrow> P (m_stack s ! nat (m_SP s + int k))"
  by (simp add: rd_SP_def Let_def)

lemma wp_wr_SPP0 [simp]:
  "length (m_stack s) = 1024 \<Longrightarrow> 0 \<le> m_SPP s \<Longrightarrow> m_SPP s < 1024 \<Longrightarrow>
     wp g C (wr_SPP0 v s) P \<longleftrightarrow> P (s\<lparr>m_stack := (m_stack s)[nat (m_SPP s) := v]\<rparr>)"
  by (simp add: wr_SPP0_def wr_stack_def)

lemma wp_wr_SP [simp]:
  "length (m_stack s) = 1024 \<Longrightarrow> 0 \<le> m_SP s \<Longrightarrow> m_SP s + int k < 1024 \<Longrightarrow>
     wp g C (wr_SP k v s) P \<longleftrightarrow> P (s\<lparr>m_stack := (m_stack s)[nat (m_SP s + int k) := v]\<rparr>)"
  by (simp add: wr_SP_def wr_stack_def)

lemma wp_updateIOGas:
  assumes "m_io_gas s \<le> g" "C (m_context s)"
    and "m_runGas s \<le> m_io_gas s \<Longrightarrow> P (s\<lparr>m_io_gas := m_io_gas s - m_runGas s\<rparr>)"
  shows "wp g C (updateIOGas s) P"
  using assms by (auto simp: updateIOGas_def)

lemma wp_toInt63:
  assumes "m_io_gas s \<le> g" "C (m_context s)" "v < 2 ^ 63 \<Longrightarrow> P (of_nat v)"
  shows "wp g C (toInt63 s v) P"
  using assms by (auto simp: toInt63_def)

lemma wp_gasForMem:
  assumes "m_io_gas s \<le> g" "C (m_context s)" "\<And>x. P x"
  shows "wp g C (gasForMem s n) P"
  unfolding gasForMem_def Let_def by (rule wp_toInt63) (use assms in auto)

lemma wp_memNeed:
  assumes "m_io_gas s \<le> g" "C (m_context s)"
    and "\<And>need. unat need < 2 ^ 63 \<Longrightarrow> (sz \<noteq> 0 \<Longrightarrow> unat need = unat off + unat sz) \<Longrightarrow> P need"
  shows "wp g C (memNeed s off sz) P"
  unfolding memNeed_def
proof (rule wp_toInt63)
  show "m_io_gas s \<le> g" "C (m_context s)" using assms by simp_all
  let ?n = "if sz \<noteq> 0 then unat off + unat sz else 0"
  assume n: "?n < 2 ^ 63"
  then have "unat (of_nat ?n :: u64) = ?n" by (simp add: unat_of_nat del: of_nat_add)
  then show "P (of_nat ?n)" using n by (intro assms(3)) (auto simp del: of_nat_add)
qed

text \<open>The memory after \<open>updateMem\<close>.\<close>

definition mem_ok :: "bytes \<Rightarrow> bool" where
  "mem_ok m \<longleftrightarrow> length m \<le> 2 ^ 63 + 32 \<and> 32 dvd length m"

definition grown :: "bytes \<Rightarrow> u64 \<Rightarrow> bytes" where
  "grown m need = (let n = (unat need + 31) div 32 * 32 in
     if n > length m then m @ replicate (n - length m) 0 else m)"

lemma grown_ge: "unat need \<le> length (grown m need)"
  by (auto simp: grown_def Let_def)

lemma grown_ok:
  assumes "mem_ok m" "unat need < 2 ^ 63 + 32"
  shows "mem_ok (grown m need)"
proof -
  let ?q = "(unat need + 31) div 32"
  have "?q * 32 \<le> unat need + 31" by simp
  then have "?q * 32 < 2 ^ 63 + 63" using assms(2) by linarith
  then have "?q \<le> 2 ^ 58 + 1" by simp
  then have "?q * 32 \<le> 2 ^ 63 + 32" by simp
  then show ?thesis using assms(1) by (auto simp: mem_ok_def grown_def Let_def)
qed

lemma round32:
  assumes "unat (need :: u64) < 2 ^ 63 + 32"
  shows "unat ((need + 31) div 32 * 32) = (unat need + 31) div 32 * 32"
proof -
  have add: "unat (need + 31) = unat need + 31"
    using assms by (simp add: unat_word_ariths)
  have "unat ((need + 31) div 32) = (unat need + 31) div 32"
    by (simp add: unat_div add)
  moreover have "(unat need + 31) div 32 * 32 < 2 ^ 64"
    using assms by (rule_tac le_less_trans [of _ "unat need + 31"]) simp_all
  ultimately show ?thesis by (simp add: unat_word_ariths)
qed

lemma runGas_le:
  assumes "unat a < 2 ^ 63" "unat b < 2 ^ 63"
  shows "(a :: u64) \<le> a + b"
  using assms by (simp add: word_le_nat_alt unat_word_ariths)

lemma copy_le:
  assumes "unat a < 2 ^ 63 + 2 ^ 32" "unat c < 2 ^ 63"
  shows "(a :: u64) \<le> a + of_nat copyGas * ((c + 31) div 32)"
proof -
  have "unat (c + 31) = unat c + 31" using assms(2) by (simp add: unat_word_ariths)
  then have d: "unat ((c + 31) div 32) = (unat c + 31) div 32" by (simp add: unat_div)
  have "(unat c + 31) div 32 \<le> 2 ^ 58" using assms(2) by simp
  then have "unat (of_nat copyGas * ((c + 31) div 32)) \<le> 3 * 2 ^ 58"
    using d by (simp add: copyGas_def unat_word_ariths)
  then show ?thesis using assms(1) by (simp add: word_le_nat_alt unat_word_ariths)
qed

lemma wp_updateMem:
  assumes g: "m_io_gas s \<le> g" "C (m_context s)" and need: "unat need < 2 ^ 63 + 32"
    and small: "unat (m_runGas s) < 2 ^ 63" "unat (m_copyMemSize s) < 2 ^ 63"
      "m_copyMemSize s = 0 \<or> unat (m_runGas s) < 2 ^ 32"
    and P: "\<And>rg nm. m_runGas s \<le> rg \<Longrightarrow> rg \<le> m_io_gas s \<Longrightarrow>
       P (s\<lparr>m_newMemSize := nm, m_runGas := rg, m_mem := grown (m_mem s) need\<rparr>)"
  shows "wp g C (updateMem need s) P"
proof -
  let ?n = "(need + 31) div 32 * 32"
  let ?copy = "of_nat copyGas * ((m_copyMemSize s + 31) div 32)"
  have tail: "wp g C (let s = s'\<lparr>m_runGas := m_runGas s' + of_nat copyGas * ((m_copyMemSize s' + 31) div 32)\<rparr> in
       if m_io_gas s < m_runGas s then throwE OutOfGas s else Inr s)
     (\<lambda>s. P (if unat (m_newMemSize s) > length (m_mem s)
            then s\<lparr>m_mem := m_mem s @ replicate (unat (m_newMemSize s) - length (m_mem s)) 0\<rparr>
            else s))"
    if s': "s' = s\<lparr>m_newMemSize := ?n, m_runGas := m_runGas s + d\<rparr>" and d: "unat d < 2 ^ 63" for s' d
  proof -
    have "m_runGas s \<le> m_runGas s + d + ?copy"
    proof (cases "m_copyMemSize s = 0")
      case True
      then show ?thesis using runGas_le [OF small(1) d] by (simp add: copyGas_def)
    next
      case False
      then have "unat (m_runGas s + d) < 2 ^ 63 + 2 ^ 32"
        using small(3) d by (simp add: unat_word_ariths)
      from copy_le [OF this small(2)] runGas_le [OF small(1) d] show ?thesis by simp
    qed
    moreover have "s = s\<lparr>m_mem := m_mem s\<rparr>" by simp
    ultimately show ?thesis
      using g P [of "m_runGas s + d + ?copy" ?n]
      by (auto simp: s' Let_def grown_def round32 [OF need] linorder_not_less)
  qed
  let ?s1 = "s\<lparr>m_newMemSize := ?n\<rparr>"
  show ?thesis
  proof (cases "unat ?n > length (m_mem s)")
    case True
    show ?thesis
      unfolding updateMem_def updateGas_def wp_bind
      apply (subst if_P, use True in simp)
      apply (unfold wp_bind)
      apply (rule wp_gasForMem, use g in simp, use g in simp)
      apply (rule wp_gasForMem, use g in simp, use g in simp)
      apply (rule wp_toInt63, use g in simp, use g in simp)
      apply (unfold wp_Inr)
      apply (rule tail)
       apply simp
      apply (simp add: unat_of_nat)
      done
  next
    case False
    show ?thesis
      unfolding updateMem_def updateGas_def
      using tail [of ?s1 0] False by simp
  qed
qed

lemma mem_ok_length: "mem_ok m \<Longrightarrow> length m < 2 ^ 64"
  by (simp add: mem_ok_def)

lemma wp_rd_mem:
  "n = 0 \<or> off + n \<le> length (m_mem s) \<Longrightarrow> (\<And>bs. length bs = n \<Longrightarrow> P bs) \<Longrightarrow> wp g C (rd_mem s off n) P"
  by (auto simp: rd_mem_def)

lemma wp_wr_mem:
  assumes "bs = [] \<or> off + length bs \<le> length (m_mem s)"
    and "\<And>m. length m = length (m_mem s) \<Longrightarrow> P (s\<lparr>m_mem := m\<rparr>)"
  shows "wp g C (wr_mem off bs s) P"
proof (cases "bs = []")
  case True
  then show ?thesis using assms(2) [of "m_mem s"] by (simp add: wr_mem_def)
next
  case False
  then show ?thesis using assms by (simp add: wr_mem_def)
qed

text \<open>A range that the code computes from two stack words, once \<open>memNeed\<close> has been paid for.\<close>

lemma ucast_small:
  assumes "unat (w :: u256) < 2 ^ 64"
  shows "unat (ucast w :: u64) = unat w"
  using assms by (simp add: unsigned_ucast_eq take_bit_nat_eq_self)

lemma ucast_le: "unat (ucast (w :: u256) :: 32 word) \<le> unat w"
  by (simp add: unsigned_ucast_eq take_bit_eq_mod)

lemma range_paid:
  assumes "unat need < 2 ^ 63" "sz \<noteq> 0 \<Longrightarrow> unat need = unat off + unat sz" "unat need \<le> len"
  shows "unat (ucast sz :: u64) = 0 \<or>
     unat (ucast (off :: u256) :: u64) + unat (ucast (sz :: u256) :: u64) \<le> len"
proof (cases "sz = 0")
  case False
  with assms have n: "unat off + unat sz = unat need" by simp
  then have "unat off + unat sz < 2 ^ 64" using assms(1) by simp
  then have "unat off < 2 ^ 64" "unat sz < 2 ^ 64" by simp_all
  then show ?thesis using n assms(3) by (simp only: ucast_small) simp
qed simp

lemma copy_k:
  fixes big idx sz n :: nat
  assumes "idx \<le> big"
    and k: "k = (if big + sz > n then (if n < big then 0 else n - idx) else sz)"
    and "idx = big \<or> n < big"
  shows "k \<le> sz \<and> (0 < k \<longrightarrow> idx + k \<le> n)"
  using assms by (auto split: if_splits)

definition copy_len :: "nat \<Rightarrow> nat \<Rightarrow> nat \<Rightarrow> nat \<Rightarrow> nat" where
  "copy_len n big idx sz = (if big + sz > n then (if n < big then 0 else n - idx) else sz)"

lemma copyDataToMemory_eq:
  "copyDataToMemory data s =
     bindE (rd_SP s 0) (\<lambda>sp0. bindE (rd_SP s 1) (\<lambda>sp1. bindE (rd_SP s 2) (\<lambda>sp2.
       let offset = unat (ucast sp0 :: u64); index = unat (ucast sp1 :: u64); size = unat (ucast sp2 :: u64);
           k = copy_len (size_t data) (unat sp1) index size
       in bindE (if k > 0
                 then if index + k \<le> length data
                      then wr_mem offset (take k (drop index data)) s else throwE OutOfBounds s
                 else Inr s) (\<lambda>s.
          if size > k then wr_mem (offset + k) (replicate (size - k) 0) s else Inr s))))"
  by (simp only: copyDataToMemory_def copy_len_def Let_def)

lemma u64_less: "unat (w :: u64) < 2 ^ 64"
  using unsigned_less [of w] by simp

lemma size_t_less: "size_t data < 2 ^ 64"
  unfolding size_t_def by (rule u64_less)

lemma size_t_le: "size_t data \<le> length data"
  by (simp add: size_t_def unat_of_nat)

lemma wp_copyDataToMemory:
  assumes st: "length (m_stack s) = 1024" "0 \<le> m_SP s" "m_SP s + 2 < 1024"
    and mem: "unat (ucast (m_stack s ! nat (m_SP s + 2)) :: u64) = 0 \<or>
      unat (ucast (m_stack s ! nat (m_SP s)) :: u64) + unat (ucast (m_stack s ! nat (m_SP s + 2)) :: u64)
        \<le> length (m_mem s)"
    and P: "\<And>m. length m = length (m_mem s) \<Longrightarrow> P (s\<lparr>m_mem := m\<rparr>)"
  shows "wp g C (copyDataToMemory data s) P"
proof -
  let ?off = "unat (ucast (m_stack s ! nat (m_SP s)) :: u64)"
  let ?big = "unat (m_stack s ! nat (m_SP s + 1))"
  let ?idx = "unat (ucast (m_stack s ! nat (m_SP s + 1)) :: u64)"
  let ?sz = "unat (ucast (m_stack s ! nat (m_SP s + 2)) :: u64)"
  let ?k = "copy_len (size_t data) ?big ?idx ?sz"
  have "?idx = ?big \<or> size_t data < ?big"
    using size_t_less [of data] by (cases "?big < 2 ^ 64") (auto simp: ucast_small)
  moreover have "?idx \<le> ?big" by (simp add: unsigned_ucast_eq take_bit_eq_mod)
  ultimately have k: "?k \<le> ?sz" "0 < ?k \<Longrightarrow> ?idx + ?k \<le> length data"
    using copy_k [OF _ copy_len_def, of ?idx ?big "size_t data" ?sz] size_t_le [of data] by simp_all
  have fill: "wp g C (if ?k < ?sz then wr_mem (?off + ?k) (replicate (?sz - ?k) 0) (s\<lparr>m_mem := m\<rparr>)
        else Inr (s\<lparr>m_mem := m\<rparr>)) P" if "length m = length (m_mem s)" for m
  proof (cases "?k < ?sz")
    case True
    have "wp g C (wr_mem (?off + ?k) (replicate (?sz - ?k) 0) (s\<lparr>m_mem := m\<rparr>)) P"
      by (rule wp_wr_mem) (use mem True that P in auto)
    with True show ?thesis by simp
  next
    case False
    with P [OF that] show ?thesis by simp
  qed
  show ?thesis
  proof (cases "0 < ?k")
    case True
    have wr: "wp g C (wr_mem ?off (take ?k (drop ?idx data)) s)
        (\<lambda>s'. wp g C (if ?k < ?sz then wr_mem (?off + ?k) (replicate (?sz - ?k) 0) s' else Inr s') P)"
    proof (rule wp_wr_mem)
      show "take ?k (drop ?idx data) = [] \<or> ?off + length (take ?k (drop ?idx data)) \<le> length (m_mem s)"
      proof -
        have "length (take ?k (drop ?idx data)) = ?k" using k(2) [OF True] by simp
        with mem k(1) True show ?thesis by linarith
      qed
    qed (rule fill)
    show ?thesis
      unfolding copyDataToMemory_eq wp_bind Let_def
      using st k(2) [OF True] True wr by (simp cong: if_cong split del: if_split)
  next
    case False
    then show ?thesis
      unfolding copyDataToMemory_eq wp_bind Let_def
      using st fill [of "m_mem s"] by (simp cong: if_cong split del: if_split)
  qed
qed

lemma of_nat_pos: "0 < v \<Longrightarrow> v < 2 ^ 63 \<Longrightarrow> (0 :: u64) < of_nat v"
  by (simp add: word_less_nat_alt unat_of_nat)

section \<open>The invariant\<close>

definition code_ok :: "'h env \<Rightarrow> 'h vm \<Rightarrow> bool" where
  "code_ok env s \<longleftrightarrow> (let n = length (m_pCode env) in
     length (m_code s) = n + 33 \<and> (\<forall>i. n \<le> i \<and> i < n + 33 \<longrightarrow> m_code s ! i = 0) \<and>
     (\<forall>p \<in> set (m_jumpDests s). p < n))"

definition fetched :: "'h env \<Rightarrow> instr \<Rightarrow> 'h vm \<Rightarrow> bool" where
  "fetched env i s \<longleftrightarrow>
     length (m_stack s) = 1024 \<and> mem_ok (m_mem s) \<and> code_ok env s \<and>
     (i \<noteq> STOP \<longrightarrow> m_PC s < length (m_pCode env)) \<and> decode (m_OP s) = i \<and>
     0 \<le> m_SP s \<and> m_SP s + fst (shape i) \<le> 1024 \<and> m_SPP s = m_SP s - snd (shape i) \<and>
     0 \<le> m_SPP s \<and> unat (m_runGas s) \<le> 100000 \<and> (is_free i \<or> 0 < m_runGas s) \<and>
     m_copyMemSize s = 0"

definition vm_inv :: "'h env \<Rightarrow> 'h vm \<Rightarrow> bool" where
  "vm_inv env s \<longleftrightarrow>
     length (m_stack s) = 1024 \<and> mem_ok (m_mem s) \<and> 0 \<le> m_SPP s \<and> m_SPP s \<le> 1024 \<and>
     (case m_bounce s of
        BounceInit \<Rightarrow> m_PC s = 0
      | BounceInterpret \<Rightarrow> code_ok env s \<and> m_PC s \<le> length (m_pCode env) + 32
      | BounceCreate \<Rightarrow> decode (m_OP s) \<in> {CREATE, CREATE2} \<and> \<not> msg_static (m_message env)
          \<and> fetched env (decode (m_OP s)) s
      | BounceCall \<Rightarrow> (\<exists>op. decode (m_OP s) = Call op) \<and> fetched env (decode (m_OP s)) s
      | BounceNull \<Rightarrow> True)"

definition weight :: "'h vm \<Rightarrow> nat" where
  "weight s = 3 * unat (m_io_gas s) +
     (case m_bounce s of BounceInit \<Rightarrow> 2 | BounceInterpret \<Rightarrow> 1 | _ \<Rightarrow> 0)"

definition post :: "'h env \<Rightarrow> ('h \<Rightarrow> bool) \<Rightarrow> 'h vm \<Rightarrow> 'h vm \<Rightarrow> bool" where
  "post env C s s' \<longleftrightarrow>
     vm_inv env s' \<and> m_io_gas s' \<le> m_io_gas s \<and> C (m_context s') \<and> weight s' < weight s"

lemma shape_change: "- snd (shape i) \<le> fst (shape i)"
  by (cases i) auto

lemma code_ok_cong:
  "m_code s = m_code s' \<Longrightarrow> m_jumpDests s = m_jumpDests s' \<Longrightarrow> code_ok env s = code_ok env s'"
  by (simp add: code_ok_def)

lemma unat_paid: "(rg :: u64) \<le> io \<Longrightarrow> unat (io - rg) = unat io - unat rg"
  by (rule unat_sub)

lemma paid_le: "(rg :: u64) \<le> io \<Longrightarrow> io - rg \<le> io"
  by (simp add: word_le_nat_alt unat_paid)

text \<open>Every turn that goes on with the loop ends this way.\<close>

lemma post_resume:
  assumes f: "fetched env i s"
    and s': "length (m_stack s') = 1024" "mem_ok (m_mem s')" "m_SPP s' = m_SPP s"
      "m_code s' = m_code s" "m_jumpDests s' = m_jumpDests s" "m_bounce s' = BounceInterpret"
      "m_PC s' \<le> length (m_pCode env) + 32" "C (m_context s')"
    and gas: "m_io_gas s' \<le> m_io_gas s - rg" "rg \<le> m_io_gas s" "0 < rg"
  shows "post env C s s'"
proof -
  have "m_SPP s \<le> 1024"
    using f shape_change [of i] by (simp add: fetched_def)
  then have "vm_inv env s'"
    using f s' code_ok_cong [of s' s env] by (simp add: vm_inv_def fetched_def)
  moreover have "m_io_gas s' \<le> m_io_gas s" using gas paid_le by (meson order_trans)
  moreover have "unat (m_io_gas s') < unat (m_io_gas s)"
    using gas unat_paid [of rg "m_io_gas s"] by (simp add: word_le_nat_alt word_less_nat_alt)
  ultimately show ?thesis using s' by (simp add: post_def weight_def)
qed

lemma post_interpret:
  assumes f: "fetched env i s" "m_bounce s = BounceInterpret"
    and s': "length (m_stack s') = 1024" "mem_ok (m_mem s')" "m_SPP s' = m_SPP s"
      "m_code s' = m_code s" "m_jumpDests s' = m_jumpDests s" "m_bounce s' = BounceInterpret"
      "m_PC s' \<le> length (m_pCode env) + 32" "C (m_context s')"
    and gas: "m_io_gas s' \<le> m_io_gas s - rg" "rg \<le> m_io_gas s" "0 < rg"
  shows "post env C s s'"
  by (rule post_resume, rule f(1)) (use s' gas in simp_all)

lemma post_other:
  assumes "m_bounce s = BounceInterpret" "m_bounce s' \<noteq> BounceInit" "m_bounce s' \<noteq> BounceInterpret"
    and "vm_inv env s'" "m_io_gas s' \<le> m_io_gas s" "C (m_context s')"
  shows "post env C s s'"
  using assms by (auto simp: post_def weight_def word_le_nat_alt split: bounce.splits)

lemma fetched_facts:
  assumes "fetched env i s"
  shows "length (m_stack s) = 1024" "0 \<le> m_SP s" "m_SP s + fst (shape i) \<le> 1024"
    "m_SPP s = m_SP s - snd (shape i)" "0 \<le> m_SPP s" "m_copyMemSize s = 0"
    "unat (m_runGas s) \<le> 100000" "mem_ok (m_mem s)"
    "i \<noteq> STOP \<Longrightarrow> m_PC s < length (m_pCode env)" "\<not> is_free i \<Longrightarrow> 0 < m_runGas s"
  using assms by (auto simp: fetched_def)

lemmas stay = post_interpret [where rg = "m_runGas s" and s = s for s]

lemma wp_verifyJumpDest:
  assumes "m_io_gas s \<le> g" "C (m_context s)" "\<And>pc. pc \<in> set (m_jumpDests s) \<Longrightarrow> P pc"
  shows "wp g C (verifyJumpDest d s) P"
  using assms by (auto simp: verifyJumpDest_def)

lemma dest_bound: "fetched env i s \<Longrightarrow> p \<in> set (m_jumpDests s) \<Longrightarrow> p \<le> length (m_pCode env) + 32"
  by (auto simp: fetched_def code_ok_def Let_def)

section \<open>The interface to the host\<close>

text \<open>What the interpreter relies on: answering a question and, outside a static frame, a change of
  the state keep the predicate \<open>C\<close>; a call from a frame below the depth limit, static if the frame
  is, keeps it too and returns at most the gas it was given.\<close>

locale evm_host =
  fixes env :: "'h env" and C :: "'h \<Rightarrow> bool"
  assumes revision: "m_rev env \<le> 8"
    and exists_keeps: "C h \<Longrightarrow> C (snd (account_exists (m_host env) h a))"
    and get_storage_keeps: "C h \<Longrightarrow> C (snd (get_storage (m_host env) h a k))"
    and balance_keeps: "C h \<Longrightarrow> C (snd (get_balance (m_host env) h a))"
    and code_size_keeps: "C h \<Longrightarrow> C (snd (get_code_size (m_host env) h a))"
    and code_hash_keeps: "C h \<Longrightarrow> C (snd (get_code_hash (m_host env) h a))"
    and copy_code_keeps: "C h \<Longrightarrow> C (snd (copy_code (m_host env) h a off n))"
    and block_hash_keeps: "C h \<Longrightarrow> C (snd (get_block_hash (m_host env) h num))"
    and call_gas: "C h \<Longrightarrow> depth_ok env \<Longrightarrow> msg_depth m = msg_depth (m_message env) + 1 \<Longrightarrow>
      (msg_static (m_message env) \<longrightarrow> msg_static m) \<Longrightarrow>
      res_gas_left (fst (host_call (m_host env) h m)) \<le> msg_gas m"
    and call_keeps: "C h \<Longrightarrow> depth_ok env \<Longrightarrow> msg_depth m = msg_depth (m_message env) + 1 \<Longrightarrow>
      (msg_static (m_message env) \<longrightarrow> msg_static m) \<Longrightarrow> C (snd (host_call (m_host env) h m))"
    and storage_keeps: "C h \<Longrightarrow> \<not> msg_static (m_message env) \<Longrightarrow>
      C (snd (set_storage (m_host env) h a k v))"
    and selfdestruct_keeps: "C h \<Longrightarrow> \<not> msg_static (m_message env) \<Longrightarrow>
      C (host_selfdestruct (m_host env) h a b)"
    and log_keeps: "C h \<Longrightarrow> \<not> msg_static (m_message env) \<Longrightarrow> C (emit_log (m_host env) h a d ts)"

end
