(* ===== verification/EvmCases.thy ===== *)
theory EvmCases
  imports EvmWp
begin

text \<open>
  Each case of the interpreter keeps the invariant: started on a fetched instruction, it throws
  without leaving the arrays or ends in a state that satisfies \<open>post\<close>.
\<close>

lemma wp_case_bin:
  assumes f: "fetched env (Bin op) s" "m_bounce s = BounceInterpret" and C: "C (m_context s)"
  shows "wp (m_io_gas s) C (case_bin env op s) (post env C s)"
  unfolding case_bin_def wp_bind
  by (rule wp_updateIOGas, rule order_refl, rule C)
    (use fetched_facts [OF f(1)] f C in \<open>auto simp: next_instr_def is_free_def paid_le
      simp del: bin_result.simps intro!: stay [OF f]\<close>)

lemma wp_case_un:
  assumes f: "fetched env (Una op) s" "m_bounce s = BounceInterpret" and C: "C (m_context s)"
  shows "wp (m_io_gas s) C (case_un op s) (post env C s)"
  unfolding case_un_def wp_bind
  by (rule wp_updateIOGas, rule order_refl, rule C)
    (use fetched_facts [OF f(1)] f C in \<open>auto simp: next_instr_def is_free_def paid_le
      intro!: stay [OF f]\<close>)

lemma wp_case_tri:
  assumes f: "fetched env (Tri op) s" "m_bounce s = BounceInterpret" and C: "C (m_context s)"
  shows "wp (m_io_gas s) C (case_tri env op s) (post env C s)"
  unfolding case_tri_def wp_bind
  by (rule wp_updateIOGas, rule order_refl, rule C)
    (use fetched_facts [OF f(1)] f C in \<open>auto simp: next_instr_def is_free_def paid_le
      simp del: tri_result.simps intro!: stay [OF f]\<close>)

lemma wp_case_shift:
  assumes f: "fetched env (Shift op) s" "m_bounce s = BounceInterpret" and C: "C (m_context s)"
  shows "wp (m_io_gas s) C (case_shift env op s) (post env C s)"
  unfolding case_shift_def wp_bind
  by (rule wp_check, rule order_refl, rule C, simp, rule wp_updateIOGas, rule order_refl, rule C)
    (use fetched_facts [OF f(1)] f C in \<open>auto simp: next_instr_def is_free_def paid_le
      simp del: shift_result.simps intro!: stay [OF f]\<close>)

lemma wp_case_POP:
  assumes f: "fetched env POP s" "m_bounce s = BounceInterpret" and C: "C (m_context s)"
  shows "wp (m_io_gas s) C (case_POP s) (post env C s)"
  unfolding case_POP_def wp_bind
  by (rule wp_updateIOGas, rule order_refl, rule C)
    (use fetched_facts [OF f(1)] f C in \<open>auto simp: next_instr_def is_free_def paid_le
      intro!: stay [OF f]\<close>)

lemma wp_case_EXP:
  assumes f: "fetched env EXP s" "m_bounce s = BounceInterpret" and C: "C (m_context s)"
  shows "wp (m_io_gas s) C (case_EXP env s) (post env C s)"
proof -
  note facts = fetched_facts [OF f(1), simplified]
  show ?thesis
    unfolding case_EXP_def wp_bind Let_def
    apply (subst wp_rd_SP)
       apply (use facts in simp_all)[3]
    apply (rule wp_toInt63)
 apply (rule order_refl)
 apply (rule C)
    apply (rule wp_updateIOGas, simp, simp add: C)
    subgoal premises p
      using facts f C p of_nat_pos [OF _ p(1)] by (auto simp: next_instr_def stepGas5_def intro!: post_interpret [OF f])
    done
qed

lemma wp_case_SIGNEXTEND:
  assumes f: "fetched env SIGNEXTEND s" "m_bounce s = BounceInterpret" and C: "C (m_context s)"
  shows "wp (m_io_gas s) C (case_SIGNEXTEND s) (post env C s)"
  unfolding case_SIGNEXTEND_def wp_bind
  by (rule wp_updateIOGas, rule order_refl, rule C)
    (use fetched_facts [OF f(1)] f C in \<open>auto simp: next_instr_def is_free_def paid_le
      intro!: stay [OF f]\<close>)

lemma wp_case_DUP:
  assumes f: "fetched env (DUP n) s" "m_bounce s = BounceInterpret" and C: "C (m_context s)"
  shows "wp (m_io_gas s) C (case_DUP n s) (post env C s)"
  unfolding case_DUP_def wp_bind
  by (rule wp_updateIOGas, rule order_refl, rule C)
    (use fetched_facts [OF f(1)] f C in \<open>auto simp: next_instr_def is_free_def paid_le
      intro!: stay [OF f]\<close>)

lemma wp_case_SWAP:
  assumes f: "fetched env (SWAP n) s" "m_bounce s = BounceInterpret" and C: "C (m_context s)"
  shows "wp (m_io_gas s) C (case_SWAP n s) (post env C s)"
  unfolding case_SWAP_def wp_bind
  by (rule wp_updateIOGas, rule order_refl, rule C)
    (use fetched_facts [OF f(1)] f C in \<open>auto simp: next_instr_def is_free_def paid_le
      intro!: stay [OF f]\<close>)

lemma wp_case_JUMPDEST:
  assumes f: "fetched env JUMPDEST s" "m_bounce s = BounceInterpret" and C: "C (m_context s)"
  shows "wp (m_io_gas s) C (case_JUMPDEST s) (post env C s)"
  unfolding case_JUMPDEST_def wp_bind
  by (rule wp_updateIOGas, simp, simp add: C)
    (use fetched_facts [OF f(1)] f C in \<open>auto simp: next_instr_def paid_le jumpdestGas_def
      intro!: post_interpret [OF f, where rg = 1]\<close>)

lemma wp_case_JUMP:
  assumes f: "fetched env JUMP s" "m_bounce s = BounceInterpret" and C: "C (m_context s)"
  shows "wp (m_io_gas s) C (case_JUMP s) (post env C s)"
  unfolding case_JUMP_def wp_bind
  by (rule wp_updateIOGas, rule order_refl, rule C)
    (use fetched_facts [OF f(1)] f C dest_bound [OF f(1)] in
      \<open>auto simp: is_free_def paid_le intro!: wp_verifyJumpDest stay [OF f]\<close>)

lemma wp_case_JUMPI:
  assumes f: "fetched env JUMPI s" "m_bounce s = BounceInterpret" and C: "C (m_context s)"
  shows "wp (m_io_gas s) C (case_JUMPI s) (post env C s)"
  unfolding case_JUMPI_def wp_bind
  by (rule wp_updateIOGas, rule order_refl, rule C)
    (use fetched_facts [OF f(1)] f C dest_bound [OF f(1)] in
      \<open>auto simp: is_free_def paid_le next_instr_def intro!: wp_verifyJumpDest stay [OF f]\<close>)

section \<open>Questions to the host\<close>

text \<open>The end of an instruction that pushes one word.\<close>

lemma wp_push_answer:
  assumes f: "fetched env i s" "m_bounce s = BounceInterpret"
    and i: "i \<noteq> STOP" "\<not> is_free i" "m_SPP s < 1024" and rg: "rg \<le> m_io_gas s" "0 < rg" and C: "C (m_context s')"
    and s': "s' = s\<lparr>m_runGas := r, m_io_gas := m_io_gas s - rg, m_context := h, m_tx_context := t\<rparr>"
  shows "wp g C (bindE (wr_SPP0 v s') next_instr) (post env C s)"
  using fetched_facts [OF f(1)] f i rg C
  by (auto simp: s' next_instr_def intro!: post_interpret [OF f, where rg = rg])

lemma wp_case_CALLDATALOAD:
  assumes f: "fetched env CALLDATALOAD s" "m_bounce s = BounceInterpret" and C: "C (m_context s)"
  shows "wp (m_io_gas s) C (case_CALLDATALOAD env s) (post env C s)"
  unfolding case_CALLDATALOAD_def wp_bind
  by (rule wp_updateIOGas, rule order_refl, rule C)
    (use fetched_facts [OF f(1)] f C in \<open>auto simp: next_instr_def is_free_def paid_le intro!: stay [OF f]\<close>)

context evm_host
begin

text \<open>A case that charges, reads one word, asks the host and pushes the answer.\<close>

lemma wp_query:
  assumes f: "fetched env i s" "m_bounce s = BounceInterpret" and C: "C (m_context s)"
    and i: "shape i = (1, 0)" "i \<noteq> STOP" "\<not> is_free i"
    and keeps: "\<And>w h. C h \<Longrightarrow> C (snd (q w h))"
  shows "wp (m_io_gas s) C (bindE (updateIOGas s) (\<lambda>s. bindE (rd_SP s 0) (\<lambda>w.
     bindE (ask (q w) s) (\<lambda>(x, s). bindE (wr_SPP0 (p x) s) next_instr)))) (post env C s)"
proof -
  note facts = fetched_facts [OF f(1), unfolded i, simplified]
  show ?thesis
    unfolding wp_bind [of _ _ "updateIOGas s"] wp_bind [of _ _ "rd_SP _ _"]
    apply (rule wp_updateIOGas, rule order_refl, rule C)
    apply (subst wp_rd_SP, (use facts in simp_all)[3])
    apply (subst wp_bind, rule wp_ask)
    subgoal using keeps C by simp
    subgoal premises p for x h
      unfolding prod.case
      by (rule wp_push_answer [OF f i(2,3), where rg = "m_runGas s" and r = "m_runGas s" and h = h and t = "m_tx_context s"])
        (use facts i p fetched_facts(10) [OF f(1) i(3)] in simp_all)
    done
qed

lemma wp_case_BALANCE:
  assumes f: "fetched env BALANCE s" "m_bounce s = BounceInterpret" and C: "C (m_context s)"
  shows "wp (m_io_gas s) C (case_BALANCE env s) (post env C s)"
  unfolding case_BALANCE_def by (rule wp_query [OF f C]) (simp_all add: is_free_def balance_keeps)

lemma wp_case_EXTCODESIZE:
  assumes f: "fetched env EXTCODESIZE s" "m_bounce s = BounceInterpret" and C: "C (m_context s)"
  shows "wp (m_io_gas s) C (case_EXTCODESIZE env s) (post env C s)"
  unfolding case_EXTCODESIZE_def by (rule wp_query [OF f C]) (simp_all add: is_free_def code_size_keeps)

lemma wp_case_EXTCODEHASH:
  assumes f: "fetched env EXTCODEHASH s" "m_bounce s = BounceInterpret" and C: "C (m_context s)"
  shows "wp (m_io_gas s) C (case_EXTCODEHASH env s) (post env C s)"
  unfolding case_EXTCODEHASH_def
  by (subst wp_bind, rule wp_check, rule order_refl, rule C, simp, rule wp_query [OF f C])
    (simp_all add: is_free_def code_hash_keeps)

lemma wp_case_SLOAD:
  assumes f: "fetched env SLOAD s" "m_bounce s = BounceInterpret" and C: "C (m_context s)"
  shows "wp (m_io_gas s) C (case_SLOAD env s) (post env C s)"
  unfolding case_SLOAD_def by (rule wp_query [OF f C]) (simp_all add: is_free_def get_storage_keeps)

lemma wp_case_env:
  assumes f: "fetched env (Env op) s" "m_bounce s = BounceInterpret" and C: "C (m_context s)"
  shows "wp (m_io_gas s) C (case_env env op s) (post env C s)"
proof -
  note facts = fetched_facts [OF f(1), simplified]
  have fin: "wp (m_io_gas s) C (bindE (wr_SPP0 v s') next_instr) (post env C s)"
    if "s' = s\<lparr>m_io_gas := m_io_gas s - m_runGas s, m_context := h, m_tx_context := t\<rparr>" "C h"
      "m_runGas s \<le> m_io_gas s" for v s' h t
    by (rule wp_push_answer [OF f, where rg = "m_runGas s" and r = "m_runGas s" and h = h and t = t])
      (use that facts in \<open>simp_all add: is_free_def\<close>)
  have rest: "wp (m_io_gas s) C (bindE (if op = SELFBALANCE
         then ask (\<lambda>h. get_balance (m_host env) h (msg_destination (m_message env))) s'
         else Inr (0, s')) (\<lambda>(b, s). bindE (wr_SPP0 (env_result env c b s op) s) next_instr)) (post env C s)"
    if s': "s' = s\<lparr>m_io_gas := m_io_gas s - m_runGas s, m_tx_context := t\<rparr>" "m_runGas s \<le> m_io_gas s" for s' t c
  proof (cases "op = SELFBALANCE")
    case True
    show ?thesis
      unfolding if_P [OF True]
      by (subst wp_bind, rule wp_ask)
        (use C balance_keeps s' in \<open>auto simp del: env_result.simps wp_bind intro!: fin [where t = t]\<close>)
  next
    case False
    have "s' = s\<lparr>m_io_gas := m_io_gas s - m_runGas s, m_context := m_context s, m_tx_context := t\<rparr>"
      using s' by simp
    from fin [OF this C s'(2)] show ?thesis using False by simp
  qed
  show ?thesis
    unfolding case_env_def
    apply (subst wp_bind, rule wp_check, rule order_refl, rule C, simp)
    apply (subst wp_bind, rule wp_updateIOGas, rule order_refl, rule C)
    subgoal premises p
      using rest [OF _ p(2), of _ "m_tx_context s"] rest [OF _ p(2)]
      by (auto simp: getTxContext_def Let_def simp del: wp_bind env_result.simps split: option.split)
    done
qed

lemma wp_case_BLOCKHASH:
  assumes f: "fetched env BLOCKHASH s" "m_bounce s = BounceInterpret" and C: "C (m_context s)"
  shows "wp (m_io_gas s) C (case_BLOCKHASH env s) (post env C s)"
proof -
  note facts = fetched_facts [OF f(1), simplified]
  have fin: "wp (m_io_gas s) C (bindE (wr_SPP0 v s') next_instr) (post env C s)"
    if "s' = s\<lparr>m_runGas := 20, m_io_gas := m_io_gas s - 20, m_context := h, m_tx_context := t\<rparr>" "C h"
      "20 \<le> m_io_gas s" for v s' h t
    by (rule wp_push_answer [OF f, where rg = 20 and r = 20 and h = h and t = t])
      (use that facts in \<open>simp_all add: is_free_def\<close>)
  have rest: "wp (m_io_gas s) C (bindE (rd_SP s' 0) (\<lambda>number.
         bindE (if P number then ask (\<lambda>h. get_block_hash (m_host env) h (ucast number)) s' else Inr (0, s'))
          (\<lambda>(hash, s). bindE (wr_SPP0 hash s) next_instr))) (post env C s)"
    if s': "s' = s\<lparr>m_runGas := 20, m_io_gas := m_io_gas s - 20, m_tx_context := t\<rparr>" "20 \<le> m_io_gas s" for s' t P
  proof -
    have "s' = s\<lparr>m_runGas := 20, m_io_gas := m_io_gas s - 20, m_context := m_context s, m_tx_context := t\<rparr>"
      using s' by simp
    note no = fin [OF this C s'(2)]
    show ?thesis
      apply (subst wp_bind, subst wp_rd_SP, (use facts s' in simp_all)[3])
      apply (cases "P (m_stack s' ! nat (m_SP s' + int 0))")
      subgoal
        apply (simp only: if_True)
        apply (subst wp_bind, rule wp_ask)
        using C block_hash_keeps s' by (auto simp del: wp_bind intro!: fin [where t = t])
      subgoal using no by simp
      done
  qed
  show ?thesis
    unfolding case_BLOCKHASH_def
    apply (subst wp_bind, rule wp_updateIOGas, simp, simp add: C)
    subgoal premises p
      using p rest [of _ "m_tx_context s"] rest
      by (auto simp: getTxContext_def Let_def stepGas6_def simp del: wp_bind split: option.split)
    done
qed

end

end
