(* ===== verification/EvmMemory.thy ===== *)
theory EvmMemory
  imports EvmCases
begin

text \<open>
  The cases that grow the memory, read immediate bytes or halt: what a paid range covers, and that
  each case keeps the invariant.
\<close>

section \<open>Memory\<close>

lemma wp_pay_mem:
  assumes g: "m_io_gas s \<le> g" "C (m_context s)" and need: "unat need < 2 ^ 63 + 32"
    and small: "unat (m_runGas s) < 2 ^ 63" "unat (m_copyMemSize s) < 2 ^ 63"
      "m_copyMemSize s = 0 \<or> unat (m_runGas s) < 2 ^ 32"
    and P: "\<And>rg nm. m_runGas s \<le> rg \<Longrightarrow> rg \<le> m_io_gas s \<Longrightarrow>
       P (s\<lparr>m_newMemSize := nm, m_runGas := rg, m_mem := grown (m_mem s) need, m_io_gas := m_io_gas s - rg\<rparr>)"
  shows "wp g C (updateMem need s) (\<lambda>s. wp g C (updateIOGas s) P)"
  by (rule wp_updateMem, rule g(1), rule g(2), rule need, rule small(1), rule small(2), rule small(3),
      rule wp_updateIOGas) (use g P in auto)

text \<open>A memory offset of one word, and the bytes that \<open>k\<close> more than it pays for.\<close>

lemma wp_offset:
  assumes "m_io_gas s \<le> g" "C (m_context s)" "unat a < 2 ^ 63 \<Longrightarrow> P (ucast (a :: u256))"
  shows "wp g C (toInt63 s (unat a)) P"
  by (rule wp_toInt63, rule assms(1), rule assms(2)) (use assms(3) in simp)

lemma offset_need:
  assumes "unat (a :: u256) < 2 ^ 63" "unat k \<le> 32"
  shows "unat (ucast a + k :: u64) = unat a + unat k"
  using assms ucast_small [of a] by (simp add: unat_word_ariths)

lemma offset_paid:
  assumes "unat (a :: u256) < 2 ^ 63" "unat k \<le> 32"
  shows "unat (ucast a + k :: u64) < 2 ^ 63 + 32"
    "unat (ucast a :: 32 word) + unat k \<le> length (grown m (ucast a + k))"
  using grown_ge [of "ucast a + k" m] ucast_le [of a] offset_need [OF assms] assms
  by (simp_all add: le_trans)

lemma pos_le: "(0 :: u64) < a \<Longrightarrow> a \<le> b \<Longrightarrow> 0 < b"
  by (rule order_less_le_trans)

lemma wp_case_MLOAD:
  assumes f: "fetched env MLOAD s" "m_bounce s = BounceInterpret" and C: "C (m_context s)"
  shows "wp (m_io_gas s) C (case_MLOAD s) (post env C s)"
proof -
  note facts = fetched_facts [OF f(1), simplified]
  show ?thesis
    unfolding case_MLOAD_def wp_bind
    apply (subst wp_rd_SP)
       apply (use facts in simp_all)[3]
    apply (rule wp_offset, rule order_refl, rule C)
    apply (rule wp_pay_mem, rule order_refl, rule C)
        apply (use offset_paid(1) [of _ 32] facts in simp_all)[4]
    apply (rule wp_rd_mem)
    subgoal using offset_paid(2) [of _ 32] by simp
    subgoal for rg nm bs
      using facts f(2) C pos_le [of "m_runGas s" rg]
      by (auto simp: next_instr_def is_free_def intro!: post_interpret [OF f, where rg = rg] grown_ok offset_paid(1) [of _ 32, simplified])
    done
qed

lemma wp_case_MSTORE:
  assumes f: "fetched env MSTORE s" "m_bounce s = BounceInterpret" and C: "C (m_context s)"
  shows "wp (m_io_gas s) C (case_MSTORE s) (post env C s)"
proof -
  note facts = fetched_facts [OF f(1), simplified]
  show ?thesis
    unfolding case_MSTORE_def wp_bind
    apply (subst wp_rd_SP)
       apply (use facts in simp_all)[3]
    apply (rule wp_offset, rule order_refl, rule C)
    apply (rule wp_pay_mem, rule order_refl, rule C)
        apply (use offset_paid(1) [of _ 32] facts in simp_all)[4]
    apply (subst wp_rd_SP)
       apply (use facts in simp_all)[3]
    apply (rule wp_wr_mem)
    subgoal using offset_paid(2) [of _ 32] by simp
    subgoal for rg nm bs
      using facts f(2) C pos_le [of "m_runGas s" rg] grown_ok [OF _ offset_paid(1) [of _ 32]]
      by (auto simp: next_instr_def is_free_def mem_ok_def intro!: post_interpret [OF f, where rg = rg])
    done
qed

lemma wp_case_MSTORE8:
  assumes f: "fetched env MSTORE8 s" "m_bounce s = BounceInterpret" and C: "C (m_context s)"
  shows "wp (m_io_gas s) C (case_MSTORE8 s) (post env C s)"
proof -
  note facts = fetched_facts [OF f(1), simplified]
  show ?thesis
    unfolding case_MSTORE8_def wp_bind
    apply (subst wp_rd_SP)
       apply (use facts in simp_all)[3]
    apply (rule wp_offset, rule order_refl, rule C)
    apply (rule wp_pay_mem, rule order_refl, rule C)
        apply (use offset_paid(1) [of _ 1] facts in simp_all)[4]
    apply (subst wp_rd_SP)
       apply (use facts in simp_all)[3]
    apply (rule wp_wr_mem)
    subgoal using offset_paid(2) [of _ 1] by simp
    subgoal for rg nm bs
      using facts f(2) C pos_le [of "m_runGas s" rg] grown_ok [OF _ offset_paid(1) [of _ 1]]
      by (auto simp: next_instr_def is_free_def mem_ok_def intro!: post_interpret [OF f, where rg = rg])
    done
qed

lemma small_of_nat: "v < 2 ^ 63 \<Longrightarrow> unat (of_nat v :: u64) < 2 ^ 63"
  by (simp add: unat_of_nat)

lemma wp_case_SHA3:
  assumes f: "fetched env SHA3 s" "m_bounce s = BounceInterpret" and C: "C (m_context s)"
  shows "wp (m_io_gas s) C (case_SHA3 env s) (post env C s)"
proof -
  note facts = fetched_facts [OF f(1), simplified]
  show ?thesis
    unfolding case_SHA3_def wp_bind Let_def
    apply (subst wp_rd_SP)
       apply (use facts in simp_all)[3]
    apply (rule wp_toInt63, rule order_refl, rule C)
    apply (subst wp_rd_SP)
       apply (use facts in simp_all)[3]
    apply (rule wp_memNeed, simp, simp add: C)
    apply (rule wp_pay_mem, simp, simp add: C, simp)
    subgoal premises p using small_of_nat [OF p(1)] by simp
    subgoal using facts by simp
    subgoal using facts by simp
    subgoal premises p for need rg nm
      apply (rule wp_rd_mem)
      subgoal using range_paid [OF p(2) p(3) grown_ge [of need "m_mem s"]] by simp
      using facts f(2) C p(1,2,4,5) pos_le [OF of_nat_pos [OF _ p(1)], of rg]
      by (auto simp: next_instr_def sha3Gas_def intro!: post_interpret [OF f, where rg = rg] grown_ok)
    done
qed

lemma wp_copy_charge:
  assumes f: "fetched env i s" and C: "C (m_context s)" "m_io_gas s \<le> g" and nf: "\<not> is_free i"
    and k: "m_SP s + int k0 < 1024" "m_SP s + int k2 < 1024"
    and P: "\<And>need rg nm c. unat need < 2 ^ 63 \<Longrightarrow> 0 < rg \<Longrightarrow> rg \<le> m_io_gas s \<Longrightarrow>
      unat (ucast (m_stack s ! nat (m_SP s + int k2)) :: u64) = 0 \<or>
        unat (ucast (m_stack s ! nat (m_SP s + int k0)) :: u64)
          + unat (ucast (m_stack s ! nat (m_SP s + int k2)) :: u64) \<le> length (grown (m_mem s) need) \<Longrightarrow>
      P (s\<lparr>m_copyMemSize := c, m_newMemSize := nm, m_runGas := rg, m_mem := grown (m_mem s) need,
           m_io_gas := m_io_gas s - rg\<rparr>)"
  shows "wp g C (copy_charge k0 k2 s) P"
proof -
  note facts = fetched_facts [OF f]
  show ?thesis
    unfolding copy_charge_def wp_bind Let_def
    apply (subst wp_rd_SP)
       apply (use facts k in simp_all)[3]
    apply (rule wp_toInt63, rule C(2), rule C(1))
    apply (subst wp_rd_SP)
       apply (use facts k in simp_all)[3]
    apply (rule wp_memNeed, simp add: C, simp add: C)
    apply (rule wp_pay_mem, simp add: C, simp add: C, simp)
    subgoal using facts by simp
    subgoal premises p using small_of_nat [OF p(1)] by simp
    subgoal using facts by simp
    subgoal premises p for need rg nm
      using P [of need rg nm "ucast (m_stack s ! nat (m_SP s + int k2))"] p(2,4,5) facts(10) [OF nf]
        range_paid [OF p(2) p(3) grown_ge [of need "m_mem s"]] pos_le [of "m_runGas s" rg] by simp
    done
qed

lemma wp_copy:
  assumes f: "fetched env i s" "m_bounce s = BounceInterpret" and C: "C (m_context s)"
    and i: "shape i = (3, -3)" "\<not> is_free i" "i \<noteq> STOP"
  shows "wp (m_io_gas s) C (bindE (copy_charge 0 2 s) (\<lambda>s. bindE (copyDataToMemory (data s) s) next_instr))
    (post env C s)"
proof -
  note facts = fetched_facts [OF f(1), unfolded i, simplified]
  show ?thesis
    unfolding wp_bind
    apply (rule wp_copy_charge [OF f(1)], rule C, rule order_refl, rule i)
      apply (use facts in simp_all)[2]
    apply (rule wp_copyDataToMemory)
        apply (use facts in simp_all)[3]
    subgoal by simp
    subgoal for need rg nm c m
      using facts i f(2) C grown_ok [of "m_mem s" need]
      by (auto simp: next_instr_def mem_ok_def intro!: post_interpret [OF f, where rg = rg])
    done
qed

lemma wp_case_CALLDATACOPY:
  assumes f: "fetched env CALLDATACOPY s" "m_bounce s = BounceInterpret" and C: "C (m_context s)"
  shows "wp (m_io_gas s) C (case_CALLDATACOPY env s) (post env C s)"
  unfolding case_CALLDATACOPY_def by (rule wp_copy [OF f]) (simp_all add: C is_free_def)

lemma wp_case_CODECOPY:
  assumes f: "fetched env CODECOPY s" "m_bounce s = BounceInterpret" and C: "C (m_context s)"
  shows "wp (m_io_gas s) C (case_CODECOPY env s) (post env C s)"
  unfolding case_CODECOPY_def by (rule wp_copy [OF f]) (simp_all add: C is_free_def)

lemma wp_case_RETURNDATACOPY:
  assumes f: "fetched env RETURNDATACOPY s" "m_bounce s = BounceInterpret" and C: "C (m_context s)"
  shows "wp (m_io_gas s) C (case_RETURNDATACOPY env s) (post env C s)"
proof -
  note facts = fetched_facts [OF f(1), simplified]
  show ?thesis
    unfolding case_RETURNDATACOPY_def
    apply (subst wp_bind, rule wp_check, rule order_refl, rule C, simp)
    apply (subst wp_bind, subst wp_rd_SP)
       apply (use facts in simp_all)[3]
    apply (subst wp_bind, subst wp_rd_SP)
       apply (use facts in simp_all)[3]
    apply (subst wp_bind, rule wp_check, rule order_refl, rule C, simp)
    apply (rule wp_copy [OF f])
    by (simp_all add: C is_free_def)
qed

context evm_host
begin

lemma wp_case_EXTCODECOPY:
  assumes f: "fetched env EXTCODECOPY s" "m_bounce s = BounceInterpret" and C: "C (m_context s)"
  shows "wp (m_io_gas s) C (case_EXTCODECOPY env s) (post env C s)"
proof -
  note facts = fetched_facts [OF f(1), simplified]
  show ?thesis
    unfolding case_EXTCODECOPY_def wp_bind
    apply (rule wp_copy_charge [OF f(1)], rule C, rule order_refl, simp add: is_free_def)
      apply (use facts in simp_all)[2]
    apply (subst wp_rd_SP, (use facts in simp_all)[3])+
    apply (unfold Let_def wp_bind)
    apply (rule wp_ask)
    subgoal using C copy_code_keeps by simp
    apply (unfold prod.case wp_bind)
    apply (rule wp_wr_mem)
    subgoal by (auto simp: min_def split: if_splits)
    subgoal for need rg nm c x h m
      using facts f(2) C grown_ok [of "m_mem s" need]
      by (auto simp: next_instr_def mem_ok_def intro!: post_interpret [OF f, where rg = rg])
    done
qed

end

section \<open>Immediate bytes and halting\<close>

definition push_ok :: "instr \<Rightarrow> bool" where
  "push_ok i = (case i of PUSH n \<Rightarrow> 0 < n \<and> n \<le> 32 | _ \<Rightarrow> True)"

lemma decode_push: "decode b = PUSH n \<Longrightarrow> 0 < n \<and> n \<le> 32"
proof -
  assume d: "decode b = PUSH n"
  have "list_all push_ok opcodes" unfolding opcodes_eq by (simp add: push_ok_def)
  moreover have "decode b \<in> set opcodes"
    using unat_byte_lt [of b] by (auto simp: opcodes_def decode_def)
  ultimately show ?thesis using d by (auto simp: list_all_iff push_ok_def)
qed

lemma wp_push_loop:
  assumes "m_PC s + n \<le> length (m_code s)" "\<And>v'. P (s\<lparr>m_PC := m_PC s + n\<rparr>, v')"
  shows "wp g C (push_loop n s v) P"
  using assms
proof (induction n arbitrary: s v)
  case 0
  then show ?case using 0(2) [of v] by simp
next
  case (Suc n)
  have "wp g C (push_loop n (s\<lparr>m_PC := m_PC s + 1\<rparr>) v') P" for v'
    by (rule Suc.IH) (use Suc.prems in auto)
  then show ?case using Suc.prems(1) by (simp add: rd_code_def)
qed

lemma wp_case_PUSH:
  assumes f: "fetched env (PUSH n) s" "m_bounce s = BounceInterpret" and C: "C (m_context s)"
  shows "wp (m_io_gas s) C (case_PUSH n s) (post env C s)"
proof -
  note facts = fetched_facts [OF f(1), simplified]
  have n: "0 < n" "n \<le> 32" using f(1) decode_push [of "m_OP s" n] by (auto simp: fetched_def)
  have code: "length (m_code s) = length (m_pCode env) + 33"
    using f(1) by (simp add: fetched_def code_ok_def Let_def)
  show ?thesis
    unfolding case_PUSH_def wp_bind
    apply (rule wp_updateIOGas, rule order_refl, rule C)
    apply (cases "n = 1")
    subgoal using facts f(2) C code
      by (auto simp: rd_code_def is_free_def paid_le intro!: stay [OF f])
    subgoal
      apply (simp only: if_False wp_bind)
      apply (rule wp_push_loop)
      subgoal using facts code n by simp
      subgoal using facts f(2) C n
        by (auto simp: is_free_def paid_le intro!: stay [OF f])
      done
    done
qed

lemma halt_post:
  assumes f: "fetched env i s" "m_bounce s = BounceInterpret"
    and s': "length (m_stack s') = 1024" "mem_ok (m_mem s')" "m_SPP s' = m_SPP s"
      "m_bounce s' = BounceNull" "m_io_gas s' \<le> m_io_gas s" "C (m_context s')"
  shows "post env C s s'"
proof -
  have "0 \<le> m_SPP s" "m_SPP s \<le> 1024"
    using f(1) shape_change [of i] by (simp_all add: fetched_def)
  then show ?thesis
    using f s' by (intro post_other) (simp_all add: vm_inv_def)
qed

lemma wp_case_STOP:
  assumes f: "fetched env STOP s" "m_bounce s = BounceInterpret" and C: "C (m_context s)"
  shows "wp (m_io_gas s) C (case_STOP s) (post env C s)"
  unfolding case_STOP_def wp_bind
  by (rule wp_updateIOGas, rule order_refl, rule C)
    (use fetched_facts [OF f(1)] C in \<open>auto simp: paid_le intro!: halt_post [OF f]\<close>)

lemma wp_return_slice:
  assumes f: "fetched env i s" and C: "C (m_context s)" "m_io_gas s \<le> g"
    and i: "shape i = (2, -2)"
    and P: "\<And>out rg nm need. unat need < 2 ^ 63 \<Longrightarrow> rg \<le> m_io_gas s \<Longrightarrow>
      P (out, s\<lparr>m_copyMemSize := 0, m_newMemSize := nm, m_runGas := rg,
              m_mem := grown (m_mem s) need, m_io_gas := m_io_gas s - rg\<rparr>)"
  shows "wp g C (return_slice s) P"
proof -
  note facts = fetched_facts [OF f, unfolded i, simplified]
  show ?thesis
    unfolding return_slice_def wp_bind Let_def
    apply (subst wp_rd_SP, (use facts in simp_all)[3])+
    apply (rule wp_memNeed, simp add: C, simp add: C)
    apply (rule wp_pay_mem, simp add: C, simp add: C, simp)
    subgoal using facts by simp
    subgoal using facts by simp
    subgoal using facts by simp
    subgoal premises p for need rg nm
      apply (rule wp_rd_mem)
      subgoal using range_paid [OF p(1) p(2) grown_ge [of need "m_mem s"]] by simp
      subgoal for bs using P [of need rg bs nm] p by simp
      done
    done
qed

lemma wp_case_RETURN:
  assumes f: "fetched env RETURN s" "m_bounce s = BounceInterpret" and C: "C (m_context s)"
  shows "wp (m_io_gas s) C (case_RETURN s) (post env C s)"
  unfolding case_RETURN_def wp_bind
  by (rule wp_return_slice [OF f(1)], rule C, rule order_refl, simp)
    (use fetched_facts [OF f(1)] C in \<open>auto simp: paid_le intro!: halt_post [OF f] grown_ok\<close>)

lemma wp_case_REVERT:
  assumes f: "fetched env REVERT s" "m_bounce s = BounceInterpret" and C: "C (m_context s)"
  shows "wp (m_io_gas s) C (case_REVERT env s) (post env C s)"
  unfolding case_REVERT_def wp_bind
  by (rule wp_check, rule order_refl, rule C, simp, rule wp_return_slice [OF f(1)], rule C, rule order_refl, simp)
    (use C in \<open>auto simp: paid_le\<close>)

end
