(* ===== verification/EvmSafety.thy ===== *)
theory EvmSafety
  imports EvmMemory
begin

text \<open>
  The cases that ask the host to change something or to call: storage writes, logs, selfdestruct, creation and calls keep the invariant.
\<close>

text \<open>\<open>SSTORE\<close> charges the price of \<open>SLOAD\<close> for a write that changes nothing.\<close>

lemma sload_cost:
  "fst (s_metrics 5 ! 0x54) = 200" "fst (s_metrics 7 ! 0x54) = 800" "fst (s_metrics 8 ! 0x54) = 800"
  by (simp_all add: s_metrics_def Let_def table_defs metrics_tables)

context evm_host
begin

lemma wp_case_SSTORE:
  assumes f: "fetched env SSTORE s" "m_bounce s = BounceInterpret" and C: "C (m_context s)"
  shows "wp (m_io_gas s) C (case_SSTORE env s) (post env C s)"
proof -
  note facts = fetched_facts [OF f(1), simplified]
  have "0 < fst (s_metrics (m_rev env) ! 0x54) \<and> fst (s_metrics (m_rev env) ! 0x54) \<le> 100000"
    if "m_rev env = EVMC_CONSTANTINOPLE \<or> m_rev env \<ge> EVMC_ISTANBUL"
  proof -
    have "m_rev env \<in> {5, 7, 8}" using that revision by (auto simp: revision_defs)
    then show ?thesis by (auto simp: sload_cost)
  qed
  then have pos: "0 < sstore_gas env st" "sstore_gas env st < 2 ^ 63" for st
    by (auto simp: sstore_gas_def sstoreSetGas_def sstoreResetGas_def split: storage_status.split)
  show ?thesis
    unfolding case_SSTORE_def wp_bind
    apply (rule wp_check, rule order_refl, rule C, simp)
    apply (rule wp_check, rule order_refl, rule C, simp)
    apply (subst wp_rd_SP, (use facts in simp_all)[3])+
    apply (cases "set_storage (m_host env) (m_context s) (msg_destination (m_message env))
       (m_stack s ! nat (m_SP s + int 0)) (m_stack s ! nat (m_SP s + int 1))")
    subgoal premises p for st h
    proof -
      have h: "C h" using storage_keeps [OF C p(1)] p(3) by (metis snd_conv)
      show ?thesis
        unfolding p(3) prod.case wp_bind
        by (rule wp_updateIOGas, simp, simp add: h)
          (use facts f(2) h pos [of st] of_nat_pos [OF pos] in \<open>auto simp: next_instr_def intro!: post_interpret [OF f]\<close>)
    qed
    done
qed

lemma wp_rd_topics:
  assumes "length (m_stack s) = 1024" "0 \<le> m_SP s" "m_SP s + int k + int n \<le> 1024" "\<And>ts. P ts"
  shows "wp g C (rd_topics s k n) P"
  using assms(3,4)
proof (induction n arbitrary: k P)
  case (Suc n)
  then show ?case using assms(1,2) by auto
qed simp

lemma wp_case_LOG:
  assumes f: "fetched env (LOG n) s" "m_bounce s = BounceInterpret" and C: "C (m_context s)"
  shows "wp (m_io_gas s) C (case_LOG env n s) (post env C s)"
proof -
  note facts = fetched_facts [OF f(1), simplified]
  show ?thesis
    unfolding case_LOG_def logGasMem_def wp_bind Let_def
    apply (rule wp_check, rule order_refl, rule C, simp)
    apply (subst wp_rd_SP)
       apply (use facts in simp_all)[3]
    apply (rule wp_toInt63, rule order_refl, rule C)
    apply (subst wp_rd_SP)
       apply (use facts in simp_all)[3]
    apply (rule wp_memNeed, simp, simp add: C)
    apply (rule wp_pay_mem, simp, simp add: C, simp)
    subgoal premises p using small_of_nat [OF p(2)] by simp
    subgoal using facts by simp
    subgoal using facts by simp
    subgoal premises p for need rg nm
      apply (subst wp_rd_SP, (use facts in simp_all)[3])+
      apply (rule wp_rd_mem)
      subgoal using range_paid [OF p(3) p(4) grown_ge [of need "m_mem s"]] by simp
      apply (rule wp_rd_topics)
         apply (use facts in simp_all)[3]
      using facts f(2) C p(1,2,3,5,6) pos_le [OF of_nat_pos [OF _ p(2)], of rg] log_keeps
      by (auto simp: next_instr_def logGas_def intro!: post_interpret [OF f, where rg = rg] grown_ok)
    done
qed

lemma wp_selfdestruct_charge:
  assumes C: "C (m_context s)" "m_io_gas s \<le> g"
    and P: "\<And>h r io. C h \<Longrightarrow> io \<le> m_io_gas s \<Longrightarrow> P (s\<lparr>m_context := h, m_runGas := r, m_io_gas := io\<rparr>)"
  shows "wp g C (selfdestruct_charge env d s) P"
proof -
  have same: "P (s\<lparr>m_context := h\<rparr>)" if "C h" for h
    using P [OF that order_refl, of "m_runGas s"] by simp
  have pay: "wp g C (updateIOGas (s\<lparr>m_context := h, m_runGas := r\<rparr>)) P" if "C h" for h r
    by (rule wp_updateIOGas) (use C that P [OF that paid_le] in simp_all)
  have ex: "wp g C (bindE (ask (\<lambda>h. account_exists (m_host env) h d) (s\<lparr>m_context := h\<rparr>))
      (\<lambda>(ex, s). if \<not> ex then updateIOGas (s\<lparr>m_runGas := r\<rparr>) else Inr s)) P" if "C h" for h r
    unfolding wp_bind by (rule wp_ask) (use that exists_keeps same pay in auto)
  show ?thesis
  proof (cases "m_rev env \<ge> EVMC_TANGERINE_WHISTLE")
    case False
    then show ?thesis using same [OF C(1)] by (simp add: selfdestruct_charge_def)
  next
    case True
    show ?thesis
    proof (cases "m_rev env = EVMC_TANGERINE_WHISTLE")
      case rev: True
      then show ?thesis using ex [OF C(1)] True by (simp add: selfdestruct_charge_def del: wp_bind)
    next
      case False
      have "wp g C (ask (\<lambda>h. get_balance (m_host env) h (msg_destination (m_message env))) s)
        (\<lambda>(b, s). wp g C (if b > 0 then bindE (ask (\<lambda>h. account_exists (m_host env) h d) s) (\<lambda>(ex, s).
             if \<not> ex then updateIOGas (s\<lparr>m_runGas := of_nat callNewAccount\<rparr>) else Inr s) else Inr s) P)"
        by (rule wp_ask) (use C balance_keeps ex same in \<open>auto simp del: wp_bind\<close>)
      then show ?thesis
        unfolding selfdestruct_charge_def if_P [OF True] if_not_P [OF False] bindE_assoc
        by (subst wp_bind) (auto simp: case_prod_beta simp del: wp_bind elim!: wp_mono)
    qed
  qed
qed

lemma wp_case_SELFDESTRUCT:
  assumes f: "fetched env SELFDESTRUCT s" "m_bounce s = BounceInterpret" and C: "C (m_context s)"
  shows "wp (m_io_gas s) C (case_SELFDESTRUCT env s) (post env C s)"
proof -
  note facts = fetched_facts [OF f(1), simplified]
  show ?thesis
    unfolding case_SELFDESTRUCT_def wp_bind Let_def
    apply (rule wp_check, rule order_refl, rule C, simp)
    apply (rule wp_updateIOGas, rule order_refl, rule C)
    apply (subst wp_rd_SP)
       apply (use facts in simp_all)[3]
    apply (rule wp_selfdestruct_charge)
    subgoal using C by simp
    subgoal by (simp add: paid_le)
    subgoal premises p for h r io
      using p order_trans [OF p(4)[simplified] paid_le [OF p(2)]] facts
      by (auto simp: selfdestruct_keeps intro!: halt_post [OF f])
    done
qed

lemma bounce_post:
  assumes f: "fetched env i s" "m_bounce s = BounceInterpret" and C: "C (m_context s)"
    and b: "b = BounceCreate \<and> i \<in> {CREATE, CREATE2} \<and> \<not> msg_static (m_message env)
      \<or> b = BounceCall \<and> (\<exists>op. i = Call op)"
  shows "post env C s (s\<lparr>m_bounce := b\<rparr>)"
proof -
  have op: "decode (m_OP s) = i" using f(1) by (simp add: fetched_def)
  have "fetched env i (s\<lparr>m_bounce := b\<rparr>)"
    using f(1) by (simp add: fetched_def code_ok_def)
  moreover have "length (m_stack s) = 1024" "mem_ok (m_mem s)" "0 \<le> m_SPP s" "m_SPP s \<le> 1024"
    using f(1) shape_change [of i] by (simp_all add: fetched_def)
  ultimately have "vm_inv env (s\<lparr>m_bounce := b\<rparr>)"
    using b by (auto simp: vm_inv_def op)
  then show ?thesis
    using f(2) C b by (intro post_other) auto
qed

lemma wp_case_CREATE:
  assumes f: "fetched env i s" "m_bounce s = BounceInterpret" and C: "C (m_context s)"
    and i: "i \<in> {CREATE, CREATE2}"
  shows "wp (m_io_gas s) C (case_CREATE env c2 s) (post env C s)"
  unfolding case_CREATE_def wp_bind
  by (rule wp_check, rule order_refl, rule C, simp, rule wp_check, rule order_refl, rule C, simp)
    (use i in \<open>auto intro!: bounce_post [OF f C]\<close>)

lemma wp_case_CALL:
  assumes f: "fetched env (Call op) s" "m_bounce s = BounceInterpret" and C: "C (m_context s)"
  shows "wp (m_io_gas s) C (case_CALL env op s) (post env C s)"
proof -
  note facts = fetched_facts [OF f(1)]
  have fin: "post env C s (s\<lparr>m_bounce := BounceCall\<rparr>)" by (rule bounce_post [OF f C]) simp
  show ?thesis
    unfolding case_CALL_def wp_bind
    apply (rule wp_check, rule order_refl, rule C, simp, rule wp_check, rule order_refl, rule C, simp)
    apply (cases "op = CALL \<and> msg_static (m_message env)")
    subgoal
      apply (simp only: if_True simp_thms wp_bind)
      apply (subst wp_rd_SP)
         apply (use facts in simp_all)[3]
      apply (rule wp_check, rule order_refl, rule C, simp)
      using fin by simp
    using fin by (simp only: if_False wp_Inr)
qed

lemma wp_create_run:
  assumes f: "fetched env i s0" and C: "C (m_context s)"
    and s: "m_stack s = m_stack s0" "m_SPP s = m_SPP s0" "m_SPP s < 1024" "mem_ok (m_mem s)"
      "m_code s = m_code s0" "m_jumpDests s = m_jumpDests s0" "m_bounce s = BounceInterpret"
      "m_PC s < length (m_pCode env)" "m_io_gas s = m_io_gas s0 - rg" "rg \<le> m_io_gas s0" "0 < rg"
    and mem: "unat (ucast sz :: u64) = 0 \<or>
      unat (ucast off :: u64) + unat (ucast sz :: u64) \<le> length (m_mem s)"
    and ns: "\<not> msg_static (m_message env)"
  shows "wp (m_io_gas s0) C (create_run env c2 endowment off sz salt s) (post env C s0)"
proof -
  have st: "length (m_stack s) = 1024" "0 \<le> m_SPP s" using f s by (simp_all add: fetched_def)
  have gas: "io - (g - left) \<le> io" if "left \<le> g" "g \<le> io" for io g left :: u64
    using that paid_le [OF that(1)] by (meson order_trans paid_le)
  have le: "(if b then io - io div 64 else io) \<le> io" for b and io :: u64
    using paid_le [of "io div 64" io] by (simp add: word_le_nat_alt unat_div)
  have fin: "post env C s0 s'"
    if "length (m_stack s') = 1024" "m_mem s' = m_mem s" "m_SPP s' = m_SPP s" "m_code s' = m_code s"
      "m_jumpDests s' = m_jumpDests s" "m_bounce s' = m_bounce s" "m_PC s' = m_PC s + 1" "C (m_context s')"
      "m_io_gas s' \<le> m_io_gas s" for s'
    by (rule post_resume, rule f) (use s that in auto)
  show ?thesis
    unfolding create_run_def Let_def
    apply (subst wp_bind, rule wp_ask)
    subgoal using C balance_keeps by simp
    apply (unfold prod.case)
    subgoal premises p0 for balance h0
  proof (cases "balance \<ge> endowment \<and> depth_ok env")
    case False
    then show ?thesis
      using st s p0 by (auto simp: next_instr_def intro!: fin)
  next
    case True
    show ?thesis
      unfolding wp_bind
      apply (simp add: True split del: if_split)
      apply (rule wp_rd_mem)
      subgoal using mem by simp
      subgoal premises p for input
      proof -
        define msg where "msg = \<lparr>msg_kind = (if c2 then EVMC_CREATE2 else EVMC_CREATE), msg_static = False,
          msg_depth = msg_depth (m_message env) + 1,
          msg_gas = (if m_rev env \<ge> EVMC_TANGERINE_WHISTLE then m_io_gas s - m_io_gas s div 64 else m_io_gas s),
          msg_destination = 0, msg_sender = msg_destination (m_message env), msg_input = input,
          msg_value = endowment, msg_create2_salt = salt\<rparr>"
        obtain res h where call: "host_call (m_host env) h0 msg = (res, h)" by fastforce
        have d: "depth_ok env" "msg_depth msg = msg_depth (m_message env) + 1" using True by (simp_all add: msg_def)
        have left: "res_gas_left res \<le> msg_gas msg" using call_gas [OF p0 d] call ns by simp
        have h: "C h" using call_keeps [OF p0 d] call ns by simp
        have g: "msg_gas msg \<le> m_io_gas s" using le by (simp add: msg_def)
        show ?thesis
          using call [unfolded msg_def] st s h gas [OF left g]
          by (auto simp: next_instr_def msg_def intro!: fin)
      qed
      done
  qed
    done
qed

text \<open>Paying for memory when the charge itself may be large, and what the turn still has to do.\<close>

lemma create_charge:
  assumes "unat (need :: u64) < 2 ^ 63" "sz \<noteq> 0 \<Longrightarrow> unat need = unat off + unat (sz :: u256)"
  shows "unat (of_nat createGas + of_nat ((unat sz + 31) div 32 * sha3WordGas) :: u64) < 2 ^ 63"
    "0 < (of_nat createGas + of_nat ((unat sz + 31) div 32 * sha3WordGas) :: u64)"
proof -
  have "unat sz < 2 ^ 63" using assms by (cases "sz = 0") auto
  then have "(unat sz + 31) div 32 \<le> 2 ^ 58" by simp
  then have "(unat sz + 31) div 32 * 6 < 2 ^ 61" by simp
  then have "unat (of_nat (createGas + (unat sz + 31) div 32 * sha3WordGas) :: u64)
      = createGas + (unat sz + 31) div 32 * sha3WordGas" "(unat sz + 31) div 32 * sha3WordGas < 2 ^ 61"
    by (simp_all add: unat_of_nat sha3WordGas_def createGas_def del: of_nat_add of_nat_mult)
  then show "unat (of_nat createGas + of_nat ((unat sz + 31) div 32 * sha3WordGas) :: u64) < 2 ^ 63"
    "0 < (of_nat createGas + of_nat ((unat sz + 31) div 32 * sha3WordGas) :: u64)"
    unfolding of_nat_add [symmetric] word_less_nat_alt by (simp_all add: createGas_def del: of_nat_add of_nat_mult)
qed

lemma wp_caseCreate:
  assumes f: "fetched env i s" and C: "C (m_context s)" and i: "i \<in> {CREATE, CREATE2}"
    and ns: "\<not> msg_static (m_message env)"
  shows "wp (m_io_gas s) C (caseCreate env s) (post env C s)"
proof -
  have op: "decode (m_OP s) = i" using f by (simp add: fetched_def)
  have sh: "shape i = (if i = CREATE2 then (4, -3) else (3, -2))" using i by auto
  note facts = fetched_facts [OF f, unfolded sh]
  have SP: "m_SP s + 3 \<le> 1024" "i = CREATE2 \<Longrightarrow> m_SP s + 4 \<le> 1024" "m_SPP s < 1024"
    using facts(3,4) i by (auto split: if_splits)
  have pc: "m_PC s < length (m_pCode env)" using facts(9) i by auto
  define off where "off = m_stack s ! nat (m_SP s + 1)"
  define sz where "sz = m_stack s ! nat (m_SP s + 2)"
  define endow where "endow = m_stack s ! nat (m_SP s)"
  have pay: "wp (m_io_gas s) C (memNeed s1 off sz) (\<lambda>need. wp (m_io_gas s) C (updateMem need s1)
      (\<lambda>s2. wp (m_io_gas s) C (updateIOGas s2) (\<lambda>s3. wp (m_io_gas s) C
         (create_run env c2 endow off sz salt s3) (post env C s))))"
    if s1: "s1 = s\<lparr>m_bounce := BounceInterpret, m_runGas := rg0\<rparr>"
      and rg0: "\<And>need :: u64. unat need < 2 ^ 63 \<Longrightarrow> (sz \<noteq> 0 \<Longrightarrow> unat need = unat off + unat sz) \<Longrightarrow>
        0 < rg0 \<and> unat rg0 < 2 ^ 63" for s1 rg0 c2 salt
    unfolding s1
    apply (rule wp_memNeed, simp, simp add: C)
    apply (rule wp_pay_mem, simp, simp add: C, simp)
    subgoal premises p using rg0 [OF p(1,2)] by simp
    subgoal using facts by simp
    subgoal using facts by simp
    subgoal premises p for need rg nm
      apply (rule wp_create_run, rule f)
      using C facts SP pc p rg0 [OF p(1,2)] grown_ok [of "m_mem s" need] pos_le [of rg0 rg]
        range_paid [OF p(1,2) grown_ge [of need "m_mem s"]] ns
      by auto
    done
  show ?thesis
  proof (cases "i = CREATE2")
    case True
    show ?thesis
      unfolding caseCreate_def Let_def
      using op True facts SP C
      apply (simp add: off_def [symmetric] sz_def [symmetric] endow_def [symmetric] del: of_nat_mult)
      apply (rule wp_toInt63, simp, simp)
      apply (rule pay)
       apply simp
      subgoal for need using create_charge [of need sz off] by simp
      done
  next
    case False
    show ?thesis
      unfolding caseCreate_def Let_def
      using op False facts SP C
      apply (simp add: off_def [symmetric] sz_def [symmetric] endow_def [symmetric])
      apply (rule pay)
       apply simp
      by (simp add: createGas_def)
  qed
qed

lemma wp_call_surcharge:
  assumes rg: "0 < m_runGas s" "unat (m_runGas s) \<le> 100000" and C: "C (m_context s)"
    and P: "\<And>r h. C h \<Longrightarrow> 0 < r \<Longrightarrow> unat r < 2 ^ 32 \<Longrightarrow> (haveValueArg op \<and> v > 0 \<Longrightarrow> 9000 \<le> unat r) \<Longrightarrow>
      P (s\<lparr>m_runGas := r, m_context := h\<rparr>)"
  shows "wp g C (call_surcharge env op d v s) P"
proof -
  have fin: "P (if haveValueArg op \<and> v > 0 then t\<lparr>m_runGas := m_runGas t + of_nat valueTransferGas\<rparr> else t)"
    if t: "t = s\<lparr>m_runGas := r, m_context := h\<rparr>" "C h" "0 < r" "unat r \<le> 200000" for t r h
  proof (cases "haveValueArg op \<and> v > 0")
    case True
    have "t\<lparr>m_runGas := m_runGas t + of_nat valueTransferGas\<rparr> = s\<lparr>m_runGas := r + 9000, m_context := h\<rparr>"
      by (simp add: t valueTransferGas_def)
    moreover have "0 < r + 9000" "unat (r + 9000) = unat r + 9000"
      using t(3,4) by (simp_all add: word_less_nat_alt unat_word_ariths)
    ultimately show ?thesis using True t P [of h "r + 9000"] by simp
  next
    case False
    then show ?thesis using t P [of h r] by auto
  qed
  define r0 where "r0 = (if m_rev env \<ge> EVMC_BERLIN \<and> msg_destination (m_message env) = d
     then of_nat callSelfGas else m_runGas s)"
  have r0: "0 < r0" "unat r0 \<le> 100000" using rg by (auto simp: r0_def callSelfGas_def)
  have r1: "0 < r0 + of_nat callNewAccount" "unat (r0 + of_nat callNewAccount) \<le> 200000"
    using r0 by (simp_all add: callNewAccount_def word_less_nat_alt unat_word_ariths)
  have e0: "(if m_rev env \<ge> EVMC_BERLIN \<and> msg_destination (m_message env) = d
      then s\<lparr>m_runGas := of_nat callSelfGas\<rparr> else s) = s\<lparr>m_runGas := r0\<rparr>"
    by (simp add: r0_def)
  have eq: "call_surcharge env op d v s =
     bindE (if op = CALL \<and> (v > 0 \<or> m_rev env < EVMC_SPURIOUS_DRAGON)
             then bindE (ask (\<lambda>h. account_exists (m_host env) h d) (s\<lparr>m_runGas := r0\<rparr>)) (\<lambda>(ex, s).
               Inr (if \<not> ex then s\<lparr>m_runGas := m_runGas s + of_nat callNewAccount\<rparr> else s))
             else Inr (s\<lparr>m_runGas := r0\<rparr>)) (\<lambda>s.
      Inr (if haveValueArg op \<and> v > 0
           then s\<lparr>m_runGas := m_runGas s + of_nat valueTransferGas\<rparr> else s))"
    unfolding call_surcharge_def Let_def e0 ..
  show ?thesis
  proof (cases "op = CALL \<and> (v > 0 \<or> m_rev env < EVMC_SPURIOUS_DRAGON)")
    case True
    show ?thesis
      unfolding eq if_P [OF True] wp_bind
    proof (rule wp_ask)
      show "C (snd (account_exists (m_host env) (m_context (s\<lparr>m_runGas := r0\<rparr>)) d))"
        using C exists_keeps by simp
      fix ex h assume h: "C h"
      show "wp g C (case (ex, s\<lparr>m_runGas := r0, m_context := h\<rparr>) of (ex, s) \<Rightarrow>
           Inr (if \<not> ex then s\<lparr>m_runGas := m_runGas s + of_nat callNewAccount\<rparr> else s))
         (\<lambda>s. wp g C (Inr (if haveValueArg op \<and> v > 0
           then s\<lparr>m_runGas := m_runGas s + of_nat valueTransferGas\<rparr> else s)) P)"
      proof (cases ex)
        case True
        show ?thesis
          unfolding prod.case wp_Inr using True
          by (simp only: not_True_eq_False if_False)
            (rule fin [OF _ h r0(1)], simp, use r0 in simp)
      next
        case False
        show ?thesis
          unfolding prod.case wp_Inr using False
          by (simp only: not_False_eq_True if_True)
            (rule fin [OF _ h r1], simp)
      qed
    qed
  next
    case False
    show ?thesis
      unfolding eq if_not_P [OF False] bindE.simps wp_Inr
      by (rule fin [where r = r0 and h = "m_context s"]) (use C r0 in simp_all)
  qed
qed

definition same_frame :: "'h vm \<Rightarrow> 'h vm \<Rightarrow> bool" where
  "same_frame s s' \<longleftrightarrow> m_stack s' = m_stack s \<and> m_SP s' = m_SP s \<and> m_SPP s' = m_SPP s
     \<and> m_code s' = m_code s \<and> m_jumpDests s' = m_jumpDests s \<and> m_PC s' = m_PC s
     \<and> m_bounce s' = m_bounce s"

lemma wp_balance:
  assumes "C (m_context s)" "\<And>ok h. C h \<Longrightarrow> P (ok, s\<lparr>m_context := h\<rparr>)"
  shows "wp g C (if b then bindE (ask (\<lambda>h. get_balance (m_host env) h a) s) (\<lambda>(x, s). Inr (v \<le> x, s))
     else Inr (True, s)) P"
proof (cases b)
  case True
  show ?thesis
    unfolding if_P [OF True] wp_bind
    by (rule wp_ask) (use assms balance_keeps in auto)
next
  case False
  then show ?thesis using assms(2) [OF assms(1), of True] by simp
qed

lemma wp_caseCallSetup:
  assumes f: "fetched env (Call op) s0" and same: "m_stack s = m_stack s0" "m_SP s = m_SP s0"
      "m_runGas s = m_runGas s0" "m_mem s = m_mem s0" "m_copyMemSize s = m_copyMemSize s0"
    and C: "C (m_context s)" "m_io_gas s \<le> g"
    and P: "\<And>ok msg outOff outSize s' rg. same_frame s s' \<Longrightarrow> C (m_context s') \<Longrightarrow> mem_ok (m_mem s') \<Longrightarrow>
      0 < rg \<Longrightarrow> rg \<le> m_io_gas s \<Longrightarrow> m_runGas s' \<le> m_io_gas s - rg \<Longrightarrow>
      m_io_gas s' = m_io_gas s - rg - m_runGas s' \<Longrightarrow> unat (m_runGas s') < 2 ^ 63 \<Longrightarrow>
      msg_gas msg = m_runGas s' \<or> 9000 \<le> unat rg \<and> msg_gas msg = m_runGas s' + 2300 \<Longrightarrow>
      outSize = 0 \<or> outOff + outSize \<le> length (m_mem s') \<Longrightarrow>
      (msg_static (m_message env) \<longrightarrow> msg_static msg) \<Longrightarrow>
      msg_depth msg = msg_depth (m_message env) + 1 \<Longrightarrow> (ok \<longrightarrow> depth_ok env) \<Longrightarrow>
      P (ok, msg, outOff, outSize, s')"
  shows "wp g C (caseCallSetup env op s) P"
proof -
  note facts = fetched_facts [OF f, folded same]
  let ?k = "if haveValueArg op then 3 else 2 :: nat"
  have SP: "m_SP s + int ?k + 4 \<le> 1024"
    using facts(3) by (cases op) (auto simp: haveValueArg_def)
  have rd: "length (m_stack s') = 1024 \<Longrightarrow> 0 \<le> m_SP s' \<Longrightarrow> m_SP s' = m_SP s \<Longrightarrow>
      wp g C (rd_SP s' j) Q \<longleftrightarrow> Q (m_stack s' ! nat (m_SP s' + int j))" if "j \<le> ?k + 3" for j s' Q
    using SP that by (subst wp_rd_SP) auto
  define v where "v = (if haveValueArg op then m_stack s ! nat (m_SP s + int 2) else 0)"
  have value_arg: "wp g C (if haveValueArg op then rd_SP s 2 else Inr 0) Q \<longleftrightarrow> Q v" for Q
    using facts(1,2) by (simp add: v_def rd)
  have pos: "0 < m_runGas s" by (rule facts(10)) (simp add: is_free_def)
  show ?thesis
    unfolding caseCallSetup_def wp_bind
    apply (subst rd, simp, (use facts in simp_all)[3])
    apply (subst value_arg)
    apply (unfold Let_def wp_bind)
    apply (rule wp_call_surcharge, rule pos, rule facts(7), rule C)
    subgoal premises sur for r h
    apply (subst rd, simp, (use facts in simp_all)[3])
    apply (subst rd, simp, (use facts in simp_all)[3])
    apply (subst rd, simp, (use facts in simp_all)[3])
    apply (subst rd, simp, (use facts in simp_all)[3])
    apply (rule wp_memNeed)
    subgoal by (simp add: C)
    subgoal by (simp add: sur)
    apply (rule wp_memNeed)
    subgoal by (simp add: C)
    subgoal by (simp add: sur)
    apply (rule wp_pay_mem, simp add: C, simp add: sur)
    subgoal by (simp add: max_def)
    subgoal using sur(3) by simp
    subgoal using facts by simp
    subgoal using facts by simp
    subgoal premises p for need1 need2 rg nm
      apply (subst rd, simp, (use facts in simp_all)[3])
      apply (rule wp_toInt63, simp add: C(2) order_trans [OF paid_le C(2)] p(6)[simplified], simp add: sur)
      apply (rule wp_updateIOGas)
      subgoal using order_trans [OF paid_le C(2)] p(6) by simp
      subgoal by (simp add: sur)
      subgoal premises q
      proof -
        let ?m = "grown (m_mem s) (max need1 need2)"
        have len: "unat need1 \<le> length ?m" "unat need2 \<le> length ?m"
          using grown_ge [of "max need1 need2" "m_mem s"] by (auto simp: max_def word_le_nat_alt split: if_splits)
        note ranges = range_paid [OF p(1,2) len(1)] range_paid [OF p(3,4) len(2)]
        have ok: "mem_ok ?m" using facts p(1,3) by (intro grown_ok) (auto simp: max_def)
        show ?thesis
          apply (rule wp_rd_mem)
          subgoal using ranges(1) by simp
          subgoal premises len for input
            apply (rule wp_balance)
            subgoal by (simp add: sur)
            subgoal premises b for ok h'
              unfolding prod.case wp_Inr
              apply (rule P [where rg = rg])
              subgoal by (simp add: same_frame_def)
              subgoal using b by simp
              subgoal using ok by simp
              subgoal using pos_le [OF sur(2)] p(5) by simp
              subgoal using p(6) by simp
              subgoal using q(2) by simp
              subgoal by simp
              subgoal using small_of_nat [OF q(1)] by simp
              subgoal using sur(4) p(5) by (auto simp: callStipend_def word_le_nat_alt)
              subgoal using ranges(2) by simp
              subgoal by simp
              subgoal by simp
              subgoal by simp
              done
            done
          done
      qed
      done
    done
    done
qed

text \<open>What comes back from a call never exceeds what was paid: the stipend is covered by the charge
  for the transfer of a value.\<close>

lemma gas_returned:
  assumes "rg \<le> io" "gas \<le> io - rg" "left \<le> msg" "0 < rg" "unat gas < 2 ^ 63"
    and "msg = gas \<or> 9000 \<le> unat rg \<and> msg = gas + 2300"
  shows "\<exists>rg'. (io - rg - gas + left :: u64) \<le> io - rg' \<and> rg' \<le> io \<and> 0 < rg'"
proof (cases "msg = gas")
  case True
  have "io - rg - gas + left \<le> io - rg"
    using assms(1-3) True
    by (simp add: word_le_nat_alt unat_word_ariths unat_sub)
  then show ?thesis using assms(1,4) by blast
next
  case False
  then have r: "9000 \<le> unat rg" "msg = gas + 2300" using assms(6) by auto
  have m: "unat msg = unat gas + 2300" using assms(5) r(2) by (simp add: unat_word_ariths)
  have l: "unat left \<le> unat gas + 2300" using assms(3) m by (simp add: word_le_nat_alt)
  have u: "unat (io - rg - gas) = unat io - unat rg - unat gas" "unat rg \<le> unat io"
      "unat gas \<le> unat io - unat rg"
    using assms(1,2) by (simp_all add: unat_sub word_le_nat_alt)
  have s: "unat (io - rg - gas + left) \<le> unat io - (unat rg - 2300)"
    using u l r(1) by (simp add: unat_word_ariths)
  have d: "unat (rg - 2300) = unat rg - 2300" using r(1) by (subst unat_sub) (simp_all add: word_le_nat_alt)
  have le: "rg - 2300 \<le> io" using d u(2) by (simp add: word_le_nat_alt)
  have "io - rg - gas + left \<le> io - (rg - 2300)"
    using s le by (simp add: word_le_nat_alt unat_sub d)
  moreover have "0 < rg - 2300" using d r(1) by (simp add: word_less_nat_alt)
  ultimately show ?thesis using le by blast
qed

lemma wp_caseCall:
  assumes f: "fetched env (Call op) s" and C: "C (m_context s)"
  shows "wp (m_io_gas s) C (caseCall env op s) (post env C s)"
proof -
  note facts = fetched_facts [OF f]
  have SPP: "m_SPP s < 1024" using facts(3,4) by (cases op) auto
  have pc: "m_PC s < length (m_pCode env)" using facts(9) by simp
  let ?s0 = "s\<lparr>m_bounce := BounceInterpret, m_returnData := []\<rparr>"
  show ?thesis
    unfolding caseCall_def wp_bind
    apply (rule wp_caseCallSetup [OF f])
          apply simp_all [5]
      apply (simp add: C)
     apply simp
    subgoal premises p for ok msg outOff outSize s' rg
    proof -
      have same: "m_stack s' = m_stack s" "m_SPP s' = m_SPP s" "m_code s' = m_code s"
        "m_jumpDests s' = m_jumpDests s" "m_PC s' = m_PC s" "m_bounce s' = BounceInterpret"
        using p(1) by (simp_all add: same_frame_def)
      have fin: "post env C s s''"
        if "length (m_stack s'') = 1024" "mem_ok (m_mem s'')" "m_SPP s'' = m_SPP s'"
          "m_code s'' = m_code s'" "m_jumpDests s'' = m_jumpDests s'" "m_bounce s'' = m_bounce s'"
          "m_PC s'' = m_PC s' + 1" "C (m_context s'')" "m_io_gas s'' = m_io_gas s' + left"
          "left \<le> msg_gas msg" for s'' left
      proof -
        from gas_returned [OF p(5,6) that(10) p(4,8,9)] that(9) p(7)
        obtain rg' where "m_io_gas s'' \<le> m_io_gas s - rg'" "rg' \<le> m_io_gas s" "0 < rg'" by auto
        then show ?thesis
          by (intro post_resume [where rg = rg' and i = "Call op"]) (use f that same pc in auto)
      qed
      show ?thesis
      proof (cases ok)
        case False
        then show ?thesis
          using same facts SPP p(2,3) by (auto simp: next_instr_def intro!: fin [where left = "msg_gas msg"])
      next
        case True
        obtain res h where call: "host_call (m_host env) (m_context s') msg = (res, h)" by fastforce
        have d: "depth_ok env" using p(13) True by simp
        have left: "res_gas_left res \<le> msg_gas msg" using call_gas [OF p(2) d p(12,11)] call by simp
        have h: "C h" using call_keeps [OF p(2) d p(12,11)] call by simp
        have out: "take outSize (res_output res) = [] \<or>
            outOff + length (take outSize (res_output res)) \<le> length (m_mem s')"
          using p(10) by auto
        show ?thesis
          using True call apply simp
          apply (rule wp_wr_mem)
          subgoal using out by simp
          subgoal using same facts SPP h left p(3)
            by (auto simp: next_instr_def mem_ok_def intro!: fin [where left = "res_gas_left res"])
          done
      qed
    qed
    done
qed

end
end
