(* ===== verification/EvmRun.thy ===== *)
theory EvmRun
  imports EvmSafety
begin

text \<open>
  The prepared code, the fetch, one turn of the trampoline and the whole frame: every frame ends
  within a number of turns bounded by its gas, without leaving an array, with at most the gas it
  was given, and with the host predicate kept.
\<close>

section \<open>Preparing the code\<close>

lemma optimize_loop_inv:
  assumes "optimize_loop n pc code dests = (code', dests')" "\<forall>p \<in> set dests. p < n"
  shows "length code' = length code \<and> (\<forall>i. n \<le> i \<longrightarrow> code' ! i = code ! i) \<and> (\<forall>p \<in> set dests'. p < n)"
  using assms
proof (induction n pc code dests rule: optimize_loop.induct)
  case (1 n pc code dests)
  show ?case
  proof (cases "pc < n")
    case False
    then show ?thesis using 1(4,5) by (simp add: optimize_loop.simps)
  next
    case True
    note prems = 1(4,5)
    define op where "op = unat (code ! pc)"
    define code1 where "code1 = (if op = 0xac \<or> op = 0xad \<or> op = 0xae then code[pc := 0xaf] else code)"
    have c1: "length code1 = length code" "\<And>i. n \<le> i \<Longrightarrow> code1 ! i = code ! i"
      using True by (auto simp: code1_def)
    have eq: "optimize_loop n pc code dests =
        (if op = 0x5b then optimize_loop n (Suc pc) code1 (dests @ [pc])
         else if 0x60 \<le> op \<and> op \<le> 0x7f then optimize_loop n (Suc (pc + (op - 0x60 + 1))) code1 dests
         else optimize_loop n (Suc pc) code1 dests)"
      by (subst optimize_loop.simps) (simp only: True if_True Let_def op_def code1_def)
    note IH = 1(1-3) [OF True op_def code1_def]
    consider "op = 0x5b" | "op \<noteq> 0x5b" "0x60 \<le> op \<and> op \<le> 0x7f" | "op \<noteq> 0x5b" "\<not> (0x60 \<le> op \<and> op \<le> 0x7f)"
      by blast
    then show ?thesis
    proof cases
      case 1
      from IH(1) [OF this] show ?thesis using 1 eq c1 \<open>pc < n\<close> prems by auto
    next
      case 2
      from IH(2) [OF this] show ?thesis using 2 eq c1 prems by auto
    next
      case 3
      from IH(3) [OF this] show ?thesis using 3 eq c1 prems by auto
    qed
  qed
qed

lemma vm_optimize_code_ok: "code_ok env (vm_optimize env s)"
proof -
  obtain code dests where o: "optimize_loop (length (m_pCode env)) 0 (copyCode (m_pCode env) 33) [] = (code, dests)"
    by fastforce
  have "length code = length (m_pCode env) + 33" "\<forall>p \<in> set dests. p < length (m_pCode env)"
    "\<And>i. length (m_pCode env) \<le> i \<Longrightarrow> code ! i = copyCode (m_pCode env) 33 ! i"
    using optimize_loop_inv [OF o] by (simp_all add: copyCode_def)
  then show ?thesis
    using o by (auto simp add: vm_optimize_def code_ok_def Let_def copyCode_def nth_append)
qed

section \<open>Fetching\<close>

lemma decode_0 [simp]: "decode 0 = STOP"
  by (simp add: decode_def decode_nat_def opcode_table_def)

lemma wp_fetch:
  assumes inv: "vm_inv env s" "m_bounce s = BounceInterpret" and C: "C (m_context s)" and rev: "m_rev env \<le> 8"
    and P: "\<And>s'. never_runs (m_rev env) (decode (m_OP s')) \<or> fetched env (decode (m_OP s')) s' \<Longrightarrow>
      m_bounce s' = BounceInterpret \<Longrightarrow> m_io_gas s' = m_io_gas s \<Longrightarrow> m_context s' = m_context s \<Longrightarrow> P s'"
  shows "wp (m_io_gas s) C (fetchInstruction env s) P"
proof -
  have s: "length (m_stack s) = 1024" "mem_ok (m_mem s)" "0 \<le> m_SPP s" "m_SPP s \<le> 1024" "code_ok env s"
    "m_PC s \<le> length (m_pCode env) + 32"
    using inv by (simp_all add: vm_inv_def)
  have len: "length (m_code s) = length (m_pCode env) + 33" using s(5) by (simp add: code_ok_def Let_def)
  define op where "op = m_code s ! m_PC s"
  have pc: "m_PC s < length (m_pCode env)" if "decode op \<noteq> STOP"
  proof (rule ccontr)
    assume "\<not> m_PC s < length (m_pCode env)"
    then have "op = 0" using s(5,6) by (simp add: op_def code_ok_def Let_def)
    then show False using that by simp
  qed
  obtain gas req ch where m: "s_metrics (m_rev env) ! unat op = (gas, req, ch)" by (metis surj_pair)
  have ok: "gas \<le> 100000" "never_runs (m_rev env) (decode op) \<or>
      (req, ch) = shape (decode op) \<and> (0 < gas \<or> is_free (decode op))"
    using decode_metrics [OF rev, of op] by (simp_all add: entry_ok_def m)
  have gas: "unat (of_nat gas :: u64) = gas" using ok(1) by (simp add: unat_of_nat)
  have fin: "P (s\<lparr>m_OP := op, m_SP := m_SPP s, m_SPP := m_SPP s - ch, m_runGas := of_nat gas,
      m_newMemSize := of_nat (length (m_mem s)), m_copyMemSize := 0\<rparr>)"
    if "m_SPP s + req \<le> 1024" "0 \<le> m_SPP s - ch"
  proof (rule P)
    let ?s = "s\<lparr>m_OP := op, m_SP := m_SPP s, m_SPP := m_SPP s - ch, m_runGas := of_nat gas,
      m_newMemSize := of_nat (length (m_mem s)), m_copyMemSize := 0\<rparr>"
    have "fetched env (decode op) ?s" if "(req, ch) = shape (decode op)" "0 < gas \<or> is_free (decode op)"
    proof -
      have "fst (shape (decode op)) = req" "snd (shape (decode op)) = ch" using that(1) by (metis fst_conv snd_conv)+
      moreover have "code_ok env ?s" using s(5) code_ok_cong [of ?s s] by simp
      ultimately show ?thesis
        using s \<open>m_SPP s + req \<le> 1024\<close> \<open>0 \<le> m_SPP s - ch\<close> pc ok(1) gas that(2)
        by (auto simp: fetched_def word_less_nat_alt)
    qed
    then show "never_runs (m_rev env) (decode (m_OP ?s)) \<or> fetched env (decode (m_OP ?s)) ?s"
      using ok(2) by auto
  qed (use inv in simp_all)
  show ?thesis
    using s len C fin
    by (auto simp: fetchInstruction_def rd_code_def op_def [symmetric] m adjustStack_def throwBadStack_def
        stackLimit_def Let_def split del: if_split) (auto simp: adjustStack_def throwBadStack_def stackLimit_def Let_def)
qed

section \<open>One turn\<close>

lemma wp_never_runs:
  assumes "never_runs (m_rev env) i" "m_io_gas s \<le> g" "C (m_context s)"
  shows "wp g C (interp_op env i s) P"
  using assms
  by (auto simp: never_runs_def case_CALL_def case_env_def case_RETURNDATACOPY_def case_REVERT_def
      case_shift_def case_EXTCODEHASH_def case_CREATE_def check_def)

context evm_host
begin

lemma wp_interp_op:
  assumes f: "fetched env i s" "m_bounce s = BounceInterpret" and C: "C (m_context s)"
    and run: "\<not> never_runs (m_rev env) i"
  shows "wp (m_io_gas s) C (interp_op env i s) (post env C s)"
proof (cases i)
  case (Bin op) with f C show ?thesis by (simp add: wp_case_bin)
next
  case (Una op) with f C show ?thesis by (simp add: wp_case_un)
next
  case (Tri op) with f C show ?thesis by (simp add: wp_case_tri)
next
  case (Shift op) with f C show ?thesis by (simp add: wp_case_shift)
next
  case (Env op) with f C show ?thesis by (simp add: wp_case_env)
next
  case (PUSH n) with f C show ?thesis by (simp add: wp_case_PUSH)
next
  case (DUP n) with f C show ?thesis by (simp add: wp_case_DUP)
next
  case (SWAP n) with f C show ?thesis by (simp add: wp_case_SWAP)
next
  case (LOG n) with f C show ?thesis by (simp add: wp_case_LOG)
next
  case (Call op) with f C show ?thesis by (simp add: wp_case_CALL)
next
  case CREATE with f C show ?thesis by (simp add: wp_case_CREATE)
next
  case CREATE2 with f C show ?thesis by (simp add: wp_case_CREATE)
next
  case BALANCE with f C show ?thesis by (simp add: wp_case_BALANCE)
next
  case EXTCODESIZE with f C show ?thesis by (simp add: wp_case_EXTCODESIZE)
next
  case EXTCODEHASH with f C show ?thesis by (simp add: wp_case_EXTCODEHASH)
next
  case CALLDATALOAD with f C show ?thesis by (simp add: wp_case_CALLDATALOAD)
next
  case SLOAD with f C show ?thesis by (simp add: wp_case_SLOAD)
qed (use f C run in \<open>simp_all add: never_runs_def wp_case_STOP wp_case_EXP wp_case_SIGNEXTEND wp_case_SHA3
      wp_case_BLOCKHASH wp_case_CALLDATACOPY wp_case_CODECOPY wp_case_EXTCODECOPY wp_case_RETURNDATACOPY
      wp_case_POP wp_case_MLOAD wp_case_MSTORE wp_case_MSTORE8 wp_case_SSTORE wp_case_JUMP wp_case_JUMPI
      wp_case_JUMPDEST wp_case_RETURN wp_case_REVERT wp_case_SELFDESTRUCT\<close>)

lemma post_cong:
  "m_io_gas s = m_io_gas t \<Longrightarrow> m_bounce s = m_bounce t \<Longrightarrow> post env C s = post env C t"
  by (rule ext) (simp add: post_def weight_def)

lemma wp_vm_step:
  assumes inv: "vm_inv env s" "m_bounce s \<noteq> BounceNull" and C: "C (m_context s)"
  shows "wp (m_io_gas s) C (vm_step env s) (post env C s)"
proof (cases "m_bounce s")
  case BounceInit
  have "vm_inv env (initEntry env s)"
    using inv(1) BounceInit vm_optimize_code_ok [of env "s\<lparr>m_bounce := BounceInterpret\<rparr>"]
    by (auto simp: vm_inv_def initEntry_def vm_optimize_def code_ok_def Let_def split: prod.splits)
  then show ?thesis
    using BounceInit C
    by (auto simp: vm_step_def post_def weight_def initEntry_def vm_optimize_def split: prod.splits)
next
  case BounceInterpret
  have "wp (m_io_gas s) C (interp_step env s) (post env C s)"
    unfolding interp_step_def wp_bind
  proof (rule wp_fetch, rule inv, rule BounceInterpret, rule C, rule revision)
    fix s' assume s': "never_runs (m_rev env) (decode (m_OP s')) \<or> fetched env (decode (m_OP s')) s'"
      "m_bounce s' = BounceInterpret" "m_io_gas s' = m_io_gas s" "m_context s' = m_context s"
    show "wp (m_io_gas s) C (interp_op env (decode (m_OP s')) s') (post env C s)"
    proof (cases "never_runs (m_rev env) (decode (m_OP s'))")
      case True
      then show ?thesis by (rule wp_never_runs) (use s' C in simp_all)
    next
      case False
      then have "wp (m_io_gas s') C (interp_op env (decode (m_OP s')) s') (post env C s')"
        by (intro wp_interp_op) (use s' C in auto)
      then show ?thesis using post_cong [of s' s] s' BounceInterpret by simp
    qed
  qed
  then show ?thesis using BounceInterpret by (simp add: vm_step_def)
next
  case BounceCreate
  then have "fetched env (decode (m_OP s)) s" "decode (m_OP s) \<in> {CREATE, CREATE2}"
    "\<not> msg_static (m_message env)"
    using inv by (simp_all add: vm_inv_def)
  from wp_caseCreate [OF this(1) C this(2,3)] show ?thesis using BounceCreate by (simp add: vm_step_def)
next
  case BounceCall
  then show ?thesis using inv C by (auto simp: vm_step_def vm_inv_def intro!: wp_caseCall)
qed (use inv in simp)

section \<open>The whole frame\<close>

lemma vm_exec_returns:
  assumes "vm_inv env s" "C (m_context s)" "m_io_gas s \<le> g" "weight s < fuel"
  shows "\<exists>r. vm_exec fuel env s = Some r \<and>
     wp g C r (\<lambda>s'. vm_inv env s' \<and> m_io_gas s' \<le> g \<and> C (m_context s') \<and> m_bounce s' = BounceNull)"
  using assms
proof (induction fuel arbitrary: s)
  case (Suc n)
  show ?case
  proof (cases "m_bounce s = BounceNull")
    case True
    then show ?thesis using Suc.prems by (simp add: vm_exec.simps)
  next
    case False
    have step: "wp (m_io_gas s) C (vm_step env s) (post env C s)"
      by (rule wp_vm_step [OF Suc.prems(1) False Suc.prems(2)])
    show ?thesis
    proof (cases "vm_step env s")
      case (Inl e)
      then show ?thesis using step False Suc.prems(3)
        by (cases e) (auto simp: vm_exec.simps wp_def)
    next
      case (Inr s')
      then have p: "post env C s s'" using step by simp
      have "\<exists>r. vm_exec n env s' = Some r \<and>
          wp g C r (\<lambda>s'. vm_inv env s' \<and> m_io_gas s' \<le> g \<and> C (m_context s') \<and> m_bounce s' = BounceNull)"
        by (rule Suc.IH) (use p Suc.prems in \<open>auto simp: post_def\<close>)
      then show ?thesis using Inr False by (simp add: vm_exec.simps)
    qed
  qed
qed simp

lemma vm_new_inv: "vm_inv env (vm_new env h)"
  by (simp add: vm_inv_def vm_new_def stackLimit_def mem_ok_def)

lemma weight_new: "weight (vm_new env h) < 3 * unat (msg_gas (m_message env)) + 3"
  by (simp add: weight_def vm_new_def)

lemma frame_returns:
  assumes "C h" "3 * unat (msg_gas (m_message env)) + 3 \<le> fuel"
  shows "\<exists>r. vm_exec fuel env (vm_new env h) = Some r \<and>
     wp (msg_gas (m_message env)) C r (\<lambda>s'. m_io_gas s' \<le> msg_gas (m_message env) \<and> C (m_context s'))"
proof -
  have "weight (vm_new env h) < fuel" using weight_new [of h] assms(2) by linarith
  then obtain r where r: "vm_exec fuel env (vm_new env h) = Some r"
    "wp (msg_gas (m_message env)) C r (\<lambda>s'. vm_inv env s' \<and> m_io_gas s' \<le> msg_gas (m_message env)
       \<and> C (m_context s') \<and> m_bounce s' = BounceNull)"
    using vm_exec_returns [OF vm_new_inv, of h "msg_gas (m_message env)" fuel] assms(1)
    by (auto simp: vm_new_def)
  then show ?thesis using wp_mono by fastforce
qed

lemma execute_returns:
  assumes "C h" "3 * unat (msg_gas (m_message env)) + 3 \<le> fuel"
  shows "\<exists>res h'. execute fuel env h = Some (res, h') \<and> res_gas_left res \<le> msg_gas (m_message env) \<and>
     res_status res \<noteq> EVMC_INTERNAL_ERROR \<and> C h' \<and>
     (res_status res \<notin> {EVMC_SUCCESS, EVMC_REVERT} \<longrightarrow> res_gas_left res = 0 \<and> res_output res = [])"
proof -
  obtain r where r: "vm_exec fuel env (vm_new env h) = Some r"
    "wp (msg_gas (m_message env)) C r (\<lambda>s'. m_io_gas s' \<le> msg_gas (m_message env) \<and> C (m_context s'))"
    using frame_returns [OF assms] by blast
  show ?thesis
  proof (cases r)
    case (Inr s)
    then show ?thesis using r by (simp add: execute_def)
  next
    case (Inl x)
    obtain e s where x: "x = (e, s)" by fastforce
    show ?thesis
      using r unfolding Inl x
      by (cases e) (simp_all add: execute_def wp_def status_of_def)
  qed
qed

end

end
