(* ===== verification/EvmArith.thy ===== *)
theory EvmArith
  imports EvmRun
begin

text \<open>
  What the cases compute: the signed comparisons, shifts and sign extension against the signed value
  of a word, \<open>BYTE\<close> against the bytes of its value, and the table of jump destinations against
  the instruction boundaries of the code.
\<close>

section \<open>Signed words\<close>

unbundle bit_operations_syntax

lemma u256_bit: "bit (a :: u256) n \<Longrightarrow> n < 256"
  using bit_imp_le_length [of a n] by simp

lemma sign_bit: "drop_bit 255 (a :: u256) \<noteq> 0 \<longleftrightarrow> bit a 255"
proof
  assume "drop_bit 255 a \<noteq> 0"
  then obtain n where "bit (drop_bit 255 a) n" by (auto simp: bit_eq_iff)
  then have b: "bit a (255 + n)" by (simp add: bit_drop_bit_eq)
  then have "n = 0" using u256_bit [OF b] by simp
  with b show "bit a 255" by simp
next
  assume "bit a 255"
  then have "bit (drop_bit 255 a) 0" by (simp add: bit_drop_bit_eq)
  then show "drop_bit 255 a \<noteq> 0" by (metis bit_0_eq bot_apply bot_bool_def)
qed

lemma bit_255: "bit (a :: u256) 255 \<longleftrightarrow> sint a < 0"
  using bit_last_iff [of a] by simp

lemma uint_signed: "uint (a :: u256) = (if bit a 255 then sint a + 2 ^ 256 else sint a)"
proof -
  have "uint a = uint (word_of_int (sint a) :: u256)" by simp
  also have "\<dots> = sint a mod 2 ^ 256" by (simp only: uint_word_of_int) simp
  finally have u: "uint a = sint a mod 2 ^ 256" .
  show ?thesis
  proof (cases "sint a < 0")
    case True
    then have "(sint a + 2 ^ 256) mod 2 ^ 256 = sint a + 2 ^ 256"
      using sint_greater_eq [of a] by (intro mod_pos_pos_trivial) auto
    then show ?thesis using True u bit_255 [of a] by simp
  next
    case False
    then have "sint a mod 2 ^ 256 = sint a" using sint_less [of a] by (intro mod_pos_pos_trivial) auto
    then show ?thesis using False u bit_255 [of a] by simp
  qed
qed

lemma signed_less: "sint a < sint b \<longleftrightarrow> (if bit a 255 \<noteq> bit b 255 then bit a 255 else (a :: u256) < b)"
  using bit_255 [of a] bit_255 [of b] by (auto simp: word_less_def uint_signed)

lemma slt_signed: "bin_result ix SLT a b = of_bool256 (sint a < sint b)"
  by (simp only: bin_result.simps Let_def sign_bit signed_less)

lemma sgt_signed: "bin_result ix SGT a b = of_bool256 (sint a > sint b)"
  by (simp only: bin_result.simps Let_def sign_bit signed_less) (auto simp: of_bool256_def)

lemma hibit: "b AND push_bit 255 1 \<noteq> 0 \<longleftrightarrow> bit (b :: u256) 255"
  by (simp only: push_bit_eq_mult mult_1 and_exp_eq_0_iff_not_bit not_not)

lemma ucast_32: "a < (256 :: u256) \<Longrightarrow> unat (ucast a :: 32 word) = unat a"
  by (simp add: unsigned_ucast_eq take_bit_nat_eq_self word_less_nat_alt)

lemma ucast_32': "\<not> (256 :: u256) \<le> a \<Longrightarrow> unat (ucast a :: 32 word) = unat a"
  by (simp add: ucast_32 linorder_not_le)

lemma sar_signed_drop: "shift_result SAR a b = signed_drop_bit (unat a) b"
proof (cases "a \<ge> 256")
  case True
  then have "256 \<le> unat a" by (simp add: word_le_nat_alt)
  then show ?thesis
    using True by (simp only: shift_result.simps Let_def if_True hibit) (simp add: signed_drop_bit_beyond)
next
  case False
  then have n: "unat (ucast a :: 32 word) = unat a" "unat a < 256"
    using ucast_32' by (blast, simp add: word_le_nat_alt)
  have "(if bit b 255 then drop_bit (unat a) b OR push_bit (256 - unat a) (NOT 0) else drop_bit (unat a) b)
      = signed_drop_bit (unat a) b"
    using n(2) by (intro bit_word_eqI) (auto simp: bit_simps dest: u256_bit)
  then show ?thesis
    using False by (simp only: shift_result.simps Let_def if_False hibit n)
qed

lemma sar_signed: "sint (shift_result SAR a b) = sint b div 2 ^ unat a"
  by (simp only: sar_signed_drop sint_signed_drop_bit_eq drop_bit_eq_div)

lemma signextend_signed:
  "signextend k v = (if k < 31 then signed_take_bit (8 * unat k + 7) v else v)"
proof (cases "k < 31")
  case True
  then have k: "unat (ucast k :: 32 word) = unat k" "unat k < 31"
    by (simp_all add: unsigned_ucast_eq take_bit_nat_eq_self word_less_nat_alt)
  let ?t = "unat k * 8 + 7"
  have m: "push_bit ?t 1 - 1 = (mask ?t :: u256)" by (simp only: mask_eq_exp_minus_1 push_bit_eq_mult mult_1)
  have "(if bit v ?t then v OR NOT (mask ?t) else v AND mask ?t) = signed_take_bit (8 * unat k + 7) v"
    using k(2) by (intro bit_word_eqI) (auto simp: bit_simps min_def mult.commute)
  then show ?thesis
    using True by (simp only: signextend_def Let_def if_True k m) (simp only: push_bit_eq_mult mult_1 and_exp_eq_0_iff_not_bit not_not)
qed (simp add: signextend_def)

text \<open>\<open>BYTE\<close> reads the bytes of the word from the most significant one.\<close>

lemma byte_value: "a < 32 \<Longrightarrow> unat (bin_result ix BYTE a b) = unat b div 256 ^ (31 - unat a) mod 256"
proof -
  assume a: "a < 32"
  then have n: "unat a < 32" by (simp add: word_less_nat_alt)
  have s: "unat (ucast (8 * (31 - a)) :: 32 word) = 8 * (31 - unat a)"
  proof -
    define x where "x = 31 - a"
    have x: "unat x = 31 - unat a" unfolding x_def using n by (subst unat_sub) (simp_all add: word_le_nat_alt)
    then have "unat (8 * x) = 8 * (31 - unat a)" by (simp add: unat_word_ariths)
    then show ?thesis by (simp add: x_def [symmetric] unsigned_ucast_eq take_bit_nat_eq_self)
  qed
  have "bin_result ix BYTE a b = take_bit 8 (drop_bit (8 * (31 - unat a)) b)"
    using a s by (simp add: take_bit_eq_mask mask_eq_exp_minus_1)
  moreover have "unat (take_bit 8 (drop_bit k b)) = take_bit 8 (drop_bit k (unat b))" for k
    by (rule bit_eqI) (auto simp: bit_simps dest: u256_bit)
  then have "unat (take_bit 8 (drop_bit k b)) = unat b div 2 ^ k mod 2 ^ 8" for k
    by (simp only: take_bit_eq_mod drop_bit_eq_div)
  ultimately have "unat (bin_result ix BYTE a b) = unat b div 2 ^ (8 * (31 - unat a)) mod 2 ^ 8" by (simp only:)
  then show ?thesis by (simp add: power_mult)
qed

section \<open>Jump destinations\<close>

text \<open>The positions where an instruction starts: from \<open>a\<close>, each instruction is followed by its
  immediate bytes.\<close>

definition next_insn :: "bytes \<Rightarrow> nat \<Rightarrow> nat" where
  "next_insn code p = (let op = unat (code ! p) in
     if 0x60 \<le> op \<and> op \<le> 0x7f then Suc (p + (op - 0x60 + 1)) else Suc p)"

inductive boundary :: "bytes \<Rightarrow> nat \<Rightarrow> nat \<Rightarrow> bool" for code where
  here: "boundary code a a"
| step: "boundary code a p \<Longrightarrow> p < length code \<Longrightarrow> boundary code a (next_insn code p)"

lemma boundary_Cons: "boundary code (next_insn code a) p \<Longrightarrow> a < length code \<Longrightarrow> boundary code a p"
  by (induction "next_insn code a" p rule: boundary.induct) (auto intro: boundary.intros)

lemma boundary_unfold:
  "boundary code a p \<longleftrightarrow> p = a \<or> a < length code \<and> boundary code (next_insn code a) p"
proof
  show "boundary code a p \<Longrightarrow> p = a \<or> a < length code \<and> boundary code (next_insn code a) p"
    by (induction a p rule: boundary.induct) (auto intro: boundary.intros)
qed (auto intro: boundary.intros boundary_Cons)

lemma boundary_past: "length code \<le> a \<Longrightarrow> boundary code a p \<longleftrightarrow> p = a"
  by (subst boundary_unfold) auto

lemma optimize_loop_dests:
  assumes "optimize_loop n pc code dests = (code', dests')" "n = length c"
    and "\<forall>i. pc \<le> i \<and> i < n \<longrightarrow> code ! i = c ! i"
  shows "set dests' = set dests \<union> {p. boundary c pc p \<and> p < n \<and> c ! p = 0x5b}"
  using assms
proof (induction n pc code dests rule: optimize_loop.induct)
  case (1 n pc code dests)
  note prems = 1(4-6)
  show ?case
  proof (cases "pc < n")
    case False
    then show ?thesis using prems by (auto simp: optimize_loop.simps boundary_past)
  next
    case True
    define op where "op = unat (code ! pc)"
    define code1 where "code1 = (if op = 0xac \<or> op = 0xad \<or> op = 0xae then code[pc := 0xaf] else code)"
    have op: "op = unat (c ! pc)" using prems(3) True by (simp add: op_def)
    have c1: "\<forall>i. q \<le> i \<and> i < n \<longrightarrow> code1 ! i = c ! i" if "pc < q" for q
      using prems(3) that by (auto simp: code1_def)
    have split: "{p. boundary c pc p \<and> p < n \<and> c ! p = 0x5b} =
        (if op = 0x5b then {pc} else {}) \<union> {p. boundary c (next_insn c pc) p \<and> p < n \<and> c ! p = 0x5b}"
      using True prems(2) by (subst boundary_unfold) (auto simp: op word_unat_eq_iff)
    have eq: "optimize_loop n pc code dests =
        (if op = 0x5b then optimize_loop n (Suc pc) code1 (dests @ [pc])
         else if 0x60 \<le> op \<and> op \<le> 0x7f then optimize_loop n (Suc (pc + (op - 0x60 + 1))) code1 dests
         else optimize_loop n (Suc pc) code1 dests)"
      by (subst optimize_loop.simps) (simp only: True if_True Let_def op_def code1_def)
    note IH = 1(1-3) [OF True op_def code1_def]
    consider "op = 0x5b" | "op \<noteq> 0x5b" "0x60 \<le> op \<and> op \<le> 0x7f" | "op \<noteq> 0x5b" "\<not> (0x60 \<le> op \<and> op \<le> 0x7f)"
      by blast
    then show ?thesis
    proof cases
      case 1
      from IH(1) [OF 1 _ prems(2) c1] show ?thesis using 1 eq prems(1) op unfolding split by (auto simp: next_insn_def)
    next
      case 2
      from IH(2) [OF 2 _ prems(2) c1] show ?thesis using 2 eq prems(1) op unfolding split by (auto simp: next_insn_def)
    next
      case 3
      from IH(3) [OF 3 _ prems(2) c1] show ?thesis using 3 eq prems(1) op unfolding split by (auto simp: next_insn_def)
    qed
  qed
qed

lemma verifyJumpDest_iff:
  "verifyJumpDest d (vm_optimize env s) = Inr p \<longleftrightarrow>
     unat d = p \<and> p < 2 ^ 63 \<and> p < length (m_pCode env) \<and> boundary (m_pCode env) 0 p \<and> m_pCode env ! p = 0x5b"
proof -
  obtain code dests where o: "optimize_loop (length (m_pCode env)) 0 (copyCode (m_pCode env) 33) [] = (code, dests)"
    by fastforce
  have "set dests = {p. boundary (m_pCode env) 0 p \<and> p < length (m_pCode env) \<and> m_pCode env ! p = 0x5b}"
    using optimize_loop_dests [OF o refl] by (simp add: copyCode_def nth_append)
  moreover have "d \<le> 0x7FFFFFFFFFFFFFFF \<longleftrightarrow> unat d < 2 ^ 63" by (simp add: word_le_nat_alt) linarith
  ultimately show ?thesis
    using o by (simp add: verifyJumpDest_def vm_optimize_def throwE_def) blast
qed

end
