(* ===== verification/EvmProperties.thy ===== *)
theory EvmProperties
  imports EvmArith
begin

text \<open>
  The properties of the interpreter (libaleth-interpreter/, evmc/lib/instructions/), each with a
  concrete instance where it has hypotheses.
\<close>

text \<open>Answering a question keeps \<open>C\<close>: the part of the host's contract that holds in every frame.\<close>

definition reads_keep :: "'h host \<Rightarrow> ('h \<Rightarrow> bool) \<Rightarrow> bool" where
  "reads_keep H C \<longleftrightarrow> (\<forall>h a k off n num. C h \<longrightarrow> C (snd (account_exists H h a)) \<and> C (snd (get_storage H h a k)) \<and>
     C (snd (get_balance H h a)) \<and> C (snd (get_code_size H h a)) \<and> C (snd (get_code_hash H h a)) \<and>
     C (snd (copy_code H h a off n)) \<and> C (snd (get_block_hash H h num)))"

text \<open>A host for the instances: balances of 10, empty storage, calls that fail and keep their gas.\<close>

definition sample_host :: "nat host" where
  "sample_host = \<lparr>account_exists = (\<lambda>h a. (True, h)), get_storage = (\<lambda>h a k. (0, h)),
     set_storage = (\<lambda>h a k v. (STORAGE_MODIFIED, Suc h)), get_balance = (\<lambda>h a. (10, h)),
     get_code_size = (\<lambda>h a. (0, h)), get_code_hash = (\<lambda>h a. (0, h)), copy_code = (\<lambda>h a i n. ([], h)),
     host_selfdestruct = (\<lambda>h a b. Suc h),
     host_call = (\<lambda>h m. (\<lparr>res_status = EVMC_FAILURE, res_gas_left = msg_gas m, res_output = [],
                          res_create_address = 0\<rparr>, if msg_static m then h else Suc h)),
     get_tx_context = (\<lambda>h. \<lparr>tx_gas_price = 1, tx_origin = 1, block_coinbase = 2, block_number = 9,
       block_timestamp = 99, block_gas_limit = 1000000, block_difficulty = 3, tx_chain_id = 1\<rparr>),
     get_block_hash = (\<lambda>h n. (0, h)), emit_log = (\<lambda>h a d ts. Suc h)\<rparr>"

definition sample_env :: "bool \<Rightarrow> bytes \<Rightarrow> nat env" where
  "sample_env static code = \<lparr>m_host = sample_host,
     m_intx = \<lparr>ix_sdivrem = (\<lambda>a b. (a div b, a mod b)), ix_addmod = (\<lambda>a b m. (a + b) mod m),
       ix_mulmod = (\<lambda>a b m. (a * b) mod m), ix_exp = (\<lambda>a b. a ^ unat b),
       ix_significant_bytes = (\<lambda>a. 32), ix_keccak256 = (\<lambda>d. of_nat (length d))\<rparr>,
     m_rev = 7,
     m_message = \<lparr>msg_kind = EVMC_CALL, msg_static = static, msg_depth = 0, msg_gas = 1000,
       msg_destination = 5, msg_sender = 4, msg_input = [], msg_value = 0, msg_create2_salt = 0\<rparr>,
     m_pCode = code\<rparr>"

lemma sample_host_simps:
  "m_rev (sample_env st c) = 7" "m_host (sample_env st c) = sample_host" "msg_gas (m_message (sample_env st c)) = 1000"
  "msg_static (m_message (sample_env st c)) = st" "m_pCode (sample_env st c) = c"
  "res_gas_left (fst (host_call sample_host h m)) = msg_gas m"
  "msg_static m \<Longrightarrow> snd (host_call sample_host h m) = h" "reads_keep sample_host C"
  by (simp_all add: sample_env_def sample_host_def reads_keep_def)

text \<open>C11: Every frame ends: with any code and input, at any revision up to Berlin, on a host whose
  calls return at most the gas they were given, \<open>execute\<close> returns within three turns per unit of
  gas and three more. It never leaves the stack, the memory or the code (the only way to the
  internal error in the model), returns at most the gas of the message, and a frame that neither
  succeeds nor reverts returns no gas and no output.\<close>

theorem evm_frame_returns:
  assumes "m_rev env \<le> 8"
    and "\<forall>h m. res_gas_left (fst (host_call (m_host env) h m)) \<le> msg_gas m"
    and "3 * unat (msg_gas (m_message env)) + 3 \<le> fuel"
  shows "\<exists>res h'. execute fuel env h = Some (res, h') \<and> res_gas_left res \<le> msg_gas (m_message env) \<and>
     res_status res \<noteq> EVMC_INTERNAL_ERROR \<and>
     (res_status res \<notin> {EVMC_SUCCESS, EVMC_REVERT} \<longrightarrow> res_gas_left res = 0 \<and> res_output res = [])"
proof -
  have "evm_host env (\<lambda>_. True)" by unfold_locales (use assms(1,2) in auto)
  from evm_host.execute_returns [OF this _ assms(3)] show ?thesis by blast
qed

theorem evm_frame_returns_witness:
  "\<exists>res h'. execute 3003 (sample_env False [0x60, 0, 0x35, 0x5b, 0x58, 0x56]) 0 = Some (res, h')"
  using evm_frame_returns [of "sample_env False [0x60, 0, 0x35, 0x5b, 0x58, 0x56]" 3003 0]
  by (simp add: sample_host_simps) blast

text \<open>C27: A static frame does not change the host: whatever its questions and its static calls keep of
  the host state is kept by a frame with the static flag, whatever its code does and however it
  ends. The creations, storage writes, logs and selfdestructs of the code never reach the host.\<close>

theorem evm_static_frame:
  assumes "m_rev env \<le> 8" "msg_static (m_message env)" "reads_keep (m_host env) C"
    and "\<forall>h m. res_gas_left (fst (host_call (m_host env) h m)) \<le> msg_gas m"
    and "\<forall>h m. C h \<longrightarrow> msg_static m \<longrightarrow> C (snd (host_call (m_host env) h m))"
    and "3 * unat (msg_gas (m_message env)) + 3 \<le> fuel" "C h"
  shows "\<exists>res h'. execute fuel env h = Some (res, h') \<and> C h'"
proof -
  have "evm_host env C" by unfold_locales (use assms(1-5) in \<open>auto simp: reads_keep_def\<close>)
  from evm_host.execute_returns [OF this assms(7,6)] show ?thesis by blast
qed

theorem evm_static_frame_witness:
  "\<exists>res. execute 3003 (sample_env True [0x60, 1, 0x60, 1, 0x55]) 41 = Some (res, 41)"
  using evm_static_frame [of "sample_env True [0x60, 1, 0x60, 1, 0x55]" "\<lambda>h. h = 41" 3003 41]
  by (simp add: sample_host_simps)

text \<open>C28: A jump is taken exactly to a \<open>JUMPDEST\<close> byte of the code at which an instruction starts, so
  never into the immediate bytes of a \<open>PUSH\<close> nor past the end of the code.\<close>

theorem jump_destinations_exact:
  "verifyJumpDest d (vm_optimize env s) = Inr p \<longleftrightarrow>
     unat d = p \<and> p < 2 ^ 63 \<and> p < length (m_pCode env) \<and> boundary (m_pCode env) 0 p \<and> m_pCode env ! p = 0x5b"
  by (rule verifyJumpDest_iff)

text \<open>The signed instructions work on the two's complement value: \<open>SLT\<close> and \<open>SGT\<close> compare it, \<open>SAR\<close>
  divides it by a power of two rounding down, at any shift count, and \<open>SIGNEXTEND\<close> extends it from
  byte \<open>k\<close>.\<close>

theorem signed_instructions:
  "bin_result ix SLT a b = of_bool256 (sint a < sint b) \<and>
   bin_result ix SGT a b = of_bool256 (sint b < sint a) \<and>
   sint (shift_result SAR a b) = sint b div 2 ^ unat a \<and>
   signextend k v = (if k < 31 then signed_take_bit (8 * unat k + 7) v else v)"
  by (simp only: slt_signed sgt_signed sar_signed signextend_signed)

end
