(* ===== verification/Account.thy ===== *)
theory Account
  imports BlockHeader
begin

text \<open>
  An account in the state's cache, class \<open>Account\<close> of libethereum/Account.h and Account.cpp. The
  hash function is the argument \<open>sha3\<close>; \<open>EmptySHA3\<close> and \<open>EmptyTrie\<close> are its values on the empty
  string and on the encoding of the empty trie.
\<close>

definition EmptySHA3 :: "(bytes \<Rightarrow> u256) \<Rightarrow> u256" where "EmptySHA3 sha3 = sha3 []"

record account =
  a_isAlive :: bool
  a_isUnchanged :: bool
  a_hasNewCode :: bool
  a_nonce :: u256
  a_balance :: u256
  a_storageRoot :: u256
  a_codeHash :: u256
  a_version :: u256
  a_storageOverlay :: "u256 \<rightharpoonup> u256"
  a_codeCache :: bytes

datatype Changedness = Changed | Unchanged

text \<open>The constructors: a dead account, a live one, and one read from the state trie.\<close>

definition account_dead :: "(bytes \<Rightarrow> u256) \<Rightarrow> account" where
  "account_dead sha3 = \<lparr>a_isAlive = False, a_isUnchanged = False, a_hasNewCode = False, a_nonce = 0,
     a_balance = 0, a_storageRoot = EmptyTrie sha3, a_codeHash = EmptySHA3 sha3, a_version = 0,
     a_storageOverlay = Map.empty, a_codeCache = []\<rparr>"

definition account_make :: "(bytes \<Rightarrow> u256) \<Rightarrow> u256 \<Rightarrow> u256 \<Rightarrow> Changedness \<Rightarrow> account" where
  "account_make sha3 nonce balance c = (account_dead sha3)\<lparr>a_isAlive := True,
     a_isUnchanged := (c = Unchanged), a_nonce := nonce, a_balance := balance\<rparr>"

definition account_full ::
    "(bytes \<Rightarrow> u256) \<Rightarrow> u256 \<Rightarrow> u256 \<Rightarrow> u256 \<Rightarrow> u256 \<Rightarrow> Changedness \<Rightarrow> account" where
  "account_full sha3 nonce balance root codeHash c = (account_dead sha3)\<lparr>a_isAlive := True,
     a_isUnchanged := (c = Unchanged), a_nonce := nonce, a_balance := balance,
     a_storageRoot := root, a_codeHash := codeHash\<rparr>"

definition acc_changed :: "account \<Rightarrow> account" where "acc_changed a = a\<lparr>a_isUnchanged := False\<rparr>"

definition acc_kill :: "(bytes \<Rightarrow> u256) \<Rightarrow> account \<Rightarrow> account" where
  "acc_kill sha3 a = acc_changed (a\<lparr>a_isAlive := False, a_storageOverlay := Map.empty,
     a_codeHash := EmptySHA3 sha3, a_storageRoot := EmptyTrie sha3, a_balance := 0, a_nonce := 0\<rparr>)"

definition acc_isDirty :: "account \<Rightarrow> bool" where "acc_isDirty a \<longleftrightarrow> \<not> a_isUnchanged a"

definition acc_untouch :: "account \<Rightarrow> account" where "acc_untouch a = a\<lparr>a_isUnchanged := True\<rparr>"

definition acc_isEmpty :: "(bytes \<Rightarrow> u256) \<Rightarrow> account \<Rightarrow> bool" where
  "acc_isEmpty sha3 a \<longleftrightarrow> a_nonce a = 0 \<and> a_balance a = 0 \<and> a_codeHash a = EmptySHA3 sha3"

definition acc_addBalance :: "u256 \<Rightarrow> account \<Rightarrow> account" where
  "acc_addBalance v a = acc_changed (a\<lparr>a_balance := a_balance a + v\<rparr>)"

definition acc_incNonce :: "account \<Rightarrow> account" where
  "acc_incNonce a = acc_changed (a\<lparr>a_nonce := a_nonce a + 1\<rparr>)"

definition acc_setNonce :: "u256 \<Rightarrow> account \<Rightarrow> account" where
  "acc_setNonce n a = acc_changed (a\<lparr>a_nonce := n\<rparr>)"

definition acc_setStorage :: "u256 \<Rightarrow> u256 \<Rightarrow> account \<Rightarrow> account" where
  "acc_setStorage p v a = acc_changed (a\<lparr>a_storageOverlay := (a_storageOverlay a)(p \<mapsto> v)\<rparr>)"

definition acc_clearStorage :: "(bytes \<Rightarrow> u256) \<Rightarrow> account \<Rightarrow> account" where
  "acc_clearStorage sha3 a =
     acc_changed (a\<lparr>a_storageOverlay := Map.empty, a_storageRoot := EmptyTrie sha3\<rparr>)"

definition acc_setStorageRoot :: "u256 \<Rightarrow> account \<Rightarrow> account" where
  "acc_setStorageRoot r a = acc_changed (a\<lparr>a_storageOverlay := Map.empty, a_storageRoot := r\<rparr>)"

definition acc_setStorageCache :: "u256 \<Rightarrow> u256 \<Rightarrow> account \<Rightarrow> account" where
  "acc_setStorageCache p v a = a\<lparr>a_storageOverlay := (a_storageOverlay a)(p \<mapsto> v)\<rparr>"

definition acc_setCode :: "(bytes \<Rightarrow> u256) \<Rightarrow> bytes \<Rightarrow> u256 \<Rightarrow> account \<Rightarrow> account" where
  "acc_setCode sha3 code version a =
     (let newHash = sha3 code;
          a = (if newHash \<noteq> a_codeHash a
               then a\<lparr>a_codeCache := code, a_hasNewCode := True, a_codeHash := newHash\<rparr> else a)
      in a\<lparr>a_version := version\<rparr>)"

definition acc_resetCode :: "(bytes \<Rightarrow> u256) \<Rightarrow> account \<Rightarrow> account" where
  "acc_resetCode sha3 a = a\<lparr>a_codeCache := [], a_hasNewCode := False, a_codeHash := EmptySHA3 sha3\<rparr>"

definition acc_noteCode :: "bytes \<Rightarrow> account \<Rightarrow> account" where
  "acc_noteCode code a = a\<lparr>a_codeCache := code\<rparr>"

lemmas acc_defs = acc_changed_def acc_kill_def acc_isDirty_def acc_untouch_def acc_isEmpty_def
  acc_addBalance_def acc_incNonce_def acc_setNonce_def acc_setStorage_def acc_clearStorage_def
  acc_setStorageRoot_def acc_setStorageCache_def acc_resetCode_def acc_noteCode_def

end
