(* ===== verification/State.thy ===== *)
theory State
  imports Account
begin

text \<open>
  The world state, class \<open>State\<close> of libethereum/State.h and State.cpp: a cache of accounts over the
  state trie, the change log with savepoints and rollback, and the cache of code sizes
  (libethereum/CodeSizeCache.h). An operation that throws keeps the state at that point.

  Arguments of the model, in \<open>state_db\<close>: the Keccak hash, the state trie (the encoded account at an
  address, empty if there is none), the storage tries (the encoded value of a key under a root) and
  the code database. The random numbers that choose what the full caches evict are the stream
  \<open>m_random\<close>. Committing to the trie is not modelled.
\<close>

section \<open>Data\<close>

record state_db =
  db_sha3 :: "bytes \<Rightarrow> u256"
  db_at :: "u160 \<Rightarrow> bytes"
  db_storage :: "u256 \<Rightarrow> u256 \<Rightarrow> bytes"
  db_lookup :: "u256 \<Rightarrow> bytes"

text \<open>An entry of the change log; the constructors are the kinds of \<open>Change\<close>.\<close>

datatype change = ChBalance u160 u256 | ChStorage u160 u256 u256 | ChStorageRoot u160 u256
  | ChNonce u160 u256 | ChCreate u160 | ChCode u160 bytes | ChTouch u160

record state =
  m_db :: state_db
  m_cache :: "u160 \<rightharpoonup> account"
  m_unchangedCacheEntries :: "u160 list"
  m_nonExistingAccountsCache :: "u160 set"
  m_accountStartNonce :: u256
  m_changeLog :: "change list"
  m_codeSizes :: "(u256 \<times> nat) list"
  m_random :: "nat \<Rightarrow> nat"

datatype state_exn = NotEnoughCash | InvalidAccountStartNonceInState
  | IncorrectAccountStartNonceInState | StateRlp rlp_exn

type_synonym 'a st = "(state_exn \<times> state) + ('a \<times> state)"

text \<open>The constructor: nothing cached, nothing logged.\<close>

definition state_new :: "state_db \<Rightarrow> u256 \<Rightarrow> (nat \<Rightarrow> nat) \<Rightarrow> state" where
  "state_new db startNonce rand =
     \<lparr>m_db = db, m_cache = Map.empty, m_unchangedCacheEntries = [], m_nonExistingAccountsCache = {},
      m_accountStartNonce = startNonce, m_changeLog = [], m_codeSizes = [], m_random = rand\<rparr>"

definition st_sha3 :: "state \<Rightarrow> bytes \<Rightarrow> u256" where "st_sha3 s = db_sha3 (m_db s)"

definition st_lift :: "rlp_exn + 'a \<Rightarrow> state \<Rightarrow> 'a st" where
  "st_lift r s = (case r of Inl e \<Rightarrow> Inl (StateRlp e, s) | Inr x \<Rightarrow> Inr (x, s))"

definition st_log :: "change \<Rightarrow> state \<Rightarrow> state" where
  "st_log c s = s\<lparr>m_changeLog := m_changeLog s @ [c]\<rparr>"

text \<open>\<open>m_cache[addr]\<close>, which inserts a dead account where there is none.\<close>

definition cache_ref :: "u160 \<Rightarrow> state \<Rightarrow> account" where
  "cache_ref a s = (case m_cache s a of Some acc \<Rightarrow> acc | None \<Rightarrow> account_dead (st_sha3 s))"

definition cache_put :: "u160 \<Rightarrow> account \<Rightarrow> state \<Rightarrow> state" where
  "cache_put a acc s = s\<lparr>m_cache := (m_cache s)(a \<mapsto> acc)\<rparr>"

definition draw :: "state \<Rightarrow> nat \<times> state" where
  "draw s = (m_random s 0, s\<lparr>m_random := \<lambda>n. m_random s (Suc n)\<rparr>)"

section \<open>The cache of code sizes\<close>

definition c_maxSize :: nat where "c_maxSize = 50000"

fun csc_insert :: "u256 \<Rightarrow> nat \<Rightarrow> (u256 \<times> nat) list \<Rightarrow> (u256 \<times> nat) list" where
  "csc_insert h n [] = [(h, n)]"
| "csc_insert h n ((h', n') # xs) =
     (if h < h' then (h, n) # (h', n') # xs else if h = h' then (h, n) # xs
      else (h', n') # csc_insert h n xs)"

text \<open>The element at or after a random key, or the first one, is removed.\<close>

definition removeRandomElement :: "u256 \<Rightarrow> (u256 \<times> nat) list \<Rightarrow> (u256 \<times> nat) list" where
  "removeRandomElement r xs =
     (case filter (\<lambda>(h, n). h \<ge> r) xs of
        [] \<Rightarrow> tl xs
      | p # _ \<Rightarrow> remove1 p xs)"

definition csc_store :: "u256 \<Rightarrow> nat \<Rightarrow> state \<Rightarrow> state" where
  "csc_store h n s =
     (let s = (if length (m_codeSizes s) \<ge> c_maxSize
               then case draw s of (r, s) \<Rightarrow> s\<lparr>m_codeSizes := removeRandomElement (of_nat r) (m_codeSizes s)\<rparr>
               else s)
      in s\<lparr>m_codeSizes := csc_insert h n (m_codeSizes s)\<rparr>)"

section \<open>Looking up an account\<close>

function clearCacheIfTooLarge :: "state \<Rightarrow> state" where
  "clearCacheIfTooLarge s =
     (if length (m_unchangedCacheEntries s) > 1000
      then (case draw s of (r, s') \<Rightarrow>
        let us = m_unchangedCacheEntries s; i = r mod length us; addr = us ! i;
            us' = butlast (us[i := last us]);
            cache = (case m_cache s addr of
                       Some acc \<Rightarrow> if \<not> acc_isDirty acc then (m_cache s)(addr := None) else m_cache s
                     | None \<Rightarrow> m_cache s)
        in clearCacheIfTooLarge (s'\<lparr>m_unchangedCacheEntries := us', m_cache := cache\<rparr>))
      else s)"
  by pat_completeness auto
termination
  by (relation "measure (\<lambda>s. length (m_unchangedCacheEntries s))") (auto simp: Let_def)

declare clearCacheIfTooLarge.simps [simp del]

text \<open>The account that the state trie holds, from its encoding.\<close>

definition account_decode :: "(bytes \<Rightarrow> u256) \<Rightarrow> bytes \<Rightarrow> rlp_exn + account" where
  "account_decode sha3 stateBack =
     bindE (rlp_make stateBack VeryStrict) (\<lambda>d.
     bindE (rlp_index (rlp_view d) 0) (\<lambda>(i0, r). bindE (toInt (Some 256) i0 Strict) (\<lambda>nonce.
     bindE (rlp_index r 1) (\<lambda>(i1, r). bindE (toInt (Some 256) i1 Strict) (\<lambda>balance.
     bindE (rlp_index r 2) (\<lambda>(i2, r). bindE (readHash i2 Strict) (\<lambda>root.
     bindE (rlp_index r 3) (\<lambda>(i3, r). bindE (readHash i3 Strict) (\<lambda>codeHash.
       Inr (account_full sha3 (of_nat nonce) (of_nat balance) root codeHash Unchanged))))))))))"

definition st_account :: "u160 \<Rightarrow> state \<Rightarrow> account option st" where
  "st_account addr s =
     (case m_cache s addr of
        Some acc \<Rightarrow> Inr (Some acc, s)
      | None \<Rightarrow>
          if addr \<in> m_nonExistingAccountsCache s then Inr (None, s)
          else let stateBack = db_at (m_db s) addr in
            if stateBack = []
            then Inr (None, s\<lparr>m_nonExistingAccountsCache := insert addr (m_nonExistingAccountsCache s)\<rparr>)
            else bindE (st_lift (account_decode (st_sha3 s) stateBack) (clearCacheIfTooLarge s)) (\<lambda>(acc, s).
              Inr (Some acc, (cache_put addr acc s)
                \<lparr>m_unchangedCacheEntries := m_unchangedCacheEntries s @ [addr]\<rparr>)))"

section \<open>Queries\<close>

definition requireAccountStartNonce :: "state \<Rightarrow> u256 st" where
  "requireAccountStartNonce s =
     (if m_accountStartNonce s = - 1 then Inl (InvalidAccountStartNonceInState, s)
      else Inr (m_accountStartNonce s, s))"

definition noteAccountStartNonce :: "u256 \<Rightarrow> state \<Rightarrow> unit st" where
  "noteAccountStartNonce actual s =
     (if m_accountStartNonce s = - 1 then Inr ((), s\<lparr>m_accountStartNonce := actual\<rparr>)
      else if m_accountStartNonce s \<noteq> actual then Inl (IncorrectAccountStartNonceInState, s)
      else Inr ((), s))"

text \<open>\<open>removeEmptyAccounts\<close>, for the commit after EIP 158.\<close>

definition removeEmptyAccounts :: "state \<Rightarrow> state" where
  "removeEmptyAccounts s = s\<lparr>m_cache := (\<lambda>a. case m_cache s a of
     Some acc \<Rightarrow> Some (if acc_isDirty acc \<and> acc_isEmpty (st_sha3 s) acc then acc_kill (st_sha3 s) acc else acc)
   | None \<Rightarrow> None)\<rparr>"

definition st_query :: "u160 \<Rightarrow> (account \<Rightarrow> 'a) \<Rightarrow> 'a \<Rightarrow> state \<Rightarrow> 'a st" where
  "st_query a f d s = bindE (st_account a s) (\<lambda>(acc, s).
     Inr (case acc of Some x \<Rightarrow> f x | None \<Rightarrow> d, s))"

definition addressInUse :: "u160 \<Rightarrow> state \<Rightarrow> bool st" where
  "addressInUse a = st_query a (\<lambda>_. True) False"

definition accountNonemptyAndExisting :: "u160 \<Rightarrow> state \<Rightarrow> bool st" where
  "accountNonemptyAndExisting a s = st_query a (\<lambda>x. \<not> acc_isEmpty (st_sha3 s) x) False s"

definition addressHasCode :: "u160 \<Rightarrow> state \<Rightarrow> bool st" where
  "addressHasCode a s = st_query a (\<lambda>x. a_codeHash x \<noteq> EmptySHA3 (st_sha3 s)) False s"

definition st_balance :: "u160 \<Rightarrow> state \<Rightarrow> u256 st" where
  "st_balance a = st_query a a_balance 0"

definition getNonce :: "u160 \<Rightarrow> state \<Rightarrow> u256 st" where
  "getNonce a s = st_query a a_nonce (m_accountStartNonce s) s"

definition st_version :: "u160 \<Rightarrow> state \<Rightarrow> u256 st" where
  "st_version a = st_query a a_version 0"

definition st_codeHash :: "u160 \<Rightarrow> state \<Rightarrow> u256 st" where
  "st_codeHash a s = st_query a a_codeHash (EmptySHA3 (st_sha3 s)) s"

definition st_code :: "u160 \<Rightarrow> state \<Rightarrow> bytes st" where
  "st_code a s = bindE (st_account a s) (\<lambda>(acc, s).
     case acc of
       None \<Rightarrow> Inr ([], s)
     | Some x \<Rightarrow>
         if a_codeHash x = EmptySHA3 (st_sha3 s) then Inr ([], s)
         else if a_codeCache x = []
         then let code = db_lookup (m_db s) (a_codeHash x)
              in Inr (code, csc_store (a_codeHash x) (length code) (cache_put a (acc_noteCode code x) s))
         else Inr (a_codeCache x, s))"

definition st_codeSize :: "u160 \<Rightarrow> state \<Rightarrow> nat st" where
  "st_codeSize a s = bindE (st_account a s) (\<lambda>(acc, s).
     case acc of
       None \<Rightarrow> Inr (0, s)
     | Some x \<Rightarrow>
         if a_hasNewCode x then Inr (length (a_codeCache x), s)
         else case map_of (m_codeSizes s) (a_codeHash x) of
           Some n \<Rightarrow> Inr (n, s)
         | None \<Rightarrow> bindE (st_code a s) (\<lambda>(code, s).
             Inr (length code, csc_store (a_codeHash x) (length code) s)))"

text \<open>The value of a storage key: the overlay, else the storage trie, whose value is kept.\<close>

definition storage_decode :: "bytes \<Rightarrow> rlp_exn + u256" where
  "storage_decode value =
     (if value = [] then Inr 0
      else bindE (rlp_make value VeryStrict) (\<lambda>d.
           bindE (toInt (Some 256) d Strict) (\<lambda>n. Inr (of_nat n))))"

definition st_storage :: "u160 \<Rightarrow> u256 \<Rightarrow> state \<Rightarrow> u256 st" where
  "st_storage a key s = bindE (st_account a s) (\<lambda>(acc, s).
     case acc of
       None \<Rightarrow> Inr (0, s)
     | Some x \<Rightarrow>
         (case a_storageOverlay x key of
            Some v \<Rightarrow> Inr (v, s)
          | None \<Rightarrow>
              bindE (st_lift (storage_decode (db_storage (m_db s) (a_storageRoot x) key)) s) (\<lambda>(ret, s).
                Inr (ret, cache_put a (acc_setStorageCache key ret x) s))))"

section \<open>Changes\<close>

definition createAccount :: "u160 \<Rightarrow> account \<Rightarrow> state \<Rightarrow> state" where
  "createAccount a acc s = st_log (ChCreate a) ((cache_put a acc s)
     \<lparr>m_nonExistingAccountsCache := m_nonExistingAccountsCache s - {a}\<rparr>)"

definition incNonce :: "u160 \<Rightarrow> state \<Rightarrow> unit st" where
  "incNonce a s = bindE (st_account a s) (\<lambda>(acc, s).
     case acc of
       Some x \<Rightarrow> Inr ((), st_log (ChNonce a (a_nonce x)) (cache_put a (acc_incNonce x) s))
     | None \<Rightarrow> bindE (requireAccountStartNonce s) (\<lambda>(n, s).
         Inr ((), createAccount a (account_make (st_sha3 s) (n + 1) 0 Changed) s)))"

definition st_setNonce :: "u160 \<Rightarrow> u256 \<Rightarrow> state \<Rightarrow> unit st" where
  "st_setNonce a n s = bindE (st_account a s) (\<lambda>(acc, s).
     case acc of
       Some x \<Rightarrow> Inr ((), st_log (ChNonce a (a_nonce x)) (cache_put a (acc_setNonce n x) s))
     | None \<Rightarrow> Inr ((), createAccount a (account_make (st_sha3 s) n 0 Changed) s))"

definition addBalance :: "u160 \<Rightarrow> u256 \<Rightarrow> state \<Rightarrow> unit st" where
  "addBalance a amount s =
     bindE (bindE (st_account a s) (\<lambda>(acc, s).
       case acc of
         Some x \<Rightarrow>
           let s = (if \<not> acc_isDirty x \<and> acc_isEmpty (st_sha3 s) x then st_log (ChTouch a) s else s)
           in Inr ((), cache_put a (acc_addBalance amount x) s)
       | None \<Rightarrow> bindE (requireAccountStartNonce s) (\<lambda>(n, s).
           Inr ((), createAccount a (account_make (st_sha3 s) n amount Changed) s))))
     (\<lambda>(_, s). Inr ((), if amount \<noteq> 0 then st_log (ChBalance a amount) s else s))"

definition subBalance :: "u160 \<Rightarrow> u256 \<Rightarrow> state \<Rightarrow> unit st" where
  "subBalance a v s =
     (if v = 0 then Inr ((), s)
      else bindE (st_account a s) (\<lambda>(acc, s).
        case acc of
          None \<Rightarrow> Inl (NotEnoughCash, s)
        | Some x \<Rightarrow> if a_balance x < v then Inl (NotEnoughCash, s) else addBalance a (0 - v) s))"

definition setBalance :: "u160 \<Rightarrow> u256 \<Rightarrow> state \<Rightarrow> unit st" where
  "setBalance a v s = bindE (st_account a s) (\<lambda>(acc, s).
     addBalance a (v - (case acc of Some x \<Rightarrow> a_balance x | None \<Rightarrow> 0)) s)"

definition transferBalance :: "u160 \<Rightarrow> u160 \<Rightarrow> u256 \<Rightarrow> state \<Rightarrow> unit st" where
  "transferBalance src dst v s = bindE (subBalance src v s) (\<lambda>(_, s). addBalance dst v s)"

definition createContract :: "u160 \<Rightarrow> state \<Rightarrow> unit st" where
  "createContract a s = bindE (requireAccountStartNonce s) (\<lambda>(n, s).
     Inr ((), createAccount a (account_make (st_sha3 s) n 0 Changed) s))"

definition st_kill :: "u160 \<Rightarrow> state \<Rightarrow> unit st" where
  "st_kill a s = bindE (st_account a s) (\<lambda>(acc, s).
     Inr ((), case acc of Some x \<Rightarrow> cache_put a (acc_kill (st_sha3 s) x) s | None \<Rightarrow> s))"

definition setStorage :: "u160 \<Rightarrow> u256 \<Rightarrow> u256 \<Rightarrow> state \<Rightarrow> unit st" where
  "setStorage a key v s = bindE (st_storage a key s) (\<lambda>(old, s).
     let s = st_log (ChStorage a key old) s
     in Inr ((), cache_put a (acc_setStorage key v (cache_ref a s)) s))"

definition clearStorage :: "u160 \<Rightarrow> state \<Rightarrow> state" where
  "clearStorage a s =
     (let s = cache_put a (cache_ref a s) s; oldHash = a_storageRoot (cache_ref a s) in
      if oldHash = EmptyTrie (st_sha3 s) then s
      else let s = st_log (ChStorageRoot a oldHash) s
        in cache_put a (acc_clearStorage (st_sha3 s) (cache_ref a s)) s)"

definition st_setCode :: "u160 \<Rightarrow> bytes \<Rightarrow> u256 \<Rightarrow> state \<Rightarrow> unit st" where
  "st_setCode a code version s = bindE (st_code a s) (\<lambda>(old, s).
     let s = st_log (ChCode a old) s
     in Inr ((), cache_put a (acc_setCode (st_sha3 s) code version (cache_ref a s)) s))"

section \<open>Savepoints\<close>

definition savepoint :: "state \<Rightarrow> nat" where "savepoint s = length (m_changeLog s)"

text \<open>Undoing one change; \<open>m_cache[change.address]\<close> inserts a dead account where there is none.\<close>

fun undo_account :: "(bytes \<Rightarrow> u256) \<Rightarrow> change \<Rightarrow> account \<Rightarrow> account" where
  "undo_account sha3 (ChStorage a key v) acc = acc_setStorage key v acc"
| "undo_account sha3 (ChStorageRoot a v) acc = acc_setStorageRoot v acc"
| "undo_account sha3 (ChBalance a v) acc = acc_addBalance (0 - v) acc"
| "undo_account sha3 (ChNonce a v) acc = acc_setNonce v acc"
| "undo_account sha3 (ChCode a c) acc = acc_resetCode sha3 acc"
| "undo_account sha3 (ChTouch a) acc = acc_untouch acc"
| "undo_account sha3 (ChCreate a) acc = acc"

fun ch_address :: "change \<Rightarrow> u160" where
  "ch_address (ChStorage a k v) = a"
| "ch_address (ChStorageRoot a v) = a"
| "ch_address (ChBalance a v) = a"
| "ch_address (ChNonce a v) = a"
| "ch_address (ChCode a c) = a"
| "ch_address (ChTouch a) = a"
| "ch_address (ChCreate a) = a"

definition undo_change :: "change \<Rightarrow> state \<Rightarrow> state" where
  "undo_change c s =
     (case c of
        ChCreate a \<Rightarrow> s\<lparr>m_cache := (m_cache s)(a := None)\<rparr>
      | _ \<Rightarrow> let a = ch_address c; s = cache_put a (undo_account (st_sha3 s) c (cache_ref a s)) s in
             if c = ChTouch a
             then s\<lparr>m_unchangedCacheEntries := m_unchangedCacheEntries s @ [a]\<rparr> else s)"

fun rollback_log :: "change list \<Rightarrow> state \<Rightarrow> state" where
  "rollback_log [] s = s"
| "rollback_log (c # cs) s = rollback_log cs (undo_change c s)"

text \<open>\<open>rollback\<close>: the changes after the savepoint are undone, the last one first.\<close>

definition rollback :: "nat \<Rightarrow> state \<Rightarrow> state" where
  "rollback n s = (rollback_log (rev (drop n (m_changeLog s))) s)\<lparr>m_changeLog := take n (m_changeLog s)\<rparr>"

end
