(* ===== verification/ExtVM.thy ===== *)
theory ExtVM
  imports EvmRun State StakeSeal
begin

text \<open>
  The world as the interpreter sees it: \<open>ExtVM\<close> (libethereum/ExtVM.h, ExtVM.cpp) on top of the state,
  the EVMC host \<open>EvmCHost\<close> (libevm/ExtVMFace.cpp) and the wrapper \<open>EVMC::exec\<close> (libevm/EVMC.cpp) that
  runs a frame and turns its status into an exception. Calls and creations are an argument here; the
  executive supplies them.

  The callbacks are \<open>noexcept\<close>: an exception of the state that leaves one ends the process. The host
  state therefore carries \<open>h_process\<close>; once the process has ended the callbacks do nothing. The
  assertions on gas are modelled as the default build compiles them: a violated one ends the process.
  Block number and timestamp are the 64 bit integers of the header.
\<close>

section \<open>Environment\<close>

record env_info =
  ei_header :: block_header
  ei_precedingHashes :: "u256 \<Rightarrow> u256 list"
  ei_gasUsed :: u256
  ei_chainID :: u256

definition ei_number :: "env_info \<Rightarrow> u64" where "ei_number e = m_number (ei_header e)"

text \<open>A precompiled contract: its price, its function and the block from which it exists. The
  functions call external cryptography and are arguments.\<close>

record precompiled_contract =
  pc_cost :: "bytes \<Rightarrow> nat"
  pc_execute :: "bytes \<Rightarrow> bool \<times> bytes"
  pc_startingBlock :: u256

record seal_engine =
  se_params :: chain_params
  se_experimentalForkBlock :: u256
  se_precompiled :: "u160 \<rightharpoonup> precompiled_contract"

definition isPrecompiled :: "seal_engine \<Rightarrow> u160 \<Rightarrow> u256 \<Rightarrow> bool" where
  "isPrecompiled e a n = (case se_precompiled e a of Some c \<Rightarrow> n \<ge> pc_startingBlock c | None \<Rightarrow> False)"

definition costOfPrecompiled :: "seal_engine \<Rightarrow> u160 \<Rightarrow> bytes \<Rightarrow> nat" where
  "costOfPrecompiled e a d = (case se_precompiled e a of Some c \<Rightarrow> pc_cost c d | None \<Rightarrow> 0)"

definition executePrecompiled :: "seal_engine \<Rightarrow> u160 \<Rightarrow> bytes \<Rightarrow> bool \<times> bytes" where
  "executePrecompiled e a d = (case se_precompiled e a of Some c \<Rightarrow> pc_execute c d | None \<Rightarrow> (False, []))"

text \<open>What an executive is given: the block, the engine, the interpreter's arithmetic and hash.\<close>

record world =
  w_env :: env_info
  w_engine :: seal_engine
  w_intx :: intx
  w_lib :: crypto_lib

definition w_number :: "world \<Rightarrow> u256" where "w_number w = ts256 (ei_number (w_env w))"

definition w_schedule :: "world \<Rightarrow> evm_schedule" where
  "w_schedule w = scheduleForBlockNumber (se_params (w_engine w)) (w_number w)"

section \<open>Logs and the substate\<close>

record log_entry =
  log_address :: u160
  log_topics :: "u256 list"
  log_data :: bytes

record sub_state =
  selfdestructs :: "u160 set"
  sub_logs :: "log_entry list"
  refunds :: u64

definition sub_empty :: sub_state where
  "sub_empty = \<lparr>selfdestructs = {}, sub_logs = [], refunds = 0\<rparr>"

text \<open>\<open>operator+=\<close> and \<open>clear\<close>; the refund counter is a signed 64 bit integer.\<close>

definition sub_add :: "sub_state \<Rightarrow> sub_state \<Rightarrow> sub_state" where
  "sub_add a b = \<lparr>selfdestructs = selfdestructs a \<union> selfdestructs b, sub_logs = sub_logs a @ sub_logs b,
     refunds = refunds a + refunds b\<rparr>"

definition sub_clear :: "sub_state \<Rightarrow> sub_state" where
  "sub_clear a = a\<lparr>selfdestructs := {}, sub_logs := [], refunds := 0\<rparr>"

section \<open>The external interface of a frame\<close>

record ext_vm =
  x_myAddress :: u160
  x_caller :: u160
  x_origin :: u160
  x_value :: u256
  x_gasPrice :: u256
  x_data :: bytes
  x_code :: bytes
  x_codeHash :: u256
  x_version :: u256
  x_depth :: nat
  x_isCreate :: bool
  x_staticCall :: bool

text \<open>How the process is doing. \<open>OutOfFuel\<close> and \<open>DepthExceeded\<close> are the bounds of the model, which are
  shown never to be reached; \<open>NotModelled\<close> marks the one path that is left out.\<close>

datatype process = Running | Terminated state_exn | Exited | OutOfFuel | DepthExceeded | NotModelled

record ext_host =
  h_state :: state
  h_sub :: sub_state
  h_process :: process

text \<open>A callback that runs an operation of the state; \<open>d\<close> is the answer of a process that has ended.\<close>

definition host_run :: "(state \<Rightarrow> 'a st) \<Rightarrow> 'a \<Rightarrow> ext_host \<Rightarrow> 'a \<times> ext_host" where
  "host_run f d h =
     (if h_process h = Running
      then case f (h_state h) of
             Inr (x, s) \<Rightarrow> (x, h\<lparr>h_state := s\<rparr>)
           | Inl (e, s) \<Rightarrow> (d, h\<lparr>h_state := s, h_process := Terminated e\<rparr>)
      else (d, h))"

section \<open>The callbacks\<close>

definition xh_account_exists :: "world \<Rightarrow> ext_host \<Rightarrow> u160 \<Rightarrow> bool \<times> ext_host" where
  "xh_account_exists w h a =
     host_run (if emptinessIsNonexistence (w_schedule w) then accountNonemptyAndExisting a else addressInUse a)
       False h"

definition xh_get_storage :: "ext_vm \<Rightarrow> ext_host \<Rightarrow> u160 \<Rightarrow> u256 \<Rightarrow> u256 \<times> ext_host" where
  "xh_get_storage x h a key = host_run (st_storage (x_myAddress x) key) 0 h"

text \<open>\<open>originalStorageValue\<close> is the null implementation of the base class.\<close>

definition originalStorageValue :: "u256 \<Rightarrow> u256" where "originalStorageValue key = 0"

definition storage_status_of ::
    "evm_schedule \<Rightarrow> u256 \<Rightarrow> u256 \<Rightarrow> u256 \<Rightarrow> storage_status \<times> u64" where
  "storage_status_of sch originalValue currentValue newValue =
     (if originalValue = currentValue \<or> \<not> sstoreNetGasMetering sch
      then if currentValue = 0 then (STORAGE_ADDED, 0)
           else if newValue = 0 then (STORAGE_DELETED, of_nat (sstoreRefundGas sch))
           else (STORAGE_MODIFIED, 0)
      else
        let r = (if originalValue \<noteq> 0
                 then (if currentValue = 0 then - of_nat (sstoreRefundGas sch) else 0)
                    + (if newValue = 0 then of_nat (sstoreRefundGas sch) else 0)
                 else 0);
            r' = (if originalValue = newValue
                  then if originalValue = 0
                       then of_nat (evm_schedule.sstoreSetGas sch - sstoreUnchangedGas sch)
                       else of_nat (evm_schedule.sstoreResetGas sch - sstoreUnchangedGas sch)
                  else 0)
        in (STORAGE_MODIFIED_AGAIN, r + r'))"

definition xh_set_storage ::
    "world \<Rightarrow> ext_vm \<Rightarrow> ext_host \<Rightarrow> u160 \<Rightarrow> u256 \<Rightarrow> u256 \<Rightarrow> storage_status \<times> ext_host" where
  "xh_set_storage w x h a index newValue =
     (case host_run (st_storage (x_myAddress x) index) newValue h of
        (currentValue, h) \<Rightarrow>
          if newValue = currentValue then (STORAGE_UNCHANGED, h)
          else case storage_status_of (w_schedule w) (originalStorageValue index) currentValue newValue of
            (status, r) \<Rightarrow>
              (status, snd (host_run (setStorage (x_myAddress x) index newValue) ()
                 (h\<lparr>h_sub := (h_sub h)\<lparr>refunds := refunds (h_sub h) + r\<rparr>\<rparr>))))"

definition xh_get_balance :: "ext_host \<Rightarrow> u160 \<Rightarrow> u256 \<times> ext_host" where
  "xh_get_balance h a = host_run (st_balance a) 0 h"

definition xh_get_code_size :: "ext_host \<Rightarrow> u160 \<Rightarrow> u64 \<times> ext_host" where
  "xh_get_code_size h a = (case host_run (st_codeSize a) 0 h of (n, h) \<Rightarrow> (of_nat n, h))"

text \<open>\<open>codeHashAt\<close> is the null implementation of the base class.\<close>

definition codeHashAt :: "u160 \<Rightarrow> u256" where "codeHashAt a = 0"

definition xh_get_code_hash :: "ext_host \<Rightarrow> u160 \<Rightarrow> u256 \<times> ext_host" where
  "xh_get_code_hash h a = (codeHashAt a, h)"

definition xh_copy_code :: "ext_host \<Rightarrow> u160 \<Rightarrow> u64 \<Rightarrow> u64 \<Rightarrow> bytes \<times> ext_host" where
  "xh_copy_code h a codeOffset bufferSize =
     (case host_run (st_code a) [] h of
        (c, h) \<Rightarrow> (if unat codeOffset \<ge> length c then []
                   else take (min (length c - unat codeOffset) (unat bufferSize)) (drop (unat codeOffset) c), h))"

text \<open>\<open>ExtVM::selfdestruct\<close>: the balance is added to the beneficiary and then cleared.\<close>

definition ext_selfdestruct :: "ext_vm \<Rightarrow> u160 \<Rightarrow> state \<Rightarrow> unit st" where
  "ext_selfdestruct x beneficiary s =
     bindE (st_balance (x_myAddress x) s) (\<lambda>(b, s).
     bindE (addBalance beneficiary b s) (\<lambda>(_, s).
       setBalance (x_myAddress x) 0 s))"

definition xh_selfdestruct :: "ext_vm \<Rightarrow> ext_host \<Rightarrow> u160 \<Rightarrow> u160 \<Rightarrow> ext_host" where
  "xh_selfdestruct x h a beneficiary =
     (let h = snd (host_run (ext_selfdestruct x beneficiary) () h)
      in if h_process h = Running
         then h\<lparr>h_sub := (h_sub h)\<lparr>selfdestructs := insert (x_myAddress x) (selfdestructs (h_sub h))\<rparr>\<rparr>
         else h)"

definition xh_emit_log :: "ext_vm \<Rightarrow> ext_host \<Rightarrow> u160 \<Rightarrow> bytes \<Rightarrow> u256 list \<Rightarrow> ext_host" where
  "xh_emit_log x h a d topics =
     (if h_process h = Running
      then h\<lparr>h_sub := (h_sub h)\<lparr>sub_logs := sub_logs (h_sub h) @
             [\<lparr>log_address = x_myAddress x, log_topics = topics, log_data = d\<rparr>]\<rparr>\<rparr>
      else h)"

definition xh_tx_context :: "world \<Rightarrow> ext_vm \<Rightarrow> tx_context" where
  "xh_tx_context w x = (let hd = ei_header (w_env w) in
     \<lparr>tx_gas_price = x_gasPrice x, tx_origin = x_origin x, block_coinbase = m_author hd,
      block_number = m_number hd, block_timestamp = m_timestamp hd,
      block_gas_limit = ucast (m_gasLimit hd), block_difficulty = m_difficulty hd,
      tx_chain_id = ei_chainID (w_env w)\<rparr>)"

text \<open>\<open>blockHash\<close>: outside the last 256 blocks the hash is zero; up to 256 blocks after the
  Constantinople fork it is taken from the list of preceding hashes. Later it is the result of a
  transaction to the blockhash contract, which is not modelled; an index past the list is undefined
  behaviour and ends the process.\<close>

definition ext_blockHash :: "world \<Rightarrow> u256 \<Rightarrow> process + u256" where
  "ext_blockHash w n =
     (let currentNumber = w_number w; hd = ei_header (w_env w) in
      if n \<ge> currentNumber \<or> n < max 256 currentNumber - 256 then Inr 0
      else if currentNumber < constantinopleForkBlock (se_params (w_engine w)) + 256
      then let lastHashes = ei_precedingHashes (w_env w) (m_parentHash hd);
               i = unat (ucast (currentNumber - 1 - n) :: 32 word)
           in if i < length lastHashes then Inr (lastHashes ! i) else Inl Exited
      else Inl NotModelled)"

definition xh_get_block_hash :: "world \<Rightarrow> ext_host \<Rightarrow> u64 \<Rightarrow> u256 \<times> ext_host" where
  "xh_get_block_hash w h n =
     (if h_process h = Running
      then case ext_blockHash w (ts256 n) of
             Inr hash \<Rightarrow> (hash, h)
           | Inl p \<Rightarrow> (0, h\<lparr>h_process := p\<rparr>)
      else (0, h))"

definition evmc_host ::
    "world \<Rightarrow> ext_vm \<Rightarrow> (ext_host \<Rightarrow> evmc_message \<Rightarrow> call_result \<times> ext_host) \<Rightarrow> ext_host host" where
  "evmc_host w x callf =
     \<lparr>account_exists = xh_account_exists w, get_storage = xh_get_storage x,
      set_storage = xh_set_storage w x, get_balance = xh_get_balance,
      get_code_size = xh_get_code_size, get_code_hash = xh_get_code_hash,
      copy_code = xh_copy_code, host_selfdestruct = xh_selfdestruct x, host_call = callf,
      get_tx_context = (\<lambda>h. xh_tx_context w x), get_block_hash = xh_get_block_hash w,
      emit_log = xh_emit_log x\<rparr>"

section \<open>Running a frame\<close>

definition toRevision :: "evm_schedule \<Rightarrow> nat" where
  "toRevision s =
     (if haveChainID s then EVMC_ISTANBUL
      else if haveCreate2 s \<and> \<not> eip1283Mode s then EVMC_PETERSBURG
      else if haveCreate2 s \<and> eip1283Mode s then EVMC_CONSTANTINOPLE
      else if haveRevert s then EVMC_BYZANTIUM
      else if eip158Mode s then EVMC_SPURIOUS_DRAGON
      else if eip150Mode s then EVMC_TANGERINE_WHISTLE
      else if haveDelegateCall s then EVMC_HOMESTEAD
      else EVMC_FRONTIER)"

definition frame_message :: "ext_vm \<Rightarrow> u256 \<Rightarrow> evmc_message" where
  "frame_message x io_gas =
     \<lparr>msg_kind = (if x_isCreate x then EVMC_CREATE else EVMC_CALL), msg_static = x_staticCall x,
      msg_depth = int (x_depth x), msg_gas = ucast io_gas, msg_destination = x_myAddress x,
      msg_sender = x_caller x, msg_input = x_data x, msg_value = x_value x, msg_create2_salt = 0\<rparr>"

definition frame_env :: "world \<Rightarrow> ext_host host \<Rightarrow> ext_vm \<Rightarrow> u256 \<Rightarrow> ext_host env" where
  "frame_env w H x io_gas =
     \<lparr>m_host = H, m_intx = w_intx w, m_rev = toRevision (w_schedule w),
      m_message = frame_message x io_gas, m_pCode = x_code x\<rparr>"

text \<open>The exception \<open>EVMC::exec\<close> throws for a status. \<open>OutOfBounds\<close> stands for \<open>InternalVMError\<close>, the only
  one that is not a \<open>VMException\<close>.\<close>

fun exec_result :: "evmc_status \<Rightarrow> bytes \<Rightarrow> vm_exn + bytes" where
  "exec_result EVMC_SUCCESS out = Inr out"
| "exec_result EVMC_REVERT out = Inl (RevertInstruction out)"
| "exec_result EVMC_OUT_OF_GAS out = Inl OutOfGas"
| "exec_result EVMC_FAILURE out = Inl OutOfGas"
| "exec_result EVMC_INVALID_INSTRUCTION out = Inl BadInstruction"
| "exec_result EVMC_UNDEFINED_INSTRUCTION out = Inl BadInstruction"
| "exec_result EVMC_BAD_JUMP_DESTINATION out = Inl BadJumpDestination"
| "exec_result EVMC_STACK_OVERFLOW out = Inl OutOfStack"
| "exec_result EVMC_STACK_UNDERFLOW out = Inl StackUnderflow"
| "exec_result EVMC_INVALID_MEMORY_ACCESS out = Inl BufferOverrun"
| "exec_result EVMC_STATIC_MODE_VIOLATION out = Inl DisallowedStateChange"
| "exec_result EVMC_INTERNAL_ERROR out = Inl OutOfBounds"

definition int64max :: u256 where "int64max = 0x7fffffffffffffff"

text \<open>\<open>EVMC::exec\<close>: the result, the gas left in \<open>io_gas\<close> and the host state. The interpreter is given
  as many turns as its gas allows.\<close>

definition evmc_exec ::
    "world \<Rightarrow> ext_host host \<Rightarrow> ext_vm \<Rightarrow> u256 \<Rightarrow> ext_host \<Rightarrow> (vm_exn + bytes) \<times> u256 \<times> ext_host" where
  "evmc_exec w H x io_gas h =
     (if io_gas > int64max \<or> m_gasLimit (ei_header (w_env w)) > int64max
      then (Inl OutOfBounds, io_gas, h\<lparr>h_process := Exited\<rparr>)
      else let env = frame_env w H x io_gas in
      case execute (3 * unat (msg_gas (m_message env)) + 3) env h of
        None \<Rightarrow> (Inl OutOfBounds, io_gas, h\<lparr>h_process := OutOfFuel\<rparr>)
      | Some (res, h) \<Rightarrow>
          (exec_result (res_status res) (res_output res),
           if res_status res \<in> {EVMC_SUCCESS, EVMC_REVERT} then ucast (res_gas_left res) else io_gas, h))"

end
