(* ===== verification/Executive.thy ===== *)
theory Executive
  imports ExtVM "HOL-Library.Signed_Division"
begin

text \<open>
  Execution of transactions: class \<open>Executive\<close> (libethereum/Executive.h, Executive.cpp), the calls and
  creations it makes for a running frame (\<open>ExtVM::call\<close>, \<open>ExtVM::create\<close>, \<open>EvmCHost::call\<close>) and
  \<open>State::executeTransaction\<close>. The optional result recipient, tracing and logging to text are left
  out; the state is threaded through explicitly.

  A running frame calls the executive, which runs another frame: the host of a frame is built by
  recursion on the number of call levels below it, \<open>ext_host_at\<close>.
\<close>

section \<open>Data\<close>

datatype TransactionException = TE_None | TE_Unknown | TE_OutOfGasBase | TE_BadInstruction
  | TE_BadJumpDestination | TE_OutOfGas | TE_OutOfStack | TE_StackUnderflow | TE_RevertInstruction
  | TE_AddressAlreadyUsed

record call_parameters =
  cp_senderAddress :: u160
  cp_codeAddress :: u160
  cp_receiveAddress :: u160
  cp_valueTransfer :: u256
  cp_apparentValue :: u256
  cp_gas :: u256
  cp_data :: bytes
  cp_staticCall :: bool

text \<open>\<open>ex_ext\<close> is \<open>m_ext\<close> with its substate.\<close>

record executive =
  ex_t :: tx_base
  ex_depth :: nat
  ex_excepted :: TransactionException
  ex_baseGasRequired :: int
  ex_gas :: u256
  ex_gasCost :: u256
  ex_output :: bytes
  ex_ext :: "(ext_vm \<times> sub_state) option"
  ex_isCreation :: bool
  ex_newAddress :: u160
  ex_savepoint :: nat
  ex_logs :: "log_entry list"

definition executive_new :: "nat \<Rightarrow> executive" where
  "executive_new level =
     \<lparr>ex_t = tx_null, ex_depth = level, ex_excepted = TE_None, ex_baseGasRequired = 0, ex_gas = 0,
      ex_gasCost = 0, ex_output = [], ex_ext = None, ex_isCreation = False, ex_newAddress = 0,
      ex_savepoint = 0, ex_logs = []\<rparr>"

text \<open>How an operation of the executive may fail: an exception, or the end of the process.\<close>

datatype exec_exn = StateExn state_exn | SealExn seal_exn | ExecRlp rlp_exn | InvalidNonce
  | NotEnoughCashForTx | ProcessEnd process

type_synonym 'a ex = "(exec_exn \<times> state) + ('a \<times> state)"

definition ex_st :: "'a st \<Rightarrow> 'a ex" where
  "ex_st r = (case r of Inl (e, s) \<Rightarrow> Inl (StateExn e, s) | Inr x \<Rightarrow> Inr x)"

definition ex_rlp :: "rlp_exn + 'a \<Rightarrow> state \<Rightarrow> 'a ex" where
  "ex_rlp r s = (case r of Inl e \<Rightarrow> Inl (ExecRlp e, s) | Inr x \<Rightarrow> Inr (x, s))"

definition MaxAddress :: u160 where "MaxAddress = 0xffffffffffffffffffffffffffffffffffffffff"

definition toTransactionException :: "vm_exn \<Rightarrow> TransactionException" where
  "toTransactionException e =
     (case e of BadInstruction \<Rightarrow> TE_BadInstruction | BadJumpDestination \<Rightarrow> TE_BadJumpDestination
      | OutOfGas \<Rightarrow> TE_OutOfGas | OutOfStack \<Rightarrow> TE_OutOfStack | StackUnderflow \<Rightarrow> TE_StackUnderflow
      | _ \<Rightarrow> TE_Unknown)"

definition transactionExceptionToEvmcStatusCode :: "TransactionException \<Rightarrow> evmc_status" where
  "transactionExceptionToEvmcStatusCode ex =
     (case ex of TE_None \<Rightarrow> EVMC_SUCCESS | TE_RevertInstruction \<Rightarrow> EVMC_REVERT
      | TE_OutOfGas \<Rightarrow> EVMC_OUT_OF_GAS | TE_BadInstruction \<Rightarrow> EVMC_UNDEFINED_INSTRUCTION
      | TE_OutOfStack \<Rightarrow> EVMC_STACK_OVERFLOW | TE_StackUnderflow \<Rightarrow> EVMC_STACK_UNDERFLOW
      | TE_BadJumpDestination \<Rightarrow> EVMC_BAD_JUMP_DESTINATION | _ \<Rightarrow> EVMC_FAILURE)"

section \<open>Setting up a call\<close>

definition ex_revert :: "executive \<Rightarrow> state \<Rightarrow> executive \<times> state" where
  "ex_revert e s =
     (e\<lparr>ex_ext := map_option (\<lambda>(x, sub). (x, sub_clear sub)) (ex_ext e), ex_newAddress := 0\<rparr>,
      rollback (ex_savepoint e) s)"

text \<open>The context of a call of code.\<close>

definition call_ext ::
    "executive \<Rightarrow> call_parameters \<Rightarrow> u256 \<Rightarrow> u160 \<Rightarrow> bytes \<Rightarrow> u256 \<Rightarrow> u256 \<Rightarrow> ext_vm" where
  "call_ext e p gasPrice origin c codeHash version =
     \<lparr>x_myAddress = cp_receiveAddress p, x_caller = cp_senderAddress p, x_origin = origin,
      x_value = cp_apparentValue p, x_gasPrice = gasPrice, x_data = cp_data p, x_code = c,
      x_codeHash = codeHash, x_version = version, x_depth = ex_depth e, x_isCreate = False,
      x_staticCall = cp_staticCall p\<rparr>"

text \<open>The value moves last. A set-up returns whether everything is done; \<open>False\<close> asks for \<open>go\<close>.\<close>

definition ex_transfer :: "call_parameters \<Rightarrow> executive \<Rightarrow> state \<Rightarrow> (bool \<times> executive) ex" where
  "ex_transfer p e s =
     bindE (ex_st (transferBalance (cp_senderAddress p) (cp_receiveAddress p) (cp_valueTransfer p) s)) (\<lambda>(_, s).
       Inr ((ex_ext e = None, e), s))"

text \<open>A precompiled contract runs at once. One that is out of gas is touched all the same.\<close>

definition call_precompiled ::
    "world \<Rightarrow> call_parameters \<Rightarrow> executive \<Rightarrow> state \<Rightarrow> (bool \<times> executive) ex" where
  "call_precompiled w p e s =
     (let g = costOfPrecompiled (w_engine w) (cp_codeAddress p) (cp_data p) in
      if unat (cp_gas p) < g
      then let e = e\<lparr>ex_excepted := TE_OutOfGasBase\<rparr> in
        if w_number w \<ge> EIP158ForkBlock (se_params (w_engine w))
        then bindE (ex_st (addBalance (cp_codeAddress p) 0 s)) (\<lambda>(_, s). Inr ((True, e), s))
        else Inr ((True, e), s)
      else case executePrecompiled (w_engine w) (cp_codeAddress p) (cp_data p) of
        (success, output) \<Rightarrow>
          let e = e\<lparr>ex_gas := cp_gas p - of_nat g, ex_output := output\<rparr> in
          if \<not> success then Inr ((True, e\<lparr>ex_gas := 0, ex_excepted := TE_OutOfGas\<rparr>), s)
          else ex_transfer p e s)"

text \<open>The code of the callee, if it has any, becomes the context of \<open>go\<close>.\<close>

definition call_load ::
    "call_parameters \<Rightarrow> u256 \<Rightarrow> u160 \<Rightarrow> executive \<Rightarrow> state \<Rightarrow> executive ex" where
  "call_load p gasPrice origin e s =
     bindE (ex_st (addressHasCode (cp_codeAddress p) s)) (\<lambda>(hasCode, s).
     let e = e\<lparr>ex_gas := cp_gas p\<rparr> in
     if hasCode
     then bindE (ex_st (st_code (cp_codeAddress p) s)) (\<lambda>(c, s).
          bindE (ex_st (st_codeHash (cp_codeAddress p) s)) (\<lambda>(codeHash, s).
          bindE (ex_st (st_version (cp_codeAddress p) s)) (\<lambda>(version, s).
            Inr (e\<lparr>ex_ext := Some (call_ext e p gasPrice origin c codeHash version, sub_empty)\<rparr>, s))))
     else Inr (e, s))"

definition executive_call ::
    "world \<Rightarrow> call_parameters \<Rightarrow> u256 \<Rightarrow> u160 \<Rightarrow> executive \<Rightarrow> state \<Rightarrow> (bool \<times> executive) ex" where
  "executive_call w p gasPrice origin e s =
     bindE (if m_type (ex_t e) \<noteq> NullTransaction \<and>
               (cp_senderAddress p \<noteq> MaxAddress
                \<or> w_number w < constantinopleForkBlock (se_params (w_engine w)))
            then ex_st (incNonce (cp_senderAddress p) s) else Inr ((), s)) (\<lambda>(_, s).
     let e = e\<lparr>ex_savepoint := savepoint s\<rparr> in
     if isPrecompiled (w_engine w) (cp_codeAddress p) (w_number w) then call_precompiled w p e s
     else bindE (call_load p gasPrice origin e s) (\<lambda>(e, s). ex_transfer p e s))"

section \<open>Setting up a creation\<close>

text \<open>The new account: it is paid, its nonce is set and its storage cleared; \<open>init\<close> is left to \<open>go\<close>.\<close>

definition create_account ::
    "world \<Rightarrow> u160 \<Rightarrow> u256 \<Rightarrow> u256 \<Rightarrow> bytes \<Rightarrow> u160 \<Rightarrow> u256 \<Rightarrow> executive \<Rightarrow> state \<Rightarrow> (bool \<times> executive) ex" where
  "create_account w sender endowment gasPrice init origin version e s =
     (let new = ex_newAddress e in
      bindE (ex_st (transferBalance sender new endowment s)) (\<lambda>(_, s).
      bindE (ex_st (requireAccountStartNonce s)) (\<lambda>(n, s).
      bindE (ex_st (st_setNonce new (if w_number w \<ge> EIP158ForkBlock (se_params (w_engine w)) then n + 1 else n) s))
        (\<lambda>(_, s).
      let s = clearStorage new s in
      if init \<noteq> []
      then Inr ((False, e\<lparr>ex_ext := Some
             (\<lparr>x_myAddress = new, x_caller = sender, x_origin = origin, x_value = endowment,
               x_gasPrice = gasPrice, x_data = [], x_code = init, x_codeHash = st_sha3 s init,
               x_version = version, x_depth = ex_depth e, x_isCreate = True, x_staticCall = False\<rparr>,
              sub_empty)\<rparr>), s)
      else bindE (ex_st (st_setCode new [] version s)) (\<lambda>(_, s).
             Inr ((ex_ext e = None, e), s))))))"

definition executeCreate ::
    "world \<Rightarrow> u160 \<Rightarrow> u256 \<Rightarrow> u256 \<Rightarrow> u256 \<Rightarrow> bytes \<Rightarrow> u160 \<Rightarrow> u256 \<Rightarrow> executive \<Rightarrow> state \<Rightarrow> (bool \<times> executive) ex" where
  "executeCreate w sender endowment gasPrice gas init origin version e s =
     bindE (if sender \<noteq> MaxAddress \<or> w_number w < se_experimentalForkBlock (w_engine w)
            then ex_st (incNonce sender s) else Inr ((), s)) (\<lambda>(_, s).
     let e = e\<lparr>ex_savepoint := savepoint s, ex_isCreation := True, ex_gas := gas\<rparr>;
         new = ex_newAddress e in
     bindE (ex_st (addressHasCode new s)) (\<lambda>(hasCode, s).
     bindE (if hasCode then Inr (True, s)
            else bindE (ex_st (getNonce new s)) (\<lambda>(n, s). Inr (n > 0, s))) (\<lambda>(accountAlreadyExist, s).
     if accountAlreadyExist
     then case ex_revert (e\<lparr>ex_gas := 0, ex_excepted := TE_AddressAlreadyUsed\<rparr>) s of
            (e, s) \<Rightarrow> Inr ((True, e\<lparr>ex_ext := None\<rparr>), s)
     else create_account w sender endowment gasPrice init origin version e s)))"

text \<open>\<open>rlpList(sender, nonce)\<close>.\<close>

definition rlp_sender_nonce :: "u160 \<Rightarrow> u256 \<Rightarrow> rlp_exn + bytes" where
  "rlp_sender_nonce sender nonce =
     bindE (appendList rlp_stream_new 2) (\<lambda>r. bindE (appendHash r sender) (\<lambda>r.
     bindE (appendInt r (unat nonce)) stream_out))"

definition createOpcode ::
    "world \<Rightarrow> u160 \<Rightarrow> u256 \<Rightarrow> u256 \<Rightarrow> u256 \<Rightarrow> bytes \<Rightarrow> u160 \<Rightarrow> executive \<Rightarrow> state \<Rightarrow> (bool \<times> executive) ex" where
  "createOpcode w sender endowment gasPrice gas init origin e s =
     bindE (ex_st (st_version sender s)) (\<lambda>(version, s).
     bindE (ex_st (getNonce sender s)) (\<lambda>(nonce, s).
     bindE (ex_rlp (rlp_sender_nonce sender nonce) s) (\<lambda>(r, s).
       executeCreate w sender endowment gasPrice gas init origin version
         (e\<lparr>ex_newAddress := right160 (st_sha3 s r)\<rparr>) s)))"

definition create2Opcode ::
    "world \<Rightarrow> u160 \<Rightarrow> u256 \<Rightarrow> u256 \<Rightarrow> u256 \<Rightarrow> bytes \<Rightarrow> u160 \<Rightarrow> u256 \<Rightarrow> executive \<Rightarrow> state \<Rightarrow> (bool \<times> executive) ex" where
  "create2Opcode w sender endowment gasPrice gas init origin salt e s =
     bindE (ex_st (st_version sender s)) (\<lambda>(version, s).
       executeCreate w sender endowment gasPrice gas init origin version
         (e\<lparr>ex_newAddress := right160 (st_sha3 s
            ([0xff] @ hash_bytes sender @ hash_bytes salt @ hash_bytes (st_sha3 s init)))\<rparr>) s)"

section \<open>Running the code\<close>

type_synonym runner = "ext_vm \<Rightarrow> u256 \<Rightarrow> ext_host \<Rightarrow> (vm_exn + bytes) \<times> u256 \<times> ext_host"

text \<open>What a creation does with the output of the initialisation code: its size is limited and every
  byte is paid for. \<open>OutOfGas\<close> is thrown inside the same \<open>try\<close> block as the run.\<close>

definition deposit :: "evm_schedule \<Rightarrow> u256 \<Rightarrow> bytes \<Rightarrow> vm_exn + (u256 \<times> bytes)" where
  "deposit sch gas out =
     (if length out > maxCodeSize sch then Inl OutOfGas
      else if length out * createDataGas sch \<le> unat gas
      then Inr (gas - of_nat (length out * createDataGas sch), out)
      else if exceptionalFailedCodeDeposit sch then Inl OutOfGas
      else Inr (gas, []))"

text \<open>The handlers of \<open>go\<close>: a revert keeps the gas, any other exception of the interpreter takes it
  all, and an exception that is not the interpreter's ends the process.\<close>

definition go_catch :: "vm_exn \<Rightarrow> executive \<Rightarrow> state \<Rightarrow> executive ex" where
  "go_catch x e s =
     (case x of
        RevertInstruction out \<Rightarrow>
          (case ex_revert e s of (e, s) \<Rightarrow> Inr (e\<lparr>ex_output := out, ex_excepted := TE_RevertInstruction\<rparr>, s))
      | OutOfBounds \<Rightarrow> Inl (ProcessEnd Exited, s)
      | _ \<Rightarrow> Inr (ex_revert (e\<lparr>ex_gas := 0, ex_excepted := toTransactionException x\<rparr>) s))"

definition ex_exit :: "'a st \<Rightarrow> 'a ex" where
  "ex_exit r = (case r of Inl (e, s) \<Rightarrow> Inl (ProcessEnd Exited, s) | Inr x \<Rightarrow> Inr x)"

definition ex_go :: "world \<Rightarrow> runner \<Rightarrow> executive \<Rightarrow> state \<Rightarrow> executive ex" where
  "ex_go w run e s =
     (case ex_ext e of
        None \<Rightarrow> Inr (e, s)
      | Some (x, sub) \<Rightarrow>
          let s = (if ex_isCreation e then clearStorage (x_myAddress x) s else s) in
          case run x (ex_gas e) \<lparr>h_state = s, h_sub = sub, h_process = Running\<rparr> of
            (r, gas, h) \<Rightarrow>
              let s = h_state h; e = e\<lparr>ex_gas := gas, ex_ext := Some (x, h_sub h)\<rparr> in
              if h_process h \<noteq> Running then Inl (ProcessEnd (h_process h), s)
              else case r of
                Inl exn \<Rightarrow> go_catch exn e s
              | Inr out \<Rightarrow>
                  if ex_isCreation e
                  then case deposit (w_schedule w) gas out of
                         Inl exn \<Rightarrow> go_catch exn e s
                       | Inr (gas, code) \<Rightarrow>
                           bindE (ex_exit (st_setCode (x_myAddress x) code (x_version x) s)) (\<lambda>(_, s).
                             Inr (e\<lparr>ex_gas := gas\<rparr>, s))
                  else Inr (e\<lparr>ex_output := out\<rparr>, s))"

definition accrueSubState :: "executive \<Rightarrow> sub_state \<Rightarrow> sub_state" where
  "accrueSubState e parent = (case ex_ext e of Some (x, sub) \<Rightarrow> sub_add parent sub | None \<Rightarrow> parent)"

section \<open>Calls from a running frame\<close>

text \<open>\<open>ExtVM::call\<close> and \<open>ExtVM::create\<close> after the set-up: run the code, add the substate.\<close>

definition ext_finish ::
    "world \<Rightarrow> runner \<Rightarrow> sub_state \<Rightarrow> (bool \<times> executive) ex \<Rightarrow> (executive \<times> sub_state) ex" where
  "ext_finish w run sub r =
     bindE r (\<lambda>((done, e), s).
       if done then Inr ((e, sub), s)
       else bindE (ex_go w run e s) (\<lambda>(e, s). Inr ((e, accrueSubState e sub), s)))"

definition ext_call ::
    "world \<Rightarrow> runner \<Rightarrow> ext_vm \<Rightarrow> call_parameters \<Rightarrow> sub_state \<Rightarrow> state \<Rightarrow> (executive \<times> sub_state) ex" where
  "ext_call w run x p sub s =
     ext_finish w run sub (executive_call w p (x_gasPrice x) (x_origin x) (executive_new (x_depth x + 1)) s)"

definition ext_create ::
    "world \<Rightarrow> runner \<Rightarrow> ext_vm \<Rightarrow> bool \<Rightarrow> u256 \<Rightarrow> u256 \<Rightarrow> bytes \<Rightarrow> u256 \<Rightarrow> sub_state \<Rightarrow> state
      \<Rightarrow> (executive \<times> sub_state) ex" where
  "ext_create w run x create2 endowment gas init salt sub s =
     ext_finish w run sub
       (if create2
        then create2Opcode w (x_myAddress x) endowment (x_gasPrice x) gas init (x_origin x) salt
               (executive_new (x_depth x + 1)) s
        else createOpcode w (x_myAddress x) endowment (x_gasPrice x) gas init (x_origin x)
               (executive_new (x_depth x + 1)) s)"

definition message_parameters :: "ext_vm \<Rightarrow> evmc_message \<Rightarrow> call_parameters" where
  "message_parameters x m =
     \<lparr>cp_senderAddress = msg_sender m, cp_codeAddress = msg_destination m,
      cp_receiveAddress = (if msg_kind m = EVMC_CALL then msg_destination m else x_myAddress x),
      cp_valueTransfer = (if msg_kind m = EVMC_DELEGATECALL then 0 else msg_value m),
      cp_apparentValue = msg_value m, cp_gas = ucast (msg_gas m), cp_data = msg_input m,
      cp_staticCall = msg_static m\<rparr>"

definition call_dead :: call_result where
  "call_dead = \<lparr>res_status = EVMC_INTERNAL_ERROR, res_gas_left = 0, res_output = [], res_create_address = 0\<rparr>"

text \<open>\<open>EvmCHost::call\<close>: an exception that leaves it ends the process.\<close>

definition evmc_call :: "world \<Rightarrow> runner \<Rightarrow> ext_vm \<Rightarrow> ext_host \<Rightarrow> evmc_message \<Rightarrow> call_result \<times> ext_host" where
  "evmc_call w run x h m =
     (if h_process h \<noteq> Running then (call_dead, h)
      else
        let create = (msg_kind m \<in> {EVMC_CREATE, EVMC_CREATE2}) in
        case (if create
              then ext_create w run x (msg_kind m = EVMC_CREATE2) (msg_value m) (ucast (msg_gas m))
                     (msg_input m) (msg_create2_salt m) (h_sub h) (h_state h)
              else ext_call w run x (message_parameters x m) (h_sub h) (h_state h)) of
          Inl (exn, s) \<Rightarrow>
            (call_dead, h\<lparr>h_state := s, h_process :=
               (case exn of ProcessEnd p \<Rightarrow> p | StateExn x \<Rightarrow> Terminated x | _ \<Rightarrow> Exited)\<rparr>)
        | Inr ((e, sub), s) \<Rightarrow>
            let status = transactionExceptionToEvmcStatusCode (ex_excepted e) in
            (\<lparr>res_status = status, res_gas_left = ucast (ex_gas e),
              res_output = (if create \<and> status = EVMC_SUCCESS then [] else ex_output e),
              res_create_address = (if create \<and> status = EVMC_SUCCESS then ex_newAddress e else 0)\<rparr>,
             h\<lparr>h_state := s, h_sub := sub\<rparr>))"

text \<open>The host of a frame with \<open>n\<close> call levels below it. A frame at the depth limit makes no calls, so
  the last one needs no executive.\<close>

fun ext_host_at :: "world \<Rightarrow> nat \<Rightarrow> ext_vm \<Rightarrow> ext_host host" where
  "ext_host_at w 0 x = evmc_host w x (\<lambda>h m. (call_dead,
     if h_process h = Running then h\<lparr>h_process := DepthExceeded\<rparr> else h))"
| "ext_host_at w (Suc n) x =
     evmc_host w x (evmc_call w (\<lambda>x' gas h. evmc_exec w (ext_host_at w n x') x' gas h) x)"

definition run_at :: "world \<Rightarrow> nat \<Rightarrow> runner" where
  "run_at w n x gas h = evmc_exec w (ext_host_at w n x) x gas h"

section \<open>Transactions\<close>

definition ImportEverything :: nat where "ImportEverything = 253"

definition ex_initialize :: "world \<Rightarrow> tx_base \<Rightarrow> executive \<Rightarrow> state \<Rightarrow> executive ex" where
  "ex_initialize w t e s =
     (let e = e\<lparr>ex_t := t, ex_baseGasRequired := baseGasRequired (isCreation t) (m_data t) (w_schedule w)\<rparr>;
          sender = tx_from (w_lib w) t in
      case ethash_verifyTransaction (se_params (w_engine w)) ImportEverything t (ei_header (w_env w))
             (ei_gasUsed (w_env w)) of
        Inl x \<Rightarrow> Inl (SealExn x, s)
      | Inr _ \<Rightarrow>
          if hasZeroSignature t then Inr (e, s)
          else bindE (ex_st (getNonce sender s)) (\<lambda>(nonceReq, s).
            if m_nonce t \<noteq> nonceReq then Inl (InvalidNonce, s)
            else
              let gasCost = uint (m_gas t) * uint (m_gasPrice t); totalCost = uint (m_value t) + gasCost in
              bindE (ex_st (st_balance sender s)) (\<lambda>(b, s).
                if uint b < totalCost then Inl (NotEnoughCashForTx, s)
                else Inr (e\<lparr>ex_gasCost := of_int gasCost\<rparr>, s))))"

definition ex_execute :: "world \<Rightarrow> executive \<Rightarrow> state \<Rightarrow> (bool \<times> executive) ex" where
  "ex_execute w e s =
     (let t = ex_t e; sender = tx_from (w_lib w) t; gas = m_gas t - of_int (ex_baseGasRequired e) in
      bindE (ex_st (subBalance sender (ex_gasCost e) s)) (\<lambda>(_, s).
        if isCreation t
        then createOpcode w sender (m_value t) (m_gasPrice t) gas (m_data t) sender e s
        else executive_call w
               \<lparr>cp_senderAddress = sender, cp_codeAddress = m_receiveAddress t,
                cp_receiveAddress = m_receiveAddress t, cp_valueTransfer = m_value t,
                cp_apparentValue = m_value t, cp_gas = gas, cp_data = m_data t, cp_staticCall = False\<rparr>
               (m_gasPrice t) sender e s))"

text \<open>The refund of \<open>finalize\<close>: for every selfdestruct, and at most half of the gas used.\<close>

definition sub_refund :: "evm_schedule \<Rightarrow> sub_state \<Rightarrow> sub_state" where
  "sub_refund sch sub =
     sub\<lparr>refunds := refunds sub + of_nat (selfdestructRefundGas sch) * of_nat (card (selfdestructs sub))\<rparr>"

definition refund_gas :: "u256 \<Rightarrow> u256 \<Rightarrow> u64 \<Rightarrow> u256" where
  "refund_gas gasLimit gas ref =
     (let maxRefund = sint (ucast gasLimit - ucast gas :: u64) sdiv 2
      in gas + of_int (min maxRefund (sint ref)))"

fun kill_all :: "u160 list \<Rightarrow> state \<Rightarrow> unit st" where
  "kill_all [] s = Inr ((), s)"
| "kill_all (a # as) s = bindE (st_kill a s) (\<lambda>(_, s). kill_all as s)"

definition ex_pay :: "world \<Rightarrow> executive \<Rightarrow> state \<Rightarrow> unit ex" where
  "ex_pay w e s =
     (let t = ex_t e in
      if m_type t \<noteq> NullTransaction
      then bindE (ex_st (addBalance (tx_from (w_lib w) t) (ex_gas e * m_gasPrice t) s)) (\<lambda>(_, s).
             ex_st (addBalance (m_author (ei_header (w_env w))) ((m_gas t - ex_gas e) * m_gasPrice t) s))
      else Inr ((), s))"

text \<open>\<open>finalize\<close>, with its assertion on the refunds.\<close>

definition ex_finalize :: "world \<Rightarrow> executive \<Rightarrow> state \<Rightarrow> (bool \<times> executive) ex" where
  "ex_finalize w e s =
     (case ex_ext e of
        Some (x, sub) \<Rightarrow>
          let sub = sub_refund (w_schedule w) sub in
          if sint (refunds sub) < 0 then Inl (ProcessEnd Exited, s)
          else
            let e = e\<lparr>ex_ext := Some (x, sub), ex_gas := refund_gas (m_gas (ex_t e)) (ex_gas e) (refunds sub)\<rparr> in
            bindE (ex_pay w e s) (\<lambda>(_, s).
            bindE (ex_st (kill_all (sorted_list_of_set (selfdestructs sub)) s)) (\<lambda>(_, s).
              Inr ((ex_excepted e = TE_None, e\<lparr>ex_logs := sub_logs sub\<rparr>), s)))
      | None \<Rightarrow> bindE (ex_pay w e s) (\<lambda>(_, s). Inr ((ex_excepted e = TE_None, e), s)))"

definition ex_run :: "world \<Rightarrow> tx_base \<Rightarrow> state \<Rightarrow> (bool \<times> executive) ex" where
  "ex_run w t s =
     bindE (ex_initialize w t (executive_new 0) s) (\<lambda>(e, s).
     bindE (ex_execute w e s) (\<lambda>((done, e), s).
     bindE (if done then Inr (e, s) else ex_go w (run_at w 1024) e s) (\<lambda>(e, s).
       ex_finalize w e s)))"

text \<open>\<open>executeTransaction\<close>: an exception rolls the state back to where it was and is thrown again.\<close>

definition executeTransaction :: "world \<Rightarrow> tx_base \<Rightarrow> state \<Rightarrow> (bool \<times> executive) ex" where
  "executeTransaction w t s =
     (let savept = savepoint s in
      case ex_run w t s of
        Inl (exn, s) \<Rightarrow> Inl (exn, case exn of ProcessEnd p \<Rightarrow> s | _ \<Rightarrow> rollback savept s)
      | Inr r \<Rightarrow> Inr r)"

end
