(* ===== verification/StateLog.thy ===== *)
theory StateLog
  imports State
begin

text \<open>
  What the change log promises. The value of an account is what the cache and the databases together
  say of it; with \<open>full\<close> it includes code and storage, without it is the life, nonce and balance.
  A cell is the value of an account that differs, or may differ, from the state trie. Undoing a change
  is a function on cells, and a state extends another one if undoing the newer part of its log gives
  back the same values: \<open>extends\<close> is reflexive and transitive, kept by every operation, and
  rolling back to the savepoint of the older state restores its view.
\<close>

section \<open>Values\<close>

record account_value =
  v_alive :: bool
  v_nonce :: u256
  v_balance :: u256
  v_codeHash :: u256
  v_code :: bytes
  v_root :: u256
  v_storage :: "u256 \<Rightarrow> u256"

definition db_value :: "state_db \<Rightarrow> u256 \<Rightarrow> u256 \<Rightarrow> u256" where
  "db_value db root k = (case storage_decode (db_storage db root k) of Inr v \<Rightarrow> v | Inl _ \<Rightarrow> 0)"

definition basic :: "bool \<Rightarrow> account_value \<Rightarrow> account_value" where
  "basic full v = (if full then v else v\<lparr>v_codeHash := 0, v_code := [], v_root := 0, v_storage := (\<lambda>_. 0)\<rparr>)"

definition value_of :: "bool \<Rightarrow> state_db \<Rightarrow> account \<Rightarrow> account_value" where
  "value_of full db acc = basic full
     \<lparr>v_alive = a_isAlive acc, v_nonce = a_nonce acc, v_balance = a_balance acc,
      v_codeHash = a_codeHash acc,
      v_code = (if a_codeHash acc = EmptySHA3 (db_sha3 db) then []
                else if a_codeCache acc = [] then db_lookup db (a_codeHash acc) else a_codeCache acc),
      v_root = a_storageRoot acc,
      v_storage = (\<lambda>k. case a_storageOverlay acc k of Some v \<Rightarrow> v | None \<Rightarrow> db_value db (a_storageRoot acc) k)\<rparr>"

definition db_account :: "bool \<Rightarrow> state_db \<Rightarrow> u160 \<Rightarrow> account_value option" where
  "db_account full db a =
     (if db_at db a = [] then None
      else case account_decode (db_sha3 db) (db_at db a) of
        Inr acc \<Rightarrow> Some (value_of full db acc) | Inl _ \<Rightarrow> None)"

type_synonym cells = "u160 \<Rightarrow> account_value option"

definition cell :: "bool \<Rightarrow> state \<Rightarrow> cells" where
  "cell full s a = (case m_cache s a of
     Some acc \<Rightarrow> if acc_isDirty acc then Some (value_of full (m_db s) acc) else None | None \<Rightarrow> None)"

definition view_of :: "bool \<Rightarrow> state_db \<Rightarrow> cells \<Rightarrow> cells" where
  "view_of full db A a = (case A a of Some x \<Rightarrow> Some x | None \<Rightarrow> db_account full db a)"

definition view :: "bool \<Rightarrow> state \<Rightarrow> cells" where
  "view full s = view_of full (m_db s) (cell full s)"

section \<open>Undoing changes on cells\<close>

definition cell_map :: "u160 \<Rightarrow> (account_value \<Rightarrow> account_value) \<Rightarrow> cells \<Rightarrow> cells" where
  "cell_map a f A = A(a := map_option f (A a))"

fun undo_cell :: "bool \<Rightarrow> state_db \<Rightarrow> change \<Rightarrow> cells \<Rightarrow> cells" where
  "undo_cell full db (ChStorage a k v) = cell_map a (\<lambda>x. basic full (x\<lparr>v_storage := (v_storage x)(k := v)\<rparr>))"
| "undo_cell full db (ChStorageRoot a r) = cell_map a (\<lambda>x. basic full (x\<lparr>v_root := r, v_storage := db_value db r\<rparr>))"
| "undo_cell full db (ChBalance a v) = cell_map a (\<lambda>x. x\<lparr>v_balance := v_balance x - v\<rparr>)"
| "undo_cell full db (ChNonce a v) = cell_map a (\<lambda>x. x\<lparr>v_nonce := v\<rparr>)"
| "undo_cell full db (ChCode a c) =
     cell_map a (\<lambda>x. basic full (x\<lparr>v_codeHash := EmptySHA3 (db_sha3 db), v_code := []\<rparr>))"
| "undo_cell full db (ChTouch a) = (\<lambda>A. A(a := None))"
| "undo_cell full db (ChCreate a) = (\<lambda>A. A(a := None))"

fun undo_ok :: "bool \<Rightarrow> state_db \<Rightarrow> change \<Rightarrow> cells \<Rightarrow> bool" where
  "undo_ok full db (ChCreate a) A \<longleftrightarrow> db_at db a = []"
| "undo_ok full db (ChTouch a) A \<longleftrightarrow> A a \<noteq> None \<and> A a = db_account full db a"
| "undo_ok full db c A \<longleftrightarrow> A (ch_address c) \<noteq> None"

text \<open>The log, newest change first.\<close>

fun undo_all :: "bool \<Rightarrow> state_db \<Rightarrow> change list \<Rightarrow> cells \<Rightarrow> cells" where
  "undo_all full db [] A = A"
| "undo_all full db (c # cs) A = undo_all full db cs (undo_cell full db c A)"

fun log_ok :: "bool \<Rightarrow> state_db \<Rightarrow> change list \<Rightarrow> cells \<Rightarrow> bool" where
  "log_ok full db [] A = True"
| "log_ok full db (c # cs) A \<longleftrightarrow> undo_ok full db c A \<and> log_ok full db cs (undo_cell full db c A)"

lemma undo_all_append: "undo_all full db (cs @ ds) A = undo_all full db ds (undo_all full db cs A)"
  by (induction cs arbitrary: A) auto

lemma log_ok_append:
  "log_ok full db (cs @ ds) A \<longleftrightarrow> log_ok full db cs A \<and> log_ok full db ds (undo_all full db cs A)"
  by (induction cs arbitrary: A) auto

text \<open>\<open>B\<close> refines \<open>A\<close>: they differ only where \<open>B\<close> holds the value of the trie itself.\<close>

definition same_cells :: "bool \<Rightarrow> state_db \<Rightarrow> cells \<Rightarrow> cells \<Rightarrow> bool" where
  "same_cells full db A B \<longleftrightarrow> (\<forall>a. B a = A a \<or> A a = None \<and> B a = db_account full db a)"

lemma same_cells_refl [simp]: "same_cells full db A A"
  by (simp add: same_cells_def)

lemma same_cells_trans: "same_cells full db A B \<Longrightarrow> same_cells full db B C \<Longrightarrow> same_cells full db A C"
  unfolding same_cells_def by (metis (no_types))

lemma same_cells_view: "same_cells full db A B \<Longrightarrow> view_of full db B = view_of full db A"
proof (rule ext)
  fix a
  assume "same_cells full db A B"
  then have "B a = A a \<or> A a = None \<and> B a = db_account full db a" by (simp add: same_cells_def)
  then show "view_of full db B a = view_of full db A a"
    by (auto simp: view_of_def split: option.splits)
qed

lemma same_cells_Some: "same_cells full db A B \<Longrightarrow> A a = Some x \<Longrightarrow> B a = Some x"
  by (metis same_cells_def option.simps(3))

lemma undo_cell_same:
  assumes "undo_ok full db c A" "same_cells full db A B"
  shows "undo_ok full db c B \<and> same_cells full db (undo_cell full db c A) (undo_cell full db c B)"
proof -
  have eq: "B a = A a" if "A a \<noteq> None" for a
    using assms(2) that by (metis same_cells_def)
  have d: "B a = A a \<or> A a = None \<and> B a = db_account full db a" for a
    using assms(2) by (simp add: same_cells_def)
  show ?thesis
  proof (cases "A (ch_address c) = None")
    case True
    then obtain a where c: "c = ChCreate a" using assms(1) by (cases c) auto
    show ?thesis using assms(1) d by (auto simp: c same_cells_def)
  next
    case False
    then have B: "B (ch_address c) = A (ch_address c)" by (rule eq)
    show ?thesis using assms(1) d B False by (cases c) (auto simp: same_cells_def cell_map_def)
  qed
qed

lemma log_ok_same:
  assumes "log_ok full db cs A" "same_cells full db A B"
  shows "log_ok full db cs B \<and> same_cells full db (undo_all full db cs A) (undo_all full db cs B)"
  using assms by (induction cs arbitrary: A B) (auto dest: undo_cell_same)

section \<open>The invariant of the state\<close>

definition state_inv :: "bool \<Rightarrow> state \<Rightarrow> bool" where
  "state_inv full s \<longleftrightarrow>
     (\<forall>a acc. m_cache s a = Some acc \<and> \<not> acc_isDirty acc \<longrightarrow>
        db_account full (m_db s) a = Some (value_of full (m_db s) acc)) \<and>
     (\<forall>a \<in> m_nonExistingAccountsCache s. db_at (m_db s) a = []) \<and>
     log_ok full (m_db s) (rev (m_changeLog s)) (cell full s)"

definition extends :: "bool \<Rightarrow> state \<Rightarrow> state \<Rightarrow> bool" where
  "extends full s s' \<longleftrightarrow> state_inv full s' \<and> m_db s' = m_db s \<and> m_accountStartNonce s' = m_accountStartNonce s \<and>
     (\<exists>cs. m_changeLog s' = m_changeLog s @ cs \<and>
        same_cells full (m_db s) (cell full s) (undo_all full (m_db s) (rev cs) (cell full s')))"

lemma extends_refl: "state_inv full s \<Longrightarrow> extends full s s"
  unfolding extends_def by (intro conjI exI [of _ "[]"]) simp_all

lemma extends_inv: "extends full s s' \<Longrightarrow> state_inv full s'"
  by (simp add: extends_def)

lemma extends_trans:
  assumes "state_inv full s1" "extends full s1 s2" "extends full s2 s3"
  shows "extends full s1 s3"
proof -
  let ?db = "m_db s1"
  obtain cs where cs: "m_changeLog s2 = m_changeLog s1 @ cs"
    "same_cells full ?db (cell full s1) (undo_all full ?db (rev cs) (cell full s2))"
    using assms(2) by (auto simp: extends_def)
  obtain ds where ds: "m_changeLog s3 = m_changeLog s2 @ ds"
    "same_cells full ?db (cell full s2) (undo_all full ?db (rev ds) (cell full s3))"
    using assms(2,3) by (auto simp: extends_def)
  have "log_ok full ?db (rev cs) (cell full s2)"
    using assms(2) cs(1) by (auto simp: extends_def state_inv_def log_ok_append)
  from log_ok_same [OF this ds(2)]
  have "same_cells full ?db (undo_all full ?db (rev cs) (cell full s2))
      (undo_all full ?db (rev (cs @ ds)) (cell full s3))"
    by (simp add: undo_all_append)
  with cs(2) have "same_cells full ?db (cell full s1) (undo_all full ?db (rev (cs @ ds)) (cell full s3))"
    by (rule same_cells_trans)
  then show ?thesis
    using assms cs(1) ds(1) by (auto simp: extends_def)
qed

text \<open>The usual way to show it: the new entries of the log can be undone, and undoing them gives
  back the cells.\<close>

lemma extendsI:
  assumes inv: "state_inv full s" and eq: "m_db s' = m_db s" "m_accountStartNonce s' = m_accountStartNonce s"
    and clean: "\<And>a acc. m_cache s' a = Some acc \<Longrightarrow> \<not> acc_isDirty acc \<Longrightarrow>
        db_account full (m_db s) a = Some (value_of full (m_db s) acc)"
    and none: "\<And>a. a \<in> m_nonExistingAccountsCache s' \<Longrightarrow> db_at (m_db s) a = []"
    and log: "m_changeLog s' = m_changeLog s @ cs" "log_ok full (m_db s) (rev cs) (cell full s')"
      "same_cells full (m_db s) (cell full s) (undo_all full (m_db s) (rev cs) (cell full s'))"
  shows "extends full s s'"
proof -
  have "log_ok full (m_db s) (rev (m_changeLog s)) (cell full s)"
    using inv by (simp add: state_inv_def)
  from log_ok_same [OF this log(3)]
  have "log_ok full (m_db s) (rev (m_changeLog s')) (cell full s')"
    using log(1,2) by (simp add: log_ok_append)
  then show ?thesis
    using eq clean none log(1,3) by (auto simp: extends_def state_inv_def)
qed

text \<open>An account that exists keeps existing.\<close>

lemma undo_none:
  "log_ok full db cs A \<Longrightarrow> A a = None \<Longrightarrow> undo_all full db cs A a = None"
proof (induction cs arbitrary: A)
  case (Cons c cs)
  have "undo_cell full db c A a = None"
    using Cons.prems by (cases c) (auto simp: cell_map_def)
  then show ?case using Cons by simp
qed simp

lemma extends_exists:
  assumes "extends full s s'" "view full s a \<noteq> None"
  shows "view full s' a \<noteq> None"
proof
  assume n: "view full s' a = None"
  then have c: "cell full s' a = None" "db_account full (m_db s) a = None"
    using assms(1) by (auto simp: view_def view_of_def extends_def split: option.splits)
  obtain cs where cs: "m_changeLog s' = m_changeLog s @ cs"
    "same_cells full (m_db s) (cell full s) (undo_all full (m_db s) (rev cs) (cell full s'))"
    using assms(1) by (auto simp: extends_def)
  have "log_ok full (m_db s) (rev cs) (cell full s')"
    using assms(1) cs(1) by (auto simp: extends_def state_inv_def log_ok_append)
  then have "undo_all full (m_db s) (rev cs) (cell full s') a = None" using c(1) by (rule undo_none)
  then have "cell full s a = None" using cs(2) by (metis same_cells_def)
  then show False using assms(2) c(2) by (simp add: view_def view_of_def)
qed

section \<open>Rolling back\<close>

lemma value_of_db: "value_of full db acc = basic full (value_of full db acc)"
  by (simp add: value_of_def basic_def)

lemma value_simps [simp]:
  "value_of full db (acc\<lparr>a_isUnchanged := u\<rparr>) = value_of full db acc"
  "value_of full db (acc\<lparr>a_nonce := n\<rparr>) = (value_of full db acc)\<lparr>v_nonce := n\<rparr>"
  "value_of full db (acc\<lparr>a_balance := w\<rparr>) = (value_of full db acc)\<lparr>v_balance := w\<rparr>"
  "v_nonce (value_of full db acc) = a_nonce acc"
  "v_balance (value_of full db acc) = a_balance acc"
  "v_alive (value_of full db acc) = a_isAlive acc"
  by (simp_all add: value_of_def basic_def fun_eq_iff split: option.split)

lemma cell_put:
  "cell full (cache_put a acc s) =
     (cell full s)(a := if acc_isDirty acc then Some (value_of full (m_db s) acc) else None)"
  by (rule ext) (simp add: cell_def cache_put_def split: option.split)

lemma cell_ref:
  "cell full s a = Some x \<Longrightarrow> \<exists>acc. m_cache s a = Some acc \<and> cache_ref a s = acc \<and> acc_isDirty acc \<and>
     x = value_of full (m_db s) acc"
  by (auto simp: cell_def cache_ref_def split: option.splits if_splits)

lemma cell_frame [simp]:
  "cell full (s\<lparr>m_unchangedCacheEntries := us\<rparr>) = cell full s"
  "cell full (s\<lparr>m_changeLog := cl\<rparr>) = cell full s"
  "cell full (s\<lparr>m_nonExistingAccountsCache := ne\<rparr>) = cell full s"
  "cell full (s\<lparr>m_codeSizes := cz\<rparr>) = cell full s"
  "cell full (s\<lparr>m_random := rn\<rparr>) = cell full s"
  by (simp_all add: cell_def fun_eq_iff split: option.splits)

text \<open>Undoing a change of an account that is dirty.\<close>

lemma undo_account_value:
  assumes "acc_isDirty acc" "\<forall>a. c \<noteq> ChTouch a" "\<forall>a. c \<noteq> ChCreate a"
    and "A (ch_address c) = Some (value_of full db acc)"
  shows "undo_cell full db c A (ch_address c) =
      map_option (\<lambda>_. value_of full db (undo_account (db_sha3 db) c acc)) (A (ch_address c))
    \<and> acc_isDirty (undo_account (db_sha3 db) c acc)"
  using assms
  by (cases c; cases full)
     (simp_all add: cell_map_def acc_defs value_of_def basic_def fun_eq_iff split: option.split)

lemma undo_cell_other: "a \<noteq> ch_address c \<Longrightarrow> undo_cell full db c A a = A a"
  by (cases c) (simp_all add: cell_map_def)

lemma undo_change_cell:
  assumes "undo_ok full (m_db s) c (cell full s)"
  shows "cell full (undo_change c s) = undo_cell full (m_db s) c (cell full s)"
proof (cases "\<exists>a. c = ChTouch a \<or> c = ChCreate a")
  case False
  then have ne: "cell full s (ch_address c) \<noteq> None" using assms by (cases c) auto
  then obtain acc where acc: "m_cache s (ch_address c) = Some acc" "cache_ref (ch_address c) s = acc"
    "acc_isDirty acc" "cell full s (ch_address c) = Some (value_of full (m_db s) acc)"
    using cell_ref by (metis not_None_eq)
  have u: "undo_change c s = cache_put (ch_address c) (undo_account (db_sha3 (m_db s)) c acc) s"
    using False acc(2) by (cases c) (simp_all add: undo_change_def st_sha3_def)
  have v: "undo_cell full (m_db s) c (cell full s) (ch_address c) =
      Some (value_of full (m_db s) (undo_account (db_sha3 (m_db s)) c acc))"
    "acc_isDirty (undo_account (db_sha3 (m_db s)) c acc)"
    using undo_account_value [where A = "cell full s" and c = c, OF acc(3) _ _ acc(4)] False acc(4) by auto
  show ?thesis
  proof
    fix a show "cell full (undo_change c s) a = undo_cell full (m_db s) c (cell full s) a"
      using v undo_cell_other [of a c] by (cases "a = ch_address c") (simp_all add: u cell_put)
  qed
next
  case True
  then show ?thesis
    by (auto simp: undo_change_def Let_def cell_put acc_defs)
      (auto simp: cell_def fun_eq_iff split: option.split)
qed

lemma undo_change_frame:
    "m_db (undo_change c s) = m_db s" "m_accountStartNonce (undo_change c s) = m_accountStartNonce s"
    "m_nonExistingAccountsCache (undo_change c s) = m_nonExistingAccountsCache s"
    "m_changeLog (undo_change c s) = m_changeLog s"
  by (auto simp: undo_change_def cache_put_def Let_def split: change.splits)

lemma undo_change_cache: "a \<noteq> ch_address c \<Longrightarrow> m_cache (undo_change c s) a = m_cache s a"
  by (cases c) (simp_all add: undo_change_def cache_put_def Let_def)

lemma undo_change_clean:
  assumes ok: "undo_ok full (m_db s) c (cell full s)"
    and clean: "\<And>a acc. m_cache s a = Some acc \<Longrightarrow> \<not> acc_isDirty acc \<Longrightarrow>
        db_account full (m_db s) a = Some (value_of full (m_db s) acc)"
    and acc: "m_cache (undo_change c s) a = Some acc" "\<not> acc_isDirty acc"
  shows "db_account full (m_db s) a = Some (value_of full (m_db s) acc)"
proof (cases "a = ch_address c")
  case False
  then show ?thesis using acc clean by (simp add: undo_change_cache)
next
  case a: True
  have "c = ChTouch a"
  proof (rule ccontr)
    assume c: "c \<noteq> ChTouch a"
    then have nt: "\<forall>a. c \<noteq> ChTouch a" using a by auto
    have nc: "\<forall>b. c \<noteq> ChCreate b" using acc(1) a by (auto simp: undo_change_def)
    have "cell full s a \<noteq> None" using ok nt nc a by (cases c) auto
    then obtain acc0 where acc0: "cache_ref a s = acc0" "acc_isDirty acc0"
      "cell full s a = Some (value_of full (m_db s) acc0)"
      using cell_ref by (metis not_None_eq)
    have "acc = undo_account (db_sha3 (m_db s)) c acc0"
      using acc(1) nt nc a acc0 by (cases c) (simp_all add: undo_change_def st_sha3_def cache_put_def)
    then show False using undo_account_value [OF acc0(2) nt nc] acc0(3) a acc(2) by auto
  qed
  moreover obtain acc0 where "cache_ref a s = acc0" "cell full s a = Some (value_of full (m_db s) acc0)"
    using ok calculation cell_ref [of full s a] by (cases "db_account full (m_db s) a") auto
  ultimately show ?thesis using ok acc(1)
    by (auto simp: undo_change_def cache_put_def acc_defs)
qed

lemma rollback_log_cells:
  assumes "log_ok full (m_db s) cs (cell full s)"
    and "\<And>a acc. m_cache s a = Some acc \<Longrightarrow> \<not> acc_isDirty acc \<Longrightarrow>
        db_account full (m_db s) a = Some (value_of full (m_db s) acc)"
  shows "cell full (rollback_log cs s) = undo_all full (m_db s) cs (cell full s) \<and>
    m_db (rollback_log cs s) = m_db s \<and> m_accountStartNonce (rollback_log cs s) = m_accountStartNonce s \<and>
    m_nonExistingAccountsCache (rollback_log cs s) = m_nonExistingAccountsCache s \<and>
    (\<forall>a acc. m_cache (rollback_log cs s) a = Some acc \<longrightarrow> \<not> acc_isDirty acc \<longrightarrow>
        db_account full (m_db s) a = Some (value_of full (m_db s) acc))"
  using assms
proof (induction cs arbitrary: s)
  case (Cons c cs)
  have ok: "undo_ok full (m_db s) c (cell full s)" using Cons.prems(1) by simp
  note u = undo_change_cell [OF ok] undo_change_frame [of c s]
  show ?case
    using Cons.IH [of "undo_change c s"] Cons.prems undo_change_clean [OF ok Cons.prems(2)] u by simp
qed simp

lemma rollback_restores:
  assumes "state_inv full s" "extends full s s'"
  shows "extends full s (rollback (savepoint s) s')" "view full (rollback (savepoint s) s') = view full s"
    "m_changeLog (rollback (savepoint s) s') = m_changeLog s"
proof -
  let ?db = "m_db s" and ?r = "rollback (savepoint s) s'"
  obtain cs where cs: "m_changeLog s' = m_changeLog s @ cs"
    "same_cells full ?db (cell full s) (undo_all full ?db (rev cs) (cell full s'))"
    using assms(2) by (auto simp: extends_def)
  have db: "m_db s' = ?db" "m_accountStartNonce s' = m_accountStartNonce s" using assms(2) by (simp_all add: extends_def)
  have ok: "log_ok full (m_db s') (rev cs) (cell full s')"
    using assms(2) cs(1) by (auto simp: extends_def state_inv_def log_ok_append)
  have clean: "\<And>a acc. m_cache s' a = Some acc \<Longrightarrow> \<not> acc_isDirty acc \<Longrightarrow>
        db_account full (m_db s') a = Some (value_of full (m_db s') acc)"
    using assms(2) by (auto simp: extends_def state_inv_def)
  note r = rollback_log_cells [OF ok clean]
  have rr: "?r = (rollback_log (rev cs) s')\<lparr>m_changeLog := m_changeLog s\<rparr>"
    using cs(1) by (simp add: rollback_def savepoint_def)
  have cell: "cell full ?r = undo_all full ?db (rev cs) (cell full s')"
    using r db by (simp add: rr)
  show log: "m_changeLog ?r = m_changeLog s" by (simp add: rr)
  show ext: "extends full s ?r"
  proof (rule extendsI [OF assms(1), where cs = "[]"])
    show "same_cells full ?db (cell full s) (undo_all full ?db (rev []) (cell full ?r))"
      using cs(2) by (simp add: cell)
  qed (use r db assms(2) in \<open>auto simp: rr extends_def state_inv_def\<close>)
  show "view full ?r = view full s"
    using same_cells_view [OF cs(2)] r db by (simp add: view_def cell) (simp add: rr)
qed

end
