(* ===== verification/StateOps.thy ===== *)
theory StateOps
  imports StateLog
begin

text \<open>
  Every operation of the state that the execution of a transaction uses, except \<open>kill\<close>, extends the
  state it starts from, whether it returns or throws.
\<close>

section \<open>Specifications of operations\<close>

definition ok :: "bool \<Rightarrow> state \<Rightarrow> 'a st \<Rightarrow> ('a \<Rightarrow> state \<Rightarrow> bool) \<Rightarrow> bool" where
  "ok full s r Q \<longleftrightarrow> (case r of Inl (e, s') \<Rightarrow> extends full s s'
     | Inr (x, s') \<Rightarrow> extends full s s' \<and> Q x s')"

lemma ok_Inr [simp]: "ok full s (Inr (x, s')) Q \<longleftrightarrow> extends full s s' \<and> Q x s'"
  by (simp add: ok_def)

lemma ok_Inl [simp]: "ok full s (Inl (e, s')) Q \<longleftrightarrow> extends full s s'"
  by (simp add: ok_def)

lemma ok_mono: "ok full s r Q \<Longrightarrow> (\<And>x s'. extends full s s' \<Longrightarrow> Q x s' \<Longrightarrow> R x s') \<Longrightarrow> ok full s r R"
  by (auto simp: ok_def split: sum.splits)

lemma ok_extends: "ok full s r Q \<Longrightarrow> (case r of Inl (e, s') \<Rightarrow> extends full s s' | Inr (x, s') \<Rightarrow> extends full s s')"
  by (auto simp: ok_def split: sum.splits)

lemma ok_bind:
  assumes "state_inv full s" "ok full s m P"
    and "\<And>x s'. state_inv full s' \<Longrightarrow> extends full s s' \<Longrightarrow> P x s' \<Longrightarrow> ok full s' (f (x, s')) Q"
  shows "ok full s (bindE m f) Q"
proof (cases m)
  case (Inl e)
  then show ?thesis using assms(2) by (cases e) simp
next
  case (Inr y)
  obtain x s' where y: "y = (x, s')" by fastforce
  have e: "extends full s s'" "P x s'" using assms(2) by (simp_all add: Inr y)
  have "ok full s' (f (x, s')) Q" using assms(3) e extends_inv by blast
  then show ?thesis using extends_trans [OF assms(1) e(1)]
    by (auto simp: Inr y ok_def split: sum.splits)
qed

section \<open>Steps that leave every value as it was\<close>

text \<open>\<open>silent\<close>: nothing is logged and no cell changes; the caches may.\<close>

definition silent :: "bool \<Rightarrow> state \<Rightarrow> state \<Rightarrow> bool" where
  "silent full s s' \<longleftrightarrow> extends full s s' \<and> cell full s' = cell full s \<and> m_changeLog s' = m_changeLog s"

lemma silent_extends: "silent full s s' \<Longrightarrow> extends full s s'"
  by (simp add: silent_def)

lemma silent_inv: "silent full s s' \<Longrightarrow> state_inv full s'"
  by (simp add: silent_def extends_def)

lemma silent_frame:
  "silent full s s' \<Longrightarrow> m_db s' = m_db s" "silent full s s' \<Longrightarrow> m_accountStartNonce s' = m_accountStartNonce s"
  "silent full s s' \<Longrightarrow> view full s' = view full s"
  by (simp_all add: silent_def extends_def view_def)

lemma silent_refl: "state_inv full s \<Longrightarrow> silent full s s"
  by (simp add: silent_def extends_refl)

lemma silent_trans: "state_inv full s \<Longrightarrow> silent full s s' \<Longrightarrow> silent full s' s'' \<Longrightarrow> silent full s s''"
  unfolding silent_def using extends_trans by metis

lemma silentI:
  assumes "state_inv full s" "cell full s' = cell full s" "m_changeLog s' = m_changeLog s"
    "m_db s' = m_db s" "m_accountStartNonce s' = m_accountStartNonce s"
    and "\<And>a acc. m_cache s' a = Some acc \<Longrightarrow> \<not> acc_isDirty acc \<Longrightarrow>
        db_account full (m_db s) a = Some (value_of full (m_db s) acc)"
    and "\<And>a. a \<in> m_nonExistingAccountsCache s' \<Longrightarrow> db_at (m_db s) a = []"
  shows "silent full s s'"
  using extendsI [OF assms(1,4,5,6,7), where cs = "[]"] assms(2,3) by (simp add: silent_def)

lemma inv_clean:
  "state_inv full s \<Longrightarrow> m_cache s a = Some acc \<Longrightarrow> \<not> acc_isDirty acc \<Longrightarrow>
     db_account full (m_db s) a = Some (value_of full (m_db s) acc)"
  by (auto simp: state_inv_def)

lemma inv_none: "state_inv full s \<Longrightarrow> a \<in> m_nonExistingAccountsCache s \<Longrightarrow> db_at (m_db s) a = []"
  by (auto simp: state_inv_def)

lemma clear_frame:
  "m_db (clearCacheIfTooLarge s) = m_db s"
  "m_accountStartNonce (clearCacheIfTooLarge s) = m_accountStartNonce s"
  "m_changeLog (clearCacheIfTooLarge s) = m_changeLog s"
  "m_nonExistingAccountsCache (clearCacheIfTooLarge s) = m_nonExistingAccountsCache s"
  by (induction s rule: clearCacheIfTooLarge.induct; subst clearCacheIfTooLarge.simps;
      simp add: draw_def Let_def)+

lemma clear_cache:
  "m_cache (clearCacheIfTooLarge s) a = m_cache s a \<or>
   (\<exists>acc. m_cache s a = Some acc \<and> \<not> acc_isDirty acc \<and> m_cache (clearCacheIfTooLarge s) a = None)"
proof (induction s rule: clearCacheIfTooLarge.induct)
  case (1 s)
  show ?case
  proof (cases "length (m_unchangedCacheEntries s) > 1000")
    case False
    then show ?thesis by (subst clearCacheIfTooLarge.simps) simp
  next
    case True
    let ?us = "m_unchangedCacheEntries s" let ?addr = "?us ! (m_random s 0 mod length ?us)"
    let ?c = "case m_cache s ?addr of Some acc \<Rightarrow> if \<not> acc_isDirty acc then (m_cache s)(?addr := None) else m_cache s
                     | None \<Rightarrow> m_cache s"
    have c: "?c a = m_cache s a \<or> (\<exists>acc. m_cache s a = Some acc \<and> \<not> acc_isDirty acc \<and> ?c a = None)"
      by (auto split: option.split)
    show ?thesis
      using 1 [OF True draw_def [symmetric] refl refl refl refl refl] c True
      by (subst (1 2) clearCacheIfTooLarge.simps) (auto simp: draw_def Let_def)
  qed
qed

lemma clear_silent: "state_inv full s \<Longrightarrow> silent full s (clearCacheIfTooLarge s)"
proof (rule silentI)
  assume inv: "state_inv full s"
  show "cell full (clearCacheIfTooLarge s) = cell full s"
  proof
    fix a show "cell full (clearCacheIfTooLarge s) a = cell full s a"
      using clear_cache [of s a] by (cases "m_cache s a") (auto simp: cell_def clear_frame)
  qed
  show "\<And>a acc. m_cache (clearCacheIfTooLarge s) a = Some acc \<Longrightarrow> \<not> acc_isDirty acc \<Longrightarrow>
      db_account full (m_db s) a = Some (value_of full (m_db s) acc)"
    using clear_cache [of s] inv_clean [OF inv] by (metis option.simps(3))
qed (simp_all add: clear_frame inv_none)

text \<open>Putting an account with the value it has.\<close>

lemma put_silent:
  assumes "state_inv full s" "m_cache s a = Some acc" "acc_isDirty acc' = acc_isDirty acc"
    "value_of full (m_db s) acc' = value_of full (m_db s) acc"
  shows "silent full s (cache_put a acc' s)"
proof (rule silentI [OF assms(1)])
  show "cell full (cache_put a acc' s) = cell full s"
    using assms(2-) by (auto simp: cell_put cell_def)
  show "\<And>b x. m_cache (cache_put a acc' s) b = Some x \<Longrightarrow> \<not> acc_isDirty x \<Longrightarrow>
      db_account full (m_db s) b = Some (value_of full (m_db s) x)"
    using assms inv_clean [OF assms(1)] by (auto simp: cache_put_def split: if_splits)
qed (use inv_none [OF assms(1)] in \<open>auto simp: cache_put_def\<close>)

lemma csc_store_frame:
  "m_db (csc_store h n s) = m_db s" "m_cache (csc_store h n s) = m_cache s"
  "m_accountStartNonce (csc_store h n s) = m_accountStartNonce s"
  "m_changeLog (csc_store h n s) = m_changeLog s"
  "m_nonExistingAccountsCache (csc_store h n s) = m_nonExistingAccountsCache s"
  by (simp_all add: csc_store_def draw_def Let_def)

lemma cell_cong: "m_cache s' = m_cache s \<Longrightarrow> m_db s' = m_db s \<Longrightarrow> cell full s' = cell full s"
  by (simp add: cell_def fun_eq_iff split: option.split)

lemma csc_silent: "state_inv full s \<Longrightarrow> silent full s (csc_store h n s)"
  by (rule silentI) (auto simp: csc_store_frame inv_none inv_clean intro: cell_cong)

section \<open>Accounts\<close>

text \<open>What \<open>account\<close> finds.\<close>

definition found :: "bool \<Rightarrow> u160 \<Rightarrow> account option \<Rightarrow> state \<Rightarrow> bool" where
  "found full a r s \<longleftrightarrow> m_cache s a = r \<and> (r = None \<longrightarrow> db_at (m_db s) a = []) \<and>
     view full s a = map_option (value_of full (m_db s)) r"

lemma found_cache:
  assumes "state_inv full s" "m_cache s a = Some x"
  shows "found full a (Some x) s"
  using assms inv_clean [OF assms] by (auto simp: found_def view_def view_of_def cell_def)

lemma account_ok:
  assumes inv: "state_inv full s"
  shows "ok full s (st_account a s) (\<lambda>r s'. silent full s s' \<and> found full a r s')"
proof (cases "m_cache s a")
  case (Some x)
  then show ?thesis
    using found_cache [OF inv] silent_refl [OF inv] by (simp add: st_account_def silent_extends)
next
  case None
  then have cellN: "cell full s a = None" by (simp add: cell_def)
  show ?thesis
  proof (cases "db_at (m_db s) a = []")
    case True
    then have found: "found full a None s"
      using None cellN by (simp add: found_def view_def view_of_def db_account_def)
    have "silent full s (s\<lparr>m_nonExistingAccountsCache := insert a (m_nonExistingAccountsCache s)\<rparr>)"
      by (rule silentI [OF inv]) (use True in \<open>auto simp: inv_none [OF inv] inv_clean [OF inv]\<close>)
    then show ?thesis
      using True None found silent_refl [OF inv]
      by (auto simp: st_account_def silent_extends found_def view_def)
  next
    case False
    then have ne: "a \<notin> m_nonExistingAccountsCache s" using inv_none [OF inv] by auto
    let ?s = "clearCacheIfTooLarge s"
    have sil: "silent full s ?s" by (rule clear_silent [OF inv])
    show ?thesis
    proof (cases "account_decode (st_sha3 s) (db_at (m_db s) a)")
      case (Inl e)
      then show ?thesis
        using None False ne sil by (simp add: st_account_def st_lift_def silent_extends)
    next
      case (Inr x)
      have clean: "\<not> acc_isDirty x"
        using Inr by (auto simp: account_decode_def exn_simps acc_isDirty_def account_full_def split: prod.splits)
      have db: "db_account full (m_db s) a = Some (value_of full (m_db s) x)"
        using Inr False by (simp add: db_account_def st_sha3_def)
      let ?t = "(cache_put a x ?s)\<lparr>m_unchangedCacheEntries := m_unchangedCacheEntries ?s @ [a]\<rparr>"
      have None': "m_cache ?s a = None" using clear_cache [of s a] None by auto
      have "silent full ?s ?t"
      proof (rule silentI [OF silent_inv [OF sil]])
        show "cell full ?t = cell full ?s"
          using None' clean by (simp add: cell_put fun_upd_idem_iff) (simp add: cell_def)
        show "\<And>b y. m_cache ?t b = Some y \<Longrightarrow> \<not> acc_isDirty y \<Longrightarrow>
            db_account full (m_db ?s) b = Some (value_of full (m_db ?s) y)"
          using db inv_clean [OF silent_inv [OF sil]] by (auto simp: cache_put_def clear_frame split: if_splits)
      qed (use inv_none [OF silent_inv [OF sil]] in \<open>auto simp: cache_put_def\<close>)
      then have t: "silent full s ?t" by (rule silent_trans [OF inv sil])
      have "found full a (Some x) ?t"
        by (rule found_cache [OF silent_inv [OF t]]) (simp add: cache_put_def)
      then show ?thesis
        using None False ne Inr t by (simp add: st_account_def st_lift_def silent_extends Let_def)
    qed
  qed
qed

text \<open>A query: the state is as before, the answer is that of the view.\<close>

lemma account_bind:
  assumes inv: "state_inv full s"
    and f: "\<And>r s'. silent full s s' \<Longrightarrow> state_inv full s' \<Longrightarrow> found full a r s' \<Longrightarrow> ok full s' (f (r, s')) Q"
  shows "ok full s (bindE (st_account a s) f) Q"
  by (rule ok_bind [OF inv account_ok [OF inv]]) (use f in auto)

lemma query_ok:
  assumes inv: "state_inv full s"
  shows "ok full s (st_query a f d s)
    (\<lambda>x s'. silent full s s' \<and> (\<exists>r. found full a r s' \<and> x = (case r of Some y \<Rightarrow> f y | None \<Rightarrow> d)))"
  unfolding st_query_def
  by (rule account_bind [OF inv]) (auto simp: extends_refl intro!: exI)

lemma query_value:
  assumes "found full a r s" "\<And>y. f y = g (value_of full (m_db s) y)"
  shows "(case r of Some y \<Rightarrow> f y | None \<Rightarrow> d) = (case view full s a of Some v \<Rightarrow> g v | None \<Rightarrow> d)"
  using assms by (cases r) (auto simp: found_def)

section \<open>Changes of an account\<close>

text \<open>A logged change of an account that exists, from \<open>x\<close> to \<open>y\<close>.\<close>

lemma change_ok:
  assumes inv: "state_inv full s" and x: "m_cache s a = Some x" and y: "acc_isDirty y"
    and c: "ch_address c = a" "\<forall>a. c \<noteq> ChTouch a" "\<forall>a. c \<noteq> ChCreate a"
    and undo: "undo_cell full (m_db s) c ((cell full s)(a \<mapsto> value_of full (m_db s) y)) a =
      Some (value_of full (m_db s) x)"
  shows "extends full s (st_log c (cache_put a y s))"
proof (rule extendsI [OF inv, where cs = "[c]"])
  let ?B = "(cell full s)(a \<mapsto> value_of full (m_db s) y)"
  have B: "cell full (st_log c (cache_put a y s)) = ?B"
    using y by (simp add: st_log_def cell_put)
  show "log_ok full (m_db s) (rev [c]) (cell full (st_log c (cache_put a y s)))"
    unfolding B using c by (cases c) simp_all
  have U: "undo_cell full (m_db s) c ?B = (cell full s)(a \<mapsto> value_of full (m_db s) x)"
    using undo undo_cell_other [of _ c] c(1) by (auto simp: fun_eq_iff)
  show "same_cells full (m_db s) (cell full s)
      (undo_all full (m_db s) (rev [c]) (cell full (st_log c (cache_put a y s))))"
    using x inv_clean [OF inv x] by (auto simp: B U same_cells_def cell_def)
  show "\<And>b z. m_cache (st_log c (cache_put a y s)) b = Some z \<Longrightarrow> \<not> acc_isDirty z \<Longrightarrow>
      db_account full (m_db s) b = Some (value_of full (m_db s) z)"
    using y inv_clean [OF inv] by (auto simp: st_log_def cache_put_def split: if_splits)
qed (use inv_none [OF inv] in \<open>auto simp: st_log_def cache_put_def\<close>)

text \<open>Marking an account as changed; \<open>addBalance\<close> logs it for an empty one.\<close>

lemma touch_ok:
  assumes inv: "state_inv full s" and x: "m_cache s a = Some x"
  shows "extends full s (cache_put a (acc_changed x) s)"
    "\<not> acc_isDirty x \<Longrightarrow> extends full s (cache_put a (acc_changed x) (st_log (ChTouch a) s))"
proof -
  let ?v = "value_of full (m_db s) x"
  have dirty: "acc_isDirty (acc_changed x)" "value_of full (m_db s) (acc_changed x) = ?v"
    by (simp_all add: acc_defs)
  have cl: "m_cache (cache_put a (acc_changed x) s) b = Some z \<Longrightarrow> \<not> acc_isDirty z \<Longrightarrow>
      db_account full (m_db s) b = Some (value_of full (m_db s) z)" for b z
    using dirty(1) inv_clean [OF inv] by (auto simp: cache_put_def split: if_splits)
  have "cell full s a = Some ?v \<or> cell full s a = None \<and> db_account full (m_db s) a = Some ?v"
    using x inv_clean [OF inv x] by (auto simp: cell_def)
  then have "same_cells full (m_db s) (cell full s) ((cell full s)(a \<mapsto> ?v))"
    by (auto simp: same_cells_def)
  then show "extends full s (cache_put a (acc_changed x) s)"
    by (intro extendsI [OF inv, where cs = "[]"])
      (use dirty cl inv_none [OF inv] in \<open>auto simp: cell_put\<close>, auto simp: cache_put_def)
  assume d: "\<not> acc_isDirty x"
  have N: "cell full s a = None" using d x by (simp add: cell_def)
  let ?t = "cache_put a (acc_changed x) (st_log (ChTouch a) s)"
  have C: "cell full ?t = (cell full s)(a \<mapsto> ?v)" using dirty by (simp add: cell_put st_log_def)
  show "extends full s ?t"
  proof (rule extendsI [OF inv, where cs = "[ChTouch a]"])
    show "log_ok full (m_db s) (rev [ChTouch a]) (cell full ?t)"
      using inv_clean [OF inv x d] by (simp add: C)
    show "same_cells full (m_db s) (cell full s) (undo_all full (m_db s) (rev [ChTouch a]) (cell full ?t))"
      using N by (simp add: C fun_upd_idem)
  qed (use cl inv_none [OF inv] in \<open>auto simp: st_log_def cache_put_def\<close>)
qed

lemma create_ok:
  assumes inv: "state_inv full s" and N: "m_cache s a = None" "db_at (m_db s) a = []" and acc: "acc_isDirty acc"
  shows "extends full s (createAccount a acc s)"
proof (rule extendsI [OF inv, where cs = "[ChCreate a]"])
  have C: "cell full (createAccount a acc s) = (cell full s)(a \<mapsto> value_of full (m_db s) acc)"
    using acc by (simp add: createAccount_def st_log_def cell_put)
  show "log_ok full (m_db s) (rev [ChCreate a]) (cell full (createAccount a acc s))"
    using N by simp
  have "cell full s a = None" using N by (simp add: cell_def)
  then show "same_cells full (m_db s) (cell full s)
      (undo_all full (m_db s) (rev [ChCreate a]) (cell full (createAccount a acc s)))"
    by (simp add: C fun_upd_idem)
  show "\<And>b z. m_cache (createAccount a acc s) b = Some z \<Longrightarrow> \<not> acc_isDirty z \<Longrightarrow>
      db_account full (m_db s) b = Some (value_of full (m_db s) z)"
    using acc inv_clean [OF inv] by (auto simp: createAccount_def st_log_def cache_put_def split: if_splits)
qed (use inv_none [OF inv] in \<open>auto simp: createAccount_def st_log_def cache_put_def\<close>)

section \<open>Operations\<close>

lemma cache_put_frame [simp]:
  "m_db (cache_put a x s) = m_db s" "m_changeLog (cache_put a x s) = m_changeLog s"
  "m_accountStartNonce (cache_put a x s) = m_accountStartNonce s"
  "m_nonExistingAccountsCache (cache_put a x s) = m_nonExistingAccountsCache s"
  "m_cache (cache_put a x s) = (m_cache s)(a \<mapsto> x)"
  by (simp_all add: cache_put_def)

lemma view_put: "acc_isDirty y \<Longrightarrow> view full (cache_put a y s) = (view full s)(a \<mapsto> value_of full (m_db s) y)"
  by (simp add: view_def view_of_def cell_put fun_eq_iff)

lemma view_log [simp]: "view full (st_log c s) = view full s"
  by (simp add: view_def st_log_def)

lemma view_create: "acc_isDirty y \<Longrightarrow>
    view full (createAccount a y s) = (view full s)(a \<mapsto> value_of full (m_db s) y)"
  by (simp add: createAccount_def view_put [symmetric]) (simp add: view_def cache_put_def)

lemma acc_dirty [simp]:
  "acc_isDirty (account_make sha3 n b Changed)" "acc_isDirty (acc_changed x)" "acc_isDirty (acc_setNonce n x)"
  "acc_isDirty (acc_incNonce x)" "acc_isDirty (acc_addBalance w x)" "acc_isDirty (acc_setStorage k w x)"
  "acc_isDirty (acc_clearStorage sha3 x)"
  by (simp_all add: acc_defs account_make_def account_dead_def)

definition fresh :: "bool \<Rightarrow> state_db \<Rightarrow> u256 \<Rightarrow> u256 \<Rightarrow> account_value" where
  "fresh full db n b = value_of full db (account_make (db_sha3 db) n b Changed)"

lemma requireStart_ok:
  "state_inv full s \<Longrightarrow> ok full s (requireAccountStartNonce s) (\<lambda>n s'. s' = s \<and> n = m_accountStartNonce s)"
  by (simp add: requireAccountStartNonce_def extends_refl)

lemma setNonce_ok:
  assumes inv: "state_inv full s"
  shows "ok full s (st_setNonce a n s) (\<lambda>_ s'. view full s' = (view full s)
    (a \<mapsto> case view full s a of Some v \<Rightarrow> v\<lparr>v_nonce := n\<rparr> | None \<Rightarrow> fresh full (m_db s) n 0))"
  unfolding st_setNonce_def
proof (rule account_bind [OF inv])
  fix r s'
  assume s': "silent full s s'" "state_inv full s'" "found full a r s'"
  note f = silent_frame [OF s'(1)]
  show "ok full s' (case (r, s') of (acc, s) \<Rightarrow>
     case acc of
       Some x \<Rightarrow> Inr ((), st_log (ChNonce a (a_nonce x)) (cache_put a (acc_setNonce n x) s))
     | None \<Rightarrow> Inr ((), createAccount a (account_make (st_sha3 s) n 0 Changed) s))
     (\<lambda>_ s'. view full s' = (view full s)
      (a \<mapsto> case view full s a of Some v \<Rightarrow> v\<lparr>v_nonce := n\<rparr> | None \<Rightarrow> fresh full (m_db s) n 0))"
  proof (cases r)
    case (Some x)
    have "extends full s' (st_log (ChNonce a (a_nonce x)) (cache_put a (acc_setNonce n x) s'))"
      by (rule change_ok [OF s'(2)]) (use s'(3) Some in \<open>auto simp: found_def cell_map_def acc_defs\<close>)
    then show ?thesis using s'(3) f Some
      by (simp add: found_def view_put) (simp add: acc_defs)
  next
    case None
    then show ?thesis using s'(3) f create_ok [OF s'(2)]
      by (simp add: found_def view_create fresh_def st_sha3_def)
  qed
qed

lemma incNonce_ok:
  assumes inv: "state_inv full s"
  shows "ok full s (incNonce a s) (\<lambda>_ s'. view full s' = (view full s)
    (a \<mapsto> case view full s a of Some v \<Rightarrow> v\<lparr>v_nonce := v_nonce v + 1\<rparr>
         | None \<Rightarrow> fresh full (m_db s) (m_accountStartNonce s + 1) 0))"
  unfolding incNonce_def
proof (rule account_bind [OF inv])
  fix r s'
  assume s': "silent full s s'" "state_inv full s'" "found full a r s'"
  note f = silent_frame [OF s'(1)]
  show "ok full s' (case (r, s') of (acc, s) \<Rightarrow>
     case acc of
       Some x \<Rightarrow> Inr ((), st_log (ChNonce a (a_nonce x)) (cache_put a (acc_incNonce x) s))
     | None \<Rightarrow> bindE (requireAccountStartNonce s) (\<lambda>(n, s).
         Inr ((), createAccount a (account_make (st_sha3 s) (n + 1) 0 Changed) s)))
     (\<lambda>_ s'. view full s' = (view full s)
      (a \<mapsto> case view full s a of Some v \<Rightarrow> v\<lparr>v_nonce := v_nonce v + 1\<rparr>
         | None \<Rightarrow> fresh full (m_db s) (m_accountStartNonce s + 1) 0))"
  proof (cases r)
    case (Some x)
    have "extends full s' (st_log (ChNonce a (a_nonce x)) (cache_put a (acc_incNonce x) s'))"
      by (rule change_ok [OF s'(2)]) (use s'(3) Some in \<open>auto simp: found_def cell_map_def acc_defs\<close>)
    then show ?thesis using s'(3) f Some
      by (simp add: found_def view_put) (simp add: acc_defs)
  next
    case None
    then show ?thesis using s'(3) f create_ok [OF s'(2)] extends_refl [OF s'(2)]
      by (simp add: requireAccountStartNonce_def found_def view_create fresh_def st_sha3_def)
  qed
qed

lemma addBalance_ok:
  assumes inv: "state_inv full s"
  shows "ok full s (addBalance a w s) (\<lambda>_ s'. view full s' = (view full s)
    (a \<mapsto> case view full s a of Some v \<Rightarrow> v\<lparr>v_balance := v_balance v + w\<rparr>
         | None \<Rightarrow> fresh full (m_db s) (m_accountStartNonce s) w))"
  unfolding addBalance_def bindE_assoc
proof (rule account_bind [OF inv])
  fix r s'
  assume s': "silent full s s'" "state_inv full s'" "found full a r s'"
  note f = silent_frame [OF s'(1)]
  let ?Q = "\<lambda>_ s'. view full s' = (view full s)
    (a \<mapsto> case view full s a of Some v \<Rightarrow> v\<lparr>v_balance := v_balance v + w\<rparr>
         | None \<Rightarrow> fresh full (m_db s) (m_accountStartNonce s) w)"
  show "ok full s' (bindE (case (r, s') of (acc, s) \<Rightarrow>
       case acc of
         Some x \<Rightarrow>
           let s = (if \<not> acc_isDirty x \<and> acc_isEmpty (st_sha3 s) x then st_log (ChTouch a) s else s)
           in Inr ((), cache_put a (acc_addBalance w x) s)
       | None \<Rightarrow> bindE (requireAccountStartNonce s) (\<lambda>(n, s).
           Inr ((), createAccount a (account_make (st_sha3 s) n w Changed) s)))
     (\<lambda>(_, s). Inr ((), if w \<noteq> 0 then st_log (ChBalance a w) s else s))) ?Q"
  proof (cases r)
    case (Some x)
    define t where "t = (if \<not> acc_isDirty x \<and> acc_isEmpty (st_sha3 s') x then st_log (ChTouch a) s' else s')"
    have x: "m_cache s' a = Some x" using s'(3) Some by (simp add: found_def)
    have t: "extends full s' (cache_put a (acc_changed x) t)"
      using touch_ok [OF s'(2) x] by (simp add: t_def)
    have tf: "m_db t = m_db s'" "view full t = view full s'" by (simp_all add: t_def) (simp add: st_log_def)
    have e: "extends full s' (if w \<noteq> 0 then st_log (ChBalance a w) (cache_put a (acc_addBalance w x) t)
        else cache_put a (acc_addBalance w x) t)"
    proof (cases "w = 0")
      case True
      then show ?thesis using t by (simp add: acc_addBalance_def)
    next
      case False
      have p: "cache_put a (acc_addBalance w x) t =
          cache_put a (acc_addBalance w x) (cache_put a (acc_changed x) t)"
        by (simp add: cache_put_def)
      have "extends full (cache_put a (acc_changed x) t)
        (st_log (ChBalance a w) (cache_put a (acc_addBalance w x) (cache_put a (acc_changed x) t)))"
        by (rule change_ok [OF extends_inv [OF t], where x = "acc_changed x"])
          (auto simp: cache_put_def cell_map_def acc_defs)
      from extends_trans [OF s'(2) t this] show ?thesis using False p by simp
    qed
    have v: "view full (cache_put a (acc_addBalance w x) t) = (view full s)
        (a \<mapsto> (value_of full (m_db s) x)\<lparr>v_balance := a_balance x + w\<rparr>)"
      using tf f by (simp add: view_put) (simp add: acc_defs)
    show ?thesis using e v s'(3) f Some
      by (auto simp: found_def t_def [symmetric])
  next
    case None
    let ?c = "createAccount a (account_make (st_sha3 s') (m_accountStartNonce s') w Changed) s'"
    have N: "m_cache s' a = None" "db_at (m_db s') a = []" using s'(3) None by (auto simp: found_def)
    have e0: "extends full s' ?c" by (rule create_ok [OF s'(2) N]) simp
    have e: "extends full s' (st_log (ChBalance a w) ?c)"
    proof -
      have inv': "state_inv full ?c" using e0 by (rule extends_inv)
      let ?x = "account_make (st_sha3 s') (m_accountStartNonce s') w Changed"
      show ?thesis
      proof (rule extendsI [OF s'(2), where cs = "[ChCreate a, ChBalance a w]"])
        have C: "cell full (st_log (ChBalance a w) ?c) = (cell full s')(a \<mapsto> value_of full (m_db s') ?x)"
          by (simp add: createAccount_def st_log_def cell_put)
        have "cell full s' a = None" using N by (simp add: cell_def)
        then show "same_cells full (m_db s') (cell full s') (undo_all full (m_db s')
            (rev [ChCreate a, ChBalance a w]) (cell full (st_log (ChBalance a w) ?c)))"
          by (simp add: C cell_map_def fun_upd_idem)
        show "log_ok full (m_db s') (rev [ChCreate a, ChBalance a w]) (cell full (st_log (ChBalance a w) ?c))"
          using N by (simp add: C)
      qed (use inv_clean [OF inv'] inv_none [OF inv'] in
          \<open>auto simp: st_log_def createAccount_def cache_put_def\<close>)
    qed
    show ?thesis using e e0 s'(3) f None
      by (auto simp: requireAccountStartNonce_def found_def view_create fresh_def st_sha3_def
          intro: extends_refl [OF s'(2)])
  qed
qed

lemma subBalance_ok:
  assumes inv: "state_inv full s"
  shows "ok full s (subBalance a w s) (\<lambda>_ s'. if w = 0 then s' = s else
    (\<exists>v. view full s a = Some v \<and> w \<le> v_balance v \<and>
      view full s' = (view full s)(a \<mapsto> v\<lparr>v_balance := v_balance v - w\<rparr>)))"
proof (cases "w = 0")
  case True
  then show ?thesis by (simp add: subBalance_def extends_refl [OF inv])
next
  case False
  show ?thesis
    unfolding subBalance_def if_not_P [OF False]
  proof (rule account_bind [OF inv])
    fix r s'
    assume s': "silent full s s'" "state_inv full s'" "found full a r s'"
    show "ok full s' (case (r, s') of (acc, s) \<Rightarrow>
        case acc of
          None \<Rightarrow> Inl (NotEnoughCash, s)
        | Some x \<Rightarrow> if a_balance x < w then Inl (NotEnoughCash, s) else addBalance a (0 - w) s)
      (\<lambda>_ s'. \<exists>v. view full s a = Some v \<and> w \<le> v_balance v \<and>
        view full s' = (view full s)(a \<mapsto> v\<lparr>v_balance := v_balance v - w\<rparr>))"
    proof (cases r)
      case (Some x)
      have v: "view full s a = Some (value_of full (m_db s') x)"
        using s' Some silent_frame [OF s'(1)] by (simp add: found_def)
      show ?thesis
        using Some v extends_refl [OF s'(2)] silent_frame [OF s'(1)] addBalance_ok [OF s'(2), of a "0 - w"]
        by (auto elim!: ok_mono)
    qed (use extends_refl [OF s'(2)] in simp)
  qed
qed

lemma setBalance_ok:
  assumes inv: "state_inv full s"
  shows "ok full s (setBalance a w s) (\<lambda>_ s'. view full s' = (view full s)
    (a \<mapsto> case view full s a of Some v \<Rightarrow> v\<lparr>v_balance := w\<rparr> | None \<Rightarrow> fresh full (m_db s) (m_accountStartNonce s) w))"
  unfolding setBalance_def
proof (rule account_bind [OF inv])
  fix r s'
  assume s': "silent full s s'" "state_inv full s'" "found full a r s'"
  let ?w = "w - (case r of Some x \<Rightarrow> a_balance x | None \<Rightarrow> 0)"
  note f = silent_frame [OF s'(1)]
  have "ok full s' (addBalance a ?w s') (\<lambda>_ s'. view full s' = (view full s)
    (a \<mapsto> case view full s a of Some v \<Rightarrow> v\<lparr>v_balance := w\<rparr> | None \<Rightarrow> fresh full (m_db s) (m_accountStartNonce s) w))"
    using addBalance_ok [OF s'(2), of a ?w] s'(3) f
    by (cases r) (auto simp: found_def elim!: ok_mono)
  then show "ok full s' (case (r, s') of (acc, s) \<Rightarrow> addBalance a (w - (case acc of Some x \<Rightarrow> a_balance x | None \<Rightarrow> 0)) s)
      (\<lambda>_ s'. view full s' = (view full s)
    (a \<mapsto> case view full s a of Some v \<Rightarrow> v\<lparr>v_balance := w\<rparr> | None \<Rightarrow> fresh full (m_db s) (m_accountStartNonce s) w))"
    by simp
qed

text \<open>The view after a payment.\<close>

definition credit :: "bool \<Rightarrow> state \<Rightarrow> u160 \<Rightarrow> u256 \<Rightarrow> cells \<Rightarrow> cells" where
  "credit full s a w A = A(a \<mapsto> case A a of Some v \<Rightarrow> v\<lparr>v_balance := v_balance v + w\<rparr>
     | None \<Rightarrow> fresh full (m_db s) (m_accountStartNonce s) w)"

definition debit :: "u160 \<Rightarrow> u256 \<Rightarrow> cells \<Rightarrow> cells" where
  "debit a w A = (if w = 0 then A else A(a := map_option (\<lambda>v. v\<lparr>v_balance := v_balance v - w\<rparr>) (A a)))"

lemma transferBalance_ok:
  assumes inv: "state_inv full s"
  shows "ok full s (transferBalance src dst w s) (\<lambda>_ s'.
    (w \<noteq> 0 \<longrightarrow> (\<exists>v. view full s src = Some v \<and> w \<le> v_balance v)) \<and>
    view full s' = credit full s dst w (debit src w (view full s)))"
  unfolding transferBalance_def
proof (rule ok_bind [OF inv subBalance_ok [OF inv]])
  fix u s'
  assume s': "state_inv full s'" "extends full s s'"
    "if w = 0 then s' = s else \<exists>v. view full s src = Some v \<and> w \<le> v_balance v \<and>
      view full s' = (view full s)(src \<mapsto> v\<lparr>v_balance := v_balance v - w\<rparr>)"
  have "view full s' = debit src w (view full s)"
    using s'(3) by (auto simp: debit_def split: if_splits)
  moreover have "m_db s' = m_db s" "m_accountStartNonce s' = m_accountStartNonce s"
    using s'(2) by (auto simp: extends_def)
  moreover from this have "credit full s' dst w A = credit full s dst w A" for A
    by (auto simp: credit_def split: option.split)
  ultimately show "ok full s' (case (u, s') of (_, s) \<Rightarrow> addBalance dst w s) (\<lambda>_ s'.
    (w \<noteq> 0 \<longrightarrow> (\<exists>v. view full s src = Some v \<and> w \<le> v_balance v)) \<and>
    view full s' = credit full s dst w (debit src w (view full s)))"
    using addBalance_ok [OF s'(1), of dst w, folded credit_def] s'(3)
    by (auto split: if_splits elim!: ok_mono)
qed

lemma createContract_ok:
  assumes inv: "state_inv full s" and "m_cache s a = None" "db_at (m_db s) a = []"
  shows "ok full s (createContract a s) (\<lambda>_ s'. view full s' = (view full s)
    (a \<mapsto> fresh full (m_db s) (m_accountStartNonce s) 0))"
  using assms create_ok [OF assms]
  by (simp add: createContract_def requireAccountStartNonce_def extends_refl [OF inv] view_create fresh_def st_sha3_def)

section \<open>Code and storage\<close>

lemma basic_simps [simp]:
  "v_nonce (basic full v) = v_nonce v" "v_balance (basic full v) = v_balance v"
  "v_alive (basic full v) = v_alive v" "basic full (basic full v) = basic full v"
  "full \<Longrightarrow> basic full v = v"
  by (simp_all add: basic_def)

lemma value_overlay:
  "value_of full db (x\<lparr>a_storageOverlay := (a_storageOverlay x)(k \<mapsto> w)\<rparr>) =
     basic full ((value_of full db x)\<lparr>v_storage := (v_storage (value_of full db x))(k := w)\<rparr>)"
  by (cases full) (auto simp: value_of_def basic_def fun_eq_iff split: option.split)

lemma basic_storage_same:
  "(full \<Longrightarrow> v_storage (value_of full db x) k = w) \<Longrightarrow>
     basic full ((value_of full db x)\<lparr>v_storage := (v_storage (value_of full db x))(k := w)\<rparr>) = value_of full db x"
  by (cases full) (auto simp: value_of_def basic_def fun_eq_iff)

lemma basic_storage_undo:
  "(full \<Longrightarrow> v_storage (value_of full db x) k = w) \<Longrightarrow>
     basic full ((basic full ((value_of full db x)\<lparr>v_storage := (v_storage (value_of full db x))(k := w')\<rparr>))
       \<lparr>v_storage := (v_storage (basic full ((value_of full db x)
           \<lparr>v_storage := (v_storage (value_of full db x))(k := w')\<rparr>)))(k := w)\<rparr>) = value_of full db x"
  by (cases full) (auto simp: value_of_def basic_def fun_eq_iff)

lemma storage_ok:
  assumes inv: "state_inv full s"
  shows "ok full s (st_storage a k s) (\<lambda>x s'. silent full s s' \<and> (\<exists>r. found full a r s') \<and>
    (full \<longrightarrow> x = (case view full s a of Some v \<Rightarrow> v_storage v k | None \<Rightarrow> 0)))"
  unfolding st_storage_def
proof (rule account_bind [OF inv])
  fix r s'
  assume s': "silent full s s'" "state_inv full s'" "found full a r s'"
  note f = silent_frame [OF s'(1)]
  let ?Q = "\<lambda>x s''. silent full s s'' \<and> (\<exists>r. found full a r s'') \<and>
    (full \<longrightarrow> x = (case view full s a of Some v \<Rightarrow> v_storage v k | None \<Rightarrow> 0))"
  show "ok full s' (case (r, s') of (acc, s) \<Rightarrow>
     case acc of
       None \<Rightarrow> Inr (0, s)
     | Some x \<Rightarrow>
         (case a_storageOverlay x k of
            Some v \<Rightarrow> Inr (v, s)
          | None \<Rightarrow>
              bindE (st_lift (storage_decode (db_storage (m_db s) (a_storageRoot x) k)) s) (\<lambda>(ret, s).
                Inr (ret, cache_put a (acc_setStorageCache k ret x) s)))) ?Q"
  proof (cases r)
    case None
    then show ?thesis using s' f extends_refl [OF s'(2)] by (auto simp: found_def)
  next
    case (Some x)
    have x: "m_cache s' a = Some x" and v: "view full s a = Some (value_of full (m_db s) x)"
      using s'(3) Some f by (simp_all add: found_def)
    show ?thesis
    proof (cases "a_storageOverlay x k")
      case (Some w)
      then show ?thesis using s' \<open>r = Some x\<close> v extends_refl [OF s'(2)]
        by (auto simp: value_of_def)
    next
      case None
      show ?thesis
      proof (cases "storage_decode (db_storage (m_db s') (a_storageRoot x) k)")
        case (Inl e)
        then show ?thesis using None \<open>r = Some x\<close> extends_refl [OF s'(2)] by (simp add: st_lift_def)
      next
        case (Inr w)
        let ?y = "acc_setStorageCache k w x"
        have w: "db_value (m_db s') (a_storageRoot x) k = w" using Inr by (simp add: db_value_def)
        have "value_of full (m_db s') ?y = value_of full (m_db s') x"
          unfolding acc_setStorageCache_def value_overlay
          by (rule basic_storage_same) (use None w in \<open>simp add: value_of_def\<close>)
        then have p: "silent full s' (cache_put a ?y s')"
          by (intro put_silent [OF s'(2) x]) (simp_all add: acc_defs)
        moreover have "found full a (Some ?y) (cache_put a ?y s')"
          by (rule found_cache [OF silent_inv [OF p]]) simp
        ultimately show ?thesis
          using Inr None \<open>r = Some x\<close> v w f silent_trans [OF inv s'(1)]
          by (auto simp: st_lift_def silent_extends value_of_def)
      qed
    qed
  qed
qed

lemma found_exists: "found full a r s \<Longrightarrow> view full s a \<noteq> None \<Longrightarrow> \<exists>x. r = Some x \<and> m_cache s a = Some x"
  by (cases r) (auto simp: found_def)

lemma setStorage_ok:
  assumes inv: "state_inv full s" and ex: "view full s a \<noteq> None"
  shows "ok full s (setStorage a k w s) (\<lambda>_ s'. \<exists>v. view full s a = Some v \<and>
    view full s' = (view full s)(a \<mapsto> basic full (v\<lparr>v_storage := (v_storage v)(k := w)\<rparr>)))"
  unfolding setStorage_def
proof (rule ok_bind [OF inv storage_ok [OF inv]])
  fix old s'
  assume s': "state_inv full s'" "extends full s s'" "silent full s s' \<and> (\<exists>r. found full a r s') \<and>
    (full \<longrightarrow> old = (case view full s a of Some v \<Rightarrow> v_storage v k | None \<Rightarrow> 0))"
  note f = silent_frame [of full s s']
  obtain x where x: "found full a (Some x) s'" "m_cache s' a = Some x"
    using s'(3) ex f by (metis found_exists)
  have v: "view full s a = Some (value_of full (m_db s') x)" using x s'(3) f by (simp add: found_def)
  have p: "cache_put a (acc_setStorage k w (cache_ref a (st_log (ChStorage a k old) s'))) (st_log (ChStorage a k old) s')
      = st_log (ChStorage a k old) (cache_put a (acc_setStorage k w x) s')"
    using x(2) by (simp add: st_log_def cache_put_def cache_ref_def)
  have val: "value_of full (m_db s') (acc_setStorage k w x) = basic full
      ((value_of full (m_db s') x)\<lparr>v_storage := (v_storage (value_of full (m_db s') x))(k := w)\<rparr>)"
    by (simp add: acc_setStorage_def acc_changed_def value_overlay)
  have old: "v_storage (value_of full (m_db s') x) k = old" if full
    using s'(3) v that by (cases full) auto
  have "extends full s' (st_log (ChStorage a k old) (cache_put a (acc_setStorage k w x) s'))"
    by (rule change_ok [OF s'(1) x(2)]) (simp_all add: cell_map_def val basic_storage_undo [OF old])
  then show "ok full s' (case (old, s') of (old, s) \<Rightarrow> let s = st_log (ChStorage a k old) s
     in Inr ((), cache_put a (acc_setStorage k w (cache_ref a s)) s))
     (\<lambda>_ s'. \<exists>v. view full s a = Some v \<and>
    view full s' = (view full s)(a \<mapsto> basic full (v\<lparr>v_storage := (v_storage v)(k := w)\<rparr>)))"
    using v s'(3) f val by (simp add: p view_put)
qed

lemma code_ok:
  assumes inv: "state_inv full s"
  shows "ok full s (st_code a s) (\<lambda>c s'. silent full s s' \<and> (\<exists>r. found full a r s') \<and>
    (full \<longrightarrow> c = (case view full s a of Some v \<Rightarrow> v_code v | None \<Rightarrow> [])))"
  unfolding st_code_def
proof (rule account_bind [OF inv])
  fix r s'
  assume s': "silent full s s'" "state_inv full s'" "found full a r s'"
  note f = silent_frame [OF s'(1)]
  let ?Q = "\<lambda>c s''. silent full s s'' \<and> (\<exists>r. found full a r s'') \<and>
    (full \<longrightarrow> c = (case view full s a of Some v \<Rightarrow> v_code v | None \<Rightarrow> []))"
  show "ok full s' (case (r, s') of (acc, s) \<Rightarrow>
     case acc of
       None \<Rightarrow> Inr ([], s)
     | Some x \<Rightarrow>
         if a_codeHash x = EmptySHA3 (st_sha3 s) then Inr ([], s)
         else if a_codeCache x = []
         then let code = db_lookup (m_db s) (a_codeHash x)
              in Inr (code, csc_store (a_codeHash x) (length code) (cache_put a (acc_noteCode code x) s))
         else Inr (a_codeCache x, s)) ?Q"
  proof (cases r)
    case None
    then show ?thesis using s' f extends_refl [OF s'(2)] by (auto simp: found_def)
  next
    case (Some x)
    have x: "m_cache s' a = Some x" and v: "view full s a = Some (value_of full (m_db s) x)"
      using s'(3) Some f by (simp_all add: found_def)
    let ?code = "db_lookup (m_db s') (a_codeHash x)"
    let ?y = "acc_noteCode ?code x"
    let ?t = "csc_store (a_codeHash x) (length ?code) (cache_put a ?y s')"
    show ?thesis
    proof (cases "a_codeHash x \<noteq> EmptySHA3 (st_sha3 s') \<and> a_codeCache x = []")
      case False
      then show ?thesis
        using Some s' v f extends_refl [OF s'(2)] by (auto simp: st_sha3_def value_of_def)
    next
      case True
      have "value_of full (m_db s') ?y = value_of full (m_db s') x"
        using True by (cases full) (simp_all add: value_of_def basic_def acc_noteCode_def st_sha3_def cong del: option.case_cong_weak)
      then have p: "silent full s' (cache_put a ?y s')"
        by (intro put_silent [OF s'(2) x]) (simp_all add: acc_defs)
      have t: "silent full s' ?t"
        by (rule silent_trans [OF s'(2) p csc_silent [OF silent_inv [OF p]]])
      have "found full a (Some ?y) ?t"
        by (rule found_cache [OF silent_inv [OF t]]) (simp add: csc_store_frame)
      then show ?thesis
        using True Some v f silent_trans [OF inv s'(1) t] silent_extends [OF t]
        by (auto simp: value_of_def st_sha3_def Let_def)
    qed
  qed
qed

lemma codeSize_ok:
  assumes inv: "state_inv full s"
  shows "ok full s (st_codeSize a s) (\<lambda>_ s'. silent full s s')"
  unfolding st_codeSize_def
proof (rule account_bind [OF inv])
  fix r s'
  assume s': "silent full s s'" "state_inv full s'" "found full a r s'"
  have c: "ok full s' (bindE (st_code a s') (\<lambda>(code, s).
      Inr (length code, csc_store h (length code) s))) (\<lambda>_ s'. silent full s s')" for h
  proof (rule ok_bind [OF s'(2) code_ok [OF s'(2)]])
    fix c t
    assume t: "state_inv full t" "extends full s' t" "silent full s' t \<and> (\<exists>r. found full a r t) \<and>
      (full \<longrightarrow> c = (case view full s' a of Some v \<Rightarrow> v_code v | None \<Rightarrow> []))"
    have u: "silent full t (csc_store h (length c) t)" by (rule csc_silent [OF t(1)])
    have "silent full s t" using t(3) silent_trans [OF inv s'(1)] by blast
    then show "ok full t (case (c, t) of (code, s) \<Rightarrow> Inr (length code, csc_store h (length code) s))
        (\<lambda>_. silent full s)"
      using u silent_trans [OF inv _ u] silent_extends by auto
  qed
  show "ok full s' (case (r, s') of (acc, s) \<Rightarrow>
     case acc of
       None \<Rightarrow> Inr (0, s)
     | Some x \<Rightarrow>
         if a_hasNewCode x then Inr (length (a_codeCache x), s)
         else case map_of (m_codeSizes s) (a_codeHash x) of
           Some n \<Rightarrow> Inr (n, s)
         | None \<Rightarrow> bindE (st_code a s) (\<lambda>(code, s).
             Inr (length code, csc_store (a_codeHash x) (length code) s))) (\<lambda>_. silent full s)"
    using s'(1) extends_refl [OF s'(2)] c by (auto split: option.split)
qed

text \<open>The contract of \<open>setCode\<close> and \<open>clearStorage\<close>: the account has been changed before, so it is
  marked dirty already; the first needs an account without code, the second one whose storage is
  that of its root, for the rollback to restore them.\<close>

lemma extends_cell:
  assumes "extends full s s'" "cell full s a \<noteq> None"
  shows "cell full s' a \<noteq> None"
proof
  assume n: "cell full s' a = None"
  obtain cs where cs: "m_changeLog s' = m_changeLog s @ cs"
    "same_cells full (m_db s) (cell full s) (undo_all full (m_db s) (rev cs) (cell full s'))"
    using assms(1) by (auto simp: extends_def)
  have "log_ok full (m_db s) (rev cs) (cell full s')"
    using assms(1) cs(1) by (auto simp: extends_def state_inv_def log_ok_append)
  then have "undo_all full (m_db s) (rev cs) (cell full s') a = None" using n by (rule undo_none)
  then show False using cs(2) assms(2) by (metis same_cells_def)
qed

lemma cell_cached: "cell full s a \<noteq> None \<Longrightarrow> \<exists>x. m_cache s a = Some x \<and> acc_isDirty x \<and>
    cell full s a = Some (value_of full (m_db s) x) \<and> view full s a = Some (value_of full (m_db s) x)"
  by (auto simp: cell_def view_def view_of_def split: option.splits if_splits)

lemma setCode_ok:
  assumes inv: "state_inv full s" and d: "cell full s a \<noteq> None"
    and e: "full \<Longrightarrow> v_codeHash (the (view full s a)) = EmptySHA3 (db_sha3 (m_db s))"
  shows "ok full s (st_setCode a code ver s) (\<lambda>_ s'. \<exists>v. view full s a = Some v \<and>
    view full s' = (view full s)(a \<mapsto> basic full (v\<lparr>v_codeHash := if full then db_sha3 (m_db s) code else 0,
       v_code := if db_sha3 (m_db s) code = EmptySHA3 (db_sha3 (m_db s)) then [] else code\<rparr>)))"
  unfolding st_setCode_def
proof (rule ok_bind [OF inv code_ok [OF inv]])
  fix old s'
  assume s': "state_inv full s'" "extends full s s'" "silent full s s' \<and> (\<exists>r. found full a r s') \<and>
    (full \<longrightarrow> old = (case view full s a of Some v \<Rightarrow> v_code v | None \<Rightarrow> []))"
  note f = silent_frame [of full s s']
  obtain x where x: "m_cache s' a = Some x" "acc_isDirty x" "view full s' a = Some (value_of full (m_db s') x)"
    using cell_cached extends_cell [OF s'(2) d] by blast
  have v: "view full s a = Some (value_of full (m_db s') x)" using x s'(3) f by simp
  let ?y = "acc_setCode (db_sha3 (m_db s')) code ver x" and ?sha = "db_sha3 (m_db s')"
  have y: "acc_isDirty ?y" using x(2) by (simp add: acc_setCode_def acc_isDirty_def Let_def)
  have hash: "a_codeHash x = EmptySHA3 ?sha" if full
    using e [OF that] v that s'(3) f by (cases full) (auto simp: value_of_def)
  have val: "value_of full (m_db s') ?y = basic full ((value_of full (m_db s') x)
      \<lparr>v_codeHash := if full then ?sha code else 0, v_code := if ?sha code = EmptySHA3 ?sha then [] else code\<rparr>)"
    using hash
    by (cases full) (auto simp: value_of_def basic_def acc_setCode_def Let_def EmptySHA3_def cong del: option.case_cong_weak)
  have undo: "basic full ((value_of full (m_db s') ?y)\<lparr>v_codeHash := EmptySHA3 ?sha, v_code := []\<rparr>)
      = value_of full (m_db s') x"
    unfolding val using hash by (cases full) (auto simp: value_of_def basic_def cong del: option.case_cong_weak)
  let ?t = "st_log (ChCode a old) (cache_put a ?y s')"
  have p: "(let s = st_log (ChCode a old) s'
      in Inr ((), cache_put a (acc_setCode (st_sha3 s) code ver (cache_ref a s)) s) :: unit st) = Inr ((), ?t)"
    using x(1) by (simp add: st_log_def cache_put_def cache_ref_def st_sha3_def)
  have t: "extends full s' ?t"
    by (rule change_ok [OF s'(1) x(1) y]) (simp_all add: cell_map_def undo)
  have db: "m_db s' = m_db s" "view full s' = view full s" using s'(3) f by simp_all
  have q: "view full ?t = (view full s)(a \<mapsto> value_of full (m_db s') ?y)"
    using y db by (simp add: view_put)
  show "ok full s' (case (old, s') of (old, s) \<Rightarrow> let s = st_log (ChCode a old) s
     in Inr ((), cache_put a (acc_setCode (st_sha3 s) code ver (cache_ref a s)) s))
    (\<lambda>_ s'. \<exists>v. view full s a = Some v \<and>
    view full s' = (view full s)(a \<mapsto> basic full (v\<lparr>v_codeHash := if full then db_sha3 (m_db s) code else 0,
       v_code := if db_sha3 (m_db s) code = EmptySHA3 (db_sha3 (m_db s)) then [] else code\<rparr>)))"
    unfolding prod.case p ok_Inr
    by (intro conjI exI [of _ "value_of full (m_db s') x"], rule t, rule v)
      (subst q, subst val, simp only: db)
qed

lemma clearStorage_ok:
  assumes inv: "state_inv full s" and d: "cell full s a \<noteq> None"
    and e: "full \<Longrightarrow> v_root (the (view full s a)) = EmptyTrie (db_sha3 (m_db s)) \<or>
      v_storage (the (view full s a)) = db_value (m_db s) (v_root (the (view full s a)))"
  shows "extends full s (clearStorage a s)"
proof -
  obtain x where x: "m_cache s a = Some x" "acc_isDirty x" "view full s a = Some (value_of full (m_db s) x)"
    using cell_cached d by blast
  have s: "cache_put a x s = s" using x(1) by (simp add: cache_put_def fun_upd_idem)
  show ?thesis
  proof (cases "a_storageRoot x = EmptyTrie (db_sha3 (m_db s))")
    case True
    then show ?thesis using x s extends_refl [OF inv] by (simp add: clearStorage_def cache_ref_def st_sha3_def Let_def)
  next
    case False
    let ?c = "ChStorageRoot a (a_storageRoot x)" and ?y = "acc_clearStorage (db_sha3 (m_db s)) x"
    have p: "clearStorage a s = st_log ?c (cache_put a ?y s)"
      using x(1) False by (simp add: clearStorage_def cache_ref_def st_log_def st_sha3_def cache_put_def Let_def fun_upd_idem)
    have st: "v_storage (value_of full (m_db s) x) = db_value (m_db s) (a_storageRoot x)" if full
      using e [OF that] x(3) False that by (cases full) (auto simp: value_of_def)
    have undo: "basic full ((value_of full (m_db s) ?y)\<lparr>v_root := a_storageRoot x,
        v_storage := db_value (m_db s) (a_storageRoot x)\<rparr>) = value_of full (m_db s) x"
      using st by (cases full) (simp_all add: value_of_def basic_def acc_clearStorage_def acc_changed_def)
    show ?thesis
      unfolding p by (rule change_ok [OF inv x(1)]) (simp_all add: cell_map_def undo)
  qed
qed

text \<open>A new state satisfies the invariant.\<close>

lemma new_inv: "state_inv full (state_new db n rand)"
  by (simp add: state_inv_def state_new_def)

end
