(* ===== verification/ExecutiveSpec.thy ===== *)
theory ExecutiveSpec
  imports Executive StateOps
begin

text \<open>
  What the executive relies on of the state. Two measures of a state are followed through a
  transaction: the balances and nonces as reported, and the wealth, the sum of all balances. \<open>grows\<close>
  says that the journal extends the earlier state (so that a rollback restores it) and that no ether
  has been made. Then the operations of the state that the executive uses, each with its effect.
\<close>

section \<open>Balances, nonces and wealth\<close>

definition balance_of :: "state \<Rightarrow> u160 \<Rightarrow> u256" where
  "balance_of s a = (case view False s a of Some v \<Rightarrow> v_balance v | None \<Rightarrow> 0)"

definition nonce_of :: "state \<Rightarrow> u160 \<Rightarrow> u256" where
  "nonce_of s a = (case view False s a of Some v \<Rightarrow> v_nonce v | None \<Rightarrow> m_accountStartNonce s)"

definition same_accounts :: "state \<Rightarrow> state \<Rightarrow> bool" where
  "same_accounts s s' \<longleftrightarrow> (\<forall>a. balance_of s' a = balance_of s a \<and> nonce_of s' a = nonce_of s a)"

definition worth :: "(u160 \<Rightarrow> u256) \<Rightarrow> nat" where
  "worth f = (\<Sum>a\<in>UNIV. unat (f a))"

definition wealth :: "state \<Rightarrow> nat" where
  "wealth s = worth (balance_of s)"

lemma same_accounts_view:
  "view False s' = view False s \<Longrightarrow> m_accountStartNonce s' = m_accountStartNonce s \<Longrightarrow> same_accounts s s'"
  by (simp add: same_accounts_def balance_of_def nonce_of_def cong del: option.case_cong_weak)

lemma same_accounts_refl [simp]: "same_accounts s s"
  by (simp add: same_accounts_def)

lemma same_accounts_trans: "same_accounts s t \<Longrightarrow> same_accounts t u \<Longrightarrow> same_accounts s u"
  by (simp add: same_accounts_def)

lemma same_wealth: "same_accounts s s' \<Longrightarrow> wealth s' = wealth s"
  by (simp add: same_accounts_def wealth_def worth_def)

lemma worth_upd: "worth (f(a := v)) + unat (f a) = worth f + unat v"
proof -
  have "(\<Sum>b\<in>UNIV. unat ((f(a := v)) b)) = unat v + (\<Sum>b\<in>UNIV - {a}. unat (f b))"
    by (subst sum.remove [of _ a]) (auto intro: sum.cong)
  moreover have "(\<Sum>b\<in>UNIV. unat (f b)) = unat (f a) + (\<Sum>b\<in>UNIV - {a}. unat (f b))"
    by (rule sum.remove) auto
  ultimately show ?thesis by (simp add: worth_def)
qed

lemma unat_add_le: "unat (x + y :: u256) \<le> unat x + unat y"
  by (simp add: unat_word_ariths)

lemma worth_add: "worth (f(a := f a + w)) \<le> worth f + unat w"
  using worth_upd [of f a "f a + w"] unat_add_le [of "f a" w] by linarith

lemma worth_sub:
  assumes "w \<le> f a"
  shows "worth (f(a := f a - w)) + unat w = worth f"
proof -
  have "unat (f a - w) + unat w = unat (f a)"
    using assms by (simp add: unat_sub word_le_nat_alt)
  then show ?thesis using worth_upd [of f a "f a - w"] by linarith
qed

lemma balance_upd: "view False s' = (view False s)(a \<mapsto> v) \<Longrightarrow> balance_of s' = (balance_of s)(a := v_balance v)"
  by (rule ext) (simp add: balance_of_def split: option.split)

lemma nonce_upd: "view False s' = (view False s)(a \<mapsto> v) \<Longrightarrow> m_accountStartNonce s' = m_accountStartNonce s \<Longrightarrow>
    nonce_of s' = (nonce_of s)(a := v_nonce v)"
  by (rule ext) (simp add: nonce_of_def split: option.split)

text \<open>An account created with a balance.\<close>

lemma fresh_simps [simp]: "v_balance (fresh full db n b) = b" "v_nonce (fresh full db n b) = n"
  by (simp_all add: fresh_def account_make_def)

lemma balance_case:
  "v_balance (case view False s a of Some v \<Rightarrow> v\<lparr>v_balance := f (v_balance v)\<rparr> | None \<Rightarrow> fresh False db n (f 0))
    = f (balance_of s a)"
  by (simp add: balance_of_def split: option.split)

section \<open>Growing states\<close>

definition grows :: "state \<Rightarrow> state \<Rightarrow> bool" where
  "grows s s' \<longleftrightarrow> extends False s s' \<and> wealth s' \<le> wealth s"

lemma grows_extends: "grows s s' \<Longrightarrow> extends False s s'"
  by (simp add: grows_def)

lemma grows_refl: "state_inv False s \<Longrightarrow> grows s s"
  by (simp add: grows_def extends_refl)

lemma grows_inv: "grows s s' \<Longrightarrow> state_inv False s'"
  unfolding grows_def using extends_inv by blast

lemma grows_trans: "state_inv False s \<Longrightarrow> grows s t \<Longrightarrow> grows t u \<Longrightarrow> grows s u"
  unfolding grows_def using extends_trans le_trans by blast

lemma grows_cell: "grows s s' \<Longrightarrow> cell False s a \<noteq> None \<Longrightarrow> cell False s' a \<noteq> None"
  using extends_cell grows_extends by blast

lemma grows_exists: "grows s s' \<Longrightarrow> view False s a \<noteq> None \<Longrightarrow> view False s' a \<noteq> None"
  using extends_exists grows_extends by blast

lemma extends_start: "extends full s s' \<Longrightarrow> m_accountStartNonce s' = m_accountStartNonce s"
  by (simp add: extends_def)

lemma grows_same: "extends False s s' \<Longrightarrow> same_accounts s s' \<Longrightarrow> grows s s'"
  using same_wealth by (simp add: grows_def)

lemma view_exists_cell: "cell full s a \<noteq> None \<Longrightarrow> view full s a \<noteq> None"
  using cell_cached by blast

text \<open>Rolling back to a savepoint.\<close>

lemma rollback_grows:
  assumes "state_inv False s0" "extends False s0 s"
  shows "grows s0 (rollback (savepoint s0) s)" "same_accounts s0 (rollback (savepoint s0) s)"
proof -
  show "same_accounts s0 (rollback (savepoint s0) s)"
    using rollback_restores [OF assms] by (simp add: same_accounts_view extends_start)
  then show "grows s0 (rollback (savepoint s0) s)"
    using rollback_restores [OF assms] by (simp add: grows_same)
qed

section \<open>Operations of the state\<close>

text \<open>\<open>st_ok\<close>: what \<open>ok\<close> says, and the result makes no ether.\<close>

definition st_ok :: "state \<Rightarrow> 'a st \<Rightarrow> ('a \<Rightarrow> state \<Rightarrow> bool) \<Rightarrow> bool" where
  "st_ok s r Q \<longleftrightarrow> ok False s r (\<lambda>x s'. Q x s' \<and> wealth s' \<le> wealth s)"

lemma st_okI:
  "ok False s r P \<Longrightarrow> (\<And>x s'. extends False s s' \<Longrightarrow> P x s' \<Longrightarrow> Q x s' \<and> wealth s' \<le> wealth s) \<Longrightarrow> st_ok s r Q"
  unfolding st_ok_def by (rule ok_mono)

lemma st_ok_bind:
  assumes inv: "state_inv False s" and m: "st_ok s m P"
    and f: "\<And>x s'. state_inv False s' \<Longrightarrow> grows s s' \<Longrightarrow> P x s' \<Longrightarrow> st_ok s' (f (x, s')) Q"
  shows "st_ok s (bindE m f) Q"
  unfolding st_ok_def
proof (rule ok_bind [OF inv m [unfolded st_ok_def]])
  fix x s'
  assume s': "state_inv False s'" "extends False s s'" "P x s' \<and> wealth s' \<le> wealth s"
  then have "st_ok s' (f (x, s')) Q" by (intro f) (simp_all add: grows_def)
  then show "ok False s' (f (x, s')) (\<lambda>x t. Q x t \<and> wealth t \<le> wealth s)"
    unfolding st_ok_def using s'(3) by (elim ok_mono) linarith
qed

lemma silent_same: "silent False s s' \<Longrightarrow> same_accounts s s'"
  by (rule same_accounts_view) (auto simp: silent_frame)

lemma ok_silent:
  assumes "ok False s r P" "\<And>x s'. P x s' \<Longrightarrow> silent False s s'"
  shows "st_ok s r (\<lambda>_ s'. same_accounts s s')"
  by (rule st_okI [OF assms(1)]) (use assms(2) silent_same same_wealth in fastforce)

lemma query_silent: "state_inv False s \<Longrightarrow> st_ok s (st_query a f d s) (\<lambda>_ s'. same_accounts s s')"
  by (rule ok_silent [OF query_ok]) auto

lemma addressHasCode_ok: "state_inv False s \<Longrightarrow> st_ok s (addressHasCode a s) (\<lambda>_ s'. same_accounts s s')"
  unfolding addressHasCode_def by (rule query_silent)

lemma getNonce_ok: "state_inv False s \<Longrightarrow> st_ok s (getNonce a s) (\<lambda>_ s'. same_accounts s s')"
  unfolding getNonce_def by (rule query_silent)

lemma version_ok: "state_inv False s \<Longrightarrow> st_ok s (st_version a s) (\<lambda>_ s'. same_accounts s s')"
  unfolding st_version_def by (rule query_silent)

lemma codeHash_ok: "state_inv False s \<Longrightarrow> st_ok s (st_codeHash a s) (\<lambda>_ s'. same_accounts s s')"
  unfolding st_codeHash_def by (rule query_silent)

lemma nonempty_ok: "state_inv False s \<Longrightarrow> st_ok s (accountNonemptyAndExisting a s) (\<lambda>_ s'. same_accounts s s')"
  unfolding accountNonemptyAndExisting_def by (rule query_silent)

lemma inUse_ok: "state_inv False s \<Longrightarrow> st_ok s (addressInUse a s) (\<lambda>_ s'. same_accounts s s')"
  unfolding addressInUse_def by (rule query_silent)

lemma balance_ok:
  assumes inv: "state_inv False s"
  shows "st_ok s (st_balance a s) (\<lambda>b s'. same_accounts s s' \<and> b = balance_of s a)"
  unfolding st_balance_def
proof (rule st_okI [OF query_ok [OF inv]])
  fix b s'
  assume q: "silent False s s' \<and> (\<exists>r. found False a r s' \<and> b = (case r of Some y \<Rightarrow> a_balance y | None \<Rightarrow> 0))"
  then obtain r where r: "found False a r s'" "b = (case r of Some y \<Rightarrow> a_balance y | None \<Rightarrow> 0)" by blast
  have "b = (case view False s' a of Some v \<Rightarrow> v_balance v | None \<Rightarrow> 0)"
    using query_value [OF r(1), of a_balance v_balance 0] r(2) by simp
  then show "(same_accounts s s' \<and> b = balance_of s a) \<and> wealth s' \<le> wealth s"
    using silent_same [of s s'] same_wealth [of s s'] q silent_frame(3) [of False s s']
    by (simp add: balance_of_def)
qed

lemma code_st: "state_inv False s \<Longrightarrow> st_ok s (st_code a s) (\<lambda>_ s'. same_accounts s s')"
  by (rule ok_silent [OF code_ok]) auto

lemma codeSize_st: "state_inv False s \<Longrightarrow> st_ok s (st_codeSize a s) (\<lambda>_ s'. same_accounts s s')"
  by (rule ok_silent [OF codeSize_ok])

lemma storage_st: "state_inv False s \<Longrightarrow> st_ok s (st_storage a k s) (\<lambda>_ s'. same_accounts s s')"
  by (rule ok_silent [OF storage_ok]) auto

section \<open>Changes of an account\<close>

text \<open>The nonce of one account may go up by one; nothing else changes.\<close>

definition bumped :: "u160 \<Rightarrow> state \<Rightarrow> state \<Rightarrow> bool" where
  "bumped a s s' \<longleftrightarrow> (\<forall>b. balance_of s' b = balance_of s b \<and> (b \<noteq> a \<longrightarrow> nonce_of s' b = nonce_of s b)) \<and>
     nonce_of s' a \<in> {nonce_of s a, nonce_of s a + 1}"

lemma bumped_refl [simp]: "bumped a s s"
  by (simp add: bumped_def)

lemma bumped_same: "same_accounts s s' \<Longrightarrow> bumped a s' s'' \<Longrightarrow> bumped a s s''"
  by (simp add: bumped_def same_accounts_def)

lemma same_bumped: "bumped a s s' \<Longrightarrow> same_accounts s' s'' \<Longrightarrow> bumped a s s''"
  by (simp add: bumped_def same_accounts_def)

lemma bumped_wealth: "bumped a s s' \<Longrightarrow> wealth s' = wealth s"
  by (simp add: bumped_def wealth_def worth_def)

lemma bumped_both: "bumped 0 s s' \<Longrightarrow> bumped 1 s s' \<Longrightarrow> same_accounts s s'"
proof -
  assume b: "bumped 0 s s'" "bumped 1 s s'"
  have "nonce_of s' b = nonce_of s b" for b using b by (cases "b = 0") (simp_all add: bumped_def)
  then show ?thesis using b(1) by (simp add: same_accounts_def bumped_def)
qed

lemma incNonce_st:
  assumes inv: "state_inv False s"
  shows "st_ok s (incNonce a s) (\<lambda>_ s'. bumped a s s')"
proof (rule st_okI [OF incNonce_ok [OF inv]])
  fix u s'
  assume e: "extends False s s'" and v: "view False s' = (view False s)(a \<mapsto> case view False s a of
      Some v \<Rightarrow> v\<lparr>v_nonce := v_nonce v + 1\<rparr> | None \<Rightarrow> fresh False (m_db s) (m_accountStartNonce s + 1) 0)"
  have "bumped a s s'"
    using v extends_start [OF e] by (auto simp: bumped_def balance_of_def nonce_of_def split: option.splits)
  then show "bumped a s s' \<and> wealth s' \<le> wealth s" using bumped_wealth by simp
qed

text \<open>Touching an account that may not exist leaves every balance and nonce as reported.\<close>

lemma touch_st:
  assumes inv: "state_inv False s"
  shows "st_ok s (addBalance a 0 s) (\<lambda>_ s'. same_accounts s s')"
proof (rule st_okI [OF addBalance_ok [OF inv]])
  fix u s'
  assume e: "extends False s s'" and v: "view False s' = (view False s)(a \<mapsto> case view False s a of
      Some v \<Rightarrow> v\<lparr>v_balance := v_balance v + 0\<rparr> | None \<Rightarrow> fresh False (m_db s) (m_accountStartNonce s) 0)"
  have "same_accounts s s'"
    using v extends_start [OF e] by (auto simp: same_accounts_def balance_of_def nonce_of_def split: option.splits)
  then show "same_accounts s s' \<and> wealth s' \<le> wealth s" using same_wealth by simp
qed

text \<open>Paying an account.\<close>

definition paid :: "u160 \<Rightarrow> u256 \<Rightarrow> state \<Rightarrow> state \<Rightarrow> bool" where
  "paid a w s s' \<longleftrightarrow> balance_of s' = (balance_of s)(a := balance_of s a + w) \<and> nonce_of s' = nonce_of s"

lemma addBalance_paid:
  assumes inv: "state_inv False s"
  shows "ok False s (addBalance a w s) (\<lambda>_ s'. paid a w s s')"
proof (rule ok_mono [OF addBalance_ok [OF inv]])
  fix u s'
  assume e: "extends False s s'" and v: "view False s' = (view False s)(a \<mapsto> case view False s a of
      Some v \<Rightarrow> v\<lparr>v_balance := v_balance v + w\<rparr> | None \<Rightarrow> fresh False (m_db s) (m_accountStartNonce s) w)"
  show "paid a w s s'"
    using v extends_start [OF e]
    by (auto simp: paid_def fun_eq_iff balance_of_def nonce_of_def split: option.splits)
qed

lemma paid_wealth: "paid a w s s' \<Longrightarrow> wealth s' \<le> wealth s + unat w"
  unfolding paid_def wealth_def using worth_add by simp

text \<open>Taking from an account: it must hold the amount.\<close>

definition charged :: "u160 \<Rightarrow> u256 \<Rightarrow> state \<Rightarrow> state \<Rightarrow> bool" where
  "charged a w s s' \<longleftrightarrow> w \<le> balance_of s a \<and> balance_of s' = (balance_of s)(a := balance_of s a - w) \<and>
     nonce_of s' = nonce_of s"

lemma subBalance_charged:
  assumes inv: "state_inv False s"
  shows "ok False s (subBalance a w s) (\<lambda>_ s'. charged a w s s')"
proof (rule ok_mono [OF subBalance_ok [OF inv]])
  fix u s'
  assume e: "extends False s s'" and v: "if w = 0 then s' = s else
    (\<exists>v. view False s a = Some v \<and> w \<le> v_balance v \<and>
      view False s' = (view False s)(a \<mapsto> v\<lparr>v_balance := v_balance v - w\<rparr>))"
  show "charged a w s s'"
  proof (cases "w = 0")
    case True
    then show ?thesis using v by (simp add: charged_def fun_upd_idem)
  next
    case False
    then obtain v0 where v0: "view False s a = Some v0" "w \<le> v_balance v0"
      "view False s' = (view False s)(a \<mapsto> v0\<lparr>v_balance := v_balance v0 - w\<rparr>)" using v by auto
    have a: "balance_of s a = v_balance v0" "nonce_of s a = v_nonce v0"
      using v0(1) by (simp_all add: balance_of_def nonce_of_def)
    show ?thesis
      using a v0(2) balance_upd [OF v0(3)] nonce_upd [OF v0(3) extends_start [OF e]]
      by (simp add: charged_def fun_upd_idem)
  qed
qed

lemma charged_wealth: "charged a w s s' \<Longrightarrow> wealth s' + unat w = wealth s"
  unfolding charged_def wealth_def using worth_sub [of w "balance_of s" a] by simp

text \<open>A transfer.\<close>

definition moved :: "u160 \<Rightarrow> u160 \<Rightarrow> u256 \<Rightarrow> state \<Rightarrow> state \<Rightarrow> bool" where
  "moved a b w s s' \<longleftrightarrow> (\<exists>t. charged a w s t \<and> paid b w t s')"

lemma transfer_st:
  assumes inv: "state_inv False s"
  shows "st_ok s (transferBalance a b w s) (\<lambda>_ s'. moved a b w s s' \<and> view False s' b \<noteq> None)"
proof -
  have v: "ok False s (transferBalance a b w s) (\<lambda>_ s'. view False s' b \<noteq> None)"
    by (rule ok_mono [OF transferBalance_ok [OF inv]]) (simp add: credit_def)
  have m: "ok False s (transferBalance a b w s) (\<lambda>_ s'. moved a b w s s')"
    unfolding transferBalance_def
  proof (rule ok_bind [OF inv subBalance_charged [OF inv]])
    fix u t
    assume t: "state_inv False t" "charged a w s t"
    show "ok False t (case (u, t) of (_, s) \<Rightarrow> addBalance b w s) (\<lambda>_ s'. moved a b w s s')"
      unfolding prod.case by (rule ok_mono [OF addBalance_paid [OF t(1)]]) (use t(2) in \<open>auto simp: moved_def\<close>)
  qed
  have "wealth s' \<le> wealth s" if "moved a b w s s'" for s'
    using that charged_wealth paid_wealth unfolding moved_def by fastforce
  then show ?thesis
    using m v unfolding st_ok_def ok_def by (auto split: sum.splits)
qed

lemma ok_conj: "ok full s r P \<Longrightarrow> ok full s r Q \<Longrightarrow> ok full s r (\<lambda>x s'. P x s' \<and> Q x s')"
  by (auto simp: ok_def split: sum.splits)

lemma view_balances:
  assumes "view False s' = (view False s)(a \<mapsto> v)" "v_balance v = balance_of s a"
  shows "wealth s' = wealth s"
  using balance_upd [OF assms(1)] assms(2) by (simp add: wealth_def fun_upd_idem)

lemma setNonce_st:
  assumes inv: "state_inv False s"
  shows "st_ok s (st_setNonce a n s) (\<lambda>_ s'. cell False s' a \<noteq> None)"
proof -
  have "case st_setNonce a n s of Inl _ \<Rightarrow> True | Inr (_, s') \<Rightarrow> cell False s' a \<noteq> None"
    unfolding st_setNonce_def
    by (cases "st_account a s") (auto simp: st_log_def createAccount_def cell_put split: sum.splits option.splits)
  then have d: "ok False s (st_setNonce a n s) (\<lambda>_ s'. cell False s' a \<noteq> None)"
    using setNonce_ok [OF inv, of a n] by (auto simp: ok_def split: sum.splits)
  show ?thesis
  proof (rule st_okI [OF ok_conj [OF d setNonce_ok [OF inv]]])
    fix u s'
    assume s': "cell False s' a \<noteq> None \<and> view False s' = (view False s)(a \<mapsto> case view False s a of
      Some v \<Rightarrow> v\<lparr>v_nonce := n\<rparr> | None \<Rightarrow> fresh False (m_db s) n 0)"
    have "wealth s' = wealth s"
      by (rule view_balances [OF conjunct2 [OF s']]) (simp add: balance_of_def split: option.split)
    then show "cell False s' a \<noteq> None \<and> wealth s' \<le> wealth s" using s' by simp
  qed
qed

lemma setCode_st:
  assumes inv: "state_inv False s" and c: "cell False s a \<noteq> None"
  shows "st_ok s (st_setCode a code ver s) (\<lambda>_ s'. True)"
proof (rule st_okI [OF setCode_ok [OF inv c]])
  fix u s'
  assume "\<exists>v. view False s a = Some v \<and> view False s' = (view False s)(a \<mapsto> basic False
    (v\<lparr>v_codeHash := if False then db_sha3 (m_db s) code else 0,
       v_code := if db_sha3 (m_db s) code = EmptySHA3 (db_sha3 (m_db s)) then [] else code\<rparr>))"
  then have "wealth s' = wealth s"
    by (auto intro: view_balances simp: basic_def balance_of_def)
  then show "True \<and> wealth s' \<le> wealth s" by simp
qed simp

lemma setStorage_st:
  assumes inv: "state_inv False s" and c: "view False s a \<noteq> None"
  shows "st_ok s (setStorage a k w s) (\<lambda>_ s'. True)"
proof (rule st_okI [OF setStorage_ok [OF inv c]])
  fix u s'
  assume "\<exists>v. view False s a = Some v \<and>
    view False s' = (view False s)(a \<mapsto> basic False (v\<lparr>v_storage := (v_storage v)(k := w)\<rparr>))"
  then have "wealth s' = wealth s"
    by (auto intro: view_balances simp: basic_def balance_of_def)
  then show "True \<and> wealth s' \<le> wealth s" by simp
qed

lemma clearStorage_grows:
  assumes inv: "state_inv False s" and d: "cell False s a \<noteq> None"
  shows "grows s (clearStorage a s)"
proof -
  obtain x where x: "m_cache s a = Some x" "acc_isDirty x" "view False s a = Some (value_of False (m_db s) x)"
    using cell_cached [OF d] by blast
  let ?y = "acc_clearStorage (db_sha3 (m_db s)) x"
  have y: "acc_isDirty ?y" using x(2) by (simp add: acc_clearStorage_def acc_changed_def acc_isDirty_def)
  have s: "cache_put a x s = s" using x(1) by (simp add: cache_put_def fun_upd_idem)
  have "view False (clearStorage a s) = view False s \<or>
      view False (clearStorage a s) = (view False s)(a \<mapsto> value_of False (m_db s) ?y)"
  proof (cases "a_storageRoot x = EmptyTrie (db_sha3 (m_db s))")
    case True
    then show ?thesis using x s by (simp add: clearStorage_def cache_ref_def st_sha3_def Let_def)
  next
    case False
    have "clearStorage a s = st_log (ChStorageRoot a (a_storageRoot x)) (cache_put a ?y s)"
      using x(1) False by (simp add: clearStorage_def cache_ref_def st_log_def st_sha3_def cache_put_def Let_def fun_upd_idem)
    then show ?thesis using view_put [OF y] by simp
  qed
  moreover have "v_balance (value_of False (m_db s) ?y) = balance_of s a"
    using x(3) by (simp add: balance_of_def value_of_def basic_def acc_clearStorage_def acc_changed_def)
  ultimately have "wealth (clearStorage a s) = wealth s"
    using view_balances by (metis balance_of_def ext wealth_def)
  then show ?thesis using clearStorage_ok [OF inv d] by (simp add: grows_def)
qed

text \<open>Selfdestruct: what the account held moves, and the account is marked as changed.\<close>

lemma addBalance_dirty:
  "case addBalance a w s of Inl _ \<Rightarrow> True | Inr (_, s') \<Rightarrow> cell full s' a \<noteq> None"
  unfolding addBalance_def
  by (cases "st_account a s")
    (auto simp: st_log_def createAccount_def cell_put acc_addBalance_def acc_changed_def acc_isDirty_def
      account_make_def requireAccountStartNonce_def Let_def split: sum.splits option.splits if_splits)

lemma setBalance_set:
  assumes inv: "state_inv False s"
  shows "ok False s (setBalance a w s) (\<lambda>_ s'. cell False s' a \<noteq> None \<and> balance_of s' = (balance_of s)(a := w))"
proof (rule ok_conj)
  have "case setBalance a w s of Inl _ \<Rightarrow> True | Inr (_, s') \<Rightarrow> cell False s' a \<noteq> None"
    using addBalance_dirty unfolding setBalance_def
    by (cases "st_account a s") (auto split: prod.split)
  then show "ok False s (setBalance a w s) (\<lambda>_ s'. cell False s' a \<noteq> None)"
    using setBalance_ok [OF inv, of a w] by (auto simp: ok_def split: sum.splits)
  show "ok False s (setBalance a w s) (\<lambda>_ s'. balance_of s' = (balance_of s)(a := w))"
  proof (rule ok_mono [OF setBalance_ok [OF inv]])
    fix u s'
    assume "view False s' = (view False s)(a \<mapsto> case view False s a of Some v \<Rightarrow> v\<lparr>v_balance := w\<rparr>
      | None \<Rightarrow> fresh False (m_db s) (m_accountStartNonce s) w)"
    from balance_upd [OF this] show "balance_of s' = (balance_of s)(a := w)"
      by (simp split: option.split_asm)
  qed
qed

lemma selfdestruct_wealth:
  assumes t: "paid b (balance_of s a) s t" and s': "balance_of s' = (balance_of t)(a := 0)"
  shows "wealth s' \<le> wealth s"
proof (cases "a = b")
  case True
  then have "balance_of s' = (balance_of s)(a := 0)" using t s' by (simp add: paid_def)
  then show ?thesis using worth_upd [of "balance_of s" a 0] by (simp add: wealth_def)
next
  case False
  then have "balance_of t a = balance_of s a" using t by (simp add: paid_def)
  then show ?thesis
    using worth_upd [of "balance_of t" a 0] s' paid_wealth [OF t] by (simp add: wealth_def)
qed

lemma selfdestruct_st:
  assumes inv: "state_inv False s"
  shows "st_ok s (ext_selfdestruct x b s) (\<lambda>_ s'. cell False s' (x_myAddress x) \<noteq> None)"
  unfolding ext_selfdestruct_def st_ok_def
proof (rule ok_bind [OF inv balance_ok [OF inv, unfolded st_ok_def]])
  fix v s1
  assume s1: "state_inv False s1"
    "(same_accounts s s1 \<and> v = balance_of s (x_myAddress x)) \<and> wealth s1 \<le> wealth s"
  have v: "v = balance_of s1 (x_myAddress x)" using s1(2) by (simp add: same_accounts_def)
  have "ok False s1 (bindE (addBalance b v s1) (\<lambda>(_, s). setBalance (x_myAddress x) 0 s))
    (\<lambda>_ s'. cell False s' (x_myAddress x) \<noteq> None \<and> wealth s' \<le> wealth s1)"
  proof (rule ok_bind [OF s1(1) addBalance_paid [OF s1(1)]])
    fix u t
    assume t: "state_inv False t" "paid b v s1 t"
    show "ok False t (case (u, t) of (_, s) \<Rightarrow> setBalance (x_myAddress x) 0 s)
      (\<lambda>_ s'. cell False s' (x_myAddress x) \<noteq> None \<and> wealth s' \<le> wealth s1)"
      unfolding prod.case
      by (rule ok_mono [OF setBalance_set [OF t(1)]]) (use selfdestruct_wealth t(2) v in blast)
  qed
  then show "ok False s1 (case (v, s1) of (b', s) \<Rightarrow>
      bindE (addBalance b b' s) (\<lambda>(_, s). setBalance (x_myAddress x) 0 s))
    (\<lambda>_ s'. cell False s' (x_myAddress x) \<noteq> None \<and> wealth s' \<le> wealth s)"
    unfolding prod.case by (rule ok_mono) (use s1(2) in auto)
qed

section \<open>Specifications of the executive's operations\<close>

text \<open>\<open>ex_ok\<close>: a result of an operation that starts on \<open>s\<close>. An exception leaves a state that a
  rollback takes back to \<open>s\<close>; the process does not end for want of fuel or depth.\<close>

definition bad_end :: "process \<Rightarrow> bool" where
  "bad_end p \<longleftrightarrow> p \<in> {Running, OutOfFuel, DepthExceeded}"

definition ex_ok :: "state \<Rightarrow> 'a ex \<Rightarrow> ('a \<Rightarrow> state \<Rightarrow> bool) \<Rightarrow> bool" where
  "ex_ok s r Q \<longleftrightarrow> (case r of
       Inl (exn, s') \<Rightarrow> (case exn of ProcessEnd p \<Rightarrow> \<not> bad_end p | _ \<Rightarrow> extends False s s')
     | Inr (x, s') \<Rightarrow> grows s s' \<and> Q x s')"

lemma ex_ok_Inr [simp]: "ex_ok s (Inr (x, s')) Q \<longleftrightarrow> grows s s' \<and> Q x s'"
  by (simp add: ex_ok_def)

lemma ex_ok_mono:
  "ex_ok s r Q \<Longrightarrow> (\<And>x s'. grows s s' \<Longrightarrow> Q x s' \<Longrightarrow> R x s') \<Longrightarrow> ex_ok s r R"
  by (auto simp: ex_ok_def split: sum.splits)

lemma ex_ok_conj: "ex_ok s r P \<Longrightarrow> ex_ok s r Q \<Longrightarrow> ex_ok s r (\<lambda>x s'. P x s' \<and> Q x s')"
  by (cases r) (auto simp: ex_ok_def)

lemma ex_ok_st: "st_ok s r Q \<Longrightarrow> ex_ok s (ex_st r) Q"
  by (auto simp: ex_ok_def ex_st_def st_ok_def ok_def grows_def split: sum.splits)

lemma ex_ok_exit: "st_ok s r Q \<Longrightarrow> ex_ok s (ex_exit r) Q"
  by (auto simp: ex_ok_def ex_exit_def st_ok_def ok_def bad_end_def grows_def split: sum.splits)

lemma ex_ok_trans:
  assumes "state_inv False s" "grows s s'" "ex_ok s' r Q"
  shows "ex_ok s r Q"
  using assms(3) extends_trans [OF assms(1) grows_extends [OF assms(2)]] grows_trans [OF assms(1,2)]
  by (auto simp: ex_ok_def split: sum.splits exec_exn.splits)

lemma ex_ok_bind:
  assumes "state_inv False s" "ex_ok s m P"
    and "\<And>x s'. state_inv False s' \<Longrightarrow> grows s s' \<Longrightarrow> P x s' \<Longrightarrow> ex_ok s' (f (x, s')) Q"
  shows "ex_ok s (bindE m f) Q"
proof (cases m)
  case (Inl e)
  then show ?thesis using assms(2) by (simp add: ex_ok_def)
next
  case (Inr y)
  obtain x s' where y: "y = (x, s')" by fastforce
  have e: "grows s s'" "P x s'" using assms(2) by (simp_all add: Inr y)
  show ?thesis using ex_ok_trans [OF assms(1) e(1) assms(3)] e grows_inv [OF e(1)] by (simp add: Inr y)
qed

text \<open>The same with the specification of the rest relative to the start, for a rest that may roll back.\<close>

lemma ex_ok_bind0:
  assumes "ex_ok s m P" and "\<And>x s'. grows s s' \<Longrightarrow> P x s' \<Longrightarrow> ex_ok s (f (x, s')) Q"
  shows "ex_ok s (bindE m f) Q"
  using assms by (cases m) (auto simp: ex_ok_def)

lemma ex_ok_rlp: "state_inv False s \<Longrightarrow> ex_ok s (ex_rlp r s) (\<lambda>_ s'. s' = s)"
  by (auto simp: ex_ok_def ex_rlp_def extends_refl grows_refl split: sum.splits)

text \<open>A step of the state inside a chain: its specification, and what the rest has to do.\<close>

lemma ex_st_bind:
  assumes "state_inv False s" "st_ok s r P"
    and "\<And>x s'. state_inv False s' \<Longrightarrow> grows s s' \<Longrightarrow> P x s' \<Longrightarrow> ex_ok s' (f (x, s')) Q"
  shows "ex_ok s (bindE (ex_st r) f) Q"
  by (rule ex_ok_bind [OF assms(1) ex_ok_st [OF assms(2)] assms(3)])

lemma nonce_step:
  assumes inv: "state_inv False s"
  shows "ex_ok s (if c then ex_st (incNonce a s) else Inr ((), s)) (\<lambda>_ s0. bumped a s s0 \<and> (\<not> c \<longrightarrow> s0 = s))"
  using ex_ok_st [OF incNonce_st [OF inv]] grows_refl [OF inv] by simp

end
