(* ===== verification/ExecutiveProofs.thy ===== *)
theory ExecutiveProofs
  imports ExecutiveSpec
begin

text \<open>
  The executive on the journal: every operation grows the state it starts from, so a call that
  fails is rolled back to the balances and nonces before it; no call returns more gas than it was
  given, and none makes ether. Setting up calls and creations, running the code, and calls from a
  running frame, each relative to what it is given of the levels below.
\<close>

section \<open>The journal below a call\<close>

text \<open>The accounts of a substate that are to be removed are marked as changed in the cache.\<close>

definition marked :: "state \<Rightarrow> sub_state \<Rightarrow> bool" where
  "marked s sub \<longleftrightarrow> (\<forall>a \<in> selfdestructs sub. cell False s a \<noteq> None)"

lemma marked_grows: "grows s s' \<Longrightarrow> marked s sub \<Longrightarrow> marked s' sub"
  unfolding marked_def using grows_cell by blast

lemma marked_simps [simp]: "selfdestructs sub_empty = {}" "marked s sub_empty" "marked s (sub_clear sub)"
  "marked s (sub_add a b) \<longleftrightarrow> marked s a \<and> marked s b"
  by (auto simp: marked_def sub_empty_def sub_clear_def sub_add_def)

text \<open>An executive that is set up on \<open>s\<close> with its savepoint at \<open>s0\<close>.\<close>

definition ready :: "state \<Rightarrow> executive \<Rightarrow> state \<Rightarrow> bool" where
  "ready s0 e s \<longleftrightarrow> state_inv False s0 \<and> grows s0 s \<and> ex_savepoint e = savepoint s0 \<and>
     (case ex_ext e of None \<Rightarrow> True | Some (x, sub) \<Rightarrow> x_depth x = ex_depth e \<and> selfdestructs sub = {} \<and>
        view False s (x_myAddress x) \<noteq> None \<and> (ex_isCreation e \<longrightarrow> cell False s (x_myAddress x) \<noteq> None))"

lemma revert_ok:
  assumes "state_inv False s0" "grows s0 s" "ex_savepoint e = savepoint s0"
  shows "grows s0 (snd (ex_revert e s))" "same_accounts s0 (snd (ex_revert e s))"
  using rollback_grows [OF assms(1) grows_extends [OF assms(2)]] assms(3) by (simp_all add: ex_revert_def)

section \<open>Setting up\<close>

lemma transfer_ok:
  assumes inv: "state_inv False s"
  shows "ex_ok s (ex_transfer p e s) (\<lambda>r s'. r = (ex_ext e = None, e) \<and>
    view False s' (cp_receiveAddress p) \<noteq> None)"
  unfolding ex_transfer_def
  by (rule ex_st_bind [OF inv transfer_st [OF inv]]) (auto simp: grows_refl)

definition call_set_up :: "state \<Rightarrow> executive \<Rightarrow> u256 \<Rightarrow> bool \<times> executive \<Rightarrow> state \<Rightarrow> bool" where
  "call_set_up s0 e gas r s' \<longleftrightarrow> (case r of (done, e') \<Rightarrow>
     ready s0 e' s' \<and> ex_depth e' = ex_depth e \<and> ex_t e' = ex_t e \<and> done = (ex_ext e' = None) \<and>
     ex_gas e' \<le> gas \<and> (ex_excepted e' \<noteq> TE_None \<longrightarrow> done \<and> same_accounts s0 s'))"

text \<open>What holds once the savepoint is taken, and how it carries to a transfer.\<close>

definition started :: "state \<Rightarrow> executive \<Rightarrow> u256 \<Rightarrow> executive \<Rightarrow> state \<Rightarrow> bool" where
  "started s0 e gas e1 s \<longleftrightarrow> state_inv False s0 \<and> grows s0 s \<and> ex_savepoint e1 = savepoint s0 \<and>
     ex_depth e1 = ex_depth e \<and> ex_t e1 = ex_t e \<and> ex_gas e1 \<le> gas \<and> ex_isCreation e1 = ex_isCreation e"

lemma started_done:
  assumes "started s0 e gas e1 s" "ex_ext e1 = None" "ex_excepted e1 \<noteq> TE_None \<longrightarrow> same_accounts s0 s"
  shows "call_set_up s0 e gas (True, e1) s"
  using assms by (simp add: started_def call_set_up_def ready_def)

lemma started_step: "started s0 e gas e1 s \<Longrightarrow> grows s s' \<Longrightarrow> started s0 e gas e1 s'"
  unfolding started_def using grows_trans by metis

lemma transfer_started:
  assumes "started s0 e gas e1 s" "ex_excepted e1 = TE_None" "\<not> ex_isCreation e"
    and "case ex_ext e1 of None \<Rightarrow> True | Some (x, sub) \<Rightarrow> x_depth x = ex_depth e \<and> x_myAddress x = cp_receiveAddress p \<and> selfdestructs sub = {}"
  shows "ex_ok s (ex_transfer p e1 s) (call_set_up s0 e gas)"
proof (rule ex_ok_mono [OF transfer_ok])
  show "state_inv False s" using assms(1) by (auto simp: started_def grows_inv)
  fix r s'
  assume s': "grows s s'" "r = (ex_ext e1 = None, e1) \<and>
    view False s' (cp_receiveAddress p) \<noteq> None"
  then show "call_set_up s0 e gas r s'"
    using started_step [OF assms(1) s'(1)] assms(2-)
    by (auto simp: started_def call_set_up_def ready_def split: option.splits)
qed

lemma word_sub_le: "\<not> unat (x :: u256) < g \<Longrightarrow> x - of_nat g \<le> x"
proof -
  assume g: "\<not> unat x < g"
  have "unat x < 2 ^ LENGTH(256)" by (rule unsigned_less)
  then have "g < 2 ^ LENGTH(256)" using g by linarith
  then have "unat (of_nat g :: u256) = g" by (simp add: unsigned_of_nat take_bit_nat_eq_self)
  then show ?thesis using g by (simp add: word_le_nat_alt unat_sub)
qed

lemma call_precompiled_ok:
  assumes st: "started s0 e (cp_gas p) e0 s0" and e0: "ex_excepted e0 = TE_None" "ex_ext e0 = None" "\<not> ex_isCreation e"
  shows "ex_ok s0 (call_precompiled w p e0 s0) (call_set_up s0 e (cp_gas p))"
proof -
  let ?g = "costOfPrecompiled (w_engine w) (cp_codeAddress p) (cp_data p)"
  have inv: "state_inv False s0" using st by (simp add: started_def)
  show ?thesis
  proof (cases "unat (cp_gas p) < ?g")
    case True
    let ?e = "e0\<lparr>ex_excepted := TE_OutOfGasBase\<rparr>"
    have st': "started s0 e (cp_gas p) ?e s'" if "grows s0 s'" for s'
      using started_step [OF st that] by (simp add: started_def)
    have touched: "ex_ok s0 (bindE (ex_st (addBalance (cp_codeAddress p) 0 s0)) (\<lambda>(_, s). Inr ((True, ?e), s)))
        (call_set_up s0 e (cp_gas p))"
    proof (rule ex_ok_bind0 [OF ex_ok_st [OF touch_st [OF inv]]])
      fix u s'
      assume s': "grows s0 s'" "same_accounts s0 s'"
      show "ex_ok s0 (case (u, s') of (_, s) \<Rightarrow> Inr ((True, ?e), s)) (call_set_up s0 e (cp_gas p))"
        using s'(1) started_done [OF st' [OF s'(1)]] s'(2) e0 by simp
    qed
    have "call_set_up s0 e (cp_gas p) (True, ?e) s0"
      by (rule started_done [OF st' [OF grows_refl [OF inv]]]) (simp_all add: e0)
    then show ?thesis
      using True touched by (simp add: call_precompiled_def Let_def grows_refl [OF inv])
  next
    case False
    obtain success out where x: "executePrecompiled (w_engine w) (cp_codeAddress p) (cp_data p) = (success, out)"
      by fastforce
    let ?e = "e0\<lparr>ex_gas := cp_gas p - of_nat ?g, ex_output := out\<rparr>"
    have st': "started s0 e (cp_gas p) ?e s0"
      using st word_sub_le [OF False] by (simp add: started_def)
    show ?thesis
    proof (cases success)
      case True
      then show ?thesis
        using False x transfer_started [OF st'] e0 by (simp add: call_precompiled_def)
    next
      case F: False
      have "started s0 e (cp_gas p) (?e\<lparr>ex_gas := 0, ex_excepted := TE_OutOfGas\<rparr>) s0"
        using st by (simp add: started_def)
      from started_done [OF this] show ?thesis
        using False F x e0 by (simp add: call_precompiled_def grows_refl [OF inv])
    qed
  qed
qed

lemma call_load_ok:
  assumes st: "started s0 e (cp_gas p) e0 s0" and e0: "ex_ext e0 = None" "ex_depth e0 = ex_depth e"
  shows "ex_ok s0 (call_load p gp orig e0 s0) (\<lambda>e1 s. started s0 e (cp_gas p) e1 s \<and>
    ex_excepted e1 = ex_excepted e0 \<and> (case ex_ext e1 of None \<Rightarrow> True | Some (x, sub) \<Rightarrow>
      x_depth x = ex_depth e \<and> x_myAddress x = cp_receiveAddress p \<and> selfdestructs sub = {}))"
    (is "ex_ok s0 _ ?Q")
proof -
  have inv: "state_inv False s0" using st by (simp add: started_def)
  have fin: "ex_ok s' (Inr (e0\<lparr>ex_gas := cp_gas p, ex_ext := x\<rparr>, s')) ?Q"
    if "grows s0 s'" "case x of None \<Rightarrow> True | Some (x, sub) \<Rightarrow>
      x_depth x = ex_depth e \<and> x_myAddress x = cp_receiveAddress p \<and> selfdestructs sub = {}" for x s'
    using started_step [OF st that(1)] that(2) grows_refl [OF grows_inv [OF that(1)]] by (simp add: started_def)
  show ?thesis
    unfolding call_load_def Let_def
  proof (rule ex_st_bind [OF inv addressHasCode_ok [OF inv]])
    fix hasCode s1
    assume s1: "state_inv False s1" "grows s0 s1"
    have "ex_ok s1 (bindE (ex_st (st_code (cp_codeAddress p) s1)) (\<lambda>(c, s).
          bindE (ex_st (st_codeHash (cp_codeAddress p) s)) (\<lambda>(codeHash, s).
          bindE (ex_st (st_version (cp_codeAddress p) s)) (\<lambda>(version, s).
            Inr (e0\<lparr>ex_gas := cp_gas p, ex_ext := Some
              (call_ext (e0\<lparr>ex_gas := cp_gas p\<rparr>) p gp orig c codeHash version, sub_empty)\<rparr>, s))))) ?Q"
    proof (rule ex_st_bind [OF s1(1) code_st [OF s1(1)]])
      fix c s2
      assume s2: "state_inv False s2" "grows s1 s2"
      show "ex_ok s2 (case (c, s2) of (c, s) \<Rightarrow>
          bindE (ex_st (st_codeHash (cp_codeAddress p) s)) (\<lambda>(codeHash, s).
          bindE (ex_st (st_version (cp_codeAddress p) s)) (\<lambda>(version, s).
            Inr (e0\<lparr>ex_gas := cp_gas p, ex_ext := Some
              (call_ext (e0\<lparr>ex_gas := cp_gas p\<rparr>) p gp orig c codeHash version, sub_empty)\<rparr>, s)))) ?Q"
        unfolding prod.case
      proof (rule ex_st_bind [OF s2(1) codeHash_ok [OF s2(1)]])
        fix ch s3
        assume s3: "state_inv False s3" "grows s2 s3"
        show "ex_ok s3 (case (ch, s3) of (codeHash, s) \<Rightarrow>
          bindE (ex_st (st_version (cp_codeAddress p) s)) (\<lambda>(version, s).
            Inr (e0\<lparr>ex_gas := cp_gas p, ex_ext := Some
              (call_ext (e0\<lparr>ex_gas := cp_gas p\<rparr>) p gp orig c codeHash version, sub_empty)\<rparr>, s))) ?Q"
          unfolding prod.case
        proof (rule ex_st_bind [OF s3(1) version_ok [OF s3(1)]])
          fix v s4
          assume s4: "state_inv False s4" "grows s3 s4"
          have "grows s0 s4"
            by (rule grows_trans [OF inv s1(2) grows_trans [OF s1(1) s2(2) grows_trans [OF s2(1) s3(2) s4(2)]]])
          from fin [OF this] show "ex_ok s4 (case (v, s4) of (version, s) \<Rightarrow>
            Inr (e0\<lparr>ex_gas := cp_gas p, ex_ext := Some
              (call_ext (e0\<lparr>ex_gas := cp_gas p\<rparr>) p gp orig c ch version, sub_empty)\<rparr>, s)) ?Q"
            using e0 grows_refl [OF s4(1)] by (simp add: call_ext_def sub_empty_def)
        qed
      qed
    qed
    moreover have "e0\<lparr>ex_gas := cp_gas p\<rparr> = e0\<lparr>ex_gas := cp_gas p, ex_ext := None\<rparr>" using e0(1) by simp
    then have "ex_ok s1 (Inr (e0\<lparr>ex_gas := cp_gas p\<rparr>, s1)) ?Q" using fin [OF s1(2), of None] by simp
    ultimately show "ex_ok s1 (case (hasCode, s1) of (hasCode, s) \<Rightarrow>
        if hasCode then bindE (ex_st (st_code (cp_codeAddress p) s)) (\<lambda>(c, s).
          bindE (ex_st (st_codeHash (cp_codeAddress p) s)) (\<lambda>(codeHash, s).
          bindE (ex_st (st_version (cp_codeAddress p) s)) (\<lambda>(version, s).
            Inr (e0\<lparr>ex_gas := cp_gas p, ex_ext := Some
              (call_ext (e0\<lparr>ex_gas := cp_gas p\<rparr>) p gp orig c codeHash version, sub_empty)\<rparr>, s))))
        else Inr (e0\<lparr>ex_gas := cp_gas p\<rparr>, s)) ?Q"
      by simp
  qed
qed

lemma executive_call_ok:
  assumes inv: "state_inv False s"
    and e: "ex_excepted e = TE_None" "ex_ext e = None" "\<not> ex_isCreation e" "ex_gas e = 0"
  shows "ex_ok s (executive_call w p gp orig e s) (\<lambda>r s'. \<exists>s0. grows s s0 \<and> bumped (cp_senderAddress p) s s0 \<and>
    (m_type (ex_t e) = NullTransaction \<longrightarrow> s0 = s) \<and> call_set_up s0 e (cp_gas p) r s')"
  unfolding executive_call_def Let_def
proof (rule ex_ok_bind [OF inv, where P = "\<lambda>_ s0. bumped (cp_senderAddress p) s s0 \<and>
    (m_type (ex_t e) = NullTransaction \<longrightarrow> s0 = s)"])
  show "ex_ok s (if m_type (ex_t e) \<noteq> NullTransaction \<and> (cp_senderAddress p \<noteq> MaxAddress
                \<or> w_number w < constantinopleForkBlock (se_params (w_engine w)))
            then ex_st (incNonce (cp_senderAddress p) s) else Inr ((), s))
         (\<lambda>_ s0. bumped (cp_senderAddress p) s s0 \<and> (m_type (ex_t e) = NullTransaction \<longrightarrow> s0 = s))"
    by (rule ex_ok_mono [OF nonce_step [OF inv]]) blast
next
  fix u s0
  assume s0: "state_inv False s0" "grows s s0"
    "bumped (cp_senderAddress p) s s0 \<and> (m_type (ex_t e) = NullTransaction \<longrightarrow> s0 = s)"
  let ?e = "e\<lparr>ex_savepoint := savepoint s0\<rparr>"
  have st: "started s0 e (cp_gas p) ?e s0" using e by (simp add: started_def s0 grows_refl [OF s0(1)])
  have "ex_ok s0 (bindE (call_load p gp orig ?e s0) (\<lambda>(e, s). ex_transfer p e s)) (call_set_up s0 e (cp_gas p))"
    by (rule ex_ok_bind [OF s0(1) call_load_ok [OF st]]) (use e transfer_started in auto)
  then have "ex_ok s0 (if isPrecompiled (w_engine w) (cp_codeAddress p) (w_number w) then call_precompiled w p ?e s0
      else bindE (call_load p gp orig ?e s0) (\<lambda>(e, s). ex_transfer p e s)) (call_set_up s0 e (cp_gas p))"
    using call_precompiled_ok [OF st] e by simp
  then show "ex_ok s0 (case (u, s0) of (_, s) \<Rightarrow> if isPrecompiled (w_engine w) (cp_codeAddress p) (w_number w)
        then call_precompiled w p (e\<lparr>ex_savepoint := savepoint s\<rparr>) s
        else bindE (call_load p gp orig (e\<lparr>ex_savepoint := savepoint s\<rparr>) s) (\<lambda>(e, s). ex_transfer p e s))
      (\<lambda>r s'. \<exists>s0. grows s s0 \<and> bumped (cp_senderAddress p) s s0 \<and> (m_type (ex_t e) = NullTransaction \<longrightarrow> s0 = s) \<and>
        call_set_up s0 e (cp_gas p) r s')"
    unfolding prod.case by (rule ex_ok_mono) (use s0 in blast)
qed

section \<open>Setting up a creation\<close>

lemma create_account_ok:
  assumes st: "started s0 e gas e1 s" and e1: "ex_excepted e1 = TE_None" "ex_ext e1 = None" "ex_isCreation e1"
  shows "ex_ok s (create_account w sender endowment gp init orig ver e1 s) (call_set_up s0 e gas)"
proof -
  have inv: "state_inv False s" using st by (auto simp: started_def grows_inv)
  show ?thesis
    unfolding create_account_def Let_def
  proof (rule ex_st_bind [OF inv transfer_st [OF inv]])
    fix u s1
    assume s1: "state_inv False s1" "grows s s1"
    let ?a = "ex_newAddress e1"
    let ?n = "if w_number w \<ge> EIP158ForkBlock (se_params (w_engine w))
      then m_accountStartNonce s1 + 1 else m_accountStartNonce s1"
    have "ex_ok s1 (bindE (ex_st (st_setNonce ?a ?n s1)) (\<lambda>(_, s).
      if init \<noteq> []
      then Inr ((False, e1\<lparr>ex_ext := Some
             (\<lparr>x_myAddress = ?a, x_caller = sender, x_origin = orig, x_value = endowment,
               x_gasPrice = gp, x_data = [], x_code = init, x_codeHash = st_sha3 (clearStorage ?a s) init,
               x_version = ver, x_depth = ex_depth e1, x_isCreate = True, x_staticCall = False\<rparr>,
              sub_empty)\<rparr>), clearStorage ?a s)
      else bindE (ex_st (st_setCode ?a [] ver (clearStorage ?a s))) (\<lambda>(_, s).
             Inr ((ex_ext e1 = None, e1), s)))) (call_set_up s0 e gas)"
    proof (rule ex_st_bind [OF s1(1) setNonce_st [OF s1(1)]])
      fix u s2
      assume s2: "state_inv False s2" "grows s1 s2" "cell False s2 ?a \<noteq> None"
      let ?s = "clearStorage ?a s2"
      have c: "grows s2 ?s" by (rule clearStorage_grows [OF s2(1,3)])
      have cell: "cell False ?s ?a \<noteq> None" by (rule grows_cell [OF c s2(3)])
      have st': "started s0 e gas e1 ?s"
        by (rule started_step [OF started_step [OF started_step [OF st s1(2)] s2(2)] c])
      let ?x = "\<lparr>x_myAddress = ?a, x_caller = sender, x_origin = orig, x_value = endowment,
               x_gasPrice = gp, x_data = [], x_code = init, x_codeHash = st_sha3 ?s init,
               x_version = ver, x_depth = ex_depth e1, x_isCreate = True, x_staticCall = False\<rparr>"
      have "call_set_up s0 e gas (False, e1\<lparr>ex_ext := Some (?x, sub_empty)\<rparr>) ?s"
        using st' e1 cell view_exists_cell [OF cell] by (simp add: started_def call_set_up_def ready_def)
      moreover have "ex_ok ?s (bindE (ex_st (st_setCode ?a [] ver ?s)) (\<lambda>(_, s).
             Inr ((ex_ext e1 = None, e1), s))) (call_set_up s0 e gas)"
      proof (rule ex_st_bind [OF grows_inv [OF c] setCode_st [OF grows_inv [OF c] cell]])
        fix v s3
        assume s3: "state_inv False s3" "grows ?s s3"
        show "ex_ok s3 (case (v, s3) of (_, s) \<Rightarrow> Inr ((ex_ext e1 = None, e1), s)) (call_set_up s0 e gas)"
          using started_done [OF started_step [OF st' s3(2)]] e1 grows_refl [OF s3(1)] by simp
      qed
      ultimately show "ex_ok s2 (case (u, s2) of (_, s) \<Rightarrow> if init \<noteq> []
          then Inr ((False, e1\<lparr>ex_ext := Some
             (\<lparr>x_myAddress = ?a, x_caller = sender, x_origin = orig, x_value = endowment,
               x_gasPrice = gp, x_data = [], x_code = init, x_codeHash = st_sha3 (clearStorage ?a s) init,
               x_version = ver, x_depth = ex_depth e1, x_isCreate = True, x_staticCall = False\<rparr>,
              sub_empty)\<rparr>), clearStorage ?a s)
          else bindE (ex_st (st_setCode ?a [] ver (clearStorage ?a s))) (\<lambda>(_, s).
             Inr ((ex_ext e1 = None, e1), s))) (call_set_up s0 e gas)"
        using c by (auto intro: ex_ok_trans [OF s2(1) c])
    qed
    then show "ex_ok s1 (case (u, s1) of (_, s) \<Rightarrow>
      bindE (ex_st (requireAccountStartNonce s)) (\<lambda>(n, s).
      bindE (ex_st (st_setNonce ?a (if w_number w \<ge> EIP158ForkBlock (se_params (w_engine w)) then n + 1 else n) s)) (\<lambda>(_, s).
      if init \<noteq> []
      then Inr ((False, e1\<lparr>ex_ext := Some
             (\<lparr>x_myAddress = ?a, x_caller = sender, x_origin = orig, x_value = endowment,
               x_gasPrice = gp, x_data = [], x_code = init, x_codeHash = st_sha3 (clearStorage ?a s) init,
               x_version = ver, x_depth = ex_depth e1, x_isCreate = True, x_staticCall = False\<rparr>,
              sub_empty)\<rparr>), clearStorage ?a s)
      else bindE (ex_st (st_setCode ?a [] ver (clearStorage ?a s))) (\<lambda>(_, s).
             Inr ((ex_ext e1 = None, e1), s))))) (call_set_up s0 e gas)"
      by (auto simp: ex_ok_def ex_st_def requireAccountStartNonce_def grows_refl [OF s1(1)] extends_refl [OF s1(1)] split: sum.splits)
  qed
qed

lemma executeCreate_ok:
  assumes inv: "state_inv False s" and e: "ex_excepted e = TE_None" "ex_ext e = None"
  shows "ex_ok s (executeCreate w sender endowment gp gas init orig ver e s) (\<lambda>r s'. \<exists>s0.
    grows s s0 \<and> bumped sender s s0 \<and> call_set_up s0 e gas r s')"
  unfolding executeCreate_def Let_def
proof (rule ex_ok_bind [OF inv, where P = "\<lambda>_ s0. bumped sender s s0"])
  show "ex_ok s (if sender \<noteq> MaxAddress \<or> w_number w < se_experimentalForkBlock (w_engine w)
      then ex_st (incNonce sender s) else Inr ((), s)) (\<lambda>_ s0. bumped sender s s0)"
    by (rule ex_ok_mono [OF nonce_step [OF inv]]) blast
next
  fix u s0
  assume s0: "state_inv False s0" "grows s s0" "bumped sender s s0"
  let ?e = "e\<lparr>ex_savepoint := savepoint s0, ex_isCreation := True, ex_gas := gas\<rparr>"
  let ?f = "e\<lparr>ex_isCreation := True\<rparr>"
  have f: "call_set_up s0 ?f gas = call_set_up s0 e gas"
    by (simp add: call_set_up_def fun_eq_iff)
  have st: "started s0 ?f gas ?e s" if "grows s0 s" for s
    using that s0 by (simp add: started_def)
  have ex: "call_set_up s0 e gas (case ex_revert (?e\<lparr>ex_gas := 0, ex_excepted := TE_AddressAlreadyUsed\<rparr>) s of
      (e, s) \<Rightarrow> (True, e\<lparr>ex_ext := None\<rparr>)) (snd (ex_revert (?e\<lparr>ex_gas := 0, ex_excepted := TE_AddressAlreadyUsed\<rparr>) s))"
    if "grows s0 s" for s
    using revert_ok [OF s0(1) that, of "?e\<lparr>ex_gas := 0, ex_excepted := TE_AddressAlreadyUsed\<rparr>"] s0 e
    by (simp add: call_set_up_def ready_def ex_revert_def)
  have "ex_ok s0 (bindE (ex_st (addressHasCode (ex_newAddress ?e) s0)) (\<lambda>(hasCode, s).
     bindE (if hasCode then Inr (True, s)
            else bindE (ex_st (getNonce (ex_newAddress ?e) s)) (\<lambda>(n, s). Inr (n > 0, s))) (\<lambda>(accountAlreadyExist, s).
     if accountAlreadyExist
     then case ex_revert (?e\<lparr>ex_gas := 0, ex_excepted := TE_AddressAlreadyUsed\<rparr>) s of
            (e, s) \<Rightarrow> Inr ((True, e\<lparr>ex_ext := None\<rparr>), s)
     else create_account w sender endowment gp init orig ver ?e s))) (call_set_up s0 e gas)"
  proof (rule ex_ok_bind0 [OF ex_ok_st [OF addressHasCode_ok [OF s0(1)]]])
    fix hasCode s1
    assume s1: "grows s0 s1"
    let ?m = "if hasCode then Inr (True, s1)
            else bindE (ex_st (getNonce (ex_newAddress ?e) s1)) (\<lambda>(n, s). Inr (n > 0, s))"
    have q: "ex_ok s0 ?m (\<lambda>_ _. True)"
    proof (rule ex_ok_trans [OF s0(1) s1])
      have i: "state_inv False s1" by (rule grows_inv [OF s1])
      show "ex_ok s1 ?m (\<lambda>_ _. True)"
        using ex_st_bind [OF i getNonce_ok [OF i], where f = "\<lambda>(n, s). Inr (n > 0, s)" and Q = "\<lambda>_ _. True"]
        by (simp add: grows_refl [OF i] grows_refl)
    qed
    have "ex_ok s0 (bindE ?m (\<lambda>(accountAlreadyExist, s).
     if accountAlreadyExist
     then case ex_revert (?e\<lparr>ex_gas := 0, ex_excepted := TE_AddressAlreadyUsed\<rparr>) s of
            (e, s) \<Rightarrow> Inr ((True, e\<lparr>ex_ext := None\<rparr>), s)
     else create_account w sender endowment gp init orig ver ?e s)) (call_set_up s0 e gas)"
    proof (rule ex_ok_bind0 [OF q])
      fix b s2
      assume s2: "grows s0 s2"
      have c: "ex_ok s0 (create_account w sender endowment gp init orig ver ?e s2) (call_set_up s0 e gas)"
        using ex_ok_trans [OF s0(1) s2 create_account_ok [OF st [OF s2]]] e f by simp
      show "ex_ok s0 (case (b, s2) of (accountAlreadyExist, s) \<Rightarrow> if accountAlreadyExist
     then case ex_revert (?e\<lparr>ex_gas := 0, ex_excepted := TE_AddressAlreadyUsed\<rparr>) s of
            (e, s) \<Rightarrow> Inr ((True, e\<lparr>ex_ext := None\<rparr>), s)
     else create_account w sender endowment gp init orig ver ?e s) (call_set_up s0 e gas)"
      proof (cases b)
        case True
        show ?thesis using True ex [OF s2] revert_ok(1) [OF s0(1) s2, of "?e\<lparr>ex_gas := 0, ex_excepted := TE_AddressAlreadyUsed\<rparr>"]
          by (simp add: ex_revert_def)
      next
        case False
        then show ?thesis using c by simp
      qed
    qed
    then show "ex_ok s0 (case (hasCode, s1) of (hasCode, s) \<Rightarrow>
     bindE (if hasCode then Inr (True, s)
            else bindE (ex_st (getNonce (ex_newAddress ?e) s)) (\<lambda>(n, s). Inr (n > 0, s))) (\<lambda>(accountAlreadyExist, s).
     if accountAlreadyExist
     then case ex_revert (?e\<lparr>ex_gas := 0, ex_excepted := TE_AddressAlreadyUsed\<rparr>) s of
            (e, s) \<Rightarrow> Inr ((True, e\<lparr>ex_ext := None\<rparr>), s)
     else create_account w sender endowment gp init orig ver ?e s)) (call_set_up s0 e gas)"
      unfolding prod.case .
  qed
  then show "ex_ok s0 (case (u, s0) of (_, s) \<Rightarrow>
     bindE (ex_st (addressHasCode (ex_newAddress (e\<lparr>ex_savepoint := savepoint s, ex_isCreation := True, ex_gas := gas\<rparr>)) s)) (\<lambda>(hasCode, s').
     bindE (if hasCode then Inr (True, s')
            else bindE (ex_st (getNonce (ex_newAddress (e\<lparr>ex_savepoint := savepoint s, ex_isCreation := True, ex_gas := gas\<rparr>)) s')) (\<lambda>(n, s). Inr (n > 0, s))) (\<lambda>(accountAlreadyExist, s').
     if accountAlreadyExist
     then case ex_revert (e\<lparr>ex_savepoint := savepoint s, ex_isCreation := True, ex_gas := gas, ex_gas := 0, ex_excepted := TE_AddressAlreadyUsed\<rparr>) s' of
            (e, s) \<Rightarrow> Inr ((True, e\<lparr>ex_ext := None\<rparr>), s)
     else create_account w sender endowment gp init orig ver (e\<lparr>ex_savepoint := savepoint s, ex_isCreation := True, ex_gas := gas\<rparr>) s')))
    (\<lambda>r s'. \<exists>s0. grows s s0 \<and> bumped sender s s0 \<and> call_set_up s0 e gas r s')"
    unfolding prod.case by (rule ex_ok_mono) (use s0 in blast)
qed

text \<open>A query before the creation changes nothing.\<close>

lemma query_create:
  assumes inv: "state_inv False s" and q: "st_ok s m (\<lambda>_ s'. same_accounts s s')"
    and f: "\<And>x s'. state_inv False s' \<Longrightarrow> ex_ok s' (f (x, s')) (\<lambda>r t. \<exists>s0. grows s' s0 \<and> bumped a s' s0 \<and> call_set_up s0 e gas r t)"
  shows "ex_ok s (bindE (ex_st m) f) (\<lambda>r t. \<exists>s0. grows s s0 \<and> bumped a s s0 \<and> call_set_up s0 e gas r t)"
proof (rule ex_st_bind [OF inv q])
  fix x s'
  assume s': "state_inv False s'" "grows s s'" "same_accounts s s'"
  show "ex_ok s' (f (x, s')) (\<lambda>r t. \<exists>s0. grows s s0 \<and> bumped a s s0 \<and> call_set_up s0 e gas r t)"
    by (rule ex_ok_mono [OF f [OF s'(1)]])
      (use bumped_same [OF s'(3)] grows_trans [OF inv s'(2)] in blast)
qed

lemma create2Opcode_ok:
  assumes inv: "state_inv False s" and e: "ex_excepted e = TE_None" "ex_ext e = None"
  shows "ex_ok s (create2Opcode w sender endowment gp gas init orig salt e s) (\<lambda>r s'. \<exists>s0.
    grows s s0 \<and> bumped sender s s0 \<and> call_set_up s0 e gas r s')"
  unfolding create2Opcode_def
proof (rule query_create [OF inv version_ok [OF inv]])
  fix v s'
  assume "state_inv False s'"
  from executeCreate_ok [OF this, of "e\<lparr>ex_newAddress := right160 (st_sha3 s'
            ([0xff] @ hash_bytes sender @ hash_bytes salt @ hash_bytes (st_sha3 s' init)))\<rparr>"] e
  show "ex_ok s' (case (v, s') of (version, s) \<Rightarrow> executeCreate w sender endowment gp gas init orig version
         (e\<lparr>ex_newAddress := right160 (st_sha3 s
            ([0xff] @ hash_bytes sender @ hash_bytes salt @ hash_bytes (st_sha3 s init)))\<rparr>) s)
      (\<lambda>r s''. \<exists>s0. grows s' s0 \<and> bumped sender s' s0 \<and> call_set_up s0 e gas r s'')"
    by (simp add: call_set_up_def)
qed

lemma createOpcode_ok:
  assumes inv: "state_inv False s" and e: "ex_excepted e = TE_None" "ex_ext e = None"
  shows "ex_ok s (createOpcode w sender endowment gp gas init orig e s) (\<lambda>r s'. \<exists>s0.
    grows s s0 \<and> bumped sender s s0 \<and> call_set_up s0 e gas r s')"
  unfolding createOpcode_def
proof (rule query_create [OF inv version_ok [OF inv]])
  fix v s1
  assume s1: "state_inv False s1"
  have "ex_ok s1 (bindE (ex_st (getNonce sender s1)) (\<lambda>(nonce, s).
     bindE (ex_rlp (rlp_sender_nonce sender nonce) s) (\<lambda>(r, s).
       executeCreate w sender endowment gp gas init orig v
         (e\<lparr>ex_newAddress := right160 (st_sha3 s r)\<rparr>) s))) (\<lambda>r s''. \<exists>s0. grows s1 s0 \<and> bumped sender s1 s0 \<and> call_set_up s0 e gas r s'')"
  proof (rule query_create [OF s1 getNonce_ok [OF s1]])
    fix n s2
    assume s2: "state_inv False s2"
    have "ex_ok s2 (executeCreate w sender endowment gp gas init orig v (e\<lparr>ex_newAddress := right160 (st_sha3 s2 r)\<rparr>) s2)
        (\<lambda>r s''. \<exists>s0. grows s2 s0 \<and> bumped sender s2 s0 \<and> call_set_up s0 e gas r s'')" for r
      using executeCreate_ok [OF s2, of "e\<lparr>ex_newAddress := right160 (st_sha3 s2 r)\<rparr>"] e by (simp add: call_set_up_def)
    then show "ex_ok s2 (case (n, s2) of (nonce, s) \<Rightarrow>
       bindE (ex_rlp (rlp_sender_nonce sender nonce) s) (\<lambda>(r, s).
         executeCreate w sender endowment gp gas init orig v (e\<lparr>ex_newAddress := right160 (st_sha3 s r)\<rparr>) s))
       (\<lambda>r s''. \<exists>s0. grows s2 s0 \<and> bumped sender s2 s0 \<and> call_set_up s0 e gas r s'')"
      using ex_ok_rlp [OF s2, of "rlp_sender_nonce sender n"]
      by (cases "rlp_sender_nonce sender n") (simp_all add: ex_rlp_def ex_ok_def)
  qed
  then show "ex_ok s1 (case (v, s1) of (version, s) \<Rightarrow> bindE (ex_st (getNonce sender s)) (\<lambda>(nonce, s).
     bindE (ex_rlp (rlp_sender_nonce sender nonce) s) (\<lambda>(r, s).
       executeCreate w sender endowment gp gas init orig version
         (e\<lparr>ex_newAddress := right160 (st_sha3 s r)\<rparr>) s))) (\<lambda>r s''. \<exists>s0. grows s1 s0 \<and> bumped sender s1 s0 \<and> call_set_up s0 e gas r s'')"
    by simp
qed

section \<open>Running the code\<close>

text \<open>What the executive relies on of a runner, at \<open>n\<close> levels above the depth limit.\<close>

definition run_ok :: "nat \<Rightarrow> runner \<Rightarrow> bool" where
  "run_ok n run \<longleftrightarrow> (\<forall>x gas h. x_depth x + n = 1024 \<and> h_process h = Running \<and> state_inv False (h_state h) \<and>
     view False (h_state h) (x_myAddress x) \<noteq> None \<and> marked (h_state h) (h_sub h) \<longrightarrow>
     (case run x gas h of (r, gas', h') \<Rightarrow> h_process h' \<notin> {OutOfFuel, DepthExceeded} \<and>
        (h_process h' = Running \<longrightarrow> grows (h_state h) (h_state h') \<and> marked (h_state h') (h_sub h') \<and>
          gas' \<le> gas)))"

text \<open>What a run of the code leaves: an exception restores the balances and nonces of the savepoint.\<close>

definition gone :: "state \<Rightarrow> executive \<Rightarrow> executive \<Rightarrow> state \<Rightarrow> bool" where
  "gone s0 e0 e s \<longleftrightarrow> ex_gas e \<le> ex_gas e0 \<and> ex_t e = ex_t e0 \<and>
     (case ex_ext e of None \<Rightarrow> True | Some (x, sub) \<Rightarrow> marked s sub) \<and>
     (ex_excepted e \<noteq> TE_None \<longrightarrow> same_accounts s0 s \<and>
        (case ex_ext e of None \<Rightarrow> True | Some (x, sub) \<Rightarrow> sub = sub_clear sub))"

lemma go_catch_ok:
  assumes "state_inv False s0" "grows s0 s" "ex_savepoint e = savepoint s0" "ex_gas e \<le> ex_gas e0" "ex_t e = ex_t e0"
  shows "ex_ok s0 (go_catch x e s) (gone s0 e0)"
  using revert_ok [OF assms(1,2)] assms(3-5)
  by (cases x) (auto simp: go_catch_def ex_revert_def ex_ok_def gone_def bad_end_def sub_clear_def marked_def split: option.splits)

lemma deposit_le: "deposit sch gas out = Inr (g, c) \<Longrightarrow> g \<le> gas"
  using word_sub_le [of gas "length c * createDataGas sch"]
  by (auto simp: deposit_def simp del: of_nat_mult split: if_splits)

lemma ex_go_ok:
  assumes rdy: "ready s0 e s" and none: "ex_excepted e = TE_None" and run: "run_ok n run" "ex_depth e + n = 1024"
  shows "ex_ok s0 (ex_go w run e s) (gone s0 e)"
proof (cases "ex_ext e")
  case None
  then show ?thesis using rdy none by (simp add: ex_go_def ready_def gone_def)
next
  case (Some y)
  obtain x sub where y: "y = (x, sub)" by fastforce
  let ?s = "if ex_isCreation e then clearStorage (x_myAddress x) s else s"
  have s: "state_inv False s0" "grows s0 s" "ex_savepoint e = savepoint s0" "x_depth x = ex_depth e"
    "view False s (x_myAddress x) \<noteq> None" "ex_isCreation e \<longrightarrow> cell False s (x_myAddress x) \<noteq> None"
    "selfdestructs sub = {}"
    using rdy Some y by (simp_all add: ready_def)
  have inv: "state_inv False s" by (rule grows_inv [OF s(2)])
  have c: "grows s ?s"
    using clearStorage_grows [OF inv, of "x_myAddress x"] s(6) grows_refl [OF inv] by simp
  obtain r gas h where h: "run x (ex_gas e) \<lparr>h_state = ?s, h_sub = sub, h_process = Running\<rparr> = (r, gas, h)"
    by (metis prod_cases3)
  have "x_depth x + n = 1024" using run(2) s(4) by simp
  then have R: "h_process h \<notin> {OutOfFuel, DepthExceeded}"
    "h_process h = Running \<Longrightarrow> grows ?s (h_state h) \<and> marked (h_state h) (h_sub h) \<and> gas \<le> ex_gas e"
    using run(1) [unfolded run_ok_def, rule_format, of x "\<lparr>h_state = ?s, h_sub = sub, h_process = Running\<rparr>" "ex_gas e"]
      h grows_inv [OF c] grows_exists [OF c s(5)] s(7) unfolding marked_def by simp_all
  show ?thesis
  proof (cases "h_process h = Running")
    case False
    then show ?thesis
      using R(1) Some y h by (simp add: ex_go_def ex_ok_def bad_end_def Let_def)
  next
    case True
    let ?e = "e\<lparr>ex_gas := gas, ex_ext := Some (x, h_sub h)\<rparr>"
    have t: "grows ?s (h_state h)" "gas \<le> ex_gas e" "marked (h_state h) (h_sub h)" using R(2) True by auto
    have st: "grows s (h_state h)" by (rule grows_trans [OF inv c t(1)])
    have 0: "grows s0 (h_state h)" by (rule grows_trans [OF s(1,2) st])
    have caught: "ex_ok s0 (go_catch exn ?e (h_state h)) (gone s0 e)" for exn
      by (rule go_catch_ok [OF s(1) 0]) (simp_all add: s(3) t(2))
    have eq: "ex_go w run e s = (case r of
                Inl exn \<Rightarrow> go_catch exn ?e (h_state h)
              | Inr out \<Rightarrow>
                  if ex_isCreation e
                  then case deposit (w_schedule w) gas out of
                         Inl exn \<Rightarrow> go_catch exn ?e (h_state h)
                       | Inr (g, code) \<Rightarrow>
                           bindE (ex_exit (st_setCode (x_myAddress x) code (x_version x) (h_state h))) (\<lambda>(_, s).
                             Inr (?e\<lparr>ex_gas := g\<rparr>, s))
                  else Inr (?e\<lparr>ex_output := out\<rparr>, h_state h))"
      unfolding ex_go_def Some y option.case prod.case Let_def h by (simp add: True cong del: sum.case_cong_weak)
    have stored: "ex_ok s0 (bindE (ex_exit (st_setCode (x_myAddress x) code (x_version x) (h_state h))) (\<lambda>(_, s).
        Inr (?e\<lparr>ex_gas := g\<rparr>, s))) (gone s0 e)"
      if "ex_isCreation e" "g \<le> gas" for g code
    proof -
      have "ex_ok (h_state h) (ex_exit (st_setCode (x_myAddress x) code (x_version x) (h_state h)))
          (\<lambda>_ s'. grows (h_state h) s')"
        by (rule ex_ok_mono [OF ex_ok_exit [OF setCode_st [OF grows_inv [OF 0] grows_cell [OF st]]]])
          (use s(6) that in auto)
      from ex_ok_trans [OF s(1) 0 this] show ?thesis
      proof (rule ex_ok_bind0)
        fix u s'
        assume "grows s0 s'" "grows (h_state h) s'"
        then show "ex_ok s0 (case (u, s') of (_, s) \<Rightarrow> Inr (?e\<lparr>ex_gas := g\<rparr>, s)) (gone s0 e)"
          using marked_grows [OF _ t(3)] that t(2) none by (simp add: gone_def)
      qed
    qed
    show ?thesis
      unfolding eq using caught stored deposit_le 0 t(2,3) none
      by (auto simp: gone_def split: sum.split)
  qed
qed

section \<open>Calls of a running frame\<close>

text \<open>The result of a call: the gas left, and what an exception leaves of the state.\<close>

definition call_done :: "u160 \<Rightarrow> u256 \<Rightarrow> state \<Rightarrow> executive \<times> sub_state \<Rightarrow> state \<Rightarrow> bool" where
  "call_done a gas s r s' \<longleftrightarrow> ex_gas (fst r) \<le> gas \<and> marked s' (snd r) \<and> (ex_excepted (fst r) \<noteq> TE_None \<longrightarrow> bumped a s s')"

lemma ext_finish_ok:
  assumes inv: "state_inv False s" and m: "marked s sub" and run: "run_ok n run" "ex_depth e + n = 1024"
    and r: "ex_ok s r (\<lambda>x s'. \<exists>s0. grows s s0 \<and> bumped a s s0 \<and> call_set_up s0 e gas x s')"
  shows "ex_ok s (ext_finish w run sub r) (call_done a gas s)"
  unfolding ext_finish_def
proof (rule ex_ok_bind0 [OF r])
  fix x s'
  assume s': "grows s s'" "\<exists>s0. grows s s0 \<and> bumped a s s0 \<and> call_set_up s0 e gas x s'"
  obtain d e' where x: "x = (d, e')" by fastforce
  obtain s0 where s0: "grows s s0" "bumped a s s0" "ready s0 e' s'" "ex_depth e' = ex_depth e"
      "ex_gas e' \<le> gas" "ex_excepted e' \<noteq> TE_None \<longrightarrow> d \<and> same_accounts s0 s'"
    using s'(2) by (auto simp: x call_set_up_def)
  show "ex_ok s ((\<lambda>((d, e), s). if d then Inr ((e, sub), s)
       else bindE (ex_go w run e s) (\<lambda>(e, s). Inr ((e, accrueSubState e sub), s))) (x, s')) (call_done a gas s)"
  proof (cases d)
    case True
    then show ?thesis using s0 s'(1) same_bumped [OF s0(2)] marked_grows [OF s'(1) m] by (simp add: x call_done_def)
  next
    case False
    have "ex_ok s0 (ex_go w run e' s') (gone s0 e')"
      by (rule ex_go_ok [OF s0(3) _ run(1)]) (use s0 False run(2) in auto)
    from ex_ok_trans [OF inv s0(1) this]
    have "ex_ok s (bindE (ex_go w run e' s') (\<lambda>(e, s). Inr ((e, accrueSubState e sub), s))) (call_done a gas s)"
    proof (rule ex_ok_bind0)
      fix e s'
      assume "grows s s'" "gone s0 e' e s'"
      then show "ex_ok s (case (e, s') of (e, s) \<Rightarrow> Inr ((e, accrueSubState e sub), s)) (call_done a gas s)"
        using s0(5) same_bumped [OF s0(2)] marked_grows [OF _ m]
        by (auto simp: gone_def call_done_def accrueSubState_def split: option.splits)
    qed
    then show ?thesis using False by (simp add: x)
  qed
qed

lemma new_simps [simp]:
  "ex_excepted (executive_new n) = TE_None" "ex_ext (executive_new n) = None" "\<not> ex_isCreation (executive_new n)"
  "ex_gas (executive_new n) = 0" "ex_depth (executive_new n) = n" "m_type (ex_t (executive_new n)) = NullTransaction"
  by (simp_all add: executive_new_def tx_null_def)

lemma ext_call_ok:
  assumes inv: "state_inv False s" and m: "marked s sub" and run: "run_ok n run" "x_depth x + 1 + n = 1024"
  shows "ex_ok s (ext_call w run x p sub s) (\<lambda>r s'. call_done a (cp_gas p) s r s' \<and>
    (ex_excepted (fst r) \<noteq> TE_None \<longrightarrow> same_accounts s s'))"
proof -
  let ?e = "executive_new (x_depth x + 1)"
  have c: "ex_ok s (ext_call w run x p sub s) (call_done a (cp_gas p) s)" for a
    unfolding ext_call_def
  proof (rule ext_finish_ok [OF inv m run(1), where e = ?e])
    show "ex_ok s (executive_call w p (x_gasPrice x) (x_origin x) ?e s)
      (\<lambda>r s'. \<exists>s0. grows s s0 \<and> bumped a s s0 \<and> call_set_up s0 ?e (cp_gas p) r s')"
      by (rule ex_ok_mono [OF executive_call_ok [OF inv]]) auto
  qed (use run(2) in simp)
  show ?thesis
  proof (rule ex_ok_mono [OF ex_ok_conj [OF c [of a] ex_ok_conj [OF c [of 0] c [of 1]]]])
    fix r s' assume "call_done a (cp_gas p) s r s' \<and> call_done 0 (cp_gas p) s r s' \<and> call_done 1 (cp_gas p) s r s'"
    then show "call_done a (cp_gas p) s r s' \<and> (ex_excepted (fst r) \<noteq> TE_None \<longrightarrow> same_accounts s s')"
      unfolding call_done_def using bumped_both [of s s'] by blast
  qed
qed

lemma ext_create_ok:
  assumes inv: "state_inv False s" and m: "marked s sub" and run: "run_ok n run" "x_depth x + 1 + n = 1024"
  shows "ex_ok s (ext_create w run x two endowment gas init salt sub s) (call_done (x_myAddress x) gas s)"
  unfolding ext_create_def
  by (rule ext_finish_ok [OF inv m run(1), where e = "executive_new (x_depth x + 1)"])
   (use run(2) in \<open>auto intro!: ex_ok_mono [OF createOpcode_ok [OF inv]] ex_ok_mono [OF create2Opcode_ok [OF inv]]\<close>)

lemma status_success [simp]: "transactionExceptionToEvmcStatusCode e = EVMC_SUCCESS \<longleftrightarrow> e = TE_None"
  by (cases e) (simp_all add: transactionExceptionToEvmcStatusCode_def)

lemma ucast_gas_le:
  assumes "(g :: u256) \<le> ucast (m :: u64)"
  shows "(ucast g :: u64) \<le> m"
proof -
  have "unat (ucast m :: u256) \<le> unat m" by (simp add: unsigned_ucast_eq)
  then have g: "unat g \<le> unat m"
    using assms by (simp add: word_le_nat_alt del: unsigned_ucast_eq)
  then have "unat (ucast g :: u64) \<le> unat g" by (simp add: unsigned_ucast_eq)
  with g show ?thesis by (simp add: word_le_nat_alt)
qed

definition call_post :: "ext_vm \<Rightarrow> ext_host \<Rightarrow> evmc_message \<Rightarrow> call_result \<times> ext_host \<Rightarrow> bool" where
  "call_post x h m r \<longleftrightarrow> (case r of (res, h') \<Rightarrow> res_gas_left res \<le> msg_gas m \<and>
     h_process h' \<notin> {OutOfFuel, DepthExceeded} \<and>
     (h_process h' = Running \<longrightarrow> grows (h_state h) (h_state h') \<and> marked (h_state h') (h_sub h') \<and>
       (res_status res \<noteq> EVMC_SUCCESS \<longrightarrow> bumped (x_myAddress x) (h_state h) (h_state h') \<and>
         (msg_kind m \<notin> {EVMC_CREATE, EVMC_CREATE2} \<longrightarrow> same_accounts (h_state h) (h_state h')))))"

lemma ended_process:
  "(case exn of ProcessEnd p \<Rightarrow> \<not> bad_end p | _ \<Rightarrow> True) \<Longrightarrow>
   (case exn of ProcessEnd p \<Rightarrow> p | StateExn x \<Rightarrow> Terminated x | _ \<Rightarrow> Exited) \<notin> {Running, OutOfFuel, DepthExceeded}"
  by (cases exn) (auto simp: bad_end_def)

lemma evmc_call_ok:
  assumes run: "run_ok n run" "x_depth x + 1 + n = 1024" and h: "h_process h = Running" "state_inv False (h_state h)" "marked (h_state h) (h_sub h)"
  shows "call_post x h m (evmc_call w run x h m)"
proof -
  let ?create = "msg_kind m \<in> {EVMC_CREATE, EVMC_CREATE2}"
  define r where "r = (if ?create
              then ext_create w run x (msg_kind m = EVMC_CREATE2) (msg_value m) (ucast (msg_gas m))
                     (msg_input m) (msg_create2_salt m) (h_sub h) (h_state h)
              else ext_call w run x (message_parameters x m) (h_sub h) (h_state h))"
  have r: "ex_ok (h_state h) r (\<lambda>r s'. ex_gas (fst r) \<le> ucast (msg_gas m) \<and> marked s' (snd r) \<and>
      (ex_excepted (fst r) \<noteq> TE_None \<longrightarrow> bumped (x_myAddress x) (h_state h) s' \<and>
        (\<not> ?create \<longrightarrow> same_accounts (h_state h) s')))"
  proof (cases ?create)
    case True
    show ?thesis
      unfolding r_def if_P [OF True]
      by (rule ex_ok_mono [OF ext_create_ok [OF h(2,3) run]]) (use True in \<open>simp add: call_done_def\<close>)
  next
    case False
    show ?thesis
      unfolding r_def if_not_P [OF False]
      by (rule ex_ok_mono [OF ext_call_ok [OF h(2,3) run]])
        (auto simp: message_parameters_def call_done_def)
  qed
  show ?thesis
  proof (cases r)
    case (Inl y)
    obtain exn s where y: "y = (exn, s)" by fastforce
    have "case exn of ProcessEnd p \<Rightarrow> \<not> bad_end p | _ \<Rightarrow> True"
      using r by (cases exn) (simp_all add: Inl y ex_ok_def)
    from ended_process [OF this] show ?thesis
      using h(1) Inl y unfolding r_def
      by (simp add: evmc_call_def call_post_def call_dead_def Let_def)
  next
    case (Inr y)
    obtain e sub s where y: "y = ((e, sub), s)" by (metis prod.collapse)
    have q: "grows (h_state h) s" "ex_gas e \<le> ucast (msg_gas m)" "marked s sub"
      "ex_excepted e \<noteq> TE_None \<longrightarrow> bumped (x_myAddress x) (h_state h) s \<and>
        (\<not> ?create \<longrightarrow> same_accounts (h_state h) s)"
      using r by (simp_all add: Inr y)
    have "evmc_call w run x h m =
      (let status = transactionExceptionToEvmcStatusCode (ex_excepted e) in
            (\<lparr>res_status = status, res_gas_left = ucast (ex_gas e),
              res_output = (if ?create \<and> status = EVMC_SUCCESS then [] else ex_output e),
              res_create_address = (if ?create \<and> status = EVMC_SUCCESS then ex_newAddress e else 0)\<rparr>,
             h\<lparr>h_state := s, h_sub := sub\<rparr>))"
      using h(1) Inr y unfolding r_def by (simp add: evmc_call_def)
    then show ?thesis
      using q(1,3,4) ucast_gas_le [OF q(2)] h(1) by (simp add: call_post_def Let_def)
  qed
qed

end
