(* ===== verification/FrameProofs.thy ===== *)
theory FrameProofs
  imports ExecutiveProofs
begin

text \<open>
  The host that the executive is for a running frame keeps the contract of the interpreter, at every
  call depth: shown by induction on the levels below the frame, and stated as an interpretation of
  \<open>evm_host\<close> on the model's own host.
\<close>

section \<open>The host of a frame keeps the interpreter's contract\<close>

definition frame_ok :: "nat \<Rightarrow> ext_vm \<Rightarrow> state \<Rightarrow> ext_host \<Rightarrow> bool" where
  "frame_ok n x s0 h \<longleftrightarrow> x_depth x + n = 1024 \<and> state_inv False s0 \<and> view False s0 (x_myAddress x) \<noteq> None \<and>
     h_process h \<notin> {OutOfFuel, DepthExceeded} \<and> (h_process h = Running \<longrightarrow> grows s0 (h_state h) \<and> marked (h_state h) (h_sub h))"

lemma frame_start:
  "h_process h = Running \<Longrightarrow> x_depth x + n = 1024 \<Longrightarrow> state_inv False (h_state h) \<Longrightarrow>
   view False (h_state h) (x_myAddress x) \<noteq> None \<Longrightarrow> marked (h_state h) (h_sub h) \<Longrightarrow>
   frame_ok n x (h_state h) h"
  by (simp add: frame_ok_def grows_refl)

lemma frame_step:
  assumes F: "frame_ok n x s0 h" "h_process h = Running"
    and s: "grows (h_state h) (h_state h')" "h_process h' = Running" "marked (h_state h') (h_sub h')"
  shows "frame_ok n x s0 h'"
proof -
  have "grows s0 (h_state h')"
    by (rule grows_trans [OF _ _ s(1)]) (use F in \<open>simp_all add: frame_ok_def\<close>)
  then show ?thesis using F s(2,3) by (simp add: frame_ok_def)
qed

lemma host_run_post:
  assumes F: "frame_ok n x s0 h"
    and f: "\<And>s. state_inv False s \<Longrightarrow> view False s (x_myAddress x) \<noteq> None \<Longrightarrow> st_ok s (f s) (P s)"
  shows "frame_ok n x s0 (snd (host_run f d h)) \<and> (h_process (snd (host_run f d h)) = Running \<longrightarrow>
    P (h_state h) (fst (host_run f d h)) (h_state (snd (host_run f d h))))"
proof (cases "h_process h = Running")
  case True
  then have e: "grows s0 (h_state h)" using F by (simp add: frame_ok_def)
  have st: "st_ok (h_state h) (f (h_state h)) (P (h_state h))"
    using f grows_inv [OF e] grows_exists [OF e] F by (simp add: frame_ok_def)
  show ?thesis
  proof (cases "f (h_state h)")
    case (Inl y)
    then show ?thesis using True F by (cases y) (simp add: host_run_def frame_ok_def)
  next
    case (Inr y)
    obtain r s' where y: "y = (r, s')" by fastforce
    have g: "grows (h_state h) s'" "P (h_state h) r s'"
      using st by (simp_all add: Inr y st_ok_def grows_def)
    have "frame_ok n x s0 (h\<lparr>h_state := s'\<rparr>)"
      by (rule frame_step [OF F True]) (use g(1) True marked_grows [OF g(1)] F in \<open>simp_all add: frame_ok_def\<close>)
    then show ?thesis using True Inr y g(2) by (simp add: host_run_def)
  qed
qed (simp add: host_run_def F)

lemmas host_run_frame = host_run_post [THEN conjunct1]

lemma set_storage_frame:
  assumes F: "frame_ok n x s0 h"
  shows "frame_ok n x s0 (snd (xh_set_storage w x h a k v))"
proof -
  obtain c h1 where h1: "host_run (st_storage (x_myAddress x) k) v h = (c, h1)" by fastforce
  obtain st r where r: "storage_status_of (w_schedule w) (originalStorageValue k) c v = (st, r)" by fastforce
  have F1: "frame_ok n x s0 h1"
    using host_run_frame [OF F storage_st, of "\<lambda>_. x_myAddress x" "\<lambda>_. k" v] by (simp add: h1)
  let ?h = "h1\<lparr>h_sub := (h_sub h1)\<lparr>refunds := refunds (h_sub h1) + r\<rparr>\<rparr>"
  have F2: "frame_ok n x s0 ?h" using F1 by (simp add: frame_ok_def marked_def)
  have "frame_ok n x s0 (snd (host_run (setStorage (x_myAddress x) k v) () ?h))"
    by (rule host_run_frame [OF F2 setStorage_st])
  then show ?thesis using F1 by (simp add: xh_set_storage_def h1 r)
qed

lemma toRevision_le: "toRevision s \<le> 8"
  by (simp add: toRevision_def revision_defs)

lemma block_hash_process: "ext_blockHash w n = Inl p \<Longrightarrow> p \<notin> {Running, OutOfFuel, DepthExceeded}"
  by (auto simp: ext_blockHash_def Let_def split: if_splits)

text \<open>All laws but those of calls hold whatever the calls do.\<close>

lemma frame_host:
  assumes calls: "\<And>h m. frame_ok n x s0 h \<Longrightarrow> x_depth x < 1024 \<Longrightarrow>
      res_gas_left (fst (callf h m)) \<le> msg_gas m \<and> frame_ok n x s0 (snd (callf h m))"
  shows "evm_host (frame_env w (evmc_host w x callf) x gas) (frame_ok n x s0)"
proof
  show "m_rev (frame_env w (evmc_host w x callf) x gas) \<le> 8" by (simp add: frame_env_def toRevision_le)
next
  fix h a assume F: "frame_ok n x s0 h"
  show "frame_ok n x s0 (snd (account_exists (m_host (frame_env w (evmc_host w x callf) x gas)) h a))"
    using host_run_frame [OF F nonempty_ok, of "\<lambda>_. a"] host_run_frame [OF F inUse_ok, of "\<lambda>_. a"]
    by (simp add: frame_env_def evmc_host_def xh_account_exists_def)
next
  fix h a k assume F: "frame_ok n x s0 h"
  show "frame_ok n x s0 (snd (get_storage (m_host (frame_env w (evmc_host w x callf) x gas)) h a k))"
    using host_run_frame [OF F storage_st, of "\<lambda>_. x_myAddress x" "\<lambda>_. k"] by (simp add: frame_env_def evmc_host_def xh_get_storage_def)
next
  fix h a assume F: "frame_ok n x s0 h"
  show "frame_ok n x s0 (snd (get_balance (m_host (frame_env w (evmc_host w x callf) x gas)) h a))"
    using host_run_frame [OF F balance_ok, of "\<lambda>_. a"]
    by (simp add: frame_env_def evmc_host_def xh_get_balance_def)
next
  fix h a assume F: "frame_ok n x s0 h"
  show "frame_ok n x s0 (snd (get_code_size (m_host (frame_env w (evmc_host w x callf) x gas)) h a))"
    using host_run_frame [OF F codeSize_st, of "\<lambda>_. a" 0]
    by (cases "host_run (st_codeSize a) 0 h") (simp add: frame_env_def evmc_host_def xh_get_code_size_def)
next
  fix h a assume F: "frame_ok n x s0 h"
  show "frame_ok n x s0 (snd (get_code_hash (m_host (frame_env w (evmc_host w x callf) x gas)) h a))"
    using F by (simp add: frame_env_def evmc_host_def xh_get_code_hash_def)
next
  fix h a off k assume F: "frame_ok n x s0 h"
  show "frame_ok n x s0 (snd (copy_code (m_host (frame_env w (evmc_host w x callf) x gas)) h a off k))"
    using host_run_frame [OF F code_st, of "\<lambda>_. a" "[]"]
    by (cases "host_run (st_code a) [] h") (simp add: frame_env_def evmc_host_def xh_copy_code_def)
next
  fix h k assume F: "frame_ok n x s0 h"
  show "frame_ok n x s0 (snd (get_block_hash (m_host (frame_env w (evmc_host w x callf) x gas)) h k))"
    using F block_hash_process [of w "ts256 k"]
    by (auto simp: frame_env_def evmc_host_def xh_get_block_hash_def frame_ok_def split: sum.split)
next
  fix h m
  assume F: "frame_ok n x s0 h" "depth_ok (frame_env w (evmc_host w x callf) x gas)"
  have d: "x_depth x < 1024" using F(2) by (simp add: depth_ok_def frame_env_def frame_message_def)
  show "res_gas_left (fst (host_call (m_host (frame_env w (evmc_host w x callf) x gas)) h m)) \<le> msg_gas m"
    using calls [OF F(1) d] by (simp add: frame_env_def evmc_host_def)
  show "frame_ok n x s0 (snd (host_call (m_host (frame_env w (evmc_host w x callf) x gas)) h m))"
    using calls [OF F(1) d] by (simp add: frame_env_def evmc_host_def)
next
  fix h a k v assume F: "frame_ok n x s0 h"
  show "frame_ok n x s0 (snd (set_storage (m_host (frame_env w (evmc_host w x callf) x gas)) h a k v))"
    using set_storage_frame [OF F] by (simp add: frame_env_def evmc_host_def)
next
  fix h a b assume F: "frame_ok n x s0 h"
  have "frame_ok n x s0 (snd (host_run (ext_selfdestruct x b) () h)) \<and>
      (h_process (snd (host_run (ext_selfdestruct x b) () h)) = Running \<longrightarrow>
       cell False (h_state (snd (host_run (ext_selfdestruct x b) () h))) (x_myAddress x) \<noteq> None)"
    by (rule host_run_post [OF F selfdestruct_st])
  then show "frame_ok n x s0 (host_selfdestruct (m_host (frame_env w (evmc_host w x callf) x gas)) h a b)"
    by (auto simp: frame_env_def evmc_host_def xh_selfdestruct_def Let_def frame_ok_def marked_def)
next
  fix h a d ts assume F: "frame_ok n x s0 h"
  show "frame_ok n x s0 (emit_log (m_host (frame_env w (evmc_host w x callf) x gas)) h a d ts)"
    using F by (auto simp: frame_env_def evmc_host_def xh_emit_log_def frame_ok_def marked_def)
qed

lemma evmc_exec_ok:
  assumes H: "evm_host (frame_env w H x gas) (frame_ok n x s0)" and F: "frame_ok n x s0 h"
  shows "case evmc_exec w H x gas h of (r, gas', h') \<Rightarrow> frame_ok n x s0 h' \<and> gas' \<le> gas"
proof (cases "gas > int64max \<or> m_gasLimit (ei_header (w_env w)) > int64max")
  case True
  then show ?thesis using F by (simp add: evmc_exec_def frame_ok_def)
next
  case False
  let ?env = "frame_env w H x gas"
  have g: "msg_gas (m_message ?env) = ucast gas" by (simp add: frame_env_def frame_message_def)
  obtain res h' where r: "execute (3 * unat (msg_gas (m_message ?env)) + 3) ?env h = Some (res, h')"
    "res_gas_left res \<le> ucast gas" "frame_ok n x s0 h'"
    using evm_host.execute_returns [OF H F order_refl] unfolding g by blast
  have "unat (ucast (res_gas_left res) :: u256) \<le> unat (res_gas_left res)" by (simp add: unsigned_ucast_eq)
  also have "\<dots> \<le> unat (ucast gas :: u64)" using r(2) by (simp only: word_le_nat_alt)
  also have "\<dots> \<le> unat gas" by (simp add: unsigned_ucast_eq)
  finally have "(ucast (res_gas_left res) :: u256) \<le> gas" by (simp add: word_le_nat_alt)
  then show ?thesis using r False by (simp add: evmc_exec_def)
qed

lemma run_ok_host:
  assumes "\<And>x gas s0. evm_host (frame_env w (ext_host_at w n x) x gas) (frame_ok n x s0)"
  shows "run_ok n (run_at w n)"
  unfolding run_ok_def
proof (intro allI impI)
  fix x :: ext_vm and gas and h :: ext_host
  assume h: "x_depth x + n = 1024 \<and> h_process h = Running \<and> state_inv False (h_state h) \<and>
    view False (h_state h) (x_myAddress x) \<noteq> None \<and> marked (h_state h) (h_sub h)"
  have "case run_at w n x gas h of (r, gas', h') \<Rightarrow> frame_ok n x (h_state h) h' \<and> gas' \<le> gas"
    unfolding run_at_def by (rule evmc_exec_ok [OF assms frame_start]) (use h in auto)
  then show "case run_at w n x gas h of (r, gas', h') \<Rightarrow> h_process h' \<notin> {OutOfFuel, DepthExceeded} \<and>
      (h_process h' = Running \<longrightarrow> grows (h_state h) (h_state h') \<and> marked (h_state h') (h_sub h') \<and> gas' \<le> gas)"
    by (auto simp: frame_ok_def)
qed

lemma calls_frame:
  assumes run: "run_ok n run" and F: "frame_ok (Suc n) x s0 h"
  shows "res_gas_left (fst (evmc_call w run x h m)) \<le> msg_gas m \<and>
    frame_ok (Suc n) x s0 (snd (evmc_call w run x h m))"
proof (cases "h_process h = Running")
  case True
  obtain r h' where r: "evmc_call w run x h m = (r, h')" by fastforce
  have "call_post x h m (r, h')"
    using evmc_call_ok [OF run _ True, of x m w] F grows_inv True unfolding r [symmetric]
    by (auto simp: frame_ok_def)
  then show ?thesis
    using F frame_step [OF F True, of h'] by (auto simp: r call_post_def frame_ok_def)
qed (use F in \<open>simp add: evmc_call_def call_dead_def\<close>)

lemma host_at:
  "evm_host (frame_env w (ext_host_at w n x) x gas) (frame_ok n x s0)"
proof (induction n arbitrary: x gas s0)
  case 0
  show ?case unfolding ext_host_at.simps by (rule frame_host) (simp add: frame_ok_def)
next
  case (Suc n)
  have run: "run_ok n (\<lambda>x' gas h. evmc_exec w (ext_host_at w n x') x' gas h)"
    using run_ok_host [OF Suc] unfolding run_at_def [abs_def] .
  show ?case unfolding ext_host_at.simps by (rule frame_host) (rule calls_frame [OF run])
qed

interpretation frame: evm_host "frame_env w (ext_host_at w n x) x gas" "frame_ok n x s0"
  for w n x gas s0
  by (rule host_at)

lemma run_at_ok: "run_ok n (run_at w n)"
  by (rule run_ok_host [OF host_at])

end
