(* ===== verification/TransactionProofs.thy ===== *)
theory TransactionProofs
  imports FrameProofs
begin

text \<open>
  A transaction from its checks to its end. After the checks the sender holds the price of the gas;
  what is paid at the end is no more than was taken at the start; the run in between makes no ether and
  fails only with its changes rolled back. The one step outside the journal is the removal of the
  accounts that selfdestructed, and it comes when nothing can fail any more.
\<close>

section \<open>Before the run\<close>

lemma data_gas_ge: "g \<le> data_gas es is g"
  by (simp add: data_gas_eq)

lemma base_nonneg: "0 \<le> baseGasRequired c d es"
  unfolding baseGasRequired_def by (rule order_trans [OF _ data_gas_ge]) simp

definition initialized :: "world \<Rightarrow> tx_base \<Rightarrow> state \<Rightarrow> executive \<Rightarrow> state \<Rightarrow> bool" where
  "initialized w t s e s' \<longleftrightarrow> same_accounts s s' \<and> ex_t e = t \<and> ex_excepted e = TE_None \<and> ex_ext e = None \<and>
     \<not> ex_isCreation e \<and> ex_gas e = 0 \<and> ex_depth e = 0 \<and>
     0 \<le> ex_baseGasRequired e \<and> ex_baseGasRequired e \<le> uint (m_gas t) \<and>
     m_gas t \<le> m_gasLimit (ei_header (w_env w)) \<and>
     unat (ex_gasCost e) = unat (m_gas t) * unat (m_gasPrice t)"

lemma verified:
  assumes "ethash_verifyTransaction p ImportEverything t hdr used = Inr u"
  shows "baseGasRequired (isCreation t) (m_data t) (scheduleForBlockNumber p (ts256 (m_number hdr))) \<le> uint (m_gas t)"
    "m_gas t \<le> m_gasLimit hdr" "hasZeroSignature t \<Longrightarrow> m_gasPrice t = 0"
proof -
  have f: "has_flag ImportEverything TransactionBasic" "has_flag ImportEverything TransactionSignatures"
    by (simp_all add: has_flag_def ImportEverything_def TransactionBasic_def TransactionSignatures_def)
  show "baseGasRequired (isCreation t) (m_data t) (scheduleForBlockNumber p (ts256 (m_number hdr))) \<le> uint (m_gas t)"
    using assms f by (auto simp: ethash_verifyTransaction_def throw_if_def exn_simps split: if_splits)
  have "uint used + uint (m_gas t) \<le> uint (m_gasLimit hdr)" "0 \<le> uint used"
    using assms f by (auto simp: ethash_verifyTransaction_def throw_if_def exn_simps split: if_splits)
  then have "uint (m_gas t) \<le> uint (m_gasLimit hdr)" by linarith
  then show "m_gas t \<le> m_gasLimit hdr" by (simp add: word_le_def)
  show "m_gasPrice t = 0" if "hasZeroSignature t"
    using assms f that
    by (auto simp: ethash_verifyTransaction_def face_verifyTransaction_def throw_if_def exn_simps split: if_splits)
qed

lemma uint_mult_exact:
  assumes "uint (x :: u256) * uint y < 2 ^ 256"
  shows "uint (x * y) = uint x * uint y"
proof -
  have len: "LENGTH(256) = (256 :: nat)" by simp
  have "uint (x * y) = take_bit LENGTH(256) (uint x * uint y)" by transfer (simp add: take_bit_mult)
  also have "\<dots> = uint x * uint y"
    unfolding len by (rule take_bit_int_eq_self [OF mult_nonneg_nonneg assms]) simp_all
  finally show ?thesis .
qed

lemma initialize_ok:
  assumes inv: "state_inv False s"
  shows "ex_ok s (ex_initialize w t (executive_new 0) s) (initialized w t s)"
proof (cases "ethash_verifyTransaction (se_params (w_engine w)) ImportEverything t (ei_header (w_env w)) (ei_gasUsed (w_env w))")
  case (Inl x)
  then show ?thesis by (simp add: ex_initialize_def ex_ok_def extends_refl [OF inv])
next
  case (Inr u)
  let ?e = "(executive_new 0)\<lparr>ex_t := t, ex_baseGasRequired := baseGasRequired (isCreation t) (m_data t) (w_schedule w)\<rparr>"
  let ?cost = "uint (m_gas t) * uint (m_gasPrice t)"
  note v = verified [OF Inr]
  have init: "initialized w t s (?e\<lparr>ex_gasCost := c\<rparr>) s'"
    if "same_accounts s s'" "unat c = unat (m_gas t) * unat (m_gasPrice t)" for c s'
    using that v base_nonneg by (simp add: initialized_def w_schedule_def w_number_def ei_number_def)
  show ?thesis
  proof (cases "hasZeroSignature t")
    case True
    have "?e\<lparr>ex_gasCost := 0\<rparr> = ?e" by (simp add: executive_new_def)
    then have "initialized w t s ?e s" using init [of s 0] v(3) [OF True] by simp
    then show ?thesis using Inr True grows_refl [OF inv] by (simp add: ex_initialize_def)
  next
    case False
    have "ex_ok s (bindE (ex_st (getNonce (tx_from (w_lib w) t) s)) (\<lambda>(nonceReq, s).
            if m_nonce t \<noteq> nonceReq then Inl (InvalidNonce, s)
            else bindE (ex_st (st_balance (tx_from (w_lib w) t) s)) (\<lambda>(b, s).
                if uint b < uint (m_value t) + ?cost then Inl (NotEnoughCashForTx, s)
                else Inr (?e\<lparr>ex_gasCost := of_int ?cost\<rparr>, s)))) (initialized w t s)"
    proof (rule ex_ok_bind0 [OF ex_ok_st [OF getNonce_ok [OF inv]]])
      fix n s1
      assume s1: "grows s s1" "same_accounts s s1"
      have "ex_ok s (bindE (ex_st (st_balance (tx_from (w_lib w) t) s1)) (\<lambda>(b, s).
                if uint b < uint (m_value t) + ?cost then Inl (NotEnoughCashForTx, s)
                else Inr (?e\<lparr>ex_gasCost := of_int ?cost\<rparr>, s))) (initialized w t s)"
      proof (rule ex_ok_bind0 [OF ex_ok_trans [OF inv s1(1) ex_ok_st [OF balance_ok [OF grows_inv [OF s1(1)]]]]])
        fix b s2
        assume s2: "grows s s2" "same_accounts s1 s2 \<and> b = balance_of s1 (tx_from (w_lib w) t)"
        have "unat (of_int ?cost :: u256) = unat (m_gas t) * unat (m_gasPrice t)"
          if "\<not> uint b < uint (m_value t) + ?cost"
        proof -
          have "0 \<le> uint (m_value t)" by simp
          with that have "?cost \<le> uint b" by linarith
          also have "\<dots> < 2 ^ 256" using uint_bounded [of b] by simp
          finally have "uint (m_gas t * m_gasPrice t) = ?cost" by (rule uint_mult_exact)
          then have "unat (m_gas t * m_gasPrice t) = nat ?cost" by (simp only: unat_eq_nat_uint)
          also have "\<dots> = unat (m_gas t) * unat (m_gasPrice t)" by (simp add: nat_mult_distrib)
          finally show ?thesis by simp
        qed
        then show "ex_ok s (case (b, s2) of (b, s) \<Rightarrow>
                if uint b < uint (m_value t) + ?cost then Inl (NotEnoughCashForTx, s)
                else Inr (?e\<lparr>ex_gasCost := of_int ?cost\<rparr>, s)) (initialized w t s)"
          using s2 init same_accounts_trans [OF s1(2)] by (simp add: ex_ok_def grows_extends)
      qed
      then show "ex_ok s (case (n, s1) of (nonceReq, s) \<Rightarrow>
            if m_nonce t \<noteq> nonceReq then Inl (InvalidNonce, s)
            else bindE (ex_st (st_balance (tx_from (w_lib w) t) s)) (\<lambda>(b, s).
                if uint b < uint (m_value t) + ?cost then Inl (NotEnoughCashForTx, s)
                else Inr (?e\<lparr>ex_gasCost := of_int ?cost\<rparr>, s))) (initialized w t s)"
        using s1(1) by (simp add: ex_ok_def grows_extends)
    qed
    then show ?thesis
      unfolding ex_initialize_def Let_def Inr sum.case if_not_P [OF False] .
  qed
qed

section \<open>The run\<close>

text \<open>After the set-up and the run, on the state \<open>s2\<close> that the sender has been charged in: the gas
  left is at most the gas bought, and an exception has left only the nonce of the sender.\<close>

definition ran :: "u160 \<Rightarrow> tx_base \<Rightarrow> state \<Rightarrow> executive \<Rightarrow> state \<Rightarrow> bool" where
  "ran a t s2 e s3 \<longleftrightarrow> ex_t e = t \<and> ex_gas e \<le> m_gas t \<and>
     (case ex_ext e of None \<Rightarrow> True | Some (x, sub) \<Rightarrow> marked s3 sub) \<and>
     (ex_excepted e \<noteq> TE_None \<longrightarrow> bumped a s2 s3 \<and>
        (case ex_ext e of None \<Rightarrow> True | Some (x, sub) \<Rightarrow> sub = sub_clear sub))"

definition set_up :: "world \<Rightarrow> executive \<Rightarrow> state \<Rightarrow> (bool \<times> executive) ex" where
  "set_up w e s =
     (let t = ex_t e; sender = tx_from (w_lib w) t; gas = m_gas t - of_int (ex_baseGasRequired e) in
      if isCreation t
      then createOpcode w sender (m_value t) (m_gasPrice t) gas (m_data t) sender e s
      else executive_call w
             \<lparr>cp_senderAddress = sender, cp_codeAddress = m_receiveAddress t,
              cp_receiveAddress = m_receiveAddress t, cp_valueTransfer = m_value t,
              cp_apparentValue = m_value t, cp_gas = gas, cp_data = m_data t, cp_staticCall = False\<rparr>
             (m_gasPrice t) sender e s)"

lemma execute_set_up:
  "ex_execute w e s = bindE (ex_st (subBalance (tx_from (w_lib w) (ex_t e)) (ex_gasCost e) s)) (\<lambda>(_, s). set_up w e s)"
  by (simp add: ex_execute_def set_up_def Let_def)

lemma run_part_ok:
  assumes inv: "state_inv False s2" and i: "initialized w t s e s1"
  shows "ex_ok s2 (bindE (set_up w e s2) (\<lambda>((done, e), s). if done then Inr (e, s) else ex_go w (run_at w 1024) e s))
    (ran (tx_from (w_lib w) t) t s2)"
proof -
  let ?a = "tx_from (w_lib w) t" let ?gas = "m_gas t - of_int (ex_baseGasRequired e)"
  have e: "ex_t e = t" "ex_excepted e = TE_None" "ex_ext e = None" "\<not> ex_isCreation e" "ex_gas e = 0" "ex_depth e = 0"
    and base: "0 \<le> ex_baseGasRequired e" "ex_baseGasRequired e \<le> uint (m_gas t)"
    using i by (simp_all add: initialized_def)
  have gas: "?gas \<le> m_gas t"
  proof -
    have "\<not> unat (m_gas t) < nat (ex_baseGasRequired e)" using nat_mono [OF base(2)] by simp
    from word_sub_le [OF this] show ?thesis using base(1) by simp
  qed
  have up: "ex_ok s2 (set_up w e s2) (\<lambda>r s'. \<exists>s0. grows s2 s0 \<and> bumped ?a s2 s0 \<and> call_set_up s0 e ?gas r s')"
    unfolding set_up_def Let_def e(1)
  proof (cases "isCreation t")
    case True
    then show "ex_ok s2 (if isCreation t
      then createOpcode w ?a (m_value t) (m_gasPrice t) ?gas (m_data t) ?a e s2
      else executive_call w
             \<lparr>cp_senderAddress = ?a, cp_codeAddress = m_receiveAddress t,
              cp_receiveAddress = m_receiveAddress t, cp_valueTransfer = m_value t,
              cp_apparentValue = m_value t, cp_gas = ?gas, cp_data = m_data t, cp_staticCall = False\<rparr>
             (m_gasPrice t) ?a e s2) (\<lambda>r s'. \<exists>s0. grows s2 s0 \<and> bumped ?a s2 s0 \<and> call_set_up s0 e ?gas r s')"
      using createOpcode_ok [OF inv e(2,3)] by simp
  next
    case False
    let ?p = "\<lparr>cp_senderAddress = ?a, cp_codeAddress = m_receiveAddress t,
              cp_receiveAddress = m_receiveAddress t, cp_valueTransfer = m_value t,
              cp_apparentValue = m_value t, cp_gas = ?gas, cp_data = m_data t, cp_staticCall = False\<rparr>"
    have "ex_ok s2 (executive_call w ?p (m_gasPrice t) ?a e s2)
       (\<lambda>r s'. \<exists>s0. grows s2 s0 \<and> bumped ?a s2 s0 \<and> call_set_up s0 e ?gas r s')"
      by (rule ex_ok_mono [OF executive_call_ok [OF inv e(2-5)]]) auto
    then show "ex_ok s2 (if isCreation t
      then createOpcode w ?a (m_value t) (m_gasPrice t) ?gas (m_data t) ?a e s2
      else executive_call w ?p (m_gasPrice t) ?a e s2)
      (\<lambda>r s'. \<exists>s0. grows s2 s0 \<and> bumped ?a s2 s0 \<and> call_set_up s0 e ?gas r s')"
      using False by simp
  qed
  show ?thesis
  proof (rule ex_ok_bind0 [OF up])
    fix x s'
    assume s': "grows s2 s'" "\<exists>s0. grows s2 s0 \<and> bumped ?a s2 s0 \<and> call_set_up s0 e ?gas x s'"
    obtain d e' where x: "x = (d, e')" by fastforce
    obtain s0 where s0: "grows s2 s0" "bumped ?a s2 s0" "ready s0 e' s'" "ex_depth e' = 0" "ex_t e' = t"
      "ex_gas e' \<le> ?gas" "ex_excepted e' \<noteq> TE_None \<longrightarrow> d \<and> same_accounts s0 s'" "d = (ex_ext e' = None)"
      using s'(2) e by (auto simp: x call_set_up_def)
    show "ex_ok s2 ((\<lambda>((done, e), s). if done then Inr (e, s) else ex_go w (run_at w 1024) e s) (x, s'))
        (ran ?a t s2)"
    proof (cases d)
      case True
      then show ?thesis
        using s0 s'(1) same_bumped [OF s0(2)] gas by (auto simp: x ran_def)
    next
      case False
      have go: "ex_ok s0 (ex_go w (run_at w 1024) e' s') (gone s0 e')"
        by (rule ex_go_ok [OF s0(3) _ run_at_ok]) (use s0 False in auto)
      have "ex_ok s0 (ex_go w (run_at w 1024) e' s') (ran ?a t s2)"
        using go s0(5,6) gas same_bumped [OF s0(2)]
        by (cases "ex_go w (run_at w 1024) e' s'") (auto simp: gone_def ran_def ex_ok_def split: option.splits)
      from ex_ok_trans [OF inv s0(1) this] show ?thesis using False by (simp add: x)
    qed
  qed
qed

section \<open>Payment and removal\<close>

lemma refund_uint:
  assumes L: "uint (limit :: u256) < 2 ^ 63" and g: "gas \<le> limit" and r: "0 \<le> sint ref"
  shows "uint (refund_gas limit gas ref) = uint gas + min ((uint limit - uint gas) div 2) (sint ref)"
proof -
  let ?d = "uint limit - uint gas"
  have d: "0 \<le> ?d" "0 \<le> uint gas" "?d < 2 ^ 63"
    using L g by (simp_all add: word_le_def) (use uint_ge_0 [of gas] in \<open>linarith\<close>)
  have "(ucast limit :: u64) - ucast gas = of_int ?d"
    by (simp add: unsigned_ucast_eq)
  then have "sint (ucast limit - ucast gas :: u64) = sint (word_of_int ?d :: u64)" by (rule arg_cong)
  also have "\<dots> = signed_take_bit (LENGTH(64) - 1) ?d" by (rule sint_sbintrunc')
  also have "\<dots> = ?d" by (rule signed_take_bit_int_eq_self) (use d in simp_all)
  finally have s: "sint (ucast limit - ucast gas :: u64) = ?d" .
  have q: "?d sdiv 2 = ?d div 2" using d(1) by (simp add: signed_divide_int_def sgn_if)
  let ?m = "min (?d div 2) (sint ref)"
  have m: "0 \<le> ?m" "?m \<le> ?d" using d(1) r by auto
  have "gas + of_int ?m = of_int (uint gas + ?m)" by simp
  then have "uint (gas + of_int ?m) = uint (of_int (uint gas + ?m) :: u256)" by (rule arg_cong)
  also have "\<dots> = take_bit LENGTH(256) (uint gas + ?m)" by (rule unsigned_of_int [THEN trans]) simp
  also have "\<dots> = uint gas + ?m" by (rule take_bit_int_eq_self) (use m d L in simp_all)
  finally have "uint (gas + of_int ?m) = uint gas + ?m" .
  then show ?thesis unfolding refund_gas_def Let_def s q by simp
qed

lemma refund_le:
  assumes "uint (limit :: u256) < 2 ^ 63" "gas \<le> limit" "0 \<le> sint ref"
  shows "refund_gas limit gas ref \<le> limit"
proof -
  have "uint gas \<le> uint limit" using assms(2) by (simp add: word_le_def)
  then have "uint (refund_gas limit gas ref) \<le> uint limit" unfolding refund_uint [OF assms] by linarith
  then show ?thesis by (simp add: word_le_def)
qed

lemma unat_mult_le: "unat (x * y :: u256) \<le> unat x * unat y"
  by (simp add: unat_word_ariths)

text \<open>What the end of a transaction may change: it pays no more than the price of the gas bought,
  to the sender and the author of the block.\<close>

definition paid_out :: "world \<Rightarrow> tx_base \<Rightarrow> state \<Rightarrow> state \<Rightarrow> bool" where
  "paid_out w t s s' \<longleftrightarrow> wealth s' \<le> wealth s + unat (m_gas t) * unat (m_gasPrice t) \<and> nonce_of s' = nonce_of s \<and>
     (\<forall>a. a \<notin> {tx_from (w_lib w) t, m_author (ei_header (w_env w))} \<longrightarrow> balance_of s' a = balance_of s a)"

definition pay_ok :: "state \<Rightarrow> 'a ex \<Rightarrow> (state \<Rightarrow> bool) \<Rightarrow> bool" where
  "pay_ok s r Q \<longleftrightarrow> (case r of
       Inl (exn, s') \<Rightarrow> (\<exists>x. exn = StateExn x) \<and> extends False s s'
     | Inr (x, s') \<Rightarrow> extends False s s' \<and> Q s')"

lemma pay_st: "ok False s r (\<lambda>_. Q) \<Longrightarrow> pay_ok s (ex_st r) Q"
  by (auto simp: pay_ok_def ex_st_def ok_def split: sum.splits)

lemma pay_bind:
  assumes "state_inv False s" "pay_ok s m P" "\<And>x s'. extends False s s' \<Longrightarrow> P s' \<Longrightarrow> pay_ok s' (f (x, s')) Q"
  shows "pay_ok s (bindE m f) Q"
proof (cases m)
  case (Inl y)
  then show ?thesis using assms(2) by (cases y) (auto simp: pay_ok_def)
next
  case (Inr y)
  obtain x s' where y: "y = (x, s')" by fastforce
  have "extends False s s'" "pay_ok s' (f (x, s')) Q" using assms(2,3) by (auto simp: pay_ok_def Inr y)
  then show ?thesis using extends_trans [OF assms(1)] by (auto simp: pay_ok_def Inr y split: sum.splits)
qed

lemma ex_pay_ok:
  assumes inv: "state_inv False s" and e: "ex_t e = t" "ex_gas e \<le> m_gas t"
  shows "pay_ok s (ex_pay w e s) (paid_out w t s)"
proof (cases "m_type t = NullTransaction")
  case True
  then show ?thesis using e(1) by (simp add: ex_pay_def pay_ok_def extends_refl [OF inv] paid_out_def)
next
  case False
  let ?a = "tx_from (w_lib w) t" let ?b = "m_author (ei_header (w_env w))"
  let ?v1 = "ex_gas e * m_gasPrice t" let ?v2 = "(m_gas t - ex_gas e) * m_gasPrice t"
  have "unat (m_gas t - ex_gas e) = unat (m_gas t) - unat (ex_gas e)" "unat (ex_gas e) \<le> unat (m_gas t)"
    using e(2) by (simp_all add: unat_sub word_le_nat_alt)
  then have "(unat (ex_gas e) + unat (m_gas t - ex_gas e)) * unat (m_gasPrice t) = unat (m_gas t) * unat (m_gasPrice t)"
    by simp
  then have le: "unat ?v1 + unat ?v2 \<le> unat (m_gas t) * unat (m_gasPrice t)"
    using unat_mult_le [of "ex_gas e" "m_gasPrice t"] unat_mult_le [of "m_gas t - ex_gas e" "m_gasPrice t"]
    by (simp add: add_mult_distrib)
  have "pay_ok s (bindE (ex_st (addBalance ?a ?v1 s)) (\<lambda>(_, s). ex_st (addBalance ?b ?v2 s))) (paid_out w t s)"
  proof (rule pay_bind [OF inv pay_st [OF addBalance_paid [OF inv]]])
    fix u s1
    assume s1: "extends False s s1" "paid ?a ?v1 s s1"
    have "ok False s1 (addBalance ?b ?v2 s1) (\<lambda>_. paid_out w t s)"
    proof (rule ok_mono [OF addBalance_paid [OF extends_inv [OF s1(1)]]])
      fix v s2
      assume s2: "paid ?b ?v2 s1 s2"
      show "paid_out w t s s2"
        using le s1(2) s2 paid_wealth [OF s1(2)] paid_wealth [OF s2] by (auto simp: paid_out_def paid_def)
    qed
    then show "pay_ok s1 (case (u, s1) of (_, s) \<Rightarrow> ex_st (addBalance ?b ?v2 s)) (paid_out w t s)"
      unfolding prod.case by (rule pay_st)
  qed
  then show ?thesis using False e(1) by (simp add: ex_pay_def)
qed

text \<open>An account marked for removal is in the cache, so its removal does not fail.\<close>

lemma kill_step:
  assumes c: "cell False s a \<noteq> None"
  shows "\<exists>s'. st_kill a s = Inr ((), s') \<and> wealth s' \<le> wealth s \<and> (\<forall>b. cell False s b \<noteq> None \<longrightarrow> cell False s' b \<noteq> None)"
proof -
  obtain x where x: "m_cache s a = Some x" using cell_cached [OF c] by blast
  let ?y = "acc_kill (st_sha3 s) x"
  have y: "acc_isDirty ?y" by (simp add: acc_kill_def acc_isDirty_def acc_changed_def)
  have k: "st_kill a s = Inr ((), cache_put a ?y s)" by (simp add: st_kill_def st_account_def x)
  have "balance_of (cache_put a ?y s) = (balance_of s)(a := 0)"
    using balance_upd [OF view_put [OF y]] by (simp add: acc_kill_def acc_changed_def value_of_def basic_def)
  then have "wealth (cache_put a ?y s) \<le> wealth s"
    using worth_upd [of "balance_of s" a 0] by (simp add: wealth_def)
  then show ?thesis using k y by (auto simp: cell_put)
qed

lemma kill_all_ok:
  "(\<forall>a\<in>set as. cell False s a \<noteq> None) \<Longrightarrow> \<exists>s'. kill_all as s = Inr ((), s') \<and> wealth s' \<le> wealth s"
proof (induction as arbitrary: s)
  case (Cons a as)
  obtain s1 where s1: "st_kill a s = Inr ((), s1)" "wealth s1 \<le> wealth s"
    "\<forall>b. cell False s b \<noteq> None \<longrightarrow> cell False s1 b \<noteq> None"
    using kill_step [of s a] Cons.prems by auto
  then obtain s2 where "kill_all as s1 = Inr ((), s2)" "wealth s2 \<le> wealth s1"
    using Cons.IH [of s1] Cons.prems by auto
  then show ?case using s1 by auto
qed simp

section \<open>The whole transaction\<close>

text \<open>The possible ends of a transaction that starts on \<open>s\<close>.\<close>

definition tx_end :: "world \<Rightarrow> tx_base \<Rightarrow> state \<Rightarrow> (bool \<times> executive) ex \<Rightarrow> bool" where
  "tx_end w t s r \<longleftrightarrow> (case r of
       Inl (ProcessEnd p, s') \<Rightarrow> \<not> bad_end p
     | Inl (exn, s') \<Rightarrow> extends False s s'
     | Inr ((done, e), s') \<Rightarrow> wealth s' \<le> wealth s \<and> ex_gas e \<le> m_gas t \<and>
         (done \<or> (\<forall>a. a \<noteq> tx_from (w_lib w) t \<longrightarrow> nonce_of s' a = nonce_of s a \<and>
            (a \<noteq> m_author (ei_header (w_env w)) \<longrightarrow> balance_of s' a = balance_of s a))))"

lemma tx_end_Inl: "tx_end w t s (Inl (exn, s')) \<longleftrightarrow> (case exn of ProcessEnd p \<Rightarrow> \<not> bad_end p | _ \<Rightarrow> extends False s s')"
  by (cases exn) (simp_all add: tx_end_def)

lemma ex_ok_tx_end: "ex_ok s (Inl x) Q \<Longrightarrow> tx_end w t s (Inl x)"
  by (cases x) (simp add: ex_ok_def tx_end_Inl split: exec_exn.splits)

text \<open>The end of a run, for a sender charged with the price of the gas.\<close>

lemma finalize_ok:
  assumes inv: "state_inv False s" and s2: "extends False s s2" "charged (tx_from (w_lib w) t) c s1 s2" "same_accounts s s1"
    and c: "unat c = unat (m_gas t) * unat (m_gasPrice t)"
    and s3: "grows s2 s3" "ran (tx_from (w_lib w) t) t s2 e s3"
    and L: "uint (m_gas t) < 2 ^ 63"
  shows "tx_end w t s (ex_finalize w e s3)"
proof -
  let ?a = "tx_from (w_lib w) t"
  have inv3: "state_inv False s3" and ext: "extends False s s3"
    using grows_inv [OF s3(1)] extends_trans [OF inv s2(1) grows_extends [OF s3(1)]] by simp_all
  have e: "ex_t e = t" "ex_gas e \<le> m_gas t" using s3(2) by (simp_all add: ran_def)
  have w3: "wealth s3 + unat c \<le> wealth s"
    using charged_wealth [OF s2(2)] same_wealth [OF s2(3)] s3(1) by (simp add: grows_def)
  have failed: "\<forall>a. a \<noteq> ?a \<longrightarrow> nonce_of s' a = nonce_of s a \<and>
      (a \<noteq> m_author (ei_header (w_env w)) \<longrightarrow> balance_of s' a = balance_of s a)"
    if "ex_excepted e \<noteq> TE_None" "paid_out w t s3 s'" for s'
    using that s2(2,3) s3(2)
    by (simp add: ran_def bumped_def paid_out_def charged_def same_accounts_def)
  show ?thesis
  proof (cases "ex_ext e")
    case None
    have p: "pay_ok s3 (ex_pay w e s3) (paid_out w t s3)" by (rule ex_pay_ok [OF inv3 e])
    show ?thesis
    proof (cases "ex_pay w e s3")
      case (Inl y)
      then show ?thesis
        using p None extends_trans [OF inv ext] by (auto simp: ex_finalize_def pay_ok_def tx_end_Inl split: prod.splits)
    next
      case (Inr y)
      obtain s' where y: "y = ((), s')" by (cases y) simp
      have q: "paid_out w t s3 s'" using p by (simp add: Inr y pay_ok_def)
      then have "wealth s' \<le> wealth s" using w3 c by (simp add: paid_out_def)
      then show ?thesis using failed [OF _ q] None e(2) by (auto simp: ex_finalize_def Inr y tx_end_def)
    qed
  next
    case (Some z)
    obtain x sub where z: "z = (x, sub)" by fastforce
    let ?sub = "sub_refund (w_schedule w) sub"
    let ?e = "e\<lparr>ex_ext := Some (x, ?sub), ex_gas := refund_gas (m_gas t) (ex_gas e) (refunds ?sub)\<rparr>"
    have m: "marked s3 ?sub" using s3(2) Some z by (simp add: ran_def marked_def sub_refund_def)
    show ?thesis
    proof (cases "sint (refunds ?sub) < 0")
      case True
      then show ?thesis using Some z by (simp add: ex_finalize_def tx_end_Inl bad_end_def)
    next
      case False
      have e': "ex_t ?e = t" "ex_gas ?e \<le> m_gas t"
        using e refund_le [OF L e(2)] False by simp_all
      have p: "pay_ok s3 (ex_pay w ?e s3) (paid_out w t s3)" by (rule ex_pay_ok [OF inv3 e'])
      have eq: "ex_finalize w e s3 = bindE (ex_pay w ?e s3) (\<lambda>(_, s).
            bindE (ex_st (kill_all (sorted_list_of_set (selfdestructs ?sub)) s)) (\<lambda>(_, s).
              Inr ((ex_excepted e = TE_None, ?e\<lparr>ex_logs := sub_logs ?sub\<rparr>), s)))"
        using False e(1) unfolding ex_finalize_def Some z option.case prod.case Let_def by simp
      show ?thesis
      proof (cases "ex_pay w ?e s3")
        case (Inl y)
        then show ?thesis
          using p extends_trans [OF inv ext] by (auto simp: eq pay_ok_def tx_end_Inl split: prod.splits)
      next
        case (Inr y)
        obtain s4 where y: "y = ((), s4)" by (cases y) simp
        have q: "extends False s3 s4" "paid_out w t s3 s4" using p by (simp_all add: Inr y pay_ok_def)
        have "\<forall>a \<in> set (sorted_list_of_set (selfdestructs ?sub)). cell False s4 a \<noteq> None"
          using m extends_cell [OF q(1)] by (simp add: marked_def)
        from kill_all_ok [OF this] obtain s5
          where s5: "kill_all (sorted_list_of_set (selfdestructs ?sub)) s4 = Inr ((), s5)" "wealth s5 \<le> wealth s4"
          by blast
        have "wealth s5 \<le> wealth s" using s5(2) q(2) w3 c by (simp add: paid_out_def)
        moreover have "s5 = s4" if "ex_excepted e \<noteq> TE_None"
        proof -
          have "sub = sub_clear sub" using that s3(2) Some z by (simp add: ran_def)
          then have "selfdestructs sub = selfdestructs (sub_clear sub)" by (rule arg_cong)
          then show ?thesis using s5(1) by (simp add: sub_refund_def sub_clear_def)
        qed
        ultimately show ?thesis
          using failed [OF _ q(2)] e'(2) s5(1) by (auto simp: eq Inr y ex_st_def tx_end_def)
      qed
    qed
  qed
qed

lemma run_ok_end:
  assumes inv: "state_inv False s" and L: "uint (m_gasLimit (ei_header (w_env w))) < 2 ^ 63"
  shows "tx_end w t s (ex_run w t s)"
proof (cases "ex_initialize w t (executive_new 0) s")
  case (Inl y)
  have "ex_ok s (Inl y) (initialized w t s)" using initialize_ok [OF inv, of w t] by (simp only: Inl)
  then show ?thesis unfolding ex_run_def Inl bindE.simps by (rule ex_ok_tx_end)
next
  case (Inr y)
  obtain e s1 where y: "y = (e, s1)" by fastforce
  let ?a = "tx_from (w_lib w) t"
  have i: "grows s s1" "initialized w t s e s1"
    using initialize_ok [OF inv, of w t] by (simp_all add: Inr y)
  have inv1: "state_inv False s1" by (rule grows_inv [OF i(1)])
  have gas: "uint (m_gas t) < 2 ^ 63"
    using i(2) L by (simp add: initialized_def word_le_def)
  let ?run = "\<lambda>s. bindE (set_up w e s) (\<lambda>((done, e), s). if done then Inr (e, s) else ex_go w (run_at w 1024) e s)"
  have run: "ex_run w t s = bindE (ex_st (subBalance ?a (ex_gasCost e) s1)) (\<lambda>(_, s). bindE (?run s) (\<lambda>(e, s). ex_finalize w e s))"
    using i(2) unfolding ex_run_def Inr y bindE.simps prod.case execute_set_up bindE_assoc
    by (simp add: initialized_def case_prod_beta')
  have c: "ok False s1 (subBalance ?a (ex_gasCost e) s1) (\<lambda>_ s'. charged ?a (ex_gasCost e) s1 s')"
    by (rule subBalance_charged [OF inv1])
  show ?thesis
  proof (cases "subBalance ?a (ex_gasCost e) s1")
    case (Inl x)
    then show ?thesis
      using c extends_trans [OF inv grows_extends [OF i(1)]]
      by (cases x) (simp add: run ex_st_def ok_def tx_end_Inl)
  next
    case (Inr x)
    obtain s2 where x: "x = ((), s2)" by (cases x) simp
    have s2: "extends False s1 s2" "charged ?a (ex_gasCost e) s1 s2" using c by (simp_all add: Inr x)
    have ss2: "extends False s s2" by (rule extends_trans [OF inv grows_extends [OF i(1)] s2(1)])
    have r: "ex_ok s2 (?run s2) (ran ?a t s2)" by (rule run_part_ok [OF extends_inv [OF s2(1)] i(2)])
    show ?thesis
    proof (cases "?run s2")
      case F: (Inl z)
      obtain exn s3 where z: "z = (exn, s3)" by fastforce
      have "case exn of ProcessEnd p \<Rightarrow> \<not> bad_end p | _ \<Rightarrow> extends False s2 s3" using r by (simp add: F z ex_ok_def)
      then have "tx_end w t s (Inl (exn, s3))"
        using extends_trans [OF inv ss2] by (cases exn) (simp_all add: tx_end_Inl)
      then show ?thesis by (simp add: run Inr x ex_st_def F z)
    next
      case R: (Inr z)
      obtain e3 s3 where z: "z = (e3, s3)" by fastforce
      have s3: "grows s2 s3" "ran ?a t s2 e3 s3" using r by (simp_all add: R z)
      have "tx_end w t s (ex_finalize w e3 s3)"
        by (rule finalize_ok [OF inv ss2 s2(2) _ _ s3 gas]) (use i(2) in \<open>simp_all add: initialized_def\<close>)
      then show ?thesis by (simp add: run Inr x ex_st_def R z)
    qed
  qed
qed

end
