(* ===== verification/StateProperties.thy ===== *)
theory StateProperties
  imports TransactionProofs
begin

text \<open>
  The property of the state (libethereum/State.cpp): the change log takes a state back. A step is
  one operation, on either outcome, under the conditions its callers keep.
\<close>

text \<open>The operations between a savepoint and a rollback. \<open>setStorage\<close> needs an account, and
  \<open>setCode\<close> and \<open>clearStorage\<close> an account that has been changed before: the first one without
  code, the second one with no storage but that of its root.\<close>

definition st_final :: "'a st \<Rightarrow> state" where
  "st_final r = (case r of Inl (e, s) \<Rightarrow> s | Inr (x, s) \<Rightarrow> s)"

inductive st_step :: "state \<Rightarrow> state \<Rightarrow> bool" where
  step_balance: "st_step s (st_final (st_balance a s))"
| step_nonce: "st_step s (st_final (getNonce a s))"
| step_storage: "st_step s (st_final (st_storage a k s))"
| step_code: "st_step s (st_final (st_code a s))"
| step_codeSize: "st_step s (st_final (st_codeSize a s))"
| step_incNonce: "st_step s (st_final (incNonce a s))"
| step_setNonce: "st_step s (st_final (st_setNonce a n s))"
| step_addBalance: "st_step s (st_final (addBalance a w s))"
| step_subBalance: "st_step s (st_final (subBalance a w s))"
| step_setBalance: "st_step s (st_final (setBalance a w s))"
| step_transfer: "st_step s (st_final (transferBalance a b w s))"
| step_setStorage: "view True s a \<noteq> None \<Longrightarrow> st_step s (st_final (setStorage a k w s))"
| step_setCode: "cell True s a = Some v \<Longrightarrow> v_codeHash v = EmptySHA3 (st_sha3 s) \<Longrightarrow>
    st_step s (st_final (st_setCode a code ver s))"
| step_clearStorage: "cell True s a = Some v \<Longrightarrow>
    v_root v = EmptyTrie (st_sha3 s) \<or> v_storage v = db_value (m_db s) (v_root v) \<Longrightarrow> st_step s (clearStorage a s)"

lemma final_extends: "ok full s r Q \<Longrightarrow> extends full s (st_final r)"
  by (auto simp: st_final_def ok_def split: sum.splits)

lemma step_extends: "st_step s s' \<Longrightarrow> state_inv True s \<Longrightarrow> extends True s s'"
proof (induction rule: st_step.induct)
  case (step_setCode s a v code ver)
  show ?case
    by (rule final_extends [OF setCode_ok]) (use step_setCode cell_cached [of True s a] in \<open>auto simp: st_sha3_def\<close>)
next
  case (step_clearStorage s a v)
  show ?case
    by (rule clearStorage_ok) (use step_clearStorage cell_cached [of True s a] in \<open>auto simp: st_sha3_def\<close>)
qed (auto simp: st_balance_def getNonce_def intro: final_extends query_ok storage_ok code_ok codeSize_ok
    incNonce_ok setNonce_ok addBalance_ok subBalance_ok setBalance_ok transferBalance_ok setStorage_ok)

lemma steps_extend: "st_step\<^sup>*\<^sup>* s s' \<Longrightarrow> state_inv True s \<Longrightarrow> extends True s s'"
  by (induction rule: rtranclp_induct) (auto simp: extends_refl intro: extends_trans step_extends extends_inv)

text \<open>C12: The change log restores the state. Take a savepoint, run any sequence of operations on
  balances, nonces, code and storage of any accounts, some of which may throw half way, and roll
  back: every account is again as it was, alive or absent, with its balance, nonce, code, storage
  root and every storage value, whatever the caches evicted in between, and the invariant of the
  state holds again.\<close>

theorem journal_rollback:
  assumes "state_inv True s" "st_step\<^sup>*\<^sup>* s s'"
  shows "view True (rollback (savepoint s) s') = view True s \<and> state_inv True (rollback (savepoint s) s')"
  using rollback_restores [OF assms(1) steps_extend [OF assms(2,1)]] extends_inv by blast

definition sample_db :: state_db where
  "sample_db = \<lparr>db_sha3 = (\<lambda>b. of_nat (length b)), db_at = (\<lambda>a. []), db_storage = (\<lambda>r k. []), db_lookup = (\<lambda>h. [])\<rparr>"

definition sample_state :: state where
  "sample_state = state_new sample_db 0 (\<lambda>n. n)"

lemma sample_inv: "state_inv full sample_state"
  unfolding sample_state_def by (rule new_inv)

theorem journal_rollback_witness:
  "view True (rollback (savepoint sample_state) (st_final (incNonce 7 (st_final (addBalance 7 100 sample_state)))))
     = view True sample_state"
proof -
  have "st_step\<^sup>*\<^sup>* sample_state (st_final (incNonce 7 (st_final (addBalance 7 100 sample_state))))"
    by (rule rtranclp.rtrancl_into_rtrancl, rule r_into_rtranclp, rule step_addBalance, rule step_incNonce)
  then show ?thesis using journal_rollback [OF sample_inv] by blast
qed

end
