(* ===== verification/ExecutiveProperties.thy ===== *)
theory ExecutiveProperties
  imports StateProperties
begin

text \<open>
  The properties of transaction execution (libethereum/Executive.cpp, ExtVM.cpp, State.cpp), over the
  composition of the transaction checks, the executive, the state and the interpreter.
\<close>

section \<open>A block and a transaction for the instances\<close>

definition sample_world :: world where
  "sample_world =
     \<lparr>w_env = \<lparr>ei_header = header_new\<lparr>m_number := 9, m_timestamp := 99, m_gasLimit := 1000000, m_author := 3\<rparr>,
        ei_precedingHashes = (\<lambda>h. []), ei_gasUsed = 0, ei_chainID = 1\<rparr>,
      w_engine = \<lparr>se_params = ChainOperationParams_default, se_experimentalForkBlock = 0, se_precompiled = Map.empty\<rparr>,
      w_intx = \<lparr>ix_sdivrem = (\<lambda>a b. (a div b, a mod b)), ix_addmod = (\<lambda>a b m. (a + b) mod m),
        ix_mulmod = (\<lambda>a b m. (a * b) mod m), ix_exp = (\<lambda>a b. a ^ unat b),
        ix_significant_bytes = (\<lambda>a. 32), ix_keccak256 = (\<lambda>d. of_nat (length d))\<rparr>,
      w_lib = \<lparr>lib_sha3 = (\<lambda>b. of_nat (length b)), lib_domain = [], g2_get_one = 1, g1_mul = (\<lambda>p k. p),
        g2_mul = (\<lambda>p k. p), lib_pairing = (\<lambda>p q. 0), hash_to_g1 = (\<lambda>m. 1)\<rparr>\<rparr>"

definition sample_transfer :: tx_base where
  "sample_transfer = tx_null\<lparr>m_type := MessageCall, m_gas := 21000, m_gasPrice := 2, m_value := 5,
     m_receiveAddress := 77, m_forcedSender := 7, m_vrs := Some \<lparr>sig_signature = 9, sig_publicKey = 4\<rparr>\<rparr>"

lemma sample_limit: "m_gasLimit (ei_header (w_env sample_world)) \<le> int64max"
  by (simp add: sample_world_def int64max_def)

lemma executeTransaction_end:
  assumes "state_inv False s" "m_gasLimit (ei_header (w_env w)) \<le> int64max"
  shows "tx_end w t s (ex_run w t s)"
proof -
  have "uint (m_gasLimit (ei_header (w_env w))) < 2 ^ 63"
    using assms(2) by (simp add: word_le_def int64max_def)
  from run_ok_end [OF assms(1) this] show ?thesis .
qed

section \<open>Properties\<close>

text \<open>C6: Every transaction comes to an end. From any state that satisfies the invariant, for any
  transaction, any code and any input, \<open>executeTransaction\<close> returns a result or an exception, or the
  process ends by an assertion, an exception out of a callback or the one path that is not modelled.
  The run never needs more turns of the interpreter than three per unit of gas of each frame and
  three more, nor more than 1024 levels of calls.\<close>

theorem transaction_ends:
  assumes "state_inv False s" "m_gasLimit (ei_header (w_env w)) \<le> int64max"
  shows "case executeTransaction w t s of
      Inl (ProcessEnd p, s') \<Rightarrow> p \<notin> {Running, OutOfFuel, DepthExceeded} | _ \<Rightarrow> True"
proof (cases "ex_run w t s")
  case (Inl y)
  obtain exn s' where y: "y = (exn, s')" by fastforce
  show ?thesis
    using executeTransaction_end [OF assms, of t]
    by (cases exn) (simp_all add: executeTransaction_def Inl y tx_end_Inl bad_end_def)
next
  case (Inr y)
  then show ?thesis by (simp add: executeTransaction_def)
qed

theorem transaction_ends_witness:
  "case executeTransaction sample_world sample_transfer sample_state of
      Inl (ProcessEnd p, s') \<Rightarrow> p \<notin> {Running, OutOfFuel, DepthExceeded} | _ \<Rightarrow> True"
  by (rule transaction_ends [OF sample_inv sample_limit])

text \<open>C5: A transaction that throws changes nothing: whatever the exception, at whatever point of the
  checks, the payment, the set-up, the run or the end it is thrown, \<open>executeTransaction\<close> rolls the
  state back to the balances and nonces before it.\<close>

theorem transaction_rolls_back:
  assumes "state_inv False s" "m_gasLimit (ei_header (w_env w)) \<le> int64max"
  shows "case executeTransaction w t s of
      Inl (exn, s') \<Rightarrow> (\<exists>p. exn = ProcessEnd p) \<or>
        (\<forall>a. balance_of s' a = balance_of s a \<and> nonce_of s' a = nonce_of s a) | Inr _ \<Rightarrow> True"
proof (cases "ex_run w t s")
  case (Inl y)
  obtain exn s1 where y: "y = (exn, s1)" by fastforce
  show ?thesis
  proof (cases "\<exists>p. exn = ProcessEnd p")
    case True
    then show ?thesis by (auto simp: executeTransaction_def Inl y)
  next
    case False
    then have "extends False s s1"
      using executeTransaction_end [OF assms, of t] by (cases exn) (simp_all add: Inl y tx_end_Inl)
    from rollback_grows(2) [OF assms(1) this] False show ?thesis
      by (cases exn) (simp_all add: executeTransaction_def Inl y same_accounts_def)
  qed
next
  case (Inr y)
  then show ?thesis by (simp add: executeTransaction_def)
qed

theorem transaction_rolls_back_witness:
  "case executeTransaction sample_world sample_transfer sample_state of
      Inl (exn, s') \<Rightarrow> (\<exists>p. exn = ProcessEnd p) \<or>
        (\<forall>a. balance_of s' a = balance_of sample_state a \<and> nonce_of s' a = nonce_of sample_state a) | Inr _ \<Rightarrow> True"
  by (rule transaction_rolls_back [OF sample_inv sample_limit])

text \<open>C4: No ether is made: the sum of all balances after a transaction is at most the sum before,
  through value transfers, creations, selfdestructs, refunds and fees, however calls are nested and
  whatever is rolled back; and the gas left to the sender is at most the gas bought.\<close>

theorem transaction_makes_no_ether:
  assumes "state_inv False s" "m_gasLimit (ei_header (w_env w)) \<le> int64max"
  shows "case executeTransaction w t s of
      Inr ((done, e), s') \<Rightarrow> (\<Sum>a\<in>UNIV. unat (balance_of s' a)) \<le> (\<Sum>a\<in>UNIV. unat (balance_of s a)) \<and>
        ex_gas e \<le> m_gas t
    | Inl _ \<Rightarrow> True"
  using executeTransaction_end [OF assms, of t]
  by (cases "ex_run w t s") (auto simp: executeTransaction_def Let_def tx_end_def wealth_def worth_def)

theorem transaction_makes_no_ether_witness:
  "case executeTransaction sample_world sample_transfer sample_state of
      Inr ((done, e), s') \<Rightarrow> (\<Sum>a\<in>UNIV. unat (balance_of s' a)) \<le> (\<Sum>a\<in>UNIV. unat (balance_of sample_state a)) \<and>
        ex_gas e \<le> m_gas sample_transfer
    | Inl _ \<Rightarrow> True"
  by (rule transaction_makes_no_ether [OF sample_inv sample_limit])

text \<open>C7: What a transaction whose code fails does to balances and nonces: when \<open>finalize\<close> reports
  an exception, every account but the sender has the nonce it had, and every account but the
  sender and the author of the block has the balance it had. The statement is about balances and
  nonces; storage, code and the existence of accounts are not part of it.\<close>

theorem failed_transaction_changes:
  assumes "state_inv False s" "m_gasLimit (ei_header (w_env w)) \<le> int64max"
  shows "case executeTransaction w t s of
      Inr ((done, e), s') \<Rightarrow> done \<or> (\<forall>a. a \<noteq> tx_from (w_lib w) t \<longrightarrow> nonce_of s' a = nonce_of s a \<and>
            (a \<noteq> m_author (ei_header (w_env w)) \<longrightarrow> balance_of s' a = balance_of s a))
    | Inl _ \<Rightarrow> True"
  using executeTransaction_end [OF assms, of t]
  by (cases "ex_run w t s") (auto simp: executeTransaction_def Let_def tx_end_def)

theorem failed_transaction_changes_witness:
  "case executeTransaction sample_world sample_transfer sample_state of
      Inr ((done, e), s') \<Rightarrow> done \<or> (\<forall>a. a \<noteq> tx_from (w_lib sample_world) sample_transfer \<longrightarrow>
            nonce_of s' a = nonce_of sample_state a \<and>
            (a \<noteq> m_author (ei_header (w_env sample_world)) \<longrightarrow> balance_of s' a = balance_of sample_state a))
    | Inl _ \<Rightarrow> True"
  by (rule failed_transaction_changes [OF sample_inv sample_limit])

text \<open>C8: Calls and creations made by a frame at any depth: unless the process ends, the result gives
  back at most the gas of the message, and a result other than success leaves every balance and
  every nonce as they were, but that the nonce of a creator may have been increased.\<close>

theorem call_failure_restores:
  assumes "x_depth x + 1 + n = 1024" "h_process h = Running" "state_inv False (h_state h)"
    and "marked (h_state h) (h_sub h)"
  shows "case evmc_call w (run_at w n) x h m of (res, h') \<Rightarrow>
      res_gas_left res \<le> msg_gas m \<and> h_process h' \<notin> {OutOfFuel, DepthExceeded} \<and>
      (h_process h' = Running \<longrightarrow> res_status res \<noteq> EVMC_SUCCESS \<longrightarrow>
        (\<forall>a. balance_of (h_state h') a = balance_of (h_state h) a \<and>
          (a \<noteq> x_myAddress x \<or> msg_kind m \<notin> {EVMC_CREATE, EVMC_CREATE2} \<longrightarrow>
           nonce_of (h_state h') a = nonce_of (h_state h) a)))"
proof -
  obtain res h' where r: "evmc_call w (run_at w n) x h m = (res, h')" by fastforce
  have "call_post x h m (res, h')"
    using evmc_call_ok [OF run_at_ok assms] unfolding r [symmetric] .
  then show ?thesis by (auto simp: r call_post_def bumped_def same_accounts_def)
qed

definition sample_frame :: ext_vm where
  "sample_frame = \<lparr>x_myAddress = 5, x_caller = 4, x_origin = 4, x_value = 0, x_gasPrice = 1, x_data = [],
     x_code = [], x_codeHash = 0, x_version = 0, x_depth = 3, x_isCreate = False, x_staticCall = False\<rparr>"

definition sample_message :: evmc_message where
  "sample_message = \<lparr>msg_kind = EVMC_CALL, msg_static = False, msg_depth = 4, msg_gas = 500, msg_destination = 6,
     msg_sender = 5, msg_input = [], msg_value = 100, msg_create2_salt = 0\<rparr>"

definition sample_ext_host :: ext_host where
  "sample_ext_host = \<lparr>h_state = sample_state, h_sub = sub_empty, h_process = Running\<rparr>"

theorem call_failure_restores_witness:
  "res_gas_left (fst (evmc_call sample_world (run_at sample_world 1020) sample_frame sample_ext_host sample_message)) \<le> 500"
  using call_failure_restores [of sample_frame 1020 sample_ext_host sample_message sample_world]
  by (cases "evmc_call sample_world (run_at sample_world 1020) sample_frame sample_ext_host sample_message")
    (simp add: sample_frame_def sample_ext_host_def sample_inv sample_message_def)

text \<open>C26: A frame on the executive's own host, at any depth: the interpreter returns within three
  turns per unit of gas and three more, with at most the gas it was given and without leaving its
  arrays, although its calls run further frames. The executive keeps the contract the
  interpreter is verified against.\<close>

theorem nested_frame_returns:
  assumes "x_depth x + n = 1024" "h_process h = Running" "state_inv False (h_state h)"
    and "marked (h_state h) (h_sub h)" "view False (h_state h) (x_myAddress x) \<noteq> None"
  shows "\<exists>res h'. execute (3 * unat (ucast gas :: u64) + 3) (frame_env w (ext_host_at w n x) x gas) h = Some (res, h') \<and>
     res_gas_left res \<le> ucast gas \<and> res_status res \<noteq> EVMC_INTERNAL_ERROR \<and>
     h_process h' \<notin> {OutOfFuel, DepthExceeded}"
proof -
  have g: "msg_gas (m_message (frame_env w (ext_host_at w n x) x gas)) = ucast gas"
    by (simp add: frame_env_def frame_message_def)
  have "frame_ok n x (h_state h) h" by (rule frame_start [OF assms(2,1,3,5,4)])
  from frame.execute_returns [OF this order_refl, of w gas] show ?thesis
    unfolding g frame_ok_def by blast
qed

theorem nested_frame_returns_witness:
  "\<exists>res h'. execute (3 * unat (ucast (40 :: u256) :: u64) + 3)
     (frame_env sample_world (ext_host_at sample_world 1021 sample_frame) sample_frame 40)
     (sample_ext_host\<lparr>h_state := st_final (incNonce 5 sample_state)\<rparr>) = Some (res, h') \<and> res_gas_left res \<le> 40"
proof -
  let ?s = "st_final (incNonce 5 sample_state)"
  have e: "extends False sample_state ?s" by (rule final_extends [OF incNonce_ok [OF sample_inv]])
  have "view False ?s 5 \<noteq> None"
    by (simp add: st_final_def incNonce_def st_account_def sample_state_def state_new_def sample_db_def
      requireAccountStartNonce_def view_create)
  then show ?thesis
    using nested_frame_returns [of sample_frame 1021 "sample_ext_host\<lparr>h_state := ?s\<rparr>" 40 sample_world] extends_inv [OF e]
    by (auto simp: sample_frame_def sample_ext_host_def)
qed

text \<open>C36: The refund adds at most half of the gas used, and all of it up to that, for a counter that
  passes the assertion of \<open>finalize\<close>.\<close>

theorem refund_bounds:
  assumes "uint limit < 2 ^ 63" "gas \<le> limit" "0 \<le> sint ref"
  shows "uint (refund_gas limit gas ref) = uint gas + min ((uint limit - uint gas) div 2) (sint ref)"
  by (rule refund_uint [OF assms])

theorem refund_bounds_witness: "uint (refund_gas 50000 20000 48000) = 35000"
  using refund_bounds [of 50000 20000 48000] by simp

end
