(* ===== verification/OrderedMap.thy ===== *)
theory OrderedMap
  imports Main "HOL-Library.AList"
begin

text \<open>
  The containers of the C++ standard library that the queues and the chain keep, as far as the code
  uses them. A \<open>std::map\<close> is the list of its entries in ascending order of the keys, so that
  \<open>begin\<close> is the head, \<open>rbegin\<close> the last element and \<open>lower_bound\<close> a suffix; an
  \<open>std::unordered_map\<close> that is iterated is an association list with distinct keys.
\<close>

section \<open>Entries in ascending order\<close>

definition om_sorted :: "('k::linorder \<times> 'v) list \<Rightarrow> bool" where
  "om_sorted m \<longleftrightarrow> sorted_wrt (<) (map fst m)"

text \<open>\<open>m[k] = v\<close>, \<open>m.insert({k, v})\<close> and \<open>m.emplace(k, v)\<close> (which keep an entry that is there), \<open>m.erase(k)\<close>.\<close>

fun om_put :: "'k::linorder \<Rightarrow> 'v \<Rightarrow> ('k \<times> 'v) list \<Rightarrow> ('k \<times> 'v) list" where
  "om_put k v [] = [(k, v)]"
| "om_put k v ((a, b) # m) =
     (if k < a then (k, v) # (a, b) # m else if k = a then (k, v) # m else (a, b) # om_put k v m)"

fun om_insert :: "'k::linorder \<Rightarrow> 'v \<Rightarrow> ('k \<times> 'v) list \<Rightarrow> ('k \<times> 'v) list" where
  "om_insert k v [] = [(k, v)]"
| "om_insert k v ((a, b) # m) =
     (if k < a then (k, v) # (a, b) # m else if k = a then (a, b) # m else (a, b) # om_insert k v m)"

definition om_erase :: "'k \<Rightarrow> ('k \<times> 'v) list \<Rightarrow> ('k \<times> 'v) list" where
  "om_erase k m = filter (\<lambda>(a, b). a \<noteq> k) m"

text \<open>The entries before \<open>lower_bound(k)\<close>, and those from it on.\<close>

definition om_below :: "'k::linorder \<Rightarrow> ('k \<times> 'v) list \<Rightarrow> ('k \<times> 'v) list" where
  "om_below k m = filter (\<lambda>(a, b). a < k) m"

definition om_from :: "'k::linorder \<Rightarrow> ('k \<times> 'v) list \<Rightarrow> ('k \<times> 'v) list" where
  "om_from k m = filter (\<lambda>(a, b). \<not> a < k) m"

section \<open>Laws\<close>

lemma om_sorted_Nil [simp]: "om_sorted []"
  by (simp add: om_sorted_def)

lemma om_sorted_Cons: "om_sorted ((a, b) # m) \<longleftrightarrow> (\<forall>(k, v)\<in>set m. a < k) \<and> om_sorted m"
  by (auto simp: om_sorted_def)

lemma om_sorted_distinct: "om_sorted m \<Longrightarrow> distinct (map fst m)"
  unfolding om_sorted_def using strict_sorted_iff by blast

lemma om_put_not_Nil [simp]: "om_put k v m \<noteq> []"
  by (cases "(k, v, m)" rule: om_put.cases) auto

lemma om_insert_not_Nil [simp]: "om_insert k v m \<noteq> []"
  by (cases "(k, v, m)" rule: om_insert.cases) auto

lemma set_om_put: "om_sorted m \<Longrightarrow> set (om_put k v m) = insert (k, v) (set (om_erase k m))"
  by (induction k v m rule: om_put.induct) (auto simp: om_sorted_Cons om_erase_def)

lemma set_om_insert: "om_sorted m \<Longrightarrow> k \<notin> fst ` set m \<Longrightarrow> set (om_insert k v m) = insert (k, v) (set m)"
  by (induction k v m rule: om_insert.induct) (auto simp: om_sorted_Cons)

lemma om_sorted_put [simp]: "om_sorted m \<Longrightarrow> om_sorted (om_put k v m)"
  by (induction k v m rule: om_put.induct)
    (auto simp: om_sorted_Cons set_om_put om_erase_def split: if_splits)

lemma om_put_insert: "om_put k v (om_insert k w m) = om_put k v m"
  by (induction k w m rule: om_insert.induct) auto

lemma om_insert_in: "om_sorted m \<Longrightarrow> k \<in> fst ` set m \<Longrightarrow> om_insert k v m = m"
  by (induction k v m rule: om_insert.induct) (auto simp: om_sorted_Cons)

lemma keys_om_put: "map fst (om_put k v m) = map fst (om_insert k w m)"
  by (induction k v m rule: om_put.induct) auto

lemma om_sorted_filter [simp]: "om_sorted m \<Longrightarrow> om_sorted (filter P m)"
  by (induction m) (auto simp: om_sorted_Cons)

lemma om_sorted_erase [simp]: "om_sorted m \<Longrightarrow> om_sorted (om_erase k m)"
  by (simp add: om_erase_def)

lemma set_om_erase [simp]: "set (om_erase k m) = {p \<in> set m. fst p \<noteq> k}"
  by (auto simp: om_erase_def)

lemma om_find_iff: "om_sorted m \<Longrightarrow> map_of m k = Some v \<longleftrightarrow> (k, v) \<in> set m"
  using om_sorted_distinct map_of_eq_Some_iff by metis

lemma om_sorted_append:
  "om_sorted (xs @ ys) \<longleftrightarrow> om_sorted xs \<and> om_sorted ys \<and> (\<forall>p\<in>set xs. \<forall>q\<in>set ys. fst p < fst q)"
  by (simp add: om_sorted_def sorted_wrt_append)

lemma om_split: "om_sorted m \<Longrightarrow> om_below k m @ om_from k m = m"
proof (induction m)
  case (Cons p m)
  obtain a b where p: "p = (a, b)" by force
  show ?case
  proof (cases "a < k")
    case True
    with Cons p show ?thesis by (simp add: om_below_def om_from_def om_sorted_Cons)
  next
    case False
    with Cons.prems p have "\<forall>(c, d)\<in>set m. \<not> c < k" by (fastforce simp: om_sorted_Cons)
    hence "filter (\<lambda>(c, d). c < k) m = []" "filter (\<lambda>(c, d). \<not> c < k) m = m"
      by (auto simp: filter_empty_conv filter_id_conv)
    with False p show ?thesis by (simp add: om_below_def om_from_def)
  qed
qed (simp add: om_below_def om_from_def)

lemma om_hd_least: "om_sorted ((a, b) # m) \<Longrightarrow> (k, v) \<in> set ((a, b) # m) \<Longrightarrow> a \<le> k"
  by (auto simp: om_sorted_Cons intro: less_imp_le)

lemma hd_om_insert:
  "m \<noteq> [] \<Longrightarrow> \<not> k < fst (hd m) \<Longrightarrow> fst (hd (om_insert k v m)) = fst (hd m)"
  by (cases "(k, v, m)" rule: om_insert.cases) auto

section \<open>Association lists\<close>

lemma keys_delete: "distinct (map fst xs) \<Longrightarrow> distinct (map fst (AList.delete k xs))"
  by (rule distinct_delete)

lemma set_delete: "distinct (map fst xs) \<Longrightarrow> set (AList.delete k xs) = {p \<in> set xs. fst p \<noteq> k}"
  by (auto simp: AList.delete_eq)

lemma set_update:
  "distinct (map fst xs) \<Longrightarrow> set (AList.update k v xs) = insert (k, v) {p \<in> set xs. fst p \<noteq> k}"
  by (induction xs) (force split: if_splits)+

end
