(* ===== verification/TransactionQueue.thy ===== *)
theory TransactionQueue
  imports Transaction OrderedMap
begin

text \<open>
  The queue of pending transactions, class \<open>TransactionQueue\<close> of libethereum/TransactionQueue.h and
  TransactionQueue.cpp. \<open>m_current\<close>, a \<open>std::multiset\<close> with an order that depends on the other
  containers, is the list of its elements in the order of iteration, each with the number that stands
  for its iterator; \<open>m_currentByHash\<close> and \<open>m_currentByAddressAndNonce\<close> hold these numbers. What the
  standard library leaves open is the parameter \<open>stl_lib\<close>: where \<open>multiset::emplace\<close> places an
  element (settled only for a sequence that is in order) and which key an \<open>unordered_map\<close> iterates first.

  A result \<open>None\<close> stands for the use of an invalid iterator (\<open>end()\<close>, an erased element) or a loop
  that does not end. Each operation runs under \<open>m_lock\<close>, so that it is one step.
\<close>

section \<open>Data\<close>

datatype ImportResult = ImportSuccess | UnknownParent | FutureTimeKnown | FutureTimeUnknown
  | AlreadyInChain | AlreadyKnown | Malformed | OverbidGasPrice | BadChain | ZeroSignature

datatype IfDropped = DroppedIgnore | DroppedRetry

datatype tq_event = TqReady | TqReplaced u256 | TqImported ImportResult u256 "512 word"

record stl_lib =
  ms_place :: "(tx_base \<Rightarrow> tx_base \<Rightarrow> bool) \<Rightarrow> tx_base list \<Rightarrow> tx_base \<Rightarrow> nat"
  um_begin :: "u160 list \<Rightarrow> u160"

record tx_queue =
  q_known :: "u256 set"
  q_dropped :: "u256 set"
  q_current :: "(nat \<times> tx_base) list"
  q_next :: nat
  q_byHash :: "u256 \<Rightarrow> nat option"
  q_byAddr :: "u160 \<Rightarrow> (u256 \<times> nat) list option"
  q_future :: "(u160 \<times> (u256 \<times> tx_base) list) list"
  q_limit :: nat
  q_futureLimit :: nat
  q_futureSize :: nat
  q_unverified :: "(bytes \<times> 512 word) list"
  q_events :: "tq_event list"

definition tq_new :: "nat \<Rightarrow> nat \<Rightarrow> tx_queue" where
  "tq_new limit futureLimit = \<lparr>q_known = {}, q_dropped = {}, q_current = [], q_next = 0,
     q_byHash = (\<lambda>_. None), q_byAddr = (\<lambda>_. None), q_future = [], q_limit = limit,
     q_futureLimit = futureLimit, q_futureSize = 0, q_unverified = [], q_events = []\<rparr>"

definition tq_note :: "tq_event \<Rightarrow> tx_queue \<Rightarrow> tx_queue" where
  "tq_note e q = q\<lparr>q_events := q_events q @ [e]\<rparr>"

text \<open>\<open>sha3()\<close> of a transaction that is in the queue, where it does not throw.\<close>

definition tx_hash :: "crypto_lib \<Rightarrow> tx_base \<Rightarrow> u256" where
  "tx_hash lib t = (case tx_sha3 (lib_sha3 lib) WithSignature t of Inl _ \<Rightarrow> 0 | Inr (h, _) \<Rightarrow> h)"

section \<open>The order\<close>

text \<open>\<open>PriorityCompare\<close>; an account that has an entry has a non-empty one.\<close>

definition min_nonce :: "tx_queue \<Rightarrow> u160 \<Rightarrow> u256" where
  "min_nonce q a = (case q_byAddr q a of Some ((n, _) # _) \<Rightarrow> n | _ \<Rightarrow> 0)"

definition nonce_height :: "crypto_lib \<Rightarrow> tx_queue \<Rightarrow> tx_base \<Rightarrow> u256" where
  "nonce_height lib q t = m_nonce t - min_nonce q (tx_from lib t)"

definition priority_compare :: "crypto_lib \<Rightarrow> tx_queue \<Rightarrow> tx_base \<Rightarrow> tx_base \<Rightarrow> bool" where
  "priority_compare lib q a b =
     (let height1 = nonce_height lib q a; height2 = nonce_height lib q b in
      height1 < height2 \<or> (height1 = height2 \<and> m_gasPrice a > m_gasPrice b))"

definition ms_emplace ::
    "stl_lib \<Rightarrow> (tx_base \<Rightarrow> tx_base \<Rightarrow> bool) \<Rightarrow> nat \<Rightarrow> tx_base \<Rightarrow> (nat \<times> tx_base) list \<Rightarrow>
     (nat \<times> tx_base) list" where
  "ms_emplace stl lt i t xs =
     (let p = ms_place stl lt (map snd xs) t in take p xs @ (i, t) # drop p xs)"

section \<open>Removing and inserting\<close>

definition tq_remove :: "crypto_lib \<Rightarrow> u256 \<Rightarrow> tx_queue \<Rightarrow> (bool \<times> tx_queue) option" where
  "tq_remove lib h q =
     (case q_byHash q h of
        None \<Rightarrow> Some (False, q)
      | Some i \<Rightarrow>
          Option.bind (map_of (q_current q) i) (\<lambda>t.
          let from = tx_from lib t in
          Option.bind (q_byAddr q from) (\<lambda>m.
          let m' = om_erase (m_nonce t) m in
          Some (True, q\<lparr>q_byAddr := (q_byAddr q)(from := if m' = [] then None else Some m'),
                        q_current := filter (\<lambda>(j, _). j \<noteq> i) (q_current q),
                        q_byHash := (q_byHash q)(h := None),
                        q_known := q_known q - {h}\<rparr>))))"

text \<open>The four statements that \<open>insertCurrent_WITH_LOCK\<close> and \<open>makeCurrent_WITH_LOCK\<close> share: the nonce is
  entered first, so that the order sees it, and the iterator is filled in afterwards.\<close>

definition tq_place :: "crypto_lib \<Rightarrow> stl_lib \<Rightarrow> u160 \<Rightarrow> u256 \<Rightarrow> tx_base \<Rightarrow> tx_queue \<Rightarrow> tx_queue" where
  "tq_place lib stl from h t q =
     (let m = om_insert (m_nonce t) 0 (case q_byAddr q from of None \<Rightarrow> [] | Some m \<Rightarrow> m);
          q1 = q\<lparr>q_byAddr := (q_byAddr q)(from \<mapsto> m)\<rparr>;
          i = q_next q in
      q1\<lparr>q_current := ms_emplace stl (priority_compare lib q1) i t (q_current q),
         q_next := i + 1,
         q_byAddr := (q_byAddr q)(from \<mapsto> om_put (m_nonce t) i m),
         q_byHash := (q_byHash q)(h \<mapsto> i)\<rparr>)"

text \<open>The transactions that the \<open>while\<close> loop of \<open>makeCurrent_WITH_LOCK\<close> passes, then the loop.\<close>

fun nonce_run :: "u256 \<Rightarrow> (u256 \<times> tx_base) list \<Rightarrow> (u256 \<times> tx_base) list" where
  "nonce_run n [] = []"
| "nonce_run n ((k, t) # fs) = (if m_nonce t = n then (k, t) # nonce_run (n + 1) fs else [])"

fun tq_move_run :: "crypto_lib \<Rightarrow> stl_lib \<Rightarrow> u160 \<Rightarrow> (u256 \<times> tx_base) list \<Rightarrow> tx_queue \<Rightarrow> tx_queue" where
  "tq_move_run lib stl from [] q = q"
| "tq_move_run lib stl from ((k, t) # fs) q =
     (let q = tq_place lib stl from (tx_hash lib t) t q in
      tq_move_run lib stl from fs (q\<lparr>q_futureSize := q_futureSize q - 1\<rparr>))"

definition set_future :: "u160 \<Rightarrow> (u256 \<times> tx_base) list \<Rightarrow> tx_queue \<Rightarrow> tx_queue" where
  "set_future a fs q = q\<lparr>q_future := if fs = [] then AList.delete a (q_future q)
                                     else AList.update a fs (q_future q)\<rparr>"

definition tq_advance :: "crypto_lib \<Rightarrow> stl_lib \<Rightarrow> tx_base \<Rightarrow> tx_queue \<Rightarrow> bool \<times> tx_queue" where
  "tq_advance lib stl t q =
     (let from = tx_from lib t in
      case map_of (q_future q) from of
        None \<Rightarrow> (False, q)
      | Some fs \<Rightarrow>
          let nonce = m_nonce t + 1 in
          case map_of fs nonce of
            None \<Rightarrow> (False, q)
          | Some _ \<Rightarrow>
              let run = nonce_run nonce (om_from nonce fs) in
              (run \<noteq> [], set_future from (om_below nonce fs @ drop (length run) (om_from nonce fs))
                 (tq_move_run lib stl from run q)))"

partial_function (option) tq_trim_future :: "stl_lib \<Rightarrow> tx_queue \<Rightarrow> tx_queue option" where
  "tq_trim_future stl q =
     (if q_futureSize q > q_futureLimit q then
        (if q_future q = [] then None
         else let a = um_begin stl (map fst (q_future q)) in
           Option.bind (map_of (q_future q) a) (\<lambda>fs.
             if fs = [] then None
             else tq_trim_future stl (set_future a (butlast fs) (q\<lparr>q_futureSize := q_futureSize q - 1\<rparr>))))
      else Some q)"

definition makeCurrent :: "crypto_lib \<Rightarrow> stl_lib \<Rightarrow> tx_base \<Rightarrow> tx_queue \<Rightarrow> tx_queue option" where
  "makeCurrent lib stl t q =
     (let (newCurrent, q) = tq_advance lib stl t q in
      Option.bind (tq_trim_future stl q) (\<lambda>q.
        Some (if newCurrent then tq_note TqReady q else q)))"

definition insertCurrent :: "crypto_lib \<Rightarrow> stl_lib \<Rightarrow> u256 \<Rightarrow> tx_base \<Rightarrow> tx_queue \<Rightarrow> tx_queue option" where
  "insertCurrent lib stl h t q =
     (if q_byHash q h \<noteq> None then Some q
      else Option.bind (makeCurrent lib stl t (tq_place lib stl (tx_from lib t) h t q)) (\<lambda>q.
        Some (q\<lparr>q_known := insert h (q_known q)\<rparr>)))"

partial_function (option) tq_trim :: "crypto_lib \<Rightarrow> tx_queue \<Rightarrow> tx_queue option" where
  "tq_trim lib q =
     (if length (q_current q) > q_limit q
      then Option.bind (tq_remove lib (tx_hash lib (snd (last (q_current q)))) q) (\<lambda>(_, q). tq_trim lib q)
      else Some q)"

section \<open>Importing\<close>

definition check_import :: "u256 \<Rightarrow> IfDropped \<Rightarrow> tx_queue \<Rightarrow> ImportResult" where
  "check_import h ik q =
     (if h \<in> q_known q then AlreadyKnown
      else if h \<in> q_dropped q \<and> ik = DroppedIgnore then AlreadyInChain
      else ImportSuccess)"

text \<open>The two searches of \<open>manageImport_WITH_LOCK\<close> for a transaction of the same account and nonce; the
  result says whether the import goes on.\<close>

definition outbid_current ::
    "crypto_lib \<Rightarrow> tx_base \<Rightarrow> tx_queue \<Rightarrow> (bool \<times> tx_queue) option" where
  "outbid_current lib t q =
     (case q_byAddr q (tx_from lib t) of
        None \<Rightarrow> Some (True, q)
      | Some m \<Rightarrow> (case map_of m (m_nonce t) of
            None \<Rightarrow> Some (True, q)
          | Some i \<Rightarrow> Option.bind (map_of (q_current q) i) (\<lambda>u.
              if m_gasPrice t < m_gasPrice u then Some (False, q)
              else let dropped = tx_hash lib u in
                Option.bind (tq_remove lib dropped q) (\<lambda>(_, q).
                  Some (True, tq_note (TqReplaced dropped) q)))))"

definition outbid_future :: "crypto_lib \<Rightarrow> tx_base \<Rightarrow> tx_queue \<Rightarrow> bool \<times> tx_queue" where
  "outbid_future lib t q =
     (case map_of (q_future q) (tx_from lib t) of
        None \<Rightarrow> (True, q)
      | Some fs \<Rightarrow> (case map_of fs (m_nonce t) of
            None \<Rightarrow> (True, q)
          | Some u \<Rightarrow>
              if m_gasPrice t < m_gasPrice u then (False, q)
              else (True, set_future (tx_from lib t) (om_erase (m_nonce t) fs)
                            (q\<lparr>q_futureSize := q_futureSize q - 1\<rparr>))))"

definition manageImport ::
    "crypto_lib \<Rightarrow> stl_lib \<Rightarrow> u256 \<Rightarrow> tx_base \<Rightarrow> tx_queue \<Rightarrow> (ImportResult \<times> tx_queue) option" where
  "manageImport lib stl h t q =
     Option.bind (outbid_current lib t q) (\<lambda>(go, q).
       if \<not> go then Some (OverbidGasPrice, q)
       else let (go, q) = outbid_future lib t q in
         if \<not> go then Some (OverbidGasPrice, q)
         else Option.bind (insertCurrent lib stl h t q) (\<lambda>q.
           Option.bind (tq_trim lib q) (\<lambda>q.
             Some (ImportSuccess, tq_note TqReady q))))"

text \<open>\<open>import(Transaction const&)\<close>: taking the hash may throw, before the lock is taken.\<close>

definition tq_import ::
    "crypto_lib \<Rightarrow> stl_lib \<Rightarrow> tx_base \<Rightarrow> IfDropped \<Rightarrow> tx_queue \<Rightarrow>
     tx_exn + (ImportResult \<times> tx_queue) option" where
  "tq_import lib stl t ik q =
     (if hasZeroSignature t then Inr (Some (ZeroSignature, q))
      else bindE (tx_sha3 (lib_sha3 lib) WithSignature t) (\<lambda>(h, t).
        let ir = check_import h ik q in
        Inr (if ir \<noteq> ImportSuccess then Some (ir, q) else manageImport lib stl h t q)))"

definition tq_import_rlp ::
    "crypto_lib \<Rightarrow> stl_lib \<Rightarrow> bytes \<Rightarrow> IfDropped \<Rightarrow> tx_queue \<Rightarrow> (ImportResult \<times> tx_queue) option" where
  "tq_import_rlp lib stl d ik q =
     (case bindE (tx_from_rlp d CheckTxEverything) (\<lambda>t. tq_import lib stl t ik q) of
        Inl _ \<Rightarrow> Some (Malformed, q)
      | Inr r \<Rightarrow> r)"

section \<open>The other operations\<close>

definition topTransactions :: "crypto_lib \<Rightarrow> nat \<Rightarrow> u256 set \<Rightarrow> tx_queue \<Rightarrow> tx_base list" where
  "topTransactions lib limit avoid q =
     take limit (filter (\<lambda>t. tx_hash lib t \<notin> avoid) (map snd (q_current q)))"

definition knownTransactions :: "tx_queue \<Rightarrow> u256 set" where
  "knownTransactions q = q_known q"

definition maxNonce :: "u160 \<Rightarrow> tx_queue \<Rightarrow> u256" where
  "maxNonce a q =
     (let ret = (case q_byAddr q a of Some m \<Rightarrow> if m \<noteq> [] then fst (last m) + 1 else 0 | None \<Rightarrow> 0) in
      case map_of (q_future q) a of
        Some fs \<Rightarrow> if fs \<noteq> [] then max ret (fst (last fs) + 1) else ret
      | None \<Rightarrow> ret)"

definition waiting :: "u160 \<Rightarrow> tx_queue \<Rightarrow> nat" where
  "waiting a q =
     (case q_byAddr q a of None \<Rightarrow> 0 | Some m \<Rightarrow> length m) +
     (case map_of (q_future q) a of None \<Rightarrow> 0 | Some fs \<Rightarrow> length fs)"

text \<open>The loop of \<open>setFuture\<close> over the entries from the cut-off on.\<close>

fun tq_postpone ::
    "crypto_lib \<Rightarrow> u160 \<Rightarrow> (u256 \<times> nat) list \<Rightarrow> tx_queue \<Rightarrow> tx_queue option" where
  "tq_postpone lib from [] q = Some q"
| "tq_postpone lib from ((_, i) # m) q =
     Option.bind (map_of (q_current q) i) (\<lambda>t.
     let target = (case map_of (q_future q) from of None \<Rightarrow> [] | Some fs \<Rightarrow> fs) in
     tq_postpone lib from m (q\<lparr>
       q_byHash := (q_byHash q)(tx_hash lib t := None),
       q_future := AList.update from (om_insert (m_nonce t) t target) (q_future q),
       q_current := filter (\<lambda>(j, _). j \<noteq> i) (q_current q),
       q_futureSize := q_futureSize q + 1\<rparr>))"

definition setFuture :: "crypto_lib \<Rightarrow> u256 \<Rightarrow> tx_queue \<Rightarrow> tx_queue option" where
  "setFuture lib h q =
     (case q_byHash q h of
        None \<Rightarrow> Some q
      | Some i \<Rightarrow>
          Option.bind (map_of (q_current q) i) (\<lambda>st.
          let from = tx_from lib st in
          let queue = (case q_byAddr q from of None \<Rightarrow> [] | Some m \<Rightarrow> m) in
          let target = (case map_of (q_future q) from of None \<Rightarrow> [] | Some fs \<Rightarrow> fs) in
          Option.bind (tq_postpone lib from (om_from (m_nonce st) queue)
              (q\<lparr>q_future := AList.update from target (q_future q)\<rparr>)) (\<lambda>q.
          let queue' = om_below (m_nonce st) queue in
          Some (q\<lparr>q_byAddr := (q_byAddr q)(from := if queue' = [] then None else Some queue')\<rparr>))))"

definition tq_drop :: "crypto_lib \<Rightarrow> u256 \<Rightarrow> tx_queue \<Rightarrow> tx_queue option" where
  "tq_drop lib h q =
     (if h \<notin> q_known q then Some q
      else Option.bind (tq_remove lib h (q\<lparr>q_dropped := insert h (q_dropped q)\<rparr>)) (\<lambda>(_, q). Some q))"

text \<open>An exception of \<open>sha3\<close> leaves the queue as \<open>makeCurrent\<close> made it.\<close>

definition dropGood :: "crypto_lib \<Rightarrow> stl_lib \<Rightarrow> tx_base \<Rightarrow> tx_queue \<Rightarrow> (tx_exn option \<times> tx_queue) option" where
  "dropGood lib stl t q =
     Option.bind (makeCurrent lib stl t q) (\<lambda>q.
       case tx_sha3 (lib_sha3 lib) WithSignature t of
         Inl e \<Rightarrow> Some (Some e, q)
       | Inr (h, _) \<Rightarrow> if h \<notin> q_known q then Some (None, q)
           else Option.bind (tq_remove lib h q) (\<lambda>(_, q). Some (None, q)))"

definition tq_clear :: "tx_queue \<Rightarrow> tx_queue" where
  "tq_clear q = q\<lparr>q_known := {}, q_current := [], q_byAddr := (\<lambda>_. None), q_byHash := (\<lambda>_. None),
     q_future := [], q_futureSize := 0\<rparr>"

section \<open>Verification of received transactions\<close>

definition c_maxVerificationQueueSize :: nat where "c_maxVerificationQueueSize = 8192"

text \<open>The loop of \<open>enqueue\<close> over the items from \<open>i\<close> on; \<open>n\<close> are left. An exception leaves the items
  that were stored.\<close>

fun enqueue_loop :: "512 word \<Rightarrow> nat \<Rightarrow> nat \<Rightarrow> rlp \<Rightarrow> tx_queue \<Rightarrow> (rlp_exn option \<times> tx_queue)" where
  "enqueue_loop node i 0 r q = (None, q)"
| "enqueue_loop node i (Suc n) r q =
     (if length (q_unverified q) \<ge> c_maxVerificationQueueSize then (None, q)
      else case rlp_index r i of
             Inl e \<Rightarrow> (Some e, q)
           | Inr (d, r) \<Rightarrow> enqueue_loop node (i + 1) n r (q\<lparr>q_unverified := q_unverified q @ [(d, node)]\<rparr>))"

definition tq_enqueue :: "bytes \<Rightarrow> 512 word \<Rightarrow> tx_queue \<Rightarrow> (rlp_exn option \<times> tx_queue)" where
  "tq_enqueue d node q =
     (case itemCount d of
        Inl e \<Rightarrow> (Some e, q)
      | Inr n \<Rightarrow> enqueue_loop node 0 n (rlp_view d) q)"

text \<open>One round of \<open>verifierBody\<close>, in its two critical sections: taking the first entry, then importing
  it. Whatever is thrown is swallowed by \<open>catch (...)\<close>.\<close>

definition verifier_take :: "tx_queue \<Rightarrow> ((bytes \<times> 512 word) \<times> tx_queue) option" where
  "verifier_take q = (case q_unverified q of [] \<Rightarrow> None
     | w # ws \<Rightarrow> Some (w, q\<lparr>q_unverified := ws\<rparr>))"

definition verifier_import ::
    "crypto_lib \<Rightarrow> stl_lib \<Rightarrow> bytes \<times> 512 word \<Rightarrow> tx_queue \<Rightarrow> tx_queue option" where
  "verifier_import lib stl w q =
     (case tx_from_rlp (fst w) CheckCheap of
        Inl _ \<Rightarrow> Some q
      | Inr t \<Rightarrow> (case tq_import lib stl t DroppedIgnore q of
            Inl _ \<Rightarrow> Some q
          | Inr r \<Rightarrow> Option.bind r (\<lambda>(ir, q).
              Some (case tx_sha3 (lib_sha3 lib) WithSignature t of
                      Inl _ \<Rightarrow> q
                    | Inr (h, _) \<Rightarrow> tq_note (TqImported ir h (snd w)) q))))"

end
