(* ===== verification/TransactionQueueProofs.thy ===== *)
theory TransactionQueueProofs
  imports TransactionQueue
begin

text \<open>
  What the containers of the transaction queue promise each other, and that every operation keeps it:
  the two indices name exactly the elements of \<open>m_current\<close>, an account and nonce is held once, hashes
  are told apart, and \<open>m_futureSize\<close> counts the postponed transactions.
\<close>

section \<open>The invariant\<close>

definition slot :: "crypto_lib \<Rightarrow> tx_base \<Rightarrow> u160 \<times> u256" where
  "slot lib t = (tx_from lib t, m_nonce t)"

definition cur_txs :: "tx_queue \<Rightarrow> tx_base set" where
  "cur_txs q = snd ` set (q_current q)"

definition fut_txs :: "tx_queue \<Rightarrow> tx_base set" where
  "fut_txs q = {t. \<exists>a fs n. (a, fs) \<in> set (q_future q) \<and> (n, t) \<in> set fs}"

definition fut_count :: "tx_queue \<Rightarrow> nat" where
  "fut_count q = sum_list (map (length \<circ> snd) (q_future q))"

definition ids_ok :: "tx_queue \<Rightarrow> bool" where
  "ids_ok q \<longleftrightarrow> distinct (map fst (q_current q)) \<and> (\<forall>(i, t)\<in>set (q_current q). i < q_next q)"

definition hash_ok :: "crypto_lib \<Rightarrow> tx_queue \<Rightarrow> bool" where
  "hash_ok lib q \<longleftrightarrow> (\<forall>h i. q_byHash q h = Some i \<longleftrightarrow>
     (\<exists>t. (i, t) \<in> set (q_current q) \<and> tx_hash lib t = h))"

definition addr_ok :: "crypto_lib \<Rightarrow> tx_queue \<Rightarrow> u160 \<Rightarrow> bool" where
  "addr_ok lib q a \<longleftrightarrow> (case q_byAddr q a of
       None \<Rightarrow> \<forall>t\<in>cur_txs q. tx_from lib t \<noteq> a
     | Some m \<Rightarrow> m \<noteq> [] \<and> om_sorted m \<and>
         (\<forall>n i. (n, i) \<in> set m \<longleftrightarrow> (\<exists>t. (i, t) \<in> set (q_current q) \<and> slot lib t = (a, n))))"

definition core :: "crypto_lib \<Rightarrow> tx_queue \<Rightarrow> bool" where
  "core lib q \<longleftrightarrow> ids_ok q \<and> hash_ok lib q \<and> (\<forall>a. addr_ok lib q a)"

definition future_ok :: "crypto_lib \<Rightarrow> u160 \<Rightarrow> (u256 \<times> tx_base) list \<Rightarrow> bool" where
  "future_ok lib a fs \<longleftrightarrow> om_sorted fs \<and> (\<forall>(n, t)\<in>set fs. slot lib t = (a, n))"

definition fut_shape :: "crypto_lib \<Rightarrow> tx_queue \<Rightarrow> bool" where
  "fut_shape lib q \<longleftrightarrow> distinct (map fst (q_future q)) \<and>
     (\<forall>(a, fs)\<in>set (q_future q). future_ok lib a fs)"

definition fut_full :: "tx_queue \<Rightarrow> bool" where
  "fut_full q \<longleftrightarrow> (\<forall>(a, fs)\<in>set (q_future q). fs \<noteq> [])"

definition fut_core :: "crypto_lib \<Rightarrow> tx_queue \<Rightarrow> bool" where
  "fut_core lib q \<longleftrightarrow> fut_shape lib q \<and> fut_full q \<and> q_futureSize q = fut_count q"

definition apart :: "crypto_lib \<Rightarrow> tx_base set \<Rightarrow> tx_base set \<Rightarrow> bool" where
  "apart lib C F \<longleftrightarrow> inj_on (tx_hash lib) (C \<union> F) \<and> slot lib ` C \<inter> slot lib ` F = {}"

definition tq_wf :: "crypto_lib \<Rightarrow> tx_queue \<Rightarrow> bool" where
  "tq_wf lib q \<longleftrightarrow> core lib q \<and> fut_core lib q \<and> apart lib (cur_txs q) (fut_txs q)"

definition tq_inv :: "crypto_lib \<Rightarrow> tx_queue \<Rightarrow> bool" where
  "tq_inv lib q \<longleftrightarrow> tq_wf lib q \<and> tx_hash lib ` (cur_txs q \<union> fut_txs q) \<subseteq> q_known q"

section \<open>Consequences\<close>

lemma cur_txs_iff: "t \<in> cur_txs q \<longleftrightarrow> (\<exists>i. (i, t) \<in> set (q_current q))"
  by (force simp: cur_txs_def)

lemma ids_find: "ids_ok q \<Longrightarrow> map_of (q_current q) i = Some t \<longleftrightarrow> (i, t) \<in> set (q_current q)"
  by (simp add: ids_ok_def)

lemma byHash_None: "hash_ok lib q \<Longrightarrow> q_byHash q h = None \<longleftrightarrow> h \<notin> tx_hash lib ` cur_txs q"
  by (force simp: hash_ok_def cur_txs_iff not_Some_eq [symmetric])

lemma byHash_Some:
  "hash_ok lib q \<Longrightarrow> q_byHash q h = Some i \<Longrightarrow> \<exists>t. (i, t) \<in> set (q_current q) \<and> tx_hash lib t = h"
  by (simp add: hash_ok_def)

lemma hash_inj:
  "hash_ok lib q \<Longrightarrow> (i, t) \<in> set (q_current q) \<Longrightarrow> (j, u) \<in> set (q_current q) \<Longrightarrow>
     tx_hash lib t = tx_hash lib u \<Longrightarrow> i = j"
  by (metis hash_ok_def option.inject)

lemma byAddr_Some:
  assumes "core lib q" "q_byAddr q a = Some m"
  shows "m \<noteq> []" "om_sorted m"
    "(n, i) \<in> set m \<longleftrightarrow> (\<exists>t. (i, t) \<in> set (q_current q) \<and> slot lib t = (a, n))"
proof -
  have "addr_ok lib q a" using assms(1) by (simp add: core_def)
  with assms(2) show "m \<noteq> []" "om_sorted m"
    "(n, i) \<in> set m \<longleftrightarrow> (\<exists>t. (i, t) \<in> set (q_current q) \<and> slot lib t = (a, n))"
    by (simp_all add: addr_ok_def)
qed

lemma byAddr_None:
  "core lib q \<Longrightarrow> q_byAddr q a = None \<longleftrightarrow> (\<forall>t\<in>cur_txs q. tx_from lib t \<noteq> a)"
proof
  assume "core lib q" "q_byAddr q a = None"
  moreover from this(1) have "addr_ok lib q a" by (simp add: core_def)
  ultimately show "\<forall>t\<in>cur_txs q. tx_from lib t \<noteq> a" by (simp add: addr_ok_def)
next
  assume c: "core lib q" and no: "\<forall>t\<in>cur_txs q. tx_from lib t \<noteq> a"
  show "q_byAddr q a = None"
  proof (cases "q_byAddr q a")
    case (Some m)
    with c have "m \<noteq> []" by (rule byAddr_Some)
    then obtain n i where "(n, i) \<in> set m" by (metis list.set_intros(1) neq_Nil_conv surj_pair)
    with byAddr_Some(3) [OF c Some] no show ?thesis by (auto simp: cur_txs_iff slot_def)
  qed
qed

lemma byAddr_in:
  assumes "core lib q" "(i, t) \<in> set (q_current q)" "slot lib t = (a, n)"
  obtains m where "q_byAddr q a = Some m" "m \<noteq> []" "om_sorted m" "(n, i) \<in> set m"
proof -
  have "t \<in> cur_txs q" "tx_from lib t = a" using assms(2,3) by (auto simp: cur_txs_iff slot_def)
  hence "q_byAddr q a \<noteq> None" using byAddr_None [OF assms(1)] by blast
  then obtain m where m: "q_byAddr q a = Some m" by auto
  with byAddr_Some [OF assms(1) m] assms(2,3) that show ?thesis by blast
qed

lemma slot_inj:
  assumes "core lib q" "(i, t) \<in> set (q_current q)" "(j, u) \<in> set (q_current q)" "slot lib t = slot lib u"
  shows "i = j \<and> t = u"
proof -
  obtain a n where s: "slot lib t = (a, n)" by force
  from assms(1,2) s obtain m where m: "q_byAddr q a = Some m" "om_sorted m" "(n, i) \<in> set m"
    by (rule byAddr_in)
  from byAddr_Some(3) [OF assms(1) m(1)] have "(n, j) \<in> set m" using assms(3,4) s by metis
  with m have "i = j" by (metis om_find_iff option.inject)
  moreover from assms(1) have "ids_ok q" by (simp add: core_def)
  ultimately show ?thesis using assms(2,3) ids_find by (metis option.inject)
qed

section \<open>Removing\<close>

lemma addr_ok_other:
  assumes "addr_ok lib q a" "q_byAddr q' a = q_byAddr q a"
    and "\<And>i t. tx_from lib t = a \<Longrightarrow> (i, t) \<in> set (q_current q') \<longleftrightarrow> (i, t) \<in> set (q_current q)"
  shows "addr_ok lib q' a"
  using assms unfolding addr_ok_def cur_txs_def slot_def
  by (auto split: option.splits)

lemma tq_remove_ok:
  assumes "core lib q" "(i, t) \<in> set (q_current q)"
  obtains q' where "tq_remove lib (tx_hash lib t) q = Some (True, q')" "core lib q'"
    "q_current q' = filter (\<lambda>(j, _). j \<noteq> i) (q_current q)"
    "cur_txs q' = cur_txs q - {t}"
    "q_future q' = q_future q" "q_futureSize q' = q_futureSize q" "q_limit q' = q_limit q"
    "q_futureLimit q' = q_futureLimit q" "q_known q' = q_known q - {tx_hash lib t}"
    "q_events q' = q_events q" "q_dropped q' = q_dropped q"
proof -
  let ?a = "tx_from lib t" and ?n = "m_nonce t"
  let ?f = "filter (\<lambda>(j, _). j \<noteq> i) (q_current q)"
  have h: "q_byHash q (tx_hash lib t) = Some i" and ids: "ids_ok q" and ho: "hash_ok lib q"
    using assms by (auto simp: core_def hash_ok_def)
  obtain m where m: "q_byAddr q ?a = Some m" "m \<noteq> []" "om_sorted m" "(?n, i) \<in> set m"
    by (rule byAddr_in [OF assms, of ?a ?n]) (simp add: slot_def)
  define q' where "q' = q\<lparr>q_byAddr := (q_byAddr q)(?a := if om_erase ?n m = [] then None else Some (om_erase ?n m)),
     q_current := ?f, q_byHash := (q_byHash q)(tx_hash lib t := None), q_known := q_known q - {tx_hash lib t}\<rparr>"
  have rem: "tq_remove lib (tx_hash lib t) q = Some (True, q')"
  proof -
    have "map_of (q_current q) i = Some t" using assms(2) ids_find [OF ids] by simp
    thus ?thesis using h m(1) by (simp add: tq_remove_def q'_def Let_def)
  qed
  have uniq: "(i, u) \<in> set (q_current q) \<longleftrightarrow> u = t" for u
    using assms(2) ids_find [OF ids] by (metis option.inject)
  have cur: "cur_txs q' = cur_txs q - {t}"
  proof -
    have "(j, t) \<in> set (q_current q) \<longleftrightarrow> j = i" for j
      using slot_inj [OF assms(1) _ assms(2) refl] assms(2) by metis
    thus ?thesis using uniq by (auto simp: q'_def cur_txs_iff)
  qed
  have idx: "(\<forall>n j. (n, j) \<in> set m \<longleftrightarrow> (\<exists>u. (j, u) \<in> set (q_current q) \<and> slot lib u = (?a, n)))"
    using byAddr_Some(3) [OF assms(1) m(1)] by blast
  have er: "(n, j) \<in> set (om_erase ?n m) \<longleftrightarrow> (\<exists>u. (j, u) \<in> set ?f \<and> slot lib u = (?a, n))" for n j
  proof -
    have "(n, j) \<in> set m \<Longrightarrow> n = ?n \<longleftrightarrow> j = i"
      using m idx uniq by (metis Pair_inject om_find_iff option.inject slot_def)
    thus ?thesis using idx by auto
  qed
  have "addr_ok lib q' a" for a
  proof (cases "a = ?a")
    case True
    show ?thesis
    proof (cases "om_erase ?n m = []")
      case True
      have "u \<in> cur_txs q' \<Longrightarrow> tx_from lib u \<noteq> ?a" for u
        using er True by (auto simp: q'_def cur_txs_iff slot_def)
      with True \<open>a = ?a\<close> show ?thesis by (simp add: addr_ok_def q'_def)
    next
      case False
      with \<open>a = ?a\<close> er m(3) show ?thesis by (simp add: addr_ok_def q'_def)
    qed
  next
    case False
    have "addr_ok lib q a" using assms(1) by (simp add: core_def)
    thus ?thesis
      by (rule addr_ok_other) (use False uniq in \<open>auto simp: q'_def\<close>)
  qed
  moreover have "hash_ok lib q'"
    using ho uniq h hash_inj [OF ho] assms(2) by (auto simp: q'_def hash_ok_def)
  moreover have "ids_ok q'"
    using ids by (auto simp: ids_ok_def q'_def distinct_map_filter)
  ultimately have "core lib q'" by (simp add: core_def)
  thus ?thesis by (rule that [OF rem]) (use cur in \<open>simp_all add: q'_def\<close>)
qed

lemma tq_remove_none: "q_byHash q h = None \<Longrightarrow> tq_remove lib h q = Some (False, q)"
  by (simp add: tq_remove_def)


section \<open>Placing\<close>

lemma set_emplace [simp]: "set (ms_emplace stl lt i t xs) = insert (i, t) (set xs)"
proof -
  let ?p = "ms_place stl lt (map snd xs) t"
  have "set xs = set (take ?p xs) \<union> set (drop ?p xs)" by (metis append_take_drop_id set_append)
  thus ?thesis by (simp add: ms_emplace_def Let_def)
qed

lemma length_emplace: "length (ms_emplace stl lt i t xs) = Suc (length xs)"
  by (simp add: ms_emplace_def Let_def)

lemma keys_emplace:
  assumes "distinct (map fst xs)" "\<forall>(j, u)\<in>set xs. j < i"
  shows "distinct (map fst (ms_emplace stl lt i t xs))"
proof -
  let ?p = "ms_place stl lt (map snd xs) t"
  have "i \<notin> set (map fst xs)" using assms(2) by auto
  moreover have "map fst xs = take ?p (map fst xs) @ drop ?p (map fst xs)" by simp
  ultimately have "distinct (take ?p (map fst xs) @ i # drop ?p (map fst xs))"
    using assms(1) by (metis (no_types, lifting) distinct.simps(2) distinct_append disjoint_insert(2)
        list.simps(15) set_append Un_iff)
  thus ?thesis by (simp add: ms_emplace_def Let_def take_map drop_map)
qed

lemma tq_place_fields [simp]:
  "q_future (tq_place lib stl a h t q) = q_future q" "q_futureSize (tq_place lib stl a h t q) = q_futureSize q"
  "q_known (tq_place lib stl a h t q) = q_known q" "q_limit (tq_place lib stl a h t q) = q_limit q"
  "q_futureLimit (tq_place lib stl a h t q) = q_futureLimit q"
  "q_dropped (tq_place lib stl a h t q) = q_dropped q"
  "cur_txs (tq_place lib stl a h t q) = insert t (cur_txs q)"
  "length (q_current (tq_place lib stl a h t q)) = Suc (length (q_current q))"
  by (simp_all add: tq_place_def Let_def cur_txs_def length_emplace)

lemma tq_place_core:
  assumes c: "core lib q" and h: "tx_hash lib t \<notin> tx_hash lib ` cur_txs q"
    and s: "slot lib t \<notin> slot lib ` cur_txs q"
  shows "core lib (tq_place lib stl (tx_from lib t) (tx_hash lib t) t q)"
proof -
  let ?a = "tx_from lib t" and ?n = "m_nonce t" and ?i = "q_next q"
  let ?q = "tq_place lib stl ?a (tx_hash lib t) t q"
  define m0 where "m0 = (case q_byAddr q ?a of None \<Rightarrow> [] | Some m \<Rightarrow> m)"
  have cur: "set (q_current ?q) = insert (?i, t) (set (q_current q))"
    by (simp add: tq_place_def Let_def)
  have ids: "ids_ok q" and ho: "hash_ok lib q" using c by (auto simp: core_def)
  have fresh: "(?i, u) \<notin> set (q_current q)" for u using ids by (auto simp: ids_ok_def)
  have bA: "q_byAddr ?q = (q_byAddr q)(?a \<mapsto> om_put ?n ?i m0)"
    by (simp add: tq_place_def Let_def m0_def om_put_insert)
  have m0: "om_sorted m0" "(n, j) \<in> set m0 \<longleftrightarrow> (\<exists>u. (j, u) \<in> set (q_current q) \<and> slot lib u = (?a, n))" for n j
    using byAddr_Some [OF c, of ?a] byAddr_None [OF c, of ?a]
    by (auto simp: m0_def cur_txs_iff slot_def split: option.splits)
  have "ids_ok ?q"
    using ids keys_emplace [of "q_current q" ?i stl _ t]
    by (auto simp: ids_ok_def tq_place_def Let_def less_Suc_eq)
  moreover have "hash_ok lib ?q"
  proof -
    have "q_byHash ?q = (q_byHash q)(tx_hash lib t \<mapsto> ?i)" by (simp add: tq_place_def Let_def)
    moreover have "(j, u) \<in> set (q_current q) \<Longrightarrow> tx_hash lib u \<noteq> tx_hash lib t" for j u
      using h by (metis cur_txs_iff image_eqI)
    ultimately show ?thesis using ho cur fresh by (auto simp: hash_ok_def)
  qed
  moreover have "addr_ok lib ?q b" for b
  proof (cases "b = ?a")
    case True
    have "(n, j) \<in> set (om_put ?n ?i m0) \<longleftrightarrow> (\<exists>u. (j, u) \<in> set (q_current ?q) \<and> slot lib u = (?a, n))" for n j
    proof -
      have "(?n, k) \<notin> set m0" for k
      proof
        assume "(?n, k) \<in> set m0"
        then obtain u where "(k, u) \<in> set (q_current q)" "slot lib u = slot lib t"
          using m0(2) by (auto simp: slot_def)
        thus False using s by (metis cur_txs_iff image_eqI)
      qed
      hence e: "{p \<in> set m0. fst p \<noteq> ?n} = set m0" by auto
      show ?thesis
        unfolding set_om_put [OF m0(1)] set_om_erase e cur using m0(2) fresh by (auto simp: slot_def)
    qed
    with True m0(1) bA show ?thesis by (simp add: addr_ok_def)
  next
    case False
    have "addr_ok lib q b" using c by (simp add: core_def)
    thus ?thesis by (rule addr_ok_other) (use False bA cur in auto)
  qed
  ultimately show ?thesis by (simp add: core_def)
qed

lemma core_futureSize [simp]: "core lib (q\<lparr>q_futureSize := n\<rparr>) \<longleftrightarrow> core lib q"
  and core_future [simp]: "core lib (q\<lparr>q_future := f\<rparr>) \<longleftrightarrow> core lib q"
  and core_known [simp]: "core lib (q\<lparr>q_known := k\<rparr>) \<longleftrightarrow> core lib q"
  and core_dropped [simp]: "core lib (q\<lparr>q_dropped := k\<rparr>) \<longleftrightarrow> core lib q"
  and core_events [simp]: "core lib (q\<lparr>q_events := e\<rparr>) \<longleftrightarrow> core lib q"
  by (simp_all add: core_def ids_ok_def hash_ok_def addr_ok_def cur_txs_def cong: option.case_cong)

lemma cur_txs_simps [simp]: "cur_txs (q\<lparr>q_futureSize := n\<rparr>) = cur_txs q"
  "cur_txs (q\<lparr>q_future := f\<rparr>) = cur_txs q" "cur_txs (q\<lparr>q_known := k\<rparr>) = cur_txs q"
  "cur_txs (q\<lparr>q_dropped := k\<rparr>) = cur_txs q" "cur_txs (q\<lparr>q_events := e\<rparr>) = cur_txs q"
  by (simp_all add: cur_txs_def)

lemma move_run_fields [simp]:
  "q_future (tq_move_run lib stl a run q) = q_future q"
  "q_futureSize (tq_move_run lib stl a run q) = q_futureSize q - length run"
  "q_known (tq_move_run lib stl a run q) = q_known q"
  "q_limit (tq_move_run lib stl a run q) = q_limit q"
  "q_futureLimit (tq_move_run lib stl a run q) = q_futureLimit q"
  "q_dropped (tq_move_run lib stl a run q) = q_dropped q"
  "cur_txs (tq_move_run lib stl a run q) = cur_txs q \<union> snd ` set run"
  by (induction lib stl a run q rule: tq_move_run.induct) (simp_all add: Let_def)

lemma move_run_core:
  assumes "core lib q" "om_sorted run" "\<forall>(n, t)\<in>set run. slot lib t = (a, n)"
    "slot lib ` cur_txs q \<inter> slot lib ` snd ` set run = {}"
    "inj_on (tx_hash lib) (cur_txs q \<union> snd ` set run)"
  shows "core lib (tq_move_run lib stl a run q)"
  using assms
proof (induction run arbitrary: q)
  case (Cons p run)
  obtain n t where p: "p = (n, t)" by force
  have st: "slot lib t = (a, n)" "tx_from lib t = a" using Cons.prems(3) p by (auto simp: slot_def)
  have new: "slot lib t \<notin> slot lib ` cur_txs q" using Cons.prems(4) p by auto
  hence tn: "t \<notin> cur_txs q" by auto
  hence hn: "tx_hash lib t \<notin> tx_hash lib ` cur_txs q"
    using Cons.prems(5) p by (auto simp: inj_on_def)
  let ?q = "tq_place lib stl a (tx_hash lib t) t q"
  have c: "core lib ?q" using tq_place_core [OF Cons.prems(1) hn new] st by simp
  have "core lib (tq_move_run lib stl a run (?q\<lparr>q_futureSize := q_futureSize ?q - 1\<rparr>))"
  proof (rule Cons.IH)
    show "om_sorted run" using Cons.prems(2) p by (simp add: om_sorted_Cons)
    have "slot lib t \<noteq> slot lib u" if "(k, u) \<in> set run" for k u
    proof -
      have "slot lib u = (a, k)" "n < k" using Cons.prems(2,3) p that by (auto simp: om_sorted_Cons)
      with st(1) show ?thesis by simp
    qed
    hence "slot lib t \<notin> slot lib ` snd ` set run" by force
    thus "slot lib ` cur_txs (?q\<lparr>q_futureSize := q_futureSize ?q - 1\<rparr>) \<inter> slot lib ` snd ` set run = {}"
      using Cons.prems(4) p by auto
    show "inj_on (tx_hash lib) (cur_txs (?q\<lparr>q_futureSize := q_futureSize ?q - 1\<rparr>) \<union> snd ` set run)"
      using Cons.prems(5) by (rule inj_on_subset) (use p in auto)
  qed (use c Cons.prems(3) p in auto)
  thus ?case using p by (simp add: Let_def)
qed simp

section \<open>Postponed transactions\<close>

lemma fut_find:
  assumes "fut_shape lib q" "map_of (q_future q) a = Some fs"
  shows "future_ok lib a fs" "snd ` set fs \<subseteq> fut_txs q"
    "t \<in> fut_txs q \<Longrightarrow> tx_from lib t = a \<Longrightarrow> (m_nonce t, t) \<in> set fs"
proof -
  have i: "(a, fs) \<in> set (q_future q)" using assms(2) by (rule map_of_SomeD)
  show "future_ok lib a fs" using assms(1) i by (auto simp: fut_shape_def)
  show "snd ` set fs \<subseteq> fut_txs q" using i by (fastforce simp: fut_txs_def)
  assume "t \<in> fut_txs q" "tx_from lib t = a"
  then obtain b gs n where g: "(b, gs) \<in> set (q_future q)" "(n, t) \<in> set gs"
    by (auto simp: fut_txs_def)
  moreover from g assms(1) have "slot lib t = (b, n)" by (fastforce simp: fut_shape_def future_ok_def)
  ultimately have "b = a" "m_nonce t = n" using \<open>tx_from lib t = a\<close> by (auto simp: slot_def)
  moreover have "map_of (q_future q) b = Some gs"
    using g(1) assms(1) by (simp add: fut_shape_def)
  ultimately have "gs = fs" "m_nonce t = n" using assms(2) by auto
  thus "(m_nonce t, t) \<in> set fs" using g by simp
qed

lemma fut_find_None:
  assumes "fut_shape lib q" "map_of (q_future q) a = None" "t \<in> fut_txs q"
  shows "tx_from lib t \<noteq> a"
proof -
  obtain b gs n where g: "(b, gs) \<in> set (q_future q)" "(n, t) \<in> set gs"
    using assms(3) by (auto simp: fut_txs_def)
  with assms(1) have "slot lib t = (b, n)" by (fastforce simp: fut_shape_def future_ok_def)
  moreover have "b \<noteq> a" using g(1) assms(2) by (force simp: map_of_eq_None_iff)
  ultimately show ?thesis by (simp add: slot_def)
qed

lemma count_delete:
  "distinct (map fst xs) \<Longrightarrow> map_of xs a = Some fs \<Longrightarrow>
     sum_list (map (length \<circ> snd) (AList.delete a xs)) + length fs = sum_list (map (length \<circ> snd) xs)"
proof (induction xs)
  case (Cons p xs)
  thus ?case by (cases p) (auto simp: delete_idem split: if_splits)
qed simp

lemma count_update:
  "sum_list (map (length \<circ> snd) (AList.update a fs xs)) +
     (case map_of xs a of None \<Rightarrow> 0 | Some gs \<Rightarrow> length gs) =
   sum_list (map (length \<circ> snd) xs) + length fs"
  by (induction xs) (auto split: option.splits)

lemma fut_shape_update:
  assumes "fut_shape lib q" "future_ok lib a fs"
  shows "fut_shape lib (q\<lparr>q_future := AList.update a fs (q_future q)\<rparr>)"
proof -
  have d: "distinct (map fst (q_future q))" using assms(1) by (simp add: fut_shape_def)
  hence "distinct (map fst (AList.update a fs (q_future q)))" by (rule distinct_update)
  thus ?thesis using assms set_update [OF d, of a fs] by (auto simp: fut_shape_def)
qed

lemma fut_txs_update:
  assumes "fut_shape lib q"
  shows "fut_txs (q\<lparr>q_future := AList.update a fs (q_future q)\<rparr>) =
    {t \<in> fut_txs q. tx_from lib t \<noteq> a} \<union> snd ` set fs" (is "?l = ?r")
proof -
  have d: "distinct (map fst (q_future q))" using assms by (simp add: fut_shape_def)
  have fr: "(b, gs) \<in> set (q_future q) \<Longrightarrow> (n, t) \<in> set gs \<Longrightarrow> tx_from lib t = b" for b gs n t
    using assms by (fastforce simp: fut_shape_def future_ok_def slot_def)
  have ent: "(b, gs) \<in> set (AList.update a fs (q_future q)) \<longleftrightarrow>
      b = a \<and> gs = fs \<or> (b, gs) \<in> set (q_future q) \<and> b \<noteq> a" for b gs
    using set_update [OF d, of a fs] by auto
  show ?thesis
  proof (intro set_eqI iffI)
    fix t assume "t \<in> ?l"
    then obtain b gs n where g: "(b, gs) \<in> set (AList.update a fs (q_future q))" "(n, t) \<in> set gs"
      by (auto simp: fut_txs_def)
    show "t \<in> ?r"
    proof (cases "b = a \<and> gs = fs")
      case True
      with g(2) have "t \<in> snd ` set fs" by force
      thus ?thesis by blast
    next
      case False
      with g(1) ent have b: "(b, gs) \<in> set (q_future q)" "b \<noteq> a" by blast+
      with g(2) have "t \<in> fut_txs q" unfolding fut_txs_def by blast
      moreover have "tx_from lib t = b" by (rule fr [OF b(1) g(2)])
      ultimately show ?thesis using b(2) by blast
    qed
  next
    fix t assume "t \<in> ?r"
    then consider "t \<in> fut_txs q" "tx_from lib t \<noteq> a" | n where "(n, t) \<in> set fs" by auto
    thus "t \<in> ?l"
    proof cases
      case 1
      then obtain b gs n where b: "(b, gs) \<in> set (q_future q)" "(n, t) \<in> set gs"
        unfolding fut_txs_def by blast
      with fr [OF b] 1(2) have "(b, gs) \<in> set (AList.update a fs (q_future q))" by (simp add: ent)
      with b(2) show ?thesis unfolding fut_txs_def by auto
    next
      case 2
      have "(a, fs) \<in> set (AList.update a fs (q_future q))" by (simp add: ent)
      with 2 show ?thesis unfolding fut_txs_def by auto
    qed
  qed
qed

lemma fut_shape_delete:
  assumes "fut_shape lib q"
  shows "fut_shape lib (q\<lparr>q_future := AList.delete a (q_future q)\<rparr>)"
proof -
  have d: "distinct (map fst (q_future q))" using assms(1) by (simp add: fut_shape_def)
  thus ?thesis using assms keys_delete [OF d, of a] set_delete [OF d, of a] by (auto simp: fut_shape_def)
qed

lemma fut_txs_delete:
  assumes "fut_shape lib q"
  shows "fut_txs (q\<lparr>q_future := AList.delete a (q_future q)\<rparr>) = {t \<in> fut_txs q. tx_from lib t \<noteq> a}" (is "?l = ?r")
proof -
  have d: "distinct (map fst (q_future q))" using assms by (simp add: fut_shape_def)
  have fr: "(b, gs) \<in> set (q_future q) \<Longrightarrow> (n, t) \<in> set gs \<Longrightarrow> tx_from lib t = b" for b gs n t
    using assms by (fastforce simp: fut_shape_def future_ok_def slot_def)
  have "t \<in> ?l \<longleftrightarrow> t \<in> ?r" for t
    unfolding fut_txs_def using set_delete [OF d, of a] fr by (simp, blast)
  thus ?thesis by blast
qed

lemma set_future_shape:
  "fut_shape lib q \<Longrightarrow> future_ok lib a fs \<Longrightarrow> fut_shape lib (set_future a fs q)"
  by (simp add: set_future_def fut_shape_update fut_shape_delete)

lemma set_future_full:
  assumes "fut_shape lib q" "fut_full q"
  shows "fut_full (set_future a fs q)"
proof -
  have d: "distinct (map fst (q_future q))" using assms(1) by (simp add: fut_shape_def)
  show ?thesis using assms(2) set_update [OF d, of a fs] set_delete [OF d, of a]
    by (auto simp: fut_full_def set_future_def)
qed

lemma set_future_txs:
  "fut_shape lib q \<Longrightarrow> fut_txs (set_future a fs q) = {t \<in> fut_txs q. tx_from lib t \<noteq> a} \<union> snd ` set fs"
  by (simp add: set_future_def fut_txs_update fut_txs_delete)

lemma set_future_count:
  assumes "fut_shape lib q" "map_of (q_future q) a = Some gs"
  shows "fut_count (set_future a fs q) + length gs = fut_count q + length fs"
proof -
  have "distinct (map fst (q_future q))" using assms(1) by (simp add: fut_shape_def)
  thus ?thesis
    using count_delete [of "q_future q" a gs] count_update [of a fs "q_future q"] assms(2)
    by (simp add: set_future_def fut_count_def)
qed

lemma set_future_fields [simp]:
  "core lib (set_future a fs q) = core lib q" "cur_txs (set_future a fs q) = cur_txs q"
  "q_futureSize (set_future a fs q) = q_futureSize q" "q_known (set_future a fs q) = q_known q"
  "q_limit (set_future a fs q) = q_limit q" "q_futureLimit (set_future a fs q) = q_futureLimit q"
  "q_current (set_future a fs q) = q_current q" "q_dropped (set_future a fs q) = q_dropped q"
  "q_byHash (set_future a fs q) = q_byHash q" "q_byAddr (set_future a fs q) = q_byAddr q"
  by (simp_all add: set_future_def)

lemma fut_shape_cong: "q_future q = q_future q' \<Longrightarrow> fut_shape lib q \<longleftrightarrow> fut_shape lib q'"
  and fut_full_cong: "q_future q = q_future q' \<Longrightarrow> fut_full q \<longleftrightarrow> fut_full q'"
  and fut_txs_cong: "q_future q = q_future q' \<Longrightarrow> fut_txs q = fut_txs q'"
  and fut_count_cong: "q_future q = q_future q' \<Longrightarrow> fut_count q = fut_count q'"
  by (simp_all add: fut_shape_def fut_full_def fut_txs_def fut_count_def)

section \<open>Advancing\<close>

lemma nonce_run_append: "fs = nonce_run n fs @ drop (length (nonce_run n fs)) fs"
  by (induction n fs rule: nonce_run.induct) auto

lemma run_split:
  assumes "om_sorted fs"
  shows "fs = om_below n fs @ nonce_run n (om_from n fs) @ drop (length (nonce_run n (om_from n fs))) (om_from n fs)"
  using om_split [OF assms, of n] nonce_run_append by metis

lemma future_ok_append:
  "future_ok lib a (xs @ ys @ zs) \<Longrightarrow> future_ok lib a ys \<and> future_ok lib a (xs @ zs)"
  by (auto simp: future_ok_def om_sorted_append)

definition tq_moved :: "crypto_lib \<Rightarrow> tx_queue \<Rightarrow> tx_queue \<Rightarrow> bool" where
  "tq_moved lib q q' \<longleftrightarrow> cur_txs q \<subseteq> cur_txs q' \<and> cur_txs q' \<union> fut_txs q' \<subseteq> cur_txs q \<union> fut_txs q \<and>
     q_known q' = q_known q \<and> q_limit q' = q_limit q \<and> q_futureLimit q' = q_futureLimit q \<and>
     q_dropped q' = q_dropped q"

lemma tq_advance_ok:
  assumes wf: "tq_wf lib q" and r: "tq_advance lib stl t q = (b, q')"
  shows "tq_wf lib q'" "tq_moved lib q q'"
proof -
  let ?a = "tx_from lib t" and ?n = "m_nonce t + 1"
  have sh: "fut_shape lib q" and c: "core lib q" and size: "q_futureSize q = fut_count q"
    and ap: "apart lib (cur_txs q) (fut_txs q)" using wf by (auto simp: tq_wf_def fut_core_def)
  have "tq_wf lib q' \<and> tq_moved lib q q'"
  proof (cases "\<exists>fs u. map_of (q_future q) ?a = Some fs \<and> map_of fs ?n = Some u")
    case False
    with r have "q' = q" by (auto simp: tq_advance_def Let_def split: option.splits)
    thus ?thesis using wf by (simp add: tq_moved_def)
  next
    case True
    then obtain fs where fs: "map_of (q_future q) ?a = Some fs" "map_of fs ?n \<noteq> None" by auto
    note ff = fut_find [OF sh fs(1)]
    define run where "run = nonce_run ?n (om_from ?n fs)"
    define rest where "rest = om_below ?n fs @ drop (length run) (om_from ?n fs)"
    have q': "q' = set_future ?a rest (tq_move_run lib stl ?a run q)"
      using r fs by (auto simp: tq_advance_def Let_def run_def rest_def)
    have split: "fs = om_below ?n fs @ run @ drop (length run) (om_from ?n fs)"
      using run_split ff(1) unfolding run_def future_ok_def by blast
    have ok: "future_ok lib ?a run" "future_ok lib ?a rest"
      using future_ok_append ff(1) split unfolding rest_def by metis+
    have sets: "set fs = set run \<union> set rest" and len: "length fs = length run + length rest"
      using arg_cong [OF split, of set] arg_cong [OF split, of length] by (auto simp: rest_def)
    have cr: "core lib (tq_move_run lib stl ?a run q)"
    proof (rule move_run_core [OF c])
      show "om_sorted run" "\<forall>(n, u)\<in>set run. slot lib u = (?a, n)" using ok by (auto simp: future_ok_def)
      show "slot lib ` cur_txs q \<inter> slot lib ` snd ` set run = {}"
        using ap ff(2) sets by (fastforce simp: apart_def)
      show "inj_on (tx_hash lib) (cur_txs q \<union> snd ` set run)"
        using ap ff(2) sets unfolding apart_def by (blast intro: inj_on_subset)
    qed
    have sh2: "fut_shape lib (tq_move_run lib stl ?a run q)"
      and full2: "fut_full (tq_move_run lib stl ?a run q)"
      using sh wf fut_shape_cong [of "tq_move_run lib stl ?a run q" q]
        fut_full_cong [of "tq_move_run lib stl ?a run q" q] by (simp_all add: tq_wf_def fut_core_def)
    have F: "fut_txs (tq_move_run lib stl ?a run q) = fut_txs q" by (rule fut_txs_cong) simp
    have C: "cur_txs q' = cur_txs q \<union> snd ` set run" by (simp add: q')
    have F': "fut_txs q' = {u \<in> fut_txs q. tx_from lib u \<noteq> ?a} \<union> snd ` set rest"
      using set_future_txs [OF sh2] F q' by simp
    have disj: "slot lib ` snd ` set run \<inter> slot lib ` fut_txs q' = {}"
    proof -
      have "n \<noteq> k" if "(n, u) \<in> set run" "(k, v) \<in> set rest" for n u k v
      proof -
        have "om_sorted (om_below ?n fs @ run @ drop (length run) (om_from ?n fs))"
          using ff(1) split by (simp add: future_ok_def)
        hence "\<forall>p\<in>set (om_below ?n fs). \<forall>q\<in>set run. fst p < fst q"
          "\<forall>p\<in>set run. \<forall>q\<in>set (drop (length run) (om_from ?n fs)). fst p < fst q"
          by (simp_all add: om_sorted_append)
        with that show ?thesis unfolding rest_def by (metis Un_iff fst_conv less_irrefl set_append)
      qed
      moreover have "slot lib u = (?a, n)" if "(n, u) \<in> set run \<union> set rest" for n u
        using ok that by (auto simp: future_ok_def)
      ultimately show ?thesis unfolding F' by (fastforce simp: slot_def)
    qed
    have "fut_count (tq_move_run lib stl ?a run q) = fut_count q" by (rule fut_count_cong) simp
    with set_future_count [OF sh2, of ?a fs rest] fs(1) len size
    have "q_futureSize q' = fut_count q'" by (simp add: q')
    moreover have sub: "cur_txs q' \<union> fut_txs q' \<subseteq> cur_txs q \<union> fut_txs q"
      using ff(2) sets unfolding C F' by auto
    moreover have "apart lib (cur_txs q') (fut_txs q')"
    proof -
      have "fut_txs q' \<subseteq> fut_txs q" using ff(2) sets unfolding F' by auto
      hence "slot lib ` cur_txs q' \<inter> slot lib ` fut_txs q' = {}"
        using ap disj unfolding C apart_def image_Un by blast
      thus ?thesis using ap sub unfolding apart_def by (blast intro: inj_on_subset)
    qed
    moreover have "fut_shape lib q'" "fut_full q'"
      using set_future_shape [OF sh2 ok(2)] set_future_full [OF sh2 full2] by (simp_all add: q')
    moreover have "core lib q'" using cr by (simp add: q')
    ultimately show ?thesis by (auto simp: tq_wf_def fut_core_def tq_moved_def C) (simp_all add: q')
  qed
  thus "tq_wf lib q'" "tq_moved lib q q'" by auto
qed

end
