(* ===== verification/TransactionQueueSteps.thy ===== *)
theory TransactionQueueSteps
  imports TransactionQueueProofs
begin

text \<open>
  Each operation of the transaction queue on a queue that satisfies the invariant: it returns, what it
  gives back, and the queue it leaves, which satisfies the invariant again. The last sections hold the
  queue as a state machine and the order of \<open>topTransactions\<close>.
\<close>

section \<open>The standard library\<close>

text \<open>What the C++ standard promises of the two open choices: an \<open>unordered_map\<close> that is not empty
  iterates one of its keys first, and \<open>multiset::emplace\<close> inserts at the upper bound of a sequence
  that is in order. Nothing is promised for a sequence that is not.\<close>

definition weak_order :: "('a \<Rightarrow> 'a \<Rightarrow> bool) \<Rightarrow> bool" where
  "weak_order lt \<longleftrightarrow> (\<forall>a. \<not> lt a a) \<and> (\<forall>a b c. lt a b \<longrightarrow> lt a c \<or> lt c b)"

definition in_order :: "('a \<Rightarrow> 'a \<Rightarrow> bool) \<Rightarrow> 'a list \<Rightarrow> bool" where
  "in_order lt xs \<longleftrightarrow> sorted_wrt (\<lambda>a b. \<not> lt b a) xs"

definition stl_ok :: "stl_lib \<Rightarrow> bool" where
  "stl_ok stl \<longleftrightarrow> (\<forall>xs. xs \<noteq> [] \<longrightarrow> um_begin stl xs \<in> set xs) \<and>
     (\<forall>lt xs t. weak_order lt \<longrightarrow> in_order lt xs \<longrightarrow>
        (\<forall>y\<in>set (take (ms_place stl lt xs t) xs). \<not> lt t y) \<and>
        (\<forall>y\<in>set (drop (ms_place stl lt xs t) xs). lt t y))"

definition stl_linear :: stl_lib where
  "stl_linear = \<lparr>ms_place = (\<lambda>lt xs t. length (takeWhile (\<lambda>y. \<not> lt t y) xs)), um_begin = hd\<rparr>"

lemma stl_linear_ok: "stl_ok stl_linear"
proof -
  have "lt t y" if w: "weak_order lt" "in_order lt xs" and y: "y \<in> set (dropWhile (\<lambda>y. \<not> lt t y) xs)"
    for lt :: "tx_base \<Rightarrow> tx_base \<Rightarrow> bool" and xs t y
    using w(2) y
  proof (induction xs)
    case (Cons x xs)
    show ?case
    proof (cases "lt t x")
      case True
      with Cons.prems have "y = x \<or> \<not> lt y x" by (auto simp: in_order_def)
      with True w(1) show ?thesis by (auto simp: weak_order_def)
    next
      case False
      with Cons show ?thesis by (simp add: in_order_def)
    qed
  qed simp
  moreover have "take (length (takeWhile P xs)) xs = takeWhile P xs"
    "drop (length (takeWhile P xs)) xs = dropWhile P xs" for P and xs :: "tx_base list"
    by (simp_all add: takeWhile_eq_take [symmetric] dropWhile_eq_drop [symmetric])
  ultimately show ?thesis
    unfolding stl_ok_def stl_linear_def by (auto dest: set_takeWhileD)
qed

section \<open>The two limits\<close>

lemma tq_trim_future_ok:
  assumes stl: "stl_ok stl" and wf: "tq_wf lib q"
  obtains q' where "tq_trim_future stl q = Some q'" "tq_wf lib q'" "fut_txs q' \<subseteq> fut_txs q"
    "q_futureSize q' \<le> q_futureLimit q" "q' = q\<lparr>q_future := q_future q', q_futureSize := q_futureSize q'\<rparr>"
proof -
  have "\<exists>q'. tq_trim_future stl q = Some q' \<and> tq_wf lib q' \<and> fut_txs q' \<subseteq> fut_txs q \<and>
      q_futureSize q' \<le> q_futureLimit q \<and> q' = q\<lparr>q_future := q_future q', q_futureSize := q_futureSize q'\<rparr>"
    using wf
  proof (induction "q_futureSize q" arbitrary: q rule: less_induct)
    case less
    show ?case
    proof (cases "q_futureSize q > q_futureLimit q")
      case False
      with less.prems show ?thesis by (subst tq_trim_future.simps) simp
    next
      case True
      have sh: "fut_shape lib q" and size: "q_futureSize q = fut_count q"
        using less.prems by (auto simp: tq_wf_def fut_core_def)
      have ne: "q_future q \<noteq> []" using True size by (auto simp: fut_count_def)
      define a where "a = um_begin stl (map fst (q_future q))"
      have "a \<in> set (map fst (q_future q))" using stl ne unfolding stl_ok_def a_def by blast
      then obtain fs where fs: "map_of (q_future q) a = Some fs"
        by (metis map_of_eq_None_iff not_Some_eq set_map)
      note ff = fut_find [OF sh fs]
      have full: "fut_full q" using less.prems by (simp add: tq_wf_def fut_core_def)
      have nn: "fs \<noteq> []" using full map_of_SomeD [OF fs] by (auto simp: fut_full_def)
      define q1 where "q1 = set_future a (butlast fs) (q\<lparr>q_futureSize := q_futureSize q - 1\<rparr>)"
      have sh0: "fut_shape lib (q\<lparr>q_futureSize := q_futureSize q - 1\<rparr>)"
        and F0: "fut_txs (q\<lparr>q_futureSize := q_futureSize q - 1\<rparr>) = fut_txs q"
        and C0: "fut_count (q\<lparr>q_futureSize := q_futureSize q - 1\<rparr>) = fut_count q"
        using sh by (simp_all add: fut_shape_def fut_txs_def fut_count_def)
      have bl: "fs = butlast fs @ [last fs]" using nn by simp
      have ok: "future_ok lib a (butlast fs)"
        using ff(1) future_ok_append [of lib a "[]" "butlast fs" "[last fs]"] nn by simp
      have F: "fut_txs q1 \<subseteq> fut_txs q"
        unfolding q1_def set_future_txs [OF sh0] F0 using ff(2) by (auto dest: in_set_butlastD)
      have "fut_count q1 + length fs = fut_count q + length (butlast fs)"
        using set_future_count [OF sh0, of a fs "butlast fs"] fs C0 by (simp add: q1_def)
      moreover have "length (butlast fs) = length fs - 1" "length fs > 0" using nn by auto
      ultimately have size1: "q_futureSize q1 = fut_count q1" using size by (simp add: q1_def)
      have wf1: "tq_wf lib q1"
        unfolding tq_wf_def fut_core_def
      proof (intro conjI)
        show "core lib q1" using less.prems by (simp add: q1_def tq_wf_def)
        have "fut_full (q\<lparr>q_futureSize := q_futureSize q - 1\<rparr>)" using full by (simp add: fut_full_def)
        thus "fut_full q1" unfolding q1_def by (rule set_future_full [OF sh0])
        show "fut_shape lib q1" unfolding q1_def by (rule set_future_shape [OF sh0 ok])
        show "q_futureSize q1 = fut_count q1" by (rule size1)
        have "cur_txs q1 = cur_txs q" by (simp add: q1_def)
        thus "apart lib (cur_txs q1) (fut_txs q1)"
          using less.prems F unfolding tq_wf_def apart_def by (blast intro: inj_on_subset)
      qed
      have "q_futureSize q1 < q_futureSize q" using True by (simp add: q1_def)
      from less.hyps [OF this wf1] obtain q' where q': "tq_trim_future stl q1 = Some q'" "tq_wf lib q'"
        "fut_txs q' \<subseteq> fut_txs q1" "q_futureSize q' \<le> q_futureLimit q1"
        "q' = q1\<lparr>q_future := q_future q', q_futureSize := q_futureSize q'\<rparr>" by blast
      have "tq_trim_future stl q = Some q'"
        by (subst tq_trim_future.simps) (use True ne fs nn q'(1) in \<open>simp add: Let_def a_def q1_def\<close>)
      moreover have "q' = q\<lparr>q_future := q_future q', q_futureSize := q_futureSize q'\<rparr>"
        using q'(5) by (simp add: q1_def set_future_def split: if_splits)
      ultimately show ?thesis using q' F by (auto simp: q1_def)
    qed
  qed
  thus ?thesis using that by blast
qed

lemma wf_upd [simp]: "tq_wf lib (q\<lparr>q_known := k\<rparr>) = tq_wf lib q" "tq_wf lib (q\<lparr>q_events := e\<rparr>) = tq_wf lib q"
  "tq_wf lib (q\<lparr>q_dropped := k\<rparr>) = tq_wf lib q"
  "fut_txs (q\<lparr>q_known := k\<rparr>) = fut_txs q" "fut_txs (q\<lparr>q_events := e\<rparr>) = fut_txs q"
  "fut_txs (q\<lparr>q_dropped := k\<rparr>) = fut_txs q"
  by (simp_all add: tq_wf_def fut_core_def fut_shape_def fut_full_def fut_txs_def fut_count_def)

lemma makeCurrent_ok:
  assumes stl: "stl_ok stl" and wf: "tq_wf lib q"
  obtains q' where "makeCurrent lib stl t q = Some q'" "tq_wf lib q'" "tq_moved lib q q'"
    "q_futureSize q' \<le> q_futureLimit q"
proof -
  obtain b q1 where a: "tq_advance lib stl t q = (b, q1)" by force
  note adv = tq_advance_ok [OF wf a]
  obtain q2 where tr: "tq_trim_future stl q1 = Some q2" "tq_wf lib q2" "fut_txs q2 \<subseteq> fut_txs q1"
    "q_futureSize q2 \<le> q_futureLimit q1" "q2 = q1\<lparr>q_future := q_future q2, q_futureSize := q_futureSize q2\<rparr>"
    by (rule tq_trim_future_ok [OF stl adv(1)])
  have same: "cur_txs q2 = cur_txs q1" "q_known q2 = q_known q1" "q_limit q2 = q_limit q1"
    "q_futureLimit q2 = q_futureLimit q1" "q_dropped q2 = q_dropped q1"
    by (subst tr(5), simp add: cur_txs_def)+
  let ?q' = "if b then tq_note TqReady q2 else q2"
  have "makeCurrent lib stl t q = Some ?q'" by (simp add: makeCurrent_def a tr(1))
  moreover have "tq_wf lib ?q'" using tr(2) by (simp add: tq_note_def)
  moreover have "tq_moved lib q ?q'"
    using adv(2) same tr(3) by (auto simp: tq_moved_def tq_note_def)
  moreover have "q_futureSize ?q' \<le> q_futureLimit q"
    using adv(2) tr(4) by (simp add: tq_moved_def tq_note_def)
  ultimately show ?thesis by (rule that)
qed

lemma tq_place_wf:
  assumes "tq_wf lib q" "tx_hash lib t \<notin> tx_hash lib ` (cur_txs q \<union> fut_txs q)"
    "slot lib t \<notin> slot lib ` (cur_txs q \<union> fut_txs q)"
  shows "tq_wf lib (tq_place lib stl (tx_from lib t) (tx_hash lib t) t q)" (is "tq_wf lib ?q")
proof -
  have F: "fut_txs ?q = fut_txs q" by (rule fut_txs_cong) simp
  have "core lib ?q" by (rule tq_place_core) (use assms in \<open>auto simp: tq_wf_def\<close>)
  moreover have "fut_core lib ?q"
    using assms(1) fut_shape_cong [of ?q q lib] fut_full_cong [of ?q q] fut_count_cong [of ?q q] by (simp add: tq_wf_def fut_core_def)
  moreover have "apart lib (cur_txs ?q) (fut_txs ?q)"
    using assms unfolding F by (auto simp: tq_wf_def apart_def)
  ultimately show ?thesis by (simp add: tq_wf_def)
qed

text \<open>An insertion of a transaction whose hash and place are free.\<close>

lemma insertCurrent_ok:
  assumes stl: "stl_ok stl" and inv: "tq_inv lib q"
    and h: "tx_hash lib t \<notin> q_known q" and s: "slot lib t \<notin> slot lib ` (cur_txs q \<union> fut_txs q)"
  obtains q' where "insertCurrent lib stl (tx_hash lib t) t q = Some q'" "tq_inv lib q'"
    "t \<in> cur_txs q'" "cur_txs q' \<union> fut_txs q' \<subseteq> insert t (cur_txs q \<union> fut_txs q)"
    "q_futureSize q' \<le> q_futureLimit q" "q_limit q' = q_limit q" "q_futureLimit q' = q_futureLimit q"
    "q_known q' = insert (tx_hash lib t) (q_known q)" "q_dropped q' = q_dropped q"
proof -
  let ?q = "tq_place lib stl (tx_from lib t) (tx_hash lib t) t q"
  have hn: "tx_hash lib t \<notin> tx_hash lib ` (cur_txs q \<union> fut_txs q)" and wf: "tq_wf lib q"
    using inv h by (auto simp: tq_inv_def)
  have "q_byHash q (tx_hash lib t) = None"
    using byHash_None hn wf by (auto simp: tq_wf_def core_def)
  moreover have wf1: "tq_wf lib ?q" by (rule tq_place_wf [OF wf hn s])
  moreover have F: "fut_txs ?q = fut_txs q" by (rule fut_txs_cong) simp
  moreover obtain q2 where "makeCurrent lib stl t ?q = Some q2" "tq_wf lib q2" "tq_moved lib ?q q2"
    "q_futureSize q2 \<le> q_futureLimit ?q"
    by (rule makeCurrent_ok [OF stl wf1])
  moreover from this(3) have "t \<in> cur_txs q2" "cur_txs q2 \<union> fut_txs q2 \<subseteq> insert t (cur_txs q \<union> fut_txs q)"
    "q_known q2 = q_known q" "q_limit q2 = q_limit q" "q_futureLimit q2 = q_futureLimit q"
    "q_dropped q2 = q_dropped q"
    by (auto simp: tq_moved_def F)
  moreover from this(2) inv
  have "tx_hash lib ` (cur_txs q2 \<union> fut_txs q2) \<subseteq> insert (tx_hash lib t) (q_known q)"
    unfolding tq_inv_def by blast
  ultimately show ?thesis
    by (intro that [of "q2\<lparr>q_known := insert (tx_hash lib t) (q_known q2)\<rparr>"])
      (simp_all add: insertCurrent_def tq_inv_def)
qed

lemma tq_remove_inv:
  assumes inv: "tq_inv lib q"
  obtains b q' where "tq_remove lib h q = Some (b, q')" "tq_inv lib q'"
    "cur_txs q' = {t \<in> cur_txs q. tx_hash lib t \<noteq> h}" "fut_txs q' = fut_txs q"
    "q_futureSize q' = q_futureSize q" "q_limit q' = q_limit q" "q_futureLimit q' = q_futureLimit q"
    "q_dropped q' = q_dropped q" "b \<longleftrightarrow> h \<in> tx_hash lib ` cur_txs q"
    "length (q_current q') = length (q_current q) - (if b then 1 else 0)"
    "q_known q' = q_known q - (if b then {h} else {})"
proof (cases "h \<in> tx_hash lib ` cur_txs q")
  case False
  have "hash_ok lib q" using inv by (simp add: tq_inv_def tq_wf_def core_def)
  hence "q_byHash q h = None" using False byHash_None by blast
  hence "tq_remove lib h q = Some (False, q)" by (rule tq_remove_none)
  thus ?thesis by (rule that) (use False inv in auto)
next
  case True
  have c: "core lib q" and ids: "ids_ok q" using inv by (auto simp: tq_inv_def tq_wf_def core_def)
  obtain i t where t: "(i, t) \<in> set (q_current q)" "h = tx_hash lib t"
    using True by (auto simp: cur_txs_iff)
  obtain q' where q': "tq_remove lib (tx_hash lib t) q = Some (True, q')" "core lib q'"
    "q_current q' = filter (\<lambda>(j, _). j \<noteq> i) (q_current q)" "cur_txs q' = cur_txs q - {t}"
    "q_future q' = q_future q" "q_futureSize q' = q_futureSize q" "q_limit q' = q_limit q"
    "q_futureLimit q' = q_futureLimit q" "q_known q' = q_known q - {tx_hash lib t}"
    "q_events q' = q_events q" "q_dropped q' = q_dropped q"
    by (rule tq_remove_ok [OF c t(1)])
  have F: "fut_txs q' = fut_txs q" by (rule fut_txs_cong) (rule q')
  have inj: "inj_on (tx_hash lib) (cur_txs q \<union> fut_txs q)" and tc: "t \<in> cur_txs q"
    using inv t by (auto simp: tq_inv_def tq_wf_def apart_def cur_txs_iff)
  have slots: "t \<notin> fut_txs q" using inv tc by (auto simp: tq_inv_def tq_wf_def apart_def)
  have C: "cur_txs q' = {u \<in> cur_txs q. tx_hash lib u \<noteq> h}"
    using inj tc t(2) unfolding q'(4) inj_on_def by blast
  have "fut_core lib q'"
    using inv q'(5,6) fut_shape_cong [of q' q lib] fut_full_cong [of q' q] fut_count_cong [of q' q]
    by (simp add: tq_inv_def tq_wf_def fut_core_def)
  moreover have "apart lib (cur_txs q') (fut_txs q')"
    using inv unfolding tq_inv_def tq_wf_def apart_def F q'(4) by (auto intro: inj_on_subset)
  moreover have "tx_hash lib ` (cur_txs q' \<union> fut_txs q') \<subseteq> q_known q'"
  proof -
    have "tx_hash lib u \<noteq> h" if "u \<in> cur_txs q' \<union> fut_txs q'" for u
      using that inj tc slots t(2) unfolding C F inj_on_def by blast
    moreover have "tx_hash lib u \<in> q_known q" if "u \<in> cur_txs q' \<union> fut_txs q'" for u
      using that inv unfolding C F tq_inv_def by blast
    ultimately show ?thesis using q'(9) t(2) by auto
  qed
  ultimately have "tq_inv lib q'" using q'(2) by (simp add: tq_inv_def tq_wf_def)
  moreover have "length (q_current q') = length (q_current q) - 1"
  proof -
    have "length (filter (\<lambda>(j, _). j \<noteq> i) xs) = length xs - 1"
      if "distinct (map fst xs)" "(i, t) \<in> set xs" for xs
      using that
    proof (induction xs)
      case (Cons p xs)
      show ?case
      proof (cases "p = (i, t)")
        case True
        with Cons.prems(1) have "filter (\<lambda>(j, _). j \<noteq> i) xs = xs" by (force simp: filter_id_conv)
        with True show ?thesis by simp
      next
        case False
        with Cons.prems(2) have x: "(i, t) \<in> set xs" by auto
        hence "i \<in> fst ` set xs" by force
        with Cons.prems(1) have "fst p \<noteq> i" by auto
        with x Cons show ?thesis by (cases p; cases xs) auto
      qed
    qed simp
    with ids q'(3) t(1) show ?thesis by (simp add: ids_ok_def)
  qed
  ultimately show ?thesis
    using that [of True q'] q' C F True t(2) by simp
qed

lemma tq_trim_ok:
  assumes "tq_inv lib q"
  obtains q' where "tq_trim lib q = Some q'" "tq_inv lib q'" "length (q_current q') \<le> q_limit q"
    "cur_txs q' \<subseteq> cur_txs q" "fut_txs q' = fut_txs q" "q_futureSize q' = q_futureSize q"
    "q_limit q' = q_limit q" "q_futureLimit q' = q_futureLimit q"
    "q_dropped q' = q_dropped q" "q_known q' \<subseteq> q_known q"
    "length (q_current q) \<le> q_limit q \<longrightarrow> q' = q"
proof -
  have "\<exists>q'. tq_trim lib q = Some q' \<and> tq_inv lib q' \<and> length (q_current q') \<le> q_limit q \<and>
    cur_txs q' \<subseteq> cur_txs q \<and> fut_txs q' = fut_txs q \<and> q_futureSize q' = q_futureSize q \<and>
    q_limit q' = q_limit q \<and> q_futureLimit q' = q_futureLimit q \<and> q_dropped q' = q_dropped q \<and>
    q_known q' \<subseteq> q_known q \<and> (length (q_current q) \<le> q_limit q \<longrightarrow> q' = q)"
    using assms
  proof (induction "length (q_current q)" arbitrary: q rule: less_induct)
    case less
    show ?case
    proof (cases "length (q_current q) > q_limit q")
      case False
      with less.prems show ?thesis by (subst tq_trim.simps) simp
    next
      case True
      let ?t = "snd (last (q_current q))"
      have "last (q_current q) \<in> set (q_current q)" using True by (intro last_in_set) auto
      hence t: "?t \<in> cur_txs q" by (auto simp: cur_txs_def)
      obtain b q1 where q1: "tq_remove lib (tx_hash lib ?t) q = Some (b, q1)" "tq_inv lib q1"
        "cur_txs q1 = {u \<in> cur_txs q. tx_hash lib u \<noteq> tx_hash lib ?t}" "fut_txs q1 = fut_txs q"
        "q_futureSize q1 = q_futureSize q" "q_limit q1 = q_limit q" "q_futureLimit q1 = q_futureLimit q"
        "q_dropped q1 = q_dropped q" "b \<longleftrightarrow> tx_hash lib ?t \<in> tx_hash lib ` cur_txs q"
        "length (q_current q1) = length (q_current q) - (if b then 1 else 0)"
        "q_known q1 = q_known q - (if b then {tx_hash lib ?t} else {})"
        by (rule tq_remove_inv [OF less.prems])
      have "b" using q1(9) t by blast
      hence "length (q_current q1) < length (q_current q)" using q1(10) True by simp
      from less.hyps [OF this q1(2)] obtain q' where q': "tq_trim lib q1 = Some q'" "tq_inv lib q'"
        "length (q_current q') \<le> q_limit q1" "cur_txs q' \<subseteq> cur_txs q1" "fut_txs q' = fut_txs q1"
        "q_futureSize q' = q_futureSize q1" "q_limit q' = q_limit q1" "q_futureLimit q' = q_futureLimit q1"
        "q_dropped q' = q_dropped q1" "q_known q' \<subseteq> q_known q1" by blast
      have "tq_trim lib q = Some q'"
        by (subst tq_trim.simps) (use True q1(1) q'(1) in simp)
      with q1 q' True show ?thesis by auto
    qed
  qed
  thus ?thesis using that by blast
qed

section \<open>Importing\<close>

definition outbid_rel :: "crypto_lib \<Rightarrow> tx_base \<Rightarrow> tx_queue \<Rightarrow> tx_queue \<Rightarrow> bool" where
  "outbid_rel lib t q q' \<longleftrightarrow> cur_txs q' \<subseteq> cur_txs q \<and> fut_txs q' \<subseteq> fut_txs q \<and>
     {u \<in> cur_txs q \<union> fut_txs q. slot lib u \<noteq> slot lib t} \<subseteq> cur_txs q' \<union> fut_txs q' \<and>
     q_limit q' = q_limit q \<and> q_futureLimit q' = q_futureLimit q \<and> q_dropped q' = q_dropped q \<and>
     q_known q' \<subseteq> q_known q"

lemma inv_note [simp]: "tq_inv lib (tq_note e q) = tq_inv lib q" "cur_txs (tq_note e q) = cur_txs q"
  "fut_txs (tq_note e q) = fut_txs q" "q_limit (tq_note e q) = q_limit q" "q_known (tq_note e q) = q_known q"
  "q_futureLimit (tq_note e q) = q_futureLimit q" "q_futureSize (tq_note e q) = q_futureSize q"
  "q_current (tq_note e q) = q_current q" "q_dropped (tq_note e q) = q_dropped q"
  by (simp_all add: tq_note_def tq_inv_def)

lemma outbid_current_ok:
  assumes inv: "tq_inv lib q"
  obtains go q' where "outbid_current lib t q = Some (go, q')" "\<not> go \<longrightarrow> q' = q" "tq_inv lib q'"
    "outbid_rel lib t q q'" "go \<longrightarrow> slot lib t \<notin> slot lib ` cur_txs q'"
    "go \<longleftrightarrow> (\<forall>u\<in>cur_txs q. slot lib u = slot lib t \<longrightarrow> m_gasPrice u \<le> m_gasPrice t)"
    "fut_txs q' = fut_txs q" "slot lib t \<notin> slot lib ` cur_txs q \<longrightarrow> q' = q"
proof (cases "slot lib t \<in> slot lib ` cur_txs q")
  case False
  have c: "core lib q" using inv by (simp add: tq_inv_def tq_wf_def)
  have "outbid_current lib t q = Some (True, q)"
  proof (cases "q_byAddr q (tx_from lib t)")
    case (Some m)
    have "(m_nonce t, i) \<notin> set m" for i
    proof
      assume "(m_nonce t, i) \<in> set m"
      then obtain u where "(i, u) \<in> set (q_current q)" "slot lib u = slot lib t"
        using byAddr_Some(3) [OF c Some] by (auto simp: slot_def)
      thus False using False by (metis cur_txs_iff image_eqI)
    qed
    hence "map_of m (m_nonce t) = None" by (force simp: map_of_eq_None_iff)
    with Some show ?thesis by (simp add: outbid_current_def)
  qed (simp add: outbid_current_def)
  thus ?thesis by (rule that) (use False inv in \<open>auto simp: outbid_rel_def image_iff\<close>)
next
  case True
  have c: "core lib q" and ids: "ids_ok q" using inv by (auto simp: tq_inv_def tq_wf_def core_def)
  obtain i u where u: "(i, u) \<in> set (q_current q)" "slot lib u = slot lib t"
    using True by (auto simp: cur_txs_iff)
  hence su: "slot lib u = (tx_from lib t, m_nonce t)" by (simp add: slot_def)
  obtain m where m: "q_byAddr q (tx_from lib t) = Some m" "om_sorted m" "(m_nonce t, i) \<in> set m"
    by (rule byAddr_in [OF c u(1) su])
  have find: "map_of m (m_nonce t) = Some i" "map_of (q_current q) i = Some u"
    using m(3) om_find_iff [OF m(2)] u(1) ids_find [OF ids] by auto
  have only: "v \<in> cur_txs q \<Longrightarrow> slot lib v = slot lib t \<longleftrightarrow> v = u" for v
    using slot_inj [OF c _ u(1)] u(2) by (metis cur_txs_iff)
  have uc: "u \<in> cur_txs q" using u(1) cur_txs_iff by metis
  show ?thesis
  proof (cases "m_gasPrice t < m_gasPrice u")
    case low: True
    have "outbid_current lib t q = Some (False, q)"
      using low m(1) find by (simp add: outbid_current_def)
    moreover have "\<not> (\<forall>u\<in>cur_txs q. slot lib u = slot lib t \<longrightarrow> m_gasPrice u \<le> m_gasPrice t)"
      using low uc u(2) by (meson not_le)
    ultimately show ?thesis using inv True by (intro that [of False q]) (auto simp: outbid_rel_def)
  next
    case high: False
    obtain b q1 where q1: "tq_remove lib (tx_hash lib u) q = Some (b, q1)" "tq_inv lib q1"
      "cur_txs q1 = {v \<in> cur_txs q. tx_hash lib v \<noteq> tx_hash lib u}" "fut_txs q1 = fut_txs q"
      "q_futureSize q1 = q_futureSize q" "q_limit q1 = q_limit q" "q_futureLimit q1 = q_futureLimit q"
      "q_dropped q1 = q_dropped q" "b \<longleftrightarrow> tx_hash lib u \<in> tx_hash lib ` cur_txs q"
      "length (q_current q1) = length (q_current q) - (if b then 1 else 0)"
      "q_known q1 = q_known q - (if b then {tx_hash lib u} else {})"
      by (rule tq_remove_inv [OF inv])
    have "outbid_current lib t q = Some (True, tq_note (TqReplaced (tx_hash lib u)) q1)"
      using high m(1) find q1(1) by (simp add: outbid_current_def Let_def)
    moreover have "v \<in> cur_txs q \<Longrightarrow> tx_hash lib v = tx_hash lib u \<longleftrightarrow> v = u" for v
      using inv uc by (auto simp: tq_inv_def tq_wf_def apart_def inj_on_def)
    hence "cur_txs q1 = cur_txs q - {u}" unfolding q1(3) by blast
    hence C: "cur_txs q1 = {v \<in> cur_txs q. slot lib v \<noteq> slot lib t}" using only by blast
    moreover have "\<forall>v\<in>cur_txs q. slot lib v = slot lib t \<longrightarrow> m_gasPrice v \<le> m_gasPrice t"
      using only high by auto
    ultimately show ?thesis using q1 True
      by (intro that [of True "tq_note (TqReplaced (tx_hash lib u)) q1"]) (auto simp: outbid_rel_def)
  qed
qed

lemma outbid_future_ok:
  assumes inv: "tq_inv lib q" and o: "outbid_future lib t q = (go, q')"
  shows "\<not> go \<Longrightarrow> q' = q" "tq_inv lib q'" "outbid_rel lib t q q'" "cur_txs q' = cur_txs q"
    "go \<Longrightarrow> slot lib t \<notin> slot lib ` fut_txs q'"
    "go \<longleftrightarrow> (\<forall>u\<in>fut_txs q. slot lib u = slot lib t \<longrightarrow> m_gasPrice u \<le> m_gasPrice t)"
proof -
  let ?a = "tx_from lib t" and ?n = "m_nonce t"
  have sh: "fut_shape lib q" and full: "fut_full q" and c: "core lib q" and size: "q_futureSize q = fut_count q"
    and ap: "apart lib (cur_txs q) (fut_txs q)" and kn: "tx_hash lib ` (cur_txs q \<union> fut_txs q) \<subseteq> q_known q"
    using inv by (auto simp: tq_inv_def tq_wf_def fut_core_def)
  have "(\<not> go \<longrightarrow> q' = q) \<and> tq_inv lib q' \<and> outbid_rel lib t q q' \<and> cur_txs q' = cur_txs q \<and>
    (go \<longrightarrow> slot lib t \<notin> slot lib ` fut_txs q') \<and>
    (go \<longleftrightarrow> (\<forall>u\<in>fut_txs q. slot lib u = slot lib t \<longrightarrow> m_gasPrice u \<le> m_gasPrice t))"
  proof (cases "\<exists>fs u. map_of (q_future q) ?a = Some fs \<and> map_of fs ?n = Some u")
    case False
    with o have r: "go" "q' = q" by (auto simp: outbid_future_def split: option.splits)
    have "slot lib u \<noteq> slot lib t" if u: "u \<in> fut_txs q" for u
    proof
      assume "slot lib u = slot lib t"
      hence s: "tx_from lib u = ?a" "m_nonce u = ?n" by (simp_all add: slot_def)
      show False
      proof (cases "map_of (q_future q) ?a")
        case None
        with fut_find_None [OF sh None u] s show False by simp
      next
        case (Some fs)
        have "(?n, u) \<in> set fs" using fut_find(3) [OF sh Some u s(1)] s(2) by simp
        hence "map_of fs ?n \<noteq> None" by (metis map_of_eq_None_iff fst_conv image_eqI)
        with False Some show False by auto
      qed
    qed
    hence "\<forall>u\<in>fut_txs q. slot lib u \<noteq> slot lib t" by blast
    moreover from this have "slot lib t \<notin> slot lib ` fut_txs q" by (metis imageE)
    ultimately show ?thesis using r inv by (auto simp: outbid_rel_def)
  next
    case True
    then obtain fs u where fs: "map_of (q_future q) ?a = Some fs" "map_of fs ?n = Some u" by blast
    note ff = fut_find [OF sh fs(1)]
    have os: "om_sorted fs" using ff(1) by (simp add: future_ok_def)
    have un: "(?n, u) \<in> set fs" using fs(2) by (rule map_of_SomeD)
    hence u: "u \<in> fut_txs q" "slot lib u = slot lib t"
      using ff(1,2) by (auto simp: future_ok_def slot_def)
    have only: "v \<in> fut_txs q \<Longrightarrow> slot lib v = slot lib t \<longleftrightarrow> v = u" for v
    proof
      assume v: "v \<in> fut_txs q" "slot lib v = slot lib t"
      hence "tx_from lib v = ?a" "m_nonce v = ?n" by (simp_all add: slot_def)
      with ff(3) [OF v(1)] have "(?n, v) \<in> set fs" by simp
      with os fs(2) show "v = u" by (metis om_find_iff option.inject)
    qed (use u in simp)
    show ?thesis
    proof (cases "m_gasPrice t < m_gasPrice u")
      case low: True
      have r: "\<not> go" "q' = q" using o fs low by (auto simp: outbid_future_def)
      moreover have "\<not> (\<forall>u\<in>fut_txs q. slot lib u = slot lib t \<longrightarrow> m_gasPrice u \<le> m_gasPrice t)"
        using low u by (meson not_le)
      ultimately show ?thesis using inv by (auto simp: outbid_rel_def)
    next
      case high: False
      let ?q = "q\<lparr>q_futureSize := q_futureSize q - 1\<rparr>"
      have r: "go" "q' = set_future ?a (om_erase ?n fs) ?q"
        using o fs high by (auto simp: outbid_future_def)
      have sh1: "fut_shape lib ?q" "fut_full ?q" "fut_txs ?q = fut_txs q" "fut_count ?q = fut_count q"
        using sh full by (simp_all add: fut_shape_def fut_full_def fut_txs_def fut_count_def)
      have ok: "future_ok lib ?a (om_erase ?n fs)"
        using ff(1) by (auto simp: future_ok_def)
      have sub: "snd ` set (om_erase ?n fs) = {v \<in> snd ` set fs. v \<noteq> u}"
      proof -
        have kv: "k \<noteq> ?n \<longleftrightarrow> v \<noteq> u" if i: "(k, v) \<in> set fs" for k v
        proof -
          have "slot lib v = (?a, k)" "v \<in> fut_txs q" using ff(1,2) i by (auto simp: future_ok_def)
          with only [of v] show ?thesis by (simp add: slot_def)
        qed
        show ?thesis
        proof (intro set_eqI iffI)
          fix v assume "v \<in> snd ` set (om_erase ?n fs)"
          then obtain k where "(k, v) \<in> set fs" "k \<noteq> ?n" by auto
          with kv show "v \<in> {v \<in> snd ` set fs. v \<noteq> u}" by force
        next
          fix v assume "v \<in> {v \<in> snd ` set fs. v \<noteq> u}"
          then obtain k where "(k, v) \<in> set fs" "v \<noteq> u" by auto
          with kv have "(k, v) \<in> set (om_erase ?n fs)" by simp
          thus "v \<in> snd ` set (om_erase ?n fs)" by force
        qed
      qed
      have F: "fut_txs q' = fut_txs q - {u}"
      proof -
        have "{v \<in> fut_txs q. tx_from lib v = ?a} = snd ` set fs"
          using ff by (force simp: future_ok_def slot_def)
        moreover have "tx_from lib u = ?a" using u(2) by (simp add: slot_def)
        ultimately show ?thesis using r(2) set_future_txs [OF sh1(1)] sh1(3) sub by auto
      qed
      have "length fs = Suc (length (om_erase ?n fs))"
      proof -
        have "map fst (om_erase ?n fs) = remove1 ?n (map fst fs)"
          using om_sorted_distinct [OF os]
          by (simp add: om_erase_def distinct_remove1_removeAll removeAll_filter_not_eq filter_map o_def
              case_prod_unfold eq_commute)
        moreover have "?n \<in> set (map fst fs)" using un by force
        ultimately have "length (om_erase ?n fs) = length fs - 1" by (metis length_map length_remove1)
        moreover have "length fs > 0" using un by (cases fs) auto
        ultimately show ?thesis by linarith
      qed
      hence "q_futureSize q' = fut_count q'"
        using set_future_count [OF sh1(1), of ?a fs "om_erase ?n fs"] fs(1) size sh1(4)
        by (simp add: r(2) del: length_Suc_conv)
      moreover have "fut_shape lib q'" "fut_full q'"
        using set_future_shape [OF sh1(1) ok] set_future_full [OF sh1(1,2)] by (simp_all add: r(2))
      moreover have C: "cur_txs q' = cur_txs q" "core lib q'" "q_known q' = q_known q"
        "q_limit q' = q_limit q" "q_futureLimit q' = q_futureLimit q" "q_dropped q' = q_dropped q"
        using c by (simp_all add: r(2))
      moreover have "apart lib (cur_txs q') (fut_txs q')"
        using ap unfolding C F apart_def by (auto intro: inj_on_subset)
      ultimately have "tq_inv lib q'" using kn F by (auto simp: tq_inv_def tq_wf_def fut_core_def)
      moreover have "\<forall>v\<in>fut_txs q. slot lib v = slot lib t \<longrightarrow> m_gasPrice v \<le> m_gasPrice t"
        using only high by auto
      moreover have "slot lib t \<notin> slot lib ` fut_txs q'"
      proof
        assume "slot lib t \<in> slot lib ` fut_txs q'"
        then obtain v where "v \<in> fut_txs q" "v \<noteq> u" "slot lib v = slot lib t" unfolding F by force
        thus False using only by blast
      qed
      ultimately show ?thesis using r(1) C F u(2) by (auto simp: outbid_rel_def)
    qed
  qed
  thus "\<not> go \<Longrightarrow> q' = q" "tq_inv lib q'" "outbid_rel lib t q q'" "cur_txs q' = cur_txs q"
    "go \<Longrightarrow> slot lib t \<notin> slot lib ` fut_txs q'"
    "go \<longleftrightarrow> (\<forall>u\<in>fut_txs q. slot lib u = slot lib t \<longrightarrow> m_gasPrice u \<le> m_gasPrice t)" by auto
qed

definition import_rel :: "crypto_lib \<Rightarrow> tx_base \<Rightarrow> tx_queue \<Rightarrow> tx_queue \<Rightarrow> bool" where
  "import_rel lib t q q' \<longleftrightarrow> length (q_current q') \<le> q_limit q \<and> q_futureSize q' \<le> q_futureLimit q \<and>
     cur_txs q' \<union> fut_txs q' \<subseteq>
       insert t {u \<in> cur_txs q \<union> fut_txs q. slot lib u \<noteq> slot lib t} \<and>
     q_limit q' = q_limit q \<and> q_futureLimit q' = q_futureLimit q \<and> q_dropped q' = q_dropped q"

definition outbids :: "crypto_lib \<Rightarrow> tx_base \<Rightarrow> tx_queue \<Rightarrow> bool" where
  "outbids lib t q \<longleftrightarrow>
     (\<forall>u\<in>cur_txs q \<union> fut_txs q. slot lib u = slot lib t \<longrightarrow> m_gasPrice u \<le> m_gasPrice t)"

lemma manageImport_ok:
  assumes stl: "stl_ok stl" and inv: "tq_inv lib q" and h: "tx_hash lib t \<notin> q_known q"
  obtains ir q' where "manageImport lib stl (tx_hash lib t) t q = Some (ir, q')" "tq_inv lib q'"
    "ir = (if outbids lib t q then ImportSuccess else OverbidGasPrice)"
    "ir = ImportSuccess \<longrightarrow> import_rel lib t q q'" "ir \<noteq> ImportSuccess \<longrightarrow> q' = q"
proof -
  obtain go1 q1 where a: "outbid_current lib t q = Some (go1, q1)" "\<not> go1 \<longrightarrow> q1 = q" "tq_inv lib q1"
    "outbid_rel lib t q q1" "go1 \<longrightarrow> slot lib t \<notin> slot lib ` cur_txs q1"
    "go1 \<longleftrightarrow> (\<forall>u\<in>cur_txs q. slot lib u = slot lib t \<longrightarrow> m_gasPrice u \<le> m_gasPrice t)"
    "fut_txs q1 = fut_txs q" "slot lib t \<notin> slot lib ` cur_txs q \<longrightarrow> q1 = q"
    by (rule outbid_current_ok [OF inv, of t])
  show ?thesis
  proof (cases go1)
    case False
    hence "\<not> outbids lib t q" using a(6) by (auto simp: outbids_def)
    moreover have "manageImport lib stl (tx_hash lib t) t q = Some (OverbidGasPrice, q)"
      using False a(1,2) by (simp add: manageImport_def)
    ultimately show ?thesis using that [of OverbidGasPrice q] inv by simp
  next
    case go1: True
    obtain go2 q2 where b: "outbid_future lib t q1 = (go2, q2)" by force
    note o = outbid_future_ok [OF a(3) b]
    note sub = a(7)
    show ?thesis
    proof (cases go2)
      case False
      have "\<exists>u\<in>fut_txs q. slot lib u = slot lib t" using False o(6) sub by blast
      hence "slot lib t \<in> slot lib ` fut_txs q" by (metis image_eqI)
      moreover have "slot lib ` cur_txs q \<inter> slot lib ` fut_txs q = {}"
        using inv by (simp add: tq_inv_def tq_wf_def apart_def)
      ultimately have "slot lib t \<notin> slot lib ` cur_txs q" by blast
      hence "q1 = q" using a(8) by blast
      hence "manageImport lib stl (tx_hash lib t) t q = Some (OverbidGasPrice, q)"
        using False go1 a(1) b o(1) by (simp add: manageImport_def)
      moreover have "\<not> outbids lib t q" using False o(6) sub by (auto simp: outbids_def)
      ultimately show ?thesis using that [of OverbidGasPrice q] inv by simp
    next
      case go2: True
      have new: "slot lib t \<notin> slot lib ` (cur_txs q2 \<union> fut_txs q2)"
        using a(5) go1 o(4,5) go2 by (simp add: image_Un)
      have "tx_hash lib t \<notin> q_known q2" using h a(4) o(3) by (auto simp: outbid_rel_def)
      then obtain q3 where c: "insertCurrent lib stl (tx_hash lib t) t q2 = Some q3" "tq_inv lib q3"
        "t \<in> cur_txs q3" "cur_txs q3 \<union> fut_txs q3 \<subseteq> insert t (cur_txs q2 \<union> fut_txs q2)"
        "q_futureSize q3 \<le> q_futureLimit q2" "q_limit q3 = q_limit q2" "q_futureLimit q3 = q_futureLimit q2"
        "q_known q3 = insert (tx_hash lib t) (q_known q2)" "q_dropped q3 = q_dropped q2"
        by (rule insertCurrent_ok [OF stl o(2) _ new])
      obtain q4 where d: "tq_trim lib q3 = Some q4" "tq_inv lib q4" "length (q_current q4) \<le> q_limit q3"
        "cur_txs q4 \<subseteq> cur_txs q3" "fut_txs q4 = fut_txs q3" "q_futureSize q4 = q_futureSize q3"
        "q_limit q4 = q_limit q3" "q_futureLimit q4 = q_futureLimit q3"
        "q_dropped q4 = q_dropped q3" "q_known q4 \<subseteq> q_known q3"
        "length (q_current q3) \<le> q_limit q3 \<longrightarrow> q4 = q3"
        by (rule tq_trim_ok [OF c(2)])
      have "manageImport lib stl (tx_hash lib t) t q = Some (ImportSuccess, tq_note TqReady q4)"
        using go1 go2 a(1) b c(1) d(1) by (simp add: manageImport_def)
      moreover have "outbids lib t q" using a(6) go1 o(6) go2 sub by (auto simp: outbids_def)
      moreover have "import_rel lib t q (tq_note TqReady q4)"
      proof -
        have lims: "q_limit q4 = q_limit q" "q_futureLimit q4 = q_futureLimit q" "q_dropped q4 = q_dropped q"
          "length (q_current q4) \<le> q_limit q" "q_futureSize q4 \<le> q_futureLimit q"
          using a(4) o(3) c(5-7,9) d(3,6-9) by (simp_all add: outbid_rel_def)
        moreover have "cur_txs q4 \<union> fut_txs q4 \<subseteq> insert t (cur_txs q2 \<union> fut_txs q2)"
          using c(4) d(4,5) by blast
        moreover have "cur_txs q2 \<union> fut_txs q2 \<subseteq> cur_txs q \<union> fut_txs q"
          using a(4) o(3) by (auto simp: outbid_rel_def)
        moreover have "slot lib u \<noteq> slot lib t" if "u \<in> cur_txs q2 \<union> fut_txs q2" for u
          using new that by (metis image_eqI)
        ultimately show ?thesis unfolding import_rel_def by (simp, blast)
      qed
      ultimately show ?thesis using that [of ImportSuccess "tq_note TqReady q4"] d(2) by simp
    qed
  qed
qed

section \<open>Postponing\<close>

lemma om_insert_absent: "k \<notin> fst ` set m \<Longrightarrow> om_insert k v m = om_put k v m"
  by (induction k v m rule: om_insert.induct) auto

definition loose :: "crypto_lib \<Rightarrow> u160 \<Rightarrow> tx_queue \<Rightarrow> bool" where
  "loose lib a q \<longleftrightarrow> ids_ok q \<and> hash_ok lib q \<and> fut_shape lib q \<and> q_futureSize q = fut_count q \<and>
     apart lib (cur_txs q) (fut_txs q) \<and> inj_on (slot lib) (cur_txs q) \<and> map_of (q_future q) a \<noteq> None \<and>
     (\<forall>(b, gs)\<in>set (q_future q). b \<noteq> a \<longrightarrow> gs \<noteq> [])"

definition postponed :: "tx_queue \<Rightarrow> tx_queue \<Rightarrow> bool" where
  "postponed q q' \<longleftrightarrow> cur_txs q' \<union> fut_txs q' = cur_txs q \<union> fut_txs q \<and> q_byAddr q' = q_byAddr q \<and>
     q_known q' = q_known q \<and> q_limit q' = q_limit q \<and> q_futureLimit q' = q_futureLimit q \<and>
     q_dropped q' = q_dropped q"

definition postpone_one :: "crypto_lib \<Rightarrow> u160 \<Rightarrow> nat \<Rightarrow> tx_base \<Rightarrow> tx_queue \<Rightarrow> tx_queue" where
  "postpone_one lib a i t q = q\<lparr>q_byHash := (q_byHash q)(tx_hash lib t := None),
       q_future := AList.update a (om_insert (m_nonce t) t
          (case map_of (q_future q) a of None \<Rightarrow> [] | Some fs \<Rightarrow> fs)) (q_future q),
       q_current := filter (\<lambda>(j, _). j \<noteq> i) (q_current q), q_futureSize := q_futureSize q + 1\<rparr>"

lemma postpone_one_ok:
  assumes l: "loose lib a q" and t: "(i, t) \<in> set (q_current q)" and a: "tx_from lib t = a"
  shows "loose lib a (postpone_one lib a i t q)" "postponed q (postpone_one lib a i t q)"
    "fut_full (postpone_one lib a i t q)"
proof -
  let ?q = "postpone_one lib a i t q" and ?n = "m_nonce t"
  have ids: "ids_ok q" and ho: "hash_ok lib q" and sh: "fut_shape lib q" and size: "q_futureSize q = fut_count q"
    and ap: "apart lib (cur_txs q) (fut_txs q)" and sj: "inj_on (slot lib) (cur_txs q)" and ne: "\<forall>(b, gs)\<in>set (q_future q). b \<noteq> a \<longrightarrow> gs \<noteq> []"
    using l by (auto simp: loose_def)
  obtain fs where fs: "map_of (q_future q) a = Some fs" using l by (auto simp: loose_def)
  note ff = fut_find [OF sh fs]
  let ?fs = "om_insert ?n t fs"
  have fut: "q_future ?q = AList.update a ?fs (q_future q)" by (simp add: postpone_one_def fs)
  have cur: "q_current ?q = filter (\<lambda>(j, _). j \<noteq> i) (q_current q)" by (simp add: postpone_one_def)
  have tc: "t \<in> cur_txs q" using t cur_txs_iff by metis
  have os: "om_sorted fs" using ff(1) by (simp add: future_ok_def)
  have absent: "?n \<notin> fst ` set fs"
  proof
    assume "?n \<in> fst ` set fs"
    then obtain u where u: "(?n, u) \<in> set fs" by auto
    with ff(1,2) have "slot lib u = slot lib t" "u \<in> fut_txs q" using a by (auto simp: future_ok_def slot_def)
    with tc ap show False unfolding apart_def by (metis disjoint_iff image_eqI)
  qed
  have set: "set ?fs = insert (?n, t) (set fs)" by (rule set_om_insert [OF os absent])
  have ok: "future_ok lib a ?fs"
    using ff(1) a set os by (simp add: future_ok_def om_insert_absent [OF absent]) (simp add: slot_def)
  have uniq: "(i, u) \<in> set (q_current q) \<longleftrightarrow> u = t" for u
    using t ids_find [OF ids] by (metis option.inject)
  have only: "(j, t) \<in> set (q_current q) \<longleftrightarrow> j = i" for j
    using hash_inj [OF ho] t by metis
  have C: "cur_txs ?q = cur_txs q - {t}"
    using uniq only unfolding cur_txs_def cur by force
  have q1: "fut_shape lib ?q = fut_shape lib (q\<lparr>q_future := AList.update a ?fs (q_future q)\<rparr>)"
    "fut_txs ?q = fut_txs (q\<lparr>q_future := AList.update a ?fs (q_future q)\<rparr>)"
    "fut_count ?q = fut_count (q\<lparr>q_future := AList.update a ?fs (q_future q)\<rparr>)"
    using fut by (simp_all add: fut_shape_def fut_txs_def fut_count_def)
  have sh': "fut_shape lib ?q" unfolding q1 by (rule fut_shape_update [OF sh ok])
  have F: "fut_txs ?q = insert t (fut_txs q)"
  proof -
    have "{u \<in> fut_txs q. tx_from lib u = a} = snd ` set fs"
      using ff by (force simp: future_ok_def slot_def)
    thus ?thesis unfolding q1 fut_txs_update [OF sh] set by auto
  qed
  have len: "length ?fs = Suc (length fs)"
  proof -
    have d: "distinct (map fst ?fs)" "distinct (map fst fs)"
      using ok os by (auto simp: future_ok_def intro: om_sorted_distinct)
    have "length ?fs = card (set ?fs)" "length fs = card (set fs)" "(?n, t) \<notin> set fs"
      using d absent by (force intro!: distinct_card [symmetric] simp: distinct_map)+
    thus ?thesis using set by simp
  qed
  have "fut_count ?q = Suc (fut_count q)"
    unfolding q1 using count_update [of a ?fs "q_future q"] fs len by (simp add: fut_count_def)
  hence size': "q_futureSize ?q = fut_count ?q" using size by (simp add: postpone_one_def)
  have ap': "apart lib (cur_txs ?q) (fut_txs ?q)"
  proof -
    have "inj_on (tx_hash lib) (cur_txs ?q \<union> fut_txs ?q)"
      using ap tc unfolding apart_def C F by (blast intro: inj_on_subset)
    moreover have "slot lib u \<noteq> slot lib t" if "u \<in> cur_txs q - {t}" for u
      using sj tc that by (auto simp: inj_on_def)
    ultimately show ?thesis using ap unfolding apart_def C F by blast
  qed
  have ids': "ids_ok ?q"
    using ids by (auto simp: ids_ok_def cur distinct_map_filter) (auto simp: postpone_one_def)
  have ho': "hash_ok lib ?q"
  proof -
    have "q_byHash ?q = (q_byHash q)(tx_hash lib t := None)" by (simp add: postpone_one_def)
    moreover have "tx_hash lib u = tx_hash lib t \<longleftrightarrow> j = i" if "(j, u) \<in> set (q_current q)" for j u
      using that t hash_inj [OF ho] uniq by metis
    ultimately show ?thesis using ho by (auto simp: hash_ok_def cur)
  qed
  have sj': "inj_on (slot lib) (cur_txs ?q)" using sj unfolding C by (rule inj_on_subset) blast
  have d: "distinct (map fst (q_future q))" using sh by (simp add: fut_shape_def)
  have full: "fut_full ?q"
    using ne set_update [OF d, of a ?fs] by (auto simp: fut_full_def fut)
  show "fut_full ?q" by (rule full)
  have "map_of (q_future ?q) a \<noteq> None" by (simp add: fut update_conv)
  with ids' ho' sh' size' ap' sj' full show "loose lib a ?q" by (auto simp: loose_def fut_full_def)
  show "postponed q ?q" using C F tc by (auto simp: postponed_def) (auto simp: postpone_one_def)
qed

lemma postpone_ok:
  assumes "loose lib a q" "distinct (map snd ms)"
    "\<forall>(n, i)\<in>set ms. \<exists>t. (i, t) \<in> set (q_current q) \<and> slot lib t = (a, n)"
  shows "\<exists>q'. tq_postpone lib a ms q = Some q' \<and> loose lib a q' \<and> postponed q q' \<and>
    q_current q' = filter (\<lambda>(j, _). j \<notin> snd ` set ms) (q_current q) \<and> (ms \<noteq> [] \<longrightarrow> fut_full q')"
  using assms
proof (induction ms arbitrary: q)
  case Nil
  thus ?case by (simp add: postponed_def)
next
  case (Cons p ms)
  obtain n i where p: "p = (n, i)" by force
  obtain t where t: "(i, t) \<in> set (q_current q)" "slot lib t = (a, n)" using Cons.prems(3) p by auto
  have ta: "tx_from lib t = a" using t(2) by (simp add: slot_def)
  let ?q = "postpone_one lib a i t q"
  note one = postpone_one_ok [OF Cons.prems(1) t(1) ta]
  have ids: "ids_ok q" using Cons.prems(1) by (simp add: loose_def)
  have step: "tq_postpone lib a (p # ms) q = tq_postpone lib a ms ?q"
  proof -
    have "map_of (q_current q) i = Some t" using ids_find [OF ids] t(1) by blast
    thus ?thesis by (simp add: p postpone_one_def Let_def)
  qed
  have cur: "q_current ?q = filter (\<lambda>(j, _). j \<noteq> i) (q_current q)" by (simp add: postpone_one_def)
  have d: "distinct (map snd ms)" "i \<notin> snd ` set ms" using Cons.prems(2) p by auto
  have "\<forall>(n, j)\<in>set ms. \<exists>u. (j, u) \<in> set (q_current ?q) \<and> slot lib u = (a, n)"
  proof clarify
    fix m j assume j: "(m, j) \<in> set ms"
    hence "j \<noteq> i" using d(2) by force
    with j Cons.prems(3) show "\<exists>u. (j, u) \<in> set (q_current ?q) \<and> slot lib u = (a, m)"
      unfolding cur by fastforce
  qed
  from Cons.IH [OF one(1) d(1) this] obtain q' where q': "tq_postpone lib a ms ?q = Some q'"
    "loose lib a q'" "postponed ?q q'" "q_current q' = filter (\<lambda>(j, _). j \<notin> snd ` set ms) (q_current ?q)"
    "ms \<noteq> [] \<longrightarrow> fut_full q'" by blast
  have "postponed q q'" using one(2) q'(3) by (simp add: postponed_def)
  moreover have "fut_full q'" using q'(1,5) one(3) by (cases ms) auto
  moreover have "q_current q' = filter (\<lambda>(j, _). j \<notin> snd ` set (p # ms)) (q_current q)"
    unfolding q'(4) cur p by (auto intro: filter_cong)
  ultimately show ?case using step q'(1,2) by auto
qed

lemma setFuture_ok:
  assumes inv: "tq_inv lib q"
  obtains q' where "setFuture lib h q = Some q'" "tq_inv lib q'"
    "cur_txs q' \<union> fut_txs q' = cur_txs q \<union> fut_txs q" "q_known q' = q_known q" "q_limit q' = q_limit q"
    "q_futureLimit q' = q_futureLimit q" "q_dropped q' = q_dropped q"
    "\<forall>t\<in>cur_txs q. tx_hash lib t = h \<longrightarrow>
       cur_txs q' = {u \<in> cur_txs q. \<not> (tx_from lib u = tx_from lib t \<and> m_nonce t \<le> m_nonce u)}"
proof (cases "q_byHash q h")
  case None
  have "hash_ok lib q" using inv by (simp add: tq_inv_def tq_wf_def core_def)
  hence "h \<notin> tx_hash lib ` cur_txs q" using None byHash_None by blast
  hence "\<forall>t\<in>cur_txs q. tx_hash lib t \<noteq> h" by auto
  with None inv show ?thesis by (intro that [of q]) (auto simp: setFuture_def)
next
  case (Some i)
  have c: "core lib q" and ids: "ids_ok q" and ho: "hash_ok lib q"
    and sh: "fut_shape lib q" and full: "fut_full q" and size: "q_futureSize q = fut_count q"
    and ap: "apart lib (cur_txs q) (fut_txs q)"
    using inv by (auto simp: tq_inv_def tq_wf_def core_def fut_core_def)
  obtain st where st: "(i, st) \<in> set (q_current q)" "tx_hash lib st = h" using byHash_Some [OF ho Some] by blast
  let ?a = "tx_from lib st" and ?n = "m_nonce st"
  obtain m where m: "q_byAddr q ?a = Some m" "m \<noteq> []" "om_sorted m" "(?n, i) \<in> set m"
    by (rule byAddr_in [OF c st(1), of ?a ?n]) (simp add: slot_def)
  note idx = byAddr_Some(3) [OF c m(1)]
  define target where "target = (case map_of (q_future q) ?a of None \<Rightarrow> [] | Some fs \<Rightarrow> fs)"
  define q1 where "q1 = q\<lparr>q_future := AList.update ?a target (q_future q)\<rparr>"
  have tok: "future_ok lib ?a target"
  proof (cases "map_of (q_future q) ?a")
    case (Some fs)
    with fut_find(1) [OF sh Some] show ?thesis by (simp add: target_def)
  qed (simp add: target_def future_ok_def)
  have F1: "fut_txs q1 = fut_txs q"
  proof (cases "map_of (q_future q) ?a")
    case None
    thus ?thesis using fut_find_None [OF sh None] fut_txs_update [OF sh]
      by (auto simp: q1_def target_def)
  next
    case (Some fs)
    have "{u \<in> fut_txs q. tx_from lib u = ?a} = snd ` set fs"
      using fut_find [OF sh Some] by (force simp: future_ok_def slot_def)
    thus ?thesis using fut_txs_update [OF sh] Some by (auto simp: q1_def target_def)
  qed
  have "fut_count q1 = fut_count q"
    using count_update [of ?a target "q_future q"] by (simp add: q1_def fut_count_def target_def split: option.splits)
  moreover have "inj_on (slot lib) (cur_txs q)"
    using slot_inj [OF c] by (auto simp: inj_on_def cur_txs_iff)
  moreover have "\<forall>(b, gs)\<in>set (q_future q1). b \<noteq> ?a \<longrightarrow> gs \<noteq> []"
    using full set_update [of "q_future q" ?a target] sh by (auto simp: q1_def fut_full_def fut_shape_def)
  moreover have "fut_shape lib q1" unfolding q1_def by (rule fut_shape_update [OF sh tok])
  moreover have "ids_ok q1" "hash_ok lib q1" "cur_txs q1 = cur_txs q" "q_futureSize q1 = q_futureSize q"
    using ids ho by (simp_all add: q1_def ids_ok_def hash_ok_def)
  moreover have "map_of (q_future q1) ?a \<noteq> None" by (simp add: q1_def update_conv)
  ultimately have l: "loose lib ?a q1" using ap size F1 by (simp add: loose_def)
  have d: "distinct (map snd (om_from ?n m))"
  proof -
    have "inj_on snd (set m)"
    proof (rule inj_onI)
      fix x y assume xy: "x \<in> set m" "y \<in> set m" "snd x = snd y"
      then obtain u v where "(snd x, u) \<in> set (q_current q)" "slot lib u = (?a, fst x)"
        "(snd x, v) \<in> set (q_current q)" "slot lib v = (?a, fst y)"
        using idx [of "fst x" "snd x"] idx [of "fst y" "snd x"] by (metis prod.collapse)
      moreover from this(1,3) have "u = v" using ids_find [OF ids] by (metis option.inject)
      ultimately show "x = y" using xy(3) by (simp add: prod_eq_iff)
    qed
    moreover have "distinct m" using om_sorted_distinct [OF m(3)] by (simp add: distinct_map)
    ultimately have "distinct (map snd m)" by (simp add: distinct_map)
    thus ?thesis by (simp add: om_from_def distinct_map_filter)
  qed
  have ents: "\<forall>(n, i)\<in>set (om_from ?n m). \<exists>t. (i, t) \<in> set (q_current q1) \<and> slot lib t = (?a, n)"
    using idx by (auto simp: om_from_def q1_def)
  obtain q2 where q2: "tq_postpone lib ?a (om_from ?n m) q1 = Some q2" "loose lib ?a q2" "postponed q1 q2"
    "q_current q2 = filter (\<lambda>(j, _). j \<notin> snd ` set (om_from ?n m)) (q_current q1)"
    "om_from ?n m \<noteq> [] \<longrightarrow> fut_full q2"
    using postpone_ok [OF l d ents] by blast
  have "(?n, i) \<in> set (om_from ?n m)" using m(4) by (simp add: om_from_def)
  hence full2: "fut_full q2" using q2(5) by auto
  let ?b = "om_below ?n m"
  define q' where "q' = q2\<lparr>q_byAddr := (q_byAddr q2)(?a := if ?b = [] then None else Some ?b)\<rparr>"
  have "map_of (q_current q) i = Some st" using ids_find [OF ids] st(1) by blast
  hence r: "setFuture lib h q = Some q'"
    using Some m(1) q2(1) by (simp add: setFuture_def Let_def q'_def q1_def target_def)
  have cur: "(j, u) \<in> set (q_current q') \<longleftrightarrow>
      (j, u) \<in> set (q_current q) \<and> \<not> (tx_from lib u = ?a \<and> ?n \<le> m_nonce u)" for j u
  proof -
    have "j \<in> snd ` set (om_from ?n m) \<longleftrightarrow> tx_from lib u = ?a \<and> ?n \<le> m_nonce u"
      if ju: "(j, u) \<in> set (q_current q)"
    proof
      assume "j \<in> snd ` set (om_from ?n m)"
      then obtain n where n: "(n, j) \<in> set m" "\<not> n < ?n" by (auto simp: om_from_def)
      then obtain v where "(j, v) \<in> set (q_current q)" "slot lib v = (?a, n)" using idx by blast
      moreover from this(1) ju have "v = u" using ids_find [OF ids] by (metis option.inject)
      ultimately show "tx_from lib u = ?a \<and> ?n \<le> m_nonce u" using n(2) by (auto simp: slot_def)
    next
      assume u: "tx_from lib u = ?a \<and> ?n \<le> m_nonce u"
      hence "(m_nonce u, j) \<in> set m" using idx ju by (auto simp: slot_def)
      hence "(m_nonce u, j) \<in> set (om_from ?n m)" using u by (simp add: om_from_def not_less)
      thus "j \<in> snd ` set (om_from ?n m)" by force
    qed
    thus ?thesis by (auto simp: q'_def q2(4) q1_def)
  qed
  have bA: "q_byAddr q' = (q_byAddr q)(?a := if ?b = [] then None else Some ?b)"
    using q2(3) by (simp add: q'_def postponed_def q1_def)
  have "addr_ok lib q' b" for b
  proof (cases "b = ?a")
    case True
    have e: "(n, j) \<in> set ?b \<longleftrightarrow> (\<exists>u. (j, u) \<in> set (q_current q') \<and> slot lib u = (?a, n))" for n j
      using idx by (auto simp: om_below_def cur slot_def not_le)
    show ?thesis
    proof (cases "?b = []")
      case True
      have "tx_from lib u \<noteq> ?a" if "u \<in> cur_txs q'" for u
        using e True that by (auto simp: cur_txs_iff slot_def)
      with True bA \<open>b = ?a\<close> show ?thesis by (simp add: addr_ok_def)
    next
      case False
      with e bA \<open>b = ?a\<close> m(3) show ?thesis by (simp add: addr_ok_def om_below_def)
    qed
  next
    case False
    have "addr_ok lib q b" using c by (simp add: core_def)
    thus ?thesis by (rule addr_ok_other) (use False bA cur in auto)
  qed
  moreover have "ids_ok q'" "hash_ok lib q'" "cur_txs q' = cur_txs q2" "fut_txs q' = fut_txs q2"
    "fut_shape lib q' = fut_shape lib q2" "fut_full q' = fut_full q2" "fut_count q' = fut_count q2"
    "q_futureSize q' = q_futureSize q2"
    using q2(2) by (simp_all add: q'_def loose_def ids_ok_def hash_ok_def cur_txs_def fut_txs_def
        fut_shape_def fut_full_def fut_count_def)
  ultimately have wf: "tq_wf lib q'" and sets: "cur_txs q' = cur_txs q2" "fut_txs q' = fut_txs q2"
    using q2(2) full2 by (simp_all add: tq_wf_def core_def fut_core_def loose_def)
  have all: "cur_txs q' \<union> fut_txs q' = cur_txs q \<union> fut_txs q"
    using q2(3) F1 by (simp add: sets postponed_def) (simp add: q1_def)
  have "tq_inv lib q'"
    using wf all inv q2(3) by (simp add: tq_inv_def postponed_def) (simp add: q'_def q1_def)
  moreover have "cur_txs q' = {u \<in> cur_txs q. \<not> (tx_from lib u = ?a \<and> ?n \<le> m_nonce u)}"
    using cur by (auto simp: cur_txs_iff)
  moreover have "t \<in> cur_txs q \<Longrightarrow> tx_hash lib t = h \<Longrightarrow> t = st" for t
  proof -
    assume t: "t \<in> cur_txs q" "tx_hash lib t = h"
    have "st \<in> cur_txs q" using st(1) cur_txs_iff by metis
    with t st(2) ap show "t = st" unfolding apart_def inj_on_def by blast
  qed
  ultimately show ?thesis
    using r all q2(3) by (intro that [of q']) (auto simp: postponed_def q'_def q1_def)
qed

section \<open>Every operation\<close>

lemma tx_sha3_tx_hash:
  "tx_sha3 (lib_sha3 lib) WithSignature t = Inr (h, t') \<Longrightarrow> tx_hash lib t' = h"
proof -
  assume a: "tx_sha3 (lib_sha3 lib) WithSignature t = Inr (h, t')"
  have memo: "m_hashWith u \<noteq> 0 \<Longrightarrow> tx_hash lib u = m_hashWith u" for u
    by (simp add: tx_hash_def tx_sha3_def)
  show ?thesis
  proof (cases "m_hashWith t = 0")
    case False
    with a have "m_hashWith t = h \<and> t' = t" by (auto simp: tx_sha3_def)
    with memo [OF False] show ?thesis by simp
  next
    case True
    with a have t': "t' = t\<lparr>m_hashWith := h\<rparr>" by (auto simp: tx_sha3_def Let_def exn_simps)
    show ?thesis
    proof (cases "h = 0")
      case True
      with \<open>m_hashWith t = 0\<close> t' have "t' = t" by simp
      with a show ?thesis by (simp add: tx_hash_def)
    next
      case False
      with memo [of t'] t' show ?thesis by simp
    qed
  qed
qed

definition import_result :: "crypto_lib \<Rightarrow> u256 \<Rightarrow> tx_base \<Rightarrow> IfDropped \<Rightarrow> tx_queue \<Rightarrow> ImportResult" where
  "import_result lib h t ik q =
     (if h \<in> q_known q then AlreadyKnown
      else if h \<in> q_dropped q \<and> ik = DroppedIgnore then AlreadyInChain
      else if outbids lib t q then ImportSuccess else OverbidGasPrice)"

lemma tq_import_ok:
  assumes stl: "stl_ok stl" and inv: "tq_inv lib q" and z: "\<not> hasZeroSignature t"
    and h: "tx_sha3 (lib_sha3 lib) WithSignature t = Inr (h, t')"
  obtains ir q' where "tq_import lib stl t ik q = Inr (Some (ir, q'))" "ir = import_result lib h t' ik q"
    "tq_inv lib q'" "ir \<noteq> ImportSuccess \<longrightarrow> q' = q" "ir = ImportSuccess \<longrightarrow> import_rel lib t' q q'"
proof (cases "check_import h ik q = ImportSuccess")
  case False
  with z h inv show ?thesis
    by (intro that [of "check_import h ik q" q])
      (auto simp: tq_import_def check_import_def import_result_def split: if_splits)
next
  case True
  have th: "tx_hash lib t' = h" using h by (rule tx_sha3_tx_hash)
  have "tx_hash lib t' \<notin> q_known q" using True th by (auto simp: check_import_def split: if_splits)
  then obtain ir q' where m: "manageImport lib stl (tx_hash lib t') t' q = Some (ir, q')" "tq_inv lib q'"
    "ir = (if outbids lib t' q then ImportSuccess else OverbidGasPrice)"
    "ir = ImportSuccess \<longrightarrow> import_rel lib t' q q'" "ir \<noteq> ImportSuccess \<longrightarrow> q' = q"
    by (rule manageImport_ok [OF stl inv])
  have "tq_import lib stl t ik q = Inr (Some (ir, q'))"
    using z h True m(1) th by (simp add: tq_import_def)
  moreover have "ir = import_result lib h t' ik q"
    using True m(3) by (auto simp: check_import_def import_result_def split: if_splits)
  ultimately show ?thesis using m by (intro that)
qed

lemma tq_import_inv:
  assumes stl: "stl_ok stl" and inv: "tq_inv lib q" and r: "tq_import lib stl t ik q = Inr r"
  shows "\<exists>ir q'. r = Some (ir, q') \<and> tq_inv lib q'"
proof (cases "hasZeroSignature t")
  case True
  with r inv show ?thesis by (auto simp: tq_import_def)
next
  case False
  with r obtain h t' where h: "tx_sha3 (lib_sha3 lib) WithSignature t = Inr (h, t')"
    by (cases "tx_sha3 (lib_sha3 lib) WithSignature t") (auto simp: tq_import_def)
  show ?thesis by (rule tq_import_ok [OF stl inv False h, of ik]) (use r in auto)
qed

lemma tq_import_rlp_inv:
  assumes "stl_ok stl" "tq_inv lib q"
  shows "\<exists>ir q'. tq_import_rlp lib stl d ik q = Some (ir, q') \<and> tq_inv lib q'"
proof (cases "bindE (tx_from_rlp d CheckTxEverything) (\<lambda>t. tq_import lib stl t ik q)")
  case (Inl e)
  with assms(2) show ?thesis by (simp add: tq_import_rlp_def)
next
  case (Inr r)
  then obtain t where "tq_import lib stl t ik q = Inr r" by (auto simp: exn_simps)
  from tq_import_inv [OF assms this] Inr show ?thesis by (auto simp: tq_import_rlp_def)
qed

lemma tq_drop_inv:
  assumes "tq_inv lib q"
  shows "\<exists>q'. tq_drop lib h q = Some q' \<and> tq_inv lib q'"
proof (cases "h \<in> q_known q")
  case False
  with assms show ?thesis by (simp add: tq_drop_def)
next
  case True
  have "tq_inv lib (q\<lparr>q_dropped := insert h (q_dropped q)\<rparr>)" using assms by (simp add: tq_inv_def)
  then show ?thesis by (rule tq_remove_inv [where h = h]) (use True in \<open>auto simp: tq_drop_def\<close>)
qed

lemma dropGood_inv:
  assumes stl: "stl_ok stl" and inv: "tq_inv lib q"
  shows "\<exists>e q'. dropGood lib stl t q = Some (e, q') \<and> tq_inv lib q'"
proof -
  have "tq_wf lib q" using inv by (simp add: tq_inv_def)
  then obtain q1 where q1: "makeCurrent lib stl t q = Some q1" "tq_wf lib q1" "tq_moved lib q q1"
    "q_futureSize q1 \<le> q_futureLimit q"
    by (rule makeCurrent_ok [OF stl])
  have i1: "tq_inv lib q1" using q1(2,3) inv unfolding tq_inv_def tq_moved_def by blast
  show ?thesis
  proof (cases "\<exists>h t'. tx_sha3 (lib_sha3 lib) WithSignature t = Inr (h, t') \<and> h \<in> q_known q1")
    case False
    with q1(1) i1 show ?thesis by (auto simp: dropGood_def split: sum.splits)
  next
    case True
    then obtain h t' where h: "tx_sha3 (lib_sha3 lib) WithSignature t = Inr (h, t')" "h \<in> q_known q1" by blast
    from i1 show ?thesis
      by (rule tq_remove_inv [where h = h]) (use q1(1) h in \<open>auto simp: dropGood_def\<close>)
  qed
qed

lemma tq_new_inv: "tq_inv lib (tq_new l f)"
  by (simp add: tq_new_def tq_inv_def tq_wf_def core_def ids_ok_def hash_ok_def addr_ok_def cur_txs_def
      fut_core_def fut_shape_def fut_full_def fut_txs_def fut_count_def apart_def)

lemma tq_clear_inv: "tq_inv lib (tq_clear q)"
  by (simp add: tq_clear_def tq_inv_def tq_wf_def core_def ids_ok_def hash_ok_def addr_ok_def cur_txs_def
      fut_core_def fut_shape_def fut_full_def fut_txs_def fut_count_def apart_def)

lemma tq_inv_unverified [simp]: "tq_inv lib (q\<lparr>q_unverified := u\<rparr>) = tq_inv lib q"
  by (simp add: tq_inv_def tq_wf_def core_def ids_ok_def hash_ok_def addr_ok_def cur_txs_def
      fut_core_def fut_shape_def fut_full_def fut_txs_def fut_count_def cong: option.case_cong)

lemma enqueue_loop_inv: "enqueue_loop node i n r q = (e, q') \<Longrightarrow> tq_inv lib q' = tq_inv lib q"
  by (induction node i n r q rule: enqueue_loop.induct) (auto split: if_splits sum.splits prod.splits)

lemma verifier_import_inv:
  assumes "stl_ok stl" "tq_inv lib q"
  shows "\<exists>q'. verifier_import lib stl w q = Some q' \<and> tq_inv lib q'"
proof (cases "tx_from_rlp (fst w) CheckCheap")
  case (Inr t)
  show ?thesis
  proof (cases "tq_import lib stl t DroppedIgnore q")
    case (Inr r)
    from tq_import_inv [OF assms this] \<open>tx_from_rlp _ _ = Inr t\<close> Inr show ?thesis
      by (auto simp: verifier_import_def split: sum.splits)
  qed (use Inr assms(2) in \<open>simp add: verifier_import_def\<close>)
qed (use assms(2) in \<open>simp add: verifier_import_def\<close>)

section \<open>The queue as a state machine\<close>

text \<open>The steps that threads take on a queue, one for each section that holds a lock; a step of a
  verifier thread works on an entry that it has taken before.\<close>

inductive tq_step :: "crypto_lib \<Rightarrow> stl_lib \<Rightarrow> tx_queue \<Rightarrow> tx_queue \<Rightarrow> bool"
  for lib stl where
  step_import: "tq_import lib stl t ik q = Inr (Some (ir, q')) \<Longrightarrow> tq_step lib stl q q'"
| step_import_rlp: "tq_import_rlp lib stl d ik q = Some (ir, q') \<Longrightarrow> tq_step lib stl q q'"
| step_drop: "tq_drop lib h q = Some q' \<Longrightarrow> tq_step lib stl q q'"
| step_setFuture: "setFuture lib h q = Some q' \<Longrightarrow> tq_step lib stl q q'"
| step_dropGood: "dropGood lib stl t q = Some (e, q') \<Longrightarrow> tq_step lib stl q q'"
| step_clear: "tq_step lib stl q (tq_clear q)"
| step_enqueue: "tq_enqueue d node q = (e, q') \<Longrightarrow> tq_step lib stl q q'"
| step_take: "verifier_take q = Some (w, q') \<Longrightarrow> tq_step lib stl q q'"
| step_verify: "verifier_import lib stl w q = Some q' \<Longrightarrow> tq_step lib stl q q'"

lemma tq_step_inv:
  assumes "stl_ok stl" "tq_step lib stl q q'" "tq_inv lib q"
  shows "tq_inv lib q'"
  using assms(2)
proof cases
  case (step_import t ik ir)
  from tq_import_inv [OF assms(1,3) this] show ?thesis by simp
next
  case (step_import_rlp d ik ir)
  with tq_import_rlp_inv [OF assms(1,3), of d ik] show ?thesis by auto
next
  case (step_drop h)
  with tq_drop_inv [OF assms(3), of h] show ?thesis by auto
next
  case (step_setFuture h)
  show ?thesis by (rule setFuture_ok [OF assms(3), of h]) (use step_setFuture in auto)
next
  case (step_dropGood t e)
  with dropGood_inv [OF assms(1,3), of t] show ?thesis by auto
next
  case step_clear
  thus ?thesis by (simp add: tq_clear_inv)
next
  case (step_enqueue d node e)
  with assms(3) show ?thesis by (auto simp: tq_enqueue_def enqueue_loop_inv split: sum.splits)
next
  case (step_take w)
  with assms(3) show ?thesis by (auto simp: verifier_take_def split: list.splits)
next
  case (step_verify w)
  with verifier_import_inv [OF assms(1,3), of w] show ?thesis by auto
qed

lemma tq_reachable_inv:
  assumes "stl_ok stl" "(tq_step lib stl)\<^sup>*\<^sup>* (tq_new l f) q"
  shows "tq_inv lib q"
  using assms(2) by (induction rule: rtranclp_induct) (auto intro: tq_new_inv tq_step_inv [OF assms(1)])

section \<open>Order\<close>

definition queue_ordered :: "crypto_lib \<Rightarrow> tx_queue \<Rightarrow> bool" where
  "queue_ordered lib q \<longleftrightarrow> in_order (priority_compare lib q) (map snd (q_current q))"

lemma priority_weak_order: "weak_order (priority_compare lib q)"
  unfolding weak_order_def priority_compare_def Let_def by (auto simp: not_less) 

lemma min_nonce_le:
  assumes c: "core lib q" and t: "t \<in> cur_txs q"
  shows "min_nonce q (tx_from lib t) \<le> m_nonce t"
proof -
  obtain i where i: "(i, t) \<in> set (q_current q)" using t by (auto simp: cur_txs_iff)
  obtain m where m: "q_byAddr q (tx_from lib t) = Some m" "m \<noteq> []" "om_sorted m" "(m_nonce t, i) \<in> set m"
    by (rule byAddr_in [OF c i]) (auto simp: slot_def)
  then obtain n j ms where m': "m = (n, j) # ms" by (cases m) auto
  with m om_hd_least [of n j ms "m_nonce t" i] show ?thesis by (simp add: min_nonce_def)
qed

text \<open>Within an account the height has the order of the nonce.\<close>

lemma nonce_height_mono:
  assumes "core lib q" "t \<in> cur_txs q" "u \<in> cur_txs q" "tx_from lib t = tx_from lib u"
  shows "nonce_height lib q t < nonce_height lib q u \<longleftrightarrow> m_nonce t < m_nonce u"
proof -
  have "min_nonce q (tx_from lib u) \<le> m_nonce t" "min_nonce q (tx_from lib u) \<le> m_nonce u"
    using min_nonce_le [OF assms(1,2)] min_nonce_le [OF assms(1,3)] assms(4) by auto
  thus ?thesis
    unfolding nonce_height_def assms(4)
    by (simp add: word_less_nat_alt unat_sub word_le_nat_alt) linarith
qed

lemma sorted_wrt_distinct: "sorted_wrt P xs \<Longrightarrow> distinct xs \<Longrightarrow> sorted_wrt (\<lambda>x y. x \<noteq> y \<and> P x y) xs"
  by (induction xs) auto

lemma cur_distinct:
  assumes c: "core lib q"
  shows "distinct (map snd (q_current q))"
proof -
  have "inj_on snd (set (q_current q))"
  proof (rule inj_onI)
    fix x y assume "x \<in> set (q_current q)" "y \<in> set (q_current q)" "snd x = snd y"
    hence "(fst x, snd x) \<in> set (q_current q)" "(fst y, snd y) \<in> set (q_current q)"
      "slot lib (snd x) = slot lib (snd y)" unfolding prod.collapse by simp_all
    from slot_inj [OF c this] show "x = y" by (simp add: prod_eq_iff)
  qed
  moreover have "distinct (q_current q)"
    using c by (simp add: core_def ids_ok_def distinct_map)
  ultimately show ?thesis by (simp add: distinct_map)
qed

lemma ordered_accounts:
  assumes "core lib q" "queue_ordered lib q"
  shows "sorted_wrt (\<lambda>t u. tx_from lib t = tx_from lib u \<longrightarrow> m_nonce t < m_nonce u) (map snd (q_current q))"
proof -
  note dist = cur_distinct [OF assms(1)]
  have nz: "t = u" if "t \<in> cur_txs q" "u \<in> cur_txs q" "tx_from lib t = tx_from lib u" "m_nonce t = m_nonce u" for t u
    using that slot_inj [OF assms(1)] by (fastforce simp: cur_txs_iff slot_def)
  have "m_nonce t < m_nonce u" if "t \<in> cur_txs q" "u \<in> cur_txs q" "t \<noteq> u" "tx_from lib t = tx_from lib u"
    "\<not> priority_compare lib q u t" for t u
  proof -
    have "\<not> m_nonce u < m_nonce t"
      using that(5) nonce_height_mono [OF assms(1) that(2,1)] that(4) by (auto simp: priority_compare_def Let_def)
    with nz [OF that(1,2,4)] that(3) show ?thesis by (metis linorder_less_linear)
  qed
  note lt = this
  have "set (map snd (q_current q)) = cur_txs q" by (simp add: cur_txs_def)
  moreover have "sorted_wrt (\<lambda>a b. \<not> priority_compare lib q b a) (map snd (q_current q))"
    using assms(2) by (simp add: queue_ordered_def in_order_def)
  ultimately have "sorted_wrt (\<lambda>t u. t \<noteq> u \<and> \<not> priority_compare lib q u t) (map snd (q_current q))"
    using sorted_wrt_distinct [OF _ dist] by blast
  thus ?thesis
    by (rule sorted_wrt_mono_rel [rotated]) (use lt in \<open>auto simp: cur_txs_def\<close>)
qed

text \<open>What \<open>topTransactions\<close> gives out.\<close>

lemma topTransactions_spec:
  assumes "tq_inv lib q"
  shows "length (topTransactions lib n avoid q) \<le> n" "distinct (topTransactions lib n avoid q)"
    "set (topTransactions lib n avoid q) \<subseteq> {t \<in> cur_txs q. tx_hash lib t \<notin> avoid}"
    "queue_ordered lib q \<Longrightarrow> sorted_wrt (\<lambda>t u. tx_from lib t = tx_from lib u \<longrightarrow> m_nonce t < m_nonce u)
       (topTransactions lib n avoid q)"
proof -
  have c: "core lib q" using assms by (simp add: tq_inv_def tq_wf_def)
  show "length (topTransactions lib n avoid q) \<le> n" by (simp add: topTransactions_def)
  show "distinct (topTransactions lib n avoid q)"
    using cur_distinct [OF c] by (simp add: topTransactions_def)
  show "set (topTransactions lib n avoid q) \<subseteq> {t \<in> cur_txs q. tx_hash lib t \<notin> avoid}"
    by (auto simp: topTransactions_def cur_txs_def dest!: in_set_takeD)
  assume "queue_ordered lib q"
  from ordered_accounts [OF c this]
  show "sorted_wrt (\<lambda>t u. tx_from lib t = tx_from lib u \<longrightarrow> m_nonce t < m_nonce u)
       (topTransactions lib n avoid q)"
    unfolding topTransactions_def by (intro sorted_wrt_take sorted_wrt_filter)
qed

section \<open>Concrete queues\<close>

definition queue_tx :: "u160 \<Rightarrow> u256 \<Rightarrow> u256 \<Rightarrow> u256 \<Rightarrow> tx_base" where
  "queue_tx a n price h = tx_null\<lparr>m_type := MessageCall, m_nonce := n, m_gasPrice := price,
     m_vrs := Some \<lparr>sig_signature = 9, sig_publicKey = 4\<rparr>, m_hashWith := h, m_forcedSender := a\<rparr>"

lemma queue_tx_simps [simp]:
  "m_nonce (queue_tx a n price h) = n" "m_gasPrice (queue_tx a n price h) = price"
  "\<not> hasZeroSignature (queue_tx a n price h)"
  "a \<noteq> 0 \<Longrightarrow> tx_from lib (queue_tx a n price h) = a"
  "h \<noteq> 0 \<Longrightarrow> tx_sha3 f WithSignature (queue_tx a n price h) = Inr (h, queue_tx a n price h)"
  "h \<noteq> 0 \<Longrightarrow> tx_hash lib (queue_tx a n price h) = h"
  by (simp_all add: queue_tx_def tx_null_def hasZeroSignature_def sig_isZero_def tx_from_def tx_sha3_def tx_hash_def)

lemma queue_tx_inject:
  "queue_tx a n p h = queue_tx b m r k \<longleftrightarrow> a = b \<and> n = m \<and> p = r \<and> h = k"
  by (auto simp: queue_tx_def tx_null_def)

fun queue_import :: "crypto_lib \<Rightarrow> tx_base list \<Rightarrow> tx_queue \<Rightarrow> tx_queue option" where
  "queue_import lib [] q = Some q"
| "queue_import lib (t # ts) q = (case tq_import lib stl_linear t DroppedIgnore q of
       Inr (Some (_, q)) \<Rightarrow> queue_import lib ts q | _ \<Rightarrow> None)"

lemmas queue_eval = tq_new_def tq_import_def check_import_def manageImport_def outbid_current_def outbid_future_def
  insertCurrent_def makeCurrent_def tq_advance_def tq_place_def ms_emplace_def stl_linear_def
  priority_compare_def nonce_height_def min_nonce_def tq_note_def tq_remove_def om_erase_def Let_def


end
