(* ===== verification/QueueProperties.thy ===== *)
theory QueueProperties
  imports TransactionQueueSteps
begin

text \<open>
  What the transaction queue guarantees, and three ways in which it does not do what it means to.
\<close>

section \<open>Properties\<close>

text \<open>C17: Every state that the queue reaches, whatever its threads do and however the standard
  library places an element of a multiset that is out of order, is consistent: the index by hash and
  the index by account and nonce name exactly the elements of the current set, an account and nonce is
  held once, in the current or in the future set, \<open>m_futureSize\<close> counts the postponed transactions,
  and every queued transaction is known.\<close>

theorem queue_consistent:
  assumes "stl_ok stl" "(tq_step lib stl)\<^sup>*\<^sup>* (tq_new limit futureLimit) q"
  shows "tq_inv lib q"
  using assms by (rule tq_reachable_inv)

lemma one_queued:
  obtains q where "tq_import lib stl_linear (queue_tx 1 0 5 101) DroppedIgnore (tq_new 10 1) =
      Inr (Some (ImportSuccess, q))" "map snd (q_current q) = [queue_tx 1 0 5 101]"
proof -
  have "\<exists>q. tq_import lib stl_linear (queue_tx 1 0 5 101) DroppedIgnore (tq_new 10 1) = Inr (Some (ImportSuccess, q)) \<and>
     map snd (q_current q) = [queue_tx 1 0 5 101]"
    by (simp add: queue_eval tq_trim.simps tq_trim_future.simps)
  thus ?thesis using that by (elim exE conjE) 
qed

theorem queue_consistent_witness:
  "\<exists>q. map snd (q_current q) = [queue_tx 1 0 5 101] \<and> tq_inv toy_lib q"
proof -
  obtain q where q: "tq_import toy_lib stl_linear (queue_tx 1 0 5 101) DroppedIgnore (tq_new 10 1) =
      Inr (Some (ImportSuccess, q))" "map snd (q_current q) = [queue_tx 1 0 5 101]"
    by (rule one_queued)
  from step_import [OF q(1)] have "(tq_step toy_lib stl_linear)\<^sup>*\<^sup>* (tq_new 10 1) q" by (rule r_into_rtranclp)
  from queue_consistent [OF stl_linear_ok this] q(2) show ?thesis by (intro exI [of _ q] conjI)
qed

text \<open>C20: On a consistent queue every operation returns: no loop runs for ever, and no iterator that
  was erased is used.\<close>

theorem queue_operations_return:
  assumes "stl_ok stl" "tq_inv lib q"
  shows "tq_import lib stl t ik q \<noteq> Inr None \<and> tq_import_rlp lib stl d ik q \<noteq> None \<and>
    tq_drop lib h q \<noteq> None \<and> setFuture lib h q \<noteq> None \<and> dropGood lib stl t q \<noteq> None \<and>
    verifier_import lib stl w q \<noteq> None"
proof (intro conjI)
  show "tq_import lib stl t ik q \<noteq> Inr None" using tq_import_inv [OF assms] by fastforce
  show "tq_import_rlp lib stl d ik q \<noteq> None" using tq_import_rlp_inv [OF assms] by fastforce
  show "tq_drop lib h q \<noteq> None" using tq_drop_inv [OF assms(2)] by fastforce
  show "setFuture lib h q \<noteq> None" by (rule setFuture_ok [OF assms(2), of h]) simp
  show "dropGood lib stl t q \<noteq> None" using dropGood_inv [OF assms, of t] by fastforce
  show "verifier_import lib stl w q \<noteq> None" using verifier_import_inv [OF assms] by fastforce
qed

theorem queue_operations_return_witness: "setFuture toy_lib 5 (tq_new 10 10) \<noteq> None"
  using queue_operations_return [OF stl_linear_ok tq_new_inv] by blast

text \<open>C18: The result of importing a signed transaction: known transactions and, unless the caller
  insists, dropped ones are refused, then those that are outbid by a transaction of the same account
  and nonce; a refused import changes nothing. An accepted one leaves both sets within their limits,
  adds nothing but the transaction and leaves no other one in its place.\<close>

theorem queue_import_result:
  assumes "stl_ok stl" "tq_inv lib q" "\<not> hasZeroSignature t"
    and "tx_sha3 (lib_sha3 lib) WithSignature t = Inr (h, t')"
  shows "\<exists>q'. tq_import lib stl t ik q = Inr (Some (import_result lib h t' ik q, q')) \<and>
    (if import_result lib h t' ik q = ImportSuccess
     then length (q_current q') \<le> q_limit q \<and> q_futureSize q' \<le> q_futureLimit q \<and>
       cur_txs q' \<union> fut_txs q' \<subseteq> insert t' {u \<in> cur_txs q \<union> fut_txs q. slot lib u \<noteq> slot lib t'}
     else q' = q)"
  by (rule tq_import_ok [OF assms, of ik]) (auto simp: import_rel_def)

theorem queue_import_result_witness:
  "\<exists>q'. tq_import toy_lib stl_linear (queue_tx 1 0 5 101) DroppedIgnore (tq_new 10 1) = Inr (Some (ImportSuccess, q'))"
proof -
  have "import_result toy_lib 101 (queue_tx 1 0 5 101) DroppedIgnore (tq_new 10 1) = ImportSuccess"
    by (simp add: import_result_def outbids_def tq_new_def cur_txs_def fut_txs_def)
  moreover have "\<exists>q'. tq_import toy_lib stl_linear (queue_tx 1 0 5 101) DroppedIgnore (tq_new 10 1) =
    Inr (Some (import_result toy_lib 101 (queue_tx 1 0 5 101) DroppedIgnore (tq_new 10 1), q'))"
    using queue_import_result [where lib = toy_lib and q = "tq_new 10 1" and h = 101 and ik = DroppedIgnore
      and t = "queue_tx 1 0 5 101" and t' = "queue_tx 1 0 5 101", OF stl_linear_ok tq_new_inv] by auto
  ultimately show ?thesis by simp
qed

text \<open>C21: \<open>topTransactions\<close> gives out at most the number asked for, without repetition, from the current
  set less the ones to avoid; when the set is in its order, those of one account come by ascending
  nonce.\<close>

theorem top_transactions:
  assumes "tq_inv lib q" "queue_ordered lib q"
  shows "length (topTransactions lib n avoid q) \<le> n \<and> distinct (topTransactions lib n avoid q) \<and>
    set (topTransactions lib n avoid q) \<subseteq> {t \<in> cur_txs q. tx_hash lib t \<notin> avoid} \<and>
    sorted_wrt (\<lambda>t u. tx_from lib t = tx_from lib u \<longrightarrow> m_nonce t < m_nonce u) (topTransactions lib n avoid q)"
  using topTransactions_spec [OF assms(1)] assms(2) by blast

theorem top_transactions_witness:
  "\<exists>q. map snd (q_current q) = [queue_tx 1 0 5 101] \<and> distinct (topTransactions toy_lib 3 {} q)"
proof -
  obtain q where q: "tq_import toy_lib stl_linear (queue_tx 1 0 5 101) DroppedIgnore (tq_new 10 1) =
      Inr (Some (ImportSuccess, q))" "map snd (q_current q) = [queue_tx 1 0 5 101]"
    by (rule one_queued)
  have "tq_inv toy_lib q" using tq_import_inv [OF stl_linear_ok tq_new_inv q(1)] by simp
  moreover have "queue_ordered toy_lib q" by (simp add: queue_ordered_def q(2) in_order_def)
  ultimately have "distinct (topTransactions toy_lib 3 {} q)"
    using top_transactions [of toy_lib q 3 "{}"] by simp
  with q(2) show ?thesis by (intro exI [of _ q] conjI)
qed

text \<open>C19: Postponing a transaction takes it and every later one of its account out of the current set,
  keeps all of them queued and known, and leaves the queue consistent.\<close>

theorem set_future_postpones:
  assumes "tq_inv lib q" "t \<in> cur_txs q"
  shows "\<exists>q'. setFuture lib (tx_hash lib t) q = Some q' \<and> tq_inv lib q' \<and>
    cur_txs q' = {u \<in> cur_txs q. \<not> (tx_from lib u = tx_from lib t \<and> m_nonce t \<le> m_nonce u)} \<and>
    cur_txs q' \<union> fut_txs q' = cur_txs q \<union> fut_txs q \<and> q_known q' = q_known q"
  by (rule setFuture_ok [OF assms(1), of "tx_hash lib t"]) (use assms(2) in auto)

theorem set_future_postpones_witness:
  "\<exists>q q'. map snd (q_current q) = [queue_tx 1 0 5 101] \<and> setFuture toy_lib 101 q = Some q' \<and> cur_txs q' = {}"
proof -
  obtain q where q: "tq_import toy_lib stl_linear (queue_tx 1 0 5 101) DroppedIgnore (tq_new 10 1) =
      Inr (Some (ImportSuccess, q))" "map snd (q_current q) = [queue_tx 1 0 5 101]"
    by (rule one_queued)
  have i: "tq_inv toy_lib q" using tq_import_inv [OF stl_linear_ok tq_new_inv q(1)] by simp
  have c: "cur_txs q = {queue_tx 1 0 5 101}" using arg_cong [OF q(2), of set] by (simp add: cur_txs_def)
  hence "queue_tx 1 0 5 101 \<in> cur_txs q" by simp
  from set_future_postpones [OF i this] obtain q' where q': "setFuture toy_lib 101 q = Some q'"
    "cur_txs q' = {u \<in> cur_txs q. \<not> (tx_from toy_lib u = 1 \<and> 0 \<le> m_nonce u)}" by auto
  have "cur_txs q' = {}" unfolding q'(2) c by simp
  with q(2) q'(1) show ?thesis by (intro exI [of _ q] exI [of _ q'] conjI)
qed

section \<open>Where the queue fails\<close>

text \<open>The comment on \<open>PriorityQueue\<close> says that a change of an account's smallest nonce does not affect
  the order. It does: here the block takes the first transaction of account 1, whose next one, which
  pays 9, is then at height 0 behind the one of account 2, which pays 3.\<close>

theorem dropGood_breaks_order:
  "\<exists>q q'. queue_import lib [queue_tx 1 0 5 101, queue_tx 2 0 3 102, queue_tx 1 1 9 103] (tq_new 10 10) = Some q \<and>
     queue_ordered lib q \<and> dropGood lib stl_linear (queue_tx 1 0 5 101) q = Some (None, q') \<and>
     \<not> queue_ordered lib q'"
  by (simp add: queue_eval tq_trim.simps tq_trim_future.simps dropGood_def queue_ordered_def in_order_def)

text \<open>A transaction that the limit on postponed ones evicts stays known, so that the queue refuses it
  from then on though it does not hold it.\<close>

theorem evicted_stays_known:
  "\<exists>q1 q2 q3. queue_import lib [queue_tx 1 0 5 101, queue_tx 1 1 9 102] (tq_new 10 1) = Some q1 \<and>
     setFuture lib 101 q1 = Some q2 \<and> queue_import lib [queue_tx 2 0 3 103] q2 = Some q3 \<and>
     queue_tx 1 1 9 102 \<notin> cur_txs q3 \<union> fut_txs q3 \<and>
     tq_import lib stl_linear (queue_tx 1 1 9 102) DroppedRetry q3 = Inr (Some (AlreadyKnown, q3))"
  by (simp add: queue_eval tq_trim.simps tq_trim_future.simps setFuture_def om_from_def om_below_def
      set_future_def cur_txs_def fut_txs_def queue_tx_inject)

text \<open>\<open>drop\<close> of a postponed transaction only marks it: it stays queued, and becomes current again when
  its turn comes.\<close>

theorem drop_keeps_postponed:
  assumes "tq_inv lib q" "t \<in> fut_txs q"
  shows "tq_drop lib (tx_hash lib t) q = Some (q\<lparr>q_dropped := insert (tx_hash lib t) (q_dropped q)\<rparr>)"
proof -
  let ?q = "q\<lparr>q_dropped := insert (tx_hash lib t) (q_dropped q)\<rparr>"
  have k: "tx_hash lib t \<in> q_known q" using assms by (auto simp: tq_inv_def)
  have "tx_hash lib t \<notin> tx_hash lib ` cur_txs q"
  proof
    assume "tx_hash lib t \<in> tx_hash lib ` cur_txs q"
    then obtain u where u: "u \<in> cur_txs q" "tx_hash lib t = tx_hash lib u" by auto
    with assms have "t = u" by (auto simp: tq_inv_def tq_wf_def apart_def inj_on_def)
    with u assms show False by (auto simp: tq_inv_def tq_wf_def apart_def)
  qed
  hence "q_byHash q (tx_hash lib t) = None"
    using assms(1) byHash_None by (auto simp: tq_inv_def tq_wf_def core_def)
  hence "tq_remove lib (tx_hash lib t) ?q = Some (False, ?q)" by (intro tq_remove_none) simp
  thus ?thesis using k by (simp add: tq_drop_def)
qed

end
