(* ===== verification/Receipt.thy ===== *)
theory Receipt
  imports ExtVM BlockHeader
begin

text \<open>
  Log entries, the bloom filter of their addresses and topics, and transaction receipts:
  libethcore/LogEntry.h and .cpp, \<open>bloomPart\<close> of libdevcore/FixedHash.h, class
  \<open>TransactionReceipt\<close> of libethereum. The hash function is the parameter \<open>sha3\<close>. A range \<open>for\<close> over
  an RLP view yields the items up to the first failure, and \<open>None\<close> when it does not end.
\<close>

section \<open>Bloom filters\<close>

text \<open>\<open>bloomPart<3, 256>\<close> of a hash: each pair of bytes names a bit, counted from the least significant
  one, since \<open>ret[M - 1 - index / 8]\<close> is the byte of that weight.\<close>

definition c_bloomBits :: nat where "c_bloomBits = 256 * 8"
definition c_mask :: "32 word" where "c_mask = of_nat (c_bloomBits - 1)"
definition c_bloomBytes :: nat where "c_bloomBytes = (11 + 7) div 8"

fun bloom_index :: "nat \<Rightarrow> bytes \<Rightarrow> 32 word \<Rightarrow> 32 word \<times> bytes" where
  "bloom_index 0 p index = (index, p)"
| "bloom_index (Suc j) p index = bloom_index j (tl p) ((push_bit 8 index) OR ucast (hd p))"

fun bloom_loop :: "nat \<Rightarrow> bytes \<Rightarrow> log_bloom \<Rightarrow> log_bloom" where
  "bloom_loop 0 p ret = ret"
| "bloom_loop (Suc i) p ret =
     (let (index, p) = bloom_index c_bloomBytes p 0; index = unat (index AND c_mask) in
      bloom_loop i p (ret OR push_bit (8 * (index div 8)) (push_bit (index mod 8) 1)))"

definition bloomPart :: "u256 \<Rightarrow> log_bloom" where
  "bloomPart h = bloom_loop 3 (hash_bytes h) 0"

definition fh_contains :: "'a::len word \<Rightarrow> 'a word \<Rightarrow> bool" where
  "fh_contains x c \<longleftrightarrow> x AND c = c"

definition shiftBloom :: "log_bloom \<Rightarrow> u256 \<Rightarrow> log_bloom" where
  "shiftBloom b h = b OR bloomPart h"

definition containsBloom :: "log_bloom \<Rightarrow> u256 \<Rightarrow> bool" where
  "containsBloom b h = fh_contains b (bloomPart h)"

text \<open>The assignments of \<open>SecureFixedHash\<close> all call the exclusive or of the base class.\<close>

definition fh_or :: "'a::len word \<Rightarrow> 'a word \<Rightarrow> 'a word" where "fh_or x c = x OR c"
definition fh_and :: "'a::len word \<Rightarrow> 'a word \<Rightarrow> 'a word" where "fh_and x c = x AND c"
definition fh_xor :: "'a::len word \<Rightarrow> 'a word \<Rightarrow> 'a word" where "fh_xor x c = x XOR c"
definition secure_or :: "'a::len word \<Rightarrow> 'a word \<Rightarrow> 'a word" where "secure_or x c = fh_xor x c"
definition secure_and :: "'a::len word \<Rightarrow> 'a word \<Rightarrow> 'a word" where "secure_and x c = fh_xor x c"

section \<open>Log entries\<close>

definition log_entry_bloom :: "(bytes \<Rightarrow> u256) \<Rightarrow> log_entry \<Rightarrow> log_bloom" where
  "log_entry_bloom sha3 l =
     foldl (\<lambda>ret t. shiftBloom ret (sha3 (hash_bytes t)))
       (shiftBloom 0 (sha3 (hash_bytes (log_address l)))) (log_topics l)"

definition logs_bloom :: "(bytes \<Rightarrow> u256) \<Rightarrow> log_entry list \<Rightarrow> log_bloom" where
  "logs_bloom sha3 ls = foldl (\<lambda>ret l. ret OR log_entry_bloom sha3 l) 0 ls"

fun append_hashes :: "u256 list \<Rightarrow> rlp_stream \<Rightarrow> rlp_exn + rlp_stream" where
  "append_hashes [] s = Inr s"
| "append_hashes (t # ts) s = bindE (appendHash s t) (append_hashes ts)"

definition log_streamRLP :: "log_entry \<Rightarrow> rlp_stream \<Rightarrow> rlp_exn + rlp_stream" where
  "log_streamRLP l s =
     bindE (appendList s 3) (\<lambda>s.
     bindE (appendHash s (log_address l)) (\<lambda>s.
     bindE (appendList s (length (log_topics l))) (\<lambda>s.
     bindE (append_hashes (log_topics l) s) (\<lambda>s.
       appendBytes s (log_data l) False))))"

text \<open>The items of a range \<open>for\<close>, and the exception that ends it.\<close>

partial_function (option) range_items ::
    "bytes \<Rightarrow> rlp_iter \<Rightarrow> (bytes list \<times> rlp_exn option) option" where
  "range_items d it =
     (if it_pos it = it_pos (iter_end d) \<and> it_size it = it_size (iter_end d)
      then Some ([], None)
      else case iter_deref d it of
        Inl e \<Rightarrow> Some ([], Some e)
      | Inr x \<Rightarrow> (case iter_next d it of
          Inl e \<Rightarrow> Some ([x], Some e)
        | Inr it' \<Rightarrow> Option.bind (range_items d it') (\<lambda>(xs, e). Some (x # xs, e))))"

definition range_for :: "bytes \<Rightarrow> (bytes list \<times> rlp_exn option) option" where
  "range_for d = (case iter_begin d of Inl e \<Rightarrow> Some ([], Some e) | Inr it \<Rightarrow> range_items d it)"

datatype receipt_exn = ReceiptRlp rlp_exn | InvalidTransactionReceiptFormat | TransactionReceiptVersionError
  | LogEntryAssertion

fun liftRc :: "rlp_exn + 'a \<Rightarrow> receipt_exn + 'a" where
  "liftRc (Inl e) = Inl (ReceiptRlp e)"
| "liftRc (Inr x) = Inr x"

text \<open>The body of a loop over the items, and the exception the loop ends with.\<close>

definition for_items ::
    "(bytes \<Rightarrow> (receipt_exn + 'a) option) \<Rightarrow> bytes list \<times> rlp_exn option \<Rightarrow> (receipt_exn + 'a list) option" where
  "for_items f r = (case r of (xs, e) \<Rightarrow>
     foldr (\<lambda>x rest. case f x of None \<Rightarrow> None
         | Some (Inl e) \<Rightarrow> Some (Inl e)
         | Some (Inr y) \<Rightarrow> (case rest of None \<Rightarrow> None | Some (Inl e) \<Rightarrow> Some (Inl e)
             | Some (Inr ys) \<Rightarrow> Some (Inr (y # ys))))
       xs (Some (case e of None \<Rightarrow> Inr [] | Some e \<Rightarrow> Inl (ReceiptRlp e))))"

text \<open>\<open>toVector<h256>()\<close> with its default flags.\<close>

definition toVector_h256 :: "bytes \<Rightarrow> (receipt_exn + u256 list) option" where
  "toVector_h256 d =
     (if isList d
      then case itemCount d of
             Inl e \<Rightarrow> Some (liftRc (Inl e))
           | Inr _ \<Rightarrow> Option.bind (range_for d) (for_items (\<lambda>x. Some (liftRc (readHash x LaissezFaire))))
      else Some (Inr []))"

definition seqO :: "(receipt_exn + 'a) option \<Rightarrow> ('a \<Rightarrow> (receipt_exn + 'b) option) \<Rightarrow> (receipt_exn + 'b) option" where
  "seqO m f = (case m of None \<Rightarrow> None | Some (Inl e) \<Rightarrow> Some (Inl e) | Some (Inr x) \<Rightarrow> f x)"

text \<open>\<open>LogEntry(RLP const&)\<close>; a failed \<open>assert\<close> ends the process.\<close>

definition log_entry_read :: "bytes \<Rightarrow> (receipt_exn + log_entry) option" where
  "log_entry_read d =
     seqO (Some (liftRc (itemCount d))) (\<lambda>n.
     if n \<noteq> 3 then Some (Inl LogEntryAssertion) else
     seqO (Some (liftRc (rlp_index (rlp_view d) 0))) (\<lambda>(d0, r).
     seqO (Some (liftRc (readHash d0 Strict))) (\<lambda>address.
     seqO (Some (liftRc (rlp_index r 1))) (\<lambda>(d1, r).
     seqO (toVector_h256 d1) (\<lambda>topics.
     seqO (Some (liftRc (rlp_index r 2))) (\<lambda>(d2, r).
     seqO (Some (liftRc (toBytes d2 LaissezFaire))) (\<lambda>data.
       Some (Inr \<lparr>log_address = address, log_topics = topics, log_data = data\<rparr>))))))))"

section \<open>Receipts\<close>

datatype status_or_root = StatusCode byte | StateRoot u256

record receipt =
  rc_statusCodeOrStateRoot :: status_or_root
  rc_gasUsed :: u256
  rc_bloom :: log_bloom
  rc_log :: "log_entry list"

definition receipt_make :: "(bytes \<Rightarrow> u256) \<Rightarrow> status_or_root \<Rightarrow> u256 \<Rightarrow> log_entry list \<Rightarrow> receipt" where
  "receipt_make sha3 st gasUsed ls = \<lparr>rc_statusCodeOrStateRoot = st, rc_gasUsed = gasUsed,
     rc_bloom = logs_bloom sha3 ls, rc_log = ls\<rparr>"

definition hasStatusCode :: "receipt \<Rightarrow> bool" where
  "hasStatusCode r \<longleftrightarrow> (case rc_statusCodeOrStateRoot r of StatusCode _ \<Rightarrow> True | StateRoot _ \<Rightarrow> False)"

definition statusCode :: "receipt \<Rightarrow> receipt_exn + byte" where
  "statusCode r = (case rc_statusCodeOrStateRoot r of StatusCode b \<Rightarrow> Inr b
                   | StateRoot _ \<Rightarrow> Inl TransactionReceiptVersionError)"

definition receipt_stateRoot :: "receipt \<Rightarrow> receipt_exn + u256" where
  "receipt_stateRoot r = (case rc_statusCodeOrStateRoot r of StatusCode _ \<Rightarrow> Inl TransactionReceiptVersionError
                          | StateRoot h \<Rightarrow> Inr h)"

fun stream_logs :: "log_entry list \<Rightarrow> rlp_stream \<Rightarrow> rlp_exn + rlp_stream" where
  "stream_logs [] s = Inr s"
| "stream_logs (l # ls) s = bindE (log_streamRLP l s) (stream_logs ls)"

definition receipt_streamRLP :: "receipt \<Rightarrow> rlp_stream \<Rightarrow> receipt_exn + rlp_stream" where
  "receipt_streamRLP r s =
     bindE (liftRc (appendList s 4)) (\<lambda>s.
     bindE (if hasStatusCode r then bindE (statusCode r) (\<lambda>b. liftRc (appendInt s (unat b)))
            else bindE (receipt_stateRoot r) (\<lambda>h. liftRc (appendHash s h))) (\<lambda>s.
     liftRc (
       bindE (appendInt s (unat (rc_gasUsed r))) (\<lambda>s.
       bindE (appendHash s (rc_bloom r)) (\<lambda>s.
       bindE (appendList s (length (rc_log r))) (stream_logs (rc_log r)))))))"

definition receipt_rlp :: "receipt \<Rightarrow> receipt_exn + bytes" where
  "receipt_rlp r = bindE (receipt_streamRLP r rlp_stream_new) (\<lambda>s. liftRc (stream_out s))"

definition readStatusOrRoot :: "bytes \<Rightarrow> receipt_exn + status_or_root" where
  "readStatusOrRoot d =
     bindE (throw_if (\<not> isData d) InvalidTransactionReceiptFormat) (\<lambda>_.
     bindE (liftRc (rlp_length d)) (\<lambda>n.
     if n = 32 then bindE (liftRc (readHash d Strict)) (\<lambda>h. Inr (StateRoot h))
     else bindE (liftRc (isInt d)) (\<lambda>i.
       if i then bindE (liftRc (toInt (Some 8) d Strict)) (\<lambda>v. Inr (StatusCode (of_nat v)))
       else Inl InvalidTransactionReceiptFormat)))"

definition receipt_read :: "bytes \<Rightarrow> (receipt_exn + receipt) option" where
  "receipt_read d =
     seqO (Some (liftRc (rlp_make d VeryStrict))) (\<lambda>d.
     seqO (Some (if isList d then liftRc (itemCount d) else Inl InvalidTransactionReceiptFormat)) (\<lambda>n.
     if n \<noteq> 4 then Some (Inl InvalidTransactionReceiptFormat) else
     seqO (Some (liftRc (rlp_index (rlp_view d) 0))) (\<lambda>(d0, r).
     seqO (Some (readStatusOrRoot d0)) (\<lambda>st.
     seqO (Some (liftRc (rlp_index r 1))) (\<lambda>(d1, r).
     seqO (Some (liftRc (readU256 d1))) (\<lambda>gasUsed.
     seqO (Some (liftRc (rlp_index r 2))) (\<lambda>(d2, r).
     seqO (Some (liftRc (readHash d2 Strict))) (\<lambda>b.
     seqO (Some (liftRc (rlp_index r 3))) (\<lambda>(d3, r).
     seqO (Option.bind (range_for d3) (for_items log_entry_read)) (\<lambda>ls.
       Some (Inr \<lparr>rc_statusCodeOrStateRoot = st, rc_gasUsed = gasUsed, rc_bloom = b, rc_log = ls\<rparr>)))))))))))"

end
