(* ===== verification/ReceiptProofs.thy ===== *)
theory ReceiptProofs
  imports Receipt
begin

text \<open>
  What the receipt writer produces is read back, and the bloom filter never misses a log entry.
\<close>

section \<open>Iterating over an encoding\<close>

lemma range_items_toList:
  assumes "toList_loop d it ret = Some (Inr ys)"
  shows "\<exists>zs. ys = rev ret @ zs \<and> range_items d it = Some (zs, None)"
proof -
  have "\<forall>ys. Inr ys = (Inr ys :: rlp_exn + bytes list) \<longrightarrow> r = Inr ys \<longrightarrow>
      (\<exists>zs. ys = rev ret @ zs \<and> range_items d it = Some (zs, None))"
    if "toList_loop d it ret = Some r" for r
  proof (rule toList_loop.raw_induct [OF _ that], intro allI impI)
    fix loop d it ret r and ys :: "bytes list"
    assume IH: "\<And>d it ret r. loop d it ret = Some r \<Longrightarrow> \<forall>ys. Inr ys = (Inr ys :: rlp_exn + bytes list) \<longrightarrow>
        r = Inr ys \<longrightarrow> (\<exists>zs. ys = rev ret @ zs \<and> range_items d it = Some (zs, None))"
      and body: "(if it_pos it = it_pos (iter_end d) \<and> it_size it = it_size (iter_end d)
        then Some (Inr (rev ret))
        else case iter_deref d it of Inl e \<Rightarrow> Some (Inl e)
          | Inr x \<Rightarrow> (case iter_next d it of Inl e \<Rightarrow> Some (Inl e) | Inr it' \<Rightarrow> loop d it' (x # ret))) = Some r"
      and r: "r = Inr ys"
    show "\<exists>zs. ys = rev ret @ zs \<and> range_items d it = Some (zs, None)"
    proof (cases "it_pos it = it_pos (iter_end d) \<and> it_size it = it_size (iter_end d)")
      case True
      with body r show ?thesis by (subst range_items.simps) auto
    next
      case False
      with body r obtain x it' where x: "iter_deref d it = Inr x" "iter_next d it = Inr it'"
        "loop d it' (x # ret) = Some (Inr ys)"
        by (auto split: sum.splits)
      from IH [OF x(3)] obtain zs where "ys = rev (x # ret) @ zs" "range_items d it' = Some (zs, None)" by auto
      with x False show ?thesis by (subst range_items.simps) auto
    qed
  qed
  with assms show ?thesis by blast
qed

lemma range_for_enc:
  assumes "item_ok (Lst xs)"
  shows "range_for (rlp_enc (Lst xs)) = Some (map rlp_enc xs, None)"
proof -
  have l: "isList (rlp_enc (Lst xs))"
    using enc_read [OF assms, of "[]"] by simp
  obtain it where "iter_begin (rlp_enc (Lst xs)) = Inr it"
    "toList_loop (rlp_enc (Lst xs)) it [] = Some (Inr (map rlp_enc xs))"
    using toList_enc [OF assms, of 0] l by (auto simp: toList_def split: sum.splits simp del: rlp_enc.simps)
  with range_items_toList [OF this(2)] show ?thesis by (simp add: range_for_def del: rlp_enc.simps)
qed

lemma for_items_enc:
  assumes "\<And>y. y \<in> set ys \<Longrightarrow> f (g y) = Some (Inr y)"
  shows "for_items f (map g ys, None) = Some (Inr ys)"
  using assms by (induction ys) (auto simp: for_items_def)

section \<open>Log entries\<close>

definition log_item :: "log_entry \<Rightarrow> rlp_item" where
  "log_item l = Lst [hash_item (log_address l), Lst (map hash_item (log_topics l)), Str (log_data l)]"

lemma append_hashes_eq: "append_hashes ts = write_items (map hash_item ts)"
proof (induction ts)
  case (Cons t ts)
  show ?case by (rule ext) (simp add: Cons appendHash_def hash_item_def)
qed (simp add: fun_eq_iff)

lemma log_streamRLP_eq: "log_streamRLP l s = write_item (log_item l) s"
  by (simp only: log_item_def write_item.simps write_items_fun)
    (simp add: log_streamRLP_def append_hashes_eq appendHash_def hash_item_def bindE_assoc eval_nat_numeral)

lemma index_enc:
  assumes "item_ok (Lst xs)" "cache_ok xs r" "i < length xs" "i < 100" "xs ! i = x"
  obtains r' where "rlp_index r i = Inr (rlp_enc x, r')" "cache_ok xs r'"
  using rlp_index_enc [OF assms(1,2), of i] assms(3-5) by (auto simp: item_at_def)

lemma seq_index:
  assumes "item_ok (Lst xs)" "xs ! i = x" "cache_ok xs r" "i < length xs" "i < 100"
    and "\<And>r'. cache_ok xs r' \<Longrightarrow> f (rlp_enc x, r') = m"
  shows "seqO (Some (liftRc (rlp_index r i))) f = m"
  by (rule index_enc [OF assms(1,3,4,5,2)]) (simp add: seqO_def assms(6))

lemma seqO_Inr [simp]: "seqO (Some (Inr x)) f = f x"
  by (simp add: seqO_def)

lemma toVector_enc:
  assumes "item_ok (Lst (map hash_item ts))"
  shows "toVector_h256 (rlp_enc (Lst (map hash_item ts))) = Some (Inr ts)"
proof -
  have l: "isList (rlp_enc (Lst (map hash_item ts)))"
    using enc_read [OF assms, of "[]"] by simp
  have "for_items (\<lambda>x. Some (liftRc (readHash x LaissezFaire))) (map (\<lambda>t. rlp_enc (hash_item t)) ts, None) = Some (Inr ts)"
    by (rule for_items_enc) (simp del: rlp_enc.simps)
  with l itemCount_enc [OF assms] range_for_enc [OF assms] show ?thesis by (simp add: toVector_h256_def o_def del: rlp_enc.simps)
qed

lemma log_entry_read_enc:
  assumes ok: "item_ok (log_item l)"
  shows "log_entry_read (rlp_enc (log_item l)) = Some (Inr l)"
proof -
  let ?xs = "[hash_item (log_address l), Lst (map hash_item (log_topics l)), Str (log_data l)]"
  have ok': "item_ok (Lst ?xs)" using ok by (simp add: log_item_def)
  have at: "?xs ! 0 = hash_item (log_address l)" "?xs ! 1 = Lst (map hash_item (log_topics l))"
    "?xs ! 2 = Str (log_data l)" by simp_all
  have items: "item_ok (Lst (map hash_item (log_topics l)))" "item_ok (Str (log_data l))"
    using item_ok_Lst [OF ok'] by simp_all
  have v0: "cache_ok ?xs (rlp_view (rlp_enc (Lst ?xs)))" by (rule cache_ok_view)
  have count: "itemCount (rlp_enc (Lst ?xs)) = Inr 3" using itemCount_enc [OF ok'] by simp
  show ?thesis
    unfolding log_item_def log_entry_read_def count
    apply (simp del: rlp_enc.simps)
    apply (rule seq_index [OF ok' at(1) v0], simp, simp, simp del: rlp_enc.simps)
    apply (rule seq_index [OF ok' at(2) [unfolded One_nat_def]], assumption, simp, simp)
    apply (simp add: toVector_enc [OF items(1)] del: rlp_enc.simps)
    apply (rule seq_index [OF ok' at(3)], assumption, simp, simp, simp add: toBytes_enc [OF items(2)] del: rlp_enc.simps)
    done
qed

section \<open>Receipts\<close>

definition status_item :: "status_or_root \<Rightarrow> rlp_item" where
  "status_item st = (case st of StatusCode b \<Rightarrow> int_item (unat b) | StateRoot h \<Rightarrow> hash_item h)"

definition receipt_items :: "receipt \<Rightarrow> rlp_item list" where
  "receipt_items r = [status_item (rc_statusCodeOrStateRoot r), int_item (unat (rc_gasUsed r)),
     hash_item (rc_bloom r), Lst (map log_item (rc_log r))]"

lemma stream_logs_eq: "stream_logs ls = write_items (map log_item ls)"
proof (induction ls)
  case (Cons l ls)
  show ?case by (rule ext) (simp add: Cons log_streamRLP_eq)
qed (simp add: fun_eq_iff)

lemma liftRc_bind: "liftRc (bindE m f) = bindE (liftRc m) (\<lambda>x. liftRc (f x))"
  by (cases m) auto

lemma receipt_streamRLP_eq: "receipt_streamRLP r s = liftRc (write_item (Lst (receipt_items r)) s)"
  by (cases "rc_statusCodeOrStateRoot r"; simp only: receipt_items_def write_item.simps write_items_fun)
    (simp_all add: receipt_streamRLP_def stream_logs_eq status_item_def hasStatusCode_def
      statusCode_def receipt_stateRoot_def appendHash_def appendInt_eq hash_item_def int_item_def
      liftRc_bind bindE_assoc eval_nat_numeral)

lemma receipt_rlp_eq:
  assumes "item_ok (Lst (receipt_items r))"
  shows "receipt_rlp r = Inr (rlp_enc (Lst (receipt_items r)))"
  using stream_out_write [OF item_ok_fits [OF assms]]
  by (simp add: receipt_rlp_def receipt_streamRLP_eq liftRc_bind [symmetric] del: write_item.simps rlp_enc.simps)

lemma readStatusOrRoot_enc: "readStatusOrRoot (rlp_enc (status_item st)) = Inr st"
proof (cases st)
  case (StateRoot h)
  have ok: "item_ok (hash_item h)" by (rule item_ok_hash) simp
  have "isData (rlp_enc (hash_item h))" "rlp_length (rlp_enc (hash_item h)) = Inr 32"
    using enc_read [OF ok, of "[]"] by (simp_all add: hash_item_def)
  with StateRoot show ?thesis by (simp add: readStatusOrRoot_def status_item_def del: rlp_enc.simps)
next
  case (StatusCode b)
  have b: "unat b < 2 ^ 8" using unsigned_less [of b, where ?'a = nat] by simp
  have ok: "item_ok (int_item (unat b))" by (rule item_ok_int [OF b]) simp_all
  have len: "length (toCompactBigEndian (unat b) 0) \<le> 1" using length_compact [OF b] by simp
  have nz: "toCompactBigEndian (unat b) 0 \<noteq> [] \<Longrightarrow> hd (toCompactBigEndian (unat b) 0) \<noteq> 0"
    using toBigEndian_hd_nonzero [of "unat b"] by (cases "unat b = 0") (auto simp: toCompactBigEndian_def)
  have "isData (rlp_enc (int_item (unat b)))"
    "rlp_length (rlp_enc (int_item (unat b))) = Inr (length (toCompactBigEndian (unat b) 0))"
    "isInt (rlp_enc (int_item (unat b))) = Inr True"
    using enc_read [OF ok, of "[]"] isInt_enc [OF ok [unfolded int_item_def] nz] by (simp_all add: int_item_def)
  moreover have "toInt (Some 8) (rlp_enc (int_item (unat b))) Strict = Inr (unat b)"
    by (rule toInt_int_item [OF b]) simp_all
  ultimately show ?thesis using StatusCode len
    by (simp add: readStatusOrRoot_def status_item_def del: rlp_enc.simps)
qed

lemma receipt_read_enc:
  assumes ok: "item_ok (Lst (receipt_items r))"
  shows "receipt_read (rlp_enc (Lst (receipt_items r))) = Some (Inr r)"
proof -
  let ?xs = "receipt_items r"
  have at: "?xs ! 0 = status_item (rc_statusCodeOrStateRoot r)" "?xs ! 1 = int_item (unat (rc_gasUsed r))"
    "?xs ! 2 = hash_item (rc_bloom r)" "?xs ! 3 = Lst (map log_item (rc_log r))" and len: "length ?xs = 4"
    by (simp_all add: receipt_items_def)
  have logs: "item_ok (Lst (map log_item (rc_log r)))"
    using item_ok_Lst [OF ok] by (simp add: receipt_items_def)
  have v0: "cache_ok ?xs (rlp_view (rlp_enc (Lst ?xs)))" by (rule cache_ok_view)
  have "isList (rlp_enc (Lst ?xs))" "rlp_make (rlp_enc (Lst ?xs)) VeryStrict = Inr (rlp_enc (Lst ?xs))"
    using enc_read [OF ok, of "[]"] rlp_make_enc [OF ok] by simp_all
  moreover have "itemCount (rlp_enc (Lst ?xs)) = Inr 4" using itemCount_enc [OF ok] len by simp
  moreover have "for_items log_entry_read (map (\<lambda>l. rlp_enc (log_item l)) (rc_log r), None) = Some (Inr (rc_log r))"
    by (rule for_items_enc, rule log_entry_read_enc) (use item_ok_Lst [OF logs] in auto)
  hence "Option.bind (range_for (rlp_enc (Lst (map log_item (rc_log r))))) (for_items log_entry_read) =
      Some (Inr (rc_log r))"
    using range_for_enc [OF logs] by (simp add: o_def del: rlp_enc.simps)
  ultimately show ?thesis
    unfolding receipt_read_def
    apply (simp del: rlp_enc.simps)
    apply (rule seq_index [OF ok at(1) v0], simp add: len, simp, simp add: readStatusOrRoot_enc del: rlp_enc.simps)
    apply (rule seq_index [OF ok at(2) [unfolded One_nat_def]], assumption, simp add: len, simp, simp del: rlp_enc.simps)
    apply (rule seq_index [OF ok at(3)], assumption, simp add: len, simp, simp del: rlp_enc.simps)
    apply (rule seq_index [OF ok at(4)], assumption, simp add: len, simp, simp del: rlp_enc.simps)
    done
qed

section \<open>The bloom filter has no false negatives\<close>

lemma fh_contains_bits: "fh_contains x c \<longleftrightarrow> (\<forall>n. bit c n \<longrightarrow> bit x n)"
proof
  assume "fh_contains x c"
  thus "\<forall>n. bit c n \<longrightarrow> bit x n" unfolding fh_contains_def by (metis bit_and_iff)
next
  assume "\<forall>n. bit c n \<longrightarrow> bit x n"
  thus "fh_contains x c" unfolding fh_contains_def by (intro bit_eqI) (auto simp: bit_and_iff)
qed

lemma fh_contains_or: "fh_contains x c \<Longrightarrow> fh_contains (x OR y) c" "fh_contains y c \<Longrightarrow> fh_contains (x OR y) c"
  by (simp_all add: fh_contains_bits bit_or_iff)

lemma foldl_shift_keeps:
  "fh_contains b c \<Longrightarrow> fh_contains (foldl (\<lambda>ret t. shiftBloom ret (f t)) b ts) c"
proof (induction ts arbitrary: b)
  case (Cons u ts)
  hence "fh_contains (shiftBloom b (f u)) c" unfolding shiftBloom_def by (intro fh_contains_or(1))
  thus ?case by (simp add: Cons.IH)
qed simp

lemma foldl_shift_contains:
  "t \<in> set ts \<Longrightarrow> fh_contains (foldl (\<lambda>ret t. shiftBloom ret (f t)) b ts) (bloomPart (f t))"
proof (induction ts arbitrary: b)
  case (Cons u ts)
  have "fh_contains (shiftBloom b (f u)) (bloomPart (f u))"
    unfolding shiftBloom_def by (rule fh_contains_or(2)) (simp add: fh_contains_def)
  hence "fh_contains (foldl (\<lambda>ret t. shiftBloom ret (f t)) (shiftBloom b (f u)) ts) (bloomPart (f u))"
    by (rule foldl_shift_keeps)
  with Cons show ?case by (cases "t = u") simp_all
qed simp

lemma log_entry_bloom_contains:
  "containsBloom (log_entry_bloom sha3 l) (sha3 (hash_bytes (log_address l)))"
  "t \<in> set (log_topics l) \<Longrightarrow> containsBloom (log_entry_bloom sha3 l) (sha3 (hash_bytes t))"
proof -
  have "fh_contains (shiftBloom 0 h) (bloomPart h)" for h by (simp add: shiftBloom_def fh_contains_def)
  thus "containsBloom (log_entry_bloom sha3 l) (sha3 (hash_bytes (log_address l)))"
    unfolding containsBloom_def log_entry_bloom_def by (rule foldl_shift_keeps)
  show "t \<in> set (log_topics l) \<Longrightarrow> containsBloom (log_entry_bloom sha3 l) (sha3 (hash_bytes t))"
    unfolding containsBloom_def log_entry_bloom_def
    by (rule foldl_shift_contains [where f = "\<lambda>t. sha3 (hash_bytes t)"])
qed

lemma foldl_or_contains:
  "fh_contains b c \<Longrightarrow> fh_contains (foldl (\<lambda>ret l. ret OR f l) b ls) c"
  by (induction ls arbitrary: b) (simp_all add: fh_contains_or(1))

lemma logs_bloom_contains:
  "l \<in> set ls \<Longrightarrow> containsBloom (log_entry_bloom sha3 l) h \<Longrightarrow> containsBloom (logs_bloom sha3 ls) h"
proof -
  assume l: "l \<in> set ls" and c: "containsBloom (log_entry_bloom sha3 l) h"
  have "fh_contains (foldl (\<lambda>ret l. ret OR log_entry_bloom sha3 l) b ls) (bloomPart h)" for b
    using l
  proof (induction ls arbitrary: b)
    case (Cons k ls)
    show ?case
    proof (cases "l = k")
      case True
      have "fh_contains (b OR log_entry_bloom sha3 k) (bloomPart h)"
        using c True by (intro fh_contains_or(2)) (simp add: containsBloom_def)
      thus ?thesis by (simp add: foldl_or_contains)
    qed (use Cons in simp)
  qed simp
  thus ?thesis by (simp add: containsBloom_def logs_bloom_def)
qed

end
