(* ===== verification/LogFilter.thy ===== *)
theory LogFilter
  imports ReceiptProofs
begin

text \<open>
  Class \<open>LogFilter\<close> of libethereum: the addresses and topics it asks for are hash sets, given by the
  lists of their elements in the order of iteration. \<open>None\<close> is a read past the end of the topics of an
  entry.
\<close>

record log_filter =
  f_addresses :: "u160 list"
  f_topics :: "u256 list list"
  f_earliest :: u256
  f_latest :: u256

definition filter_new :: "u256 \<Rightarrow> u256 \<Rightarrow> log_filter" where
  "filter_new earliest latest = \<lparr>f_addresses = [], f_topics = [[], [], [], []], f_earliest = earliest, f_latest = latest\<rparr>"

definition filter_address :: "u160 \<Rightarrow> log_filter \<Rightarrow> log_filter" where
  "filter_address a f = f\<lparr>f_addresses := List.insert a (f_addresses f)\<rparr>"

definition filter_topic :: "nat \<Rightarrow> u256 \<Rightarrow> log_filter \<Rightarrow> log_filter" where
  "filter_topic index t f =
     (if index < 4 then f\<lparr>f_topics := (f_topics f)[index := List.insert t (f_topics f ! index)]\<rparr> else f)"

definition withEarliest :: "u256 \<Rightarrow> log_filter \<Rightarrow> log_filter" where "withEarliest e f = f\<lparr>f_earliest := e\<rparr>"
definition withLatest :: "u256 \<Rightarrow> log_filter \<Rightarrow> log_filter" where "withLatest e f = f\<lparr>f_latest := e\<rparr>"

definition isRangeFilter :: "log_filter \<Rightarrow> bool" where
  "isRangeFilter f \<longleftrightarrow> f_addresses f = [] \<and> list_all (\<lambda>t. t = []) (f_topics f)"

text \<open>\<open>streamRLP\<close>: a set and an array are written as lists.\<close>

fun append_addresses :: "u160 list \<Rightarrow> rlp_stream \<Rightarrow> rlp_exn + rlp_stream" where
  "append_addresses [] s = Inr s"
| "append_addresses (a # as) s = bindE (appendHash s a) (append_addresses as)"

fun append_topic_sets :: "u256 list list \<Rightarrow> rlp_stream \<Rightarrow> rlp_exn + rlp_stream" where
  "append_topic_sets [] s = Inr s"
| "append_topic_sets (t # ts) s =
     bindE (appendList s (length t)) (\<lambda>s. bindE (append_hashes t s) (append_topic_sets ts))"

definition filter_streamRLP :: "log_filter \<Rightarrow> rlp_stream \<Rightarrow> rlp_exn + rlp_stream" where
  "filter_streamRLP f s =
     bindE (appendList s 4) (\<lambda>s.
     bindE (appendList s (length (f_addresses f))) (\<lambda>s.
     bindE (append_addresses (f_addresses f) s) (\<lambda>s.
     bindE (appendList s (length (f_topics f))) (\<lambda>s.
     bindE (append_topic_sets (f_topics f) s) (\<lambda>s.
     bindE (appendHash s (f_earliest f)) (\<lambda>s. appendHash s (f_latest f)))))))"

definition filter_sha3 :: "(bytes \<Rightarrow> u256) \<Rightarrow> log_filter \<Rightarrow> rlp_exn + u256" where
  "filter_sha3 sha3 f = bindE (filter_streamRLP f rlp_stream_new) (\<lambda>s. bindE (stream_out s) (\<lambda>d. Inr (sha3 d)))"

section \<open>Matching\<close>

definition filter_matches_bloom :: "(bytes \<Rightarrow> u256) \<Rightarrow> log_filter \<Rightarrow> log_bloom \<Rightarrow> bool" where
  "filter_matches_bloom sha3 f b \<longleftrightarrow>
     (f_addresses f = [] \<or> list_ex (\<lambda>i. containsBloom b (sha3 (hash_bytes i))) (f_addresses f)) \<and>
     list_all (\<lambda>t. t = [] \<or> list_ex (\<lambda>i. containsBloom b (sha3 (hash_bytes i))) t) (f_topics f)"

text \<open>The loop over the four topics of an entry, from \<open>i\<close> on.\<close>

fun topics_match :: "u256 list \<Rightarrow> nat \<Rightarrow> u256 list list \<Rightarrow> bool option" where
  "topics_match topics i [] = Some True"
| "topics_match topics i (t # ts) =
     (if t = [] then topics_match topics (i + 1) ts
      else if length topics < i then Some False
      else if i < length topics
      then (if topics ! i \<notin> set t then Some False else topics_match topics (i + 1) ts)
      else None)"

definition entry_match :: "log_filter \<Rightarrow> log_entry \<Rightarrow> bool option" where
  "entry_match f e =
     (if f_addresses f \<noteq> [] \<and> log_address e \<notin> set (f_addresses f) then Some False
      else topics_match (log_topics e) 0 (f_topics f))"

fun matching_entries :: "log_filter \<Rightarrow> log_entry list \<Rightarrow> log_entry list option" where
  "matching_entries f [] = Some []"
| "matching_entries f (e # es) =
     Option.bind (entry_match f e) (\<lambda>m. Option.bind (matching_entries f es) (\<lambda>r.
       Some (if m then e # r else r)))"

definition filter_matches :: "(bytes \<Rightarrow> u256) \<Rightarrow> log_filter \<Rightarrow> receipt \<Rightarrow> log_entry list option" where
  "filter_matches sha3 f m =
     (if isRangeFilter f then Some (rc_log m)
      else if filter_matches_bloom sha3 f (rc_bloom m) then matching_entries f (rc_log m)
      else Some [])"

text \<open>\<open>bloomPossibilities\<close>, the blooms a search for matching blocks goes through.\<close>

definition topics_bloom :: "(bytes \<Rightarrow> u256) \<Rightarrow> log_bloom \<Rightarrow> u256 list \<Rightarrow> log_bloom" where
  "topics_bloom sha3 b t = foldl (\<lambda>b j. shiftBloom b (sha3 (hash_bytes j))) b t"

definition bloomPossibilities :: "(bytes \<Rightarrow> u256) \<Rightarrow> log_filter \<Rightarrow> log_bloom list" where
  "bloomPossibilities sha3 f =
     (let ret = concat (map (\<lambda>i. map (topics_bloom sha3 (shiftBloom 0 (sha3 (hash_bytes i))))
                 (filter (\<lambda>t. t \<noteq> []) (f_topics f))) (f_addresses f));
          ret = (if ret = [] then map (\<lambda>i. shiftBloom 0 (sha3 (hash_bytes i))) (f_addresses f) else ret) in
      if f_addresses f = [] then ret @ map (topics_bloom sha3 0) (filter (\<lambda>t. t \<noteq> []) (f_topics f)) else ret)"

section \<open>What matching means\<close>

definition entry_wanted :: "log_filter \<Rightarrow> log_entry \<Rightarrow> bool" where
  "entry_wanted f e \<longleftrightarrow> (f_addresses f = [] \<or> log_address e \<in> set (f_addresses f)) \<and>
     (\<forall>i<length (f_topics f). f_topics f ! i = [] \<or>
        i < length (log_topics e) \<and> log_topics e ! i \<in> set (f_topics f ! i))"

text \<open>No position at which the filter asks for a topic is just past the topics of the entry.\<close>

definition no_edge :: "log_filter \<Rightarrow> log_entry \<Rightarrow> bool" where
  "no_edge f e \<longleftrightarrow> (\<forall>i<length (f_topics f). f_topics f ! i \<noteq> [] \<longrightarrow> length (log_topics e) \<noteq> i)"

lemma topics_match_eq:
  assumes "\<forall>k<length ts. ts ! k \<noteq> [] \<longrightarrow> length topics \<noteq> i + k"
  shows "topics_match topics i ts = Some (\<forall>k<length ts. ts ! k = [] \<or>
     i + k < length topics \<and> topics ! (i + k) \<in> set (ts ! k))"
  using assms
proof (induction ts arbitrary: i)
  case (Cons t ts)
  have IH: "topics_match topics (i + 1) ts = Some (\<forall>k<length ts. ts ! k = [] \<or>
     Suc (i + k) < length topics \<and> topics ! Suc (i + k) \<in> set (ts ! k))"
    using Cons.IH [of "i + 1"] Cons.prems by (force simp: nth_Cons')
  have edge: "t \<noteq> [] \<Longrightarrow> length topics \<noteq> i" using Cons.prems by force
  have all: "(\<forall>k<length (t # ts). P k ((t # ts) ! k)) \<longleftrightarrow> P 0 t \<and> (\<forall>k<length ts. P (Suc k) (ts ! k))" for P
    by (simp add: All_less_Suc2)
  show ?case using edge IH unfolding all [of "\<lambda>k u. u = [] \<or> i + k < length topics \<and> topics ! (i + k) \<in> set u"]
    by auto
qed simp

lemma entry_match_eq: "no_edge f e \<Longrightarrow> entry_match f e = Some (entry_wanted f e)"
  using topics_match_eq [of "f_topics f" "log_topics e" 0]
  by (auto simp: no_edge_def entry_match_def entry_wanted_def)

lemma matching_entries_eq: "\<forall>e\<in>set es. no_edge f e \<Longrightarrow> matching_entries f es = Some (filter (entry_wanted f) es)"
  by (induction es) (auto simp: entry_match_eq)

text \<open>An entry the filter wants sets every bit that the filter tests.\<close>

lemma wanted_bloom:
  assumes "e \<in> set ls" "entry_wanted f e"
  shows "filter_matches_bloom sha3 f (logs_bloom sha3 ls)"
proof -
  have a: "f_addresses f = [] \<or> list_ex (\<lambda>i. containsBloom (logs_bloom sha3 ls) (sha3 (hash_bytes i))) (f_addresses f)"
  proof (cases "f_addresses f = []")
    case False
    with assms(2) have "log_address e \<in> set (f_addresses f)" by (simp add: entry_wanted_def)
    with logs_bloom_contains [OF assms(1) log_entry_bloom_contains(1)] show ?thesis by (auto simp: list_ex_iff)
  qed simp
  have "t = [] \<or> list_ex (\<lambda>i. containsBloom (logs_bloom sha3 ls) (sha3 (hash_bytes i))) t"
    if "t \<in> set (f_topics f)" for t
  proof (cases "t = []")
    case False
    from that obtain i where i: "i < length (f_topics f)" "f_topics f ! i = t" by (auto simp: in_set_conv_nth)
    with assms(2) False have "i < length (log_topics e)" "log_topics e ! i \<in> set t" by (auto simp: entry_wanted_def)
    moreover have "containsBloom (logs_bloom sha3 ls) (sha3 (hash_bytes (log_topics e ! i)))"
      by (rule logs_bloom_contains [OF assms(1) log_entry_bloom_contains(2)]) (use calculation in simp)
    ultimately show ?thesis by (auto simp: list_ex_iff)
  qed simp
  with a show ?thesis by (simp add: filter_matches_bloom_def list_all_iff)
qed

lemma filter_matches_eq:
  assumes "rc_bloom m = logs_bloom sha3 (rc_log m)" "\<forall>e\<in>set (rc_log m). no_edge f e"
  shows "filter_matches sha3 f m = Some (filter (entry_wanted f) (rc_log m))"
proof (cases "isRangeFilter f")
  case True
  hence "entry_wanted f e" for e by (auto simp: isRangeFilter_def entry_wanted_def list_all_iff)
  with True show ?thesis by (simp add: filter_matches_def)
next
  case False
  show ?thesis
  proof (cases "filter_matches_bloom sha3 f (rc_bloom m)")
    case True
    with False show ?thesis by (simp add: filter_matches_def matching_entries_eq [OF assms(2)])
  next
    case no: False
    hence "\<forall>e\<in>set (rc_log m). \<not> entry_wanted f e" using wanted_bloom assms(1) by metis
    hence "filter (entry_wanted f) (rc_log m) = []" by (simp add: filter_empty_conv)
    with no False show ?thesis by (simp add: filter_matches_def)
  qed
qed

end
