(* ===== verification/ReceiptProperties.thy ===== *)
theory ReceiptProperties
  imports LogFilter
begin

text \<open>
  Receipts are read back from their encoding, and a log filter yields exactly the entries it asks for;
  then the places where the filter and the secure hashes do not do what they mean to.
\<close>

section \<open>Properties\<close>

text \<open>C22: The encoding of a receipt, with a status code or a state root, is read back field by field,
  log entries and bloom included.\<close>

theorem receipt_roundtrip:
  assumes "item_ok (Lst (receipt_items r))"
  shows "\<exists>d. receipt_rlp r = Inr d \<and> receipt_read d = Some (Inr r)"
  using receipt_rlp_eq [OF assms] receipt_read_enc [OF assms] by blast

definition sample_log :: log_entry where
  "sample_log = \<lparr>log_address = 5, log_topics = [1], log_data = [7]\<rparr>"

definition sample_receipt :: receipt where
  "sample_receipt = \<lparr>rc_statusCodeOrStateRoot = StatusCode 1, rc_gasUsed = 21000, rc_bloom = 3, rc_log = [sample_log]\<rparr>"

theorem receipt_roundtrip_witness:
  "\<exists>d. receipt_rlp sample_receipt = Inr d \<and> receipt_read d = Some (Inr sample_receipt)"
  by (rule receipt_roundtrip)
    (simp add: item_ok_def size_ok_def sample_receipt_def sample_log_def receipt_items_def status_item_def log_item_def
      hash_item_def enc_str_def int_item_def toCompactBigEndian_def enc_header_def bytesRequired.simps)

text \<open>C23: On a receipt that carries the bloom of its own logs, and none of whose entries has exactly as
  many topics as the index of a position at which the filter asks for a topic, the filter yields
  exactly the entries of the addresses and topics it asks for, in their order: the bloom test made
  before the loop over the entries loses none. (On the excluded entries the code reads one past
  the topics; the search over blocks by \<open>bloomPossibilities\<close> is another matter, see below.)\<close>

theorem filter_exact:
  assumes "\<forall>e\<in>set ls. no_edge f e"
  shows "filter_matches sha3 f (receipt_make sha3 st gasUsed ls) = Some (filter (entry_wanted f) ls)"
  using filter_matches_eq [of "receipt_make sha3 st gasUsed ls" sha3 f] assms by (simp add: receipt_make_def)

theorem filter_exact_witness:
  "filter_matches (\<lambda>_. 0) (filter_topic 0 1 (filter_new 0 0)) (receipt_make (\<lambda>_. 0) (StatusCode 1) 21000 [sample_log]) =
     Some [sample_log]"
proof -
  have "\<forall>e\<in>set [sample_log]. no_edge (filter_topic 0 1 (filter_new 0 0)) e"
    by (auto simp: no_edge_def filter_topic_def filter_new_def sample_log_def less_Suc_eq eval_nat_numeral)
  moreover have "entry_wanted (filter_topic 0 1 (filter_new 0 0)) sample_log"
    by (auto simp: entry_wanted_def filter_topic_def filter_new_def sample_log_def less_Suc_eq eval_nat_numeral)
  ultimately show ?thesis using filter_exact [of "[sample_log]" "filter_topic 0 1 (filter_new 0 0)" "\<lambda>_. 0"] by simp
qed

section \<open>Where the code fails\<close>

text \<open>The test \<open>e.topics.size() < i\<close> lets an entry with exactly \<open>i\<close> topics pass on to \<open>e.topics[i]\<close>,
  which is past their end.\<close>

theorem filter_reads_past_topics:
  "entry_match (filter_topic 1 9 (filter_new 0 0)) sample_log = None"
  by (simp add: entry_match_def filter_topic_def filter_new_def sample_log_def)

text \<open>The blooms of \<open>bloomPossibilities\<close> ask for all the alternatives of a topic at once, so that a
  search by them misses blocks with a log that the filter matches.\<close>

definition either_filter :: log_filter where
  "either_filter = filter_topic 0 2 (filter_topic 0 1 (filter_new 0 0))"

theorem bloomPossibilities_miss:
  assumes "\<not> containsBloom (logs_bloom sha3 [sample_log]) (sha3 (hash_bytes (2 :: u256)))"
  shows "entry_wanted either_filter sample_log \<and>
    \<not> list_ex (fh_contains (logs_bloom sha3 [sample_log])) (bloomPossibilities sha3 either_filter)"
proof (intro conjI notI)
  show "entry_wanted either_filter sample_log"
    by (auto simp: entry_wanted_def either_filter_def filter_topic_def filter_new_def sample_log_def
        less_Suc_eq eval_nat_numeral)
  assume "list_ex (fh_contains (logs_bloom sha3 [sample_log])) (bloomPossibilities sha3 either_filter)"
  moreover have "bloomPossibilities sha3 either_filter = [topics_bloom sha3 0 [2, 1]]"
    by (simp add: bloomPossibilities_def either_filter_def filter_topic_def filter_new_def)
  ultimately have "fh_contains (logs_bloom sha3 [sample_log]) (topics_bloom sha3 0 [2, 1])" by simp
  with assms show False
    by (auto simp: topics_bloom_def shiftBloom_def containsBloom_def fh_contains_bits bit_or_iff)
qed

text \<open>\<open>|=\<close> and \<open>&=\<close> of \<open>SecureFixedHash\<close> compute the exclusive or.\<close>

theorem secure_assignments_xor: "secure_or (1 :: u256) 1 = 0" "secure_and (1 :: u256) 1 = 0"
  by (simp_all add: secure_or_def secure_and_def fh_xor_def)

end
