(* ===== verification/Precompiled.thy ===== *)
theory Precompiled
  imports FixedHash
begin

text \<open>
  The precompiled contracts of libethcore/Precompiled.cpp. The hash functions, the recovery of a public
  key and the operations on the curve alt_bn128 are libraries, the record \<open>precompiled_lib\<close>. A
  \<open>bigint\<close> is a natural number; a failed \<open>assert\<close>, which ends the process, is \<open>None\<close>.
\<close>

section \<open>Libraries and results\<close>

type_synonym precompiled_result = "bool \<times> bytes"

record precompiled_lib =
  pl_sha3 :: "bytes \<Rightarrow> u256"
  pl_sha256 :: "bytes \<Rightarrow> u256"
  pl_ripemd160 :: "bytes \<Rightarrow> u160"
  pl_sig_isValid :: "u256 \<Rightarrow> u256 \<Rightarrow> byte \<Rightarrow> bool"
  pl_recover :: "u256 \<Rightarrow> u256 \<Rightarrow> byte \<Rightarrow> u256 \<Rightarrow> bytes option"
  pl_alt_bn128_add :: "bytes \<Rightarrow> precompiled_result"
  pl_alt_bn128_mul :: "bytes \<Rightarrow> precompiled_result"
  pl_alt_bn128_pairing :: "bytes \<Rightarrow> precompiled_result"

text \<open>The structure that the input is copied over is zero where the input is too short.\<close>

definition ecrecover_in :: "bytes \<Rightarrow> nat \<Rightarrow> u256" where
  "ecrecover_in i k =
     (let n = min (length i) 128; m = take n i @ replicate (128 - n) 0 in hash_of_bytes (take 32 (drop (32 * k) m)))"

definition pc_ecrecover :: "precompiled_lib \<Rightarrow> bytes \<Rightarrow> precompiled_result" where
  "pc_ecrecover lib i =
     (let hash = ecrecover_in i 0; v = ecrecover_in i 1; r = ecrecover_in i 2; s = ecrecover_in i 3 in
      if v \<ge> 27 \<and> v \<le> 28 then
        (let w = of_nat (unat v - 27) in
         if pl_sig_isValid lib r s w
         then (case pl_recover lib r s w hash of
                 Some rec \<Rightarrow> (True, replicate 12 0 @ drop 12 (hash_bytes (pl_sha3 lib rec)))
               | None \<Rightarrow> (True, []))
         else (True, []))
      else (True, []))"

definition pc_sha256 :: "precompiled_lib \<Rightarrow> bytes \<Rightarrow> precompiled_result" where
  "pc_sha256 lib i = (True, hash_bytes (pl_sha256 lib i))"

definition pc_ripemd160 :: "precompiled_lib \<Rightarrow> bytes \<Rightarrow> precompiled_result" where
  "pc_ripemd160 lib i = (True, hash_bytes (ucast (pl_ripemd160 lib i) :: u256))"

definition pc_identity :: "bytes \<Rightarrow> precompiled_result" where
  "pc_identity i = (True, i)"

section \<open>Modular exponentiation\<close>

definition size_limit :: nat where "size_limit = (2 ^ 64 - 1) div 8"

text \<open>\<open>parseBigEndianRightPadded\<close>, with its two assertions.\<close>

definition parse_padded :: "bytes \<Rightarrow> nat \<Rightarrow> nat \<Rightarrow> nat option" where
  "parse_padded i begin count =
     (if begin > length i then Some 0
      else if \<not> count \<le> size_limit then None
      else let cropped = take (min count (length i - begin)) (drop begin i) in
        if \<not> count - length cropped \<le> size_limit then None
        else Some (push_bit (8 * (count - length cropped)) (be_value cropped)))"

definition powm :: "nat \<Rightarrow> nat \<Rightarrow> nat \<Rightarrow> nat" where
  "powm b e m = b ^ e mod m"

definition pc_modexp :: "bytes \<Rightarrow> precompiled_result option" where
  "pc_modexp i =
     Option.bind (parse_padded i 0 32) (\<lambda>baseLength.
     Option.bind (parse_padded i 32 32) (\<lambda>expLength.
     Option.bind (parse_padded i 64 32) (\<lambda>modLength.
     if \<not> modLength \<le> size_limit then None
     else if \<not> baseLength \<le> size_limit then None
     else if modLength = 0 \<and> baseLength = 0 then Some (True, [])
     else if \<not> expLength \<le> size_limit then None
     else
     Option.bind (parse_padded i 96 baseLength) (\<lambda>base.
     Option.bind (parse_padded i (96 + baseLength) expLength) (\<lambda>exp.
     Option.bind (parse_padded i (96 + baseLength + expLength) modLength) (\<lambda>md.
       let result = (if md \<noteq> 0 then powm base exp md else 0) in
       Some (True, toBigEndian result modLength)))))))"

text \<open>\<open>msb\<close>, the index of the highest bit of a number that is not zero.\<close>

fun msb_from :: "nat \<Rightarrow> nat \<Rightarrow> nat" where
  "msb_from 0 n = 0"
| "msb_from (Suc k) n = (if n < 2 then 0 else 1 + msb_from k (n div 2))"

definition msb :: "nat \<Rightarrow> nat" where "msb n = msb_from n n"

definition expLengthAdjust :: "nat \<Rightarrow> nat \<Rightarrow> bytes \<Rightarrow> nat option" where
  "expLengthAdjust expOffset expLength i =
     (if expLength \<le> 32
      then Option.bind (parse_padded i expOffset expLength) (\<lambda>exp. Some (if exp \<noteq> 0 then msb exp else 0))
      else Option.bind (parse_padded i expOffset 32) (\<lambda>expFirstWord.
        let highestBit = (if expFirstWord \<noteq> 0 then msb expFirstWord else 0) in
        Some (8 * (expLength - 32) + highestBit)))"

definition multComplexity :: "nat \<Rightarrow> nat" where
  "multComplexity x =
     (if x \<le> 64 then x * x
      else if x \<le> 1024 then (x * x) div 4 + 96 * x - 3072
      else (x * x) div 16 + 480 * x - 199680)"

definition modexp_price :: "bytes \<Rightarrow> nat option" where
  "modexp_price i =
     Option.bind (parse_padded i 0 32) (\<lambda>baseLength.
     Option.bind (parse_padded i 32 32) (\<lambda>expLength.
     Option.bind (parse_padded i 64 32) (\<lambda>modLength.
     let maxLength = max modLength baseLength in
     Option.bind (expLengthAdjust (baseLength + 96) expLength i) (\<lambda>adjustedExpLength.
       Some (multComplexity maxLength * max adjustedExpLength 1 div 20)))))"

section \<open>The curve and the registry\<close>

definition pairing_price :: "bytes \<Rightarrow> nat" where
  "pairing_price i = 100000 + (length i div 192) * 80000"

datatype registrar_exn = ExecutorNotFound | PricerNotFound

definition executor :: "precompiled_lib \<Rightarrow> string \<Rightarrow> registrar_exn + (bytes \<Rightarrow> precompiled_result option)" where
  "executor lib name =
     (case map_of
        [(''ecrecover'', \<lambda>i. Some (pc_ecrecover lib i)), (''sha256'', \<lambda>i. Some (pc_sha256 lib i)),
         (''ripemd160'', \<lambda>i. Some (pc_ripemd160 lib i)), (''identity'', \<lambda>i. Some (pc_identity i)),
         (''modexp'', pc_modexp), (''alt_bn128_G1_add'', \<lambda>i. Some (pl_alt_bn128_add lib i)),
         (''alt_bn128_G1_mul'', \<lambda>i. Some (pl_alt_bn128_mul lib i)),
         (''alt_bn128_pairing_product'', \<lambda>i. Some (pl_alt_bn128_pairing lib i))] name of
        None \<Rightarrow> Inl ExecutorNotFound | Some e \<Rightarrow> Inr e)"

definition pricer :: "string \<Rightarrow> registrar_exn + (bytes \<Rightarrow> nat option)" where
  "pricer name =
     (case map_of [(''modexp'', modexp_price), (''alt_bn128_pairing_product'', \<lambda>i. Some (pairing_price i))] name of
        None \<Rightarrow> Inl PricerNotFound | Some p \<Rightarrow> Inr p)"

section \<open>Properties of the parser\<close>

lemma be_value_zeros: "be_value (xs @ replicate n 0) = be_value xs * 256 ^ n"
proof (induction n)
  case (Suc n)
  have "xs @ replicate (Suc n) 0 = (xs @ replicate n 0) @ [0 :: byte]"
    by (simp add: replicate_append_same)
  with Suc show ?case by (simp only: be_value_snoc) simp
qed simp

text \<open>The bytes asked for, as if the input went on with zeros.\<close>

definition padded :: "bytes \<Rightarrow> nat \<Rightarrow> nat \<Rightarrow> bytes" where
  "padded i begin count = take count (drop begin i) @ replicate (count - length (take count (drop begin i))) 0"

lemma parse_padded_eq:
  assumes "count \<le> size_limit"
  shows "parse_padded i begin count = Some (be_value (padded i begin count))"
proof (cases "begin > length i")
  case True
  with be_value_zeros [of "[]"] show ?thesis by (simp add: parse_padded_def padded_def)
next
  case False
  have t: "take (min count (length i - begin)) (drop begin i) = take count (drop begin i)"
    by (simp add: min_def)
  have p: "push_bit (8 * n) m = m * 256 ^ n" for n m :: nat
    by (simp add: push_bit_eq_mult power_mult)
  show ?thesis using False assms
    by (simp add: parse_padded_def padded_def Let_def t p be_value_zeros)
qed

lemma nth_padded: "k < count \<Longrightarrow> padded i begin count ! k = (if begin + k < length i then i ! (begin + k) else 0)"
  by (auto simp: padded_def nth_append)

lemma length_padded [simp]: "length (padded i begin count) = count"
  by (simp add: padded_def)

lemma padded_zeros: "padded (i @ replicate n 0) begin count = padded i begin count"
  by (rule nth_equalityI) (auto simp: nth_padded nth_append)

lemma parse_padded_zeros:
  "count \<le> size_limit \<Longrightarrow> parse_padded (i @ replicate n 0) begin count = parse_padded i begin count"
  by (simp add: parse_padded_eq padded_zeros)

lemma small_counts [simp]: "32 \<le> size_limit" "n \<le> 32 \<Longrightarrow> n \<le> size_limit"
  by (simp_all add: size_limit_def)

lemma padded_mid: "padded (a @ b @ c) (length a) (length b) = b"
  by (simp add: padded_def)

lemma pc_modexp_zeros: "pc_modexp (i @ replicate n 0) = pc_modexp i"
proof -
  have b: "Option.bind m f = Option.bind m g" if "\<And>x. f x = g x" for m :: "nat option" and f g :: "nat \<Rightarrow> precompiled_result option"
    using that by (cases m) auto
  show ?thesis
    unfolding pc_modexp_def parse_padded_zeros [OF small_counts(1)]
    by (intro b) (simp add: parse_padded_zeros)
qed

lemma modexp_price_zeros: "modexp_price (i @ replicate n 0) = modexp_price i"
proof -
  have "expLengthAdjust a e (i @ replicate n 0) = expLengthAdjust a e i" for a e
    by (cases "e \<le> 32") (simp_all add: expLengthAdjust_def parse_padded_zeros)
  thus ?thesis by (simp add: modexp_price_def parse_padded_zeros)
qed

lemma pc_modexp_eq:
  assumes "length b \<le> size_limit" "length e \<le> size_limit" "length m \<le> size_limit" "b \<noteq> [] \<or> m \<noteq> []"
  shows "pc_modexp (toBigEndian (length b) 32 @ toBigEndian (length e) 32 @ toBigEndian (length m) 32 @ b @ e @ m) =
    Some (True, toBigEndian (if be_value m \<noteq> 0 then be_value b ^ be_value e mod be_value m else 0) (length m))"
    (is "pc_modexp ?i = _")
proof -
  let ?L = "toBigEndian (length b) 32" and ?E = "toBigEndian (length e) 32" and ?M = "toBigEndian (length m) 32"
  have lim: "size_limit < 256 ^ 32" by (simp add: size_limit_def)
  have head: "be_value ?L = length b" "be_value ?E = length e" "be_value ?M = length m"
    using assms(1-3) lim by (simp_all add: be_value_toBigEndian)
  have "padded ?i 0 32 = ?L" using padded_mid [of "[]" ?L] by simp
  moreover have "padded ?i 32 32 = ?E" using padded_mid [of ?L ?E "?M @ b @ e @ m"] by simp
  moreover have "padded ?i 64 32 = ?M" using padded_mid [of "?L @ ?E" ?M "b @ e @ m"] by simp
  moreover have "padded ?i 96 (length b) = b" using padded_mid [of "?L @ ?E @ ?M" b "e @ m"] by simp
  moreover have "padded ?i (96 + length b) (length e) = e" using padded_mid [of "?L @ ?E @ ?M @ b" e m] by simp
  moreover have "padded ?i (96 + length b + length e) (length m) = m"
    using padded_mid [of "?L @ ?E @ ?M @ b @ e" m "[]"] by (simp add: add.assoc)
  ultimately show ?thesis
    using assms head unfolding pc_modexp_def by (auto simp: parse_padded_eq powm_def)
qed

section \<open>The price grows with the lengths\<close>

lemma multComplexity_mono: "x \<le> y \<Longrightarrow> multComplexity x \<le> multComplexity y"
proof -
  assume "x \<le> y"
  have "multComplexity n \<le> multComplexity (Suc n)" for n
  proof -
    have sq: "n * n \<le> Suc n * Suc n" by simp
    consider "n < 64" | "n = 64" | "64 < n" "n < 1024" | "n = 1024" | "1024 < n" by linarith
    thus "multComplexity n \<le> multComplexity (Suc n)"
    proof cases
      case 3
      have "n * n div 4 \<le> Suc n * Suc n div 4" by (rule div_le_mono [OF sq])
      with 3 show ?thesis unfolding multComplexity_def by simp
    next
      case 5
      have "n * n div 16 \<le> Suc n * Suc n div 16" by (rule div_le_mono [OF sq])
      with 5 show ?thesis unfolding multComplexity_def by simp
    qed (use sq in \<open>simp_all add: multComplexity_def\<close>)
  qed
  from lift_Suc_mono_le [of multComplexity, OF this \<open>x \<le> y\<close>] show ?thesis .
qed

end
