(* ===== verification/PrecompiledProperties.thy ===== *)
theory PrecompiledProperties
  imports Precompiled
begin

text \<open>
  What the precompiled contract for modular exponentiation computes, how it treats the end of its
  input, and that its price grows with the lengths it is asked for.
\<close>

text \<open>C24: On the encoding of a base, an exponent and a modulus the contract returns the power modulo the
  modulus, or zero for the modulus zero, in as many bytes as the modulus has.\<close>

theorem modexp_computes:
  assumes "length b \<le> size_limit" "length e \<le> size_limit" "length m \<le> size_limit" "b \<noteq> [] \<or> m \<noteq> []"
  shows "pc_modexp (toBigEndian (length b) 32 @ toBigEndian (length e) 32 @ toBigEndian (length m) 32 @ b @ e @ m) =
    Some (True, toBigEndian (if be_value m \<noteq> 0 then be_value b ^ be_value e mod be_value m else 0) (length m))"
  by (rule pc_modexp_eq [OF assms])

theorem modexp_computes_witness:
  "pc_modexp (toBigEndian 1 32 @ toBigEndian 1 32 @ toBigEndian 1 32 @ [3] @ [5] @ [7]) = Some (True, [5])"
proof -
  have "pc_modexp (toBigEndian (length [3 :: byte]) 32 @ toBigEndian (length [5 :: byte]) 32 @
      toBigEndian (length [7 :: byte]) 32 @ [3] @ [5] @ [7]) =
    Some (True, toBigEndian (if be_value [7] \<noteq> 0 then be_value [3] ^ be_value [5] mod be_value [7] else 0) (length [7 :: byte]))"
    by (rule modexp_computes) (simp_all add: size_limit_def)
  moreover have one: "be_value [b] = unat b" for b :: byte using be_value_snoc [of "[]" b] by simp
  have "toBigEndian (if be_value [7] \<noteq> 0 then be_value [3] ^ be_value [5] mod be_value [7] else 0) 1 = [5]"
    unfolding one by simp
  ultimately show ?thesis by simp
qed

text \<open>C25: An input that ends early is read as if zeros followed: neither the result nor the price of the
  contract changes when zeros are appended, even when the result is a failed assertion.\<close>

theorem modexp_ignores_zeros:
  "pc_modexp (i @ replicate n 0) = pc_modexp i \<and> modexp_price (i @ replicate n 0) = modexp_price i"
  by (simp add: pc_modexp_zeros modexp_price_zeros)

text \<open>The complexity that the price is computed from grows with the length of the operands, across
  both borders of its definition.\<close>

theorem modexp_complexity_mono: "mono multComplexity"
  by (rule monoI) (rule multComplexity_mono)

end
