(* ===== verification/MemoryDB.thy ===== *)
theory MemoryDB
  imports FixedHash
begin

text \<open>
  The database below the tries: class \<open>MemoryDB\<close> of libdevcore/MemoryDB.h and MemoryDB.cpp, a map from
  hashes to nodes with reference counts, and class \<open>OverlayDB\<close> of OverlayDB.h and OverlayDB.cpp, which
  lays it over a LevelDB database. The LevelDB database is external; it is the pair of functions
  \<open>md_disk\<close>, which give what \<open>Get\<close> returns for a hash and for a hash with the suffix of the auxiliary
  entries, empty where there is nothing. A write to it succeeds (after ten failures the code ends the
  process). Operations that only take the lock and read or write are single steps. A count is a
  natural number; the code's \<open>unsigned\<close> would wrap at \<open>2 ^ 32\<close> references to one node.
\<close>

section \<open>State\<close>

record mem_db =
  md_main :: "u256 \<Rightarrow> (bytes \<times> nat) option"
  md_aux :: "u256 \<Rightarrow> (bytes \<times> bool) option"
  md_enforceRefs :: bool
  md_disk :: "((u256 \<Rightarrow> bytes) \<times> (u256 \<Rightarrow> bytes)) option"

definition md_new :: "((u256 \<Rightarrow> bytes) \<times> (u256 \<Rightarrow> bytes)) option \<Rightarrow> mem_db" where
  "md_new disk = \<lparr>md_main = Map.empty, md_aux = Map.empty, md_enforceRefs = False, md_disk = disk\<rparr>"

section \<open>The memory database\<close>

definition md_get :: "mem_db \<Rightarrow> u256 \<Rightarrow> bytes option" where
  "md_get d h = (case md_main d h of
     Some (v, n) \<Rightarrow> if \<not> md_enforceRefs d \<or> n > 0 then Some v else None | None \<Rightarrow> None)"

definition md_lookup :: "u256 \<Rightarrow> mem_db \<Rightarrow> bytes" where
  "md_lookup h d = (case md_main d h of
     Some (v, n) \<Rightarrow> if \<not> md_enforceRefs d \<or> n > 0 then v else [] | None \<Rightarrow> [])"

definition md_exists :: "u256 \<Rightarrow> mem_db \<Rightarrow> bool" where
  "md_exists h d \<longleftrightarrow> (case md_main d h of
     Some (v, n) \<Rightarrow> \<not> md_enforceRefs d \<or> n > 0 | None \<Rightarrow> False)"

definition md_insert :: "u256 \<Rightarrow> bytes \<Rightarrow> mem_db \<Rightarrow> mem_db" where
  "md_insert h v d = d\<lparr>md_main := (md_main d)(h \<mapsto> (v, case md_main d h of Some (_, n) \<Rightarrow> n + 1 | None \<Rightarrow> 1))\<rparr>"

definition md_kill :: "u256 \<Rightarrow> mem_db \<Rightarrow> bool \<times> mem_db" where
  "md_kill h d = (case md_main d h of
     Some (v, n) \<Rightarrow> if n > 0 then (True, d\<lparr>md_main := (md_main d)(h \<mapsto> (v, n - 1))\<rparr>) else (False, d)
   | None \<Rightarrow> (False, d))"

definition md_lookupAux :: "u256 \<Rightarrow> mem_db \<Rightarrow> bytes" where
  "md_lookupAux h d = (case md_aux d h of
     Some (v, b) \<Rightarrow> if \<not> md_enforceRefs d \<or> b then v else [] | None \<Rightarrow> [])"

definition md_removeAux :: "u256 \<Rightarrow> mem_db \<Rightarrow> mem_db" where
  "md_removeAux h d = d\<lparr>md_aux := (md_aux d)(h \<mapsto> (case md_aux d h of Some (v, _) \<Rightarrow> v | None \<Rightarrow> [], False))\<rparr>"

definition md_insertAux :: "u256 \<Rightarrow> bytes \<Rightarrow> mem_db \<Rightarrow> mem_db" where
  "md_insertAux h v d = d\<lparr>md_aux := (md_aux d)(h \<mapsto> (v, True))\<rparr>"

definition md_purge :: "mem_db \<Rightarrow> mem_db" where
  "md_purge d = d\<lparr>md_main := (\<lambda>h. case md_main d h of Some (v, n) \<Rightarrow> if n > 0 then Some (v, n) else None | None \<Rightarrow> None),
     md_aux := (\<lambda>h. case md_aux d h of Some (v, b) \<Rightarrow> if b then Some (v, b) else None | None \<Rightarrow> None)\<rparr>"

definition md_keys :: "mem_db \<Rightarrow> u256 set" where
  "md_keys d = {h. \<exists>v n. md_main d h = Some (v, n) \<and> n > 0}"

definition md_clear :: "mem_db \<Rightarrow> mem_db" where
  "md_clear d = d\<lparr>md_main := Map.empty, md_aux := Map.empty\<rparr>"

text \<open>\<open>operator=\<close>; an assignment to itself changes nothing.\<close>

definition md_assign :: "mem_db \<Rightarrow> mem_db \<Rightarrow> mem_db" where
  "md_assign c d = d\<lparr>md_main := md_main c, md_aux := md_aux c\<rparr>"

section \<open>The overlay\<close>

definition disk_get :: "u256 \<Rightarrow> mem_db \<Rightarrow> bytes" where
  "disk_get h d = (case md_disk d of Some (f, _) \<Rightarrow> f h | None \<Rightarrow> [])"

definition ov_lookup :: "u256 \<Rightarrow> mem_db \<Rightarrow> bytes" where
  "ov_lookup h d = (let ret = md_lookup h d in if ret = [] then disk_get h d else ret)"

definition ov_exists :: "u256 \<Rightarrow> mem_db \<Rightarrow> bool" where
  "ov_exists h d \<longleftrightarrow> md_exists h d \<or> disk_get h d \<noteq> []"

text \<open>\<open>kill\<close>: what it reads from the disk only goes into a message.\<close>

definition ov_kill :: "u256 \<Rightarrow> mem_db \<Rightarrow> mem_db" where
  "ov_kill h d = snd (md_kill h d)"

definition ov_lookupAux :: "u256 \<Rightarrow> mem_db \<Rightarrow> bytes" where
  "ov_lookupAux h d =
     (let ret = md_lookupAux h d in
      if ret \<noteq> [] then ret else case md_disk d of None \<Rightarrow> ret | Some (_, g) \<Rightarrow> g h)"

definition ov_commit :: "mem_db \<Rightarrow> mem_db" where
  "ov_commit d = (case md_disk d of
     None \<Rightarrow> d
   | Some (f, g) \<Rightarrow>
       d\<lparr>md_disk := Some (\<lambda>h. case md_main d h of Some (v, n) \<Rightarrow> if n > 0 then v else f h | None \<Rightarrow> f h,
                          \<lambda>h. case md_aux d h of Some (v, b) \<Rightarrow> if b then v else g h | None \<Rightarrow> g h),
         md_aux := Map.empty, md_main := Map.empty\<rparr>)"

definition ov_rollback :: "mem_db \<Rightarrow> mem_db" where
  "ov_rollback d = d\<lparr>md_main := Map.empty\<rparr>"

text \<open>\<open>EnforceRefs er(db, r)\<close> around a computation: its destructor restores the flag.\<close>

definition enforceRefs :: "bool \<Rightarrow> (mem_db \<Rightarrow> 'a \<times> mem_db) \<Rightarrow> mem_db \<Rightarrow> 'a \<times> mem_db" where
  "enforceRefs r f d = (let (x, d') = f (d\<lparr>md_enforceRefs := r\<rparr>) in (x, d'\<lparr>md_enforceRefs := md_enforceRefs d\<rparr>))"

end
