(* ===== verification/TrieDB.thy ===== *)
theory TrieDB
  imports MemoryDB BlockHeader
begin

text \<open>
  The Merkle Patricia trie over a database, class \<open>GenericTrieDB\<close> of libdevcore/TrieDB.h, with
  \<open>uniqueInUse\<close> of TrieCommon.cpp and the wrappers \<open>HashedGenericTrieDB\<close> and \<open>FatGenericTrieDB\<close>, which
  hash the keys. A trie is its root hash in a database; the operations take the database and return
  it, an exception keeps the database it was thrown with. The hash is the argument \<open>sha3\<close>. A node is the
  bytes of its RLP. \<open>operator[]\<close> is called on a fresh view each time: the cache of a view does
  not change what it returns (\<open>rlp_index_any_order\<close>).

  The recursion goes through the database, which could hold a cycle, so it has fuel, one unit per
  call; the operations start it with one unit per nibble of the key and five more. A failed
  assertion and a read outside a key are the exception \<open>TrieAssertion\<close>. \<open>ETH_DEBUG\<close> is off.
\<close>

datatype trie_exn = TrieRlp rlp_exn | RootNotFound | BadRoot | TrieAssertion | OutOfFuel

type_synonym 'a tdb = "(trie_exn \<times> mem_db) + ('a \<times> mem_db)"

definition td_lift :: "rlp_exn + 'a \<Rightarrow> mem_db \<Rightarrow> 'a tdb" where
  "td_lift r d = (case r of Inl e \<Rightarrow> Inl (TrieRlp e, d) | Inr x \<Rightarrow> Inr (x, d))"

definition td_assert :: "bool \<Rightarrow> mem_db \<Rightarrow> unit tdb" where
  "td_assert b d = (if b then Inr ((), d) else Inl (TrieAssertion, d))"

section \<open>Reading nodes\<close>

definition td_item :: "bytes \<Rightarrow> nat \<Rightarrow> rlp_exn + bytes" where
  "td_item r i = bindE (rlp_index (rlp_view r) i) (\<lambda>(x, _). Inr x)"

definition td_keyOf :: "bytes \<Rightarrow> rlp_exn + nibble_slice" where
  "td_keyOf r = bindE (td_item r 0) (\<lambda>x. bindE (payload x) (\<lambda>p. Inr (keyOf p)))"

text \<open>\<open>isLeaf\<close>, with its assertion.\<close>

definition td_isLeaf :: "bytes \<Rightarrow> mem_db \<Rightarrow> bool tdb" where
  "td_isLeaf r d =
     bindE (td_lift (itemCount r) d) (\<lambda>(n, d).
     bindE (td_assert (isList r \<and> n = 2) d) (\<lambda>(_, d).
     bindE (td_lift (bindE (td_item r 0) payload) d) (\<lambda>(pl, d).
     bindE (td_assert (pl \<noteq> []) d) (\<lambda>(_, d). Inr (hpe_isLeaf pl, d)))))"

definition td_node :: "u256 \<Rightarrow> mem_db \<Rightarrow> bytes tdb" where
  "td_node h d = td_lift (rlp_make (ov_lookup h d) VeryStrict) d"

text \<open>\<open>r.isList() ? r : RLP(node(r.toHash<h256>()))\<close>.\<close>

definition td_child :: "bytes \<Rightarrow> mem_db \<Rightarrow> bytes tdb" where
  "td_child r d = (if isList r then Inr (r, d)
     else bindE (td_lift (readHash r Strict) d) (\<lambda>(h, d). td_node h d))"

text \<open>The assertion that a node is a list of two or seventeen items; the result is their number.\<close>

definition td_count :: "bytes \<Rightarrow> mem_db \<Rightarrow> nat tdb" where
  "td_count r d =
     bindE (td_lift (itemCount r) d) (\<lambda>(n, d).
     bindE (td_assert (isList r \<and> (n = 2 \<or> n = 17)) d) (\<lambda>(_, d). Inr (n, d)))"

fun atAux :: "nat \<Rightarrow> bytes \<Rightarrow> nibble_slice \<Rightarrow> mem_db \<Rightarrow> bytes tdb" where
  "atAux 0 here key d = Inl (OutOfFuel, d)"
| "atAux (Suc f) here key d =
     (if isEmpty here \<or> isNull here then Inr ([], d)
      else bindE (td_count here d) (\<lambda>(n, d).
        if n = 2 then
          bindE (td_lift (td_keyOf here) d) (\<lambda>(k, d).
          bindE (td_isLeaf here d) (\<lambda>(leaf, d).
            if ns_equal key k \<and> leaf
            then bindE (td_lift (td_item here 1) d) (\<lambda>(v, d). td_lift (toBytes v LaissezFaire) d)
            else if ns_contains key k \<and> \<not> leaf
            then bindE (td_lift (td_item here 1) d) (\<lambda>(c, d).
                 bindE (td_child c d) (\<lambda>(c, d). atAux f c (ns_mid key (ns_size k)) d))
            else Inr ([], d)))
        else if ns_size key = 0
        then bindE (td_lift (td_item here 16) d) (\<lambda>(v, d). td_lift (toBytes v LaissezFaire) d)
        else bindE (td_lift (td_item here (unat (ns_at key 0))) d) (\<lambda>(n, d).
          if isEmpty n then Inr ([], d)
          else bindE (td_child n d) (\<lambda>(c, d). atAux f c (ns_mid key 1) d))))"

section \<open>Writing nodes\<close>

fun append_all :: "(rlp_stream \<Rightarrow> rlp_exn + rlp_stream) list \<Rightarrow> rlp_stream \<Rightarrow> rlp_exn + rlp_stream" where
  "append_all [] s = Inr s"
| "append_all (f # fs) s = bindE (f s) (append_all fs)"

definition rlpList :: "(rlp_stream \<Rightarrow> rlp_exn + rlp_stream) list \<Rightarrow> rlp_exn + bytes" where
  "rlpList fs = bindE (appendList rlp_stream_new (length fs)) (\<lambda>s. bindE (append_all fs s) stream_out)"

definition ap_bytes :: "bytes \<Rightarrow> rlp_stream \<Rightarrow> rlp_exn + rlp_stream" where
  "ap_bytes v s = appendBytes s v False"

definition ap_rlp :: "bytes \<Rightarrow> rlp_stream \<Rightarrow> rlp_exn + rlp_stream" where
  "ap_rlp r s = appendRaw s r 1"

text \<open>The items \<open>i\<close> to \<open>i + n - 1\<close> of a node, copied into a stream.\<close>

fun copy_items :: "bytes \<Rightarrow> nat \<Rightarrow> nat \<Rightarrow> rlp_stream \<Rightarrow> rlp_exn + rlp_stream" where
  "copy_items r i 0 s = Inr s"
| "copy_items r i (Suc n) s = bindE (td_item r i) (\<lambda>x. bindE (ap_rlp x s) (copy_items r (i + 1) n))"

definition forceInsertNode :: "(bytes \<Rightarrow> u256) \<Rightarrow> bytes \<Rightarrow> mem_db \<Rightarrow> u256 \<times> mem_db" where
  "forceInsertNode sha3 v d = (let h = sha3 v in (h, md_insert h v d))"

definition forceKillNode :: "u256 \<Rightarrow> mem_db \<Rightarrow> mem_db" where
  "forceKillNode h d = ov_kill h d"

definition killNode :: "bytes \<Rightarrow> u256 \<Rightarrow> mem_db \<Rightarrow> mem_db" where
  "killNode r h d = (if length r \<ge> 32 then forceKillNode h d else d)"

definition streamNode :: "(bytes \<Rightarrow> u256) \<Rightarrow> bytes \<Rightarrow> rlp_stream \<Rightarrow> mem_db \<Rightarrow> rlp_stream tdb" where
  "streamNode sha3 b s d =
     (if length b < 32 then td_lift (appendRaw s b 1) d
      else let (h, d) = forceInsertNode sha3 b d in td_lift (appendHash s h) d)"

definition hpe_slice :: "nibble_slice \<Rightarrow> bool \<Rightarrow> nat \<Rightarrow> int \<Rightarrow> bytes" where
  "hpe_slice k leaf b e = hexPrefixEncode_slice (ns_data k) leaf (int b) e (ns_offset k)"

definition hpe_concat :: "nibble_slice \<Rightarrow> nibble_slice \<Rightarrow> bool \<Rightarrow> bytes" where
  "hpe_concat k l leaf = hexPrefixEncode_concat (ns_data k) (ns_offset k) (ns_data l) (ns_offset l) leaf"

definition place :: "(bytes \<Rightarrow> u256) \<Rightarrow> bytes \<Rightarrow> nibble_slice \<Rightarrow> bytes \<Rightarrow> mem_db \<Rightarrow> bytes tdb" where
  "place sha3 orig k v d =
     (let d = killNode orig (sha3 orig) d in
      if isEmpty orig then td_lift (rlpList [ap_bytes (hpe_slice k True 0 (-1)), ap_bytes v]) d
      else bindE (td_count orig d) (\<lambda>(n, d).
        if n = 2
        then td_lift (bindE (td_item orig 0) (\<lambda>x. rlpList [ap_rlp x, ap_bytes v])) d
        else td_lift (bindE (appendList rlp_stream_new 17) (\<lambda>s.
               bindE (copy_items orig 0 16 s) (\<lambda>s. bindE (ap_bytes v s) stream_out))) d))"

definition cleve :: "(bytes \<Rightarrow> u256) \<Rightarrow> bytes \<Rightarrow> nat \<Rightarrow> mem_db \<Rightarrow> bytes tdb" where
  "cleve sha3 orig s d =
     (let d = killNode orig (sha3 orig) d in
      bindE (td_lift (itemCount orig) d) (\<lambda>(n, d).
      bindE (td_assert (isList orig \<and> n = 2) d) (\<lambda>(_, d).
      bindE (td_lift (td_keyOf orig) d) (\<lambda>(k, d).
      bindE (td_assert (s \<noteq> 0 \<and> s \<le> ns_size k) d) (\<lambda>(_, d).
      bindE (td_isLeaf orig d) (\<lambda>(leaf, d).
      bindE (td_lift (bindE (td_item orig 1) (\<lambda>x.
               rlpList [ap_bytes (hpe_slice k leaf s (-1)), ap_rlp x])) d) (\<lambda>(bottom, d).
      bindE (td_lift (bindE (appendList rlp_stream_new 2) (ap_bytes (hpe_slice k False 0 (int s)))) d) (\<lambda>(top, d).
      bindE (streamNode sha3 bottom top d) (\<lambda>(top, d). td_lift (stream_out top) d)))))))))"

text \<open>\<open>branch\<close>; its loop over the sixteen slots runs up to the one of the first nibble, fills it, and
  goes on.\<close>

definition branch :: "(bytes \<Rightarrow> u256) \<Rightarrow> bytes \<Rightarrow> mem_db \<Rightarrow> bytes tdb" where
  "branch sha3 orig d =
     bindE (td_lift (itemCount orig) d) (\<lambda>(n, d).
     bindE (td_assert (isList orig \<and> n = 2) d) (\<lambda>(_, d).
     let d = killNode orig (sha3 orig) d in
     bindE (td_lift (td_keyOf orig) d) (\<lambda>(k, d).
     bindE (td_isLeaf orig d) (\<lambda>(leaf, d).
     bindE (td_lift (td_item orig 1) d) (\<lambda>(x, d).
     bindE (td_lift (appendList rlp_stream_new 17) d) (\<lambda>(r, d).
     if ns_size k = 0
     then bindE (td_assert leaf d) (\<lambda>(_, d).
          td_lift (bindE (append_all (replicate 16 (ap_bytes [])) r) (\<lambda>r. bindE (ap_rlp x r) stream_out)) d)
     else
       let b = unat (ns_at k 0) in
       bindE (td_lift (append_all (replicate b (ap_bytes [])) r) d) (\<lambda>(r, d).
       bindE (if leaf \<or> ns_size k > 1
              then bindE (td_lift (rlpList [ap_bytes (hpe_slice (ns_mid k 1) leaf 0 (-1)), ap_rlp x]) d)
                     (\<lambda>(c, d). streamNode sha3 c r d)
              else td_lift (ap_rlp x r) d) (\<lambda>(r, d).
         td_lift (bindE (append_all (replicate (16 - (b + 1)) (ap_bytes [])) r) (\<lambda>r.
           bindE (ap_bytes [] r) stream_out)) d))))))))"

section \<open>Insertion\<close>

text \<open>\<open>mergeAtAux\<close>; \<open>rec\<close> is \<open>mergeAt\<close>.\<close>

definition mergeAtAux ::
    "(bytes \<Rightarrow> u256) \<Rightarrow> (bytes \<Rightarrow> u256 \<Rightarrow> nibble_slice \<Rightarrow> bytes \<Rightarrow> bool \<Rightarrow> mem_db \<Rightarrow> bytes tdb) \<Rightarrow>
     rlp_stream \<Rightarrow> bytes \<Rightarrow> nibble_slice \<Rightarrow> bytes \<Rightarrow> mem_db \<Rightarrow> rlp_stream tdb" where
  "mergeAtAux sha3 rec out orig k v d =
     bindE (if \<not> isList orig \<and> \<not> isEmpty orig
            then bindE (td_lift (readHash orig Strict) d) (\<lambda>(h, d).
                 bindE (td_node h d) (\<lambda>(r, d).
                 bindE (td_assert (\<not> isNull r) d) (\<lambda>(_, d). Inr ((r, True), d))))
            else Inr ((orig, False), d)) (\<lambda>((r, isRemovable), d).
     bindE (rec r (sha3 r) k v (\<not> isRemovable) d) (\<lambda>(b, d). streamNode sha3 b out d))"

fun mergeAt ::
    "(bytes \<Rightarrow> u256) \<Rightarrow> nat \<Rightarrow> bytes \<Rightarrow> u256 \<Rightarrow> nibble_slice \<Rightarrow> bytes \<Rightarrow> bool \<Rightarrow> mem_db \<Rightarrow> bytes tdb" where
  "mergeAt sha3 0 orig origHash key v inLine d = Inl (OutOfFuel, d)"
| "mergeAt sha3 (Suc f) orig origHash key v inLine d =
     (if isEmpty orig then place sha3 orig key v d
      else bindE (td_count orig d) (\<lambda>(n, d).
        if n = 2 then
          bindE (td_lift (td_keyOf orig) d) (\<lambda>(k, d).
          bindE (td_isLeaf orig d) (\<lambda>(leaf, d).
            if ns_equal k key \<and> leaf then place sha3 orig key v d
            else if ns_contains key k \<and> \<not> leaf then
              let d = (if \<not> inLine then killNode orig origHash d else d) in
              bindE (td_lift (bindE (appendList rlp_stream_new 2) (\<lambda>s. bindE (td_item orig 0) (\<lambda>x. ap_rlp x s))) d) (\<lambda>(s, d).
              bindE (td_lift (td_item orig 1) d) (\<lambda>(x, d).
              bindE (mergeAtAux sha3 (mergeAt sha3 f) s x (ns_mid key (ns_size k)) v d) (\<lambda>(s, d).
                td_lift (stream_out s) d)))
            else
              let sh = ns_shared key k in
              if sh \<noteq> 0
              then bindE (cleve sha3 orig sh d) (\<lambda>(cleved, d).
                   bindE (td_lift (rlp_make cleved VeryStrict) d) (\<lambda>(r, d).
                     mergeAt sha3 f r (sha3 r) key v True d))
              else bindE (branch sha3 orig d) (\<lambda>(branched, d).
                   bindE (td_lift (rlp_make branched VeryStrict) d) (\<lambda>(r, d).
                     mergeAt sha3 f r (sha3 r) key v True d))))
        else if ns_size key = 0 then place sha3 orig key v d
        else
          let d = (if \<not> inLine then killNode orig origHash d else d); b = unat (ns_at key 0) in
          bindE (td_lift (bindE (appendList rlp_stream_new 17) (copy_items orig 0 b)) d) (\<lambda>(r, d).
          bindE (td_lift (td_item orig b) d) (\<lambda>(x, d).
          bindE (mergeAtAux sha3 (mergeAt sha3 f) r x (ns_mid key 1) v d) (\<lambda>(r, d).
            td_lift (bindE (copy_items orig (b + 1) (17 - (b + 1)) r) stream_out) d)))))"

section \<open>Removal\<close>

text \<open>The loop of \<open>uniqueInUse\<close> over the items from \<open>i\<close> on, of which \<open>n\<close> are left.\<close>

fun unique_loop :: "bytes \<Rightarrow> nat \<Rightarrow> nat \<Rightarrow> nat \<Rightarrow> nat \<Rightarrow> rlp_exn + nat" where
  "unique_loop orig except i 0 used = Inr used"
| "unique_loop orig except i (Suc n) used =
     (if i = except then unique_loop orig except (i + 1) n used
      else bindE (td_item orig i) (\<lambda>x.
        if isEmpty x then unique_loop orig except (i + 1) n used
        else if used = 255 then unique_loop orig except (i + 1) n i
        else Inr 255))"

definition uniqueInUse :: "bytes \<Rightarrow> nat \<Rightarrow> rlp_exn + nat" where
  "uniqueInUse orig except = unique_loop orig except 0 17 255"

definition isTwoItemNode :: "bytes \<Rightarrow> mem_db \<Rightarrow> bool tdb" where
  "isTwoItemNode n d =
     bindE (if isData n
            then bindE (td_lift (readHash n Strict) d) (\<lambda>(h, d).
                 bindE (td_node h d) (\<lambda>(r, d). td_lift (bindE (itemCount r) (\<lambda>c. Inr (c = 2))) d))
            else Inr (False, d)) (\<lambda>(b, d).
       if b then Inr (True, d)
       else if isList n then td_lift (bindE (itemCount n) (\<lambda>c. Inr (c = 2))) d
       else Inr (False, d))"

definition graft :: "bytes \<Rightarrow> mem_db \<Rightarrow> bytes tdb" where
  "graft orig d =
     bindE (td_lift (itemCount orig) d) (\<lambda>(c, d).
     bindE (td_assert (isList orig \<and> c = 2) d) (\<lambda>(_, d).
     bindE (td_lift (td_item orig 1) d) (\<lambda>(x, d).
     bindE (if isList x then Inr (x, d)
            else bindE (td_lift (readHash x Strict) d) (\<lambda>(lh, d).
                 let s = ov_lookup lh d; d = forceKillNode lh d in td_lift (rlp_make s VeryStrict) d)) (\<lambda>(n, d).
     bindE (td_lift (itemCount n) d) (\<lambda>(c, d).
     bindE (td_assert (c = 2) d) (\<lambda>(_, d).
     bindE (td_lift (td_keyOf orig) d) (\<lambda>(k, d).
     bindE (td_lift (td_keyOf n) d) (\<lambda>(l, d).
     bindE (td_isLeaf n d) (\<lambda>(leaf, d).
       td_lift (bindE (td_item n 1) (\<lambda>y. rlpList [ap_bytes (hpe_concat k l leaf), ap_rlp y])) d)))))))))"

definition merge_node :: "bytes \<Rightarrow> nat \<Rightarrow> mem_db \<Rightarrow> bytes tdb" where
  "merge_node orig i d =
     bindE (td_lift (itemCount orig) d) (\<lambda>(c, d).
     bindE (td_assert (isList orig \<and> c = 17) d) (\<lambda>(_, d).
     bindE (td_lift (td_item orig i) d) (\<lambda>(x, d).
     bindE (td_assert (i \<noteq> 16 \<longrightarrow> \<not> isEmpty x) d) (\<lambda>(_, d).
       td_lift (rlpList [ap_bytes (if i \<noteq> 16 then hexPrefixEncode_slice [of_nat i] False 1 2 0
                                   else hexPrefixEncode_vector [] True 0 (-1)), ap_rlp x]) d))))"

text \<open>\<open>deleteAtAux\<close>; \<open>rec\<close> is \<open>deleteAt\<close>, whose empty result says that the key is not there.\<close>

definition deleteAtAux ::
    "(bytes \<Rightarrow> u256) \<Rightarrow> (bytes \<Rightarrow> nibble_slice \<Rightarrow> mem_db \<Rightarrow> bytes tdb) \<Rightarrow>
     rlp_stream \<Rightarrow> bytes \<Rightarrow> nibble_slice \<Rightarrow> mem_db \<Rightarrow> (bool \<times> rlp_stream) tdb" where
  "deleteAtAux sha3 rec out orig k d =
     bindE (if isEmpty orig then Inr ([], d)
            else bindE (td_child orig d) (\<lambda>(r, d). rec r k d)) (\<lambda>(b, d).
     if b = [] then Inr ((False, out), d)
     else bindE (streamNode sha3 b out d) (\<lambda>(s, d). Inr ((True, s), d)))"

text \<open>What a branch with one child left turns into.\<close>

definition rejig :: "bytes \<Rightarrow> nat \<Rightarrow> mem_db \<Rightarrow> bytes tdb" where
  "rejig r used d =
     bindE (td_lift (td_item r used) d) (\<lambda>(x, d).
     bindE (isTwoItemNode x d) (\<lambda>(two, d).
     bindE (merge_node r used d) (\<lambda>(merged, d).
       if two then bindE (td_lift (rlp_make merged VeryStrict) d) (\<lambda>(m, d). graft m d)
       else Inr (merged, d))))"

fun deleteAt :: "(bytes \<Rightarrow> u256) \<Rightarrow> nat \<Rightarrow> bytes \<Rightarrow> nibble_slice \<Rightarrow> mem_db \<Rightarrow> bytes tdb" where
  "deleteAt sha3 0 orig key d = Inl (OutOfFuel, d)"
| "deleteAt sha3 (Suc f) orig key d =
     (if isEmpty orig then Inr ([], d)
      else bindE (td_count orig d) (\<lambda>(n, d).
        if n = 2 then
          bindE (td_lift (td_keyOf orig) d) (\<lambda>(k, d).
          bindE (td_isLeaf orig d) (\<lambda>(leaf, d).
            if ns_equal k key \<and> leaf then Inr ([0x80], killNode orig (sha3 orig) d)
            else if ns_contains key k then
              bindE (td_lift (bindE (appendList rlp_stream_new 2) (\<lambda>s. bindE (td_item orig 0) (\<lambda>x. ap_rlp x s))) d) (\<lambda>(s, d).
              bindE (td_lift (td_item orig 1) d) (\<lambda>(x, d).
              bindE (deleteAtAux sha3 (deleteAt sha3 f) s x (ns_mid key (ns_size k)) d) (\<lambda>((found, s), d).
                if \<not> found then Inr ([], d)
                else let d = killNode orig (sha3 orig) d in
                  bindE (td_lift (bindE (stream_out s) (\<lambda>r. rlp_make r VeryStrict)) d) (\<lambda>(r, d).
                  bindE (td_lift (td_item r 1) d) (\<lambda>(y, d).
                  bindE (isTwoItemNode y d) (\<lambda>(two, d).
                    if two then graft r d else td_lift (stream_out s) d))))))
            else Inr ([], d)))
        else
          bindE (td_lift (td_item orig 16) d) (\<lambda>(val, d).
          if ns_size key = 0 \<and> \<not> isEmpty val then
            let d = killNode orig (sha3 orig) d in
            bindE (td_lift (uniqueInUse orig 16) d) (\<lambda>(used, d).
              if used \<noteq> 255 then rejig orig used d
              else td_lift (bindE (appendList rlp_stream_new 17) (\<lambda>s.
                     bindE (copy_items orig 0 16 s) (\<lambda>s. bindE (ap_bytes [] s) stream_out))) d)
          else
            bindE (td_assert (ns_size key \<noteq> 0) d) (\<lambda>(_, d).
            let b = unat (ns_at key 0) in
            bindE (td_lift (bindE (appendList rlp_stream_new 17) (copy_items orig 0 b)) d) (\<lambda>(r, d).
            bindE (td_lift (td_item orig b) d) (\<lambda>(x, d).
            bindE (deleteAtAux sha3 (deleteAt sha3 f) r x (ns_mid key 1) d) (\<lambda>((found, r), d).
              if \<not> found then Inr ([], d)
              else bindE (td_lift (copy_items orig (b + 1) (17 - (b + 1)) r) d) (\<lambda>(r, d).
                let d = killNode orig (sha3 orig) d in
                bindE (td_lift (stream_out r) d) (\<lambda>(out, d).
                bindE (td_lift (rlp_make out VeryStrict) d) (\<lambda>(rlp, d).
                bindE (td_lift (uniqueInUse rlp 255) d) (\<lambda>(used, d).
                  if used = 255 then Inr (out, d) else rejig rlp used d)))))))))))"

section \<open>The trie\<close>

definition td_fuel :: "bytes \<Rightarrow> nat" where "td_fuel key = 2 * length key + 5"

definition key_slice :: "bytes \<Rightarrow> nibble_slice" where "key_slice key = \<lparr>ns_data = key, ns_offset = 0\<rparr>"

definition trie_at :: "u256 \<Rightarrow> bytes \<Rightarrow> mem_db \<Rightarrow> bytes tdb" where
  "trie_at root key d = bindE (td_node root d) (\<lambda>(r, d). atAux (td_fuel key) r (key_slice key) d)"

text \<open>Insertion and removal give the new root.\<close>

definition trie_insert :: "(bytes \<Rightarrow> u256) \<Rightarrow> u256 \<Rightarrow> bytes \<Rightarrow> bytes \<Rightarrow> mem_db \<Rightarrow> u256 tdb" where
  "trie_insert sha3 root key v d =
     (let rootValue = ov_lookup root d in
      bindE (td_assert (rootValue \<noteq> []) d) (\<lambda>(_, d).
      bindE (td_lift (rlp_make rootValue VeryStrict) d) (\<lambda>(r, d).
      bindE (mergeAt sha3 (td_fuel key) r root (key_slice key) v False d) (\<lambda>(b, d).
      let d = (if length rootValue < 32 then forceKillNode root d else d) in
      Inr (forceInsertNode sha3 b d)))))"

definition trie_remove :: "(bytes \<Rightarrow> u256) \<Rightarrow> u256 \<Rightarrow> bytes \<Rightarrow> mem_db \<Rightarrow> u256 tdb" where
  "trie_remove sha3 root key d =
     (let rv = ov_lookup root d in
      bindE (td_lift (rlp_make rv VeryStrict) d) (\<lambda>(r, d).
      bindE (deleteAt sha3 (td_fuel key) r (key_slice key) d) (\<lambda>(b, d).
      if b \<noteq> []
      then let d = (if length rv < 32 then forceKillNode root d else d) in Inr (forceInsertNode sha3 b d)
      else Inr (root, d))))"

text \<open>\<open>setRoot\<close> with normal verification: \<open>init\<close> inserts the empty node, whose hash is \<open>EmptyTrie\<close>, and
  then finds it.\<close>

definition trie_setRoot :: "(bytes \<Rightarrow> u256) \<Rightarrow> u256 \<Rightarrow> mem_db \<Rightarrow> u256 tdb" where
  "trie_setRoot sha3 root d =
     (let (root, d) = (if root = EmptyTrie sha3 \<and> \<not> ov_exists root d
                       then forceInsertNode sha3 [0x80] d else (root, d)) in
      if ov_lookup root d = [] then Inl (RootNotFound, d) else Inr (root, d))"

definition trie_init :: "(bytes \<Rightarrow> u256) \<Rightarrow> mem_db \<Rightarrow> u256 tdb" where
  "trie_init sha3 d = (let (h, d) = forceInsertNode sha3 [0x80] d in trie_setRoot sha3 h d)"

definition trie_isNull :: "u256 \<Rightarrow> mem_db \<Rightarrow> bool" where
  "trie_isNull root d \<longleftrightarrow> ov_lookup root d = []"

definition trie_isEmpty :: "(bytes \<Rightarrow> u256) \<Rightarrow> u256 \<Rightarrow> mem_db \<Rightarrow> bool" where
  "trie_isEmpty sha3 root d \<longleftrightarrow> root = EmptyTrie sha3 \<and> ov_lookup root d \<noteq> []"

definition trie_root :: "u256 \<Rightarrow> mem_db \<Rightarrow> u256 tdb" where
  "trie_root root d = (if ov_lookup root d = [] then Inl (BadRoot, d) else Inr (root, d))"

definition trie_contains :: "u256 \<Rightarrow> bytes \<Rightarrow> mem_db \<Rightarrow> bool tdb" where
  "trie_contains root key d = bindE (trie_at root key d) (\<lambda>(v, d). Inr (v \<noteq> [], d))"

text \<open>\<open>FatGenericTrieDB\<close>, which the build uses for the state: the keys are hashed, and kept on the side.\<close>

definition fat_at :: "(bytes \<Rightarrow> u256) \<Rightarrow> u256 \<Rightarrow> bytes \<Rightarrow> mem_db \<Rightarrow> bytes tdb" where
  "fat_at sha3 root key = trie_at root (hash_bytes (sha3 key))"

definition fat_contains :: "(bytes \<Rightarrow> u256) \<Rightarrow> u256 \<Rightarrow> bytes \<Rightarrow> mem_db \<Rightarrow> bool tdb" where
  "fat_contains sha3 root key = trie_contains root (hash_bytes (sha3 key))"

definition fat_insert :: "(bytes \<Rightarrow> u256) \<Rightarrow> u256 \<Rightarrow> bytes \<Rightarrow> bytes \<Rightarrow> mem_db \<Rightarrow> u256 tdb" where
  "fat_insert sha3 root key v d =
     bindE (trie_insert sha3 root (hash_bytes (sha3 key)) v d) (\<lambda>(root, d).
       Inr (root, md_insertAux (sha3 key) key d))"

definition fat_remove :: "(bytes \<Rightarrow> u256) \<Rightarrow> u256 \<Rightarrow> bytes \<Rightarrow> mem_db \<Rightarrow> u256 tdb" where
  "fat_remove sha3 root key = trie_remove sha3 root (hash_bytes (sha3 key))"

end
