(* ===== verification/TrieSpec.thy ===== *)
theory TrieSpec
  imports HexPrefix FixedHash "HOL-Library.Multiset"
begin

text \<open>
  The trie as a data structure: the tree that the nodes of a database stand for, insertion and removal
  on it, their meaning as a map from nibble paths to values, the shape they keep, and the encoding of
  a tree as a node. All keys of a trie have the same length, as they have in the node, which hashes
  them; so no branch holds a value.
\<close>

datatype trie = TEmpty | TLeaf bytes bytes | TExt bytes trie | TBranch "trie list"

section \<open>Operations\<close>

lemma size_nth [termination_simp]: "i < length ts \<Longrightarrow> size (ts ! i) < Suc (size_list size ts)"
  by (meson less_Suc_eq_le nth_mem size_list_estimation' order_refl)

fun look :: "trie \<Rightarrow> bytes \<Rightarrow> bytes option" where
  "look TEmpty k = None"
| "look (TLeaf p v) k = (if k = p then Some v else None)"
| "look (TExt p t) k = (if take (length p) k = p then look t (drop (length p) k) else None)"
| "look (TBranch ts) [] = None"
| "look (TBranch ts) (n # k) = (if unat n < length ts then look (ts ! unat n) k else None)"

definition no_kids :: "trie list" where "no_kids = replicate 16 TEmpty"

text \<open>A path that is left over, in front of a tree, and two paths that part after \<open>s\<close> nibbles.\<close>

definition cut :: "bytes \<Rightarrow> trie \<Rightarrow> trie" where
  "cut p t = (if p = [] then t else TExt p t)"

definition fork :: "nat \<Rightarrow> bytes \<Rightarrow> trie \<Rightarrow> bytes \<Rightarrow> bytes \<Rightarrow> trie" where
  "fork s p t k v = cut (take s p)
     (TBranch (no_kids[unat (p ! s) := t, unat (k ! s) := TLeaf (drop (Suc s) k) v]))"

fun ins :: "trie \<Rightarrow> bytes \<Rightarrow> bytes \<Rightarrow> trie" where
  "ins TEmpty k v = TLeaf k v"
| "ins (TLeaf p w) k v = (if p = k then TLeaf k v
     else let s = commonPrefix k p in fork s p (TLeaf (drop (Suc s) p) w) k v)"
| "ins (TExt p t) k v = (if take (length p) k = p then TExt p (ins t (drop (length p) k) v)
     else let s = commonPrefix k p in fork s p (cut (drop (Suc s) p) t) k v)"
| "ins (TBranch ts) k v = (if unat (hd k) < length ts
     then TBranch (ts[unat (hd k) := ins (ts ! unat (hd k)) (tl k) v]) else TBranch ts)"

text \<open>A path in front of a tree, joined with the path the tree starts with; a branch with one child.\<close>

fun glue :: "bytes \<Rightarrow> trie \<Rightarrow> trie" where
  "glue p TEmpty = TEmpty"
| "glue p (TLeaf q v) = TLeaf (p @ q) v"
| "glue p (TExt q t) = TExt (p @ q) t"
| "glue p (TBranch ts) = TExt p (TBranch ts)"

definition used_kids :: "trie list \<Rightarrow> nat list" where
  "used_kids ts = filter (\<lambda>i. ts ! i \<noteq> TEmpty) [0..<length ts]"

definition shrink :: "trie list \<Rightarrow> trie" where
  "shrink ts = (case used_kids ts of [i] \<Rightarrow> glue [of_nat i] (ts ! i) | _ \<Rightarrow> TBranch ts)"

fun del :: "trie \<Rightarrow> bytes \<Rightarrow> trie option" where
  "del TEmpty k = None"
| "del (TLeaf p v) k = (if p = k then Some TEmpty else None)"
| "del (TExt p t) k = (if take (length p) k = p
     then map_option (glue p) (del t (drop (length p) k)) else None)"
| "del (TBranch ts) k = (if k \<noteq> [] \<and> unat (hd k) < length ts
     then map_option (\<lambda>t. shrink (ts[unat (hd k) := t])) (del (ts ! unat (hd k)) (tl k)) else None)"

section \<open>Shape\<close>

text \<open>Any tree of the depth \<open>n\<close>, then the ones that the operations keep: an extension leads to a branch,
  and a branch has two children.\<close>

fun t_wf :: "nat \<Rightarrow> trie \<Rightarrow> bool" where
  "t_wf n TEmpty = True"
| "t_wf n (TLeaf p v) = (length p = n \<and> list_all is_nibble p \<and> length v < 2 ^ 60)"
| "t_wf n (TExt p t) = (p \<noteq> [] \<and> length p \<le> n \<and> list_all is_nibble p \<and> t \<noteq> TEmpty \<and> t_wf (n - length p) t)"
| "t_wf n (TBranch ts) = (0 < n \<and> length ts = 16 \<and> (\<forall>t\<in>set ts. t_wf (n - 1) t))"

fun is_branch :: "trie \<Rightarrow> bool" where
  "is_branch (TBranch ts) = True"
| "is_branch t = False"

fun lean :: "trie \<Rightarrow> bool" where
  "lean TEmpty = True"
| "lean (TLeaf p v) = True"
| "lean (TExt p t) = (is_branch t \<and> lean t)"
| "lean (TBranch ts) = ((\<forall>t\<in>set ts. lean t) \<and> 2 \<le> length (used_kids ts))"

definition t_ok :: "nat \<Rightarrow> trie \<Rightarrow> bool" where
  "t_ok n t \<longleftrightarrow> t_wf n t \<and> lean t"

definition path_ok :: "nat \<Rightarrow> bytes \<Rightarrow> bool" where
  "path_ok n k \<longleftrightarrow> length k = n \<and> list_all is_nibble k"

lemma unat_nibble: "is_nibble n \<Longrightarrow> unat n < 16"
  by (simp add: is_nibble_def word_less_nat_alt)

lemma path_ok_hd: "path_ok n k \<Longrightarrow> 0 < n \<Longrightarrow> unat (hd k) < 16 \<and> path_ok (n - 1) (tl k)"
  by (cases k) (auto simp: path_ok_def unat_nibble)

lemma path_ok_drop: "path_ok n k \<Longrightarrow> m \<le> n \<Longrightarrow> path_ok (n - m) (drop m k)"
  by (auto simp: path_ok_def list_all_iff dest: in_set_dropD)

lemma path_ok_nth: "path_ok n k \<Longrightarrow> i < n \<Longrightarrow> unat (k ! i) < 16"
  by (simp add: path_ok_def list_all_length unat_nibble)

lemma length_no_kids [simp]: "length no_kids = 16" by (simp add: no_kids_def)

lemma nth_no_kids [simp]: "i < 16 \<Longrightarrow> no_kids ! i = TEmpty" by (simp add: no_kids_def)

lemma used_kids_iff: "i \<in> set (used_kids ts) \<longleftrightarrow> i < length ts \<and> ts ! i \<noteq> TEmpty"
  by (auto simp: used_kids_def)

lemma distinct_used_kids [simp]: "distinct (used_kids ts)"
  by (simp add: used_kids_def)

lemma two_used:
  assumes "i < length ts" "j < length ts" "i \<noteq> j" "ts ! i \<noteq> TEmpty" "ts ! j \<noteq> TEmpty"
  shows "2 \<le> length (used_kids ts)"
proof -
  have "card {i, j} \<le> card (set (used_kids ts))"
    by (rule card_mono) (use assms in \<open>auto simp: used_kids_iff\<close>)
  thus ?thesis using assms(3) by (simp add: distinct_card)
qed

section \<open>Where paths part\<close>

lemma commonPrefix_differ:
  assumes "commonPrefix k p < length k" "commonPrefix k p < length p"
  shows "k ! commonPrefix k p \<noteq> p ! commonPrefix k p"
proof
  let ?s = "commonPrefix k p"
  assume "k ! ?s = p ! ?s"
  with assms have "take (Suc ?s) k = take (Suc ?s) p"
    using commonPrefix_take [of k p] by (simp only: take_Suc_conv_app_nth)
  from commonPrefix_maximal [OF this] assms show False by simp
qed

lemma commonPrefix_short:
  assumes "take (length p) k \<noteq> p" "length p \<le> length k"
  shows "commonPrefix k p < length p"
proof (rule ccontr)
  assume "\<not> commonPrefix k p < length p"
  with commonPrefix_le(2) [of k p] have "commonPrefix k p = length p" by simp
  with commonPrefix_take [of k p] assms(1) show False by simp
qed

lemma unat_nth_differ:
  assumes "commonPrefix k p < length p" "length p \<le> length k"
  shows "unat (k ! commonPrefix k p) \<noteq> unat (p ! commonPrefix k p)"
  using commonPrefix_differ [of k p] assms by (metis le_trans linorder_not_less word_unat_eq_iff)

section \<open>The operations keep the shape\<close>

lemma cut_wf: "t_wf (n - length p) t \<Longrightarrow> length p \<le> n \<Longrightarrow> list_all is_nibble p \<Longrightarrow> t \<noteq> TEmpty \<Longrightarrow> t_wf n (cut p t)"
  by (cases p) (simp_all add: cut_def)

lemma cut_lean: "lean t \<Longrightarrow> is_branch t \<Longrightarrow> lean (cut p t)"
  by (simp add: cut_def)

lemma cut_not_empty [simp]: "t \<noteq> TEmpty \<Longrightarrow> cut p t \<noteq> TEmpty"
  by (simp add: cut_def)

lemma fork_kids: "u \<in> set (no_kids[i := t, j := l]) \<Longrightarrow> u = TEmpty \<or> u = t \<or> u = l"
  using set_update_subset_insert [of "no_kids[i := t]" j l] set_update_subset_insert [of no_kids i t]
  by (auto simp: no_kids_def)

lemma fork_ok:
  assumes k: "path_ok n k" and p: "list_all is_nibble p" "length p \<le> n"
    and s: "s < length p" "k ! s \<noteq> p ! s" and t: "t_ok (n - Suc s) t" "t \<noteq> TEmpty" and v: "length v < 2 ^ 60"
  shows "t_ok n (fork s p t k v)" "fork s p t k v \<noteq> TEmpty"
proof -
  let ?i = "unat (p ! s)" and ?j = "unat (k ! s)"
  let ?ts = "no_kids[?i := t, ?j := TLeaf (drop (Suc s) k) v]"
  have i: "?i < 16" using p s by (simp add: list_all_length unat_nibble)
  have j: "?j < 16" using path_ok_nth [OF k] s p by simp
  have ij: "?i \<noteq> ?j" using s(2) by (metis word_unat_eq_iff)
  have leaf: "t_wf (n - Suc s) (TLeaf (drop (Suc s) k) v)"
    using path_ok_drop [OF k, of "Suc s"] s p v by (simp add: path_ok_def)
  have "t_wf (n - s - 1) u" if "u \<in> set ?ts" for u
    using fork_kids [OF that] leaf t by (auto simp: t_ok_def)
  hence wf: "t_wf (n - s) (TBranch ?ts)" using s p by simp
  have "lean u" if "u \<in> set ?ts" for u
    using fork_kids [OF that] t by (auto simp: t_ok_def)
  moreover have "2 \<le> length (used_kids ?ts)"
    by (rule two_used [of ?i _ ?j]) (use i j ij t in \<open>simp_all add: nth_list_update\<close>)
  ultimately have ln: "lean (TBranch ?ts)" by simp
  have "list_all is_nibble (take s p)" using p by (auto simp: list_all_iff dest: in_set_takeD)
  with wf ln s p show "t_ok n (fork s p t k v)"
    by (auto simp: fork_def t_ok_def intro!: cut_wf cut_lean)
  show "fork s p t k v \<noteq> TEmpty" by (simp add: fork_def cut_def)
qed

lemma ins_not_empty: "t_wf n t \<Longrightarrow> path_ok n k \<Longrightarrow> ins t k v \<noteq> TEmpty"
  by (cases t) (auto simp: fork_def cut_def Let_def)

lemma ins_branch: "is_branch t \<Longrightarrow> is_branch (ins t k v)"
  by (cases t) auto

lemma list_all_drop: "list_all P xs \<Longrightarrow> list_all P (drop n xs)"
  by (auto simp: list_all_iff dest: in_set_dropD)

lemma ins_ok: "t_ok n t \<Longrightarrow> path_ok n k \<Longrightarrow> length v < 2 ^ 60 \<Longrightarrow> t_ok n (ins t k v)"
proof (induction t k v arbitrary: n rule: ins.induct)
  case (1 k v)
  then show ?case by (auto simp: t_ok_def path_ok_def)
next
  case (2 p w k v)
  show ?case
  proof (cases "p = k")
    case False
    let ?s = "commonPrefix k p"
    have len: "length p = n" "length k = n" using 2 by (auto simp: t_ok_def path_ok_def)
    have s: "?s < length p" using commonPrefix_short [of p k] False len by auto
    have d: "k ! ?s \<noteq> p ! ?s" using commonPrefix_differ [of k p] s len by simp
    have "t_ok (n - Suc ?s) (TLeaf (drop (Suc ?s) p) w)"
      using 2 len s by (auto simp: t_ok_def list_all_drop)
    with fork_ok [OF "2.prems"(2) _ _ s d, of "TLeaf (drop (Suc ?s) p) w" v] 2 False len
    show ?thesis by (auto simp: t_ok_def Let_def)
  qed (use 2 in \<open>auto simp: t_ok_def path_ok_def\<close>)
next
  case (3 p t k v)
  have p: "p \<noteq> []" "length p \<le> n" "list_all is_nibble p" "t \<noteq> TEmpty" "t_ok (n - length p) t" "is_branch t"
    using 3 by (auto simp: t_ok_def)
  have len: "length k = n" using 3 by (simp add: path_ok_def)
  show ?case
  proof (cases "take (length p) k = p")
    case True
    from "3.IH" [OF True p(5) path_ok_drop [OF "3.prems"(2) p(2)] "3.prems"(3)] p True
      ins_not_empty path_ok_drop [OF "3.prems"(2) p(2)] ins_branch [of t]
    show ?thesis by (auto simp: t_ok_def)
  next
    case False
    let ?s = "commonPrefix k p"
    have s: "?s < length p" using commonPrefix_short [OF False] p len by simp
    have d: "k ! ?s \<noteq> p ! ?s" using commonPrefix_differ [of k p] s p len by simp
    have "n - Suc ?s - length (drop (Suc ?s) p) = n - length p" using s p by simp
    hence "t_ok (n - Suc ?s) (cut (drop (Suc ?s) p) t)"
      using p s by (auto simp: t_ok_def list_all_drop intro!: cut_wf cut_lean)
    with fork_ok [OF "3.prems"(2) p(3,2) s d this _ "3.prems"(3)] False p show ?thesis by (simp add: Let_def)
  qed
next
  case (4 ts k v)
  have n: "0 < n" "length ts = 16" using 4 by (auto simp: t_ok_def)
  from path_ok_hd [OF "4.prems"(2) n(1)] have h: "unat (hd k) < 16" "path_ok (n - 1) (tl k)" by auto
  let ?i = "unat (hd k)" and ?t = "ins (ts ! unat (hd k)) (tl k) v"
  have c: "t_ok (n - 1) (ts ! ?i)" using 4 h n by (auto simp: t_ok_def)
  from "4.IH" [OF _ c h(2) "4.prems"(3)] h n have t: "t_ok (n - 1) ?t" by simp
  have all: "t_ok (n - 1) u" if "u \<in> set (ts[?i := ?t])" for u
  proof -
    from that set_update_subset_insert have "u \<in> insert ?t (set ts)" by (metis subsetD)
    with t 4 show ?thesis by (auto simp: t_ok_def)
  qed
  have "?t \<noteq> TEmpty" using ins_not_empty c h(2) by (auto simp: t_ok_def)
  hence "set (used_kids ts) \<subseteq> set (used_kids (ts[?i := ?t]))"
    using h(1) n(2) by (auto simp: used_kids_iff nth_list_update)
  hence "length (used_kids ts) \<le> length (used_kids (ts[?i := ?t]))"
    by (metis card_mono distinct_card distinct_used_kids finite_set)
  with all n h 4 show ?case by (auto simp: t_ok_def)
qed

lemma glue_not_empty [simp]: "glue p t = TEmpty \<longleftrightarrow> t = TEmpty"
  by (cases t) auto

lemma glue_ok:
  assumes "t_ok (n - length p) t" "t \<noteq> TEmpty" "p \<noteq> []" "length p \<le> n" "list_all is_nibble p"
  shows "t_ok n (glue p t)"
  using assms by (cases t) (auto simp: t_ok_def)

lemma nibble_of_nat: "i < 16 \<Longrightarrow> is_nibble (of_nat i)"
  by (simp add: is_nibble_def word_less_nat_alt)

lemma shrink_ok:
  assumes "0 < n" "length ts = 16" "\<forall>t\<in>set ts. t_ok (n - 1) t" "used_kids ts \<noteq> []"
  shows "t_ok n (shrink ts)" "shrink ts \<noteq> TEmpty"
proof -
  obtain i js where u: "used_kids ts = i # js" using assms(4) by (cases "used_kids ts") auto
  hence i: "i < 16" "ts ! i \<noteq> TEmpty" using used_kids_iff [of i ts] assms(2) by auto
  have "t_ok n (shrink ts) \<and> shrink ts \<noteq> TEmpty"
  proof (cases js)
    case Nil
    have "t_ok n (glue [of_nat i] (ts ! i))"
      by (rule glue_ok) (use assms i in \<open>auto simp: nibble_of_nat\<close>)
    with u Nil i show ?thesis by (simp add: shrink_def)
  next
    case (Cons j js')
    with u assms show ?thesis by (auto simp: shrink_def t_ok_def)
  qed
  thus "t_ok n (shrink ts)" "shrink ts \<noteq> TEmpty" by simp_all
qed

lemma used_left:
  assumes "2 \<le> length (used_kids ts)"
  shows "used_kids (ts[i := t]) \<noteq> []"
proof -
  have "card (set (used_kids ts)) = length (used_kids ts)" by (simp add: distinct_card)
  with assms have "\<not> set (used_kids ts) \<subseteq> {i}" using card_mono [of "{i}" "set (used_kids ts)"] by auto
  then obtain j where "j \<in> set (used_kids ts)" "j \<noteq> i" by auto
  hence "j \<in> set (used_kids (ts[i := t]))" by (simp add: used_kids_iff)
  thus ?thesis by auto
qed

lemma del_ok:
  "t_ok n t \<Longrightarrow> path_ok n k \<Longrightarrow> del t k = Some t' \<Longrightarrow> t_ok n t' \<and> (is_branch t \<longrightarrow> t' \<noteq> TEmpty)"
proof (induction t k arbitrary: n t' rule: del.induct)
  case (3 p t k)
  have p: "p \<noteq> []" "length p \<le> n" "list_all is_nibble p" "t \<noteq> TEmpty" "t_ok (n - length p) t" "is_branch t"
    using 3 by (auto simp: t_ok_def)
  from 3 obtain u where u: "take (length p) k = p" "del t (drop (length p) k) = Some u" "t' = glue p u"
    by (auto split: if_splits)
  from "3.IH" [OF u(1) p(5) path_ok_drop [OF "3.prems"(2) p(2)] u(2)] p u glue_ok show ?case by auto
next
  case (4 ts k)
  have n: "0 < n" "length ts = 16" "\<forall>t\<in>set ts. t_ok (n - 1) t" "2 \<le> length (used_kids ts)"
    using 4 by (auto simp: t_ok_def)
  let ?i = "unat (hd k)"
  from 4 obtain u where u: "k \<noteq> []" "?i < length ts" "del (ts ! ?i) (tl k) = Some u" "t' = shrink (ts[?i := u])"
    by (auto split: if_splits)
  have "t_ok (n - 1) (ts ! ?i)" using n u by simp
  from "4.IH" [OF _ this _ u(3)] u path_ok_hd [OF "4.prems"(2) n(1)] have "t_ok (n - 1) u" by simp
  hence "\<forall>t\<in>set (ts[?i := u]). t_ok (n - 1) t"
    using n(3) set_update_subset_insert [of ts ?i u] by (metis insertE subsetD)
  with shrink_ok [OF n(1), of "ts[?i := u]"] used_left [OF n(4), of ?i u] n u show ?case by simp
qed (auto simp: t_ok_def split: if_splits)

section \<open>The operations on the map a trie stands for\<close>

lemma look_cut: "look (cut p t) k = (if take (length p) k = p then look t (drop (length p) k) else None)"
  by (simp add: cut_def)

lemma look_glue: "look (glue p t) k = (if take (length p) k = p then look t (drop (length p) k) else None)"
proof (cases t)
  case (TLeaf q v)
  have "k = p @ q \<longleftrightarrow> take (length p) k = p \<and> drop (length p) k = q"
    by (metis append_eq_conv_conj append_take_drop_id)
  with TLeaf show ?thesis by auto
next
  case (TExt q u)
  have "take (length p + length q) k = p @ q \<longleftrightarrow> take (length p) k = p \<and> take (length q) (drop (length p) k) = q"
  proof (cases "length p \<le> length k")
    case False
    hence "take (length p + length q) k \<noteq> p @ q" "take (length p) k \<noteq> p" using arg_cong [of _ _ length] by fastforce+
    thus ?thesis by simp
  qed (simp add: take_add)
  with TExt show ?thesis by (simp add: add.commute)
qed auto

lemma look_no_kids: "look (TBranch (no_kids[i := t, j := l])) (n # k) =
  (if unat n < 16 then if unat n = j then look l k else if unat n = i then look t k else None else None)"
  by (simp add: nth_list_update)

lemma look_fork:
  assumes "take s k = take s p" "k ! s \<noteq> p ! s" "s < length p" "length k' = length k" "s < length k"
    "unat (k ! s) < 16" "unat (p ! s) < 16"
  shows "look (fork s p t k v) k' = (if k' = k then Some v
     else if take (Suc s) k' = take (Suc s) p then look t (drop (Suc s) k') else None)"
proof (cases "take s k' = take s p")
  case True
  have d: "drop s k' = k' ! s # drop (Suc s) k'" using assms by (simp add: Cons_nth_drop_Suc)
  have ks: "k = take s k @ k ! s # drop (Suc s) k" "k' = take s k' @ k' ! s # drop (Suc s) k'"
    using assms id_take_nth_drop by metis+
  have eq: "k' = k \<longleftrightarrow> k' ! s = k ! s \<and> drop (Suc s) k' = drop (Suc s) k"
    by (metis True assms(1) ks)
  have pre: "take (Suc s) k' = take (Suc s) p \<longleftrightarrow> k' ! s = p ! s"
    using True assms by (simp add: take_Suc_conv_app_nth)
  show ?thesis
    using True assms
    by (auto simp: fork_def look_cut d nth_list_update eq pre min_def word_unat_eq_iff)
next
  case False
  have "k' \<noteq> k" using False assms by auto
  moreover have "take (Suc s) k' \<noteq> take (Suc s) p"
  proof
    assume "take (Suc s) k' = take (Suc s) p"
    hence "take s (take (Suc s) k') = take s (take (Suc s) p)" by simp
    with False show False by (simp add: min_def)
  qed
  ultimately show ?thesis using False assms by (simp add: fork_def look_cut min_def)
qed

lemma look_ins:
  "t_wf n t \<Longrightarrow> path_ok n k \<Longrightarrow> length k' = n \<Longrightarrow> look (ins t k v) k' = (if k' = k then Some v else look t k')"
proof (induction t k v arbitrary: n k' rule: ins.induct)
  case (2 p w k v)
  show ?case
  proof (cases "p = k")
    case False
    let ?s = "commonPrefix k p"
    have len: "length p = n" "length k = n" using 2 by (auto simp: path_ok_def)
    have s: "?s < length p" using commonPrefix_short [of p k] False len by auto
    have d: "k ! ?s \<noteq> p ! ?s" using commonPrefix_differ [of k p] s len by simp
    have nib: "unat (k ! ?s) < 16" "unat (p ! ?s) < 16"
      using path_ok_nth [OF "2.prems"(2)] path_ok_nth [of n p] "2.prems"(1) s len by (auto simp: path_ok_def)
    have "take (Suc ?s) k' = take (Suc ?s) p \<and> drop (Suc ?s) k' = drop (Suc ?s) p \<longleftrightarrow> k' = p"
      by (metis append_take_drop_id)
    with look_fork [OF commonPrefix_take d s _ _ nib, of k' "TLeaf (drop (Suc ?s) p) w" v] False len "2.prems"(3)
      s show ?thesis by (auto simp: Let_def)
  qed auto
next
  case (3 p t k v)
  have p: "p \<noteq> []" "length p \<le> n" "list_all is_nibble p" "t_wf (n - length p) t" using 3 by auto
  have len: "length k = n" using 3 by (simp add: path_ok_def)
  show ?case
  proof (cases "take (length p) k = p")
    case True
    have e: "k' = k \<longleftrightarrow> take (length p) k' = p \<and> drop (length p) k' = drop (length p) k"
      by (metis True append_take_drop_id)
    from "3.IH" [OF True p(4) path_ok_drop [OF "3.prems"(2) p(2)], of "drop (length p) k'"] True "3.prems"(3)
    show ?thesis by (auto simp: e)
  next
    case False
    let ?s = "commonPrefix k p"
    have s: "?s < length p" using commonPrefix_short [OF False] p len by simp
    have d: "k ! ?s \<noteq> p ! ?s" using commonPrefix_differ [of k p] s p len by simp
    have nib: "unat (k ! ?s) < 16" "unat (p ! ?s) < 16"
      using path_ok_nth [OF "3.prems"(2)] p(3) s p(2) by (auto simp: list_all_length unat_nibble)
    have e: "take (length p) k' = p \<longleftrightarrow> take (Suc ?s) k' = take (Suc ?s) p \<and>
        take (length (drop (Suc ?s) p)) (drop (Suc ?s) k') = drop (Suc ?s) p"
    proof -
      have "length p = Suc ?s + length (drop (Suc ?s) p)" using s by simp
      hence "take (length p) k' = take (Suc ?s) k' @ take (length (drop (Suc ?s) p)) (drop (Suc ?s) k')"
        by (metis take_add)
      moreover have "p = take (Suc ?s) p @ drop (Suc ?s) p" by simp
      moreover have "length (take (Suc ?s) k') = length (take (Suc ?s) p)" using s p len "3.prems"(3) by simp
      ultimately show ?thesis by (metis append_eq_append_conv)
    qed
    have l: "drop (length (drop (Suc ?s) p)) (drop (Suc ?s) k') = drop (length p) k'"
      using s p(1) by (simp add: Suc_diff_Suc)
    have "look (cut (drop (Suc ?s) p) t) (drop (Suc ?s) k') =
        (if take (length (drop (Suc ?s) p)) (drop (Suc ?s) k') = drop (Suc ?s) p then look t (drop (length p) k') else None)"
      unfolding look_cut l by (rule refl)
    moreover have "k' = k \<Longrightarrow> take (length p) k' \<noteq> p" using False by simp
    ultimately show ?thesis
      using look_fork [OF commonPrefix_take d s _ _ nib, of k' "cut (drop (Suc ?s) p) t" v] False e len p s "3.prems"(3)
      by (auto simp: Let_def)
  qed
next
  case (4 ts k v)
  have n: "0 < n" "length ts = 16" using 4 by auto
  from path_ok_hd [OF "4.prems"(2) n(1)] have h: "unat (hd k) < 16" "path_ok (n - 1) (tl k)" by auto
  obtain a r where k: "k = a # r" using n 4 by (cases k) (auto simp: path_ok_def)
  obtain b r' where k': "k' = b # r'" using n 4 by (cases k') auto
  have c: "t_wf (n - 1) (ts ! unat (hd k))" using 4 h n by auto
  from "4.IH" [OF _ c h(2), of r'] h n k k' "4.prems"(3) show ?case
    by (auto simp: nth_list_update word_unat_eq_iff)
qed auto

lemma look_shrink:
  assumes "length ts = 16" "k \<noteq> []"
  shows "look (shrink ts) k = look (TBranch ts) k"
proof (cases "\<exists>i. used_kids ts = [i]")
  case True
  then obtain i where u: "used_kids ts = [i]" by auto
  have i: "i < 16" using used_kids_iff [of i ts] u assms by auto
  have other: "ts ! j = TEmpty" if "j < 16" "j \<noteq> i" for j
    using used_kids_iff [of j ts] u assms that by auto
  obtain n r where k: "k = n # r" using assms by (cases k) auto
  have "n = of_nat i \<longleftrightarrow> unat n = i"
    using i by (auto simp: unat_of_nat)
  with u other i assms k show ?thesis by (auto simp: shrink_def look_glue)
next
  case False
  hence "shrink ts = TBranch ts" by (auto simp: shrink_def split: list.splits)
  thus ?thesis by simp
qed

lemma look_del:
  "t_wf n t \<Longrightarrow> path_ok n k \<Longrightarrow>
   (case del t k of None \<Rightarrow> look t k = None
    | Some t' \<Rightarrow> look t k \<noteq> None \<and> (\<forall>k'. length k' = n \<longrightarrow> look t' k' = (if k' = k then None else look t k')))"
proof (induction t k arbitrary: n rule: del.induct)
  case (3 p t k)
  have p: "length p \<le> n" "t_wf (n - length p) t" using 3 by auto
  show ?case
  proof (cases "take (length p) k = p")
    case True
    have e: "k' = k \<longleftrightarrow> take (length p) k' = p \<and> drop (length p) k' = drop (length p) k" for k'
      by (metis True append_take_drop_id)
    note IH = "3.IH" [OF True p(2) path_ok_drop [OF "3.prems"(2) p(1)]]
    show ?thesis
    proof (cases "del t (drop (length p) k)")
      case (Some u)
      with IH have "look u (drop (length p) k') = (if drop (length p) k' = drop (length p) k then None
          else look t (drop (length p) k'))" if "length k' = n" for k'
        using that by simp
      moreover have "look u (drop (length p) k) = None" using IH Some "3.prems"(2) by (simp add: path_ok_def)
      ultimately show ?thesis using IH Some True by (auto simp: look_glue e)
    qed (use IH True in simp)
  qed simp
next
  case (4 ts k)
  have n: "0 < n" "length ts = 16" using 4 by auto
  from path_ok_hd [OF "4.prems"(2) n(1)] have h: "unat (hd k) < 16" "path_ok (n - 1) (tl k)" by auto
  obtain a r where k: "k = a # r" using n 4 by (cases k) (auto simp: path_ok_def)
  have c: "t_wf (n - 1) (ts ! unat (hd k))" using 4 h n by auto
  have IH: "case del (ts ! unat a) r of None \<Rightarrow> look (ts ! unat a) r = None
    | Some t' \<Rightarrow> look (ts ! unat a) r \<noteq> None \<and> (\<forall>k'. length k' = n - 1 \<longrightarrow>
        look t' k' = (if k' = r then None else look (ts ! unat a) k'))"
    using "4.IH" [OF _ c h(2)] h n unfolding k list.sel by simp
  show ?case
  proof (cases "del (ts ! unat a) r")
    case None
    with IH k h n show ?thesis by simp
  next
    case (Some u)
    have "look (shrink (ts[unat a := u])) k' = (if k' = k then None else look (TBranch ts) k')" if l: "length k' = n" for k'
    proof -
      obtain b r' where k': "k' = b # r'" using n l by (cases k') auto
      have "look (shrink (ts[unat a := u])) k' = look (TBranch (ts[unat a := u])) k'"
        by (rule look_shrink) (use n k' in auto)
      with IH Some k k' h n l show ?thesis by (auto simp: nth_list_update word_unat_eq_iff)
    qed
    with IH Some k h n show ?thesis by simp
  qed
qed auto

end
