(* ===== verification/TrieNode.thy ===== *)
theory TrieNode
  imports TrieDB TrieSpec
begin

text \<open>
  How the operations of TrieDB see the nodes of a tree: the encoding of a tree as a node, which
  embeds short children and refers to the others by their hash, what reading it gives and what writing
  its items gives.
\<close>

section \<open>The node of a tree\<close>

definition node_ref :: "(bytes \<Rightarrow> u256) \<Rightarrow> rlp_item \<Rightarrow> rlp_item" where
  "node_ref sha3 i = (if length (rlp_enc i) < 32 then i else hash_item (sha3 (rlp_enc i)))"

fun t_item :: "(bytes \<Rightarrow> u256) \<Rightarrow> trie \<Rightarrow> rlp_item" where
  "t_item sha3 TEmpty = Str []"
| "t_item sha3 (TLeaf p v) = Lst [Str (hp_spec True p), Str v]"
| "t_item sha3 (TExt p t) = Lst [Str (hp_spec False p), node_ref sha3 (t_item sha3 t)]"
| "t_item sha3 (TBranch ts) = Lst (map (\<lambda>t. node_ref sha3 (t_item sha3 t)) ts @ [Str []])"

definition t_enc :: "(bytes \<Rightarrow> u256) \<Rightarrow> trie \<Rightarrow> bytes" where
  "t_enc sha3 t = rlp_enc (t_item sha3 t)"

definition t_ref :: "(bytes \<Rightarrow> u256) \<Rightarrow> trie \<Rightarrow> rlp_item" where
  "t_ref sha3 t = node_ref sha3 (t_item sha3 t)"

lemma t_item_ref:
  "t_item sha3 (TExt p t) = Lst [Str (hp_spec False p), t_ref sha3 t]"
  "t_item sha3 (TBranch ts) = Lst (map (t_ref sha3) ts @ [Str []])"
  by (simp_all add: t_ref_def [abs_def])

subsection \<open>Sizes\<close>

lemma length_hp_spec: "length (hp_spec l ns) = length ns div 2 + 1"
proof (cases "odd (length ns)")
  case True
  hence "even (length (tl ns))" by simp
  with True show ?thesis by (auto simp: hp_spec_def length_pack elim: oddE)
qed (simp add: hp_spec_def length_pack)

lemma length_enc_header: "n < 2 ^ 64 \<Longrightarrow> length (enc_header b n) \<le> 9"
proof -
  assume "n < 2 ^ 64"
  hence "bytesRequired n \<le> 8" by (intro bytesRequired_least) simp
  thus ?thesis by (simp add: enc_header_def)
qed

lemma length_enc_Lst:
  "length (concat (map rlp_enc xs)) \<le> n \<Longrightarrow> n < 2 ^ 64 \<Longrightarrow> length (rlp_enc (Lst xs)) \<le> 9 + n"
  using length_enc_header [of "length (concat (map rlp_enc xs))" "0xc0"] by (simp add: Let_def)

lemma length_enc_node_ref: "length (rlp_enc (node_ref sha3 i)) \<le> 33"
proof -
  have "length (rlp_enc (hash_item (h :: u256))) = 33" for h
    by (simp add: hash_item_def enc_str_def enc_header_def)
  thus ?thesis by (simp add: node_ref_def)
qed

lemma length_enc_t_ref: "length (rlp_enc (t_ref sha3 t)) \<le> 33"
  by (simp add: t_ref_def length_enc_node_ref)

lemma item_ok_small: "length (rlp_enc x) \<le> 2 ^ 63 \<Longrightarrow> item_ok x"
  by (simp add: item_ok_def size_ok_def)

lemma length_enc_Str_le: "length bs \<le> n \<Longrightarrow> n < 2 ^ 60 \<Longrightarrow> length (rlp_enc (Str bs)) \<le> 9 + n"
  using length_enc_Str [of bs] by (meson le_trans add_le_mono order_le_less_trans order_refl)

lemma t_item_ok:
  assumes "t_wf n t" "n < 2 ^ 31"
  shows "item_ok (t_item sha3 t)"
proof (rule item_ok_small, cases t)
  case (TLeaf p v)
  with assms have "length (hp_spec True p) \<le> 2 ^ 32" "length v < 2 ^ 60" by (auto simp: length_hp_spec)
  hence "length (concat (map rlp_enc [Str (hp_spec True p), Str v])) \<le> (9 + 2 ^ 32) + (9 + 2 ^ 60)"
    using length_enc_Str_le [of "hp_spec True p" "2 ^ 32"] length_enc_Str [of v] by simp
  from length_enc_Lst [OF this] TLeaf show "length (rlp_enc (t_item sha3 t)) \<le> 2 ^ 63"
    by (simp del: rlp_enc.simps)
next
  case (TExt p u)
  with assms have "length (hp_spec False p) \<le> 2 ^ 32" by (auto simp: length_hp_spec)
  hence "length (concat (map rlp_enc [Str (hp_spec False p), t_ref sha3 u])) \<le> (9 + 2 ^ 32) + 33"
    using length_enc_Str_le [of "hp_spec False p" "2 ^ 32"] length_enc_t_ref [of sha3 u] by simp
  from length_enc_Lst [OF this] TExt show "length (rlp_enc (t_item sha3 t)) \<le> 2 ^ 63"
    by (simp add: t_item_ref del: rlp_enc.simps t_item.simps)
next
  case (TBranch ts)
  have "length (concat (map rlp_enc (map (t_ref sha3) us))) \<le> length us * 33" for us
  proof (induction us)
    case (Cons u us)
    then show ?case using length_enc_t_ref [of sha3 u] by simp
  qed simp
  from this [of ts] have "length (concat (map rlp_enc (map (t_ref sha3) ts @ [Str []]))) \<le> 16 * 33 + 1"
    using TBranch assms by (simp add: enc_str_def enc_header_def)
  from length_enc_Lst [OF this] TBranch show "length (rlp_enc (t_item sha3 t)) \<le> 2 ^ 63"
    by (simp add: t_item_ref del: rlp_enc.simps t_item.simps)
qed (simp add: enc_str_def enc_header_def)

lemma t_ref_ok: "item_ok (t_ref sha3 t)"
  by (rule item_ok_small) (use length_enc_t_ref [of sha3 t] in simp)

section \<open>Reading\<close>

lemma td_lift_simps [simp]: "td_lift (Inr x) d = Inr (x, d)" "td_lift (Inl e) d = Inl (TrieRlp e, d)"
  by (simp_all add: td_lift_def)

lemma td_assert_simps [simp]: "td_assert True d = Inr ((), d)" "td_assert False d = Inl (TrieAssertion, d)"
  by (simp_all add: td_assert_def)

lemma isEmpty_enc:
  assumes "item_ok x"
  shows "isEmpty (rlp_enc x) \<longleftrightarrow> content x = []"
proof -
  note ok = size_ok_content [OF assms]
  have h: "isEmpty (enc_header b n @ r) \<longleftrightarrow> n = 0" if "size_ok n" "b = 0x80 \<or> b = 0xc0" for b n r
    using header_facts [OF that, of _ r, OF refl] that(2)
    by (auto simp: isEmpty_def split: if_splits)
  show ?thesis
  proof (cases x)
    case (Str bs)
    show ?thesis
    proof (cases "length bs = 1 \<and> unat (hd bs) < 0x80")
      case True
      with Str show ?thesis by (cases bs) (auto simp: enc_str_def isEmpty_def)
    next
      case False
      hence "rlp_enc (Str bs) = enc_header 0x80 (length bs) @ bs" by (auto simp: enc_str_def)
      with Str ok h [of "length bs" "0x80" bs] show ?thesis by simp
    qed
  next
    case (Lst xs)
    with ok h [of "length (concat (map rlp_enc xs))" "0xc0"] show ?thesis by (simp add: Let_def)
  qed
qed

lemma td_item_enc:
  assumes "item_ok (Lst xs)" "i < length xs"
  shows "td_item (rlp_enc (Lst xs)) i = Inr (rlp_enc (xs ! i))"
proof -
  have "i < 2 ^ 64 - 1" using item_ok_length [OF assms(1)] assms(2) by simp
  from rlp_index_enc [OF assms(1) cache_ok_view this] assms(2) show ?thesis
    by (auto simp: td_item_def item_at_def simp del: rlp_enc.simps)
qed

lemma isList_enc: "item_ok x \<Longrightarrow> isList (rlp_enc x) = is_Lst x"
  and isData_enc: "item_ok x \<Longrightarrow> isData (rlp_enc x) = (\<not> is_Lst x)"
  using enc_read(3,4) [of x "[]"] by auto

lemma isNull_enc [simp]: "\<not> isNull (rlp_enc x)"
  by simp

definition slice_ok :: "nibble_slice \<Rightarrow> bytes \<Rightarrow> bool" where
  "slice_ok s ns \<longleftrightarrow> ns_ok s \<and> ns_nibbles s = ns"

lemma slice_size: "slice_ok s ns \<Longrightarrow> ns_size s = length ns"
  by (auto simp: slice_ok_def)

lemma slice_mid: "slice_ok s ns \<Longrightarrow> i \<le> length ns \<Longrightarrow> slice_ok (ns_mid s i) (drop i ns)"
proof -
  assume s: "slice_ok s ns" "i \<le> length ns"
  hence "ns_offset s + i \<le> length (ns_data s) * 2" "length (ns_data s) * 2 < 2 ^ 32"
    by (auto simp: slice_ok_def ns_ok_def ns_nibbles_def nibbles_def)
  moreover from this have "uns (int (ns_offset s + i)) = ns_offset s + i" by (simp add: uns_int)
  ultimately show ?thesis using s(1)
    by (auto simp: slice_ok_def ns_ok_def ns_mid_def ns_nibbles_def nibbles_def drop_map)
qed

lemma slice_hd: "slice_ok s (n # ns) \<Longrightarrow> ns_at s 0 = n"
  using ns_nibbles_nth [of s 0] slice_size [of s "n # ns"] by (auto simp: slice_ok_def)

lemma slice_equal: "slice_ok s a \<Longrightarrow> slice_ok t b \<Longrightarrow> ns_equal s t \<longleftrightarrow> a = b"
  by (auto simp: slice_ok_def ns_equal_iff)

lemma slice_contains: "slice_ok s a \<Longrightarrow> slice_ok t b \<Longrightarrow> ns_contains s t \<longleftrightarrow> take (length b) a = b"
proof -
  assume s: "slice_ok s a" "slice_ok t b"
  hence "ns_contains s t \<longleftrightarrow> take (length b) a = b \<and> length b \<le> length a"
    using ns_contains_iff [of s t] slice_size [OF s(1)] slice_size [OF s(2)] by (simp add: slice_ok_def)
  moreover have "take (length b) a = b \<Longrightarrow> length b \<le> length a"
    by (metis length_take min.cobounded1)
  ultimately show ?thesis by blast
qed

lemma slice_shared: "slice_ok s a \<Longrightarrow> slice_ok t b \<Longrightarrow> ns_shared s t = commonPrefix a b"
  by (auto simp: slice_ok_def ns_shared_eq)

lemma keyOf_size: "length (ns_data (keyOf (hp_spec l p))) * 2 \<le> length p + 2"
  by (auto simp: keyOf_def length_hp_spec)

lemma slice_keyOf: "list_all is_nibble p \<Longrightarrow> length p \<le> n \<Longrightarrow> n < 2 ^ 31 \<Longrightarrow> slice_ok (keyOf (hp_spec l p)) p"
proof -
  assume "list_all is_nibble p" and p: "length p \<le> n" "n < 2 ^ 31"
  hence "ns_nibbles (keyOf (hp_spec l p)) = p" by (intro keyOf_hp_spec)
  moreover have "length (hp_spec l p) \<ge> 1" by (simp add: length_hp_spec)
  hence "ns_offset (keyOf (hp_spec l p)) \<le> length (ns_data (keyOf (hp_spec l p))) * 2" by (auto simp: keyOf_def)
  hence "ns_ok (keyOf (hp_spec l p))" using keyOf_size [of l p] p by (simp add: ns_ok_def)
  ultimately show ?thesis by (simp add: slice_ok_def)
qed

lemma slice_key: "length key * 2 < 2 ^ 32 \<Longrightarrow> slice_ok (key_slice key) (nibbles key 0 (length key * 2))"
  by (simp add: slice_ok_def key_slice_def ns_ok_def ns_nibbles_def)

lemma hpe_slice_drop: "slice_ok k ns \<Longrightarrow> b \<le> length ns \<Longrightarrow> hpe_slice k l b (-1) = hp_spec l (drop b ns)"
proof -
  assume s: "slice_ok k ns" "b \<le> length ns"
  let ?n = "length (ns_data k) * 2"
  have o: "ns_offset k \<le> ?n" and ns: "ns = map (nibble (ns_data k)) [ns_offset k..<?n]"
    using s(1) by (auto simp: slice_ok_def ns_ok_def ns_nibbles_def nibbles_def)
  have "nibbles (ns_data k) (b + ns_offset k) ?n = drop b ns"
    by (simp add: ns nibbles_def drop_map add.commute [of b])
  moreover have "b + ns_offset k \<le> ?n" using s(2) o by (simp add: ns)
  hence "hpe_slice k l b (-1) = hp_spec l (nibbles (ns_data k) (b + ns_offset k) ?n)"
    unfolding hpe_slice_def using s(1) by (intro hexPrefixEncode_slice_end) (auto simp: slice_ok_def ns_ok_def)
  ultimately show ?thesis by (simp only:)
qed

lemma hpe_slice_take: "slice_ok k ns \<Longrightarrow> s \<le> length ns \<Longrightarrow> hpe_slice k l 0 (int s) = hp_spec l (take s ns)"
proof -
  assume s: "slice_ok k ns" "s \<le> length ns"
  let ?n = "length (ns_data k) * 2" and ?o = "ns_offset k"
  have o: "?o \<le> ?n" and ns: "ns = map (nibble (ns_data k)) [?o..<?n]"
    using s(1) by (auto simp: slice_ok_def ns_ok_def ns_nibbles_def nibbles_def)
  have "s + ?o \<le> ?n" using s(2) o by (simp add: ns)
  hence "take s [?o..<?n] = [?o..<?o + s]" by (intro take_upt) simp
  hence "nibbles (ns_data k) ?o (s + ?o) = take s ns"
    unfolding ns nibbles_def take_map by (simp only: add.commute [of s])
  moreover have "hpe_slice k l 0 (int s) = hp_spec l (nibbles (ns_data k) ?o (s + ?o))"
    using hexPrefixEncode_slice_eq [of 0 s ?o "ns_data k" l] \<open>s + ?o \<le> ?n\<close> s(1)
    by (simp add: hpe_slice_def slice_ok_def ns_ok_def)
  ultimately show ?thesis by simp
qed

lemma hpe_concat_eq:
  "slice_ok k a \<Longrightarrow> slice_ok l b \<Longrightarrow> length (ns_data k) * 2 + length (ns_data l) * 2 < 2 ^ 32 \<Longrightarrow>
   hpe_concat k l leaf = hp_spec leaf (a @ b)"
  by (auto simp: slice_ok_def ns_ok_def hpe_concat_def hexPrefixEncode_concat_eq ns_nibbles_def)

section \<open>Two-item nodes\<close>

lemma pair_read:
  assumes ok: "item_ok (Lst [Str (hp_spec l p), y])" and p: "list_all is_nibble p"
  defines "r \<equiv> rlp_enc (Lst [Str (hp_spec l p), y])"
  shows "itemCount r = Inr 2" "isList r" "\<not> isEmpty r" "td_item r 0 = Inr (rlp_enc (Str (hp_spec l p)))"
    "td_item r 1 = Inr (rlp_enc y)" "td_keyOf r = Inr (keyOf (hp_spec l p))" "td_isLeaf r d = Inr (l, d)"
    "td_count r d = Inr (2, d)"
proof -
  have o: "item_ok (Str (hp_spec l p))" "item_ok y" using item_ok_Lst [OF ok] by auto
  show c: "itemCount r = Inr 2" using itemCount_enc [OF ok] by (simp add: r_def del: rlp_enc.simps)
  show li: "isList r" using isList_enc [OF ok] by (simp add: r_def del: rlp_enc.simps)
  show "\<not> isEmpty r" using isEmpty_enc [OF ok] by (simp add: r_def del: rlp_enc.simps)
  show i0: "td_item r 0 = Inr (rlp_enc (Str (hp_spec l p)))"
    using td_item_enc [OF ok, of 0] by (simp add: r_def del: rlp_enc.simps)
  show "td_item r 1 = Inr (rlp_enc y)"
    using td_item_enc [OF ok, of 1] by (simp add: r_def del: rlp_enc.simps)
  note pl = payload_enc [OF o(1), unfolded content.simps]
  show "td_keyOf r = Inr (keyOf (hp_spec l p))" by (simp add: td_keyOf_def i0 pl del: rlp_enc.simps)
  have "hp_spec l p \<noteq> []" using length_hp_spec [of l p] by auto
  thus "td_isLeaf r d = Inr (l, d)"
    by (simp add: td_isLeaf_def c li i0 pl keyOf_hp_spec [OF p] del: rlp_enc.simps)
  show "td_count r d = Inr (2, d)" by (simp add: td_count_def c li)
qed

lemma branch_read:
  assumes ok: "item_ok (Lst xs)" and l: "length xs = 17"
  defines "r \<equiv> rlp_enc (Lst xs)"
  shows "itemCount r = Inr 17" "isList r" "\<not> isEmpty r" "i < 17 \<Longrightarrow> td_item r i = Inr (rlp_enc (xs ! i))"
    "td_count r d = Inr (17, d)"
proof -
  show c: "itemCount r = Inr 17" using itemCount_enc [OF ok] l by (simp add: r_def del: rlp_enc.simps)
  show li: "isList r" using isList_enc [OF ok] by (simp add: r_def del: rlp_enc.simps)
  have "xs \<noteq> []" using l by auto
  thus "\<not> isEmpty r" using isEmpty_enc [OF ok] by (cases xs) (simp_all add: r_def del: rlp_enc.simps)
  show "td_item r i = Inr (rlp_enc (xs ! i))" if "i < 17"
    using td_item_enc [OF ok, of i] that l by (simp add: r_def del: rlp_enc.simps)
  show "td_count r d = Inr (17, d)" by (simp add: td_count_def c li)
qed

section \<open>Writing\<close>

lemma ap_bytes_eq: "ap_bytes v = write_item (Str v)"
  by (simp add: ap_bytes_def fun_eq_iff)

lemma ap_rlp_eq: "rlp_fits x \<Longrightarrow> ap_rlp (rlp_enc x) = write_item x"
  by (simp add: ap_rlp_def fun_eq_iff appendRaw_def write_item_eq del: rlp_enc.simps)

lemma append_all_eq: "append_all (map write_item xs) = write_items xs"
proof (induction xs)
  case Nil
  show ?case by (rule ext) simp
next
  case (Cons x xs)
  then show ?case by (intro ext) simp
qed

lemma rlpList_eq: "rlp_fits (Lst xs) \<Longrightarrow> rlpList (map write_item xs) = Inr (rlp_enc (Lst xs))"
  using stream_out_write [of "Lst xs"]
  by (simp add: rlpList_def append_all_eq bindE_assoc del: rlp_enc.simps)

text \<open>A stream in which the list of \<open>xs\<close> and \<open>ys\<close> is open and \<open>xs\<close> is written.\<close>

definition wrote :: "rlp_item list \<Rightarrow> rlp_item list \<Rightarrow> rlp_stream \<Rightarrow> bool" where
  "wrote xs ys s \<longleftrightarrow> bindE (appendList rlp_stream_new (length xs + length ys)) (write_items xs) = Inr s"

lemma wrote_step:
  assumes fits: "rlp_fits (Lst (xs @ ys @ zs))" and w: "wrote xs (ys @ zs) s"
  obtains s' where "write_items ys s = Inr s'" "wrote (xs @ ys) zs s'"
proof -
  have all: "bindE (bindE (appendList rlp_stream_new (length (xs @ ys @ zs))) (write_items (xs @ ys @ zs))) stream_out =
      Inr (rlp_enc (Lst (xs @ ys @ zs)))"
    using stream_out_write [OF fits] by (simp del: rlp_enc.simps)
  then obtain t where "bindE (appendList rlp_stream_new (length (xs @ ys @ zs))) (write_items (xs @ ys @ zs)) = Inr t"
    by (auto simp: bindE_Inr_iff simp del: rlp_enc.simps)
  moreover have "write_items (xs @ ys @ zs) = (\<lambda>s. bindE (write_items xs s) (\<lambda>s. bindE (write_items ys s) (write_items zs)))"
    by (simp add: write_items_append)
  ultimately have "bindE (bindE (write_items ys s) (write_items zs)) Inr = Inr t"
    using w by (auto simp: wrote_def bindE_Inr_iff)
  then obtain s' where s': "write_items ys s = Inr s'" by (auto simp: bindE_Inr_iff)
  moreover have "wrote (xs @ ys) zs s'"
    using w s' by (auto simp: wrote_def write_items_append bindE_Inr_iff add.assoc)
  ultimately show ?thesis by (rule that)
qed

lemma wrote_open:
  assumes "rlp_fits (Lst xs)" "xs \<noteq> []"
  obtains s where "appendList rlp_stream_new (length xs) = Inr s" "wrote [] xs s"
  using that assms by (simp add: wrote_def appendList_def)

lemma wrote_out:
  assumes "rlp_fits (Lst xs)" "wrote xs [] s"
  shows "stream_out s = Inr (rlp_enc (Lst xs))"
  using stream_out_write [OF assms(1)] assms(2) by (auto simp: wrote_def bindE_Inr_iff simp del: rlp_enc.simps)

lemma copy_items_eq:
  assumes ok: "item_ok (Lst xs)" and "i + n \<le> length xs"
  shows "copy_items (rlp_enc (Lst xs)) i n = write_items (take n (drop i xs))"
  using assms(2)
proof (induction n arbitrary: i)
  case (Suc n)
  have x: "rlp_fits (xs ! i)" using item_ok_fits [OF item_ok_Lst [OF ok, of "xs ! i"]] Suc.prems by simp
  have "take (Suc n) (drop i xs) = xs ! i # take n (drop (i + 1) xs)"
    using Suc.prems by (simp add: Cons_nth_drop_Suc [symmetric])
  moreover have "copy_items (rlp_enc (Lst xs)) (i + 1) n = write_items (take n (drop (i + 1) xs))"
    by (rule Suc.IH) (use Suc.prems in simp)
  ultimately show ?case using Suc.prems td_item_enc [OF ok, of i] ap_rlp_eq [OF x]
    by (intro ext) (simp del: rlp_enc.simps)
qed (simp add: fun_eq_iff)

end
