(* ===== verification/TrieStore.thy ===== *)
theory TrieStore
  imports TrieNode
begin

text \<open>
  What a database owes to the tries in it. The nodes that are referred to by their hash are a multiset,
  one occurrence per reference; \<open>db_has\<close> says that the database gives each of them for its hash and counts
  the references to each that the disk does not hold. Every operation on the database removes a
  node from the multiset or adds one, so a trie operation keeps whatever else is in it. The hash is
  assumed free of collisions only on a set \<open>B\<close> of nodes.
\<close>

section \<open>The nodes of a tree\<close>

definition own :: "(bytes \<Rightarrow> u256) \<Rightarrow> trie \<Rightarrow> bytes multiset" where
  "own sha3 t = (if length (t_enc sha3 t) < 32 then {#} else {#t_enc sha3 t#})"

fun below :: "(bytes \<Rightarrow> u256) \<Rightarrow> trie \<Rightarrow> bytes multiset" where
  "below sha3 TEmpty = {#}"
| "below sha3 (TLeaf p v) = {#}"
| "below sha3 (TExt p t) = own sha3 t + below sha3 t"
| "below sha3 (TBranch ts) = sum_list (map (\<lambda>t. own sha3 t + below sha3 t) ts)"

definition nodes :: "(bytes \<Rightarrow> u256) \<Rightarrow> trie \<Rightarrow> bytes multiset" where
  "nodes sha3 t = own sha3 t + below sha3 t"

lemma below_nodes [simp]:
  "below sha3 (TExt p t) = nodes sha3 t"
  "below sha3 (TBranch ts) = sum_list (map (nodes sha3) ts)"
  by (simp_all add: nodes_def [abs_def])

declare below.simps(3,4) [simp del]

lemma t_enc_TEmpty [simp]: "t_enc sha3 TEmpty = [0x80]"
  by (simp add: t_enc_def enc_str_def enc_header_def)

lemma nodes_TEmpty [simp]: "nodes sha3 TEmpty = {#}"
  by (simp add: nodes_def own_def)

lemma t_enc_not_Nil [simp]: "t_enc sha3 t \<noteq> []"
  by (simp add: t_enc_def)

lemma nodes_update:
  assumes "i < length ts"
  obtains R where "sum_list (map (nodes sha3) ts) = nodes sha3 (ts ! i) + R"
    "\<And>t. sum_list (map (nodes sha3) (ts[i := t])) = nodes sha3 t + R"
proof -
  have split: "ts = take i ts @ ts ! i # drop (Suc i) ts" "ts[i := t] = take i ts @ t # drop (Suc i) ts" for t
    using assms by (simp_all add: id_take_nth_drop upd_conv_take_nth_drop)
  show ?thesis
    by (rule that [of "sum_list (map (nodes sha3) (take i ts)) + sum_list (map (nodes sha3) (drop (Suc i) ts))"])
      (subst split(1), simp add: ac_simps, subst split(2), simp add: ac_simps)
qed

lemma nodes_no_kids [simp]: "sum_list (map (nodes sha3) no_kids) = {#}"
  by (simp add: no_kids_def eval_nat_numeral)

section \<open>The contract\<close>

definition refs :: "mem_db \<Rightarrow> u256 \<Rightarrow> nat" where
  "refs d h = (case md_main d h of Some (_, n) \<Rightarrow> n | None \<Rightarrow> 0)"

definition clean :: "(bytes \<Rightarrow> u256) \<Rightarrow> bytes set \<Rightarrow> mem_db \<Rightarrow> bool" where
  "clean sha3 B d \<longleftrightarrow> \<not> md_enforceRefs d \<and> inj_on sha3 B \<and>
     (\<forall>b\<in>B. b \<noteq> [] \<and> (\<forall>v n. md_main d (sha3 b) = Some (v, n) \<longrightarrow> v = b) \<and> disk_get (sha3 b) d \<in> {[], b})"

definition db_has :: "(bytes \<Rightarrow> u256) \<Rightarrow> bytes set \<Rightarrow> mem_db \<Rightarrow> bytes multiset \<Rightarrow> bool" where
  "db_has sha3 B d M \<longleftrightarrow> clean sha3 B d \<and> set_mset M \<subseteq> B \<and> (\<forall>b\<in>#M. ov_lookup (sha3 b) d = b) \<and>
     (\<forall>h. disk_get h d = [] \<longrightarrow> refs d h = count (image_mset sha3 M) h)"

lemma db_has_read: "db_has sha3 B d M \<Longrightarrow> b \<in># M \<Longrightarrow> ov_lookup (sha3 b) d = b"
  by (simp add: db_has_def)

lemma disk_get_update [simp]: "disk_get h (d\<lparr>md_main := m\<rparr>) = disk_get h d"
  by (simp add: disk_get_def)

lemma ov_lookup_plain:
  "\<not> md_enforceRefs d \<Longrightarrow> ov_lookup h d =
    (if map_option fst (md_main d h) \<in> {None, Some []} then disk_get h d else fst (the (md_main d h)))"
  by (auto simp: ov_lookup_def md_lookup_def Let_def split: option.splits)

lemma db_has_kill:
  assumes "db_has sha3 B d (add_mset b M)"
  shows "db_has sha3 B (forceKillNode (sha3 b) d) M"
proof -
  have c: "clean sha3 B d" and r: "refs d h = count (image_mset sha3 (add_mset b M)) h" if "disk_get h d = []" for h
    using assms that by (simp_all only: db_has_def)
  have c: "clean sha3 B d" using assms by (simp only: db_has_def)
  show ?thesis
  proof (cases "md_main d (sha3 b)")
    case None
    hence "forceKillNode (sha3 b) d = d" by (simp add: forceKillNode_def ov_kill_def md_kill_def)
    moreover have "disk_get (sha3 b) d \<noteq> []" using r [of "sha3 b"] None by (auto simp: refs_def)
    ultimately show ?thesis using assms by (auto simp: db_has_def)
  next
    case (Some vn)
    obtain v n where vn: "vn = (v, n)" by (cases vn)
    show ?thesis
    proof (cases n)
      case 0
      hence "forceKillNode (sha3 b) d = d" using Some vn by (simp add: forceKillNode_def ov_kill_def md_kill_def)
      moreover have "disk_get (sha3 b) d \<noteq> []" using r [of "sha3 b"] Some vn 0 by (auto simp: refs_def)
      ultimately show ?thesis using assms by (auto simp: db_has_def)
    next
      case (Suc m)
      hence k: "forceKillNode (sha3 b) d = d\<lparr>md_main := (md_main d)(sha3 b \<mapsto> (v, m))\<rparr>"
        using Some vn by (simp add: forceKillNode_def ov_kill_def md_kill_def)
      have look: "ov_lookup h (forceKillNode (sha3 b) d) = ov_lookup h d" for h
        using Some vn Suc c
        by (auto simp: k ov_lookup_plain clean_def)
      have "clean sha3 B (forceKillNode (sha3 b) d)"
        using c Some vn unfolding clean_def k by auto
      moreover have "refs (forceKillNode (sha3 b) d) h = count (image_mset sha3 M) h" if "disk_get h d = []" for h
        using r [OF that] Some vn Suc by (auto simp: k refs_def)
      ultimately show ?thesis using assms unfolding db_has_def look by (simp add: k)
    qed
  qed
qed

lemma db_has_insert:
  assumes has: "db_has sha3 B d M" and b: "b \<in> B"
  shows "db_has sha3 B (md_insert (sha3 b) b d) (add_mset b M)"
proof -
  let ?d = "md_insert (sha3 b) b d"
  have c: "clean sha3 B d" using has by (simp only: db_has_def)
  have same: "sha3 x = sha3 b \<Longrightarrow> x \<in> B \<Longrightarrow> x = b" for x
    using c b unfolding clean_def inj_on_def by blast
  have lk: "ov_lookup h ?d = (if h = sha3 b then b else ov_lookup h d)" for h
    using c b by (simp add: ov_lookup_plain md_insert_def clean_def)
  have "clean sha3 B ?d" using c same unfolding clean_def md_insert_def by auto
  moreover have "ov_lookup (sha3 x) ?d = x" if "x \<in># add_mset b M" for x
  proof (cases "sha3 x = sha3 b")
    case True
    have "x \<in> B" using that has b by (auto simp: db_has_def)
    with same [OF True] lk show ?thesis by simp
  next
    case False
    hence "x \<in># M" using that by auto
    with False lk has show ?thesis by (simp add: db_has_def)
  qed
  moreover have "refs ?d h = count (image_mset sha3 (add_mset b M)) h" if "disk_get h ?d = []" for h
  proof -
    have "refs ?d h = refs d h + (if h = sha3 b then 1 else 0)"
      by (auto simp: refs_def md_insert_def split: option.splits)
    moreover have "disk_get h d = []" using that by (simp add: md_insert_def)
    ultimately show ?thesis using has by (auto simp: db_has_def)
  qed
  ultimately show ?thesis using has b by (auto simp: db_has_def)
qed

section \<open>The steps of the trie operations\<close>

definition gives :: "(bytes \<Rightarrow> u256) \<Rightarrow> bytes set \<Rightarrow> 'a tdb \<Rightarrow> 'a \<Rightarrow> bytes multiset \<Rightarrow> bool" where
  "gives sha3 B r x M \<longleftrightarrow> (\<exists>d. r = Inr (x, d) \<and> db_has sha3 B d M)"

lemma givesI: "db_has sha3 B d M \<Longrightarrow> gives sha3 B (Inr (x, d)) x M"
  by (auto simp: gives_def)

lemma givesE:
  assumes "gives sha3 B r x M"
  obtains d where "r = Inr (x, d)" "db_has sha3 B d M"
  using assms by (auto simp: gives_def)

lemma killNode_own: "db_has sha3 B d (own sha3 t + M) \<Longrightarrow> db_has sha3 B (killNode (t_enc sha3 t) (sha3 (t_enc sha3 t)) d) M"
  by (auto simp: own_def killNode_def intro: db_has_kill split: if_splits)

lemma appendHash_eq: "appendHash s h = write_item (hash_item h) s"
  by (simp add: appendHash_def hash_item_def)

lemma streamNode_ref:
  assumes "db_has sha3 B d M" "set_mset (own sha3 t) \<subseteq> B" "t_wf n t" "n < 2 ^ 31" "write_item (t_ref sha3 t) s = Inr s'"
  shows "gives sha3 B (streamNode sha3 (t_enc sha3 t) s d) s' (own sha3 t + M)"
proof (cases "length (t_enc sha3 t) < 32")
  case True
  have "rlp_fits (t_item sha3 t)" by (rule item_ok_fits, rule t_item_ok) (use assms in auto)
  from ap_rlp_eq [OF this] True assms(1,5) show ?thesis
    by (auto simp: streamNode_def own_def t_ref_def node_ref_def ap_rlp_def t_enc_def fun_eq_iff
        intro!: givesI simp del: rlp_enc.simps)
next
  case False
  with assms(2) db_has_insert [OF assms(1), of "t_enc sha3 t"] assms(5) show ?thesis
    by (auto simp: streamNode_def own_def forceInsertNode_def Let_def appendHash_eq t_ref_def node_ref_def
        t_enc_def intro!: givesI simp del: rlp_enc.simps)
qed

text \<open>Reading the reference to a child: an embedded node, or a hash to be looked up.\<close>

lemma isList_ref: "t \<noteq> TEmpty \<Longrightarrow> isList (rlp_enc (t_ref sha3 t)) \<longleftrightarrow> length (t_enc sha3 t) < 32"
proof -
  assume "t \<noteq> TEmpty"
  moreover have "isList (rlp_enc (t_ref sha3 t)) = is_Lst (t_ref sha3 t)" by (rule isList_enc [OF t_ref_ok])
  ultimately show ?thesis by (cases t) (auto simp: t_ref_def node_ref_def t_enc_def hash_item_def simp del: rlp_enc.simps)
qed

lemma isEmpty_ref: "isEmpty (rlp_enc (t_ref sha3 t)) \<longleftrightarrow> t = TEmpty"
proof -
  have "isEmpty (rlp_enc (t_ref sha3 t)) \<longleftrightarrow> content (t_ref sha3 t) = []" by (rule isEmpty_enc [OF t_ref_ok])
  also have "\<dots> \<longleftrightarrow> t = TEmpty"
  proof (cases "length (t_enc sha3 t) < 32")
    case True
    hence "t_ref sha3 t = t_item sha3 t" by (simp add: t_ref_def node_ref_def t_enc_def)
    moreover have "concat (map rlp_enc (x # xs)) \<noteq> []" "concat (map rlp_enc (xs @ [x])) \<noteq> []" for x xs
      by simp_all
    ultimately show ?thesis by (cases t) (simp_all del: rlp_enc.simps concat.simps)
  next
    case False
    hence "t_ref sha3 t = hash_item (sha3 (t_enc sha3 t))" by (simp add: t_ref_def node_ref_def t_enc_def)
    moreover have "t \<noteq> TEmpty" using False by auto
    moreover have "hash_bytes (h :: u256) \<noteq> []" for h using length_hash_bytes [of h] by force
    ultimately show ?thesis by (simp add: hash_item_def)
  qed
  finally show ?thesis .
qed

lemma ref_embedded: "length (t_enc sha3 t) < 32 \<Longrightarrow> rlp_enc (t_ref sha3 t) = t_enc sha3 t"
  by (simp add: t_ref_def node_ref_def t_enc_def)

lemma ref_hash: "\<not> length (t_enc sha3 t) < 32 \<Longrightarrow> readHash (rlp_enc (t_ref sha3 t)) fl = Inr (sha3 (t_enc sha3 t))"
  by (simp add: t_ref_def node_ref_def t_enc_def readHash_enc del: rlp_enc.simps)

lemma td_node_read:
  assumes "db_has sha3 B d M" "t_enc sha3 t \<in># M" "t_wf n t" "n < 2 ^ 31"
  shows "td_node (sha3 (t_enc sha3 t)) d = Inr (t_enc sha3 t, d)"
  using db_has_read [OF assms(1,2)] rlp_make_enc [OF t_item_ok [OF assms(3,4)]]
  by (simp add: td_node_def t_enc_def)

lemma td_child_ref:
  assumes "db_has sha3 B d (nodes sha3 t + M)" "t_wf n t" "n < 2 ^ 31" "t \<noteq> TEmpty"
  shows "td_child (rlp_enc (t_ref sha3 t)) d = Inr (t_enc sha3 t, d)"
proof (cases "length (t_enc sha3 t) < 32")
  case True
  with isList_ref [OF assms(4), of sha3] ref_embedded [OF True] show ?thesis by (simp add: td_child_def)
next
  case False
  have "t_enc sha3 t \<in># nodes sha3 t + M" using False by (simp add: nodes_def own_def)
  from td_node_read [OF assms(1) this assms(2,3)] False isList_ref [OF assms(4), of sha3] ref_hash [OF False]
  show ?thesis by (simp add: td_child_def)
qed

end
