(* ===== verification/TrieInsert.thy ===== *)
theory TrieInsert
  imports TrieStore
begin

text \<open>
  Insertion refines \<open>ins\<close>: \<open>mergeAt\<close> on the node of a tree gives the node of the tree with the key in it, and
  the database has the new nodes in place of the old.
\<close>

section \<open>Writing one item anew\<close>

lemma write_items_one: "write_items [x] = write_item x"
  by (rule ext) simp

lemma write_around:
  assumes "rlp_fits (Lst (xs @ y # zs))" "n = length (xs @ y # zs)"
  obtains s s' where "bindE (appendList rlp_stream_new n) (write_items xs) = Inr s" "write_item y s = Inr s'"
    "bindE (write_items zs s') stream_out = Inr (rlp_enc (Lst (xs @ y # zs)))"
proof -
  obtain s0 where s0: "appendList rlp_stream_new n = Inr s0" "wrote [] (xs @ y # zs) s0"
    using wrote_open [OF assms(1)] assms(2) by auto
  obtain s where s: "write_items xs s0 = Inr s" "wrote xs (y # zs) s"
    using wrote_step [of "[]" xs "y # zs" s0] assms(1) s0(2) by auto
  obtain s' where s': "write_items [y] s = Inr s'" "wrote (xs @ [y]) zs s'"
    using wrote_step [of xs "[y]" zs s] assms(1) s(2) by auto
  obtain s2 where s2: "write_items zs s' = Inr s2" "wrote (xs @ y # zs) [] s2"
    using wrote_step [of "xs @ [y]" zs "[]" s'] assms(1) s'(2) by auto
  show ?thesis
  proof (rule that)
    show "bindE (appendList rlp_stream_new n) (write_items xs) = Inr s" using s0 s by simp
    show "write_item y s = Inr s'" using s' by (cases "write_item y s") auto
    show "bindE (write_items zs s') stream_out = Inr (rlp_enc (Lst (xs @ y # zs)))"
      using s2 wrote_out [OF assms(1) s2(2)] by (simp del: rlp_enc.simps)
  qed
qed

section \<open>The nodes\<close>

lemma t_fits: "t_wf n t \<Longrightarrow> n < 2 ^ 31 \<Longrightarrow> rlp_fits (t_item sha3 t)"
  by (rule item_ok_fits, rule t_item_ok)

lemma leaf_item: "t_enc sha3 (TLeaf p v) = rlp_enc (Lst [Str (hp_spec True p), Str v])"
  by (simp add: t_enc_def del: rlp_enc.simps)

lemma ext_item: "t_enc sha3 (TExt p t) = rlp_enc (Lst [Str (hp_spec False p), t_ref sha3 t])"
  by (simp add: t_enc_def t_item_ref del: rlp_enc.simps t_item.simps)

lemma branch_item: "t_enc sha3 (TBranch ts) = rlp_enc (Lst (map (t_ref sha3) ts @ [Str []]))"
  by (simp add: t_enc_def t_item_ref del: rlp_enc.simps t_item.simps)

lemma leaf_read:
  assumes "t_wf n (TLeaf p v)" "n < 2 ^ 31"
  shows "item_ok (Lst [Str (hp_spec True p), Str v])" "rlp_fits (Lst [Str (hp_spec True p), Str v])"
    "list_all is_nibble p"
proof -
  show ok: "item_ok (Lst [Str (hp_spec True p), Str v])"
    using t_item_ok [OF assms, of undefined] by simp
  show "rlp_fits (Lst [Str (hp_spec True p), Str v])" by (rule item_ok_fits [OF ok])
qed (use assms in auto)

lemma ext_read:
  assumes "t_wf n (TExt p t)" "n < 2 ^ 31"
  shows "item_ok (Lst [Str (hp_spec False p), t_ref sha3 t])" "rlp_fits (Lst [Str (hp_spec False p), t_ref sha3 t])"
proof -
  show ok: "item_ok (Lst [Str (hp_spec False p), t_ref sha3 t])"
    using t_item_ok [OF assms, of sha3] by (simp add: t_item_ref del: t_item.simps)
  show "rlp_fits (Lst [Str (hp_spec False p), t_ref sha3 t])" by (rule item_ok_fits [OF ok])
qed

lemma kids_read:
  assumes "t_wf n (TBranch ts)" "n < 2 ^ 31"
  shows "item_ok (Lst (map (t_ref sha3) ts @ [Str []]))" "rlp_fits (Lst (map (t_ref sha3) ts @ [Str []]))"
proof -
  show ok: "item_ok (Lst (map (t_ref sha3) ts @ [Str []]))"
    using t_item_ok [OF assms, of sha3] by (simp add: t_item_ref del: t_item.simps)
  show "rlp_fits (Lst (map (t_ref sha3) ts @ [Str []]))" by (rule item_ok_fits [OF ok])
qed

section \<open>Placing a value\<close>

lemma killNode_short: "length r < 32 \<Longrightarrow> killNode r h d = d"
  by (simp add: killNode_def)

lemma isEmpty_t_enc: "t_wf n t \<Longrightarrow> n < 2 ^ 31 \<Longrightarrow> isEmpty (t_enc sha3 t) \<longleftrightarrow> t = TEmpty"
proof (cases t)
  case (TLeaf p v)
  assume "t_wf n t" "n < 2 ^ 31"
  with TLeaf leaf_read pair_read(3) [of True p "Str v"] show ?thesis by (simp add: leaf_item del: rlp_enc.simps)
next
  case (TExt p u)
  assume "t_wf n t" "n < 2 ^ 31"
  with TExt ext_read [of n p u sha3] pair_read(3) [of False p "t_ref sha3 u"]
  show ?thesis by (simp add: ext_item del: rlp_enc.simps)
next
  case (TBranch ts)
  assume "t_wf n t" "n < 2 ^ 31"
  with TBranch kids_read [of n ts sha3] branch_read(3) [of "map (t_ref sha3) ts @ [Str []]"]
  show ?thesis by (simp add: branch_item del: rlp_enc.simps)
qed (simp add: isEmpty_def)

lemma place_empty:
  assumes "slice_ok k ns" "t_wf n (TLeaf ns v)" "n < 2 ^ 31"
  shows "place sha3 (t_enc sha3 TEmpty) k v d = Inr (t_enc sha3 (TLeaf ns v), d)"
proof -
  have "hpe_slice k True 0 (-1) = hp_spec True ns" using hpe_slice_drop [OF assms(1), of 0] by simp
  moreover have "rlpList [write_item (Str (hp_spec True ns)), write_item (Str v)] = Inr (t_enc sha3 (TLeaf ns v))"
    using rlpList_eq [OF leaf_read(2) [OF assms(2,3)]] by (simp add: leaf_item del: rlp_enc.simps)
  moreover have "isEmpty [0x80]" by (simp add: isEmpty_def)
  ultimately show ?thesis by (simp add: place_def killNode_short ap_bytes_eq del: rlp_enc.simps)
qed

lemma place_leaf:
  assumes "db_has sha3 B d (own sha3 (TLeaf p w) + M)" "t_wf n (TLeaf p w)" "n < 2 ^ 31" "length v < 2 ^ 60"
  shows "gives sha3 B (place sha3 (t_enc sha3 (TLeaf p w)) k v d) (t_enc sha3 (TLeaf p v)) M"
proof -
  note ok = leaf_read [OF assms(2,3)]
  note r = pair_read [OF ok(1,3), folded leaf_item [of sha3]]
  have wf: "t_wf n (TLeaf p v)" using assms by simp
  have "rlp_fits (Str (hp_spec True p))" using leaf_read(2) [OF assms(2,3)] by simp
  from ap_rlp_eq [OF this] have "rlpList [ap_rlp (rlp_enc (Str (hp_spec True p))), ap_bytes v] = Inr (t_enc sha3 (TLeaf p v))"
    using rlpList_eq [OF leaf_read(2) [OF wf assms(3)]] by (simp add: leaf_item ap_bytes_eq del: rlp_enc.simps)
  with r killNode_own [OF assms(1)] show ?thesis
    by (auto simp: place_def intro!: givesI simp del: rlp_enc.simps)
qed

section \<open>Going down\<close>

lemma mergeAtAux_ref:
  assumes has: "db_has sha3 B d (nodes sha3 t + M)" and t: "t_wf m t" "m < 2 ^ 31"
    and rec: "gives sha3 B (rec (t_enc sha3 t) (sha3 (t_enc sha3 t)) k v (length (t_enc sha3 t) < 32) d)
      (t_enc sha3 u) (below sha3 u + M)"
    and u: "set_mset (own sha3 u) \<subseteq> B" "t_wf m u" and w: "write_item (t_ref sha3 u) s = Inr s'"
  shows "gives sha3 B (mergeAtAux sha3 rec s (rlp_enc (t_ref sha3 t)) k v d) s' (nodes sha3 u + M)"
proof -
  obtain d1 where d1: "rec (t_enc sha3 t) (sha3 (t_enc sha3 t)) k v (length (t_enc sha3 t) < 32) d = Inr (t_enc sha3 u, d1)"
    "db_has sha3 B d1 (below sha3 u + M)"
    using rec by (rule givesE)
  have out: "gives sha3 B (streamNode sha3 (t_enc sha3 u) s d1) s' (nodes sha3 u + M)"
    using streamNode_ref [OF d1(2) u t(2) w] by (simp add: nodes_def add.assoc)
  show ?thesis
  proof (cases "length (t_enc sha3 t) < 32")
    case True
    have "isList (t_enc sha3 t) \<or> isEmpty (t_enc sha3 t)"
      using isList_ref [of t sha3] True isEmpty_t_enc [OF t] ref_embedded [OF True] by metis
    with True d1(1) out ref_embedded [OF True] show ?thesis by (auto simp: mergeAtAux_def)
  next
    case False
    hence ne: "t \<noteq> TEmpty" by auto
    have "t_enc sha3 t \<in># nodes sha3 t + M" using False by (simp add: nodes_def own_def)
    from td_node_read [OF has this t] have "td_node (sha3 (t_enc sha3 t)) d = Inr (t_enc sha3 t, d)" .
    with False d1(1) out isList_ref [OF ne, of sha3] isEmpty_ref [of sha3 t] ne ref_hash [OF False]
    show ?thesis by (simp add: mergeAtAux_def isNull_def)
  qed
qed

lemma merge_ext:
  assumes t: "t_wf n (TExt p t)" "n < 2 ^ 31" and k: "slice_ok k ns" "take (length p) ns = p"
    and has: "db_has sha3 B d ((if inl then {#} else own sha3 (TExt p t)) + nodes sha3 t + M)"
    and rec: "\<And>d. db_has sha3 B d (nodes sha3 t + M) \<Longrightarrow>
      gives sha3 B (mergeAt sha3 f (t_enc sha3 t) (sha3 (t_enc sha3 t)) (ns_mid k (length p)) v
        (length (t_enc sha3 t) < 32) d) (t_enc sha3 u) (below sha3 u + M)"
    and u: "t_wf (n - length p) u" "u \<noteq> TEmpty" "set_mset (own sha3 u) \<subseteq> B"
  shows "gives sha3 B (mergeAt sha3 (Suc f) (t_enc sha3 (TExt p t)) (sha3 (t_enc sha3 (TExt p t))) k v inl d)
    (t_enc sha3 (TExt p u)) (below sha3 (TExt p u) + M)"
proof -
  note ok = ext_read [OF t, of sha3]
  have nib: "list_all is_nibble p" "length p \<le> n" using t by auto
  note r = pair_read [OF ok(1) nib(1), folded ext_item [of sha3]]
  have wf: "t_wf n (TExt p u)" using t u by simp
  note kp = slice_keyOf [OF nib t(2), of False]
  let ?d = "if inl then d else killNode (t_enc sha3 (TExt p t)) (sha3 (t_enc sha3 (TExt p t))) d"
  have d: "db_has sha3 B ?d (nodes sha3 t + M)"
    using has killNode_own [of sha3 B d "TExt p t"] by (auto simp: add.assoc)
  have hp: "rlp_fits (Str (hp_spec False p))" using ok(2) by simp
  have fits: "rlp_fits (Lst ([Str (hp_spec False p)] @ t_ref sha3 u # []))"
    using ext_read(2) [OF wf t(2), of sha3] by simp
  obtain s s' where s: "bindE (appendList rlp_stream_new 2) (write_items [Str (hp_spec False p)]) = Inr s"
    "write_item (t_ref sha3 u) s = Inr s'" "stream_out s' = Inr (t_enc sha3 (TExt p u))"
    by (rule write_around [OF fits, of 2]) (auto simp: ext_item simp del: rlp_enc.simps)
  have s1: "bindE (appendList rlp_stream_new 2) (ap_rlp (rlp_enc (Str (hp_spec False p)))) = Inr s"
    using s(1) by (simp add: ap_rlp_eq [OF hp] write_items_one del: rlp_enc.simps)
  have tw: "t_wf (n - length p) t" "n - length p < 2 ^ 31" using t by auto
  have "gives sha3 B (mergeAtAux sha3 (mergeAt sha3 f) s (rlp_enc (t_ref sha3 t)) (ns_mid k (length p)) v ?d) s' (nodes sha3 u + M)"
    by (rule mergeAtAux_ref [OF d tw _ u(3,1) s(2)]) (rule rec [OF d])
  then obtain d2 where d2: "mergeAtAux sha3 (mergeAt sha3 f) s (rlp_enc (t_ref sha3 t)) (ns_mid k (length p)) v ?d = Inr (s', d2)"
    "db_has sha3 B d2 (nodes sha3 u + M)" by (rule givesE)
  have c: "ns_contains k (keyOf (hp_spec False p))" using slice_contains [OF k(1) kp] k(2) by simp
  show ?thesis using d2 s(3) r s1 c slice_size [OF kp]
    by (auto simp: Let_def intro!: givesI simp del: rlp_enc.simps)
qed

lemma merge_branch:
  assumes t: "t_wf n (TBranch ts)" "n < 2 ^ 31" and k: "slice_ok k ns" "ns \<noteq> []" "unat (hd ns) < 16"
    and has: "db_has sha3 B d ((if inl then {#} else own sha3 (TBranch ts)) + below sha3 (TBranch ts) + M)"
    and rec: "\<And>d R. db_has sha3 B d (nodes sha3 (ts ! unat (hd ns)) + R) \<Longrightarrow>
      gives sha3 B (mergeAt sha3 f (t_enc sha3 (ts ! unat (hd ns))) (sha3 (t_enc sha3 (ts ! unat (hd ns)))) (ns_mid k 1) v
        (length (t_enc sha3 (ts ! unat (hd ns))) < 32) d) (t_enc sha3 u) (below sha3 u + R)"
    and u: "t_wf (n - 1) u" "set_mset (own sha3 u) \<subseteq> B"
  shows "gives sha3 B (mergeAt sha3 (Suc f) (t_enc sha3 (TBranch ts)) (sha3 (t_enc sha3 (TBranch ts))) k v inl d)
    (t_enc sha3 (TBranch (ts[unat (hd ns) := u]))) (below sha3 (TBranch (ts[unat (hd ns) := u])) + M)"
proof -
  let ?i = "unat (hd ns)" and ?xs = "map (t_ref sha3) ts @ [Str []]" and ?ts = "ts[unat (hd ns) := u]"
  let ?d = "if inl then d else killNode (t_enc sha3 (TBranch ts)) (sha3 (t_enc sha3 (TBranch ts))) d"
  have l: "length ts = 16" "length ?xs = 17" using t by auto
  note ok = kids_read [OF t, of sha3]
  note r = branch_read [OF ok(1) l(2), folded branch_item [of sha3]]
  have wf: "t_wf n (TBranch ?ts)"
    using t u set_update_subset_insert [of ts ?i u] by auto
  have items: "map (t_ref sha3) ?ts @ [Str []] = take ?i ?xs @ t_ref sha3 u # drop (Suc ?i) ?xs"
    using l k(3) by (simp add: upd_conv_take_nth_drop take_map drop_map)
  have fits: "rlp_fits (Lst (take ?i ?xs @ t_ref sha3 u # drop (Suc ?i) ?xs))"
    using kids_read(2) [OF wf t(2), of sha3] unfolding items .
  have len: "17 = length (take ?i ?xs @ t_ref sha3 u # drop (Suc ?i) ?xs)"
    using l unfolding items [symmetric] by simp
  obtain s s' where s: "bindE (appendList rlp_stream_new 17) (write_items (take ?i ?xs)) = Inr s"
    "write_item (t_ref sha3 u) s = Inr s'"
    "bindE (write_items (drop (Suc ?i) ?xs) s') stream_out = Inr (t_enc sha3 (TBranch ?ts))"
    by (rule write_around [OF fits len]) (simp only: branch_item items)
  have copy: "copy_items (t_enc sha3 (TBranch ts)) 0 ?i = write_items (take ?i ?xs)"
    "copy_items (t_enc sha3 (TBranch ts)) (?i + 1) (17 - (?i + 1)) = write_items (drop (Suc ?i) ?xs)"
    using copy_items_eq [OF ok(1), of 0 ?i] copy_items_eq [OF ok(1), of "?i + 1" "17 - (?i + 1)"] l k(3)
    by (simp_all add: branch_item del: rlp_enc.simps)
  have item: "td_item (t_enc sha3 (TBranch ts)) ?i = Inr (rlp_enc (t_ref sha3 (ts ! ?i)))"
    using r(4) [of ?i] k(3) l by (simp add: nth_append)
  obtain R where R: "sum_list (map (nodes sha3) ts) = nodes sha3 (ts ! ?i) + R"
    "\<And>t. sum_list (map (nodes sha3) (ts[?i := t])) = nodes sha3 t + R"
    using nodes_update [of ?i ts sha3] l k(3) by auto
  have d: "db_has sha3 B ?d (nodes sha3 (ts ! ?i) + (R + M))"
    using has killNode_own [of sha3 B d "TBranch ts"] R(1) by (auto simp: add.assoc)
  have tw: "t_wf (n - 1) (ts ! ?i)" "n - 1 < 2 ^ 31" using t l k(3) by auto
  have "gives sha3 B (mergeAtAux sha3 (mergeAt sha3 f) s (rlp_enc (t_ref sha3 (ts ! ?i))) (ns_mid k 1) v ?d) s'
      (nodes sha3 u + (R + M))"
    by (rule mergeAtAux_ref [OF d tw _ u(2,1) s(2)]) (rule rec [OF d])
  then obtain d2 where d2: "mergeAtAux sha3 (mergeAt sha3 f) s (rlp_enc (t_ref sha3 (ts ! ?i))) (ns_mid k 1) v ?d = Inr (s', d2)"
    "db_has sha3 B d2 (nodes sha3 u + (R + M))" by (rule givesE)
  have at: "ns_at k 0 = hd ns" using slice_hd [of k "hd ns" "tl ns"] k by simp
  have "ns_size k \<noteq> 0" using slice_size [OF k(1)] k(2) by simp
  thus ?thesis using d2 s r copy item at R(2) [of u]
    by (auto simp: Let_def add.assoc intro!: givesI simp del: rlp_enc.simps copy_items.simps)
qed

section \<open>Paths that part\<close>

text \<open>The leaf and the extension have a path; \<open>strip s\<close> takes its first \<open>s\<close> nibbles away.\<close>

fun is_pair :: "trie \<Rightarrow> bool" where
  "is_pair (TLeaf p v) = True" | "is_pair (TExt p t) = True" | "is_pair t = False"

fun leafy :: "trie \<Rightarrow> bool" where
  "leafy (TLeaf p v) = True" | "leafy t = False"

fun t_path :: "trie \<Rightarrow> bytes" where
  "t_path (TLeaf p v) = p" | "t_path (TExt p t) = p" | "t_path t = []"

fun strip :: "nat \<Rightarrow> trie \<Rightarrow> trie" where
  "strip s (TLeaf p v) = TLeaf (drop s p) v"
| "strip s (TExt p t) = cut (drop s p) t"
| "strip s t = t"

lemma pair_item:
  assumes "is_pair t"
  obtains y where "t_item sha3 t = Lst [Str (hp_spec (leafy t) (t_path t)), y]"
    "\<And>s. leafy t \<or> s < length (t_path t) \<Longrightarrow>
      t_item sha3 (strip s t) = Lst [Str (hp_spec (leafy t) (drop s (t_path t))), y]"
    "\<And>s. \<not> leafy t \<Longrightarrow> length (t_path t) \<le> s \<Longrightarrow> t_ref sha3 (strip s t) = y"
proof (cases t)
  case (TLeaf p v)
  show ?thesis by (rule that [of "Str v"]) (simp_all add: TLeaf)
next
  case (TExt p u)
  show ?thesis by (rule that [of "t_ref sha3 u"]) (auto simp: TExt t_item_ref cut_def simp del: t_item.simps)
qed (use assms in auto)

lemma below_strip:
  assumes "is_pair t"
  shows "leafy t \<or> s < length (t_path t) \<Longrightarrow> below sha3 (strip s t) = below sha3 t"
    "\<not> leafy t \<Longrightarrow> length (t_path t) \<le> s \<Longrightarrow> nodes sha3 (strip s t) = below sha3 t"
  using assms by (cases t; simp add: cut_def)+

lemma strip_wf:
  assumes "is_pair t" "t_wf n t" "s \<le> length (t_path t)"
  shows "t_wf (n - s) (strip s t)" "strip s t \<noteq> TEmpty"
proof -
  show "t_wf (n - s) (strip s t)" using assms by (cases t) (auto simp: list_all_drop cut_def)
  show "strip s t \<noteq> TEmpty" using assms by (cases t) auto
qed

lemma strip_pair:
  assumes "is_pair t" "leafy t \<or> s < length (t_path t)"
  shows "is_pair (strip s t)" "leafy (strip s t) = leafy t" "t_path (strip s t) = drop s (t_path t)"
    "strip r (strip s t) = strip (s + r) t"
  using assms by (cases t; simp add: cut_def add.commute)+

lemma pair_path: "is_pair t \<Longrightarrow> t_wf n t \<Longrightarrow> list_all is_nibble (t_path t) \<and> length (t_path t) \<le> n"
  by (cases t) auto

text \<open>Reading a node with a path.\<close>

lemma pair_node:
  assumes t: "is_pair t" "t_wf n t" "n < 2 ^ 31" and y: "t_item sha3 t = Lst [Str (hp_spec (leafy t) (t_path t)), y]"
  shows "item_ok (Lst [Str (hp_spec (leafy t) (t_path t)), y])" "rlp_fits y"
    "itemCount (t_enc sha3 t) = Inr 2" "isList (t_enc sha3 t)" "\<not> isEmpty (t_enc sha3 t)"
    "td_item (t_enc sha3 t) 1 = Inr (rlp_enc y)" "td_keyOf (t_enc sha3 t) = Inr (keyOf (hp_spec (leafy t) (t_path t)))"
    "td_isLeaf (t_enc sha3 t) d = Inr (leafy t, d)" "td_count (t_enc sha3 t) d = Inr (2, d)"
proof -
  show ok: "item_ok (Lst [Str (hp_spec (leafy t) (t_path t)), y])" using t_item_ok [OF t(2,3), of sha3] by (simp only: y)
  show "rlp_fits y" using item_ok_fits [OF ok] by simp
  have e: "rlp_enc (Lst [Str (hp_spec (leafy t) (t_path t)), y]) = t_enc sha3 t" by (simp only: t_enc_def y)
  have nib: "list_all is_nibble (t_path t)" using pair_path t by blast
  note r = pair_read [OF ok nib, unfolded e]
  show "itemCount (t_enc sha3 t) = Inr 2" "isList (t_enc sha3 t)" "\<not> isEmpty (t_enc sha3 t)"
    "td_item (t_enc sha3 t) 1 = Inr (rlp_enc y)" "td_keyOf (t_enc sha3 t) = Inr (keyOf (hp_spec (leafy t) (t_path t)))"
    "td_isLeaf (t_enc sha3 t) d = Inr (leafy t, d)" "td_count (t_enc sha3 t) d = Inr (2, d)"
    by (fact r)+
qed

lemma cleve_ok:
  assumes t: "is_pair t" "t_wf n t" "n < 2 ^ 31" and s: "0 < s" "s < length (t_path t)"
    and has: "db_has sha3 B d (own sha3 t + M)" and B: "set_mset (own sha3 (strip s t)) \<subseteq> B"
  shows "gives sha3 B (cleve sha3 (t_enc sha3 t) s d) (t_enc sha3 (TExt (take s (t_path t)) (strip s t)))
    (own sha3 (strip s t) + M)"
proof -
  let ?p = "t_path t" and ?l = "leafy t"
  obtain y where y: "t_item sha3 t = Lst [Str (hp_spec ?l ?p), y]"
    "\<And>s. ?l \<or> s < length ?p \<Longrightarrow> t_item sha3 (strip s t) = Lst [Str (hp_spec ?l (drop s ?p)), y]"
    using pair_item [OF t(1)] by metis
  note r = pair_node [OF t y(1)]
  have nib: "list_all is_nibble ?p" "length ?p \<le> n" using pair_path [OF t(1,2)] by auto
  note kp = slice_keyOf [OF nib t(3), of ?l]
  have wf: "t_wf (n - s) (strip s t)" "strip s t \<noteq> TEmpty" using strip_wf [OF t(1,2)] s by auto
  have top: "t_wf n (TExt (take s ?p) (strip s t))"
    using wf s nib by (auto simp: min_def list_all_iff dest: in_set_takeD)
  have bot: "rlpList [ap_bytes (hpe_slice (keyOf (hp_spec ?l ?p)) ?l s (-1)), ap_rlp (rlp_enc y)] = Inr (t_enc sha3 (strip s t))"
    using rlpList_eq [OF t_fits [OF wf(1), of sha3, unfolded y(2) [OF disjI2 [OF s(2)]]]] hpe_slice_drop [OF kp, of s] s(2) t(3)
    by (simp add: t_enc_def y(2) ap_bytes_eq ap_rlp_eq [OF r(2)] del: rlp_enc.simps rlp_fits.simps)
  have fits: "rlp_fits (Lst ([Str (hp_spec False (take s ?p))] @ t_ref sha3 (strip s t) # []))"
    using ext_read(2) [OF top t(3), of sha3] by simp
  obtain s1 s2 where w: "bindE (appendList rlp_stream_new 2) (write_items [Str (hp_spec False (take s ?p))]) = Inr s1"
    "write_item (t_ref sha3 (strip s t)) s1 = Inr s2" "stream_out s2 = Inr (t_enc sha3 (TExt (take s ?p) (strip s t)))"
    by (rule write_around [OF fits, of 2]) (auto simp: ext_item simp del: rlp_enc.simps)
  have w1: "bindE (appendList rlp_stream_new 2) (ap_bytes (hpe_slice (keyOf (hp_spec ?l ?p)) False 0 (int s))) = Inr s1"
    using w(1) hpe_slice_take [OF kp, of s] s(2) by (simp add: ap_bytes_eq write_items_one)
  let ?d = "killNode (t_enc sha3 t) (sha3 (t_enc sha3 t)) d"
  have "n - s < 2 ^ 31" using t by simp
  from streamNode_ref [OF killNode_own [OF has] B wf(1) this w(2)] obtain d2
    where d2: "streamNode sha3 (t_enc sha3 (strip s t)) s1 ?d = Inr (s2, d2)" "db_has sha3 B d2 (own sha3 (strip s t) + M)"
    by (rule givesE)
  show ?thesis using d2 w(3) w1 bot r s slice_size [OF kp]
    by (auto simp: cleve_def Let_def intro!: givesI simp del: rlp_enc.simps)
qed

text \<open>A branch with one child.\<close>

lemma append_empties: "append_all (replicate m (ap_bytes [])) = write_items (replicate m (Str []))"
  using append_all_eq [of "replicate m (Str [])"] by (simp add: ap_bytes_eq)

lemma t_ref_TEmpty [simp]: "t_ref sha3 TEmpty = Str []"
  by (simp add: t_ref_def node_ref_def enc_str_def enc_header_def)

lemma one_kid:
  assumes "i < 16"
  shows "map (t_ref sha3) (no_kids[i := c]) @ [Str []] = replicate i (Str []) @ t_ref sha3 c # (replicate (15 - i) (Str []) @ [Str []])"
proof -
  have "no_kids[i := c] = take i no_kids @ c # drop (Suc i) no_kids"
    using assms by (simp add: upd_conv_take_nth_drop)
  also have "\<dots> = replicate i TEmpty @ c # replicate (15 - i) TEmpty"
    using assms by (simp add: no_kids_def)
  finally show ?thesis by simp
qed

lemma one_kid_wf: "t_wf (n - 1) c \<Longrightarrow> 0 < n \<Longrightarrow> t_wf n (TBranch (no_kids[i := c]))"
  using fork_kids [of _ i c i c] by (auto, metis t_wf.simps(1))

lemma branch_ok:
  assumes t: "is_pair t" "t_wf n t" "n < 2 ^ 31" and p: "t_path t = a # p"
    and has: "db_has sha3 B d (nodes sha3 t + M)" and B: "set_mset (nodes sha3 (strip 1 t)) \<subseteq> B"
  shows "gives sha3 B (branch sha3 (t_enc sha3 t) d) (t_enc sha3 (TBranch (no_kids[unat a := strip 1 t])))
    (nodes sha3 (strip 1 t) + M)"
proof -
  let ?l = "leafy t" and ?c = "strip 1 t" and ?i = "unat a"
  obtain y where y: "t_item sha3 t = Lst [Str (hp_spec ?l (t_path t)), y]"
    "?l \<or> 1 < length (t_path t) \<Longrightarrow> t_item sha3 ?c = Lst [Str (hp_spec ?l (drop 1 (t_path t))), y]"
    "\<not> ?l \<Longrightarrow> length (t_path t) \<le> 1 \<Longrightarrow> t_ref sha3 ?c = y"
    using pair_item [OF t(1)] by metis
  note r = pair_node [OF t y(1)]
  have nib: "list_all is_nibble (t_path t)" "length (t_path t) \<le> n" using pair_path [OF t(1,2)] by auto
  note kp = slice_keyOf [OF nib t(3), of ?l]
  have i: "?i < 16" using nib p by (simp add: unat_nibble)
  have c: "t_wf (n - 1) ?c" "?c \<noteq> TEmpty" using strip_wf [OF t(1,2), of 1] p by auto
  have n: "0 < n" "n - 1 < 2 ^ 31" using nib p t(3) by auto
  have fits: "rlp_fits (Lst (replicate ?i (Str []) @ t_ref sha3 ?c # (replicate (15 - ?i) (Str []) @ [Str []])))"
    unfolding one_kid [OF i, symmetric] by (rule kids_read(2) [OF one_kid_wf [OF c(1) n(1)] t(3)])
  have len: "17 = length (replicate ?i (Str []) @ t_ref sha3 ?c # (replicate (15 - ?i) (Str []) @ [Str []]))"
    using i by simp
  obtain s s' where w: "bindE (appendList rlp_stream_new 17) (write_items (replicate ?i (Str []))) = Inr s"
    "write_item (t_ref sha3 ?c) s = Inr s'"
    "bindE (write_items (replicate (15 - ?i) (Str []) @ [Str []]) s') stream_out = Inr (t_enc sha3 (TBranch (no_kids[?i := ?c])))"
    by (rule write_around [OF fits len]) (simp only: branch_item one_kid [OF i])
  obtain s0 where s0: "appendList rlp_stream_new 17 = Inr s0" "write_items (replicate ?i (Str [])) s0 = Inr s"
    using w(1) by (auto simp: bindE_Inr_iff)
  have out: "bindE (append_all (replicate (16 - (?i + 1)) (ap_bytes [])) s') (\<lambda>r. bindE (ap_bytes [] r) stream_out) =
      Inr (t_enc sha3 (TBranch (no_kids[?i := ?c])))"
    using w(3) unfolding append_empties by (simp add: ap_bytes_eq write_items_append bindE_assoc)
  let ?d = "killNode (t_enc sha3 t) (sha3 (t_enc sha3 t)) d"
  have d: "db_has sha3 B ?d (below sha3 t + M)"
    using killNode_own [of sha3 B d t "below sha3 t + M"] has by (simp add: nodes_def add.assoc)
  let ?slot = "if ?l \<or> ns_size (keyOf (hp_spec ?l (t_path t))) > 1
     then bindE (td_lift (rlpList [ap_bytes (hpe_slice (ns_mid (keyOf (hp_spec ?l (t_path t))) 1) ?l 0 (-1)), ap_rlp (rlp_enc y)]) ?d)
            (\<lambda>(c, d). streamNode sha3 c s d)
     else td_lift (ap_rlp (rlp_enc y) s) ?d"
  have slot: "gives sha3 B ?slot s' (nodes sha3 ?c + M)"
  proof (cases "?l \<or> 1 < length (t_path t)")
    case True
    have "hpe_slice (ns_mid (keyOf (hp_spec ?l (t_path t))) 1) ?l 0 (-1) = hp_spec ?l (drop 1 (t_path t))"
      using hpe_slice_drop [OF slice_mid [OF kp, of 1], of 0 ?l] p by simp
    hence "rlpList [ap_bytes (hpe_slice (ns_mid (keyOf (hp_spec ?l (t_path t))) 1) ?l 0 (-1)), ap_rlp (rlp_enc y)] = Inr (t_enc sha3 ?c)"
      using rlpList_eq [OF t_fits [OF c(1) n(2), of sha3, unfolded y(2) [OF True]]]
      unfolding t_enc_def y(2) [OF True] by (simp add: ap_bytes_eq ap_rlp_eq [OF r(2)] del: rlp_enc.simps rlp_fits.simps)
    moreover have "gives sha3 B (streamNode sha3 (t_enc sha3 ?c) s ?d) s' (nodes sha3 ?c + M)"
      using streamNode_ref [OF d _ c(1) n(2) w(2)] B below_strip(1) [OF t(1) True, of sha3]
      by (simp add: nodes_def add.assoc)
    ultimately show ?thesis using True slice_size [OF kp] by simp
  next
    case False
    hence "td_lift (ap_rlp (rlp_enc y) s) ?d = Inr (s', ?d)"
      using w(2) y(3) ap_rlp_eq [OF r(2)] by simp
    with False slice_size [OF kp] d below_strip(2) [OF t(1), of 1 sha3] show ?thesis
      by (auto intro: givesI)
  qed
  then obtain d2 where d2: "?slot = Inr (s', d2)" "db_has sha3 B d2 (nodes sha3 ?c + M)" by (rule givesE)
  have at: "ns_at (keyOf (hp_spec ?l (t_path t))) 0 = a" using slice_hd [of _ a p] kp p by simp
  have sz: "ns_size (keyOf (hp_spec ?l (t_path t))) \<noteq> 0" using slice_size [OF kp] p by simp
  have "branch sha3 (t_enc sha3 t) d = bindE ?slot (\<lambda>(r, d). td_lift
      (bindE (append_all (replicate (16 - (?i + 1)) (ap_bytes [])) r) (\<lambda>r. bindE (ap_bytes [] r) stream_out)) d)"
    using s0 sz at by (simp add: branch_def r Let_def append_empties del: rlp_enc.simps One_nat_def split del: if_split)
  also have "\<dots> = Inr (t_enc sha3 (TBranch (no_kids[?i := ?c])), d2)"
    unfolding d2(1) using out by simp
  finally show ?thesis using d2(2) by (simp add: gives_def)
qed

section \<open>Insertion\<close>

lemma merge_empty:
  assumes "slice_ok k ns" "t_wf n (TLeaf ns v)" "n < 2 ^ 31"
  shows "mergeAt sha3 (Suc f) (t_enc sha3 TEmpty) h k v inl d = Inr (t_enc sha3 (TLeaf ns v), d)"
  using place_empty [OF assms, of sha3 d] by (simp add: isEmpty_def)

lemma rlp_make_t_enc: "t_wf n t \<Longrightarrow> n < 2 ^ 31 \<Longrightarrow> rlp_make (t_enc sha3 t) s = Inr (t_enc sha3 t)"
  by (simp add: t_enc_def t_item_ok)

lemma leaf_wf: "path_ok n ns \<Longrightarrow> length v < 2 ^ 60 \<Longrightarrow> t_wf n (TLeaf ns v)"
  by (simp add: path_ok_def)

lemma nodes_below: "set_mset (below sha3 t) \<subseteq> set_mset (nodes sha3 t)" "set_mset (own sha3 t) \<subseteq> set_mset (nodes sha3 t)"
  by (simp_all add: nodes_def)

lemma nodes_kid: "u \<in> set ts \<Longrightarrow> set_mset (nodes sha3 u) \<subseteq> set_mset (below sha3 (TBranch ts))"
  by (force simp: in_set_conv_nth elim: nodes_update [of _ ts sha3])

text \<open>The paths part at once: the node becomes a branch.\<close>

lemma merge_part0:
  assumes t: "is_pair t" "t_wf n t" "n < 2 ^ 31" and p: "t_path t = a # p"
    and k: "slice_ok k (b # ns)" "path_ok n (b # ns)" "a \<noteq> b" and v: "length v < 2 ^ 60"
    and has: "db_has sha3 B d (nodes sha3 t + M)"
    and B: "set_mset (below sha3 (fork 0 (a # p) (strip 1 t) (b # ns) v)) \<subseteq> B"
  shows "gives sha3 B (mergeAt sha3 (Suc (Suc (Suc f))) (t_enc sha3 t) h k v inl d)
    (t_enc sha3 (fork 0 (a # p) (strip 1 t) (b # ns) v)) (below sha3 (fork 0 (a # p) (strip 1 t) (b # ns) v) + M)"
proof -
  let ?c = "strip 1 t" and ?ts = "no_kids[unat a := strip 1 t]" and ?u = "TLeaf ns v"
  have fork: "fork 0 (a # p) ?c (b # ns) v = TBranch (?ts[unat b := ?u])" by (simp add: fork_def cut_def)
  obtain y where y: "t_item sha3 t = Lst [Str (hp_spec (leafy t) (t_path t)), y]" using pair_item [OF t(1)] by metis
  note r = pair_node [OF t y]
  have nib: "list_all is_nibble (t_path t)" "length (t_path t) \<le> n" using pair_path [OF t(1,2)] by auto
  note kp = slice_keyOf [OF nib t(3), of "leafy t"]
  have ab: "unat a < 16" "unat b < 16" "unat a \<noteq> unat b" "0 < n"
    using nib(1) p k(2,3) by (auto simp: path_ok_def unat_nibble word_unat_eq_iff)
  have c: "t_wf (n - 1) ?c" using strip_wf [OF t(1,2), of 1] p by auto
  have u: "t_wf (n - 1) ?u" using k(2) v by (auto simp: path_ok_def)
  have "?c \<in> set (?ts[unat b := ?u])" "?u \<in> set (?ts[unat b := ?u])"
    using ab by (auto simp: set_update_memI in_set_conv_nth nth_list_update intro: exI [of _ "unat a"])
  hence Bc: "set_mset (nodes sha3 ?c) \<subseteq> B" "set_mset (own sha3 ?u) \<subseteq> B"
    using B nodes_kid [of ?c _ sha3] nodes_kid [of ?u _ sha3] nodes_below(2) [of sha3 ?u] unfolding fork by blast+
  obtain d1 where d1: "branch sha3 (t_enc sha3 t) d = Inr (t_enc sha3 (TBranch ?ts), d1)" "db_has sha3 B d1 (nodes sha3 ?c + M)"
    using branch_ok [OF t p has Bc(1)] by (rule givesE)
  have bw: "t_wf n (TBranch ?ts)" by (rule one_kid_wf [OF c ab(4)])
  obtain R where "sum_list (map (nodes sha3) no_kids) = nodes sha3 (no_kids ! unat a) + R"
    "\<And>t. sum_list (map (nodes sha3) (no_kids[unat a := t])) = nodes sha3 t + R"
    using nodes_update [of "unat a" no_kids sha3] ab by auto
  hence below: "below sha3 (TBranch ?ts) = nodes sha3 ?c" by simp
  have kid: "?ts ! unat (hd (b # ns)) = TEmpty" using ab by simp
  have mid: "slice_ok (ns_mid k 1) ns" using slice_mid [OF k(1), of 1] by simp
  have n1: "n - 1 < 2 ^ 31" using t(3) by simp
  have "gives sha3 B (mergeAt sha3 (Suc (Suc f)) (t_enc sha3 (TBranch ?ts)) (sha3 (t_enc sha3 (TBranch ?ts))) k v True d1)
      (t_enc sha3 (TBranch (?ts[unat (hd (b # ns)) := ?u]))) (below sha3 (TBranch (?ts[unat (hd (b # ns)) := ?u])) + M)"
  proof (rule merge_branch [OF bw t(3) k(1)])
    show "db_has sha3 B d1 ((if True then {#} else own sha3 (TBranch ?ts)) + below sha3 (TBranch ?ts) + M)"
      using d1(2) below by simp
    show "gives sha3 B (mergeAt sha3 (Suc f) (t_enc sha3 (?ts ! unat (hd (b # ns)))) (sha3 (t_enc sha3 (?ts ! unat (hd (b # ns)))))
        (ns_mid k 1) v (length (t_enc sha3 (?ts ! unat (hd (b # ns)))) < 32) d') (t_enc sha3 ?u) (below sha3 ?u + R)"
      if "db_has sha3 B d' (nodes sha3 (?ts ! unat (hd (b # ns))) + R)" for d' R
      using that unfolding kid merge_empty [OF mid u n1] by (simp add: givesI)
  qed (use ab u Bc in auto)
  hence rec: "gives sha3 B (mergeAt sha3 (Suc (Suc f)) (t_enc sha3 (TBranch ?ts)) (sha3 (t_enc sha3 (TBranch ?ts))) k v True d1)
      (t_enc sha3 (fork 0 (a # p) ?c (b # ns) v)) (below sha3 (fork 0 (a # p) ?c (b # ns) v) + M)"
    unfolding fork by simp
  have "\<not> ns_equal (keyOf (hp_spec (leafy t) (t_path t))) k" "\<not> ns_contains k (keyOf (hp_spec (leafy t) (t_path t)))"
    "ns_shared k (keyOf (hp_spec (leafy t) (t_path t))) = 0"
    using slice_equal [OF kp k(1)] slice_contains [OF k(1) kp] slice_shared [OF k(1) kp] k(3) p by auto
  with r d1(1) rlp_make_t_enc [OF bw t(3), of sha3] rec show ?thesis
    by (simp del: mergeAt.simps add: mergeAt.simps(2) [of sha3 "Suc (Suc f)"] Let_def)
qed

text \<open>The paths part after \<open>s\<close> nibbles: the node is cleft there first.\<close>

lemma fork_drop:
  assumes "0 < s" "s < length p" "s < length k"
  shows "fork s p t k v = TExt (take s p) (fork 0 (drop s p) t (drop s k) v)"
  using assms by (auto simp: fork_def cut_def)

lemma cleft_ok:
  assumes "is_pair t" "t_wf n t" "0 < s" "s < length (t_path t)"
  shows "t_wf n (TExt (take s (t_path t)) (strip s t))"
  using strip_wf [OF assms(1,2), of s] pair_path [OF assms(1,2)] assms(3,4)
  by (auto simp: min_def list_all_iff dest: in_set_takeD)

lemma part_ok:
  assumes t: "is_pair t" "t_ok n t" and k: "path_ok n ns" and s: "s < length (t_path t)" "ns ! s \<noteq> t_path t ! s"
    and v: "length v < 2 ^ 60"
  shows "t_ok n (fork s (t_path t) (strip (Suc s) t) ns v)"
proof (rule fork_ok(1) [OF k _ _ s])
  have wf: "t_wf n t" using t(2) by (simp add: t_ok_def)
  show "list_all is_nibble (t_path t)" "length (t_path t) \<le> n" using pair_path [OF t(1) wf] by auto
  show "t_ok (n - Suc s) (strip (Suc s) t)" "strip (Suc s) t \<noteq> TEmpty"
    using strip_wf [OF t(1) wf, of "Suc s"] s t by (cases t; auto simp: t_ok_def cut_def)+
qed (rule v)

lemma merge_cleft:
  fixes s t ns v
  defines "u \<equiv> fork s (t_path t) (strip (Suc s) t) ns v"
  assumes t: "is_pair t" "t_ok n t" "n < 2 ^ 31" and k: "slice_ok k ns" "path_ok n ns"
    and s: "0 < s" "s < length (t_path t)" "take s ns = take s (t_path t)" "ns ! s \<noteq> t_path t ! s"
    and v: "length v < 2 ^ 60" and has: "db_has sha3 B d (nodes sha3 (strip s t) + M)"
    and B: "set_mset (below sha3 u) \<subseteq> B"
  shows "gives sha3 B (mergeAt sha3 (Suc (Suc (Suc (Suc f)))) (t_enc sha3 (TExt (take s (t_path t)) (strip s t)))
    (sha3 (t_enc sha3 (TExt (take s (t_path t)) (strip s t)))) k v True d) (t_enc sha3 u) (below sha3 u + M)"
proof -
  let ?p = "t_path t" and ?r = "strip s t" and ?k = "ns_mid k (length (take s (t_path t)))"
  let ?w = "fork 0 (drop s ?p) (strip 1 ?r) (drop s ns) v"
  have wf: "t_wf n t" using t by (simp add: t_ok_def)
  note top = cleft_ok [OF t(1) wf s(1,2)] and sp = strip_pair [OF t(1) disjI2 [OF s(2)]]
  have n: "length ?p \<le> n" "length ns = n" using pair_path [OF t(1) wf] k by (auto simp: path_ok_def)
  have pd: "drop s ?p = ?p ! s # drop (Suc s) ?p" and kd: "drop s ns = ns ! s # drop (Suc s) ns"
    using s(2) n by (simp_all add: Cons_nth_drop_Suc)
  have u: "u = TExt (take s ?p) ?w"
    using fork_drop [of s ?p ns] s n sp(4) [of 1] by (simp add: u_def)
  have "t_wf n u" using part_ok [OF t(1,2) k(2) s(2,4) v] by (simp add: u_def t_ok_def)
  hence wok: "t_wf (n - length (take s ?p)) ?w" "?w \<noteq> TEmpty" by (simp_all add: u)
  have own_w: "set_mset (own sha3 ?w) \<subseteq> B" "set_mset (below sha3 ?w) \<subseteq> B"
    using B u by (auto simp: nodes_def)
  have rec: "gives sha3 B (mergeAt sha3 (Suc (Suc (Suc f))) (t_enc sha3 ?r) (sha3 (t_enc sha3 ?r)) ?k v
      (length (t_enc sha3 ?r) < 32) d') (t_enc sha3 ?w) (below sha3 ?w + M)"
    if "db_has sha3 B d' (nodes sha3 ?r + M)" for d'
    unfolding pd kd
  proof (rule merge_part0 [OF sp(1) strip_wf(1) [OF t(1) wf] _ _ _ _ _ v that])
    show "n - s < 2 ^ 31" using t(3) by simp
    show "t_path ?r = ?p ! s # drop (Suc s) ?p" using sp(3) pd by simp
    show "slice_ok ?k (ns ! s # drop (Suc s) ns)"
      using slice_mid [OF k(1), of s] s n by (simp add: min_def flip: kd)
    show "path_ok (n - s) (ns ! s # drop (Suc s) ns)" unfolding kd [symmetric]
      by (rule path_ok_drop [OF k(2)]) (use s n in simp)
    show "set_mset (below sha3 (fork 0 (?p ! s # drop (Suc s) ?p) (strip 1 ?r) (ns ! s # drop (Suc s) ns) v)) \<subseteq> B"
      using own_w(2) by (simp only: pd kd)
  qed (use s in auto)
  show ?thesis unfolding u
    by (rule merge_ext [OF top t(3) k(1) _ _ rec wok own_w(1)]) (use has s in \<open>simp_all add: min_def\<close>)
qed

lemma merge_part:
  fixes s t ns v
  defines "u \<equiv> fork s (t_path t) (strip (Suc s) t) ns v"
  assumes t: "is_pair t" "t_ok n t" "n < 2 ^ 31" and k: "slice_ok k ns" "path_ok n ns"
    and s: "s = commonPrefix ns (t_path t)" "s < length (t_path t)" and v: "length v < 2 ^ 60"
    and has: "db_has sha3 B d (nodes sha3 t + M)"
    and B: "set_mset (below sha3 u) \<subseteq> B" "0 < s \<Longrightarrow> t_enc sha3 (strip s t) \<in> B"
  shows "gives sha3 B (mergeAt sha3 (Suc (Suc (Suc (Suc (Suc f))))) (t_enc sha3 t) h k v inl d)
    (t_enc sha3 u) (below sha3 u + M)"
proof -
  let ?p = "t_path t" and ?r = "strip s t"
  have wf: "t_wf n t" using t by (simp add: t_ok_def)
  have nib: "list_all is_nibble ?p" "length ?p \<le> n" using pair_path [OF t(1) wf] by auto
  have s': "s < length ns" using s nib k by (simp add: path_ok_def)
  have diff: "ns ! s \<noteq> ?p ! s" using commonPrefix_differ [of ns ?p] s s' by simp
  show ?thesis
  proof (cases "s = 0")
    case True
    have pd: "?p = ?p ! 0 # drop 1 ?p" and kd: "ns = ns ! 0 # drop 1 ns"
      using s(2) s' True by (simp_all add: Cons_nth_drop_Suc)
    have "gives sha3 B (mergeAt sha3 (Suc (Suc (Suc (Suc (Suc f))))) (t_enc sha3 t) h k v inl d)
        (t_enc sha3 (fork 0 (?p ! 0 # drop 1 ?p) (strip 1 t) (ns ! 0 # drop 1 ns) v))
        (below sha3 (fork 0 (?p ! 0 # drop 1 ?p) (strip 1 t) (ns ! 0 # drop 1 ns) v) + M)"
      by (rule merge_part0 [OF t(1) wf t(3)]) (use pd kd True k diff v has B in \<open>simp_all add: u_def\<close>)
    thus ?thesis using pd kd True by (simp add: u_def)
  next
    case False
    have "own sha3 ?r + (below sha3 t + M) = nodes sha3 ?r + M"
      using below_strip(1) [OF t(1) disjI2 [OF s(2)], of sha3] by (simp add: nodes_def add.assoc)
    moreover have "gives sha3 B (cleve sha3 (t_enc sha3 t) s d) (t_enc sha3 (TExt (take s ?p) ?r)) (own sha3 ?r + (below sha3 t + M))"
      by (rule cleve_ok [OF t(1) wf t(3) _ s(2)]) (use has B(2) False in \<open>auto simp: nodes_def own_def add.assoc\<close>)
    ultimately have "gives sha3 B (cleve sha3 (t_enc sha3 t) s d) (t_enc sha3 (TExt (take s ?p) ?r)) (nodes sha3 ?r + M)"
      by (simp only:)
    then obtain d1 where d1: "cleve sha3 (t_enc sha3 t) s d = Inr (t_enc sha3 (TExt (take s ?p) ?r), d1)"
      "db_has sha3 B d1 (nodes sha3 ?r + M)" by (rule givesE)
    have rec: "gives sha3 B (mergeAt sha3 (Suc (Suc (Suc (Suc f)))) (t_enc sha3 (TExt (take s ?p) ?r))
        (sha3 (t_enc sha3 (TExt (take s ?p) ?r))) k v True d1) (t_enc sha3 u) (below sha3 u + M)"
      unfolding u_def
      by (rule merge_cleft [OF t k]) (use d1(2) B False s diff v commonPrefix_take [of ns ?p] in \<open>simp_all add: u_def\<close>)
    obtain y where y: "t_item sha3 t = Lst [Str (hp_spec (leafy t) ?p), y]" using pair_item [OF t(1)] by metis
    note r = pair_node [OF t(1) wf t(3) y]
    note kp = slice_keyOf [OF nib t(3), of "leafy t"]
    have "ns \<noteq> ?p" "take (length ?p) ns \<noteq> ?p"
      using diff s by (auto, metis nth_take)
    hence "\<not> ns_equal (keyOf (hp_spec (leafy t) ?p)) k" "\<not> ns_contains k (keyOf (hp_spec (leafy t) ?p))"
      "ns_shared k (keyOf (hp_spec (leafy t) ?p)) = s"
      using slice_equal [OF kp k(1)] slice_contains [OF k(1) kp] slice_shared [OF k(1) kp] s by auto
    with r d1(1) rlp_make_t_enc [OF cleft_ok [OF t(1) wf] t(3), of s sha3] rec False s(2) show ?thesis
      by (simp del: mergeAt.simps add: mergeAt.simps(2) [of sha3 "Suc (Suc (Suc (Suc f)))"] Let_def)
  qed
qed

text \<open>The nodes that an insertion makes: the ones of the new tree, and the lower part of a node that it
  cleaves, which goes when it becomes a branch.\<close>

fun cleft :: "(bytes \<Rightarrow> u256) \<Rightarrow> trie \<Rightarrow> bytes \<Rightarrow> bytes set" where
  "cleft sha3 TEmpty k = {}"
| "cleft sha3 (TLeaf p w) k = (if p = k \<or> commonPrefix k p = 0 then {} else {t_enc sha3 (strip (commonPrefix k p) (TLeaf p w))})"
| "cleft sha3 (TExt p t) k = (if take (length p) k = p then cleft sha3 t (drop (length p) k)
     else if commonPrefix k p = 0 then {} else {t_enc sha3 (strip (commonPrefix k p) (TExt p t))})"
| "cleft sha3 (TBranch ts) k = (if unat (hd k) < length ts then cleft sha3 (ts ! unat (hd k)) (tl k) else {})"

definition ins_makes :: "(bytes \<Rightarrow> u256) \<Rightarrow> trie \<Rightarrow> bytes \<Rightarrow> bytes \<Rightarrow> bytes set" where
  "ins_makes sha3 t k v = set_mset (below sha3 (ins t k v)) \<union> cleft sha3 t k"

lemma merge_leaf:
  assumes "t_wf n (TLeaf p w)" "n < 2 ^ 31" "slice_ok k p" "length v < 2 ^ 60" "db_has sha3 B d (own sha3 (TLeaf p w) + M)"
  shows "gives sha3 B (mergeAt sha3 (Suc f) (t_enc sha3 (TLeaf p w)) h k v inl d) (t_enc sha3 (TLeaf p v)) M"
proof -
  have "t_item sha3 (TLeaf p w) = Lst [Str (hp_spec (leafy (TLeaf p w)) (t_path (TLeaf p w))), Str w]" by simp
  note r = pair_node [OF _ assms(1,2) this, simplified]
  have "list_all is_nibble p" "length p \<le> n" using assms(1) by simp_all
  from slice_equal [OF slice_keyOf [OF this assms(2)] assms(3), of True] place_leaf [OF assms(5,1,2,4), of k] r
  show ?thesis by simp
qed

lemma mergeAt_ins:
  assumes "t_ok n t" "n < 2 ^ 31" "slice_ok k ns" "path_ok n ns" "length v < 2 ^ 60" "n + 5 \<le> f"
    "inl \<longrightarrow> own sha3 t = {#}" "db_has sha3 B d (nodes sha3 t + M)" "ins_makes sha3 t ns v \<subseteq> B"
  shows "gives sha3 B (mergeAt sha3 f (t_enc sha3 t) (sha3 (t_enc sha3 t)) k v inl d)
    (t_enc sha3 (ins t ns v)) (below sha3 (ins t ns v) + M)"
  using assms
proof (induction t ns v arbitrary: n f k inl d M rule: ins.induct)
  case (1 ns v)
  then obtain g where "f = Suc g" by (cases f) auto
  with 1 merge_empty [OF "1.prems"(3) leaf_wf [OF "1.prems"(4,5)] "1.prems"(2)] show ?case by (auto intro: givesI)
next
  case (2 p w ns v)
  have f: "f = Suc (Suc (Suc (Suc (Suc (f - 5)))))" using 2 by simp
  have wf: "t_wf n (TLeaf p w)" using 2 by (simp add: t_ok_def)
  show ?case
  proof (cases "p = ns")
    case True
    have "gives sha3 B (mergeAt sha3 (Suc (Suc (Suc (Suc (Suc (f - 5)))))) (t_enc sha3 (TLeaf p w)) (sha3 (t_enc sha3 (TLeaf p w))) k v inl d)
        (t_enc sha3 (TLeaf p v)) M"
      by (rule merge_leaf [OF wf "2.prems"(2) _ "2.prems"(5)]) (use "2.prems"(3,8) True in \<open>simp_all add: nodes_def\<close>)
    thus ?thesis unfolding f [symmetric] using True by simp
  next
    case False
    let ?s = "commonPrefix ns p"
    have s: "?s < length p" using commonPrefix_short [of p ns] False wf "2.prems"(4) by (auto simp: path_ok_def)
    let ?u = "fork ?s (t_path (TLeaf p w)) (strip (Suc ?s) (TLeaf p w)) ns v"
    have u: "ins (TLeaf p w) ns v = ?u" using False by (simp add: Let_def)
    have "gives sha3 B (mergeAt sha3 (Suc (Suc (Suc (Suc (Suc (f - 5)))))) (t_enc sha3 (TLeaf p w)) (sha3 (t_enc sha3 (TLeaf p w))) k v inl d)
        (t_enc sha3 ?u) (below sha3 ?u + M)"
      by (rule merge_part [OF _ "2.prems"(1-4) _ _ "2.prems"(5,8)])
        (use "2.prems"(9) s False u in \<open>auto simp: ins_makes_def\<close>)
    thus ?thesis unfolding u f [symmetric] .
  qed
next
  case (3 p t ns v)
  have wf: "t_wf n (TExt p t)" and p: "length p \<le> n" "p \<noteq> []" "t_ok (n - length p) t" using 3 by (auto simp: t_ok_def)
  show ?case
  proof (cases "take (length p) ns = p")
    case True
    have f: "f = Suc (f - 1)" using 3 by simp
    let ?u = "ins t (drop (length p) ns) v"
    note k = path_ok_drop [OF "3.prems"(4) p(1)]
    have u: "t_wf (n - length p) ?u" "?u \<noteq> TEmpty" using ins_ok [OF p(3) k "3.prems"(5)] ins_not_empty [OF _ k] p(3) by (auto simp: t_ok_def)
    have B: "ins_makes sha3 t (drop (length p) ns) v \<subseteq> B" "set_mset (own sha3 ?u) \<subseteq> B"
      using "3.prems"(9) True by (auto simp: ins_makes_def nodes_def)
    have sl: "slice_ok (ns_mid k (length p)) (drop (length p) ns)"
      using slice_mid [OF "3.prems"(3), of "length p"] p(1) "3.prems"(4) by (simp add: path_ok_def)
    have m: "n - length p < 2 ^ 31" "n - length p + 5 \<le> f - 1" using "3.prems"(2,6) p(1,2)
      by (simp, cases p) auto
    have has: "db_has sha3 B d ((if inl then {#} else own sha3 (TExt p t)) + nodes sha3 t + M)"
      using "3.prems"(7,8) by (cases inl) (auto simp: nodes_def [of _ "TExt p t"])
    have inl: "length (t_enc sha3 t) < 32 \<longrightarrow> own sha3 t = {#}" by (simp add: own_def)
    have "gives sha3 B (mergeAt sha3 (Suc (f - 1)) (t_enc sha3 (TExt p t)) (sha3 (t_enc sha3 (TExt p t))) k v inl d)
      (t_enc sha3 (TExt p ?u)) (below sha3 (TExt p ?u) + M)"
      by (rule merge_ext [OF wf "3.prems"(2,3) True has
            "3.IH" [OF True p(3) m(1) sl k "3.prems"(5) m(2) inl _ B(1)] u B(2)])
    thus ?thesis using f True by simp
  next
    case False
    let ?s = "commonPrefix ns p"
    have f: "f = Suc (Suc (Suc (Suc (Suc (f - 5)))))" using 3 by simp
    have s: "?s < length p" using commonPrefix_short [of p ns] False p "3.prems"(4) by (auto simp: path_ok_def)
    let ?u = "fork ?s (t_path (TExt p t)) (strip (Suc ?s) (TExt p t)) ns v"
    have u: "ins (TExt p t) ns v = ?u" using False by (simp add: Let_def)
    have "gives sha3 B (mergeAt sha3 (Suc (Suc (Suc (Suc (Suc (f - 5)))))) (t_enc sha3 (TExt p t)) (sha3 (t_enc sha3 (TExt p t))) k v inl d)
        (t_enc sha3 ?u) (below sha3 ?u + M)"
      by (rule merge_part [OF _ "3.prems"(1-4) _ _ "3.prems"(5,8)])
        (use "3.prems"(9) s False u in \<open>auto simp: ins_makes_def\<close>)
    thus ?thesis unfolding u f [symmetric] .
  qed
next
  case (4 ts ns v)
  let ?i = "unat (hd ns)"
  have wf: "t_wf n (TBranch ts)" and n: "0 < n" "length ts = 16" using 4 by (auto simp: t_ok_def)
  from path_ok_hd [OF "4.prems"(4) n(1)] have h: "?i < 16" "path_ok (n - 1) (tl ns)" by auto
  have ne: "ns \<noteq> []" using "4.prems"(4) n by (auto simp: path_ok_def)
  have f: "f = Suc (f - 1)" using 4 by simp
  let ?u = "ins (ts ! ?i) (tl ns) v"
  have c: "t_ok (n - 1) (ts ! ?i)" using 4 h n by (auto simp: t_ok_def)
  have u: "t_wf (n - 1) ?u" using ins_ok [OF c h(2) "4.prems"(5)] by (simp add: t_ok_def)
  have "?u \<in> set (ts[?i := ?u])" using h n by (simp add: set_update_memI)
  hence B: "ins_makes sha3 (ts ! ?i) (tl ns) v \<subseteq> B" "set_mset (own sha3 ?u) \<subseteq> B"
    using "4.prems"(9) nodes_kid [of ?u "ts[?i := ?u]" sha3] nodes_below(1) [of sha3 ?u] nodes_below(2) [of sha3 ?u] h n
    by (auto simp: ins_makes_def simp del: below_nodes)
  have sl: "slice_ok (ns_mid k 1) (tl ns)"
    using slice_mid [OF "4.prems"(3), of 1] ne by (cases ns) auto
  have i: "?i < length ts" and m: "n - 1 < 2 ^ 31" "n - 1 + 5 \<le> f - 1" using "4.prems"(2,6) n h by simp_all
  have has: "db_has sha3 B d ((if inl then {#} else own sha3 (TBranch ts)) + below sha3 (TBranch ts) + M)"
    using "4.prems"(7,8) by (cases inl) (auto simp: nodes_def [of _ "TBranch ts"])
  have inl: "length (t_enc sha3 (ts ! ?i)) < 32 \<longrightarrow> own sha3 (ts ! ?i) = {#}" by (simp add: own_def)
  have "gives sha3 B (mergeAt sha3 (Suc (f - 1)) (t_enc sha3 (TBranch ts)) (sha3 (t_enc sha3 (TBranch ts))) k v inl d)
      (t_enc sha3 (TBranch (ts[?i := ?u]))) (below sha3 (TBranch (ts[?i := ?u])) + M)"
    by (rule merge_branch [OF wf "4.prems"(2,3) ne h(1) has
          "4.IH" [OF i c m(1) sl h(2) "4.prems"(5) m(2) inl _ B(1)] u B(2)])
  thus ?case using f h n by simp
qed

end
