(* ===== verification/TrieDelete.thy ===== *)
theory TrieDelete
  imports TrieInsert
begin

text \<open>
  Lookup refines \<open>look\<close> and removal refines \<open>del\<close>: \<open>atAux\<close> and \<open>deleteAt\<close> on the node of a tree.
\<close>

section \<open>Lookup\<close>

definition found_value :: "bytes option \<Rightarrow> bytes" where
  "found_value r = (case r of Some v \<Rightarrow> v | None \<Rightarrow> [])"

lemma found_value_simps [simp]: "found_value None = []" "found_value (Some v) = v"
  by (simp_all add: found_value_def)

lemma db_has_kid:
  assumes "db_has sha3 B d (below sha3 (TBranch ts) + M)" "i < length ts"
  obtains R where "db_has sha3 B d (nodes sha3 (ts ! i) + R)"
  using nodes_update [OF assms(2), of sha3] assms(1) by (metis below_nodes(2) add.assoc)

lemma atAux_look:
  assumes "t_wf n t" "n < 2 ^ 31" "slice_ok k ns" "path_ok n ns" "n + 1 \<le> f" "db_has sha3 B d (below sha3 t + M)"
  shows "atAux f (t_enc sha3 t) k d = Inr (found_value (look t ns), d)"
  using assms
proof (induction t ns arbitrary: n f k M rule: look.induct)
  case (1 ns)
  then obtain g where "f = Suc g" by (cases f) auto
  thus ?case by (simp add: isEmpty_def)
next
  case (2 p v ns)
  obtain g where f: "f = Suc g" using 2 by (cases f) auto
  have y: "t_item sha3 (TLeaf p v) = Lst [Str (hp_spec (leafy (TLeaf p v)) (t_path (TLeaf p v))), Str v]" by simp
  note r = pair_node [OF _ 2(1,2) y, simplified]
  have nib: "list_all is_nibble p" "length p \<le> n" using 2 by simp_all
  have "item_ok (Str v)" by (rule item_ok_Lst [OF leaf_read(1) [OF 2(1,2)]]) simp
  from toBytes_enc [OF this] have v: "toBytes (enc_str v) LaissezFaire = Inr v" by simp
  have "ns_equal k (keyOf (hp_spec True p)) \<longleftrightarrow> ns = p" by (rule slice_equal [OF 2(3) slice_keyOf [OF nib 2(2)]])
  with r v f show ?case by (simp add: isNull_def del: rlp_enc.simps)
next
  case (3 p t ns)
  obtain g where f: "f = Suc g" using 3 by (cases f) auto
  have p: "p \<noteq> []" "length p \<le> n" "list_all is_nibble p" "t \<noteq> TEmpty" "t_wf (n - length p) t" using 3 by auto
  have y: "t_item sha3 (TExt p t) = Lst [Str (hp_spec (leafy (TExt p t)) (t_path (TExt p t))), t_ref sha3 t]"
    by (simp add: t_item_ref del: t_item.simps)
  note r = pair_node [OF _ "3.prems"(1,2) y, simplified]
  note kp = slice_keyOf [OF p(3,2) "3.prems"(2), of False]
  have eq: "ns_contains k (keyOf (hp_spec False p)) \<longleftrightarrow> take (length p) ns = p"
    by (rule slice_contains [OF "3.prems"(3) kp])
  have c: "td_child (rlp_enc (t_ref sha3 t)) d = Inr (t_enc sha3 t, d)"
    by (rule td_child_ref [OF _ p(5) _ p(4)]) (use 3 in auto)
  show ?case
  proof (cases "take (length p) ns = p")
    case True
    have "n - length p < 2 ^ 31" "n - length p + 1 \<le> g" using "3.prems"(2,5) p(1,2) f by (simp, cases p) auto
    moreover have "slice_ok (ns_mid k (length p)) (drop (length p) ns)"
      using slice_mid [OF "3.prems"(3), of "length p"] p(2) "3.prems"(4) by (simp add: path_ok_def)
    moreover have "db_has sha3 B d (below sha3 t + (own sha3 t + M))"
      using "3.prems"(6) by (simp add: nodes_def ac_simps)
    ultimately have "atAux g (t_enc sha3 t) (ns_mid k (length p)) d = Inr (found_value (look t (drop (length p) ns)), d)"
      using "3.IH" [OF True p(5) _ _ path_ok_drop [OF "3.prems"(4) p(2)]] by blast
    with r c eq True f slice_size [OF kp] show ?thesis by (simp add: isNull_def)
  qed (use r eq f in \<open>simp add: isNull_def\<close>)
next
  case (4 ts)
  then show ?case by (simp add: path_ok_def)
next
  case (5 ts a ns)
  obtain g where f: "f = Suc g" using 5 by (cases f) auto
  have n: "0 < n" "length ts = 16" using 5 by auto
  have a: "unat a < 16" "path_ok (n - 1) ns" using path_ok_hd [OF "5.prems"(4) n(1)] by auto
  have t: "t_wf (n - 1) (ts ! unat a)" using 5 a n by auto
  have m: "n - 1 < 2 ^ 31" "n - 1 + 1 \<le> g" using "5.prems"(2,5) n f by auto
  have "length (map (t_ref sha3) ts @ [Str []]) = 17" using n by simp
  note r = branch_read [OF kids_read(1) [OF "5.prems"(1,2)] this, folded branch_item]
  have item: "td_item (t_enc sha3 (TBranch ts)) (unat a) = Inr (rlp_enc (t_ref sha3 (ts ! unat a)))"
    using r(4) [of "unat a"] a n by (simp add: nth_append)
  have at: "ns_at k 0 = a" "ns_size k \<noteq> 0" using slice_hd [OF "5.prems"(3)] slice_size [OF "5.prems"(3)] by auto
  have sl: "slice_ok (ns_mid k 1) ns" using slice_mid [OF "5.prems"(3), of 1] by simp
  obtain R where R: "db_has sha3 B d (nodes sha3 (ts ! unat a) + R)"
    using db_has_kid [OF "5.prems"(6), of "unat a"] a n by auto
  hence "db_has sha3 B d (below sha3 (ts ! unat a) + (own sha3 (ts ! unat a) + R))" by (simp add: nodes_def ac_simps)
  from "5.IH" [OF _ t m(1) sl a(2) m(2) this] a n
  have "atAux g (t_enc sha3 (ts ! unat a)) (ns_mid k 1) d = Inr (found_value (look (ts ! unat a) ns), d)" by simp
  with r item at f a n isEmpty_ref [of sha3 "ts ! unat a"] td_child_ref [OF R t m(1)] show ?case
    by (cases "ts ! unat a = TEmpty") (simp_all add: isNull_def)
qed

section \<open>What removal leaves\<close>

lemma isTwoItemNode_ref:
  assumes "db_has sha3 B d (nodes sha3 t + M)" "t_wf n t" "n < 2 ^ 31" "t \<noteq> TEmpty"
  shows "isTwoItemNode (rlp_enc (t_ref sha3 t)) d = Inr (is_pair t, d)"
proof -
  have count: "isList (t_enc sha3 t)" "itemCount (t_enc sha3 t) = Inr (if is_pair t then 2 else 17)"
  proof -
    consider "is_pair t" | ts where "t = TBranch ts" using assms(4) by (cases t) auto
    hence "isList (t_enc sha3 t) \<and> itemCount (t_enc sha3 t) = Inr (if is_pair t then 2 else 17)"
    proof cases
      case 1
      obtain y where "t_item sha3 t = Lst [Str (hp_spec (leafy t) (t_path t)), y]" using pair_item [OF 1] by metis
      from pair_node [OF 1 assms(2,3) this] 1 show ?thesis by simp
    next
      case 2
      have "length (map (t_ref sha3) ts @ [Str []]) = 17" using 2 assms(2) by simp
      from branch_read [OF kids_read(1) [OF assms(2,3) [unfolded 2]] this, folded branch_item] 2 show ?thesis by simp
    qed
    thus "isList (t_enc sha3 t)" "itemCount (t_enc sha3 t) = Inr (if is_pair t then 2 else 17)" by auto
  qed
  show ?thesis
  proof (cases "length (t_enc sha3 t) < 32")
    case True
    have "isData (t_enc sha3 t) = (\<not> isList (t_enc sha3 t))"
      using isList_enc [OF t_item_ok [OF assms(2,3)]] isData_enc [OF t_item_ok [OF assms(2,3)]] by (simp add: t_enc_def)
    with count show ?thesis by (simp add: isTwoItemNode_def ref_embedded [OF True])
  next
    case False
    have "t_enc sha3 t \<in># nodes sha3 t + M" using False by (simp add: nodes_def own_def)
    note rd = td_node_read [OF assms(1) this assms(2,3)]
    have "\<not> isList (rlp_enc (t_ref sha3 t))" "isData (rlp_enc (t_ref sha3 t))"
      using isList_ref [OF assms(4), of sha3] isList_enc [OF t_ref_ok, of sha3 t] isData_enc [OF t_ref_ok, of sha3 t] False
      by auto
    with rd count ref_hash [OF False] show ?thesis by (simp add: isTwoItemNode_def)
  qed
qed

lemma graft_ok:
  assumes u: "is_pair u" "t_wf m u" and e: "t_wf n (TExt p u)" "n < 2 ^ 31" "m = n - length p"
    and has: "db_has sha3 B d (nodes sha3 u + M)"
  shows "gives sha3 B (graft (t_enc sha3 (TExt p u)) d) (t_enc sha3 (glue p u)) (below sha3 (glue p u) + M)"
proof -
  have m: "m < 2 ^ 31" using e by simp
  have ye: "t_item sha3 (TExt p u) = Lst [Str (hp_spec (leafy (TExt p u)) (t_path (TExt p u))), t_ref sha3 u]"
    by (simp add: t_item_ref del: t_item.simps)
  note re = pair_node [OF _ e(1,2) ye, simplified]
  obtain y where y: "t_item sha3 u = Lst [Str (hp_spec (leafy u) (t_path u)), y]" using pair_item [OF u(1)] by metis
  note r = pair_node [OF u m y]
  have nib: "list_all is_nibble p" "list_all is_nibble (t_path u)" "length p \<le> n" "length (t_path u) \<le> m" using e(1) pair_path [OF u] by auto
  have gi: "t_item sha3 (glue p u) = Lst [Str (hp_spec (leafy u) (p @ t_path u)), y]" using y u(1) by (cases u) auto
  have gb: "below sha3 (glue p u) = below sha3 u" using u(1) by (cases u) auto
  have gw: "t_wf n (glue p u)" using e(1) u by (cases u) auto
  have sz: "length (ns_data (keyOf (hp_spec False p))) * 2 + length (ns_data (keyOf (hp_spec (leafy u) (t_path u)))) * 2 < 2 ^ 32"
  proof -
    have "length p + length (t_path u) \<le> n" using nib(3,4) e(3) by simp
    with keyOf_size [of False p] keyOf_size [of "leafy u" "t_path u"] e(2) show ?thesis by simp
  qed
  have out: "rlpList [ap_bytes (hpe_concat (keyOf (hp_spec False p)) (keyOf (hp_spec (leafy u) (t_path u))) (leafy u)), ap_rlp (rlp_enc y)]
      = Inr (t_enc sha3 (glue p u))"
    using rlpList_eq [OF t_fits [OF gw e(2), of sha3, unfolded gi]]
    by (simp add: t_enc_def gi ap_bytes_eq ap_rlp_eq [OF r(2)] hpe_concat_eq [OF slice_keyOf [OF nib(1,3) e(2)] slice_keyOf [OF nib(2,4) m] sz]
        del: rlp_enc.simps rlp_fits.simps)
  have ne: "u \<noteq> TEmpty" using u(1) by auto
  show ?thesis
  proof (cases "length (t_enc sha3 u) < 32")
    case True
    with has gb have "db_has sha3 B d (below sha3 (glue p u) + M)" by (simp add: nodes_def own_def)
    with True re r out ref_embedded [OF True] isList_ref [OF ne, of sha3] show ?thesis
      by (auto simp: graft_def intro!: givesI simp del: rlp_enc.simps)
  next
    case False
    hence d: "db_has sha3 B d (add_mset (t_enc sha3 u) (below sha3 u + M))" using has by (simp add: nodes_def own_def)
    have rd: "ov_lookup (sha3 (t_enc sha3 u)) d = t_enc sha3 u" by (rule db_has_read [OF d]) simp
    have rd2: "readHash (rlp_enc (t_ref sha3 u)) Strict = Inr (sha3 (t_enc sha3 u))" by (rule ref_hash [OF False])
    have nl: "\<not> isList (rlp_enc (t_ref sha3 u))" using isList_ref [OF ne, of sha3] False by simp
    have mk: "rlp_make (t_enc sha3 u) VeryStrict = Inr (t_enc sha3 u)" by (rule rlp_make_t_enc [OF u(2) m])
    from db_has_kill [OF d] gb have "db_has sha3 B (forceKillNode (sha3 (t_enc sha3 u)) d) (below sha3 (glue p u) + M)" by simp
    with re r out rd rd2 nl mk show ?thesis
      by (auto simp: graft_def Let_def intro!: givesI simp del: rlp_enc.simps)
  qed
qed

text \<open>An extension of a tree becomes what \<open>glue\<close> says.\<close>

lemma join_ok:
  assumes u: "u \<noteq> TEmpty" and e: "t_wf n (TExt p u)" "n < 2 ^ 31" and has: "db_has sha3 B d (nodes sha3 u + M)"
  shows "gives sha3 B (if is_pair u then graft (t_enc sha3 (TExt p u)) d else Inr (t_enc sha3 (TExt p u), d))
    (t_enc sha3 (glue p u)) (below sha3 (glue p u) + M)"
proof (cases "is_pair u")
  case True
  have "t_wf (n - length p) u" using e(1) by simp
  from graft_ok [OF True this e refl has] True show ?thesis by simp
next
  case False
  with u obtain ts where "u = TBranch ts" by (cases u) auto
  with has show ?thesis by (auto intro: givesI)
qed

section \<open>A branch with one child left\<close>

lemma unique_loop_eq:
  assumes "\<And>j. j < 17 \<Longrightarrow> td_item r j = Inr (x j)"
  shows "i + m = 17 \<Longrightarrow>
    unique_loop r 255 i m 255 = Inr (case filter (\<lambda>j. \<not> isEmpty (x j)) [i..<17] of [j] \<Rightarrow> j | _ \<Rightarrow> 255) \<and>
    (\<forall>k. k \<noteq> 255 \<longrightarrow>
      unique_loop r 255 i m k = Inr (if filter (\<lambda>j. \<not> isEmpty (x j)) [i..<17] = [] then k else 255))"
proof (induction m arbitrary: i)
  case (Suc m)
  have i: "[i..<17] = i # [Suc i..<17]" "i \<noteq> 255" "td_item r i = Inr (x i)"
    using Suc.prems assms(1) [of i] by (simp_all add: upt_conv_Cons)
  have "Suc i + m = 17" using Suc.prems by simp
  from Suc.IH [OF this] i show ?case by (auto split: list.splits)
qed simp

lemma uniqueInUse_branch:
  assumes "t_wf n (TBranch ts)" "n < 2 ^ 31"
  shows "uniqueInUse (t_enc sha3 (TBranch ts)) 255 = Inr (case used_kids ts of [i] \<Rightarrow> i | _ \<Rightarrow> 255)"
proof -
  let ?xs = "map (t_ref sha3) ts @ [Str []]"
  have l: "length ts = 16" "length ?xs = 17" using assms by auto
  note r = branch_read [OF kids_read(1) [OF assms] l(2), folded branch_item]
  have e: "\<not> isEmpty (rlp_enc (?xs ! j)) \<longleftrightarrow> j < 16 \<and> ts ! j \<noteq> TEmpty" if "j < 17" for j
  proof (cases "j < 16")
    case True
    with l isEmpty_ref [of sha3 "ts ! j"] show ?thesis by (simp add: nth_append)
  next
    case False
    with that have "j = 16" by simp
    with l show ?thesis by (simp add: nth_append isEmpty_def enc_str_def enc_header_def)
  qed
  have "filter (\<lambda>j. \<not> isEmpty (rlp_enc (?xs ! j))) [0..<17] = filter (\<lambda>j. j < 16 \<and> ts ! j \<noteq> TEmpty) [0..<17]"
    by (rule filter_cong) (use e in auto)
  also have "\<dots> = used_kids ts"
    using l upt_Suc_append [of 0 16] by (auto simp: used_kids_def intro!: filter_cong)
  finally have f: "filter (\<lambda>j. \<not> isEmpty (rlp_enc (?xs ! j))) [0..<17] = used_kids ts" .
  have "unique_loop (t_enc sha3 (TBranch ts)) 255 0 17 255 =
      Inr (case filter (\<lambda>j. \<not> isEmpty (rlp_enc (?xs ! j))) [0..<17] of [j] \<Rightarrow> j | _ \<Rightarrow> 255)"
    using unique_loop_eq [of "t_enc sha3 (TBranch ts)" "\<lambda>j. rlp_enc (?xs ! j)" 0 17] r(4) by simp
  thus ?thesis unfolding f uniqueInUse_def .
qed

lemma one_used:
  assumes "used_kids ts = [i]" "length ts = 16"
  shows "ts = no_kids[i := ts ! i]" "i < 16" "ts ! i \<noteq> TEmpty"
proof -
  have u: "j < 16 \<and> ts ! j \<noteq> TEmpty \<longleftrightarrow> j = i" for j using used_kids_iff [of j ts] assms by auto
  thus "i < 16" "ts ! i \<noteq> TEmpty" by auto
  show "ts = no_kids[i := ts ! i]"
  proof (rule nth_equalityI)
    fix j assume "j < length ts"
    thus "ts ! j = no_kids[i := ts ! i] ! j" using u [of j] assms(2) by (cases "j = i") auto
  qed (simp add: assms)
qed

lemma below_one:
  assumes "used_kids ts = [i]" "length ts = 16"
  shows "below sha3 (TBranch ts) = nodes sha3 (ts ! i)"
proof -
  note o = one_used [OF assms]
  obtain R where "sum_list (map (nodes sha3) no_kids) = nodes sha3 (no_kids ! i) + R"
    "\<And>t. sum_list (map (nodes sha3) (no_kids[i := t])) = nodes sha3 t + R"
    using nodes_update [of i no_kids sha3] o(2) by auto
  hence "sum_list (map (nodes sha3) (no_kids[i := ts ! i])) = nodes sha3 (ts ! i)" using o(2) by simp
  thus ?thesis unfolding o(1) [symmetric] by simp
qed

lemma merge_node_ok:
  assumes "t_wf n (TBranch ts)" "n < 2 ^ 31" "i < 16" "ts ! i \<noteq> TEmpty"
  shows "t_wf n (TExt [of_nat i] (ts ! i))"
    "merge_node (t_enc sha3 (TBranch ts)) i d = Inr (t_enc sha3 (TExt [of_nat i] (ts ! i)), d)"
    "td_item (t_enc sha3 (TBranch ts)) i = Inr (rlp_enc (t_ref sha3 (ts ! i)))"
proof -
  let ?xs = "map (t_ref sha3) ts @ [Str []]"
  have l: "length ts = 16" "length ?xs = 17" using assms by auto
  note r = branch_read [OF kids_read(1) [OF assms(1,2)] l(2), folded branch_item]
  show wf: "t_wf n (TExt [of_nat i] (ts ! i))" using assms l by (auto simp: nibble_of_nat)
  show item: "td_item (t_enc sha3 (TBranch ts)) i = Inr (rlp_enc (t_ref sha3 (ts ! i)))"
    using r(4) [of i] assms(3) l by (simp add: nth_append)
  have "nibble [of_nat i] 1 = (of_nat i :: byte)"
    using nibble_pair [of 0 "of_nat i"] nibble_of_nat [OF assms(3)] by (simp add: nibble_def is_nibble_def)
  hence ni: "nibbles [of_nat i] 1 2 = [of_nat i :: byte]" by (simp add: nibbles_def eval_nat_numeral)
  have "1 \<le> (2 :: nat)" "2 + 0 < (2 ^ 32 :: nat)" by simp_all
  from hexPrefixEncode_slice_eq [OF this, of "[of_nat i]" False] ni
  have hp: "hexPrefixEncode_slice [of_nat i] False 1 2 0 = hp_spec False [of_nat i]" by simp
  have "rlpList [ap_bytes (hp_spec False [of_nat i]), ap_rlp (rlp_enc (t_ref sha3 (ts ! i)))] = Inr (t_enc sha3 (TExt [of_nat i] (ts ! i)))"
    using rlpList_eq [OF ext_read(2) [OF wf assms(2), of sha3]] ap_rlp_eq [OF item_ok_fits [OF t_ref_ok]]
    by (simp add: ext_item ap_bytes_eq del: rlp_enc.simps)
  with r item hp assms(3,4) isEmpty_ref [of sha3 "ts ! i"] show
    "merge_node (t_enc sha3 (TBranch ts)) i d = Inr (t_enc sha3 (TExt [of_nat i] (ts ! i)), d)"
    by (simp add: merge_node_def del: rlp_enc.simps)
qed

lemma rejig_ok:
  assumes b: "t_wf n (TBranch ts)" "n < 2 ^ 31" and i: "used_kids ts = [i]"
    and has: "db_has sha3 B d (below sha3 (TBranch ts) + M)"
  shows "gives sha3 B (rejig (t_enc sha3 (TBranch ts)) i d) (t_enc sha3 (shrink ts)) (below sha3 (shrink ts) + M)"
proof -
  have l: "length ts = 16" using b by simp
  note o = one_used [OF i l] and m = merge_node_ok [OF b one_used(2,3) [OF i l]]
  have d: "db_has sha3 B d (nodes sha3 (ts ! i) + M)" using has unfolding below_one [OF i l] .
  have t: "t_wf (n - 1) (ts ! i)" "n - 1 < 2 ^ 31" using b l o by auto
  have s: "shrink ts = glue [of_nat i] (ts ! i)" using i by (simp add: shrink_def)
  have "rejig (t_enc sha3 (TBranch ts)) i d =
      (if is_pair (ts ! i) then graft (t_enc sha3 (TExt [of_nat i] (ts ! i))) d else Inr (t_enc sha3 (TExt [of_nat i] (ts ! i)), d))"
    using isTwoItemNode_ref [OF d t o(3)] m rlp_make_t_enc [OF m(1) b(2)] by (simp add: rejig_def)
  with join_ok [OF o(3) m(1) b(2) d] show ?thesis by (simp only: s)
qed

section \<open>Removal\<close>

definition removes :: "(bytes \<Rightarrow> u256) \<Rightarrow> bytes set \<Rightarrow> mem_db \<Rightarrow> bytes tdb \<Rightarrow> trie option \<Rightarrow> bytes multiset \<Rightarrow> bool" where
  "removes sha3 B d r t M \<longleftrightarrow> (case t of None \<Rightarrow> r = Inr ([], d)
     | Some u \<Rightarrow> gives sha3 B r (t_enc sha3 u) (below sha3 u + M))"

text \<open>The nodes that a removal makes: at each level what is left of the child, which may be grafted at once.\<close>

fun del_makes :: "(bytes \<Rightarrow> u256) \<Rightarrow> trie \<Rightarrow> bytes \<Rightarrow> bytes set" where
  "del_makes sha3 TEmpty k = {}"
| "del_makes sha3 (TLeaf p v) k = {}"
| "del_makes sha3 (TExt p t) k = (if take (length p) k = p
     then del_makes sha3 t (drop (length p) k) \<union> (case del t (drop (length p) k) of Some u \<Rightarrow> {t_enc sha3 u} | None \<Rightarrow> {}) else {})"
| "del_makes sha3 (TBranch ts) k = (if k \<noteq> [] \<and> unat (hd k) < length ts
     then del_makes sha3 (ts ! unat (hd k)) (tl k) \<union>
       (case del (ts ! unat (hd k)) (tl k) of Some u \<Rightarrow> {t_enc sha3 u} | None \<Rightarrow> {}) else {})"

lemma deleteAtAux_none:
  assumes has: "db_has sha3 B d (nodes sha3 t + M)" and t: "t_wf m t" "m < 2 ^ 31"
    and rec: "t \<noteq> TEmpty \<Longrightarrow> rec (t_enc sha3 t) k d = Inr ([], d)"
  shows "deleteAtAux sha3 rec s (rlp_enc (t_ref sha3 t)) k d = Inr ((False, s), d)"
  using isEmpty_ref [of sha3 t] td_child_ref [OF has t] rec by (cases "t = TEmpty") (simp_all add: deleteAtAux_def)

lemma deleteAtAux_some:
  assumes has: "db_has sha3 B d (nodes sha3 t + M)" and t: "t_wf m t" "m < 2 ^ 31" "t \<noteq> TEmpty"
    and rec: "gives sha3 B (rec (t_enc sha3 t) k d) (t_enc sha3 u) (below sha3 u + M)"
    and u: "t_enc sha3 u \<in> B" "t_wf m u" and w: "write_item (t_ref sha3 u) s = Inr s'"
  shows "gives sha3 B (deleteAtAux sha3 rec s (rlp_enc (t_ref sha3 t)) k d) (True, s') (nodes sha3 u + M)"
proof -
  obtain d1 where d1: "rec (t_enc sha3 t) k d = Inr (t_enc sha3 u, d1)" "db_has sha3 B d1 (below sha3 u + M)"
    using rec by (rule givesE)
  have "set_mset (own sha3 u) \<subseteq> B" using u(1) by (simp add: own_def)
  then obtain d2 where d2: "streamNode sha3 (t_enc sha3 u) s d1 = Inr (s', d2)" "db_has sha3 B d2 (nodes sha3 u + M)"
    using streamNode_ref [OF d1(2) _ u(2) t(2) w] by (auto simp: nodes_def add.assoc elim: givesE)
  with d1 td_child_ref [OF has t] isEmpty_ref [of sha3 t] t(3) show ?thesis
    by (simp add: deleteAtAux_def givesI)
qed

lemma delete_ext:
  assumes t: "t_wf n (TExt p t)" "n < 2 ^ 31" and k: "slice_ok k ns" "take (length p) ns = p"
    and has: "db_has sha3 B d (nodes sha3 (TExt p t) + M)"
    and rec: "removes sha3 B d (deleteAt sha3 f (t_enc sha3 t) (ns_mid k (length p)) d) r (own sha3 (TExt p t) + M)"
    and u: "\<And>u. r = Some u \<Longrightarrow> t_wf (n - length p) u \<and> u \<noteq> TEmpty \<and> t_enc sha3 u \<in> B"
  shows "removes sha3 B d (deleteAt sha3 (Suc f) (t_enc sha3 (TExt p t)) k d) (map_option (glue p) r) M"
proof -
  have p: "p \<noteq> []" "list_all is_nibble p" "t \<noteq> TEmpty" "t_wf (n - length p) t" "n - length p < 2 ^ 31" "length p \<le> n" using t by auto
  have y: "t_item sha3 (TExt p t) = Lst [Str (hp_spec (leafy (TExt p t)) (t_path (TExt p t))), t_ref sha3 t]"
    by (simp add: t_item_ref del: t_item.simps)
  note rd = pair_node [OF _ t y, simplified]
  have i0: "td_item (t_enc sha3 (TExt p t)) 0 = Inr (rlp_enc (Str (hp_spec False p)))"
    using pair_read(4) [OF ext_read(1) [OF t, of sha3] p(2)] by (simp add: ext_item del: rlp_enc.simps)
  note kp = slice_keyOf [OF p(2,6) t(2), of False]
  have c: "ns_contains k (keyOf (hp_spec False p))" "ns_size (keyOf (hp_spec False p)) = length p"
    using slice_contains [OF k(1) kp] k(2) slice_size [OF kp] by auto
  have hp: "ap_rlp (rlp_enc (Str (hp_spec False p))) = write_item (Str (hp_spec False p))"
    by (rule ap_rlp_eq) (use ext_read(2) [OF t, of sha3] in simp)
  have fits: "rlp_fits (Lst ([Str (hp_spec False p)] @ t_ref sha3 x # []))" if "t_wf n (TExt p x)" for x
    using ext_read(2) [OF that t(2), of sha3] by simp
  obtain s where s: "bindE (appendList rlp_stream_new 2) (write_items [Str (hp_spec False p)]) = Inr s"
    by (rule write_around [OF fits [OF t(1)], of 2]) auto
  have s1: "bindE (appendList rlp_stream_new 2) (ap_rlp (rlp_enc (Str (hp_spec False p)))) = Inr s"
    using s unfolding hp write_items_one .
  have has': "db_has sha3 B d (nodes sha3 t + (own sha3 (TExt p t) + M))"
    using has by (simp add: nodes_def [of _ "TExt p t"] ac_simps)
  show ?thesis
  proof (cases r)
    case None
    have "deleteAtAux sha3 (deleteAt sha3 f) s (rlp_enc (t_ref sha3 t)) (ns_mid k (length p)) d = Inr ((False, s), d)"
      by (rule deleteAtAux_none [OF has' p(4,5)]) (use rec None in \<open>simp add: removes_def\<close>)
    with None rd i0 c s1 show ?thesis by (simp add: removes_def del: rlp_enc.simps)
  next
    case (Some u)
    have uw: "t_wf (n - length p) u" "u \<noteq> TEmpty" "t_enc sha3 u \<in> B" and e: "t_wf n (TExt p u)"
      using u [OF Some] t by auto
    obtain s' where s': "write_item (t_ref sha3 u) s = Inr s'" "stream_out s' = Inr (t_enc sha3 (TExt p u))"
      by (rule write_around [OF fits [OF e], of 2]) (use s in \<open>auto simp: ext_item simp del: rlp_enc.simps\<close>)
    have "gives sha3 B (deleteAt sha3 f (t_enc sha3 t) (ns_mid k (length p)) d) (t_enc sha3 u) (below sha3 u + (own sha3 (TExt p t) + M))"
      using rec Some by (simp add: removes_def)
    from deleteAtAux_some [where rec = "deleteAt sha3 f", OF has' p(4,5,3) this uw(3,1) s'(1)] obtain d1
      where d1: "deleteAtAux sha3 (deleteAt sha3 f) s (rlp_enc (t_ref sha3 t)) (ns_mid k (length p)) d = Inr ((True, s'), d1)"
        "db_has sha3 B d1 (nodes sha3 u + (own sha3 (TExt p t) + M))" by (rule givesE)
    let ?d = "killNode (t_enc sha3 (TExt p t)) (sha3 (t_enc sha3 (TExt p t))) d1"
    have d: "db_has sha3 B ?d (nodes sha3 u + M)" by (rule killNode_own) (use d1(2) in \<open>simp add: ac_simps\<close>)
    have "t_item sha3 (TExt p u) = Lst [Str (hp_spec (leafy (TExt p u)) (t_path (TExt p u))), t_ref sha3 u]"
      by (simp add: t_item_ref del: t_item.simps)
    note ru = pair_node(6) [OF _ e t(2) this, simplified]
    have "deleteAt sha3 (Suc f) (t_enc sha3 (TExt p t)) k d =
        (if is_pair u then graft (t_enc sha3 (TExt p u)) ?d else Inr (t_enc sha3 (TExt p u), ?d))"
      using rd i0 c s1 d1(1) s'(2) rlp_make_t_enc [OF e t(2)] ru isTwoItemNode_ref [OF d uw(1) p(5) uw(2)]
      by (simp add: Let_def del: rlp_enc.simps)
    with join_ok [OF uw(2) e t(2) d] Some show ?thesis by (simp only: removes_def) simp
  qed
qed

lemma isEmpty_null: "isEmpty (rlp_enc (Str []))"
  by (simp add: isEmpty_def enc_str_def enc_header_def)

lemma delete_branch:
  fixes ts ns
  defines "i \<equiv> unat (hd ns)"
  assumes t: "t_wf n (TBranch ts)" "n < 2 ^ 31" and k: "slice_ok k ns" "ns \<noteq> []" "i < 16"
    and has: "db_has sha3 B d (nodes sha3 (TBranch ts) + M)"
    and rec: "\<And>R. db_has sha3 B d (nodes sha3 (ts ! i) + R) \<Longrightarrow> removes sha3 B d (deleteAt sha3 f (t_enc sha3 (ts ! i)) (ns_mid k 1) d) r R"
    and u: "\<And>u. r = Some u \<Longrightarrow> ts ! i \<noteq> TEmpty \<and> t_wf (n - 1) u \<and> t_enc sha3 u \<in> B \<and> used_kids (ts[i := u]) \<noteq> []"
  shows "removes sha3 B d (deleteAt sha3 (Suc f) (t_enc sha3 (TBranch ts)) k d) (map_option (\<lambda>u. shrink (ts[i := u])) r) M"
proof -
  let ?xs = "map (t_ref sha3) ts @ [Str []]" and ?b = "t_enc sha3 (TBranch ts)"
  have l: "length ts = 16" "length ?xs = 17" using t by auto
  note ok = kids_read [OF t, of sha3]
  note rd = branch_read [OF ok(1) l(2), folded branch_item [of sha3]]
  have items: "map (t_ref sha3) (ts[i := x]) @ [Str []] = take i ?xs @ t_ref sha3 x # drop (Suc i) ?xs" for x
    using l k(3) by (simp add: upd_conv_take_nth_drop take_map drop_map)
  have wf: "t_wf n (TBranch (ts[i := x]))" if "t_wf (n - 1) x" for x
    using that t set_update_subset_insert [of ts i x] by auto
  have kid: "t_wf (n - 1) (ts ! i)" "n - 1 < 2 ^ 31" using t l k(3) by auto
  have fits: "rlp_fits (Lst (take i ?xs @ t_ref sha3 x # drop (Suc i) ?xs))" if "t_wf (n - 1) x" for x
    using kids_read(2) [OF wf [OF that] t(2), of sha3] unfolding items .
  have len: "17 = length (take i ?xs @ t_ref sha3 x # drop (Suc i) ?xs)" for x
    using l unfolding items [symmetric] by simp
  obtain s where s: "bindE (appendList rlp_stream_new 17) (write_items (take i ?xs)) = Inr s"
    by (rule write_around [OF fits [OF kid(1)] len]) auto
  have copy: "copy_items ?b 0 i = write_items (take i ?xs)"
    "copy_items ?b (i + 1) (17 - (i + 1)) = write_items (drop (Suc i) ?xs)"
    using copy_items_eq [OF ok(1), of 0 i] copy_items_eq [OF ok(1), of "i + 1" "17 - (i + 1)"] l k(3)
    by (simp_all add: branch_item del: rlp_enc.simps)
  have item: "td_item ?b i = Inr (rlp_enc (t_ref sha3 (ts ! i)))" "td_item ?b 16 = Inr (rlp_enc (Str []))"
    using rd(4) [of i] rd(4) [of 16] k(3) l by (simp_all add: nth_append)
  have at: "ns_at k 0 = hd ns" "ns_size k \<noteq> 0"
    using slice_hd [of k "hd ns" "tl ns"] slice_size [OF k(1)] k by simp_all
  obtain R where R: "sum_list (map (nodes sha3) ts) = nodes sha3 (ts ! i) + R"
    "\<And>t. sum_list (map (nodes sha3) (ts[i := t])) = nodes sha3 t + R"
    using nodes_update [of i ts sha3] l k(3) by auto
  let ?M = "R + (own sha3 (TBranch ts) + M)"
  have has': "db_has sha3 B d (nodes sha3 (ts ! i) + ?M)"
    using has R(1) by (simp add: nodes_def [of _ "TBranch ts"] ac_simps)
  note rm = rec [OF has']
  show ?thesis
  proof (cases r)
    case None
    have "deleteAtAux sha3 (deleteAt sha3 f) s (rlp_enc (t_ref sha3 (ts ! i))) (ns_mid k 1) d = Inr ((False, s), d)"
      by (rule deleteAtAux_none [OF has' kid]) (use rm None in \<open>simp add: removes_def\<close>)
    with None rd item copy at s show ?thesis
      by (simp add: removes_def Let_def isEmpty_null i_def [symmetric] del: rlp_enc.simps copy_items.simps)
  next
    case (Some u)
    note uw = u [OF Some]
    let ?ts = "ts[i := u]"
    have e: "t_wf n (TBranch ?ts)" using wf [of u] uw by blast
    obtain s' s2 where s': "write_item (t_ref sha3 u) s = Inr s'" "write_items (drop (Suc i) ?xs) s' = Inr s2"
        "stream_out s2 = Inr (t_enc sha3 (TBranch ?ts))"
      by (rule write_around [OF fits [of u] len]) (use s uw in \<open>auto simp: branch_item items bindE_Inr_iff simp del: rlp_enc.simps list_update.simps\<close>)
    have rg: "gives sha3 B (deleteAt sha3 f (t_enc sha3 (ts ! i)) (ns_mid k 1) d) (t_enc sha3 u) (below sha3 u + ?M)"
      using rm Some by (simp add: removes_def)
    obtain d1 where d1: "deleteAtAux sha3 (deleteAt sha3 f) s (rlp_enc (t_ref sha3 (ts ! i))) (ns_mid k 1) d = Inr ((True, s'), d1)"
        "db_has sha3 B d1 (nodes sha3 u + ?M)"
      using deleteAtAux_some [where rec = "deleteAt sha3 f", OF has' kid _ rg _ _ s'(1)] uw by (auto elim: givesE)
    let ?d = "killNode ?b (sha3 ?b) d1"
    have "db_has sha3 B ?d (nodes sha3 u + (R + M))" by (rule killNode_own) (use d1(2) in \<open>simp add: ac_simps\<close>)
    hence d: "db_has sha3 B ?d (below sha3 (TBranch ?ts) + M)" using R(2) [of u] by (simp add: add.assoc)
    note uq = uniqueInUse_branch [OF e t(2), of sha3]
    have del: "deleteAt sha3 (Suc f) ?b k d =
        bindE (td_lift (uniqueInUse (t_enc sha3 (TBranch ?ts)) 255) ?d) (\<lambda>(used, d).
          if used = 255 then Inr (t_enc sha3 (TBranch ?ts), d) else rejig (t_enc sha3 (TBranch ?ts)) used d)"
      using rd item copy at s d1(1) s' rlp_make_t_enc [OF e t(2)]
      by (simp add: Let_def isEmpty_null i_def [symmetric] del: rlp_enc.simps copy_items.simps)
    have "gives sha3 B (deleteAt sha3 (Suc f) ?b k d) (t_enc sha3 (shrink ?ts)) (below sha3 (shrink ?ts) + M)"
    proof (cases "\<exists>j. used_kids ?ts = [j]")
      case True
      then obtain j where j: "used_kids ?ts = [j]" by auto
      have "j < 16" using one_used(2) [OF j] l by simp
      with rejig_ok [OF e t(2) j d] del uq j show ?thesis by simp
    next
      case False
      hence "(case used_kids ?ts of [j] \<Rightarrow> j | _ \<Rightarrow> 255) = 255" "shrink ?ts = TBranch ?ts"
        by (auto simp: shrink_def split: list.splits)
      with del uq d show ?thesis by (auto intro: givesI)
    qed
    thus ?thesis using Some by (simp add: removes_def)
  qed
qed

lemma deleteAt_del:
  assumes "t_ok n t" "n < 2 ^ 31" "slice_ok k ns" "path_ok n ns" "n + 1 \<le> f"
    "db_has sha3 B d (nodes sha3 t + M)" "del_makes sha3 t ns \<subseteq> B"
  shows "removes sha3 B d (deleteAt sha3 f (t_enc sha3 t) k d) (del t ns) M"
  using assms
proof (induction t ns arbitrary: n f k M rule: del.induct)
  case (1 ns)
  then obtain g where "f = Suc g" by (cases f) auto
  thus ?case by (simp add: removes_def isEmpty_def)
next
  case (2 p v ns)
  obtain g where f: "f = Suc g" using 2 by (cases f) auto
  have wf: "t_wf n (TLeaf p v)" and nib: "list_all is_nibble p" "length p \<le> n" and len: "length p = length ns"
    using 2 by (auto simp: t_ok_def path_ok_def)
  have y: "t_item sha3 (TLeaf p v) = Lst [Str (hp_spec (leafy (TLeaf p v)) (t_path (TLeaf p v))), Str v]" by simp
  note r = pair_node [OF _ wf 2(2) y, simplified]
  have eq: "ns_equal (keyOf (hp_spec True p)) k \<longleftrightarrow> p = ns" by (rule slice_equal [OF slice_keyOf [OF nib 2(2)] 2(3)])
  have ct: "ns_contains k (keyOf (hp_spec True p)) \<longleftrightarrow> p = ns"
    using slice_contains [OF 2(3) slice_keyOf [OF nib 2(2)], of True] len by auto
  have "db_has sha3 B d (own sha3 (TLeaf p v) + M)" using 2(6) by (simp add: nodes_def)
  from killNode_own [OF this] r eq ct f show ?case by (auto simp: removes_def intro: givesI)
next
  case (3 p t ns)
  obtain g where f: "f = Suc g" using 3 by (cases f) auto
  have wf: "t_wf n (TExt p t)" and p: "p \<noteq> []" "length p \<le> n" "list_all is_nibble p" "t_ok (n - length p) t" "is_branch t"
    using 3 by (auto simp: t_ok_def)
  show ?case
  proof (cases "take (length p) ns = p")
    case True
    note k = path_ok_drop [OF "3.prems"(4) p(2)]
    have m: "n - length p < 2 ^ 31" "n - length p + 1 \<le> g" using "3.prems"(2,5) p(1,2) f by (simp, cases p) auto
    have sl: "slice_ok (ns_mid k (length p)) (drop (length p) ns)"
      using slice_mid [OF "3.prems"(3), of "length p"] p(2) "3.prems"(4) by (simp add: path_ok_def)
    have B: "del_makes sha3 t (drop (length p) ns) \<subseteq> B" using "3.prems"(7) True by simp
    have "db_has sha3 B d (nodes sha3 t + (own sha3 (TExt p t) + M))"
      using "3.prems"(6) by (simp add: nodes_def [of _ "TExt p t"] ac_simps)
    note rec = "3.IH" [OF True p(4) m(1) sl k m(2) this B]
    have "t_wf (n - length p) u \<and> u \<noteq> TEmpty \<and> t_enc sha3 u \<in> B" if "del t (drop (length p) ns) = Some u" for u
      using del_ok [OF p(4) k that] that "3.prems"(7) True p(5) by (simp add: t_ok_def)
    from delete_ext [OF wf "3.prems"(2,3) True "3.prems"(6) rec this] True f show ?thesis by simp
  next
    case False
    have y: "t_item sha3 (TExt p t) = Lst [Str (hp_spec (leafy (TExt p t)) (t_path (TExt p t))), t_ref sha3 t]"
      by (simp add: t_item_ref del: t_item.simps)
    note r = pair_node [OF _ wf "3.prems"(2) y, simplified]
    from slice_contains [OF "3.prems"(3) slice_keyOf [OF p(3,2) "3.prems"(2)], of False] r False f show ?thesis
      by (simp add: removes_def)
  qed
next
  case (4 ts ns)
  let ?i = "unat (hd ns)"
  obtain g where f: "f = Suc g" using 4 by (cases f) auto
  have wf: "t_wf n (TBranch ts)" and n: "0 < n" "length ts = 16" "2 \<le> length (used_kids ts)" using 4 by (auto simp: t_ok_def)
  from path_ok_hd [OF "4.prems"(4) n(1)] have h: "?i < 16" "path_ok (n - 1) (tl ns)" by auto
  have ne: "ns \<noteq> []" using "4.prems"(4) n by (auto simp: path_ok_def)
  have c: "t_ok (n - 1) (ts ! ?i)" using 4 h n by (auto simp: t_ok_def)
  have i: "ns \<noteq> [] \<and> ?i < length ts" and m: "n - 1 < 2 ^ 31" "n - 1 + 1 \<le> g" using "4.prems"(2,5) n h ne f by simp_all
  have sl: "slice_ok (ns_mid k 1) (tl ns)" using slice_mid [OF "4.prems"(3), of 1] ne by (cases ns) auto
  have B: "del_makes sha3 (ts ! ?i) (tl ns) \<subseteq> B" using "4.prems"(7) i by simp
  have u: "ts ! ?i \<noteq> TEmpty \<and> t_wf (n - 1) u \<and> t_enc sha3 u \<in> B \<and> used_kids (ts[?i := u]) \<noteq> []"
    if "del (ts ! ?i) (tl ns) = Some u" for u
    using del_ok [OF c h(2) that] that "4.prems"(7) i used_left [OF n(3)] by (auto simp: t_ok_def)
  from delete_branch [OF wf "4.prems"(2,3) ne h(1) "4.prems"(6) "4.IH" [OF i c m(1) sl h(2) m(2) _ B] u] i f
  show ?case by simp
qed

end
