(* ===== verification/TrieMap.thy ===== *)
theory TrieMap
  imports TrieDelete
begin

text \<open>
  The trie of a database as a map from keys to values. \<open>trie_rep\<close> says that a root stands for a tree;
  the operations on the database keep it and act on the tree, whose meaning is the map. Two trees with
  the same map are the same, so the root is a function of the map.
\<close>

section \<open>Keys\<close>

lemma byte_split: "(x :: byte) = (x div 16) * 16 + x mod 16"
  by (simp add: div_mult_mod_eq)

lemma asNibbles_inj: "asNibbles a = asNibbles b \<Longrightarrow> a = b"
proof (induction a arbitrary: b)
  case Nil
  then show ?case by (cases b) (simp_all add: asNibbles_def)
next
  case (Cons x a)
  then obtain y c where b: "b = y # c" by (cases b) (auto simp: asNibbles_def)
  with Cons.prems have e: "x div 16 = y div 16" "x mod 16 = y mod 16" "asNibbles a = asNibbles c"
    by (simp_all add: asNibbles_def)
  from Cons.IH [OF e(3)] e(1,2) byte_split [of x] byte_split [of y] b show ?case by simp
qed

lemma length_asNibbles: "length (asNibbles k) = 2 * length k"
  by (induction k) (simp_all add: asNibbles_def)

lemma nibble_byte: "drop_bit 4 (x :: byte) = x div 16" "x AND 15 = x mod 16"
proof -
  have "(15 :: byte) = mask 4" by (simp add: mask_eq_exp_minus_1)
  hence "x AND 15 = take_bit 4 x" by (simp only: take_bit_eq_mask)
  thus "x AND 15 = x mod 16" by (simp add: take_bit_eq_mod)
qed (simp add: drop_bit_eq_div)

lemma asNibbles_eq: "asNibbles k = nibbles k 0 (length k * 2)"
proof (induction k)
  case (Cons x k)
  have "[0..<length (x # k) * 2] = 0 # 1 # map (\<lambda>i. Suc (Suc i)) [0..<length k * 2]"
    using map_add_upt [of 2 "length k * 2"] by (simp add: upt_conv_Cons numeral_2_eq_2 del: upt_Suc)
  moreover have "nibble (x # k) (Suc (Suc i)) = nibble k i" for i by (simp add: nibble_def)
  ultimately have "nibbles (x # k) 0 (length (x # k) * 2) = nibble (x # k) 0 # nibble (x # k) 1 # nibbles k 0 (length k * 2)"
    by (simp add: nibbles_def)
  with Cons nibble_byte [of x] show ?case by (simp add: asNibbles_def nibble_def)
qed (simp add: asNibbles_def)

lemma slice_asNibbles: "2 * length k < 2 ^ 31 \<Longrightarrow> slice_ok (key_slice k) (asNibbles k)"
  using slice_key [of k] by (simp add: asNibbles_eq)

lemma path_asNibbles: "path_ok (2 * length k) (asNibbles k)"
  using nibbles_all [of k 0 "length k * 2"] by (simp add: path_ok_def length_asNibbles asNibbles_eq)

section \<open>The root of a tree in a database\<close>

definition stored :: "(bytes \<Rightarrow> u256) \<Rightarrow> trie \<Rightarrow> bytes multiset" where
  "stored sha3 t = add_mset (t_enc sha3 t) (below sha3 t)"

definition trie_rep :: "(bytes \<Rightarrow> u256) \<Rightarrow> nat \<Rightarrow> bytes set \<Rightarrow> mem_db \<Rightarrow> u256 \<Rightarrow> trie \<Rightarrow> bytes multiset \<Rightarrow> bool" where
  "trie_rep sha3 n B d root t M \<longleftrightarrow>
     t_ok n t \<and> n < 2 ^ 31 \<and> root = sha3 (t_enc sha3 t) \<and> db_has sha3 B d (stored sha3 t + M)"

lemma rep_read:
  assumes "trie_rep sha3 n B d root t M"
  shows "ov_lookup root d = t_enc sha3 t" "td_node root d = Inr (t_enc sha3 t, d)"
proof -
  have r: "t_wf n t" "n < 2 ^ 31" "root = sha3 (t_enc sha3 t)" "db_has sha3 B d (stored sha3 t + M)"
    using assms by (auto simp: trie_rep_def t_ok_def)
  have m: "t_enc sha3 t \<in># stored sha3 t + M" by (simp add: stored_def)
  show "ov_lookup root d = t_enc sha3 t" using db_has_read [OF r(4) m] r(3) by simp
  show "td_node root d = Inr (t_enc sha3 t, d)" using td_node_read [OF r(4) m r(1,2)] r(3) by simp
qed

lemma rep_at:
  assumes "trie_rep sha3 (2 * length key) B d root t M"
  shows "trie_at root key d = Inr (found_value (look t (asNibbles key)), d)"
proof -
  have r: "t_wf (2 * length key) t" "2 * length key < 2 ^ 31" "db_has sha3 B d (below sha3 t + ({#t_enc sha3 t#} + M))"
    using assms by (auto simp: trie_rep_def t_ok_def stored_def ac_simps)
  from atAux_look [OF r(1,2) slice_asNibbles [OF r(2)] path_asNibbles _ r(3), of "td_fuel key"] rep_read(2) [OF assms]
  show ?thesis by (simp add: trie_at_def td_fuel_def)
qed

lemma rep_insert:
  assumes rep: "trie_rep sha3 (2 * length key) B d root t M" and v: "length v < 2 ^ 60"
    and B: "ins_makes sha3 t (asNibbles key) v \<subseteq> B" "t_enc sha3 (ins t (asNibbles key) v) \<in> B"
  shows "\<exists>root' d'. trie_insert sha3 root key v d = Inr (root', d') \<and>
    trie_rep sha3 (2 * length key) B d' root' (ins t (asNibbles key) v) M"
proof -
  let ?n = "2 * length key" and ?u = "ins t (asNibbles key) v" and ?e = "t_enc sha3 t"
  have r: "t_ok ?n t" "?n < 2 ^ 31" "root = sha3 ?e" using rep by (auto simp: trie_rep_def)
  define N where "N = (if length ?e < 32 then {#?e#} else {#})"
  have "stored sha3 t + M = nodes sha3 t + (N + M)"
    by (simp add: stored_def nodes_def own_def N_def)
  hence has: "db_has sha3 B d (nodes sha3 t + (N + M))" using rep by (simp add: trie_rep_def add.assoc)
  have "gives sha3 B (mergeAt sha3 (td_fuel key) ?e (sha3 ?e) (key_slice key) v False d) (t_enc sha3 ?u) (below sha3 ?u + (N + M))"
    by (rule mergeAt_ins [OF r(1,2) slice_asNibbles [OF r(2)] path_asNibbles v _ _ has B(1)]) (simp_all add: td_fuel_def)
  then obtain d1 where d1: "mergeAt sha3 (td_fuel key) ?e root (key_slice key) v False d = Inr (t_enc sha3 ?u, d1)"
    "db_has sha3 B d1 (below sha3 ?u + (N + M))" unfolding r(3) by (rule givesE)
  define d2 where "d2 = (if length ?e < 32 then forceKillNode root d1 else d1)"
  have d2: "db_has sha3 B d2 (below sha3 ?u + M)"
    using d1(2) db_has_kill [of sha3 B d1 ?e "below sha3 ?u + M"] by (auto simp: d2_def N_def r(3))
  from db_has_insert [OF d2 B(2)] have d3: "db_has sha3 B (md_insert (sha3 (t_enc sha3 ?u)) (t_enc sha3 ?u) d2) (stored sha3 ?u + M)"
    by (simp add: stored_def)
  have wf: "t_wf ?n t" using r(1) by (simp add: t_ok_def)
  have "trie_insert sha3 root key v d = Inr (sha3 (t_enc sha3 ?u), md_insert (sha3 (t_enc sha3 ?u)) (t_enc sha3 ?u) d2)"
    using rep_read(1) [OF rep] rlp_make_t_enc [OF wf r(2)] d1(1)
    by (simp add: trie_insert_def Let_def d2_def forceInsertNode_def)
  with d3 ins_ok [OF r(1) path_asNibbles v] r(2) show ?thesis by (auto simp: trie_rep_def)
qed

definition rm :: "trie \<Rightarrow> bytes \<Rightarrow> trie" where
  "rm t k = (case del t k of Some u \<Rightarrow> u | None \<Rightarrow> t)"

lemma rep_remove:
  assumes rep: "trie_rep sha3 (2 * length key) B d root t M"
    and B: "del_makes sha3 t (asNibbles key) \<subseteq> B" "t_enc sha3 (rm t (asNibbles key)) \<in> B"
  shows "\<exists>root' d'. trie_remove sha3 root key d = Inr (root', d') \<and>
    trie_rep sha3 (2 * length key) B d' root' (rm t (asNibbles key)) M \<and>
    (look t (asNibbles key) = None \<longrightarrow> root' = root \<and> d' = d)"
proof -
  let ?n = "2 * length key" and ?e = "t_enc sha3 t"
  have r: "t_ok ?n t" "?n < 2 ^ 31" "root = sha3 ?e" using rep by (auto simp: trie_rep_def)
  have wf: "t_wf ?n t" using r(1) by (simp add: t_ok_def)
  define N where "N = (if length ?e < 32 then {#?e#} else {#})"
  have "stored sha3 t + M = nodes sha3 t + (N + M)"
    by (simp add: stored_def nodes_def own_def N_def)
  hence has: "db_has sha3 B d (nodes sha3 t + (N + M))" using rep by (simp add: trie_rep_def add.assoc)
  have del: "removes sha3 B d (deleteAt sha3 (td_fuel key) ?e (key_slice key) d) (del t (asNibbles key)) (N + M)"
    by (rule deleteAt_del [OF r(1,2) slice_asNibbles [OF r(2)] path_asNibbles _ has B(1)]) (simp add: td_fuel_def)
  note start = rep_read(1) [OF rep] rlp_make_t_enc [OF wf r(2)]
  show ?thesis
  proof (cases "del t (asNibbles key)")
    case None
    with del start rep show ?thesis by (simp add: removes_def trie_remove_def rm_def)
  next
    case (Some u)
    hence "gives sha3 B (deleteAt sha3 (td_fuel key) ?e (key_slice key) d) (t_enc sha3 u) (below sha3 u + (N + M))"
      using del by (simp add: removes_def)
    then obtain d1 where d1: "deleteAt sha3 (td_fuel key) ?e (key_slice key) d = Inr (t_enc sha3 u, d1)"
      "db_has sha3 B d1 (below sha3 u + (N + M))" by (rule givesE)
    define d2 where "d2 = (if length ?e < 32 then forceKillNode root d1 else d1)"
    have d2: "db_has sha3 B d2 (below sha3 u + M)"
      using d1(2) db_has_kill [of sha3 B d1 ?e "below sha3 u + M"] by (auto simp: d2_def N_def r(3))
    have uB: "t_enc sha3 u \<in> B" using B(2) Some by (simp add: rm_def)
    from db_has_insert [OF d2 uB] have d3: "db_has sha3 B (md_insert (sha3 (t_enc sha3 u)) (t_enc sha3 u) d2) (stored sha3 u + M)"
      by (simp add: stored_def)
    have "trie_remove sha3 root key d = Inr (sha3 (t_enc sha3 u), md_insert (sha3 (t_enc sha3 u)) (t_enc sha3 u) d2)"
      using start d1(1) by (simp add: trie_remove_def Let_def d2_def forceInsertNode_def)
    moreover have "look t (asNibbles key) \<noteq> None" using look_del [OF wf path_asNibbles] Some by simp
    moreover have "t_ok ?n u" using del_ok [OF r(1) path_asNibbles Some] by simp
    ultimately show ?thesis using d3 Some r(2) by (auto simp: trie_rep_def rm_def)
  qed
qed

lemma look_rm:
  assumes "t_wf n t" "path_ok n k" "length k' = n"
  shows "look (rm t k) k' = (if k' = k then None else look t k')"
  using look_del [OF assms(1,2)] assms(3) by (auto simp: rm_def split: option.splits)

end
