(* ===== verification/TrieCanon.thy ===== *)
theory TrieCanon
  imports TrieSpec
begin

text \<open>
  A tree of the shape that the operations keep is determined by the map it stands for.
\<close>

lemma path_Cons: "path_ok n (a # k) \<longleftrightarrow> 0 < n \<and> is_nibble a \<and> path_ok (n - 1) k"
  by (cases n) (auto simp: path_ok_def)

lemma path_append: "list_all is_nibble p \<Longrightarrow> length p \<le> n \<Longrightarrow> path_ok (n - length p) k \<Longrightarrow> path_ok n (p @ k)"
  by (auto simp: path_ok_def)

lemma unat_nib: "i < 16 \<Longrightarrow> unat (of_nat i :: byte) = i"
  by (simp add: unat_of_nat)

lemma key_exists: "t_ok n t \<Longrightarrow> t \<noteq> TEmpty \<Longrightarrow> \<exists>k. path_ok n k \<and> look t k \<noteq> None"
proof (induction t arbitrary: n)
  case (TLeaf p v)
  then show ?case by (intro exI [of _ p]) (auto simp: t_ok_def path_ok_def)
next
  case (TExt p t)
  hence p: "list_all is_nibble p" "length p \<le> n" "t_ok (n - length p) t" "t \<noteq> TEmpty" by (auto simp: t_ok_def)
  from TExt.IH [OF p(3,4)] obtain k where "path_ok (n - length p) k" "look t k \<noteq> None" by auto
  with path_append [OF p(1,2)] show ?case by (intro exI [of _ "p @ k"]) auto
next
  case (TBranch ts)
  hence t: "0 < n" "length ts = 16" "\<forall>t\<in>set ts. t_ok (n - 1) t" "used_kids ts \<noteq> []" by (auto simp: t_ok_def)
  then obtain i where i: "i < 16" "ts ! i \<noteq> TEmpty" using used_kids_iff by (metis last_in_set)
  hence m: "ts ! i \<in> set ts" using t by simp
  with t(3) have "t_ok (n - 1) (ts ! i)" by blast
  from TBranch.IH [OF m this i(2)] obtain k where "path_ok (n - 1) k" "look (ts ! i) k \<noteq> None" by auto
  with i t show ?case
    by (intro exI [of _ "of_nat i # k"]) (simp add: path_Cons nibble_of_nat unat_nib)
qed simp

text \<open>A branch has two keys that part at once.\<close>

lemma two_keys:
  assumes "t_ok n t" "is_branch t"
  shows "\<exists>a k b l. a \<noteq> b \<and> path_ok n (a # k) \<and> path_ok n (b # l) \<and> look t (a # k) \<noteq> None \<and> look t (b # l) \<noteq> None"
proof -
  obtain ts where ts: "t = TBranch ts" using assms(2) by (cases t) auto
  hence t: "0 < n" "length ts = 16" "\<forall>t\<in>set ts. t_ok (n - 1) t" "2 \<le> length (used_kids ts)" using assms by (auto simp: t_ok_def)
  then obtain i j r where u: "used_kids ts = i # j # r" by (cases "used_kids ts" rule: remdups_adj.cases) auto
  hence "i \<noteq> j" using distinct_used_kids [of ts] by simp
  moreover have e: "\<exists>k. path_ok n (of_nat m # k) \<and> look t (of_nat m # k) \<noteq> None" if "m \<in> set (used_kids ts)" for m
  proof -
    have m: "m < 16" "ts ! m \<noteq> TEmpty" using that used_kids_iff [of m ts] t by auto
    hence "t_ok (n - 1) (ts ! m)" using t by simp
    from key_exists [OF this m(2)] m t ts show ?thesis by (auto simp: path_Cons nibble_of_nat unat_nib)
  qed
  moreover have "i < 16" "j < 16" using u used_kids_iff [of i ts] used_kids_iff [of j ts] t by auto
  hence "(of_nat i :: byte) \<noteq> of_nat j" using \<open>i \<noteq> j\<close> by (metis unat_nib)
  moreover obtain k l where "path_ok n (of_nat i # k)" "look t (of_nat i # k) \<noteq> None"
      "path_ok n (of_nat j # l)" "look t (of_nat j # l) \<noteq> None"
    using e [of i] e [of j] u by (auto simp del: look.simps)
  ultimately show ?thesis by blast
qed

lemma ext_prefix: "look (TExt p t) k \<noteq> None \<Longrightarrow> take (length p) k = p"
  by (auto split: if_splits)

lemma ext_shorter:
  assumes t: "t_ok n (TExt p t)" "t_ok n (TExt q u)"
    and eq: "\<And>k. path_ok n k \<Longrightarrow> look (TExt p t) k = look (TExt q u) k"
  shows "length q \<le> length p"
proof (rule ccontr)
  assume "\<not> length q \<le> length p"
  hence less: "length p < length q" by simp
  have p: "list_all is_nibble p" "length p \<le> n" "t_ok (n - length p) t" "is_branch t" using t by (auto simp: t_ok_def)
  from two_keys [OF p(3,4)] obtain a k b l where ab: "a \<noteq> b" "path_ok (n - length p) (a # k)" "path_ok (n - length p) (b # l)"
    "look t (a # k) \<noteq> None" "look t (b # l) \<noteq> None" by blast
  have "q ! length p = c" if "path_ok (n - length p) (c # m)" "look t (c # m) \<noteq> None" for c m
  proof -
    have "look (TExt q u) (p @ c # m) \<noteq> None" using eq [OF path_append [OF p(1,2) that(1)]] that(2) by simp
    hence "take (length q) (p @ c # m) = q" by (rule ext_prefix)
    thus ?thesis using less by (metis nth_append_length nth_take)
  qed
  from this [OF ab(2,4)] this [OF ab(3,5)] ab(1) show False by simp
qed

lemma branch_not_prefixed:
  assumes b: "t_ok n t" "is_branch t" and p: "p \<noteq> []" and k: "\<And>k. look t k \<noteq> None \<Longrightarrow> path_ok n k \<Longrightarrow> take (length p) k = p"
  shows False
proof -
  from two_keys [OF b] obtain a l b m where ab: "a \<noteq> b" "path_ok n (a # l)" "path_ok n (b # m)"
    "look t (a # l) \<noteq> None" "look t (b # m) \<noteq> None" by blast
  from k [OF ab(4,2)] k [OF ab(5,3)] p ab(1) show False by (cases p) auto
qed

lemma leaf_not_two:
  assumes b: "t_ok n t" "is_branch t" and k: "\<And>k. path_ok n k \<Longrightarrow> look t k \<noteq> None \<Longrightarrow> k = q"
  shows False
  using two_keys [OF b] k by (metis list.inject)

text \<open>The map tells how a tree starts.\<close>

definition same_map :: "nat \<Rightarrow> trie \<Rightarrow> trie \<Rightarrow> bool" where
  "same_map n t u \<longleftrightarrow> t_ok n t \<and> t_ok n u \<and> (\<forall>k. path_ok n k \<longrightarrow> look t k = look u k)"

lemma same_look: "same_map n t u \<Longrightarrow> path_ok n k \<Longrightarrow> look t k = look u k"
  and same_ok: "same_map n t u \<Longrightarrow> t_ok n t" "same_map n t u \<Longrightarrow> t_ok n u"
  and same_sym: "same_map n t u \<Longrightarrow> same_map n u t"
  by (auto simp: same_map_def)

lemma same_empty: "same_map n t u \<Longrightarrow> t = TEmpty \<Longrightarrow> u = TEmpty"
  using key_exists [of n u] same_look [of n t u] same_ok by (metis look.simps(1))

lemma same_leaf:
  assumes s: "same_map n (TLeaf p v) u"
  shows "u = TLeaf p v"
proof -
  have p: "path_ok n p" using same_ok(1) [OF s] by (simp add: t_ok_def path_ok_def)
  have only: "k = p" if "path_ok n k" "look u k \<noteq> None" for k
    using same_look [OF s that(1)] that(2) by (auto split: if_splits)
  show ?thesis
  proof (cases u)
    case TEmpty
    with same_look [OF s p] show ?thesis by simp
  next
    case (TLeaf q w)
    with same_look [OF s p] show ?thesis by (auto split: if_splits)
  next
    case (TExt q w)
    have q: "list_all is_nibble q" "length q \<le> n" "t_ok (n - length q) w" "is_branch w"
      using same_ok(2) [OF s] TExt by (auto simp: t_ok_def)
    have "k = drop (length q) p" if "path_ok (n - length q) k" "look w k \<noteq> None" for k
      using only [OF path_append [OF q(1,2) that(1)]] that(2) TExt by auto
    from leaf_not_two [OF q(3,4) this] show ?thesis by blast
  next
    case (TBranch ts)
    from leaf_not_two [OF same_ok(2) [OF s] _ only] TBranch show ?thesis by simp
  qed
qed

lemma same_ext_branch: "\<not> same_map n (TExt p t) (TBranch ts)"
proof
  assume s: "same_map n (TExt p t) (TBranch ts)"
  have "p \<noteq> []" using same_ok(1) [OF s] by (simp add: t_ok_def)
  moreover have "take (length p) k = p" if "look (TBranch ts) k \<noteq> None" "path_ok n k" for k
    using same_look [OF s that(2)] that(1) by (auto split: if_splits)
  ultimately show False using branch_not_prefixed [OF same_ok(2) [OF s]] by auto
qed

lemma same_ext:
  assumes s: "same_map n (TExt p t) u"
  obtains w where "u = TExt p w" "same_map (n - length p) t w"
proof -
  obtain q w where u: "u = TExt q w"
    using same_sym [OF s] same_leaf same_empty same_ext_branch s by (cases u) blast+
  note s = s [unfolded u]
  have p: "list_all is_nibble p" "length p \<le> n" "t_ok (n - length p) t" using same_ok(1) [OF s] by (auto simp: t_ok_def)
  have "length p = length q"
    by (rule le_antisym [OF ext_shorter ext_shorter]) (use s in \<open>auto simp: same_map_def simp del: look.simps\<close>)
  moreover from key_exists [OF same_ok(1) [OF s]] obtain k where k: "path_ok n k" "look (TExt p t) k \<noteq> None" by auto
  ultimately have pq: "p = q" using ext_prefix [OF k(2)] ext_prefix [of q w k] same_look [OF s k(1)] by metis
  have "t_ok (n - length p) w" using same_ok(2) [OF s] pq by (auto simp: t_ok_def)
  moreover have "look t k = look w k" if "path_ok (n - length p) k" for k
    using same_look [OF s path_append [OF p(1,2) that]] pq by simp
  ultimately show ?thesis using that u pq p(3) by (simp add: same_map_def)
qed

lemma same_branch:
  assumes s: "same_map n (TBranch ts) u"
  obtains us where "u = TBranch us" "length ts = 16" "length us = 16" "\<forall>i<16. same_map (n - 1) (ts ! i) (us ! i)"
proof -
  obtain us where u: "u = TBranch us"
    using same_sym [OF s] same_leaf same_empty same_ext_branch by (cases u) blast+
  note s = s [unfolded u]
  have t: "0 < n" "length ts = 16" "length us = 16" "\<forall>t\<in>set ts. t_ok (n - 1) t" "\<forall>t\<in>set us. t_ok (n - 1) t"
    using same_ok [OF s] by (auto simp: t_ok_def)
  have "same_map (n - 1) (ts ! i) (us ! i)" if i: "i < 16" for i
    unfolding same_map_def
  proof (intro conjI allI impI)
    fix k assume "path_ok (n - 1) k"
    with same_look [OF s, of "of_nat i # k"] i t show "look (ts ! i) k = look (us ! i) k"
      by (simp add: path_Cons nibble_of_nat unat_nib)
  qed (use t i in auto)
  with t u that show ?thesis by simp
qed

lemma same_map_eq: "same_map n t u \<Longrightarrow> t = u"
proof (induction t arbitrary: n u)
  case (TExt p t)
  then show ?case by (metis same_ext)
next
  case (TBranch ts)
  from TBranch.prems obtain us where us: "u = TBranch us" "length ts = 16" "length us = 16"
    "\<forall>i<16. same_map (n - 1) (ts ! i) (us ! i)" by (rule same_branch)
  hence "ts ! i = us ! i" if "i < 16" for i using TBranch.IH [of "ts ! i"] that nth_mem [of i ts] by metis
  with us show ?case by (auto intro: nth_equalityI)
qed (metis same_empty, metis same_leaf)

end
