(* ===== verification/TrieReference.thy ===== *)
theory TrieReference
  imports TrieMap TrieCanon TrieHash
begin

text \<open>
  The trie that is built step by step and \<open>hash256\<close>, which computes a root from a sorted map at once, give
  the same root for the same map: \<open>hash256rlp\<close> writes the node of a tree of the shape that the
  operations keep, and there is only one such tree for a map.
\<close>

section \<open>Sorted maps with keys of one length\<close>

definition entries_ok :: "nat \<Rightarrow> nat \<Rightarrow> bytes_map \<Rightarrow> bool" where
  "entries_ok n pre xs \<longleftrightarrow> sorted_wrt (<) (map fst xs) \<and>
     (\<forall>e\<in>set xs. path_ok n (fst e) \<and> length (snd e) < 2 ^ 60) \<and>
     (\<forall>e\<in>set xs. \<forall>e'\<in>set xs. take pre (fst e) = take pre (fst e'))"

text \<open>The value of a path below the common prefix.\<close>

definition value_at :: "nat \<Rightarrow> bytes_map \<Rightarrow> bytes \<Rightarrow> bytes option" where
  "value_at pre xs r = map_of (map (\<lambda>(k, v). (drop pre k, v)) xs) r"

lemma less_nth:
  fixes k k' :: bytes
  shows "k < k' \<Longrightarrow> take p k = take p k' \<Longrightarrow> p < length k \<Longrightarrow> p < length k' \<Longrightarrow> k ! p \<le> k' ! p"
proof (induction p arbitrary: k k')
  case 0
  then show ?case by (cases k; cases k') auto
next
  case (Suc p)
  then show ?case by (cases k; cases k') auto
qed

lemma sorted_distinct:
  fixes ks :: "bytes list"
  shows "sorted_wrt (<) ks \<Longrightarrow> distinct ks"
  by (induction ks) auto

section \<open>The prefix that keys share\<close>

lemma shared_scan_eq:
  assumes "shared \<le> x" "x \<le> length k0" "x \<le> length k" "shared \<le> commonPrefix k0 k"
  shows "shared_scan k0 k x shared = min x (commonPrefix k0 k)"
  using assms
proof (induction k0 k x shared rule: shared_scan.induct)
  case (1 k0 k x s)
  let ?D = "commonPrefix k0 k"
  show ?case
  proof (cases "s < x \<and> s < ?D")
    case True
    have "take ?D k0 ! s = take ?D k ! s" by (rule arg_cong [of _ _ "\<lambda>l. l ! s", OF commonPrefix_take])
    hence "k0 ! s = k ! s" using True by simp
    hence "nib_at k0 s = nib_at k s" using True 1 by (simp add: nib_at_def)
    with True 1 show ?thesis by (subst shared_scan.simps) simp
  next
    case False
    have "\<not> (s < x \<and> nib_at k0 s = nib_at k s)"
    proof
      assume a: "s < x \<and> nib_at k0 s = nib_at k s"
      hence s: "s = ?D" using False 1 by simp
      have "s < length k0" "s < length k" using a 1 by auto
      with a s have "k0 ! ?D = k ! ?D" by (simp add: nib_at_def)
      with commonPrefix_differ [of k0 k] a 1 s show False by simp
    qed
    with False 1 show ?thesis by (subst shared_scan.simps) auto
  qed
qed

lemma shared_pre_eq:
  assumes "length k0 = n" "pre \<le> N" "pre \<le> n"
    and "\<forall>k\<in>fst ` set m. length k = n \<and> k \<noteq> k0 \<and> take pre k = take pre k0"
  shows "pre \<le> shared_pre k0 pre m N \<and> (\<forall>k\<in>fst ` set m. take (shared_pre k0 pre m N) k = take (shared_pre k0 pre m N) k0) \<and>
    (shared_pre k0 pre m N = N \<or> shared_pre k0 pre m N < n \<and>
      (\<exists>k\<in>fst ` set m. k ! shared_pre k0 pre m N \<noteq> k0 ! shared_pre k0 pre m N))"
  using assms
proof (induction k0 pre m N rule: shared_pre.induct)
  case (2 k0 pre k v m N)
  show ?case
  proof (cases "N = 0")
    case False
    let ?D = "commonPrefix k0 k" and ?x = "min N (min (length k0) (length k))"
    have k: "length k = n" "k \<noteq> k0" "take pre k = take pre k0" using 2 by auto
    have D: "pre \<le> ?D" by (rule commonPrefix_maximal) (use 2 k in auto)
    have lt: "?D < n"
    proof (rule ccontr)
      assume "\<not> ?D < n"
      hence "?D = n" using commonPrefix_le [of k0 k] k by simp
      with commonPrefix_take [of k0 k] k 2 show False by simp
    qed
    have scan: "shared_scan k0 k ?x pre = min ?x ?D" by (rule shared_scan_eq) (use 2 k D in auto)
    have m: "min (min ?x ?D) N = min N ?D" using lt k 2 by (auto simp: min_def)
    have step: "shared_pre k0 pre ((k, v) # m) N = shared_pre k0 pre m (min N ?D)"
      unfolding shared_pre.simps(2) Let_def scan m using False by (simp only: if_False)
    let ?p = "shared_pre k0 pre m (min N ?D)"
    have "pre \<le> min N ?D" using D "2.prems"(2) by simp
    from "2.IH" [OF False refl refl, unfolded scan m, OF "2.prems"(1) this "2.prems"(3)] "2.prems"(4)
    have IH: "pre \<le> ?p \<and> (\<forall>k\<in>fst ` set m. take ?p k = take ?p k0) \<and>
        (?p = min N ?D \<or> ?p < n \<and> (\<exists>k\<in>fst ` set m. k ! ?p \<noteq> k0 ! ?p))" by simp
    have "?p \<le> ?D" using shared_pre_le [of k0 pre m "min N ?D"] by simp
    hence "take ?p k = take ?p k0" using commonPrefix_take [of k0 k] by (metis min.absorb1 take_take)
    moreover have "k ! ?D \<noteq> k0 ! ?D" using commonPrefix_differ [of k0 k] lt k 2 by simp
    moreover have "?p = min N ?D \<Longrightarrow> ?p = N \<or> ?p = ?D" by linarith
    ultimately show ?thesis unfolding step using IH lt by (elim conjE disjE) auto
  qed (use 2 in simp)
qed simp

section \<open>The sixteen branches\<close>

declare hash256aux.simps [simp del]

lemma while_sorted:
  fixes f :: "'a \<Rightarrow> nat"
  shows "sorted (map f b) \<Longrightarrow> \<forall>x\<in>set b. i \<le> f x \<Longrightarrow>
    takeWhile (\<lambda>x. f x = i) b = filter (\<lambda>x. f x = i) b \<and> dropWhile (\<lambda>x. f x = i) b = filter (\<lambda>x. Suc i \<le> f x) b"
proof (induction b)
  case (Cons x b)
  show ?case
  proof (cases "f x = i")
    case False
    with Cons.prems have "\<forall>y\<in>set (x # b). Suc i \<le> f y" by auto
    hence "filter (\<lambda>y. f y = i) (x # b) = []" "filter (\<lambda>y. Suc i \<le> f y) (x # b) = x # b"
      by (simp_all add: filter_empty_conv filter_id_conv del: filter.simps) force
    thus ?thesis using False by simp
  qed (use Cons in simp)
qed simp

definition nib :: "nat \<Rightarrow> bytes \<times> bytes \<Rightarrow> nat" where
  "nib pre e = unat (fst e ! pre)"

lemma branches_eq:
  assumes xs: "sorted (map (nib pre) xs)" "\<forall>(k, v)\<in>set xs. pre < length k \<and> unat (k ! pre) < 16"
    and t: "\<And>j s. i \<le> j \<Longrightarrow> j < 16 \<Longrightarrow> (if filter (\<lambda>e. nib pre e = j) xs = [] then t j = TEmpty
      else hash256aux sha3 (filter (\<lambda>e. nib pre e = j) xs) (Suc pre) s = write_item (t_ref sha3 (t j)) s)"
    and i: "i \<le> 16"
  shows "hash256branches sha3 (filter (\<lambda>e. i \<le> nib pre e) xs) pre i s = write_items (map (\<lambda>j. t_ref sha3 (t j)) [i..<16]) s"
  using t i
proof (induction "16 - i" arbitrary: i s)
  case 0
  then show ?case by (simp add: hash256branches.simps)
next
  case (Suc m)
  let ?b = "filter (\<lambda>e. i \<le> nib pre e) xs"
  have i: "i < 16" using Suc by simp
  have nib: "(case e of (k, v) \<Rightarrow> nib_at k pre = Some (of_nat i)) \<longleftrightarrow> nib pre e = i" if "e \<in> set ?b" for e
  proof -
    obtain k v where e: "e = (k, v)" by (cases e)
    have "pre < length k" using that xs(2) e by auto
    thus ?thesis using i by (simp add: e nib_at_def nib_def unat_nib word_unat_eq_iff [of "k ! pre"])
  qed
  have w: "seg pre (of_nat i) ?b = takeWhile (\<lambda>e. nib pre e = i) ?b" "after_seg pre (of_nat i) ?b = dropWhile (\<lambda>e. nib pre e = i) ?b"
    unfolding seg_def after_seg_def by (rule takeWhile_cong [OF refl nib] dropWhile_cong [OF refl nib], assumption)+
  have "sorted (map (nib pre) ?b)" using xs(1) by (rule sorted_filter)
  note ws = while_sorted [OF this, of i]
  have "seg pre (of_nat i) ?b = filter (\<lambda>e. nib pre e = i) ?b" using ws by (simp add: w)
  also have "\<dots> = filter (\<lambda>e. nib pre e = i) xs" by (auto intro: filter_cong)
  finally have seg: "seg pre (of_nat i) ?b = filter (\<lambda>e. nib pre e = i) xs" .
  have "after_seg pre (of_nat i) ?b = filter (\<lambda>e. Suc i \<le> nib pre e) ?b" using ws by (simp add: w)
  also have "\<dots> = filter (\<lambda>e. Suc i \<le> nib pre e) xs" by (auto intro: filter_cong)
  finally have rest: "after_seg pre (of_nat i) ?b = filter (\<lambda>e. Suc i \<le> nib pre e) xs" .
  have IH: "hash256branches sha3 (filter (\<lambda>e. Suc i \<le> nib pre e) xs) pre (Suc i) = write_items (map (\<lambda>j. t_ref sha3 (t j)) [Suc i..<16])"
    by (rule ext, rule Suc.hyps(1)) (use Suc in auto)
  have up: "[i..<16] = i # [Suc i..<16]" using i by (simp add: upt_conv_Cons)
  have null: "appendBytes s [] False = write_item (Str []) s" by simp
  show ?case
    using Suc.prems(1) [of i s] i IH
    by (subst hash256branches.simps) (auto simp: seg rest up Let_def null simp del: write_item.simps appendBytes_def)
qed

lemma hash256aux_eq:
  assumes "hash256rlp sha3 xs pre rlp_stream_new = write_item (t_item sha3 t) rlp_stream_new" "t_wf n t" "n < 2 ^ 31"
  shows "hash256aux sha3 xs pre s = write_item (t_ref sha3 t) s"
proof -
  note fits = t_fits [OF assms(2,3), of sha3]
  have "bindE (hash256rlp sha3 xs pre rlp_stream_new) stream_out = Inr (t_enc sha3 t)"
    unfolding assms(1) using stream_out_write [OF fits] by (simp add: t_enc_def)
  hence "hash256aux sha3 xs pre s = (if length (t_enc sha3 t) < 32 then appendRaw s (t_enc sha3 t) 1 else appendHash s (sha3 (t_enc sha3 t)))"
    by (simp add: hash256aux.simps flip: bindE_assoc)
  also have "\<dots> = write_item (t_ref sha3 t) s"
    using fun_cong [OF ap_rlp_eq [OF fits]]
    by (simp add: appendHash_eq t_ref_def node_ref_def t_enc_def ap_rlp_def del: rlp_enc.simps)
  finally show ?thesis .
qed

section \<open>The tree that is written\<close>

definition built :: "(bytes \<Rightarrow> u256) \<Rightarrow> nat \<Rightarrow> nat \<Rightarrow> bytes_map \<Rightarrow> trie \<Rightarrow> bool" where
  "built sha3 n pre xs t \<longleftrightarrow> t_ok (n - pre) t \<and> t \<noteq> TEmpty \<and>
     (\<forall>r. path_ok (n - pre) r \<longrightarrow> look t r = value_at pre xs r) \<and>
     (\<forall>s. hash256rlp sha3 xs pre s = write_item (t_item sha3 t) s)"

lemma write_items_pair: "write_items [x, y] = (\<lambda>s. bindE (write_item x s) (write_item y))"
  by (rule ext) (simp add: write_items_one)

lemma write_Str: "write_item (Str v) = (\<lambda>s. appendBytes s v False)"
  by (rule ext) simp

lemma built_aux: "built sha3 n pre xs t \<Longrightarrow> n < 2 ^ 31 \<Longrightarrow> hash256aux sha3 xs pre s = write_item (t_ref sha3 t) s"
  by (rule hash256aux_eq [of _ _ _ _ "n - pre"]) (auto simp: built_def t_ok_def)

lemma entry_key: "entries_ok n pre xs \<Longrightarrow> e \<in> set xs \<Longrightarrow> path_ok n (fst e) \<and> length (fst e) = n \<and> length (snd e) < 2 ^ 60"
  by (auto simp: entries_ok_def path_ok_def)

lemma entry_pre: "entries_ok n pre xs \<Longrightarrow> e \<in> set xs \<Longrightarrow> e' \<in> set xs \<Longrightarrow> take pre (fst e) = take pre (fst e')"
  unfolding entries_ok_def by blast

lemma built_leaf:
  assumes "entries_ok n pre [(k, v)]" "pre \<le> n" "n < 2 ^ 31"
  shows "built sha3 n pre [(k, v)] (TLeaf (drop pre k) v)"
proof -
  have k: "path_ok n k" "length k = n" "length v < 2 ^ 60" using entry_key [OF assms(1), of "(k, v)"] by auto
  have "hexPrefixEncode_vector k True (int pre) (-1) = hp_spec True (take (length k - pre) (drop pre k))"
    by (rule hexPrefixEncode_vector_eq) (use k assms(2,3) in \<open>auto simp: path_ok_def\<close>)
  hence "hexPrefixEncode_vector k True (int pre) (-1) = hp_spec True (drop pre k)" by simp
  moreover have "t_ok (n - pre) (TLeaf (drop pre k) v)" using k by (auto simp: t_ok_def path_ok_def list_all_drop)
  ultimately show ?thesis by (simp add: built_def value_at_def write_items_pair write_Str numeral_2_eq_2)
qed

lemma map_of_prefix:
  "map_of (map (\<lambda>(k, v). (p @ f k, v)) xs) r =
    (if take (length p) r = p then map_of (map (\<lambda>(k, v). (f k, v)) xs) (drop (length p) r) else None)"
proof (induction xs)
  case (Cons e xs)
  obtain k v where e: "e = (k, v)" by (cases e)
  have "r = p @ f k \<longleftrightarrow> take (length p) r = p \<and> drop (length p) r = f k"
    by (metis append_eq_conv_conj append_take_drop_id)
  with Cons e show ?case by auto
qed simp

lemma value_at_prefix:
  assumes "entries_ok n sp xs" "e0 \<in> set xs" "pre \<le> sp"
  defines "p \<equiv> drop pre (take sp (fst e0))"
  shows "value_at pre xs r = (if take (length p) r = p then value_at sp xs (drop (length p) r) else None)"
proof -
  have "drop pre k = p @ drop sp k" if "(k, v) \<in> set xs" for k v
  proof -
    have "take sp k = take sp (fst e0)" using entry_pre [OF assms(1) that assms(2)] by simp
    moreover have "drop pre k = drop pre (take sp k) @ drop sp k"
      using assms(3) by (metis append_take_drop_id drop_append drop_drop drop_take le_add_diff_inverse2 take_drop)
    ultimately show ?thesis by (simp add: p_def)
  qed
  hence "map (\<lambda>(k, v). (drop pre k, v)) xs = map (\<lambda>(k, v). (p @ drop sp k, v)) xs" by auto
  thus ?thesis unfolding value_at_def by (simp only: map_of_prefix)
qed

text \<open>Two entries that part at \<open>sp\<close> make a branch there.\<close>

lemma parted_branch:
  assumes b: "built sha3 n sp xs t" and ok: "entries_ok n sp xs"
    and e: "(k, v) \<in> set xs" "(k', v') \<in> set xs" "k ! sp \<noteq> k' ! sp" "sp < n"
  shows "is_branch t"
proof -
  have some: "look t (drop sp k) \<noteq> None" if "(k, v) \<in> set xs" for k v
  proof -
    have "path_ok (n - sp) (drop sp k)" using path_ok_drop entry_key [OF ok that] e(4) by simp
    hence "look t (drop sp k) = value_at sp xs (drop sp k)" using b by (simp add: built_def)
    moreover have "drop sp k \<in> set (map fst (map (\<lambda>(k, v). (drop sp k, v)) xs))" using that by force
    ultimately show ?thesis unfolding value_at_def by (simp add: map_of_eq_None_iff del: map_map)
  qed
  have len: "length k = n" "length k' = n" using entry_key [OF ok e(1)] entry_key [OF ok e(2)] by auto
  have hd: "hd (drop sp k) \<noteq> hd (drop sp k')" using e(3,4) len by (simp add: hd_drop_conv_nth)
  show ?thesis
  proof (cases t)
    case (TLeaf p w)
    with some [OF e(1)] some [OF e(2)] hd show ?thesis by (auto split: if_splits)
  next
    case (TExt p u)
    have "p \<noteq> []" using b TExt by (simp add: built_def t_ok_def)
    moreover have "take (length p) (drop sp k) = p" "take (length p) (drop sp k') = p"
      using some [OF e(1)] some [OF e(2)] TExt ext_prefix by blast+
    ultimately have "hd (drop sp k) = hd p" "hd (drop sp k') = hd p" by (metis hd_take length_greater_0_conv)+
    with hd show ?thesis by simp
  qed (use b in \<open>auto simp: built_def\<close>)
qed

lemma built_ext:
  assumes b: "built sha3 n sp xs t" "is_branch t" and ok: "entries_ok n sp xs" and xs: "xs = (k0, v0) # e # m"
    and sp: "sp = shared_pre k0 pre (e # m) (2 ^ 32 - 1)" "pre < sp" "sp < n" and n: "n < 2 ^ 31"
  shows "built sha3 n pre xs (TExt (drop pre (take sp k0)) t)"
proof -
  let ?p = "drop pre (take sp k0)"
  have k0: "path_ok n k0" "length k0 = n" using entry_key [OF ok, of "(k0, v0)"] xs by auto
  have p: "length ?p = sp - pre" "list_all is_nibble ?p" "?p \<noteq> []"
    using k0 sp by (auto simp: path_ok_def list_all_iff dest: in_set_dropD in_set_takeD)
  have "t_ok (n - pre) (TExt ?p t)" using b p sp by (auto simp: t_ok_def built_def)
  moreover have "look (TExt ?p t) r = value_at pre xs r" if r: "path_ok (n - pre) r" for r
  proof -
    have "path_ok (n - pre - length ?p) (drop (length ?p) r)" by (rule path_ok_drop [OF r]) (use p sp in simp)
    hence "look t (drop (length ?p) r) = value_at sp xs (drop (length ?p) r)" using b(1) p sp by (simp add: built_def)
    with value_at_prefix [OF ok, of "(k0, v0)" pre r] xs sp show ?thesis by simp
  qed
  moreover have "hash256rlp sha3 xs pre s = write_item (t_item sha3 (TExt ?p t)) s" for s
  proof -
    have "hexPrefixEncode_vector k0 False (int pre) (int sp) = hp_spec False (take (sp - pre) (drop pre k0))"
      by (rule hexPrefixEncode_vector_eq) (use k0 sp n in \<open>auto simp: path_ok_def\<close>)
    moreover have "take (sp - pre) (drop pre k0) = ?p" by (simp only: drop_take)
    ultimately have hp: "hexPrefixEncode_vector k0 False (int pre) (int sp) = hp_spec False ?p" by (simp only:)
    have "hash256rlp sha3 xs pre s = bindE (appendList s 2) (\<lambda>s.
        bindE (appendBytes s (hexPrefixEncode_vector k0 False (int pre) (int sp)) False) (hash256aux sha3 xs sp))"
      unfolding xs hash256rlp.simps(3) Let_def sp(1) [symmetric] using sp(2) by (simp only: if_True)
    also have "\<dots> = bindE (appendList s 2) (\<lambda>s. bindE (write_item (Str (hp_spec False ?p)) s) (write_item (t_ref sha3 t)))"
      unfolding hp built_aux [OF b(1) n, abs_def] by simp
    also have "\<dots> = write_item (t_item sha3 (TExt ?p t)) s"
      unfolding t_item_ref by (simp add: write_items_pair numeral_2_eq_2)
    finally show ?thesis .
  qed
  ultimately show ?thesis by (simp add: built_def)
qed

lemma value_at_nibble:
  assumes "\<forall>(k, v)\<in>set xs. pre < length k"
  shows "value_at pre xs (a # r) = value_at (Suc pre) (filter (\<lambda>e. nib pre e = unat a) xs) r"
  using assms
proof (induction xs)
  case (Cons e xs)
  obtain k v where e: "e = (k, v)" by (cases e)
  have "drop pre k = k ! pre # drop (Suc pre) k" using Cons.prems e by (simp add: Cons_nth_drop_Suc)
  with Cons e show ?case by (auto simp: value_at_def nib_def word_unat_eq_iff [of a])
qed (simp add: value_at_def)

lemma entries_nibble:
  assumes ok: "entries_ok n pre xs" and pre: "pre < n"
  shows "entries_ok n (Suc pre) (filter (\<lambda>e. nib pre e = j) xs)" "sorted (map (nib pre) xs)"
    "\<forall>(k, v)\<in>set xs. pre < length k \<and> unat (k ! pre) < 16"
proof -
  have len: "length (fst e) = n" if "e \<in> set xs" for e using entry_key [OF ok that] by simp
  have "take (Suc pre) (fst e) = take (Suc pre) (fst e')"
    if "e \<in> set xs" "e' \<in> set xs" "nib pre e = j" "nib pre e' = j" for e e'
    using entry_pre [OF ok that(1,2)] that(3,4) len [OF that(1)] len [OF that(2)] pre
    by (simp add: take_Suc_conv_app_nth nib_def word_unat_eq_iff)
  moreover have "sorted_wrt (<) (map fst (filter (\<lambda>e. nib pre e = j) xs))"
    using ok by (auto simp: entries_ok_def sorted_wrt_map intro: sorted_wrt_filter)
  ultimately show "entries_ok n (Suc pre) (filter (\<lambda>e. nib pre e = j) xs)"
    using ok by (simp add: entries_ok_def)
  have "sorted_wrt (\<lambda>e e'. fst e < fst e') xs" using ok by (simp add: entries_ok_def sorted_wrt_map)
  hence "sorted_wrt (\<lambda>e e'. nib pre e \<le> nib pre e') xs"
  proof (rule sorted_wrt_mono_rel [rotated])
    fix e e' assume e: "e \<in> set xs" "e' \<in> set xs" "fst e < fst e'"
    from less_nth [OF e(3) entry_pre [OF ok e(1,2)]] len [OF e(1)] len [OF e(2)] pre
    show "nib pre e \<le> nib pre e'" by (simp add: nib_def word_le_nat_alt)
  qed
  thus "sorted (map (nib pre) xs)" by (simp add: sorted_map)
  show "\<forall>(k, v)\<in>set xs. pre < length k \<and> unat (k ! pre) < 16"
    using entry_key [OF ok] pre path_ok_nth by (metis (mono_tags, lifting) case_prodI2 fst_conv)
qed

lemma built_branch:
  assumes ok: "entries_ok n pre xs" and xs: "xs = (k0, v0) # e # m" and n: "n < 2 ^ 31" "pre < n"
    and sp: "shared_pre k0 pre (e # m) (2 ^ 32 - 1) \<le> pre" and e: "e' \<in> set (e # m)" "fst e' ! pre \<noteq> k0 ! pre"
    and kids: "\<And>j. j < 16 \<Longrightarrow> if filter (\<lambda>e. nib pre e = j) xs = [] then t j = TEmpty
      else built sha3 n (Suc pre) (filter (\<lambda>e. nib pre e = j) xs) (t j)"
  shows "built sha3 n pre xs (TBranch (map t [0..<16]))"
proof -
  let ?ts = "map t [0..<16]"
  note nb = entries_nibble [OF ok n(2)]
  have kok: "t_ok (n - Suc pre) (t j)" if "j < 16" for j
    using kids [OF that] by (auto simp: built_def t_ok_def split: if_splits)
  have used: "nib pre e \<in> set (used_kids ?ts)" if "e \<in> set xs" for e
  proof -
    have j: "nib pre e < 16" using nb(3) that by (auto simp: nib_def)
    have "filter (\<lambda>e'. nib pre e' = nib pre e) xs \<noteq> []" using that by (auto simp: filter_empty_conv)
    hence "t (nib pre e) \<noteq> TEmpty" using kids [OF j] by (simp add: built_def)
    with j show ?thesis by (simp add: used_kids_iff)
  qed
  have "nib pre e' \<noteq> nib pre (k0, v0)" using e(2) by (simp add: nib_def word_unat_eq_iff)
  moreover have "nib pre e' \<in> set (used_kids ?ts)" "nib pre (k0, v0) \<in> set (used_kids ?ts)"
    using used e(1) xs by auto
  ultimately have "2 \<le> length (used_kids ?ts)"
    using two_used [of "nib pre e'" ?ts "nib pre (k0, v0)"] by (auto simp: used_kids_iff)
  hence "t_ok (n - pre) (TBranch ?ts)" using kok n by (auto simp: t_ok_def)
  moreover have "look (TBranch ?ts) r = value_at pre xs r" if r: "path_ok (n - pre) r" for r
  proof -
    obtain a r' where ar: "r = a # r'" using r n by (cases r) (auto simp: path_ok_def)
    have a: "unat a < 16" "path_ok (n - Suc pre) r'" using r ar by (auto simp: path_Cons unat_nibble)
    have "look (t (unat a)) r' = value_at (Suc pre) (filter (\<lambda>e. nib pre e = unat a) xs) r'"
      using kids [OF a(1)] a(2) by (auto simp: built_def value_at_def split: if_splits)
    moreover have "\<forall>(k, v)\<in>set xs. pre < length k" using nb(3) by auto
    ultimately show ?thesis using value_at_nibble [of xs pre a r'] a ar by simp
  qed
  moreover have "hash256rlp sha3 xs pre s = write_item (t_item sha3 (TBranch ?ts)) s" for s
  proof -
    have "length k0 = n" using entry_key [OF ok, of "(k0, v0)"] xs by simp
    hence k0: "pre \<noteq> length k0" using n by simp
    have br: "hash256branches sha3 xs pre 0 s' = write_items (map (t_ref sha3) ?ts) s'" for s'
    proof -
      have "hash256branches sha3 (filter (\<lambda>e. 0 \<le> nib pre e) xs) pre 0 s' = write_items (map (\<lambda>j. t_ref sha3 (t j)) [0..<16]) s'"
        by (rule branches_eq [OF nb(2,3)]) (use kids built_aux n in \<open>fastforce split: if_splits\<close>)+
      thus ?thesis by (simp add: comp_def)
    qed
    have "hash256rlp sha3 xs pre s = bindE (appendList s 17) (\<lambda>s. bindE (hash256branches sha3 xs pre 0 s) (\<lambda>s. appendBytes s [] False))"
      unfolding xs hash256rlp.simps(3) Let_def using sp k0 by (simp only: not_less if_False flip: not_le) simp
    also have "\<dots> = write_item (t_item sha3 (TBranch ?ts)) s"
      unfolding br t_item_ref by (simp add: write_items_append write_items_one write_Str)
    finally show ?thesis .
  qed
  ultimately show ?thesis by (simp add: built_def)
qed

lemma shared_prefix:
  assumes ok: "entries_ok n pre xs" and xs: "xs = (k0, v0) # e # m" and n: "n < 2 ^ 31" "pre \<le> n"
  defines "sp \<equiv> shared_pre k0 pre (e # m) (2 ^ 32 - 1)"
  shows "pre \<le> sp" "sp < n" "entries_ok n sp xs" "\<exists>e'\<in>set (e # m). fst e' ! sp \<noteq> k0 ! sp"
proof -
  have k0: "length k0 = n" using entry_key [OF ok, of "(k0, v0)"] xs by simp
  have "distinct (map fst xs)" using ok by (simp add: entries_ok_def sorted_distinct)
  hence d: "k0 \<notin> fst ` set (e # m)" using xs by simp
  have m: "\<forall>k\<in>fst ` set (e # m). length k = n \<and> k \<noteq> k0 \<and> take pre k = take pre k0"
  proof
    fix k assume k: "k \<in> fst ` set (e # m)"
    then obtain e' where "e' \<in> set (e # m)" "k = fst e'" by blast
    hence e': "e' \<in> set xs" "k = fst e'" by (simp_all add: xs)
    from entry_pre [OF ok e'(1), of "(k0, v0)"] entry_key [OF ok e'(1)] k d e' xs
    show "length k = n \<and> k \<noteq> k0 \<and> take pre k = take pre k0" by auto
  qed
  have N: "pre \<le> 2 ^ 32 - 1" "\<not> 2 ^ 32 - 1 < n" using n by auto
  note eq = shared_pre_eq [OF k0 N(1) n(2) m, folded sp_def]
  thus "pre \<le> sp" by simp
  have "sp < n \<and> (\<exists>k\<in>fst ` set (e # m). k ! sp \<noteq> k0 ! sp)"
  proof (rule ccontr)
    assume "\<not> ?thesis"
    hence "sp = 2 ^ 32 - 1" using eq by blast
    hence "n \<le> sp" using n by simp
    moreover have "fst e \<in> fst ` set (e # m)" by simp
    ultimately have "fst e = k0" using eq m k0 by (metis take_all)
    with m show False by auto
  qed
  thus "sp < n" "\<exists>e'\<in>set (e # m). fst e' ! sp \<noteq> k0 ! sp" by auto
  have "take sp (fst e') = take sp k0" if "e' \<in> set xs" for e' using that eq xs by auto
  with ok show "entries_ok n sp xs" by (simp add: entries_ok_def)
qed

lemma hash256_tree:
  "entries_ok n pre xs \<Longrightarrow> xs \<noteq> [] \<Longrightarrow> n < 2 ^ 31 \<Longrightarrow> pre \<le> n \<Longrightarrow> \<exists>t. built sha3 n pre xs t"
proof (induction "n - pre" arbitrary: pre xs rule: less_induct)
  case less
  note ok = less.prems(1) and n = less.prems(3,4)
  show ?case
  proof (cases "\<exists>e. xs = [e]")
    case True
    then obtain k v where "xs = [(k, v)]" by auto
    with built_leaf [of n pre k v] ok n show ?thesis by auto
  next
    case False
    then obtain k0 v0 e m where xs: "xs = (k0, v0) # e # m" using less.prems(2) by (metis neq_Nil_conv surj_pair)
    let ?sp = "shared_pre k0 pre (e # m) (2 ^ 32 - 1)"
    note sp = shared_prefix [OF ok xs n]
    obtain e' where e': "e' \<in> set (e # m)" "fst e' ! ?sp \<noteq> k0 ! ?sp" using sp(4) by blast
    show ?thesis
    proof (cases "pre < ?sp")
      case True
      have "n - ?sp < n - pre" "?sp \<le> n" using True sp(2) by linarith+
      from less.hyps [OF this(1) sp(3) less.prems(2) n(1) this(2)] obtain t where t: "built sha3 n ?sp xs t" by blast
      have "(fst e', snd e') \<in> set xs" "(k0, v0) \<in> set xs" using e'(1) by (simp_all add: xs)
      from parted_branch [OF t sp(3) this e'(2) sp(2)] have "is_branch t" .
      from built_ext [OF t this sp(3) xs refl True sp(2) n(1)] show ?thesis by blast
    next
      case False
      hence eq: "?sp = pre" using sp(1) by simp
      have pre: "pre < n" using sp(2) eq by simp
      have "\<exists>t. \<forall>j<16. if filter (\<lambda>e. nib pre e = j) xs = [] then t j = TEmpty
          else built sha3 n (Suc pre) (filter (\<lambda>e. nib pre e = j) xs) (t j)"
      proof (rule exI [of _ "\<lambda>j. if filter (\<lambda>e. nib pre e = j) xs = [] then TEmpty
          else SOME t. built sha3 n (Suc pre) (filter (\<lambda>e. nib pre e = j) xs) t"], intro allI impI)
        fix j :: nat
        have "\<exists>t. built sha3 n (Suc pre) (filter (\<lambda>e. nib pre e = j) xs) t" if "filter (\<lambda>e. nib pre e = j) xs \<noteq> []"
          by (rule less.hyps [OF _ entries_nibble(1) [OF ok pre] that n(1)]) (use pre in auto)
        from someI_ex [OF this] show "if filter (\<lambda>e. nib pre e = j) xs = []
            then (if filter (\<lambda>e. nib pre e = j) xs = [] then TEmpty else SOME t. built sha3 n (Suc pre) (filter (\<lambda>e. nib pre e = j) xs) t) = TEmpty
            else built sha3 n (Suc pre) (filter (\<lambda>e. nib pre e = j) xs)
              (if filter (\<lambda>e. nib pre e = j) xs = [] then TEmpty else SOME t. built sha3 n (Suc pre) (filter (\<lambda>e. nib pre e = j) xs) t)"
          by simp
      qed
      then obtain t where t: "\<And>j. j < 16 \<Longrightarrow> if filter (\<lambda>e. nib pre e = j) xs = [] then t j = TEmpty
          else built sha3 n (Suc pre) (filter (\<lambda>e. nib pre e = j) xs) (t j)" by blast
      from built_branch [OF ok xs n(1) pre _ e'(1) _ t] e'(2) eq show ?thesis by auto
    qed
  qed
qed

section \<open>The whole map\<close>

lemma nibbles_less: "x < y \<Longrightarrow> x div 16 < y div 16 \<or> x div 16 = y div 16 \<and> x mod 16 < (y mod 16 :: 8 word)"
proof -
  assume l: "x < y"
  have n: "a < b \<Longrightarrow> a div 16 < b div 16 \<or> a div 16 = b div 16 \<and> a mod 16 < b mod 16" for a b :: nat
  proof -
    assume "a < b"
    moreover have "a div 16 \<le> b div 16" using \<open>a < b\<close> by (intro div_le_mono) simp
    moreover have "a = 16 * (a div 16) + a mod 16" "b = 16 * (b div 16) + b mod 16" by simp_all
    ultimately show ?thesis by linarith
  qed
  have u: "unat (z div 16) = unat z div 16" "unat (z mod 16) = unat z mod 16" for z :: "8 word"
    by (simp_all add: unat_div unat_mod)
  from n [of "unat x" "unat y"] l show ?thesis unfolding word_less_nat_alt word_unat_eq_iff u by blast
qed

lemma asNibbles_less: "k < k' \<Longrightarrow> asNibbles k < asNibbles k'"
proof (induction k arbitrary: k')
  case Nil
  then show ?case by (cases k') (simp_all add: asNibbles_def)
next
  case (Cons x k)
  obtain y k'' where k': "k' = y # k''" using Cons.prems by (cases k') auto
  have "x < y \<Longrightarrow> x div 16 < y div 16 \<or> x div 16 = y div 16 \<and> x mod 16 < y mod 16" by (rule nibbles_less)
  with Cons k' show ?case by (auto simp: asNibbles_def)
qed

lemma hex_map_eq:
  assumes "sorted_wrt (<) (map fst s)"
  shows "hex_map s = map (\<lambda>(k, v). (asNibbles k, v)) s"
proof -
  have put: "map_put k v m = (k, v) # m" if "\<forall>e\<in>set m. k < fst e" for k v m
    using that by (cases m) auto
  have "foldr (\<lambda>(k, v) m. map_put (asNibbles k) v m) s [] = map (\<lambda>(k, v). (asNibbles k, v)) s"
    using assms
  proof (induction s)
    case (Cons e s)
    then show ?case by (cases e) (force intro: put simp: asNibbles_less)
  qed simp
  thus ?thesis by (simp add: hex_map_def foldl_conv_foldr case_prod_unfold)
qed

lemma asNibbles_onto: "path_ok (2 * m) r \<Longrightarrow> \<exists>k. length k = m \<and> asNibbles k = r"
proof (induction m arbitrary: r)
  case 0
  then show ?case by (simp add: path_ok_def asNibbles_def)
next
  case (Suc m)
  then obtain a b r' where r: "r = a # b # r'" by (metis path_ok_def mult_Suc_right add_2_eq_Suc Suc_length_conv)
  hence nib: "is_nibble a" "is_nibble b" and p: "path_ok (2 * m) r'" using Suc.prems by (auto simp: path_ok_def)
  obtain k where "length k = m" "asNibbles k = r'" using Suc.IH [OF p] by blast
  moreover have "(a * 16 + b) div 16 = a" "(a * 16 + b) mod 16 = b"
    using nibble_pair [OF nib] nibble_byte [of "a * 16 + b"] by simp_all
  ultimately show ?case using r by (intro exI [of _ "(a * 16 + b) # k"]) (simp add: asNibbles_def)
qed

lemma map_of_asNibbles: "map_of (map (\<lambda>(k, v). (asNibbles k, v)) s) (asNibbles k) = map_of s k"
  by (induction s) (auto dest: asNibbles_inj)

lemma hash256_root:
  assumes t: "t_ok (2 * m) t" "2 * m < 2 ^ 31" and s: "sorted_wrt (<) (map fst s)"
    "\<forall>(k, v)\<in>set s. length k = m \<and> length v < 2 ^ 60"
    and eq: "\<And>k. length k = m \<Longrightarrow> look t (asNibbles k) = map_of s k"
  shows "hash256 sha3 s = Inr (sha3 (t_enc sha3 t))"
proof (cases "s = []")
  case True
  have "t = TEmpty"
  proof (rule ccontr)
    assume "t \<noteq> TEmpty"
    then obtain r where "path_ok (2 * m) r" "look t r \<noteq> None" using key_exists [OF t(1)] by blast
    with asNibbles_onto eq True show False by fastforce
  qed
  have "rlp_fits (Str [])" using t_fits [of 0 TEmpty sha3] by simp
  from stream_out_write [OF this] have "rlp256 sha3 s = Inr (rlp_enc (Str []))" by (simp only: rlp256_def True write_item.simps simp_thms if_True)
  thus ?thesis using \<open>t = TEmpty\<close> by (simp add: hash256_def enc_str_def enc_header_def)
next
  case False
  let ?xs = "map (\<lambda>(k, v). (asNibbles k, v)) s"
  have "sorted_wrt (<) (map fst ?xs)"
  proof -
    have "sorted_wrt (\<lambda>x y. fst x < fst y) s" using s(1) by (simp only: sorted_wrt_map)
    hence "sorted_wrt (\<lambda>x y. asNibbles (fst x) < asNibbles (fst y)) s"
      by (rule sorted_wrt_mono_rel [rotated]) (rule asNibbles_less)
    thus ?thesis by (simp only: sorted_wrt_map case_prod_unfold fst_conv)
  qed
  moreover have "\<forall>e\<in>set ?xs. path_ok (2 * m) (fst e) \<and> length (snd e) < 2 ^ 60"
    using s(2) path_asNibbles by fastforce
  ultimately have "entries_ok (2 * m) 0 ?xs" by (simp add: entries_ok_def)
  from hash256_tree [OF this _ t(2)] False obtain u where u: "built sha3 (2 * m) 0 ?xs u" by auto
  have "look t r = look u r" if r: "path_ok (2 * m) r" for r
  proof -
    obtain k where k: "length k = m" "asNibbles k = r" using asNibbles_onto [OF r] by blast
    have "look u r = map_of ?xs r" using u r by (simp add: built_def value_at_def case_prod_unfold)
    with eq [OF k(1)] k(2) map_of_asNibbles [of s k] show ?thesis by simp
  qed
  hence "t = u" using t(1) u by (intro same_map_eq [of "2 * m"]) (simp add: same_map_def built_def)
  have wf: "t_wf (2 * m) t" using t(1) by (simp add: t_ok_def)
  have "hash256rlp sha3 (hex_map s) 0 rlp_stream_new = write_item (t_item sha3 t) rlp_stream_new"
    using u \<open>t = u\<close> hex_map_eq [OF s(1)] by (simp add: built_def)
  with stream_out_write [OF t_fits [OF wf t(2), of sha3]] False show ?thesis
    by (simp add: hash256_def rlp256_def t_enc_def flip: bindE_assoc)
qed

end
