(* ===== verification/TrieRun.thy ===== *)
theory TrieRun
  imports TrieReference
begin

text \<open>
  Sequences of operations on the trie of a database: insertions and removals, mixed with commits of the
  database to the disk and with purges of the nodes that nothing refers to. Commit and purge keep what
  the database owes to its tries; a sequence keeps the tree that the root stands for, whose map is the
  fold of the operations. No operation of the trie writes to the disk, and what a purge leaves in memory
  is exactly the nodes that are referred to, each with the number of its references.
\<close>

section \<open>The database between the operations\<close>

lemma db_has_new:
  assumes "inj_on sha3 B" "[] \<notin> B" "\<forall>b\<in>B. disk_get (sha3 b) (md_new disk) \<in> {[], b}"
  shows "db_has sha3 B (md_new disk) {#}"
  using assms by (auto simp: db_has_def clean_def md_new_def refs_def)

lemma db_has_commit: "db_has sha3 B d M \<Longrightarrow> db_has sha3 B (ov_commit d) M"
proof (cases "md_disk d")
  case (Some fg)
  assume has: "db_has sha3 B d M"
  obtain f g where fg: "fg = (f, g)" by (cases fg)
  let ?d = "ov_commit d"
  have get: "disk_get h ?d = (case md_main d h of Some (v, n) \<Rightarrow> if n > 0 then v else disk_get h d | None \<Rightarrow> disk_get h d)" for h
    using Some fg by (simp add: ov_commit_def disk_get_def split: option.splits)
  have c: "clean sha3 B d" using has by (simp add: db_has_def)
  hence c': "clean sha3 B ?d" unfolding clean_def get
    using Some fg by (auto simp: ov_commit_def split: option.splits)
  have look: "ov_lookup h ?d = disk_get h ?d" for h
    using Some fg by (simp add: ov_lookup_def md_lookup_def ov_commit_def Let_def)
  have read: "disk_get (sha3 b) ?d = b" if b: "b \<in># M" for b
  proof -
    have B: "b \<in> B" "b \<noteq> []" using has b c by (auto simp: db_has_def clean_def)
    have v: "md_main d (sha3 b) = Some (v, n) \<Longrightarrow> v = b" for v n using c B(1) by (auto simp: clean_def)
    have "disk_get (sha3 b) d \<in> {[], b}" using c B(1) by (auto simp: clean_def)
    moreover have "refs d (sha3 b) > 0" if "disk_get (sha3 b) d = []"
      using has that b by (simp add: db_has_def)
    ultimately show ?thesis unfolding get using v by (auto simp: refs_def split: option.splits)
  qed
  have "refs ?d h = count (image_mset sha3 M) h" if z: "disk_get h ?d = []" for h
  proof -
    have "\<forall>b\<in>#M. sha3 b \<noteq> h" using read z c has by (auto simp: db_has_def clean_def)
    hence "h \<notin># image_mset sha3 M" by auto
    hence "count (image_mset sha3 M) h = 0" by (simp only: not_in_iff)
    thus ?thesis using Some fg by (simp add: ov_commit_def refs_def)
  qed
  with c' read has look show ?thesis by (auto simp: db_has_def)
qed (simp add: ov_commit_def)

lemma db_has_purge: "db_has sha3 B d M \<Longrightarrow> db_has sha3 B (md_purge d) M"
proof -
  assume has: "db_has sha3 B d M"
  let ?d = "md_purge d"
  have c: "clean sha3 B d" using has by (simp add: db_has_def)
  have get: "disk_get h ?d = disk_get h d" for h by (simp add: disk_get_def md_purge_def)
  have refs: "refs ?d h = refs d h" for h by (simp add: refs_def md_purge_def split: option.splits)
  have "clean sha3 B ?d" using c unfolding clean_def get by (auto simp: md_purge_def split: option.splits if_splits)
  moreover have "ov_lookup (sha3 b) ?d = b" if b: "b \<in># M" for b
  proof -
    have B: "b \<in> B" "b \<noteq> []" using has b c by (auto simp: db_has_def clean_def)
    have "disk_get (sha3 b) d \<in> {[], b}" using c B(1) by (auto simp: clean_def)
    moreover have "refs d (sha3 b) > 0" if "disk_get (sha3 b) d = []"
      using has that b by (simp add: db_has_def)
    moreover have "md_main d (sha3 b) = Some (v, n) \<Longrightarrow> v = b" for v n using c B(1) by (auto simp: clean_def)
    moreover have "\<not> md_enforceRefs d" using c by (simp add: clean_def)
    ultimately show ?thesis
      by (auto simp: ov_lookup_def md_lookup_def md_purge_def Let_def disk_get_def refs_def split: option.splits)
  qed
  ultimately show ?thesis using has by (auto simp: db_has_def get refs)
qed

lemma rep_init:
  assumes "db_has sha3 B d M" "[0x80] \<in> B" "n < 2 ^ 31"
  shows "\<exists>root d'. trie_init sha3 d = Inr (root, d') \<and> trie_rep sha3 n B d' root TEmpty M"
proof -
  let ?d = "md_insert (sha3 [0x80]) [0x80] d"
  have has: "db_has sha3 B ?d (add_mset [0x80] M)" by (rule db_has_insert [OF assms(1,2)])
  hence l: "ov_lookup (sha3 [0x80]) ?d = [0x80]" by (rule db_has_read) simp
  hence "ov_exists (sha3 [0x80]) ?d" by (auto simp: ov_exists_def md_exists_def ov_lookup_def md_lookup_def Let_def split: option.splits if_splits)
  hence "trie_init sha3 d = Inr (sha3 [0x80], ?d)" using l by (simp add: trie_init_def trie_setRoot_def forceInsertNode_def Let_def)
  moreover have "t_ok n TEmpty" by (simp add: t_ok_def)
  ultimately show ?thesis using has assms(3) by (simp add: trie_rep_def stored_def)
qed

section \<open>The disk\<close>

definition out_disk :: "'a tdb \<Rightarrow> ((u256 \<Rightarrow> bytes) \<times> (u256 \<Rightarrow> bytes)) option" where
  "out_disk r = md_disk (case r of Inl (_, d) \<Rightarrow> d | Inr (_, d) \<Rightarrow> d)"

lemma out_disk_result [simp]: "out_disk (Inr (x, d)) = md_disk d" "out_disk (Inl (e, d)) = md_disk d"
  by (simp_all add: out_disk_def)

lemma out_disk_bind [simp]:
  "(\<And>x d. out_disk (g x d) = md_disk d) \<Longrightarrow> out_disk (bindE r (\<lambda>(x, d). g x d)) = out_disk r"
  by (cases r) (auto simp: out_disk_def)

lemma out_disk_bind2 [simp]:
  "(\<And>x y d. out_disk (g x y d) = md_disk d) \<Longrightarrow> out_disk (bindE r (\<lambda>((x, y), d). g x y d)) = out_disk r"
  by (cases r) (auto simp: out_disk_def)

lemma out_disk_case [simp]:
  "(\<And>x y. out_disk (g x y) = D) \<Longrightarrow> out_disk (case p of (x, y) \<Rightarrow> g x y) = D"
  by (cases p) simp

lemma out_disk_if [simp]: "out_disk (if b then x else y) = (if b then out_disk x else out_disk y)"
  by simp

lemma out_disk_lift [simp]: "out_disk (td_lift r d) = md_disk d"
  by (simp add: td_lift_def split: sum.splits)

lemma out_disk_assert [simp]: "out_disk (td_assert b d) = md_disk d"
  by (simp add: td_assert_def)

lemma md_disk_kill [simp]: "md_disk (killNode r h d) = md_disk d" "md_disk (forceKillNode h d) = md_disk d"
  by (auto simp: killNode_def forceKillNode_def ov_kill_def md_kill_def split: option.splits)

lemma md_disk_insert [simp]: "md_disk (md_insert h v d) = md_disk d"
  by (simp add: md_insert_def)

lemma out_disk_read [simp]:
  "out_disk (td_isLeaf r d) = md_disk d" "out_disk (td_node h d) = md_disk d" "out_disk (td_child r d) = md_disk d"
  "out_disk (td_count r d) = md_disk d" "out_disk (isTwoItemNode r d) = md_disk d"
  by (simp_all add: td_isLeaf_def td_node_def td_child_def td_count_def isTwoItemNode_def)

lemma out_disk_write [simp]:
  "out_disk (streamNode sha3 b s d) = md_disk d" "out_disk (place sha3 r k v d) = md_disk d"
  by (simp_all add: streamNode_def forceInsertNode_def Let_def place_def)

lemma out_disk_split [simp]: "out_disk (cleve sha3 r n d) = md_disk d" "out_disk (branch sha3 r d) = md_disk d"
  by (simp_all add: cleve_def branch_def Let_def)

lemma out_disk_join [simp]:
  "out_disk (graft r d) = md_disk d" "out_disk (merge_node r i d) = md_disk d" "out_disk (rejig r i d) = md_disk d"
  by (simp_all add: graft_def merge_node_def rejig_def Let_def)

lemma out_disk_rec [simp]:
  "(\<And>r k d. out_disk (rc r k d) = md_disk d) \<Longrightarrow> out_disk (deleteAtAux sha3 rc s r k d) = md_disk d"
  "(\<And>r h k v b d. out_disk (mrg r h k v b d) = md_disk d) \<Longrightarrow> out_disk (mergeAtAux sha3 mrg s r k v d) = md_disk d"
  by (simp_all add: deleteAtAux_def mergeAtAux_def)

lemma out_disk_mergeAt [simp]: "out_disk (mergeAt sha3 f r h k v b d) = md_disk d"
proof (induction f arbitrary: r h k v b d)
  case (Suc f)
  then show ?case by (simp add: Let_def)
qed simp

lemma out_disk_deleteAt [simp]: "out_disk (deleteAt sha3 f r k d) = md_disk d"
proof (induction f arbitrary: r k d)
  case (Suc f)
  then show ?case by (simp add: Let_def)
qed simp

lemma out_disk_trie [simp]:
  "out_disk (trie_insert sha3 root k v d) = md_disk d" "out_disk (trie_remove sha3 root k d) = md_disk d"
  "out_disk (trie_init sha3 d) = md_disk d"
  by (simp_all add: trie_insert_def trie_remove_def trie_init_def trie_setRoot_def forceInsertNode_def Let_def)

section \<open>Sequences of operations\<close>

datatype trie_op = Insert bytes bytes | Remove bytes | Commit | Purge

fun trie_run :: "(bytes \<Rightarrow> u256) \<Rightarrow> trie_op list \<Rightarrow> u256 \<Rightarrow> mem_db \<Rightarrow> u256 tdb" where
  "trie_run sha3 [] root d = Inr (root, d)"
| "trie_run sha3 (Insert k v # ops) root d = bindE (trie_insert sha3 root k v d) (\<lambda>(root, d). trie_run sha3 ops root d)"
| "trie_run sha3 (Remove k # ops) root d = bindE (trie_remove sha3 root k d) (\<lambda>(root, d). trie_run sha3 ops root d)"
| "trie_run sha3 (Commit # ops) root d = trie_run sha3 ops root (ov_commit d)"
| "trie_run sha3 (Purge # ops) root d = trie_run sha3 ops root (md_purge d)"

definition new_trie :: "(bytes \<Rightarrow> u256) \<Rightarrow> trie_op list \<Rightarrow> mem_db \<Rightarrow> u256 tdb" where
  "new_trie sha3 ops d = bindE (trie_init sha3 d) (\<lambda>(root, d). trie_run sha3 ops root d)"

fun run_map :: "trie_op list \<Rightarrow> (bytes \<rightharpoonup> bytes) \<Rightarrow> bytes \<rightharpoonup> bytes" where
  "run_map [] m = m"
| "run_map (Insert k v # ops) m = run_map ops (m(k \<mapsto> v))"
| "run_map (Remove k # ops) m = run_map ops (m(k := None))"
| "run_map (Commit # ops) m = run_map ops m"
| "run_map (Purge # ops) m = run_map ops m"

fun op_ok :: "nat \<Rightarrow> trie_op \<Rightarrow> bool" where
  "op_ok m (Insert k v) = (length k = m \<and> length v < 2 ^ 60)"
| "op_ok m (Remove k) = (length k = m)"
| "op_ok m x = True"

fun run_tree :: "trie \<Rightarrow> trie_op list \<Rightarrow> trie" where
  "run_tree t [] = t"
| "run_tree t (Insert k v # ops) = run_tree (ins t (asNibbles k) v) ops"
| "run_tree t (Remove k # ops) = run_tree (rm t (asNibbles k)) ops"
| "run_tree t (Commit # ops) = run_tree t ops"
| "run_tree t (Purge # ops) = run_tree t ops"

text \<open>The nodes that a run makes: no two of them may have the same hash.\<close>

fun run_makes :: "(bytes \<Rightarrow> u256) \<Rightarrow> trie \<Rightarrow> trie_op list \<Rightarrow> bytes set" where
  "run_makes sha3 t [] = {}"
| "run_makes sha3 t (Insert k v # ops) = (let u = ins t (asNibbles k) v in
     insert (t_enc sha3 u) (ins_makes sha3 t (asNibbles k) v \<union> run_makes sha3 u ops))"
| "run_makes sha3 t (Remove k # ops) = (let u = rm t (asNibbles k) in
     insert (t_enc sha3 u) (del_makes sha3 t (asNibbles k) \<union> run_makes sha3 u ops))"
| "run_makes sha3 t (Commit # ops) = run_makes sha3 t ops"
| "run_makes sha3 t (Purge # ops) = run_makes sha3 t ops"

definition run_nodes :: "(bytes \<Rightarrow> u256) \<Rightarrow> trie_op list \<Rightarrow> bytes set" where
  "run_nodes sha3 ops = insert [0x80] (run_makes sha3 TEmpty ops)"

lemma below_enc: "[] \<notin># below sha3 t"
proof (induction t)
  case (TBranch ts)
  have "[] \<notin># sum_list (map (nodes sha3) ts)" using TBranch
    by (induction ts) (auto simp: nodes_def own_def eq_commute [of "[]"])
  then show ?case by simp
qed (auto simp: nodes_def own_def eq_commute [of "[]"])

lemma ins_makes_enc: "[] \<notin> ins_makes sha3 t k v"
proof -
  have "[] \<notin> cleft sha3 t k" by (induction sha3 t k rule: cleft.induct) (simp_all add: eq_commute [of "[]"])
  thus ?thesis by (simp add: ins_makes_def below_enc)
qed

lemma del_makes_enc: "[] \<notin> del_makes sha3 t k"
  by (induction sha3 t k rule: del_makes.induct) (simp_all add: eq_commute [of "[]"] split: option.splits)

lemma run_makes_enc: "[] \<notin> run_makes sha3 t ops"
  by (induction sha3 t ops rule: run_makes.induct) (simp_all add: Let_def ins_makes_enc del_makes_enc eq_commute [of "[]"])

lemma rm_ok: "t_ok n t \<Longrightarrow> path_ok n k \<Longrightarrow> t_ok n (rm t k)"
  by (auto simp: rm_def dest: del_ok split: option.splits)

lemma run_tree_ok:
  "t_ok (2 * m) t \<Longrightarrow> \<forall>x\<in>set ops. op_ok m x \<Longrightarrow> t_ok (2 * m) (run_tree t ops) \<and>
   (\<forall>k. length k = m \<longrightarrow> look (run_tree t ops) (asNibbles k) = run_map ops f k)"
  if "\<And>k. length k = m \<Longrightarrow> look t (asNibbles k) = f k"
  using that
proof (induction t ops arbitrary: f rule: run_tree.induct)
  case (2 t k v ops)
  have k: "length k = m" "length v < 2 ^ 60" using "2.prems" by auto
  have p: "path_ok (2 * m) (asNibbles k)" using path_asNibbles [of k] k by simp
  have wf: "t_wf (2 * m) t" using "2.prems" by (simp add: t_ok_def)
  have "look (ins t (asNibbles k) v) (asNibbles k') = (f(k \<mapsto> v)) k'" if "length k' = m" for k'
    using look_ins [OF wf p] "2.prems"(3) that asNibbles_inj [of k' k] by (auto simp: length_asNibbles)
  from "2.IH" [OF ins_ok [OF "2.prems"(1) p k(2)] _ this] "2.prems"(2) show ?case by (simp del: fun_upd_apply)
next
  case (3 t k ops)
  have k: "length k = m" using "3.prems" by auto
  have p: "path_ok (2 * m) (asNibbles k)" using path_asNibbles [of k] k by simp
  have wf: "t_wf (2 * m) t" using "3.prems" by (simp add: t_ok_def)
  have "look (rm t (asNibbles k)) (asNibbles k') = (f(k := None)) k'" if "length k' = m" for k'
    using look_rm [OF wf p] "3.prems"(3) that asNibbles_inj [of k' k] by (auto simp: length_asNibbles)
  from "3.IH" [OF rm_ok [OF "3.prems"(1) p] _ this] "3.prems"(2) show ?case by (simp del: fun_upd_apply)
qed auto

lemma run_rep:
  "trie_rep sha3 (2 * m) B d root t M \<Longrightarrow> \<forall>x\<in>set ops. op_ok m x \<Longrightarrow> run_makes sha3 t ops \<subseteq> B \<Longrightarrow>
   \<exists>root' d'. trie_run sha3 ops root d = Inr (root', d') \<and> trie_rep sha3 (2 * m) B d' root' (run_tree t ops) M"
proof (induction sha3 t ops arbitrary: root d rule: run_makes.induct)
  case (2 sha3 t k v ops)
  have k: "length k = m" "length v < 2 ^ 60" using "2.prems" by auto
  have "ins_makes sha3 t (asNibbles k) v \<subseteq> B" "t_enc sha3 (ins t (asNibbles k) v) \<in> B"
    and B: "run_makes sha3 (ins t (asNibbles k) v) ops \<subseteq> B" using "2.prems"(3) by (auto simp: Let_def)
  with rep_insert [of sha3 k B d root t M v] "2.prems"(1) k obtain root1 d1 where
    "trie_insert sha3 root k v d = Inr (root1, d1)" "trie_rep sha3 (2 * m) B d1 root1 (ins t (asNibbles k) v) M" by auto
  with "2.IH" [OF refl _ _ B, of d1 root1] "2.prems"(2) show ?case by simp
next
  case (3 sha3 t k ops)
  have k: "length k = m" using "3.prems" by auto
  have "del_makes sha3 t (asNibbles k) \<subseteq> B" "t_enc sha3 (rm t (asNibbles k)) \<in> B"
    and B: "run_makes sha3 (rm t (asNibbles k)) ops \<subseteq> B" using "3.prems"(3) by (auto simp: Let_def)
  with rep_remove [of sha3 k B d root t M] "3.prems"(1) k obtain root1 d1 where
    "trie_remove sha3 root k d = Inr (root1, d1)" "trie_rep sha3 (2 * m) B d1 root1 (rm t (asNibbles k)) M" by auto
  with "3.IH" [OF refl _ _ B, of d1 root1] "3.prems"(2) show ?case by simp
next
  case (4 sha3 t ops)
  from "4.IH" [of "ov_commit d" root] "4.prems" show ?case by (simp add: trie_rep_def db_has_commit)
next
  case (5 sha3 t ops)
  from "5.IH" [of "md_purge d" root] "5.prems" show ?case by (simp add: trie_rep_def db_has_purge)
qed simp

lemma new_trie_rep:
  assumes "db_has sha3 B d M" "run_nodes sha3 ops \<subseteq> B" "\<forall>x\<in>set ops. op_ok m x" "2 * m < 2 ^ 31"
  shows "\<exists>root d'. new_trie sha3 ops d = Inr (root, d') \<and>
    trie_rep sha3 (2 * m) B d' root (run_tree TEmpty ops) M"
proof -
  obtain root1 d1 where "trie_init sha3 d = Inr (root1, d1)" and r: "trie_rep sha3 (2 * m) B d1 root1 TEmpty M"
    using rep_init [OF assms(1) _ assms(4)] assms(2) by (auto simp: run_nodes_def)
  moreover have "run_makes sha3 TEmpty ops \<subseteq> B" using assms(2) by (auto simp: run_nodes_def)
  note run_rep [OF r assms(3) this]
  ultimately show ?thesis by (simp add: new_trie_def)
qed

lemma run_look:
  assumes "\<forall>x\<in>set ops. op_ok m x" "length k = m"
  shows "look (run_tree TEmpty ops) (asNibbles k) = run_map ops Map.empty k"
  using run_tree_ok [of m TEmpty Map.empty ops] assms by (simp add: t_ok_def)

section \<open>What is left in memory\<close>

lemma run_disk: "md_disk d = None \<Longrightarrow> trie_run sha3 ops root d = Inr (root', d') \<Longrightarrow> md_disk d' = None"
proof (induction sha3 ops root d rule: trie_run.induct)
  case (2 sha3 k v ops root d)
  then obtain root1 d1 where t: "trie_insert sha3 root k v d = Inr (root1, d1)" "trie_run sha3 ops root1 d1 = Inr (root', d')"
    by (auto simp: bindE_Inr_iff)
  have "md_disk d1 = None" using out_disk_trie(1) [of sha3 root k v d] t(1) "2.prems"(1) by simp
  with 2 t show ?case by auto
next
  case (3 sha3 k ops root d)
  then obtain root1 d1 where t: "trie_remove sha3 root k d = Inr (root1, d1)" "trie_run sha3 ops root1 d1 = Inr (root', d')"
    by (auto simp: bindE_Inr_iff)
  have "md_disk d1 = None" using out_disk_trie(2) [of sha3 root k d] t(1) "3.prems"(1) by simp
  with 3 t show ?case by auto
next
  case (4 sha3 ops root d)
  then show ?case by (simp add: ov_commit_def)
next
  case (5 sha3 ops root d)
  then show ?case by (simp add: md_purge_def)
qed simp

lemma new_trie_disk: "md_disk d = None \<Longrightarrow> new_trie sha3 ops d = Inr (root', d') \<Longrightarrow> md_disk d' = None"
proof -
  assume n: "md_disk d = None" "new_trie sha3 ops d = Inr (root', d')"
  then obtain root1 d1 where t: "trie_init sha3 d = Inr (root1, d1)" "trie_run sha3 ops root1 d1 = Inr (root', d')"
    by (auto simp: new_trie_def bindE_Inr_iff)
  have "md_disk d1 = None" using out_disk_trie(3) [of sha3 d] t(1) n(1) by simp
  from run_disk [OF this t(2)] show ?thesis .
qed

lemma run_nodes_enc: "[] \<notin> run_nodes sha3 ops"
  by (simp add: run_nodes_def run_makes_enc)

lemma db_has_purged:
  assumes "db_has sha3 B d M" "md_disk d = None"
  shows "md_main (md_purge d) h = (if count (image_mset sha3 M) h = 0 then None
    else Some (THE b. b \<in># M \<and> sha3 b = h, count (image_mset sha3 M) h))"
proof -
  have g: "disk_get h d = []" using assms(2) by (simp add: disk_get_def)
  have r: "refs d h = count (image_mset sha3 M) h" using assms(1) g by (simp add: db_has_def)
  have c: "clean sha3 B d" "set_mset M \<subseteq> B" using assms(1) by (simp_all add: db_has_def)
  show ?thesis
  proof (cases "count (image_mset sha3 M) h = 0")
    case True
    have "refs d h = 0" unfolding r by (rule True)
    hence "md_main (md_purge d) h = None" by (auto simp: md_purge_def refs_def split: option.splits)
    with True show ?thesis by (simp only: refl if_True)
  next
    case False
    hence "h \<in># image_mset sha3 M" by (simp only: count_eq_zero_iff not_not)
    then obtain b where b: "b \<in># M" "sha3 b = h" by auto
    have u: "b' = b" if "b' \<in># M \<and> sha3 b' = h" for b'
      using that b c unfolding clean_def inj_on_def by blast
    have the: "(THE b. b \<in># M \<and> sha3 b = h) = b" by (rule the_equality) (use b in blast, erule u)
    have "refs d h \<noteq> 0" unfolding r by (rule False)
    then obtain v n where vn: "md_main d h = Some (v, n)" "refs d h = n" by (auto simp: refs_def split: option.splits)
    have n: "count (image_mset sha3 M) h = n" unfolding r [symmetric] by (rule vn(2))
    have "b \<in> B" using b(1) c(2) by blast
    hence "v = b" using c(1) vn(1) unfolding clean_def b(2) [symmetric] by blast
    moreover have "n \<noteq> 0" using False unfolding n .
    ultimately show ?thesis using vn(1) unfolding the n by (simp add: md_purge_def)
  qed
qed

end
